(* ===== verification/Prelude.thy ===== *)
theory Prelude
  imports Main "HOL-Library.Char_ord" "HOL-Library.List_Lexorder" "HOL-Library.Sublist"
    "HOL-Library.Multiset"
begin

section \<open>Prelude: Go values, errors and strings\<close>

text \<open>
  Shared vocabulary of the development. A Go \<open>string\<close> and a Go \<open>[]byte\<close> are both a
  list of bytes, so both are \<^typ>\<open>string\<close> (a \<open>char\<close> is one byte). A Go function that
  returns \<open>(T, error)\<close> returns \<open>error + 'a\<close>: \<open>Inl\<close> is the error, \<open>Inr\<close> the value.
  Functions that change state take it and return it beside the result; \<open>bind_st\<close> is the
  \<open>if err != nil { return err }\<close> of the source for them. A panic is the error value
  \<open>Panic\<close>, so that it is visible in every theorem about results.
  The string functions are those of Go's package \<open>strings\<close> that the sources call.
\<close>

named_theorems result_simps "unfolding of the result combinators"

subsection \<open>Names for the model's types\<close>

type_synonym bytes = string
type_synonym hash = bytes
type_synonym uuid = string
type_synonym time = int

subsection \<open>Errors\<close>

text \<open>
  The sentinel errors that the sources compare with \<open>errors.Is\<close>, and \<open>ErrMsg\<close> for the
  anonymous ones made by \<open>fmt.Errorf\<close> and \<open>errors.New\<close>.
\<close>

datatype error =
    EOF
  | ErrStop
  | ErrNotFound
  | ErrPathNotFound
  | ErrEntryExit
  | ErrBlobMustBeLeaf
  | ErrNotDirectory
  | ErrRepoIDMisMatch
  | ErrActionNotMatch
  | ErrConflict
  | ErrCanceled
  | ErrIsReachable
  | ErrDuplicate
  | ErrUserNotFound
  | ErrCode int
  | ErrMsg string
  | Panic string

type_synonym 'a result = "error + 'a"

subsection \<open>State passing with errors\<close>

definition return_st :: "'a \<Rightarrow> 's \<Rightarrow> 'a result \<times> 's" where
  "return_st x s = (Inr x, s)"

definition fail_st :: "error \<Rightarrow> 's \<Rightarrow> 'a result \<times> 's" where
  "fail_st e s = (Inl e, s)"

definition bind_st ::
  "('s \<Rightarrow> 'a result \<times> 's) \<Rightarrow> ('a \<Rightarrow> 's \<Rightarrow> 'b result \<times> 's) \<Rightarrow> 's \<Rightarrow> 'b result \<times> 's" where
  "bind_st m f s = (case m s of (Inl e, s1) \<Rightarrow> (Inl e, s1) | (Inr x, s1) \<Rightarrow> f x s1)"

definition lift_st :: "('s \<Rightarrow> 'a result) \<Rightarrow> 's \<Rightarrow> 'a result \<times> 's" where
  "lift_st g s = (g s, s)"

definition bind_res :: "'a result \<Rightarrow> ('a \<Rightarrow> 'b result) \<Rightarrow> 'b result" where
  "bind_res r f = (case r of Inl e \<Rightarrow> Inl e | Inr x \<Rightarrow> f x)"

lemma return_st_simps [result_simps, simp]: "return_st x s = (Inr x, s)"
  by (simp add: return_st_def)

lemma fail_st_simps [result_simps, simp]: "fail_st e s = (Inl e, s)"
  by (simp add: fail_st_def)

lemma lift_st_simps [result_simps, simp]: "lift_st g s = (g s, s)"
  by (simp add: lift_st_def)

lemma bind_st_Inl [result_simps, simp]: "m s = (Inl e, s1) \<Longrightarrow> bind_st m f s = (Inl e, s1)"
  by (simp add: bind_st_def)

lemma bind_st_Inr [result_simps, simp]: "m s = (Inr x, s1) \<Longrightarrow> bind_st m f s = f x s1"
  by (simp add: bind_st_def)

lemma bind_st_InrE:
  assumes "bind_st m f s = (Inr y, s2)"
  obtains x s1 where "m s = (Inr x, s1)" and "f x s1 = (Inr y, s2)"
  using assms by (auto simp: bind_st_def split: prod.splits sum.splits)

lemma bind_res_simps [result_simps, simp]:
  "bind_res (Inl e) f = Inl e" "bind_res (Inr x) f = f x"
  by (simp_all add: bind_res_def)

lemma bind_res_InrE:
  assumes "bind_res r f = Inr y"
  obtains x where "r = Inr x" and "f x = Inr y"
  using assms by (auto simp: bind_res_def split: sum.splits)

text \<open>A loop that fills a slice and returns at the first error.\<close>

fun map_res :: "('a \<Rightarrow> 'b result) \<Rightarrow> 'a list \<Rightarrow> 'b list result" where
  "map_res f [] = Inr []"
| "map_res f (x # xs) =
     (case f x of Inl e \<Rightarrow> Inl e
      | Inr y \<Rightarrow> (case map_res f xs of Inl e \<Rightarrow> Inl e | Inr ys \<Rightarrow> Inr (y # ys)))"

lemma map_res_Inr: "(\<And>x. x \<in> set xs \<Longrightarrow> f x = Inr (g x)) \<Longrightarrow> map_res f xs = Inr (map g xs)"
  by (induction xs) auto

lemma map_res_map [simp]: "map_res g (map f xs) = map_res (\<lambda>x. g (f x)) xs"
  by (induction xs) (auto split: sum.splits)

lemma map_res_length: "map_res f xs = Inr ys \<Longrightarrow> length ys = length xs"
  by (induction xs arbitrary: ys) (auto split: sum.splits)

subsection \<open>Package \<open>strings\<close>\<close>

text \<open>\<open>strings.Compare\<close>: bytewise lexicographic order as -1, 0 or 1.\<close>

definition str_compare :: "string \<Rightarrow> string \<Rightarrow> int" where
  "str_compare a b = (if a = b then 0 else if a < b then -1 else 1)"

definition has_prefix :: "string \<Rightarrow> string \<Rightarrow> bool" where
  "has_prefix s p = (take (length p) s = p)"

definition has_suffix :: "string \<Rightarrow> string \<Rightarrow> bool" where
  "has_suffix s p = (length p \<le> length s \<and> drop (length s - length p) s = p)"

definition trim_prefix :: "string \<Rightarrow> string \<Rightarrow> string" where
  "trim_prefix s p = (if has_prefix s p then drop (length p) s else s)"

definition trim_suffix :: "string \<Rightarrow> string \<Rightarrow> string" where
  "trim_suffix s p = (if has_suffix s p then take (length s - length p) s else s)"

text \<open>\<open>strings.Split\<close> at a one-byte separator; never empty.\<close>

fun split_on :: "char \<Rightarrow> string \<Rightarrow> string list" where
  "split_on c [] = [[]]"
| "split_on c (x # xs) =
     (if x = c then [] # split_on c xs
      else (case split_on c xs of [] \<Rightarrow> [[x]] | y # ys \<Rightarrow> (x # y) # ys))"

text \<open>\<open>strings.Join\<close>.\<close>

fun join_with :: "string \<Rightarrow> string list \<Rightarrow> string" where
  "join_with sep [] = []"
| "join_with sep [x] = x"
| "join_with sep (x # y # ys) = x @ sep @ join_with sep (y # ys)"

text \<open>\<open>strings.Trim\<close> with a cut set given as a predicate on bytes.\<close>

definition trim_by :: "(char \<Rightarrow> bool) \<Rightarrow> string \<Rightarrow> string" where
  "trim_by P s = rev (dropWhile P (rev (dropWhile P s)))"

text \<open>
  \<open>strings.TrimSpace\<close>: \<open>unicode.IsSpace\<close> holds for the ASCII white space and for the
  characters whose UTF-8 encodings follow it in the list.
\<close>

definition space_seqs :: "string list" where
  "space_seqs = map (\<lambda>c. [c]) [CHR 0x09, CHR 0x0A, CHR 0x0B, CHR 0x0C, CHR 0x0D, CHR '' ''] @
     [[CHR 0xC2, CHR 0x85], [CHR 0xC2, CHR 0xA0], [CHR 0xE1, CHR 0x9A, CHR 0x80]] @
     map (\<lambda>c. [CHR 0xE2, CHR 0x80, c])
       [CHR 0x80, CHR 0x81, CHR 0x82, CHR 0x83, CHR 0x84, CHR 0x85, CHR 0x86, CHR 0x87, CHR 0x88,
        CHR 0x89, CHR 0x8A, CHR 0xA8, CHR 0xA9, CHR 0xAF] @
     [[CHR 0xE2, CHR 0x81, CHR 0x9F], [CHR 0xE3, CHR 0x80, CHR 0x80]]"

function strip_seqs :: "string list \<Rightarrow> string \<Rightarrow> string" where
  "strip_seqs seqs s =
     (case find (\<lambda>p. p \<noteq> [] \<and> has_prefix s p) seqs of
        None \<Rightarrow> s
      | Some p \<Rightarrow> strip_seqs seqs (drop (length p) s))"
  by pat_completeness auto
termination
proof (relation "measure (length \<circ> snd)", goal_cases)
  case (2 seqs s p)
  then have "p \<noteq> []" "take (length p) s = p" by (auto simp: find_Some_iff has_prefix_def)
  then show ?case by (cases s) auto
qed simp

declare strip_seqs.simps [simp del]

definition trim_space :: "string \<Rightarrow> string" where
  "trim_space s = rev (strip_seqs (map rev space_seqs) (rev (strip_seqs space_seqs s)))"

text \<open>\<open>path.Clean\<close> and \<open>path.Join\<close> for slash-separated paths.\<close>

fun clean_segs :: "bool \<Rightarrow> string list \<Rightarrow> string list \<Rightarrow> string list" where
  "clean_segs rooted acc [] = rev acc"
| "clean_segs rooted acc (seg # segs) =
     (if seg = [] \<or> seg = ''.'' then clean_segs rooted acc segs
      else if seg = ''..'' then
        (if acc \<noteq> [] \<and> hd acc \<noteq> ''..'' then clean_segs rooted (tl acc) segs
         else if rooted then clean_segs rooted acc segs
         else clean_segs rooted (seg # acc) segs)
      else clean_segs rooted (seg # acc) segs)"

definition path_Clean :: "string \<Rightarrow> string" where
  "path_Clean p =
     (let rooted = (p \<noteq> [] \<and> hd p = CHR ''/'');
          out = (if rooted then ''/'' else []) @
            join_with ''/'' (clean_segs rooted [] (split_on (CHR ''/'') p))
      in if out = [] then ''.'' else out)"

definition path_Join :: "string list \<Rightarrow> string" where
  "path_Join elems =
     (let es = filter (\<lambda>e. e \<noteq> []) elems in
      if es = [] then [] else path_Clean (join_with ''/'' es))"

lemma str_compare_0 [simp]: "str_compare a b = 0 \<longleftrightarrow> a = b"
  by (simp add: str_compare_def)

lemma str_compare_less [simp]: "str_compare a b = -1 \<longleftrightarrow> a < b" "str_compare a b < 0 \<longleftrightarrow> a < b"
  by (auto simp: str_compare_def)

lemma str_compare_greater [simp]: "str_compare a b = 1 \<longleftrightarrow> b < a" "0 < str_compare a b \<longleftrightarrow> b < a"
  by (auto simp: str_compare_def)

lemma has_prefix_iff: "has_prefix s p \<longleftrightarrow> prefix p s"
  by (auto simp: has_prefix_def prefix_def) (metis append_take_drop_id)

lemma has_prefix_Nil [simp]: "has_prefix s []"
  by (simp add: has_prefix_def)

lemma split_on_neq_Nil [simp]: "split_on c s \<noteq> []"
  by (cases s) (auto split: list.splits)

lemma join_split_on: "join_with [c] (split_on c s) = s"
proof (induction s)
  case Nil
  then show ?case by simp
next
  case (Cons x xs)
  obtain y ys where eq: "split_on c xs = y # ys"
    by (meson neq_Nil_conv split_on_neq_Nil)
  then show ?case
    using Cons by (cases ys) auto
qed

lemma split_on_no_sep: "\<forall>seg \<in> set (split_on c s). c \<notin> set seg"
  by (induction s) (auto split: list.splits)

lemma split_on_id: "c \<notin> set s \<Longrightarrow> split_on c s = [s]"
  by (induction s) auto

lemma split_on_append: "c \<notin> set s \<Longrightarrow> split_on c (s @ c # t) = s # split_on c t"
  by (induction s) auto

lemma split_join_on:
  "ss \<noteq> [] \<Longrightarrow> \<forall>s \<in> set ss. c \<notin> set s \<Longrightarrow> split_on c (join_with [c] ss) = ss"
  by (induction "[c]" ss rule: join_with.induct) (auto simp: split_on_id split_on_append)

subsection \<open>Sorting by a key\<close>

text \<open>
  The sources sort with \<open>sort.Slice\<close> and \<open>sort.Sort\<close>, which order equal keys arbitrarily.
  The model uses \<^const>\<open>sort_key\<close>; where the keys are distinct every sorting function
  returns this list.
\<close>

lemma sorted_key_unique:
  assumes "sorted (map f xs)" "sorted (map f ys)" "distinct (map f xs)" "set xs = set ys"
    "distinct (map f ys)"
  shows "xs = (ys :: 'a list)"
proof -
  have inj: "inj_on f (set xs \<union> set ys)"
    using assms(3,4) by (simp add: distinct_map)
  have "map f xs = map f ys"
    using assms by (intro sorted_distinct_set_unique) auto
  with inj show ?thesis
    by (metis map_inj_on)
qed

lemma distinct_map_sort_key [simp]: "distinct (map f (sort_key g xs)) = distinct (map f xs)"
proof -
  have "mset (map f (sort_key g xs)) = mset (map f xs)" by simp
  then show ?thesis by (rule mset_eq_imp_distinct_iff)
qed

lemma sum_list_map_sort_key [simp]:
  "sum_list (map f (sort_key g xs)) = (sum_list (map f xs) :: 'b::comm_monoid_add)"
proof -
  have "sum_mset (mset (map f (sort_key g xs))) = sum_mset (mset (map f xs))" by simp
  then show ?thesis by (simp only: sum_mset_sum_list)
qed

lemma sort_key_idem: "sorted (map f xs) \<Longrightarrow> sort_key f xs = xs"
  by (simp add: sorted_sort_id sort_key_id_if_sorted)

end
