(* ===== verification/File_Mode.thy ===== *)
theory File_Mode
  imports Prelude "HOL-Library.Word"
begin

unbundle bit_operations_syntax

section \<open>File modes: models/filemode/filemode.go\<close>

text \<open>
  \<open>FileMode\<close> is a \<open>uint32\<close>, here \<^typ>\<open>32 word\<close>, with git's mode constants. The theory
  holds the constants, the predicates, the octal printer and parser (\<open>String\<close>, \<open>New\<close>), the
  little-endian bytes, the JSON pair and the two translations to and from \<open>os.FileMode\<close>.
  Its lemmas show the round trips and which modes each predicate accepts.
\<close>

type_synonym file_mode = "32 word"
type_synonym os_mode = "32 word"

definition Empty :: file_mode where "Empty = 0"
definition Dir :: file_mode where "Dir = 16384" \<comment> \<open>0040000\<close>
definition Regular :: file_mode where "Regular = 33188" \<comment> \<open>0100644\<close>
definition Deprecated :: file_mode where "Deprecated = 33204" \<comment> \<open>0100664\<close>
definition Executable :: file_mode where "Executable = 33261" \<comment> \<open>0100755\<close>
definition Symlink :: file_mode where "Symlink = 40960" \<comment> \<open>0120000\<close>
definition Submodule :: file_mode where "Submodule = 57344" \<comment> \<open>0160000\<close>

lemmas mode_consts = Empty_def Dir_def Regular_def Deprecated_def Executable_def Symlink_def
  Submodule_def

subsection \<open>Predicates\<close>

definition IsMalformed :: "file_mode \<Rightarrow> bool" where
  "IsMalformed m \<longleftrightarrow> m \<noteq> Dir \<and> m \<noteq> Regular \<and> m \<noteq> Deprecated \<and> m \<noteq> Executable \<and>
     m \<noteq> Symlink \<and> m \<noteq> Submodule"

definition IsRegular :: "file_mode \<Rightarrow> bool" where
  "IsRegular m \<longleftrightarrow> m = Regular \<or> m = Deprecated"

definition IsFile :: "file_mode \<Rightarrow> bool" where
  "IsFile m \<longleftrightarrow> m = Regular \<or> m = Deprecated \<or> m = Executable \<or> m = Symlink"

subsection \<open>Octal text\<close>

text \<open>\<open>fmt.Sprintf("%07o", uint32(m))\<close>: octal digits, zero-padded to seven places.\<close>

definition oct_digit :: "nat \<Rightarrow> char" where
  "oct_digit d = char_of (48 + d)"

fun oct_digits :: "nat \<Rightarrow> string" where
  "oct_digits n = (if n < 8 then [oct_digit n] else oct_digits (n div 8) @ [oct_digit (n mod 8)])"

declare oct_digits.simps [simp del]

definition pad_zeros :: "nat \<Rightarrow> string \<Rightarrow> string" where
  "pad_zeros w s = replicate (w - length s) (CHR ''0'') @ s"

definition mode_String :: "file_mode \<Rightarrow> string" where
  "mode_String m = pad_zeros 7 (oct_digits (unat m))"

text \<open>
  \<open>strconv.ParseUint(s, 8, 32)\<close>: the empty string and any byte that is no octal digit are
  syntax errors; a value past 32 bits is a range error, reported when it is passed.
\<close>

definition oct_value :: "char \<Rightarrow> nat option" where
  "oct_value c = (let n = of_char c in if 48 \<le> n \<and> n < 56 then Some (n - 48) else None)"

fun parse_oct_loop :: "nat \<Rightarrow> string \<Rightarrow> nat result" where
  "parse_oct_loop n [] = Inr n"
| "parse_oct_loop n (c # cs) =
     (case oct_value c of
        None \<Rightarrow> Inl (ErrMsg ''invalid syntax'')
      | Some d \<Rightarrow>
          if n * 8 + d > 4294967295 then Inl (ErrMsg ''value out of range'')
          else parse_oct_loop (n * 8 + d) cs)"

definition parse_uint8_32 :: "string \<Rightarrow> nat result" where
  "parse_uint8_32 s = (if s = [] then Inl (ErrMsg ''invalid syntax'') else parse_oct_loop 0 s)"

definition mode_New :: "string \<Rightarrow> file_mode result" where
  "mode_New s = (case parse_uint8_32 s of Inl e \<Rightarrow> Inl e | Inr n \<Rightarrow> Inr (of_nat n))"

lemma oct_value_digit [simp]: "d < 8 \<Longrightarrow> oct_value (oct_digit d) = Some d"
  by (simp add: oct_value_def oct_digit_def Let_def)

lemma parse_oct_loop_append:
  "parse_oct_loop n (xs @ ys) =
     (case parse_oct_loop n xs of Inl e \<Rightarrow> Inl e | Inr k \<Rightarrow> parse_oct_loop k ys)"
  by (induction xs arbitrary: n) (auto split: option.splits)

lemma parse_oct_zeros: "parse_oct_loop 0 (replicate k (CHR ''0'')) = Inr 0"
  by (induction k) (auto simp: oct_value_def)

lemma parse_oct_digits: "n \<le> 4294967295 \<Longrightarrow> parse_oct_loop 0 (oct_digits n) = Inr n"
proof (induction n rule: oct_digits.induct)
  case (1 n)
  show ?case
  proof (cases "n < 8")
    case True
    then show ?thesis by (simp add: oct_digits.simps [of n])
  next
    case False
    with 1 have "parse_oct_loop 0 (oct_digits (n div 8)) = Inr (n div 8)" by simp
    with False "1.prems" show ?thesis
      by (simp add: oct_digits.simps [of n] parse_oct_loop_append div_mult_mod_eq)
  qed
qed

lemma oct_digits_neq_Nil [simp]: "oct_digits n \<noteq> []"
  by (subst oct_digits.simps) simp

lemma mode_String_Dir: "mode_String Dir = ''0040000''"
  by (simp add: mode_String_def Dir_def oct_digits.simps pad_zeros_def oct_digit_def, code_simp)

lemma mode_String_neq_Nil [simp]: "mode_String m \<noteq> []"
  by (simp add: mode_String_def pad_zeros_def)

lemma length_mode_String: "7 \<le> length (mode_String m)"
  by (simp add: mode_String_def pad_zeros_def)

lemma unat_le_max32: "unat (m :: 32 word) \<le> 4294967295"
  using unsigned_less [of m, where ?'a = nat] by simp

lemma parse_mode_String: "parse_uint8_32 (mode_String m) = Inr (unat m)"
  by (simp add: parse_uint8_32_def mode_String_def pad_zeros_def parse_oct_loop_append
      parse_oct_zeros parse_oct_digits unat_le_max32)

lemma mode_New_String: "mode_New (mode_String m) = Inr m"
  by (simp add: mode_New_def parse_mode_String)

text \<open>What the parser accepts fits its 32 bits, so the conversion loses nothing.\<close>

lemma parse_oct_loop_bound:
  "n \<le> 4294967295 \<Longrightarrow> parse_oct_loop n s = Inr k \<Longrightarrow> k \<le> 4294967295"
  by (induction s arbitrary: n) (auto simp: not_less split: option.splits if_splits)

lemma mode_New_unat: "mode_New s = Inr m \<Longrightarrow> parse_uint8_32 s = Inr (unat m)"
proof -
  assume "mode_New s = Inr m"
  then obtain k where k: "parse_uint8_32 s = Inr k" "m = of_nat k"
    by (auto simp: mode_New_def split: sum.splits)
  then have "k \<le> 4294967295"
    using parse_oct_loop_bound [of 0 s k] by (auto simp: parse_uint8_32_def split: if_splits)
  with k show ?thesis by (simp add: unat_of_nat)
qed

subsection \<open>Bytes: \<open>binary.LittleEndian.PutUint32\<close>\<close>

definition mode_Bytes :: "file_mode \<Rightarrow> 8 word list" where
  "mode_Bytes m = [ucast m, ucast (drop_bit 8 m), ucast (drop_bit 16 m), ucast (drop_bit 24 m)]"

definition le_uint32 :: "8 word list \<Rightarrow> 32 word" where
  "le_uint32 bs = foldr (\<lambda>b acc. push_bit 8 acc OR ucast b) bs 0"

lemma le_uint32_Bytes: "le_uint32 (mode_Bytes m) = m"
proof (rule bit_word_eqI)
  fix n assume "n < LENGTH(32)"
  then consider "n < 8" | "8 \<le> n" "n < 16" | "16 \<le> n" "n < 24" | "24 \<le> n" "n < 32"
    by fastforce
  then show "bit (le_uint32 (mode_Bytes m)) n = bit m n"
    by cases (auto simp: le_uint32_def mode_Bytes_def bit_simps)
qed

subsection \<open>Translation to and from \<open>os.FileMode\<close>\<close>

definition ModeDir :: os_mode where "ModeDir = push_bit 31 1"
definition ModeTemporary :: os_mode where "ModeTemporary = push_bit 28 1"
definition ModeSymlink :: os_mode where "ModeSymlink = push_bit 27 1"
definition ModeDevice :: os_mode where "ModeDevice = push_bit 26 1"
definition ModeNamedPipe :: os_mode where "ModeNamedPipe = push_bit 25 1"
definition ModeSocket :: os_mode where "ModeSocket = push_bit 24 1"
definition ModeCharDevice :: os_mode where "ModeCharDevice = push_bit 21 1"
definition ModeIrregular :: os_mode where "ModeIrregular = push_bit 19 1"
definition ModePerm :: os_mode where "ModePerm = 511"

definition ModeType :: os_mode where
  "ModeType = ModeDir OR ModeSymlink OR ModeNamedPipe OR ModeSocket OR ModeDevice OR
     ModeCharDevice OR ModeIrregular"

lemmas os_consts = ModeDir_def ModeTemporary_def ModeSymlink_def ModeDevice_def
  ModeNamedPipe_def ModeSocket_def ModeCharDevice_def ModeIrregular_def ModePerm_def ModeType_def

definition isSetCharDevice :: "os_mode \<Rightarrow> bool" where
  "isSetCharDevice m \<longleftrightarrow> m AND ModeCharDevice \<noteq> 0"

definition isSetTemporary :: "os_mode \<Rightarrow> bool" where
  "isSetTemporary m \<longleftrightarrow> m AND ModeTemporary \<noteq> 0"

definition isSetUserExecutable :: "os_mode \<Rightarrow> bool" where
  "isSetUserExecutable m \<longleftrightarrow> m AND 64 \<noteq> 0"

definition isSetSymLink :: "os_mode \<Rightarrow> bool" where
  "isSetSymLink m \<longleftrightarrow> m AND ModeSymlink \<noteq> 0"

definition NewFromOSFileMode :: "os_mode \<Rightarrow> file_mode result" where
  "NewFromOSFileMode m =
     (if m AND ModeType = 0 then
        if isSetTemporary m then Inl (ErrMsg ''no equivalent git mode'')
        else if isSetCharDevice m then Inl (ErrMsg ''no equivalent git mode'')
        else if isSetUserExecutable m then Inr Executable
        else Inr Regular
      else if m AND ModeDir \<noteq> 0 then Inr Dir
      else if isSetSymLink m then Inr Symlink
      else Inl (ErrMsg ''no equivalent git mode''))"

definition ToOSFileMode :: "file_mode \<Rightarrow> os_mode result" where
  "ToOSFileMode m =
     (if m = Dir then Inr (ModePerm OR ModeDir)
      else if m = Submodule then Inr (ModePerm OR ModeDir)
      else if m = Regular then Inr 420
      else if m = Deprecated then Inr 420
      else if m = Executable then Inr 493
      else if m = Symlink then Inr (ModePerm OR ModeSymlink)
      else Inl (ErrMsg ''malformed mode''))"

text \<open>
  \<open>MarshalJSON\<close> quotes the octal text. \<open>UnmarshalJSON\<close> first runs \<open>encoding/json\<close> on the
  data, the parameter \<open>json_string\<close>.
\<close>

definition mode_MarshalJSON :: "file_mode \<Rightarrow> bytes" where
  "mode_MarshalJSON m = ''\"'' @ mode_String m @ ''\"''"

definition mode_UnmarshalJSON :: "(bytes \<Rightarrow> string result) \<Rightarrow> bytes \<Rightarrow> file_mode result" where
  "mode_UnmarshalJSON json_string data =
     (case json_string data of
        Inl e \<Rightarrow> Inl e
      | Inr s \<Rightarrow> (case mode_New s of Inl e \<Rightarrow> Inl e | Inr v \<Rightarrow> Inr v))"

lemma ToOS_malformed_iff: "(\<exists>e. ToOSFileMode m = Inl e) \<longleftrightarrow> IsMalformed m"
  by (auto simp: ToOSFileMode_def IsMalformed_def)

text \<open>
  Writing a mode to the file system and reading it back gives the mode that git keeps:
  \<open>Deprecated\<close> comes back as \<open>Regular\<close> and \<open>Submodule\<close> as \<open>Dir\<close>, the others unchanged.
\<close>

lemma FromOS_ToOS:
  "ToOSFileMode m = Inr om \<Longrightarrow>
   NewFromOSFileMode om =
     Inr (if m = Deprecated then Regular else if m = Submodule then Dir else m)"
  by (auto simp: ToOSFileMode_def NewFromOSFileMode_def mode_consts os_consts isSetTemporary_def
      isSetCharDevice_def isSetUserExecutable_def isSetSymLink_def split: if_splits)

end
