(* ===== verification/Tables.thy ===== *)
theory Tables
  imports Prelude
begin

section \<open>Database tables\<close>

text \<open>
  The repositories under models/ build one SQL statement per call with the package bun. A table
  is modelled as the list of its rows. The operations below are the statements' meaning:
  \<open>SELECT ... LIMIT 1\<close>, \<open>SELECT\<close>, \<open>INSERT\<close> with a unique key (which fails on a duplicate),
  \<open>INSERT ... ON CONFLICT DO NOTHING\<close> (bun's \<open>Ignore\<close>), \<open>UPDATE\<close> and \<open>DELETE\<close> with the
  number of affected rows. \<open>sql.ErrNoRows\<close> is \<^const>\<open>ErrNotFound\<close>, as models/error.go says.
  The locale \<open>keyed_store\<close> is what the code above the tables relies on: what a lookup returns
  after an insert.
\<close>

definition tbl_get :: "('r \<Rightarrow> bool) \<Rightarrow> 'r list \<Rightarrow> 'r result" where
  "tbl_get P t = (case find P t of None \<Rightarrow> Inl ErrNotFound | Some r \<Rightarrow> Inr r)"

definition tbl_list :: "('r \<Rightarrow> bool) \<Rightarrow> 'r list \<Rightarrow> 'r list" where
  "tbl_list P t = filter P t"

definition tbl_insert :: "('r \<Rightarrow> 'k) \<Rightarrow> 'r \<Rightarrow> 'r list \<Rightarrow> 'r result \<times> 'r list" where
  "tbl_insert key r t =
     (if key r \<in> set (map key t) then (Inl ErrDuplicate, t) else (Inr r, t @ [r]))"

definition tbl_insert_ignore :: "('r \<Rightarrow> 'k) \<Rightarrow> 'r \<Rightarrow> 'r list \<Rightarrow> 'r list" where
  "tbl_insert_ignore key r t = (if key r \<in> set (map key t) then t else t @ [r])"

definition tbl_update :: "('r \<Rightarrow> bool) \<Rightarrow> ('r \<Rightarrow> 'r) \<Rightarrow> 'r list \<Rightarrow> 'r list" where
  "tbl_update P f t = map (\<lambda>r. if P r then f r else r) t"

definition tbl_delete :: "('r \<Rightarrow> bool) \<Rightarrow> 'r list \<Rightarrow> nat \<times> 'r list" where
  "tbl_delete P t = (length (filter P t), filter (\<lambda>r. \<not> P r) t)"

definition unique_keys :: "('r \<Rightarrow> 'k) \<Rightarrow> 'r list \<Rightarrow> bool" where
  "unique_keys key t \<longleftrightarrow> distinct (map key t)"

lemma find_append: "find P (xs @ ys) = (case find P xs of None \<Rightarrow> find P ys | Some x \<Rightarrow> Some x)"
  by (induction xs) auto

lemma tbl_get_Inr_iff: "tbl_get P t = Inr r \<longleftrightarrow> find P t = Some r"
  by (auto simp: tbl_get_def split: option.splits)

lemma tbl_get_InrD: "tbl_get P t = Inr r \<Longrightarrow> r \<in> set t \<and> P r"
  by (auto simp: tbl_get_Inr_iff find_Some_iff)

lemma tbl_get_Inl_iff: "tbl_get P t = Inl e \<longleftrightarrow> e = ErrNotFound \<and> (\<forall>r \<in> set t. \<not> P r)"
  by (auto simp: tbl_get_def find_None_iff split: option.splits) (metis find_None_iff option.distinct(1))

lemma tbl_get_key:
  assumes "unique_keys key t" "r \<in> set t" "\<And>x. P x \<longleftrightarrow> key x = key r"
  shows "tbl_get P t = Inr r"
proof -
  have "x = r" if "x \<in> set t" "P x" for x
    using assms that by (auto simp: unique_keys_def distinct_map inj_on_def)
  then show ?thesis
    using assms(2,3)
    by (auto simp: tbl_get_def find_None_iff find_Some_iff split: option.splits)
qed

lemma unique_keys_insert:
  "unique_keys key t \<Longrightarrow> tbl_insert key r t = (res, t') \<Longrightarrow> unique_keys key t'"
  by (auto simp: unique_keys_def tbl_insert_def split: if_splits)

lemma unique_keys_insert_ignore: "unique_keys key t \<Longrightarrow> unique_keys key (tbl_insert_ignore key r t)"
  by (auto simp: unique_keys_def tbl_insert_ignore_def)

lemma unique_keys_delete: "unique_keys key t \<Longrightarrow> tbl_delete P t = (n, t') \<Longrightarrow> unique_keys key t'"
  by (auto simp: unique_keys_def tbl_delete_def distinct_map_filter)

lemma unique_keys_update:
  "unique_keys key t \<Longrightarrow> (\<And>r. key (f r) = key r) \<Longrightarrow> unique_keys key (tbl_update P f t)"
  by (simp add: unique_keys_def tbl_update_def comp_def if_distrib cong: if_cong)

text \<open>
  A store of rows under a key, seen through its two calls. The client sees the first row that
  was put under a key, and nothing it does makes a row disappear or change.
\<close>

locale keyed_store =
  fixes put :: "'r \<Rightarrow> 's \<Rightarrow> 's"
    and lookup :: "'k \<Rightarrow> 's \<Rightarrow> 'r option"
    and key :: "'r \<Rightarrow> 'k"
  assumes lookup_put: "lookup k (put r s) = (if lookup k s = None \<and> k = key r then Some r else lookup k s)"
begin

definition extends :: "'s \<Rightarrow> 's \<Rightarrow> bool" where
  "extends s s' \<longleftrightarrow> (\<forall>k r. lookup k s = Some r \<longrightarrow> lookup k s' = Some r)"

lemma extends_refl: "extends s s"
  by (simp add: extends_def)

lemma extends_trans: "extends s s' \<Longrightarrow> extends s' s'' \<Longrightarrow> extends s s''"
  by (simp add: extends_def)

lemma extends_put: "extends s (put r s)"
  by (simp add: extends_def lookup_put)

lemma lookup_key_put: "\<exists>r'. lookup (key r) (put r s) = Some r'"
  by (cases "lookup (key r) s") (simp_all add: lookup_put)

lemma put_twice: "lookup k (put r (put r s)) = lookup k (put r s)"
  by (auto simp: lookup_put)

end

end
