(* ===== verification/Object_Model.thy ===== *)
theory Object_Model
  imports File_Mode Hashing Tables
begin

section \<open>Blobs, trees and their table: models/tree.go\<close>

text \<open>
  The object database. A \<open>Blob\<close> describes a stored file, a \<open>TreeNode\<close> a directory with its
  sorted entries; both live as rows (\<open>FileTree\<close>) of one table, keyed by hash and repository.
  An object's hash is the MD5 digest of its type, content and mode. The digest function and the
  clock are the fields of \<open>env\<close>. The functions on the table are those of \<open>FileTreeRepo\<close>.
  The lemmas show how a stored object is found again and that directories are kept sorted.
\<close>

record env =
  env_md5 :: "bytes \<Rightarrow> hash"
  env_now :: time

datatype object_type = InvalidObject | CommitObject | TreeObject | BlobObject | TagObject

fun object_code :: "object_type \<Rightarrow> int" where
  "object_code InvalidObject = 0"
| "object_code CommitObject = 1"
| "object_code TreeObject = 2"
| "object_code BlobObject = 3"
| "object_code TagObject = 4"

record tree_entry =
  te_name :: string
  te_is_dir :: bool
  te_hash :: hash

text \<open>As for changes, the sort is taken as stable; the names in a stored directory are distinct.\<close>

definition SortSubObjects :: "tree_entry list \<Rightarrow> tree_entry list" where
  "SortSubObjects subs = sort_key te_name subs"

definition NewRootTreeEntry :: "hash \<Rightarrow> tree_entry" where
  "NewRootTreeEntry h = \<lparr>te_name = [], te_is_dir = True, te_hash = h\<rparr>"

definition TreeEntry_Equal :: "tree_entry \<Rightarrow> tree_entry \<Rightarrow> bool" where
  "TreeEntry_Equal e other \<longleftrightarrow> te_hash e = te_hash other \<and> te_name e = te_name other"

record property = prop_mode :: file_mode

definition DefaultDirProperty :: property where
  "DefaultDirProperty = \<lparr>prop_mode = Dir\<rparr>"

definition DefaultLeafProperty :: property where
  "DefaultLeafProperty = \<lparr>prop_mode = Regular\<rparr>"

definition Property_ToMap :: "property \<Rightarrow> (string \<times> string) list" where
  "Property_ToMap p = [(''mode'', mode_String (prop_mode p))]"

text \<open>The loop over \<open>ToMap\<close> writes each key and value; the map has one entry.\<close>

definition write_props :: "property \<Rightarrow> hasher \<Rightarrow> hasher" where
  "write_props p s = fold (\<lambda>(k, v) s. WriteString v (WriteString k s)) (Property_ToMap p) s"

definition md5_sum :: "env \<Rightarrow> hasher \<Rightarrow> hash" where
  "md5_sum E s = env_md5 E (case h_md5 s of None \<Rightarrow> [] | Some w \<Rightarrow> w)"

subsection \<open>Blobs\<close>

record blob =
  bl_hash :: hash
  bl_repo :: uuid
  bl_check_sum :: hash
  bl_type :: object_type
  bl_size :: int
  bl_props :: property
  bl_created :: time
  bl_updated :: time

definition blob_calculateHash :: "env \<Rightarrow> blob \<Rightarrow> hash" where
  "blob_calculateHash E b =
     md5_sum E (write_props (bl_props b)
       (hasher_Write (bl_check_sum b)
         (WriteInt8 (object_code (bl_type b)) (NewHasher [Md5]))))"

definition NewBlob :: "env \<Rightarrow> property \<Rightarrow> uuid \<Rightarrow> hash \<Rightarrow> int \<Rightarrow> blob" where
  "NewBlob E props repo check_sum sz =
     (let b = \<lparr>bl_hash = [], bl_repo = repo, bl_check_sum = check_sum, bl_type = BlobObject,
               bl_size = sz, bl_props = props, bl_created = env_now E, bl_updated = env_now E\<rparr>
      in b\<lparr>bl_hash := blob_calculateHash E b\<rparr>)"

subsection \<open>Rows and tree nodes\<close>

record file_tree =
  ft_hash :: hash
  ft_repo :: uuid
  ft_check_sum :: hash
  ft_type :: object_type
  ft_size :: int
  ft_props :: property
  ft_subs :: "tree_entry list"
  ft_created :: time
  ft_updated :: time

record tree_node =
  tn_hash :: hash
  tn_repo :: uuid
  tn_type :: object_type
  tn_subs :: "tree_entry list"
  tn_props :: property
  tn_created :: time
  tn_updated :: time

definition Blob_FileTree :: "blob \<Rightarrow> file_tree" where
  "Blob_FileTree b =
     \<lparr>ft_hash = bl_hash b, ft_repo = bl_repo b, ft_check_sum = bl_check_sum b, ft_type = bl_type b,
      ft_size = bl_size b, ft_props = bl_props b, ft_subs = [],
      ft_created = bl_created b, ft_updated = bl_updated b\<rparr>"

definition tree_calculateHash :: "env \<Rightarrow> tree_node \<Rightarrow> hash" where
  "tree_calculateHash E tn =
     md5_sum E (write_props (tn_props tn)
       (fold (\<lambda>obj s. WriteString (te_name obj) (hasher_Write (te_hash obj) s)) (tn_subs tn)
         (WriteInt8 (object_code (tn_type tn)) (NewHasher [Md5]))))"

definition models_NewTreeNode :: "env \<Rightarrow> property \<Rightarrow> uuid \<Rightarrow> tree_entry list \<Rightarrow> tree_node" where
  "models_NewTreeNode E props repo subs =
     (let t = \<lparr>tn_hash = [], tn_repo = repo, tn_type = TreeObject, tn_subs = SortSubObjects subs,
               tn_props = props, tn_created = env_now E, tn_updated = env_now E\<rparr>
      in t\<lparr>tn_hash := tree_calculateHash E t\<rparr>)"

definition TreeNode_FileTree :: "tree_node \<Rightarrow> file_tree" where
  "TreeNode_FileTree t =
     \<lparr>ft_hash = tn_hash t, ft_repo = tn_repo t, ft_check_sum = [], ft_type = tn_type t,
      ft_size = 0, ft_props = tn_props t, ft_subs = tn_subs t,
      ft_created = tn_created t, ft_updated = tn_updated t\<rparr>"

definition FileTree_Blob :: "file_tree \<Rightarrow> blob" where
  "FileTree_Blob f =
     \<lparr>bl_hash = ft_hash f, bl_repo = ft_repo f, bl_check_sum = ft_check_sum f, bl_type = ft_type f,
      bl_size = ft_size f, bl_props = ft_props f, bl_created = ft_created f, bl_updated = ft_updated f\<rparr>"

definition FileTree_TreeNode :: "file_tree \<Rightarrow> tree_node" where
  "FileTree_TreeNode f =
     \<lparr>tn_hash = ft_hash f, tn_repo = ft_repo f, tn_type = ft_type f, tn_subs = ft_subs f,
      tn_props = ft_props f, tn_created = ft_created f, tn_updated = ft_updated f\<rparr>"

subsection \<open>The repository of one repository's objects\<close>

type_synonym tree_table = "file_tree list"

definition ft_key :: "file_tree \<Rightarrow> hash \<times> uuid" where
  "ft_key f = (ft_hash f, ft_repo f)"

definition put_tree :: "file_tree \<Rightarrow> tree_table \<Rightarrow> tree_table" where
  "put_tree = tbl_insert_ignore ft_key"

definition lookup_tree :: "hash \<times> uuid \<Rightarrow> tree_table \<Rightarrow> file_tree option" where
  "lookup_tree k t = find (\<lambda>f. ft_key f = k) t"

definition FileTreeRepo_Insert :: "uuid \<Rightarrow> file_tree \<Rightarrow> tree_table \<Rightarrow> file_tree result \<times> tree_table" where
  "FileTreeRepo_Insert repo obj t =
     (if ft_repo obj \<noteq> repo then (Inl ErrRepoIDMisMatch, t)
      else (Inr obj, put_tree obj t))"

definition FileTreeRepo_Get :: "uuid \<Rightarrow> hash option \<Rightarrow> tree_table \<Rightarrow> file_tree result" where
  "FileTreeRepo_Get repo hash t =
     tbl_get (\<lambda>f. ft_repo f = repo \<and> (case hash of None \<Rightarrow> True | Some h \<Rightarrow> ft_hash f = h)) t"

definition FileTreeRepo_Blob :: "uuid \<Rightarrow> hash \<Rightarrow> tree_table \<Rightarrow> blob result" where
  "FileTreeRepo_Blob repo h t =
     (case lookup_tree (h, repo) t of None \<Rightarrow> Inl ErrNotFound | Some f \<Rightarrow> Inr (FileTree_Blob f))"

definition FileTreeRepo_TreeNode :: "uuid \<Rightarrow> hash \<Rightarrow> tree_table \<Rightarrow> tree_node result" where
  "FileTreeRepo_TreeNode repo h t =
     (case lookup_tree (h, repo) t of None \<Rightarrow> Inl ErrNotFound | Some f \<Rightarrow> Inr (FileTree_TreeNode f))"

definition FileTreeRepo_Count :: "uuid \<Rightarrow> tree_table \<Rightarrow> nat" where
  "FileTreeRepo_Count repo t = length (tbl_list (\<lambda>f. ft_repo f = repo) t)"

definition FileTreeRepo_List :: "uuid \<Rightarrow> tree_table \<Rightarrow> file_tree list" where
  "FileTreeRepo_List repo t = tbl_list (\<lambda>f. ft_repo f = repo) t"

definition FileTreeRepo_Delete :: "uuid \<Rightarrow> hash option \<Rightarrow> tree_table \<Rightarrow> nat \<times> tree_table" where
  "FileTreeRepo_Delete repo hash t =
     tbl_delete (\<lambda>f. ft_repo f = repo \<and> (case hash of None \<Rightarrow> True | Some h \<Rightarrow> ft_hash f = h)) t"

lemma find_key_Some: "key r = k \<Longrightarrow> r \<in> set t \<Longrightarrow> \<exists>r'. find (\<lambda>f. key f = k) t = Some r'"
  by (induction t) auto

lemma lookup_put_tree:
  "lookup_tree k (put_tree f t) =
     (if lookup_tree k t = None \<and> k = ft_key f then Some f else lookup_tree k t)"
proof (cases "ft_key f \<in> set (map ft_key t)")
  case True
  then have "k = ft_key f \<Longrightarrow> lookup_tree k t \<noteq> None"
    by (auto simp: lookup_tree_def find_None_iff)
  with True show ?thesis by (auto simp: put_tree_def tbl_insert_ignore_def)
next
  case False
  then show ?thesis
    by (simp add: put_tree_def tbl_insert_ignore_def lookup_tree_def find_append split: option.split) auto
qed

interpretation trees: keyed_store put_tree lookup_tree ft_key
  by unfold_locales (rule lookup_put_tree)

lemma lookup_tree_key: "lookup_tree (h, repo) t = Some f \<Longrightarrow> ft_hash f = h \<and> ft_repo f = repo"
  by (auto simp: lookup_tree_def find_Some_iff ft_key_def)

lemma FileTreeRepo_Insert_Inr:
  "FileTreeRepo_Insert repo obj t = (Inr o', t') \<longleftrightarrow> ft_repo obj = repo \<and> o' = obj \<and> t' = put_tree obj t"
  by (auto simp: FileTreeRepo_Insert_def)

lemma FileTreeRepo_Insert_extends:
  "FileTreeRepo_Insert repo obj t = (r, t') \<Longrightarrow> trees.extends t t'"
  by (auto simp: FileTreeRepo_Insert_def trees.extends_put trees.extends_refl split: if_splits)

subsection \<open>Digests and sorted directories\<close>

definition tree_bytes :: "tree_entry list \<Rightarrow> property \<Rightarrow> bytes" where
  "tree_bytes subs p =
     byte_of 2 # concat (map (\<lambda>e. te_hash e @ te_name e) subs) @ ''mode'' @ mode_String (prop_mode p)"

lemma h_md5_fold_subs:
  "h_md5 (fold (\<lambda>obj s. WriteString (te_name obj) (hasher_Write (te_hash obj) s)) subs s) =
     map_option (\<lambda>w. w @ concat (map (\<lambda>e. te_hash e @ te_name e) subs)) (h_md5 s)"
  by (induction subs arbitrary: s)
    (auto simp: WriteString_def option.map_comp comp_def option.map_ident)

lemma tree_calculateHash_bytes:
  "tn_type t = TreeObject \<Longrightarrow> tree_calculateHash E t = env_md5 E (tree_bytes (tn_subs t) (tn_props t))"
  by (simp add: tree_calculateHash_def md5_sum_def write_props_def Property_ToMap_def WriteString_def
      h_md5_fold_subs [unfolded WriteString_def] WriteInt8_def tree_bytes_def)

lemma blob_calculateHash_bytes:
  "blob_calculateHash E b =
     env_md5 E (byte_of (object_code (bl_type b)) # bl_check_sum b @ ''mode'' @
       mode_String (prop_mode (bl_props b)))"
  by (simp add: blob_calculateHash_def md5_sum_def write_props_def Property_ToMap_def
      WriteString_def WriteInt8_def)

lemma sorted_SortSubObjects: "sorted (map te_name (SortSubObjects subs))"
  by (simp add: SortSubObjects_def)

lemma set_SortSubObjects [simp]: "set (SortSubObjects subs) = set subs"
  by (simp add: SortSubObjects_def)

lemma distinct_SortSubObjects [simp]:
  "distinct (map te_name (SortSubObjects subs)) = distinct (map te_name subs)"
  by (simp add: SortSubObjects_def)

lemma models_NewTreeNode_simps [simp]:
  "tn_subs (models_NewTreeNode E p r subs) = SortSubObjects subs"
  "tn_repo (models_NewTreeNode E p r subs) = r"
  "tn_type (models_NewTreeNode E p r subs) = TreeObject"
  "tn_props (models_NewTreeNode E p r subs) = p"
  "tn_hash (models_NewTreeNode E p r subs) = env_md5 E (tree_bytes (SortSubObjects subs) p)"
  by (simp_all add: models_NewTreeNode_def Let_def tree_calculateHash_bytes)

lemma FileTree_roundtrip [simp]:
  "FileTree_Blob (Blob_FileTree b) = b" "FileTree_TreeNode (TreeNode_FileTree t) = t"
  by (simp_all add: FileTree_Blob_def Blob_FileTree_def FileTree_TreeNode_def TreeNode_FileTree_def)

lemma ft_key_FileTree [simp]:
  "ft_key (TreeNode_FileTree t) = (tn_hash t, tn_repo t)"
  "ft_key (Blob_FileTree b) = (bl_hash b, bl_repo b)"
  by (simp_all add: ft_key_def TreeNode_FileTree_def Blob_FileTree_def)

end
