(* ===== verification/Commit_Graph.thy ===== *)
theory Commit_Graph
  imports Object_Model
begin

section \<open>Commits and their table: models/commit.go, versionmgr/commit_node.go\<close>

text \<open>
  A commit row, its digest and the functions of \<open>CommitRepo\<close>. A \<open>WrapCommitNode\<close> is a commit
  with the repository it was read from; every node a walk meets has the same one, so the
  repository is the argument \<open>S\<close> of the walks: its \<open>Commit\<close> method and the text form of a hash
  that keys the walks' \<open>map[string]bool\<close>. The second half relates the parent hashes to
  reachability: what a walk that has seen some commits can still reach, and how one visit
  changes that.
\<close>

record signature =
  sig_name :: string
  sig_email :: string
  sig_when :: time

text \<open>A \<open>time.Time\<close> counts nanoseconds; \<open>Unix\<close> is the second it lies in.\<close>

definition time_Unix :: "time \<Rightarrow> int" where
  "time_Unix t = t div 1000000000"

record commit =
  cm_hash :: hash
  cm_repo :: uuid
  cm_author :: signature
  cm_committer :: signature
  cm_merge_tag :: string
  cm_message :: string
  cm_tree_hash :: hash
  cm_parents :: "hash list"
  cm_created :: time
  cm_updated :: time

definition write_signature :: "signature \<Rightarrow> hasher \<Rightarrow> hasher" where
  "write_signature g s =
     WritInt64 (time_Unix (sig_when g)) (WriteString (sig_email g) (WriteString (sig_name g) s))"

definition commit_GetHash :: "env \<Rightarrow> commit \<Rightarrow> hash" where
  "commit_GetHash E c =
     md5_sum E
       (fold hasher_Write (cm_parents c)
         (hasher_Write (cm_tree_hash c)
           (WriteString (cm_message c)
             (WriteString (cm_merge_tag c)
               (write_signature (cm_committer c)
                 (write_signature (cm_author c)
                   (WriteInt8 (object_code CommitObject) (NewHasher [Md5]))))))))"

definition NumParents :: "commit \<Rightarrow> nat" where
  "NumParents c = length (cm_parents c)"

subsection \<open>CommitRepo\<close>

definition commit_key :: "commit \<Rightarrow> hash \<times> uuid" where
  "commit_key c = (cm_hash c, cm_repo c)"

definition CommitRepo_Commit :: "uuid \<Rightarrow> commit list \<Rightarrow> hash \<Rightarrow> commit result" where
  "CommitRepo_Commit repo t h = tbl_get (\<lambda>c. cm_repo c = repo \<and> cm_hash c = h) t"

definition CommitRepo_Insert :: "uuid \<Rightarrow> commit \<Rightarrow> commit list \<Rightarrow> commit result \<times> commit list" where
  "CommitRepo_Insert repo c t =
     (if cm_repo c \<noteq> repo then (Inl ErrRepoIDMisMatch, t) else tbl_insert commit_key c t)"

definition CommitRepo_Delete :: "uuid \<Rightarrow> hash option \<Rightarrow> commit list \<Rightarrow> nat \<times> commit list" where
  "CommitRepo_Delete repo params_hash t =
     tbl_delete (\<lambda>c. cm_repo c = repo \<and> (case params_hash of None \<Rightarrow> True | Some h \<Rightarrow> cm_hash c = h)) t"

subsection \<open>The repository behind the commit nodes\<close>

record commit_store =
  cs_Commit :: "hash \<Rightarrow> commit result"
  cs_Hex :: "hash \<Rightarrow> string"

definition table_store :: "(bytes \<Rightarrow> string) \<Rightarrow> uuid \<Rightarrow> commit list \<Rightarrow> commit_store" where
  "table_store encode repo t = \<lparr>cs_Commit = CommitRepo_Commit repo t, cs_Hex = hash_Hex encode\<rparr>"

definition GetCommit :: "commit_store \<Rightarrow> hash \<Rightarrow> commit result" where
  "GetCommit S h = cs_Commit S h"

definition GetCommits :: "commit_store \<Rightarrow> hash list \<Rightarrow> commit list result" where
  "GetCommits S hs = map_res (cs_Commit S) hs"

definition Parents :: "commit_store \<Rightarrow> commit \<Rightarrow> commit list result" where
  "Parents S c = map_res (cs_Commit S) (cm_parents c)"

definition hex_of :: "commit_store \<Rightarrow> commit \<Rightarrow> string" where
  "hex_of S c = cs_Hex S (cm_hash c)"

subsection \<open>The array iterator\<close>

type_synonym 's visit = "commit \<Rightarrow> 's \<Rightarrow> unit result \<times> 's"

record array_iter =
  ai_commits :: "commit list"
  ai_idx :: int

definition newArrayCommitIter :: "commit list \<Rightarrow> array_iter" where
  "newArrayCommitIter cs = \<lparr>ai_commits = cs, ai_idx = -1\<rparr>"

definition array_Has :: "array_iter \<Rightarrow> bool" where
  "array_Has a \<longleftrightarrow> ai_idx a < int (length (ai_commits a)) - 1"

definition array_Next :: "array_iter \<Rightarrow> commit result \<times> array_iter" where
  "array_Next a =
     (if ai_idx a < int (length (ai_commits a)) - 1 then
        (let a' = a\<lparr>ai_idx := ai_idx a + 1\<rparr> in (Inr (ai_commits a' ! nat (ai_idx a')), a'))
      else (Inl EOF, a))"

text \<open>The body of \<open>ForEach\<close>: \<open>ErrStop\<close> ends the loop without an error.\<close>

fun visit_all :: "'s visit \<Rightarrow> commit list \<Rightarrow> 's \<Rightarrow> unit result \<times> 's" where
  "visit_all f [] s = (Inr (), s)"
| "visit_all f (c # cs) s =
     (case f c s of
        (Inl e, s') \<Rightarrow> (if e = ErrStop then Inr () else Inl e, s')
      | (Inr _, s') \<Rightarrow> visit_all f cs s')"

definition array_ForEach :: "array_iter \<Rightarrow> 's visit \<Rightarrow> 's \<Rightarrow> unit result \<times> 's" where
  "array_ForEach a f s = visit_all f (ai_commits a) s"

definition array_rest :: "array_iter \<Rightarrow> commit list" where
  "array_rest a = drop (nat (ai_idx a + 1)) (ai_commits a)"

definition array_ok :: "array_iter \<Rightarrow> bool" where
  "array_ok a \<longleftrightarrow> -1 \<le> ai_idx a"

lemma newArrayCommitIter_simps [simp]:
  "array_rest (newArrayCommitIter cs) = cs" "array_ok (newArrayCommitIter cs)"
  by (simp_all add: newArrayCommitIter_def array_rest_def array_ok_def)

lemma array_Next_cases:
  assumes "array_ok a"
  obtains (finished) "array_rest a = []" "array_Next a = (Inl EOF, a)"
    | (more) c a' where "array_rest a = c # array_rest a'" "array_Next a = (Inr c, a')" "array_ok a'"
proof (cases "ai_idx a < int (length (ai_commits a)) - 1")
  case True
  let ?n = "nat (ai_idx a + 1)"
  have "?n < length (ai_commits a)" "Suc ?n = nat (ai_idx a + 1 + 1)"
    using True assms unfolding array_ok_def by linarith+
  then have "array_rest a = ai_commits a ! ?n # array_rest (a\<lparr>ai_idx := ai_idx a + 1\<rparr>)"
    using Cons_nth_drop_Suc [of ?n "ai_commits a"] by (simp add: array_rest_def)
  moreover have "array_Next a = (Inr (ai_commits a ! ?n), a\<lparr>ai_idx := ai_idx a + 1\<rparr>)"
    "array_ok (a\<lparr>ai_idx := ai_idx a + 1\<rparr>)"
    using True assms by (simp_all add: array_Next_def Let_def array_ok_def)
  ultimately show ?thesis by (rule more)
next
  case False
  then show ?thesis
    by (intro finished) (simp_all add: array_Next_def array_rest_def)
qed

subsection \<open>The ForEach of the walks\<close>

text \<open>
  The four walks repeat one loop: \<open>Next\<close> until \<open>EOF\<close>, the callback on each commit. It has no
  bound; \<open>None\<close> is a loop that does not end. \<open>Next\<close> is given the callback's state, which the
  filters of a walk may read.
\<close>

partial_function (option) iter_ForEach ::
  "('s \<Rightarrow> 'i \<Rightarrow> (commit result \<times> 'i) option) \<Rightarrow> 's visit \<Rightarrow> 'i \<Rightarrow> 's \<Rightarrow> (unit result \<times> 's) option"
where
  "iter_ForEach nxt f it s =
     (case nxt s it of
        None \<Rightarrow> None
      | Some (res, it') \<Rightarrow>
          (case res of
             Inl e \<Rightarrow> Some (if e = EOF then Inr () else Inl e, s)
           | Inr c \<Rightarrow> (case f c s of (res', s') \<Rightarrow>
               (case res' of
                  Inl e \<Rightarrow> Some (if e = ErrStop then Inr () else Inl e, s')
                | Inr _ \<Rightarrow> iter_ForEach nxt f it' s'))))"

subsection \<open>Reachability\<close>

definition parent_rel :: "commit_store \<Rightarrow> (hash \<times> hash) set" where
  "parent_rel S = {(h, p). \<exists>c. cs_Commit S h = Inr c \<and> p \<in> set (cm_parents c)}"

definition ancestors :: "commit_store \<Rightarrow> hash \<Rightarrow> hash set" where
  "ancestors S h = (parent_rel S)\<^sup>* `` {h}"

definition stored_hashes :: "commit_store \<Rightarrow> hash set" where
  "stored_hashes S = {h. \<exists>c. cs_Commit S h = Inr c}"

text \<open>A history that can be walked: hashes identify commits and no parent is missing.\<close>

definition history_ok :: "commit_store \<Rightarrow> bool" where
  "history_ok S \<longleftrightarrow>
     (\<forall>h c. cs_Commit S h = Inr c \<longrightarrow> cm_hash c = h \<and> set (cm_parents c) \<subseteq> stored_hashes S) \<and>
     finite (stored_hashes S) \<and> inj (cs_Hex S)"

definition is_node :: "commit_store \<Rightarrow> commit \<Rightarrow> bool" where
  "is_node S c \<longleftrightarrow> cs_Commit S (cm_hash c) = Inr c"

text \<open>What can be reached from \<open>T\<close> over edges of \<open>R\<close> without entering \<open>V\<close>.\<close>

definition live :: "('a \<times> 'a) set \<Rightarrow> 'a set \<Rightarrow> 'a set \<Rightarrow> 'a set" where
  "live R V T = (R \<inter> (UNIV \<times> - V))\<^sup>* `` (T - V)"

lemma live_disjoint: "live R V T \<inter> V = {}"
proof -
  have "y \<notin> V" if "(x, y) \<in> (R \<inter> (UNIV \<times> - V))\<^sup>*" "x \<notin> V" for x y
    using that by (induction rule: rtrancl_induct) auto
  then show ?thesis by (auto simp: live_def)
qed

lemma live_empty [simp]: "live R V {} = {}"
  by (simp add: live_def)

lemma live_seen: "T \<subseteq> V \<Longrightarrow> live R V T = {}"
  by (simp add: live_def Diff_eq_empty_iff [THEN iffD2])

lemma live_eq_empty_iff: "live R V T = {} \<longleftrightarrow> T \<subseteq> V"
  by (auto simp: live_def Image_def)

lemma live_Diff: "live R V (T - V) = live R V T"
  by (simp add: live_def Diff_idemp)

lemma live_insert_seen: "x \<in> V \<Longrightarrow> live R V (insert x T) = live R V T"
  by (simp add: live_def insert_Diff_if)

lemma live_Un_seen: "A \<subseteq> V \<Longrightarrow> live R V (A \<union> T) = live R V T"
  by (simp add: live_def Un_Diff Diff_eq_empty_iff [THEN iffD2])

lemma live_mono: "T \<subseteq> T' \<Longrightarrow> live R V T \<subseteq> live R V T'"
  unfolding live_def by (intro Image_mono) auto

lemma live_step: "y \<in> live R V T \<Longrightarrow> (y, z) \<in> R \<Longrightarrow> z \<notin> V \<Longrightarrow> z \<in> live R V T"
  unfolding live_def by (auto intro: rtrancl_into_rtrancl)

lemma live_subset: "T - V \<subseteq> U \<Longrightarrow> (\<And>y z. y \<in> U \<Longrightarrow> (y, z) \<in> R \<Longrightarrow> z \<notin> V \<Longrightarrow> z \<in> U) \<Longrightarrow> live R V T \<subseteq> U"
proof
  fix y
  assume sub: "T - V \<subseteq> U" and step: "\<And>y z. y \<in> U \<Longrightarrow> (y, z) \<in> R \<Longrightarrow> z \<notin> V \<Longrightarrow> z \<in> U"
    and "y \<in> live R V T"
  then obtain x where "x \<in> T - V" "(x, y) \<in> (R \<inter> (UNIV \<times> - V))\<^sup>*" by (auto simp: live_def)
  from this(2,1) show "y \<in> U"
    using sub step by (induction rule: rtrancl_induct) auto
qed

lemma live_all: "live R {} {x} = R\<^sup>* `` {x}"
  by (simp add: live_def)

text \<open>One visit: the commit leaves the live set and its unseen successors stay in it.\<close>

lemma live_visit:
  assumes "x \<notin> V" "x \<in> live R V T" "T - V - {x} \<subseteq> T'" "R `` {x} - V - {x} \<subseteq> T'"
    "T' - V - {x} \<subseteq> live R V T"
  shows "live R (insert x V) T' = live R V T - {x}"
proof
  have "y \<in> live R V T - {x}" if "y \<in> T' - insert x V" for y
    using that assms(5) by auto
  moreover have "z \<in> live R V T - {x}"
    if "y \<in> live R V T - {x}" "(y, z) \<in> R" "z \<notin> insert x V" for y z
    using that live_step [of y R V T z] by auto
  ultimately show "live R (insert x V) T' \<subseteq> live R V T - {x}"
    by (intro live_subset) auto
  have T: "live R V T \<subseteq> insert x (live R (insert x V) T')"
  proof (rule live_subset)
    show "T - V \<subseteq> insert x (live R (insert x V) T')"
      using assms(3) by (auto simp: live_def)
    fix y z
    assume y: "y \<in> insert x (live R (insert x V) T')" and yz: "(y, z) \<in> R" "z \<notin> V"
    show "z \<in> insert x (live R (insert x V) T')"
    proof (cases "z = x \<or> y \<noteq> x")
      case True
      then show ?thesis using y yz by (auto intro: live_step)
    next
      case False
      then have "z \<in> T' - insert x V" using yz assms(4) by auto
      then show ?thesis by (auto simp: live_def)
    qed
  qed
  then show "live R V T - {x} \<subseteq> live R (insert x V) T'" by auto
qed

lemma live_accept:
  assumes "x \<notin> V" "T - {x} \<subseteq> T'" "R `` {x} - V - {x} \<subseteq> T'" "T' \<subseteq> insert x T \<union> R `` {x}"
  shows "live R (insert x V) T' = live R V (insert x T) - {x}"
proof (rule live_visit)
  show x: "x \<in> live R V (insert x T)" using assms(1) by (auto simp: live_def)
  have "y \<in> live R V (insert x T)" if "y \<in> T' - V" for y
  proof (cases "y \<in> insert x T")
    case True
    with that show ?thesis by (auto simp: live_def)
  next
    case False
    with that assms(4) have "(x, y) \<in> R" by auto
    with x that show ?thesis by (auto intro: live_step)
  qed
  then show "T' - V - {x} \<subseteq> live R V (insert x T)" by auto
qed (use assms in auto)

lemma live_cong: "(\<And>x. x \<notin> V \<Longrightarrow> R `` {x} = R' `` {x}) \<Longrightarrow> live R V T = live R' V T"
proof (intro equalityI live_subset)
  fix y z
  assume eq: "\<And>x. x \<notin> V \<Longrightarrow> R `` {x} = R' `` {x}"
  { assume "y \<in> live R' V T" "(y, z) \<in> R" "z \<notin> V"
    moreover have "y \<notin> V" using live_disjoint [of R' V T] calculation by auto
    ultimately show "z \<in> live R' V T" using eq [of y] by (auto intro: live_step) }
  { assume "y \<in> live R V T" "(y, z) \<in> R'" "z \<notin> V"
    moreover have "y \<notin> V" using live_disjoint [of R V T] calculation by auto
    ultimately show "z \<in> live R V T" using eq [of y] by (auto intro: live_step) }
qed (auto simp: live_def)

lemma live_finite:
  assumes "finite U" "T \<subseteq> U" "R \<subseteq> U \<times> U"
  shows "finite (live R V T)"
proof (rule finite_subset)
  show "live R V T \<subseteq> U" by (rule live_subset) (use assms in auto)
qed (rule assms(1))

lemma parent_rel_stored: "history_ok S \<Longrightarrow> parent_rel S \<subseteq> stored_hashes S \<times> stored_hashes S"
  by (fastforce simp: parent_rel_def history_ok_def stored_hashes_def)

lemma parent_rel_node: "is_node S c \<Longrightarrow> parent_rel S `` {cm_hash c} = set (cm_parents c)"
  by (auto simp: parent_rel_def is_node_def)

lemma is_nodeI: "history_ok S \<Longrightarrow> cs_Commit S h = Inr c \<Longrightarrow> is_node S c \<and> cm_hash c = h"
  by (auto simp: history_ok_def is_node_def)

lemma is_node_stored: "is_node S c \<Longrightarrow> cm_hash c \<in> stored_hashes S"
  by (auto simp: is_node_def stored_hashes_def)

lemma is_node_eq: "is_node S c \<Longrightarrow> is_node S c' \<Longrightarrow> cm_hash c = cm_hash c' \<Longrightarrow> c = c'"
  by (simp add: is_node_def)

lemma history_parents: "history_ok S \<Longrightarrow> is_node S c \<Longrightarrow> set (cm_parents c) \<subseteq> stored_hashes S"
  by (auto simp: history_ok_def is_node_def)

lemma stored_commit:
  assumes "history_ok S" "h \<in> stored_hashes S"
  obtains c where "cs_Commit S h = Inr c" "is_node S c" "cm_hash c = h"
  using assms is_nodeI by (force simp: stored_hashes_def)

lemma hex_eq_iff [simp]: "history_ok S \<Longrightarrow> cs_Hex S h = cs_Hex S h' \<longleftrightarrow> h = h'"
  by (simp add: history_ok_def inj_eq)

lemma GetCommits_stored:
  assumes "history_ok S" "set hs \<subseteq> stored_hashes S"
  shows "\<exists>cs. GetCommits S hs = Inr cs \<and> map cm_hash cs = hs \<and> (\<forall>c \<in> set cs. is_node S c)"
  using assms(2)
proof (induction hs)
  case Nil
  then show ?case by (simp add: GetCommits_def)
next
  case (Cons h hs)
  obtain c where "cs_Commit S h = Inr c" "is_node S c" "cm_hash c = h"
    using stored_commit assms(1) Cons.prems by auto
  moreover obtain cs where "GetCommits S hs = Inr cs" "map cm_hash cs = hs" "\<forall>c \<in> set cs. is_node S c"
    using Cons by auto
  ultimately show ?case by (intro exI [of _ "c # cs"]) (auto simp: GetCommits_def)
qed

text \<open>The hashes that a map keyed by \<open>Hex\<close> holds.\<close>

definition seen_hashes :: "commit_store \<Rightarrow> string set \<Rightarrow> hash set" where
  "seen_hashes S X = {h. cs_Hex S h \<in> X}"

lemma seen_hashes_simps [simp]:
  "seen_hashes S {} = {}" "h \<in> seen_hashes S X \<longleftrightarrow> cs_Hex S h \<in> X"
  "seen_hashes S (X \<union> Y) = seen_hashes S X \<union> seen_hashes S Y"
  by (auto simp: seen_hashes_def)

lemma seen_hashes_insert [simp]:
  "history_ok S \<Longrightarrow> seen_hashes S (insert (cs_Hex S h) X) = insert h (seen_hashes S X)"
  by (auto simp: seen_hashes_def)

subsection \<open>A table of commits as a history\<close>

lemma CommitRepo_Commit_Inr:
  "CommitRepo_Commit repo t h = Inr c \<Longrightarrow> c \<in> set t \<and> cm_repo c = repo \<and> cm_hash c = h"
  unfolding CommitRepo_Commit_def by (drule tbl_get_InrD) simp

lemma table_stored: "stored_hashes (table_store encode repo t) \<subseteq> cm_hash ` set t"
  by (auto simp: stored_hashes_def table_store_def dest!: CommitRepo_Commit_Inr)

lemma table_history_ok:
  assumes "inj encode"
    "\<And>c. c \<in> set t \<Longrightarrow> cm_repo c = repo \<Longrightarrow> set (cm_parents c) \<subseteq> stored_hashes (table_store encode repo t)"
  shows "history_ok (table_store encode repo t)"
proof -
  have "finite (stored_hashes (table_store encode repo t))"
    by (rule finite_subset [OF table_stored]) simp
  moreover have "inj (hash_Hex encode)"
    using assms(1) by (simp add: inj_def hash_Hex_def)
  ultimately show ?thesis
    using assms(2) by (fastforce simp: history_ok_def table_store_def dest: CommitRepo_Commit_Inr)
qed

end
