(* ===== verification/Repos.thy ===== *)
theory Repos
  imports Commit_Graph
begin

section \<open>The repositories of the metadata: models/\<close>

text \<open>
  The rows and repository functions of models/user.go, repository.go, branch.go, wip.go, tag.go
  and merge_request.go, and the transactions of repo.go. A parameter object of the source is a
  record whose fields start at Go's zero values; its setters are record updates. A query is the
  list of its \<open>Where\<close> conditions, in the order the code adds them: a nil id or nil pointer adds
  none. The package bun refuses to run a \<open>DELETE\<close> without a condition and takes a limit that
  is not positive for no limit. A column \<open>default:uuid_generate_v4()\<close> gets its value from the
  database, which is the supply \<open>db_uuids\<close>. Failures of the connection are not modelled.
\<close>

subsection \<open>Queries\<close>

definition uuid_Nil :: uuid where
  "uuid_Nil = replicate 16 (CHR 0x00)"

type_synonym 'r conds = "('r \<Rightarrow> bool) list"

definition where_id :: "uuid \<Rightarrow> ('r \<Rightarrow> uuid) \<Rightarrow> 'r conds" where
  "where_id v field = (if v = uuid_Nil then [] else [\<lambda>r. field r = v])"

definition where_opt :: "'v option \<Rightarrow> ('r \<Rightarrow> 'v) \<Rightarrow> 'r conds" where
  "where_opt v field = (case v of None \<Rightarrow> [] | Some x \<Rightarrow> [\<lambda>r. field r = x])"

definition holds :: "'r conds \<Rightarrow> 'r \<Rightarrow> bool" where
  "holds cs r \<longleftrightarrow> list_all (\<lambda>c. c r) cs"

definition q_select_one :: "'r conds \<Rightarrow> 'r list \<Rightarrow> 'r result" where
  "q_select_one cs t = tbl_get (holds cs) t"

definition q_select :: "'r conds \<Rightarrow> 'r list \<Rightarrow> 'r list" where
  "q_select cs t = tbl_list (holds cs) t"

definition q_delete :: "'r conds \<Rightarrow> 'r list \<Rightarrow> nat result \<times> 'r list" where
  "q_delete cs t =
     (if cs = [] then (Inl (ErrMsg ''bun: Update and Delete queries require at least one Where''), t)
      else (case tbl_delete (holds cs) t of (n, t') \<Rightarrow> (Inr n, t')))"

definition q_limit :: "int \<Rightarrow> 'r list \<Rightarrow> 'r list" where
  "q_limit n rows = (if n > 0 then take (nat n) rows else rows)"

datatype match_mode = ExactMatch | PrefixMatch | SuffixMatch | LikeMatch

text \<open>
  \<open>LIKE\<close>: a percent sign matches any text, an underscore one byte, a backslash takes the next
  character literally. A pattern that ends in the backslash matches nothing here.
\<close>

fun sql_like :: "string \<Rightarrow> string \<Rightarrow> bool" where
  "sql_like [] s = (s = [])"
| "sql_like (p # ps) [] = (p = CHR ''%'' \<and> sql_like ps [])"
| "sql_like (p # ps) (c # cs) =
     (if p = CHR ''%'' then sql_like ps (c # cs) \<or> sql_like (p # ps) cs
      else if p = CHR 0x5C then
        (case ps of [] \<Rightarrow> False | q # qs \<Rightarrow> q = c \<and> sql_like qs cs)
      else (p = CHR ''_'' \<or> p = c) \<and> sql_like ps cs)"

definition name_conds :: "string option \<Rightarrow> match_mode \<Rightarrow> ('r \<Rightarrow> string) \<Rightarrow> 'r conds" where
  "name_conds nm mode field =
     (case nm of
        None \<Rightarrow> []
      | Some n \<Rightarrow>
          (case mode of
             ExactMatch \<Rightarrow> [\<lambda>r. field r = n]
           | PrefixMatch \<Rightarrow> [\<lambda>r. sql_like (n @ ''%'') (field r)]
           | SuffixMatch \<Rightarrow> [\<lambda>r. sql_like (''%'' @ n) (field r)]
           | LikeMatch \<Rightarrow> [\<lambda>r. sql_like (''%'' @ n @ ''%'') (field r)]))"

text \<open>A unique constraint besides the primary key.\<close>

definition tbl_insert2 :: "('r \<Rightarrow> 'k) \<Rightarrow> ('r \<Rightarrow> 'l) \<Rightarrow> 'r \<Rightarrow> 'r list \<Rightarrow> 'r result \<times> 'r list" where
  "tbl_insert2 key1 key2 r t =
     (if key1 r \<in> set (map key1 t) \<or> key2 r \<in> set (map key2 t) then (Inl ErrDuplicate, t)
      else (Inr r, t @ [r]))"

subsection \<open>Rows\<close>

record user =
  us_id :: uuid
  us_name :: string
  us_email :: string
  us_encrypted_password :: string
  us_current_sign_in_at :: time
  us_last_sign_in_at :: time
  us_current_sign_in_ip :: string
  us_last_sign_in_ip :: string
  us_created :: time
  us_updated :: time

record repository =
  rp_id :: uuid
  rp_name :: string
  rp_owner :: uuid
  rp_HEAD :: string
  rp_visible :: bool
  rp_public_storage :: bool
  rp_namespace :: "string option"
  rp_adapter_params :: "string option"
  rp_description :: "string option"
  rp_creator :: uuid
  rp_created :: time
  rp_updated :: time

record branch =
  br_id :: uuid
  br_repo :: uuid
  br_commit :: hash
  br_name :: string
  br_description :: "string option"
  br_creator :: uuid
  br_created :: time
  br_updated :: time

datatype wip_state = Init | Completed

record wip =
  wp_id :: uuid
  wp_tree :: hash
  wp_base :: hash
  wp_repo :: uuid
  wp_ref :: uuid
  wp_state :: wip_state
  wp_creator :: uuid
  wp_created :: time
  wp_updated :: time

record tag =
  tg_id :: uuid
  tg_repo :: uuid
  tg_name :: string
  tg_creator :: uuid
  tg_target :: hash
  tg_message :: "string option"
  tg_created :: time
  tg_updated :: time

text \<open>A \<open>MergeState\<close> is an \<open>int\<close> of Go; three values have a name.\<close>

type_synonym merge_state = int

definition MergeStateInit :: merge_state where "MergeStateInit = 1"
definition MergeStateMerged :: merge_state where "MergeStateMerged = 2"
definition MergeStateClosed :: merge_state where "MergeStateClosed = 3"

record merge_request =
  mr_id :: uuid
  mr_sequence :: nat
  mr_source_repo :: uuid
  mr_target_repo :: uuid
  mr_target_branch :: uuid
  mr_source_branch :: uuid
  mr_title :: string
  mr_state :: merge_state
  mr_description :: "string option"
  mr_author :: uuid
  mr_created :: time
  mr_updated :: time

text \<open>The database behind an \<open>IRepo\<close>.\<close>

record db =
  db_users :: "user list"
  db_repos :: "repository list"
  db_branches :: "branch list"
  db_wips :: "wip list"
  db_tags :: "tag list"
  db_mrs :: "merge_request list"
  db_commits :: "commit list"
  db_trees :: tree_table
  db_uuids :: "nat \<Rightarrow> uuid"
  db_issued :: nat

definition row_id :: "uuid \<Rightarrow> db \<Rightarrow> uuid \<times> db" where
  "row_id given d =
     (if given = uuid_Nil then (db_uuids d (db_issued d), d\<lparr>db_issued := db_issued d + 1\<rparr>) else (given, d))"

text \<open>\<open>RunInTx\<close>: an error of the body rolls the database back.\<close>

definition Transaction :: "(db \<Rightarrow> 'a result \<times> db) \<Rightarrow> db \<Rightarrow> 'a result \<times> db" where
  "Transaction fn d = (case fn d of (Inl e, _) \<Rightarrow> (Inl e, d) | (Inr x, d') \<Rightarrow> (Inr x, d'))"

subsection \<open>Users\<close>

record get_user_params =
  gu_id :: uuid
  gu_name :: "string option"
  gu_email :: "string option"

definition NewGetUserParams :: get_user_params where
  "NewGetUserParams = \<lparr>gu_id = uuid_Nil, gu_name = None, gu_email = None\<rparr>"

definition UserRepo_Get :: "get_user_params \<Rightarrow> db \<Rightarrow> user result" where
  "UserRepo_Get params d =
     q_select_one (where_id (gu_id params) us_id @ where_opt (gu_name params) us_name @
       where_opt (gu_email params) us_email) (db_users d)"

definition UserRepo_Count :: "string option \<Rightarrow> string option \<Rightarrow> db \<Rightarrow> nat" where
  "UserRepo_Count nm email d =
     length (q_select (where_opt nm us_name @ where_opt email us_email) (db_users d))"

definition UserRepo_Insert :: "user \<Rightarrow> db \<Rightarrow> user result \<times> db" where
  "UserRepo_Insert user d =
     (case row_id (us_id user) d of (i, d1) \<Rightarrow>
        if us_email user \<in> set (map us_email (db_users d1)) then (Inl ErrDuplicate, d1)
        else (case tbl_insert2 us_id us_name (user\<lparr>us_id := i\<rparr>) (db_users d1) of
                (res, t) \<Rightarrow> (res, d1\<lparr>db_users := t\<rparr>)))"

definition GetEPByName :: "string \<Rightarrow> db \<Rightarrow> string result" where
  "GetEPByName nm d =
     (case q_select_one [\<lambda>u. us_name u = nm] (db_users d) of
        Inl e \<Rightarrow> Inl e | Inr u \<Rightarrow> Inr (us_encrypted_password u))"

subsection \<open>Repositories\<close>

record get_repo_params =
  gr_id :: uuid
  gr_creator :: uuid
  gr_owner :: uuid
  gr_name :: "string option"

definition NewGetRepoParams :: get_repo_params where
  "NewGetRepoParams = \<lparr>gr_id = uuid_Nil, gr_creator = uuid_Nil, gr_owner = uuid_Nil, gr_name = None\<rparr>"

record list_repo_params =
  lr_creator :: uuid
  lr_owner :: uuid
  lr_name :: "string option"
  lr_match :: match_mode
  lr_visible :: "bool option"
  lr_after :: "time option"
  lr_amount :: int

record delete_repo_params =
  dr_id :: uuid
  dr_owner :: uuid
  dr_name :: "string option"

record update_repo_params =
  ur_id :: uuid
  ur_description :: "string option"
  ur_visible :: "bool option"
  ur_head :: "string option"

definition repo_unique :: "repository \<Rightarrow> string \<times> uuid" where
  "repo_unique r = (rp_name r, rp_owner r)"

definition RepositoryRepo_Insert :: "repository \<Rightarrow> db \<Rightarrow> repository result \<times> db" where
  "RepositoryRepo_Insert repo d =
     (case row_id (rp_id repo) d of (i, d1) \<Rightarrow>
        (case tbl_insert2 rp_id repo_unique (repo\<lparr>rp_id := i\<rparr>) (db_repos d1) of
           (res, t) \<Rightarrow> (res, d1\<lparr>db_repos := t\<rparr>)))"

definition RepositoryRepo_Get :: "get_repo_params \<Rightarrow> db \<Rightarrow> repository result" where
  "RepositoryRepo_Get params d =
     q_select_one (where_id (gr_id params) rp_id @ where_id (gr_creator params) rp_creator @
       where_id (gr_owner params) rp_owner @ where_opt (gr_name params) rp_name) (db_repos d)"

text \<open>The list and whether a full page was found: \<open>len(repos) == params.amount\<close>.\<close>

definition RepositoryRepo_List :: "list_repo_params \<Rightarrow> db \<Rightarrow> repository list \<times> bool" where
  "RepositoryRepo_List params d =
     (let rows = q_select (where_id (lr_creator params) rp_creator @ where_id (lr_owner params) rp_owner @
            where_opt (lr_visible params) rp_visible @
            name_conds (lr_name params) (lr_match params) rp_name @
            (case lr_after params of None \<Rightarrow> [] | Some t \<Rightarrow> [\<lambda>r. rp_updated r < t])) (db_repos d);
          repos = q_limit (lr_amount params) (sort_key (\<lambda>r. - rp_updated r) rows)
      in (repos, int (length repos) = lr_amount params))"

definition RepositoryRepo_Delete :: "delete_repo_params \<Rightarrow> db \<Rightarrow> nat result \<times> db" where
  "RepositoryRepo_Delete params d =
     (case q_delete (where_id (dr_id params) rp_id @ where_opt (dr_name params) rp_name @
         where_id (dr_owner params) rp_owner) (db_repos d) of
        (res, t) \<Rightarrow> (res, d\<lparr>db_repos := t\<rparr>))"

definition set_opt :: "'v option \<Rightarrow> ('v \<Rightarrow> 'r \<Rightarrow> 'r) \<Rightarrow> 'r \<Rightarrow> 'r" where
  "set_opt v put r = (case v of None \<Rightarrow> r | Some x \<Rightarrow> put x r)"

definition RepositoryRepo_UpdateByID :: "update_repo_params \<Rightarrow> db \<Rightarrow> db" where
  "RepositoryRepo_UpdateByID params d =
     d\<lparr>db_repos := tbl_update (\<lambda>r. rp_id r = ur_id params)
        (\<lambda>r. set_opt (ur_visible params) (\<lambda>v r. r\<lparr>rp_visible := v\<rparr>)
          (set_opt (ur_head params) (\<lambda>h r. r\<lparr>rp_HEAD := h\<rparr>)
            (set_opt (ur_description params) (\<lambda>t r. r\<lparr>rp_description := Some t\<rparr>) r)))
        (db_repos d)\<rparr>"

subsection \<open>Branches\<close>

record get_branch_params =
  gb_id :: uuid
  gb_repo :: uuid
  gb_name :: "string option"

definition NewGetBranchParams :: get_branch_params where
  "NewGetBranchParams = \<lparr>gb_id = uuid_Nil, gb_repo = uuid_Nil, gb_name = None\<rparr>"

record delete_branch_params =
  dbp_id :: uuid
  dbp_repo :: uuid
  dbp_name :: "string option"

definition NewDeleteBranchParams :: delete_branch_params where
  "NewDeleteBranchParams = \<lparr>dbp_id = uuid_Nil, dbp_repo = uuid_Nil, dbp_name = None\<rparr>"

record update_branch_params =
  ub_id :: uuid
  ub_commit :: "hash option"

definition NewUpdateBranchParams :: "uuid \<Rightarrow> update_branch_params" where
  "NewUpdateBranchParams i = \<lparr>ub_id = i, ub_commit = None\<rparr>"

record list_branch_params =
  lb_repo :: uuid
  lb_name :: "string option"
  lb_match :: match_mode
  lb_after :: "string option"
  lb_amount :: int

definition BranchRepo_Insert :: "branch \<Rightarrow> db \<Rightarrow> branch result \<times> db" where
  "BranchRepo_Insert branch d =
     (case row_id (br_id branch) d of (i, d1) \<Rightarrow>
        (case tbl_insert br_id (branch\<lparr>br_id := i\<rparr>) (db_branches d1) of
           (res, t) \<Rightarrow> (res, d1\<lparr>db_branches := t\<rparr>)))"

definition BranchRepo_Get :: "get_branch_params \<Rightarrow> db \<Rightarrow> branch result" where
  "BranchRepo_Get params d =
     q_select_one (where_id (gb_id params) br_id @ where_id (gb_repo params) br_repo @
       where_opt (gb_name params) br_name) (db_branches d)"

definition BranchRepo_List :: "list_branch_params \<Rightarrow> db \<Rightarrow> branch list \<times> bool" where
  "BranchRepo_List params d =
     (let rows = q_select (where_id (lb_repo params) br_repo @
            name_conds (lb_name params) (lb_match params) br_name @
            (case lb_after params of None \<Rightarrow> [] | Some a \<Rightarrow> [\<lambda>b. br_name b > a])) (db_branches d);
          branches = q_limit (lb_amount params) (sort_key br_name rows)
      in (branches, int (length branches) = lb_amount params))"

definition BranchRepo_Delete :: "delete_branch_params \<Rightarrow> db \<Rightarrow> nat result \<times> db" where
  "BranchRepo_Delete params d =
     (case q_delete (where_id (dbp_id params) br_id @ where_id (dbp_repo params) br_repo @
         where_opt (dbp_name params) br_name) (db_branches d) of
        (res, t) \<Rightarrow> (res, d\<lparr>db_branches := t\<rparr>))"

text \<open>An update that sets nothing has no \<open>SET\<close> clause, which the database refuses.\<close>

definition BranchRepo_UpdateByID :: "update_branch_params \<Rightarrow> db \<Rightarrow> unit result \<times> db" where
  "BranchRepo_UpdateByID params d =
     (case ub_commit params of
        None \<Rightarrow> (Inl (ErrMsg ''empty SET''), d)
      | Some h \<Rightarrow>
          (Inr (), d\<lparr>db_branches := tbl_update (\<lambda>b. br_id b = ub_id params) (\<lambda>b. b\<lparr>br_commit := h\<rparr>) (db_branches d)\<rparr>))"

subsection \<open>Working copies\<close>

record get_wip_params =
  gw_id :: uuid
  gw_creator :: uuid
  gw_repo :: uuid
  gw_ref :: uuid

definition NewGetWipParams :: get_wip_params where
  "NewGetWipParams = \<lparr>gw_id = uuid_Nil, gw_creator = uuid_Nil, gw_repo = uuid_Nil, gw_ref = uuid_Nil\<rparr>"

record update_wip_params =
  uw_id :: uuid
  uw_tree :: "hash option"
  uw_base :: "hash option"
  uw_state :: "wip_state option"
  uw_updated :: time

definition NewUpdateWipParams :: "env \<Rightarrow> uuid \<Rightarrow> update_wip_params" where
  "NewUpdateWipParams E i =
     \<lparr>uw_id = i, uw_tree = None, uw_base = None, uw_state = None, uw_updated = env_now E\<rparr>"

definition wip_unique :: "wip \<Rightarrow> uuid \<times> uuid \<times> uuid" where
  "wip_unique w = (wp_creator w, wp_repo w, wp_ref w)"

definition WipRepo_Insert :: "wip \<Rightarrow> db \<Rightarrow> wip result \<times> db" where
  "WipRepo_Insert w d =
     (case row_id (wp_id w) d of (i, d1) \<Rightarrow>
        (case tbl_insert2 wp_id wip_unique (w\<lparr>wp_id := i\<rparr>) (db_wips d1) of
           (res, t) \<Rightarrow> (res, d1\<lparr>db_wips := t\<rparr>)))"

definition WipRepo_Get :: "get_wip_params \<Rightarrow> db \<Rightarrow> wip result" where
  "WipRepo_Get params d =
     q_select_one (where_id (gw_id params) wp_id @ where_id (gw_creator params) wp_creator @
       where_id (gw_repo params) wp_repo @ where_id (gw_ref params) wp_ref) (db_wips d)"

text \<open>\<open>ListWipParams\<close> has the fields of \<open>GetWipParams\<close> except the id.\<close>

definition WipRepo_List :: "get_wip_params \<Rightarrow> db \<Rightarrow> wip list" where
  "WipRepo_List params d =
     q_select (where_id (gw_creator params) wp_creator @ where_id (gw_repo params) wp_repo @
       where_id (gw_ref params) wp_ref) (db_wips d)"

definition WipRepo_Delete :: "get_wip_params \<Rightarrow> db \<Rightarrow> nat result \<times> db" where
  "WipRepo_Delete params d =
     (case q_delete (where_id (gw_creator params) wp_creator @ where_id (gw_repo params) wp_repo @
         where_id (gw_ref params) wp_ref @ where_id (gw_id params) wp_id) (db_wips d) of
        (res, t) \<Rightarrow> (res, d\<lparr>db_wips := t\<rparr>))"

definition wip_set :: "update_wip_params \<Rightarrow> wip \<Rightarrow> wip" where
  "wip_set params w =
     set_opt (uw_base params) (\<lambda>h w. w\<lparr>wp_base := h\<rparr>)
       (set_opt (uw_tree params) (\<lambda>h w. w\<lparr>wp_tree := h\<rparr>)
         (set_opt (uw_state params) (\<lambda>s w. w\<lparr>wp_state := s\<rparr>) (w\<lparr>wp_updated := uw_updated params\<rparr>)))"

definition WipRepo_UpdateByID :: "update_wip_params \<Rightarrow> db \<Rightarrow> db" where
  "WipRepo_UpdateByID params d =
     d\<lparr>db_wips := tbl_update (\<lambda>w. wp_id w = uw_id params) (wip_set params) (db_wips d)\<rparr>"

subsection \<open>Tags\<close>

record get_tag_params =
  gt_id :: uuid
  gt_repo :: uuid
  gt_name :: "string option"

definition NewGetTagParams :: get_tag_params where
  "NewGetTagParams = \<lparr>gt_id = uuid_Nil, gt_repo = uuid_Nil, gt_name = None\<rparr>"

record list_tag_params =
  lt_repo :: uuid
  lt_name :: "string option"
  lt_match :: match_mode
  lt_after :: "time option"
  lt_amount :: int

definition tag_key :: "tag \<Rightarrow> uuid \<times> uuid" where
  "tag_key t = (tg_id t, tg_repo t)"

definition tag_unique :: "tag \<Rightarrow> uuid \<times> string" where
  "tag_unique t = (tg_repo t, tg_name t)"

definition TagRepo_Insert :: "tag \<Rightarrow> db \<Rightarrow> tag result \<times> db" where
  "TagRepo_Insert tag d =
     (case row_id (tg_id tag) d of (i, d1) \<Rightarrow>
        (case tbl_insert2 tag_key tag_unique (tag\<lparr>tg_id := i\<rparr>) (db_tags d1) of
           (res, t) \<Rightarrow> (res, d1\<lparr>db_tags := t\<rparr>)))"

definition TagRepo_Get :: "get_tag_params \<Rightarrow> db \<Rightarrow> tag result" where
  "TagRepo_Get params d =
     q_select_one (where_id (gt_id params) tg_id @ where_id (gt_repo params) tg_repo @
       where_opt (gt_name params) tg_name) (db_tags d)"

definition TagRepo_List :: "list_tag_params \<Rightarrow> db \<Rightarrow> tag list \<times> bool" where
  "TagRepo_List params d =
     (let rows = q_select (where_id (lt_repo params) tg_repo @
            name_conds (lt_name params) (lt_match params) tg_name @
            (case lt_after params of None \<Rightarrow> [] | Some t \<Rightarrow> [\<lambda>g. tg_updated g > t])) (db_tags d);
          tags = q_limit (lt_amount params) (sort_key (\<lambda>g. - tg_updated g) rows)
      in (tags, int (length tags) = lt_amount params))"

definition TagRepo_Delete :: "uuid \<Rightarrow> uuid \<Rightarrow> db \<Rightarrow> nat result \<times> db" where
  "TagRepo_Delete params_id params_repo d =
     (case q_delete (where_id params_id tg_id @ where_id params_repo tg_repo) (db_tags d) of
        (res, t) \<Rightarrow> (res, d\<lparr>db_tags := t\<rparr>))"

subsection \<open>Merge requests\<close>

record get_mr_params =
  gm_id :: uuid
  gm_sequence :: "nat option"
  gm_target_repo :: uuid
  gm_target_branch :: uuid
  gm_source_branch :: uuid
  gm_state :: "merge_state option"

record list_mr_params =
  lm_after :: "time option"
  lm_amount :: int
  lm_target_repo :: uuid
  lm_state :: "merge_state option"

record update_mr_params =
  um_sequence :: nat
  um_target_repo :: uuid
  um_time :: time
  um_title :: "string option"
  um_description :: "string option"
  um_state :: "merge_state option"

definition mr_unique :: "merge_request \<Rightarrow> nat \<times> uuid" where
  "mr_unique m = (mr_sequence m, mr_target_repo m)"

text \<open>\<open>COALESCE(MAX(mr_sequence), 0) + 1\<close> over the requests to the same repository.\<close>

definition next_sequence :: "uuid \<Rightarrow> merge_request list \<Rightarrow> nat" where
  "next_sequence target t = fold max (map mr_sequence (filter (\<lambda>m. mr_target_repo m = target) t)) 0 + 1"

definition MergeRequestRepo_Insert :: "merge_request \<Rightarrow> db \<Rightarrow> merge_request result \<times> db" where
  "MergeRequestRepo_Insert mr d =
     (case row_id uuid_Nil d of (i, d1) \<Rightarrow>
        (case tbl_insert2 mr_id mr_unique
            (mr\<lparr>mr_id := i, mr_sequence := next_sequence (mr_target_repo mr) (db_mrs d1)\<rparr>) (db_mrs d1) of
           (res, t) \<Rightarrow> (res, d1\<lparr>db_mrs := t\<rparr>)))"

definition MergeRequestRepo_Get :: "get_mr_params \<Rightarrow> db \<Rightarrow> merge_request result" where
  "MergeRequestRepo_Get params d =
     q_select_one (where_opt (gm_sequence params) mr_sequence @ where_id (gm_target_repo params) mr_target_repo @
       where_id (gm_id params) mr_id @ where_opt (gm_state params) mr_state @
       where_id (gm_target_branch params) mr_target_branch @
       where_id (gm_source_branch params) mr_source_branch) (db_mrs d)"

definition MergeRequestRepo_List :: "list_mr_params \<Rightarrow> db \<Rightarrow> merge_request list \<times> bool" where
  "MergeRequestRepo_List params d =
     (let rows = q_select (where_id (lm_target_repo params) mr_target_repo @ where_opt (lm_state params) mr_state @
            (case lm_after params of None \<Rightarrow> [] | Some t \<Rightarrow> [\<lambda>m. mr_updated m < t])) (db_mrs d);
          mrs = q_limit (lm_amount params) (sort_key (\<lambda>m. - mr_updated m) rows)
      in (mrs, int (length mrs) = lm_amount params))"

definition MergeRequestRepo_Delete :: "nat option \<Rightarrow> uuid \<Rightarrow> db \<Rightarrow> nat result \<times> db" where
  "MergeRequestRepo_Delete params_sequence params_target d =
     (case q_delete (where_opt params_sequence mr_sequence @ where_id params_target mr_target_repo) (db_mrs d) of
        (res, t) \<Rightarrow> (res, d\<lparr>db_mrs := t\<rparr>))"

definition MergeRequestRepo_UpdateByID :: "update_mr_params \<Rightarrow> db \<Rightarrow> db" where
  "MergeRequestRepo_UpdateByID params d =
     d\<lparr>db_mrs := tbl_update (\<lambda>m. mr_sequence m = um_sequence params \<and> mr_target_repo m = um_target_repo params)
        (\<lambda>m. set_opt (um_state params) (\<lambda>s m. m\<lparr>mr_state := s\<rparr>)
          (set_opt (um_title params) (\<lambda>t m. m\<lparr>mr_title := t\<rparr>)
            (set_opt (um_description params) (\<lambda>t m. m\<lparr>mr_description := Some t\<rparr>)
              (m\<lparr>mr_updated := um_time params\<rparr>))))
        (db_mrs d)\<rparr>"

end
