(* ===== verification/Noder_Path.thy ===== *)
theory Noder_Path
  imports Prelude
begin

section \<open>Noders and paths: versionmgr/merkletrie/noder, internal/frame\<close>

text \<open>
  The Go interface \<open>noder.Noder\<close> is a record of its methods, \<open>noder_ops\<close>, over an arbitrary
  type of nodes; every function of the package merkletrie takes the methods as its first
  argument. A \<open>Path\<close> is the list of the noders from the root's child down to the node it
  denotes. A \<open>Frame\<close> holds siblings in descending order of name; its last element is next.
  The lemmas show that path comparison is a total order that puts a directory before what is
  below it, and that a frame delivers the children in ascending order.
\<close>

record 'n noder_ops =
  nd_name :: "'n \<Rightarrow> string"
  nd_is_dir :: "'n \<Rightarrow> bool"
  nd_hash :: "'n \<Rightarrow> hash"
  nd_children :: "'n \<Rightarrow> 'n list result"
  nd_num_children :: "'n \<Rightarrow> nat result"
  nd_skip :: "'n \<Rightarrow> bool"
  nd_equal :: "'n \<Rightarrow> 'n \<Rightarrow> bool"

type_synonym 'n path = "'n list"

subsection \<open>Path\<close>

text \<open>Paths made from an empty slice are not valid and \<open>Last\<close> panics on them.\<close>

definition path_Last :: "'n path \<Rightarrow> 'n" where
  "path_Last p = last p"

definition path_Skip :: "'n noder_ops \<Rightarrow> 'n path \<Rightarrow> bool" where
  "path_Skip N p = (if length p > 0 then nd_skip N (path_Last p) else False)"

fun path_String_loop :: "'n noder_ops \<Rightarrow> string \<Rightarrow> 'n path \<Rightarrow> string" where
  "path_String_loop N sep [] = []"
| "path_String_loop N sep (e # p) = sep @ nd_name N e @ path_String_loop N ''/'' p"

definition path_String :: "'n noder_ops \<Rightarrow> 'n path \<Rightarrow> string" where
  "path_String N p = path_String_loop N [] p"

definition path_Hash :: "'n noder_ops \<Rightarrow> 'n path \<Rightarrow> hash" where
  "path_Hash N p = nd_hash N (path_Last p)"

definition path_Name :: "'n noder_ops \<Rightarrow> 'n path \<Rightarrow> string" where
  "path_Name N p = nd_name N (path_Last p)"

definition path_IsDir :: "'n noder_ops \<Rightarrow> 'n path \<Rightarrow> bool" where
  "path_IsDir N p = nd_is_dir N (path_Last p)"

definition path_Children :: "'n noder_ops \<Rightarrow> 'n path \<Rightarrow> 'n list result" where
  "path_Children N p = nd_children N (path_Last p)"

definition path_NumChildren :: "'n noder_ops \<Rightarrow> 'n path \<Rightarrow> nat result" where
  "path_NumChildren N p = nd_num_children N (path_Last p)"

fun path_Compare :: "'n noder_ops \<Rightarrow> 'n path \<Rightarrow> 'n path \<Rightarrow> int" where
  "path_Compare N [] [] = 0"
| "path_Compare N (x # p) [] = 1"
| "path_Compare N [] (y # q) = -1"
| "path_Compare N (x # p) (y # q) =
     (let cmp = str_compare (nd_name N x) (nd_name N y) in
      if cmp \<noteq> 0 then cmp else path_Compare N p q)"

text \<open>The names on a path; comparing paths is comparing these lists lexicographically.\<close>

definition path_names :: "'n noder_ops \<Rightarrow> 'n path \<Rightarrow> string list" where
  "path_names N p = map (nd_name N) p"

lemma path_names_simps [simp]:
  "path_names N [] = []" "path_names N (x # p) = nd_name N x # path_names N p"
  "path_names N (p @ q) = path_names N p @ path_names N q"
  "path_names N p = [] \<longleftrightarrow> p = []" "length (path_names N p) = length p"
  by (simp_all add: path_names_def)

lemma path_Compare_names:
  "path_Compare N p q =
     (if path_names N p = path_names N q then 0
      else if path_names N p < path_names N q then -1 else 1)"
  by (induction N p q rule: path_Compare.induct)
    (auto simp: Let_def str_compare_def)

lemma path_Compare_0 [simp]: "path_Compare N p q = 0 \<longleftrightarrow> path_names N p = path_names N q"
  by (simp add: path_Compare_names)

lemma path_Compare_less [simp]: "path_Compare N p q = -1 \<longleftrightarrow> path_names N p < path_names N q"
  by (auto simp: path_Compare_names)

lemma path_Compare_greater [simp]: "path_Compare N p q = 1 \<longleftrightarrow> path_names N q < path_names N p"
  by (auto simp: path_Compare_names)

lemma path_String_join: "path_String N p = join_with ''/'' (path_names N p)"
proof (cases p)
  case Nil
  then show ?thesis by (simp add: path_String_def)
next
  case (Cons e p')
  have "sep @ join_with ''/'' (nd_name N e # path_names N p') =
      path_String_loop N sep (e # p')" for sep e
    by (induction p' arbitrary: e sep) (auto simp del: path_String_loop.simps simp: path_String_loop.simps(2)
        path_String_loop.simps(1) append_eq_append_conv2 intro: sym)
  from this [of "[]" e] Cons show ?thesis by (simp add: path_String_def)
qed

subsection \<open>Frame\<close>

record 'n frame = fr_stack :: "'n list"

definition frame_Len :: "'n frame \<Rightarrow> nat" where
  "frame_Len f = length (fr_stack f)"

text \<open>
  \<open>sort.Sort(sort.Reverse(byName(children)))\<close> sorts into descending order of name.
\<close>

definition frame_New :: "'n noder_ops \<Rightarrow> 'n \<Rightarrow> 'n frame result" where
  "frame_New N n =
     (case nd_children N n of
        Inl e \<Rightarrow> Inl e
      | Inr children \<Rightarrow> Inr \<lparr>fr_stack = rev (sort_key (nd_name N) children)\<rparr>)"

definition frame_First :: "'n frame \<Rightarrow> 'n option" where
  "frame_First f = (if frame_Len f = 0 then None else Some (fr_stack f ! (frame_Len f - 1)))"

definition frame_Drop :: "'n frame \<Rightarrow> 'n frame" where
  "frame_Drop f = (if frame_Len f = 0 then f else f\<lparr>fr_stack := take (frame_Len f - 1) (fr_stack f)\<rparr>)"

text \<open>\<open>String\<close>: the names from the next one on, quoted (\<open>%q\<close> of plain names), between brackets.\<close>

definition frame_String :: "'n noder_ops \<Rightarrow> (string \<Rightarrow> string) \<Rightarrow> 'n frame \<Rightarrow> string" where
  "frame_String N quote f =
     ''['' @ join_with '', '' (map (\<lambda>n. quote (nd_name N n)) (rev (fr_stack f))) @ '']''"

text \<open>The siblings still to come, in the order of iteration.\<close>

definition frame_list :: "'n frame \<Rightarrow> 'n list" where
  "frame_list f = rev (fr_stack f)"

lemma frame_First_list: "frame_First f = (case frame_list f of [] \<Rightarrow> None | x # _ \<Rightarrow> Some x)"
  by (cases "fr_stack f" rule: rev_cases)
    (auto simp: frame_First_def frame_Len_def frame_list_def)

lemma frame_list_Drop [simp]: "frame_list (frame_Drop f) = tl (frame_list f)"
  by (cases "fr_stack f" rule: rev_cases)
    (auto simp: frame_Drop_def frame_Len_def frame_list_def)

lemma frame_Len_list: "frame_Len f = length (frame_list f)"
  by (simp add: frame_Len_def frame_list_def)

lemma frame_New_list:
  "frame_New N n = Inr f \<Longrightarrow> nd_children N n = Inr ks \<Longrightarrow> frame_list f = sort_key (nd_name N) ks"
  by (auto simp: frame_New_def frame_list_def)

end
