(* ===== verification/Trie_Iter.thy ===== *)
theory Trie_Iter
  imports Noder_Path
begin

section \<open>The trie iterator: versionmgr/merkletrie/iter.go\<close>

text \<open>
  \<open>Iter\<close> walks a trie depth first. Its stack of frames is a list whose last element is the
  top, as in the source. \<open>Step\<close> descends, \<open>Next\<close> does not. The abstraction \<open>pending\<close> is the
  list of paths an iterator still has to visit at its current depths, from the current one
  on; the lemmas show that \<open>Next\<close> drops its head and \<open>Step\<close> replaces the head by its
  children. \<open>noder_tree N n k\<close> says that the noder \<open>n\<close> is the root of a finite, well-formed
  trie of \<open>k\<close> nodes, which is the promise of the interface that the locale
  \<open>noder_interface\<close> states for a provider.
\<close>

record 'n iter =
  it_started :: bool
  it_stack :: "'n frame list"
  it_base :: "'n path"

definition iter_push :: "'n frame \<Rightarrow> 'n iter \<Rightarrow> 'n iter" where
  "iter_push f it = it\<lparr>it_stack := it_stack it @ [f]\<rparr>"

text \<open>A nil root gives an iterator with nothing to visit.\<close>

definition newIter :: "'n noder_ops \<Rightarrow> 'n option \<Rightarrow> 'n path \<Rightarrow> 'n iter result" where
  "newIter N root base =
     (let ret = \<lparr>it_started = False, it_stack = [], it_base = base\<rparr> in
      case root of
        None \<Rightarrow> Inr ret
      | Some r \<Rightarrow>
          (case frame_New N r of Inl e \<Rightarrow> Inl e | Inr f \<Rightarrow> Inr (iter_push f ret)))"

definition NewIter :: "'n noder_ops \<Rightarrow> 'n option \<Rightarrow> 'n iter result" where
  "NewIter N n = newIter N n []"

definition NewIterFromPath :: "'n noder_ops \<Rightarrow> 'n path \<Rightarrow> 'n iter result" where
  "NewIterFromPath N p = newIter N (Some (path_Last p)) p"

definition iter_top :: "'n iter \<Rightarrow> 'n frame option" where
  "iter_top it = (if length (it_stack it) = 0 then None else Some (last (it_stack it)))"

text \<open>The loop of \<open>current\<close>: the first noder of each frame; an empty inner frame panics.\<close>

fun iter_firsts :: "'n frame list \<Rightarrow> 'n path result" where
  "iter_firsts [] = Inr []"
| "iter_firsts (f # fs) =
     (case frame_First f of
        None \<Rightarrow> Inl (Panic ''frame is empty'')
      | Some t \<Rightarrow> (case iter_firsts fs of Inl e \<Rightarrow> Inl e | Inr p \<Rightarrow> Inr (t # p)))"

definition iter_current :: "'n iter \<Rightarrow> 'n path result" where
  "iter_current it =
     (case iter_top it of
        None \<Rightarrow> Inl EOF
      | Some topFrame \<Rightarrow>
          (case frame_First topFrame of
             None \<Rightarrow> Inl EOF
           | Some _ \<Rightarrow>
               (case iter_firsts (it_stack it) of
                  Inl e \<Rightarrow> Inl e
                | Inr p \<Rightarrow> Inr (it_base it @ p))))"

text \<open>
  \<open>drop\<close> removes the current node, then, as long as the top frame is empty, the frame and the
  node of the frame below that it hung from.
\<close>

function drop_frames :: "'n frame list \<Rightarrow> 'n frame list" where
  "drop_frames fs =
     (if fs = [] then []
      else let f = frame_Drop (last fs) in
        if frame_Len f = 0 then drop_frames (butlast fs) else butlast fs @ [f])"
  by pat_completeness auto
termination by (relation "measure length") auto

declare drop_frames.simps [simp del]

definition iter_drop :: "'n iter \<Rightarrow> 'n iter" where
  "iter_drop it = it\<lparr>it_stack := drop_frames (it_stack it)\<rparr>"

definition iter_advance :: "'n noder_ops \<Rightarrow> bool \<Rightarrow> 'n iter \<Rightarrow> 'n path result \<times> 'n iter" where
  "iter_advance N wantDescend it =
     (case iter_current it of
        Inl e \<Rightarrow> (Inl e, it)
      | Inr current \<Rightarrow>
          if \<not> it_started it then (Inr current, it\<lparr>it_started := True\<rparr>)
          else (case path_NumChildren N current of
                  Inl e \<Rightarrow> (Inl e, it)
                | Inr numChildren \<Rightarrow>
                    if numChildren \<noteq> 0 \<and> wantDescend then
                      (case frame_New N (path_Last current) of
                         Inl e \<Rightarrow> (Inl e, it)
                       | Inr f \<Rightarrow> (let it' = iter_push f it in (iter_current it', it')))
                    else (let it' = iter_drop it in (iter_current it', it'))))"

definition iter_Next :: "'n noder_ops \<Rightarrow> 'n iter \<Rightarrow> 'n path result \<times> 'n iter" where
  "iter_Next N it = iter_advance N False it"

definition iter_Step :: "'n noder_ops \<Rightarrow> 'n iter \<Rightarrow> 'n path result \<times> 'n iter" where
  "iter_Step N it = iter_advance N True it"

subsection \<open>What is left to visit\<close>

text \<open>
  \<open>frames_pending base fs\<close> lists the paths still to visit with the frames \<open>fs\<close> (bottom first)
  under \<open>base\<close>: first what the upper frames hold, under the first noder of this one, then this
  frame's later siblings.
\<close>

fun frames_pending :: "'n path \<Rightarrow> 'n list list \<Rightarrow> 'n path list" where
  "frames_pending base [] = []"
| "frames_pending base [l] = map (\<lambda>n. base @ [n]) l"
| "frames_pending base (l # m # ls) =
     (case l of
        [] \<Rightarrow> []
      | x # xs \<Rightarrow> frames_pending (base @ [x]) (m # ls) @ map (\<lambda>n. base @ [n]) xs)"

definition pending :: "'n iter \<Rightarrow> 'n path list" where
  "pending it = frames_pending (it_base it) (map frame_list (it_stack it))"

text \<open>Only the top frame may be empty, and only when it is the only one.\<close>

definition iter_ok :: "'n iter \<Rightarrow> bool" where
  "iter_ok it \<longleftrightarrow>
     (\<forall>f \<in> set (it_stack it). frame_list f \<noteq> []) \<or> (\<exists>f. it_stack it = [f])"

abbreviation nonempty_lists :: "'n list list \<Rightarrow> bool" where
  "nonempty_lists ls \<equiv> (\<forall>l \<in> set ls. l \<noteq> [])"

lemma frames_pending_eq_Nil:
  "nonempty_lists ls \<Longrightarrow> frames_pending base ls = [] \<longleftrightarrow> ls = []"
  by (induction base ls rule: frames_pending.induct) (auto split: list.splits)

lemma hd_frames_pending:
  "nonempty_lists ls \<Longrightarrow> ls \<noteq> [] \<Longrightarrow> hd (frames_pending base ls) = base @ map hd ls"
proof (induction base ls rule: frames_pending.induct)
  case (2 base l)
  then show ?case by (cases l) auto
next
  case (3 base l m ls)
  then show ?case
    by (cases l) (auto simp: frames_pending_eq_Nil hd_append)
qed auto

lemma frames_pending_snoc:
  "nonempty_lists ls \<Longrightarrow> ls \<noteq> [] \<Longrightarrow>
   frames_pending base (ls @ [ks]) =
     map (\<lambda>k. base @ map hd ls @ [k]) ks @ tl (frames_pending base ls)"
proof (induction base ls rule: frames_pending.induct)
  case (2 base l)
  then show ?case by (cases l) auto
next
  case (3 base l m ls)
  then have "frames_pending (base @ [hd l]) (m # ls) \<noteq> []"
    by (subst frames_pending_eq_Nil) auto
  with 3 show ?case by (cases l) auto
qed auto

fun drop_lists :: "'n list list \<Rightarrow> 'n list list" where
  "drop_lists ls =
     (if ls = [] then []
      else if tl (last ls) = [] then drop_lists (butlast ls) else butlast ls @ [tl (last ls)])"

declare drop_lists.simps [simp del]

lemma tl_Nil_length: "tl xs = [] \<longleftrightarrow> length xs \<le> Suc 0"
  by (cases xs) auto

lemma drop_frames_lists: "map frame_list (drop_frames fs) = drop_lists (map frame_list fs)"
proof (induction fs rule: drop_frames.induct)
  case (1 fs)
  show ?case
    using 1 by (subst drop_frames.simps, subst drop_lists.simps)
      (auto simp: Let_def frame_Len_list last_map map_butlast tl_Nil_length)
qed

lemma nonempty_drop_lists: "nonempty_lists ls \<Longrightarrow> nonempty_lists (drop_lists ls)"
proof (induction ls rule: drop_lists.induct)
  case (1 ls)
  have butlast: "nonempty_lists (butlast ls)"
    using "1.prems" by (blast dest: in_set_butlastD)
  consider "ls = []" | "ls \<noteq> []" "tl (last ls) = []" | "ls \<noteq> []" "tl (last ls) \<noteq> []"
    by blast
  then show ?case
  proof cases
    case 2
    then have "drop_lists ls = drop_lists (butlast ls)" by (subst drop_lists.simps) simp
    with 2 "1.IH" butlast show ?thesis by simp
  next
    case 3
    then have "drop_lists ls = butlast ls @ [tl (last ls)]" by (subst drop_lists.simps) simp
    with 3 butlast show ?thesis by auto
  qed (simp add: drop_lists.simps)
qed

lemma frames_pending_drop:
  "nonempty_lists ls \<Longrightarrow> frames_pending base (drop_lists ls) = tl (frames_pending base ls)"
proof (induction ls rule: drop_lists.induct)
  case (1 ls)
  show ?case
  proof (cases ls rule: rev_cases)
    case Nil
    then show ?thesis by (simp add: drop_lists.simps)
  next
    case (snoc init l)
    note ls = this
    show ?thesis
    proof (cases "init = []")
      case True
      with ls 1 show ?thesis
        by (cases l) (auto simp: drop_lists.simps [of "[_]"] drop_lists.simps [of "[]"])
    next
      case False
      have ne: "nonempty_lists init" "l \<noteq> []" using 1 ls by auto
      show ?thesis
      proof (cases "tl l = []")
        case True
        then have "frames_pending base (drop_lists ls) = frames_pending base (drop_lists init)"
          by (subst drop_lists.simps) (simp add: ls)
        also have "\<dots> = tl (frames_pending base init)"
          using 1 ls True ne by simp
        also have "\<dots> = tl (frames_pending base ls)"
          using True ne False by (cases l) (auto simp: ls frames_pending_snoc)
        finally show ?thesis .
      next
        case tl: False
        then have "drop_lists ls = init @ [tl l]"
          by (subst drop_lists.simps) (simp add: ls)
        with ne False show ?thesis
          by (cases l) (auto simp: ls frames_pending_snoc)
      qed
    qed
  qed
qed


lemma iter_firsts_hd:
  "\<forall>f \<in> set fs. frame_list f \<noteq> [] \<Longrightarrow> iter_firsts fs = Inr (map (hd \<circ> frame_list) fs)"
  by (induction fs) (auto simp: frame_First_list split: list.splits)

lemma iter_current_pending:
  assumes "iter_ok it"
  shows "iter_current it = (case pending it of [] \<Rightarrow> Inl EOF | p # _ \<Rightarrow> Inr p)"
proof (cases "\<forall>f \<in> set (it_stack it). frame_list f \<noteq> []")
  case True
  then have ne: "nonempty_lists (map frame_list (it_stack it))" by auto
  show ?thesis
  proof (cases "it_stack it = []")
    case True
    then show ?thesis by (simp add: iter_current_def iter_top_def pending_def)
  next
    case False
    then have last: "frame_list (last (it_stack it)) \<noteq> []" using True by auto
    have hd: "hd (pending it) = it_base it @ map (hd \<circ> frame_list) (it_stack it)"
      using hd_frames_pending [OF ne] False by (simp add: pending_def)
    have "pending it \<noteq> []"
      using frames_pending_eq_Nil [OF ne] False by (simp add: pending_def)
    with hd have "(case pending it of [] \<Rightarrow> Inl EOF | p # _ \<Rightarrow> Inr p) =
        Inr (it_base it @ map (hd \<circ> frame_list) (it_stack it))"
      by (cases "pending it") auto
    with last False True show ?thesis
      by (auto simp: iter_current_def iter_top_def frame_First_list iter_firsts_hd split: list.splits)
  qed
next
  case False
  with assms obtain f where "it_stack it = [f]" "frame_list f = []"
    by (auto simp: iter_ok_def)
  then show ?thesis
    by (simp add: iter_current_def iter_top_def pending_def frame_First_list)
qed

lemma iter_ok_Cons:
  assumes "iter_ok it" "pending it = p # ps"
  shows "nonempty_lists (map frame_list (it_stack it))" "it_stack it \<noteq> []"
  using assms by (auto simp: iter_ok_def pending_def)

lemma iter_drop_pending:
  assumes "iter_ok it" "pending it = p # ps"
  shows "pending (iter_drop it) = ps" "iter_ok (iter_drop it)"
proof -
  note ne = iter_ok_Cons(1) [OF assms]
  have "pending (iter_drop it) = tl (pending it)"
    by (simp add: pending_def iter_drop_def drop_frames_lists frames_pending_drop [OF ne])
  then show "pending (iter_drop it) = ps" by (simp add: assms(2))
  have "nonempty_lists (map frame_list (drop_frames (it_stack it)))"
    using nonempty_drop_lists [OF ne] by (simp add: drop_frames_lists)
  then show "iter_ok (iter_drop it)" by (auto simp: iter_ok_def iter_drop_def)
qed

lemma iter_push_pending:
  assumes "iter_ok it" "pending it = p # ps" "frame_list f \<noteq> []"
  shows "pending (iter_push f it) = map (\<lambda>k. p @ [k]) (frame_list f) @ ps" "iter_ok (iter_push f it)"
proof -
  note ne = iter_ok_Cons [OF assms(1,2)]
  have "p = it_base it @ map hd (map frame_list (it_stack it))"
    using hd_frames_pending [OF ne(1), of "it_base it"] ne(2) assms(2)
    by (simp add: pending_def)
  then show "pending (iter_push f it) = map (\<lambda>k. p @ [k]) (frame_list f) @ ps"
    using frames_pending_snoc [OF ne(1), of "it_base it" "frame_list f"] ne(2) assms(2)
    by (simp add: pending_def iter_push_def)
  show "iter_ok (iter_push f it)"
    using ne(1) assms(3) by (auto simp: iter_ok_def iter_push_def)
qed

lemma started_drop_push [simp]:
  "it_started (iter_drop it) = it_started it" "it_started (iter_push f it) = it_started it"
  by (simp_all add: iter_drop_def iter_push_def)

lemma pending_started [simp]: "pending (it\<lparr>it_started := b\<rparr>) = pending it"
  by (simp add: pending_def)

lemma iter_ok_started [simp]: "iter_ok (it\<lparr>it_started := b\<rparr>) = iter_ok it"
  by (simp add: iter_ok_def)

subsection \<open>Finite, well-formed tries\<close>

text \<open>
  A noder whose children can be listed, have distinct names and are as many as \<open>NumChildren\<close>
  says; only directories have children, no node asks to be skipped. The last argument counts
  the nodes.
\<close>

inductive noder_tree :: "'n noder_ops \<Rightarrow> 'n \<Rightarrow> nat \<Rightarrow> bool" for N :: "'n noder_ops" where
  node: "nd_children N n = Inr ks \<Longrightarrow> nd_num_children N n = Inr (length ks) \<Longrightarrow>
     distinct (map (nd_name N) ks) \<Longrightarrow> nd_is_dir N n \<or> ks = [] \<Longrightarrow> \<not> nd_skip N n \<Longrightarrow>
     list_all2 (noder_tree N) ks ss \<Longrightarrow> noder_tree N n (Suc (sum_list ss))"

inductive_cases noder_treeE: "noder_tree N n k"

definition is_tree :: "'n noder_ops \<Rightarrow> 'n \<Rightarrow> bool" where
  "is_tree N n \<longleftrightarrow> (\<exists>k. noder_tree N n k)"

definition nd_size :: "'n noder_ops \<Rightarrow> 'n \<Rightarrow> nat" where
  "nd_size N n = (THE k. noder_tree N n k)"

text \<open>A root: its own \<open>NumChildren\<close> and \<open>Skip\<close> are never asked for.\<close>

definition is_root :: "'n noder_ops \<Rightarrow> 'n \<Rightarrow> bool" where
  "is_root N n \<longleftrightarrow> (\<exists>ks. nd_children N n = Inr ks \<and> distinct (map (nd_name N) ks) \<and>
     Ball (set ks) (is_tree N))"

definition sorted_kids :: "'n noder_ops \<Rightarrow> 'n \<Rightarrow> 'n list" where
  "sorted_kids N n = (case nd_children N n of Inl _ \<Rightarrow> [] | Inr ks \<Rightarrow> sort_key (nd_name N) ks)"

definition path_kids :: "'n noder_ops \<Rightarrow> 'n path \<Rightarrow> 'n path list" where
  "path_kids N p = map (\<lambda>k. p @ [k]) (sorted_kids N (path_Last p))"

lemma noder_tree_det: "noder_tree N n k \<Longrightarrow> noder_tree N n k' \<Longrightarrow> k = k'"
proof (induction arbitrary: k' rule: noder_tree.induct)
  case (node n ks ss)
  from node.prems node.hyps(1) obtain ss' where
    ss': "k' = Suc (sum_list ss')" "list_all2 (noder_tree N) ks ss'"
    by (auto elim: noder_treeE)
  have "ss = ss'"
    using node.IH ss'(2)
    by (auto simp: list_all2_conv_all_nth intro: nth_equalityI)
  with ss' show ?case by simp
qed

lemma nd_size_eq: "noder_tree N n k \<Longrightarrow> nd_size N n = k"
  unfolding nd_size_def by (blast intro: noder_tree_det)

lemma is_tree_unfold:
  assumes "is_tree N n"
  obtains ks where "nd_children N n = Inr ks" "nd_num_children N n = Inr (length ks)"
    "distinct (map (nd_name N) ks)" "nd_is_dir N n \<or> ks = []" "\<not> nd_skip N n"
    "\<And>k. k \<in> set ks \<Longrightarrow> is_tree N k" "nd_size N n = Suc (sum_list (map (nd_size N) ks))"
proof -
  obtain k where k: "noder_tree N n k" using assms by (auto simp: is_tree_def)
  from k obtain ks ss where ks: "nd_children N n = Inr ks" "nd_num_children N n = Inr (length ks)"
    "distinct (map (nd_name N) ks)" "nd_is_dir N n \<or> ks = []" "\<not> nd_skip N n"
    "list_all2 (noder_tree N) ks ss" "k = Suc (sum_list ss)"
    by (auto elim: noder_treeE)
  have "ss = map (nd_size N) ks"
    using ks(6) by (auto simp: list_all2_conv_all_nth nd_size_eq intro!: nth_equalityI)
  moreover have "is_tree N x" if "x \<in> set ks" for x
    using ks(6) that by (auto simp: list_all2_conv_all_nth in_set_conv_nth is_tree_def)
  ultimately show thesis using ks nd_size_eq [OF k] by (intro that [of ks]) auto
qed

lemma is_treeI:
  assumes "nd_children N n = Inr ks" "nd_num_children N n = Inr (length ks)"
    "distinct (map (nd_name N) ks)" "nd_is_dir N n \<or> ks = []" "\<not> nd_skip N n"
    "\<And>k. k \<in> set ks \<Longrightarrow> is_tree N k"
  shows "is_tree N n"
proof -
  have "noder_tree N k (nd_size N k)" if k: "k \<in> set ks" for k
    using assms(6) [OF k] by (auto simp: is_tree_def dest: nd_size_eq)
  then have "list_all2 (noder_tree N) ks (map (nd_size N) ks)"
    by (simp add: list_all2_conv_all_nth)
  with assms(1-5) show ?thesis by (auto simp: is_tree_def intro: noder_tree.node)
qed

lemma is_tree_imp_root:
  assumes "is_tree N n"
  shows "is_root N n"
proof -
  obtain ks where ks: "nd_children N n = Inr ks" "distinct (map (nd_name N) ks)"
    "\<And>k. k \<in> set ks \<Longrightarrow> is_tree N k"
    using is_tree_unfold [OF assms] by metis
  have "Ball (set ks) (is_tree N)" by (rule ballI) (rule ks(3))
  with ks(1,2) show ?thesis unfolding is_root_def by blast
qed

lemma is_tree_kids: "is_tree N n \<Longrightarrow> k \<in> set (sorted_kids N n) \<Longrightarrow> is_tree N k"
  by (erule is_tree_unfold) (simp add: sorted_kids_def)

lemma nd_size_kids:
  "is_tree N n \<Longrightarrow> nd_size N n = Suc (sum_list (map (nd_size N) (sorted_kids N n)))"
  by (erule is_tree_unfold) (simp add: sorted_kids_def)

lemma is_tree_file: "is_tree N n \<Longrightarrow> \<not> nd_is_dir N n \<Longrightarrow> sorted_kids N n = []"
  by (erule is_tree_unfold) (simp add: sorted_kids_def)

lemma is_tree_no_skip: "is_tree N n \<Longrightarrow> \<not> nd_skip N n"
  by (erule is_tree_unfold) simp

lemma is_tree_num:
  "is_tree N n \<Longrightarrow> nd_num_children N n = Inr (length (sorted_kids N n))"
  by (erule is_tree_unfold) (simp add: sorted_kids_def)

lemma is_tree_frame:
  "is_root N n \<Longrightarrow> \<exists>f. frame_New N n = Inr f \<and> frame_list f = sorted_kids N n"
  by (auto simp: is_root_def frame_New_def frame_list_def sorted_kids_def)

lemma sorted_kids_names:
  assumes "is_root N n"
  shows "sorted (map (nd_name N) (sorted_kids N n))" "distinct (map (nd_name N) (sorted_kids N n))"
  using assms by (auto simp: is_root_def sorted_kids_def)

subsection \<open>One call of \<open>Next\<close> and \<open>Step\<close>\<close>

definition head_result :: "'n path list \<Rightarrow> 'n path result" where
  "head_result ps = (case ps of [] \<Rightarrow> Inl EOF | p # _ \<Rightarrow> Inr p)"

text \<open>An iterator whose pending paths all end in well-formed tries.\<close>

definition walks :: "'n noder_ops \<Rightarrow> 'n iter \<Rightarrow> 'n path list \<Rightarrow> bool" where
  "walks N it ps \<longleftrightarrow> iter_ok it \<and> pending it = ps \<and> (\<forall>p \<in> set ps. p \<noteq> [] \<and> is_tree N (path_Last p))"

lemma walks_current: "walks N it ps \<Longrightarrow> iter_current it = head_result ps"
  by (auto simp: walks_def iter_current_pending head_result_def)

lemma path_kids_trees:
  assumes "is_root N (path_Last p)" "q \<in> set (path_kids N p)"
  shows "q \<noteq> [] \<and> is_tree N (path_Last q)"
  using assms by (auto simp: path_kids_def path_Last_def is_root_def sorted_kids_def)

lemma newIter_walks:
  assumes "is_root N r"
  shows "\<exists>it. newIter N (Some r) base = Inr it \<and> \<not> it_started it \<and>
    walks N it (map (\<lambda>k. base @ [k]) (sorted_kids N r))"
proof -
  obtain f where f: "frame_New N r = Inr f" "frame_list f = sorted_kids N r"
    using is_tree_frame [OF assms] by blast
  have "is_tree N k" if "k \<in> set (sorted_kids N r)" for k
    using assms that by (auto simp: is_root_def sorted_kids_def)
  with f show ?thesis
    by (auto simp: newIter_def iter_push_def walks_def iter_ok_def pending_def path_Last_def)
qed

lemma advance_first:
  assumes "walks N it (p # ps)" "\<not> it_started it"
  shows "\<exists>it'. iter_advance N d it = (Inr p, it') \<and> it_started it' \<and> walks N it' (p # ps)"
  using assms walks_current [OF assms(1)]
  by (auto simp: iter_advance_def head_result_def walks_def)

lemma advance_end:
  assumes "walks N it []"
  shows "iter_advance N d it = (Inl EOF, it)"
  using walks_current [OF assms] by (simp add: iter_advance_def head_result_def)

lemma advance_next:
  assumes w: "walks N it (p # ps)" and "it_started it" and d: "\<not> d \<or> sorted_kids N (path_Last p) = []"
  shows "\<exists>it'. iter_advance N d it = (head_result ps, it') \<and> it_started it' \<and> walks N it' ps"
proof -
  have it: "iter_ok it" "pending it = p # ps" "is_tree N (path_Last p)"
    using w by (auto simp: walks_def)
  have w': "walks N (iter_drop it) ps"
    using w iter_drop_pending [OF it(1,2)] by (auto simp: walks_def)
  have "iter_advance N d it = (iter_current (iter_drop it), iter_drop it)"
    using walks_current [OF w] \<open>it_started it\<close> is_tree_num [OF it(3)] d
    by (auto simp: iter_advance_def head_result_def path_NumChildren_def Let_def)
  with w' \<open>it_started it\<close> show ?thesis by (auto simp: walks_current)
qed

lemma advance_step:
  assumes w: "walks N it (p # ps)" and "it_started it"
  shows "\<exists>it'. iter_Step N it = (head_result (path_kids N p @ ps), it') \<and> it_started it' \<and>
    walks N it' (path_kids N p @ ps)"
proof (cases "sorted_kids N (path_Last p) = []")
  case True
  then show ?thesis
    using advance_next [OF assms, of True] by (simp add: iter_Step_def path_kids_def)
next
  case False
  have it: "iter_ok it" "pending it = p # ps" "is_tree N (path_Last p)"
    using w by (auto simp: walks_def)
  obtain f where f: "frame_New N (path_Last p) = Inr f" "frame_list f = sorted_kids N (path_Last p)"
    using is_tree_frame [OF is_tree_imp_root [OF it(3)]] by blast
  have pend: "pending (iter_push f it) = path_kids N p @ ps" "iter_ok (iter_push f it)"
    using iter_push_pending [OF it(1,2), of f] False f(2) by (simp_all add: path_kids_def)
  have w': "walks N (iter_push f it) (path_kids N p @ ps)"
    using w pend path_kids_trees [OF is_tree_imp_root [OF it(3)]] by (auto simp: walks_def)
  have "iter_Step N it = (iter_current (iter_push f it), iter_push f it)"
    using walks_current [OF w] \<open>it_started it\<close> is_tree_num [OF it(3)] f False
    by (auto simp: iter_Step_def iter_advance_def head_result_def path_NumChildren_def Let_def)
  with w' \<open>it_started it\<close> show ?thesis by (auto simp: walks_current)
qed

lemma Next_walks:
  assumes "walks N it (p # ps)" "it_started it"
  shows "\<exists>it'. iter_Next N it = (head_result ps, it') \<and> it_started it' \<and> walks N it' ps"
  using advance_next [OF assms, of False] by (simp add: iter_Next_def)

subsection \<open>The size of what is pending, and the files below a path\<close>

definition total_size :: "'n noder_ops \<Rightarrow> 'n path list \<Rightarrow> nat" where
  "total_size N ps = sum_list (map (\<lambda>p. nd_size N (path_Last p)) ps)"

lemma total_size_simps [simp]:
  "total_size N [] = 0" "total_size N (p # ps) = nd_size N (path_Last p) + total_size N ps"
  "total_size N (ps @ qs) = total_size N ps + total_size N qs"
  by (simp_all add: total_size_def)

lemma total_size_kids:
  "is_tree N (path_Last p) \<Longrightarrow> nd_size N (path_Last p) = Suc (total_size N (path_kids N p))"
  by (simp add: nd_size_kids total_size_def path_kids_def comp_def path_Last_def)

lemma nd_size_member: "p \<in> set ps \<Longrightarrow> nd_size N (path_Last p) \<le> total_size N ps"
  by (induction ps) auto

text \<open>The files below a path, in the order of a depth-first walk; \<open>d\<close> bounds the depth.\<close>

fun leaves_upto :: "nat \<Rightarrow> 'n noder_ops \<Rightarrow> 'n path \<Rightarrow> 'n path list" where
  "leaves_upto 0 N p = []"
| "leaves_upto (Suc d) N p =
     (if path_IsDir N p then concat (map (leaves_upto d N) (path_kids N p)) else [p])"

definition path_leaves :: "'n noder_ops \<Rightarrow> 'n path \<Rightarrow> 'n path list" where
  "path_leaves N p = leaves_upto (nd_size N (path_Last p)) N p"

definition all_leaves :: "'n noder_ops \<Rightarrow> 'n path list \<Rightarrow> 'n path list" where
  "all_leaves N ps = concat (map (path_leaves N) ps)"

lemma leaves_upto_enough:
  "is_tree N (path_Last p) \<Longrightarrow> nd_size N (path_Last p) \<le> d \<Longrightarrow> leaves_upto d N p = path_leaves N p"
proof (induction d arbitrary: p rule: less_induct)
  case (less d)
  obtain s where s: "nd_size N (path_Last p) = Suc s" "total_size N (path_kids N p) = s"
    using total_size_kids [OF less.prems(1)] by simp
  with less.prems obtain d' where d: "d = Suc d'" "s \<le> d'" by (cases d) auto
  have kids: "leaves_upto d' N q = leaves_upto s N q" if "q \<in> set (path_kids N p)" for q
  proof -
    have q: "is_tree N (path_Last q)" "nd_size N (path_Last q) \<le> s"
      using path_kids_trees [OF is_tree_imp_root [OF less.prems(1)] that] nd_size_member [OF that] s
      by auto
    with d less.prems s have "s < d" "d' < d" by auto
    with less.IH q d(2) show ?thesis by simp
  qed
  then show ?case by (simp add: d(1) s(1) path_leaves_def cong: map_cong)
qed

lemma path_leaves_unfold:
  assumes "is_tree N (path_Last p)"
  shows "path_leaves N p = (if path_IsDir N p then all_leaves N (path_kids N p) else [p])"
proof -
  obtain s where s: "nd_size N (path_Last p) = Suc s" "total_size N (path_kids N p) = s"
    using total_size_kids [OF assms] by simp
  have "leaves_upto s N q = path_leaves N q" if "q \<in> set (path_kids N p)" for q
    using path_kids_trees [OF is_tree_imp_root [OF assms] that] nd_size_member [OF that, of N] s
    by (intro leaves_upto_enough) auto
  then show ?thesis by (simp add: path_leaves_def s(1) all_leaves_def cong: map_cong)
qed

lemma all_leaves_simps [simp]:
  "all_leaves N [] = []" "all_leaves N (p # ps) = path_leaves N p @ all_leaves N ps"
  "all_leaves N (ps @ qs) = all_leaves N ps @ all_leaves N qs"
  by (simp_all add: all_leaves_def)

subsection \<open>The interface of a provider of noders\<close>

locale noder_interface =
  fixes N :: "'n noder_ops"
    and valid_root :: "'n \<Rightarrow> bool"
  assumes valid_is_root: "valid_root n \<Longrightarrow> is_root N n"
    and equal_is_hash: "nd_equal N a b \<longleftrightarrow> nd_hash N a = nd_hash N b"

end
