(* ===== verification/Diff_Refine.thy ===== *)
theory Diff_Refine
  imports Diff_Tree
begin

section \<open>DiffTree ends and is a merge of two walks\<close>

text \<open>
  \<open>merge_diff N ps qs cs\<close> is one walk over the pending paths \<open>ps\<close> of the first trie and \<open>qs\<close>
  of the second that produces the changes \<open>cs\<close>: one rule per row of the case table in
  difftree.go. The theory proves that \<open>addRecursive\<close> adds one change per file below its path
  and that the loop of \<open>DiffTree\<close> ends on well-formed tries with the changes of such a walk.
\<close>

definition same_children :: "'n noder_ops \<Rightarrow> 'n path \<Rightarrow> 'n path \<Rightarrow> bool" where
  "same_children N p q \<longleftrightarrow> isDiffChildrenSame N (path_Last p) (path_Last q) = Inr True"

definition same_node :: "'n noder_ops \<Rightarrow> 'n path \<Rightarrow> 'n path \<Rightarrow> bool" where
  "same_node N p q \<longleftrightarrow> nd_equal N (path_Last p) (path_Last q)"

inductive merge_diff :: "'n noder_ops \<Rightarrow> 'n path list \<Rightarrow> 'n path list \<Rightarrow> 'n change list \<Rightarrow> bool"
  for N :: "'n noder_ops" where
  done_both: "merge_diff N [] [] []"
| only_from: "merge_diff N ps [] cs \<Longrightarrow> merge_diff N (p # ps) [] (map NewDelete (path_leaves N p) @ cs)"
| only_to: "merge_diff N [] qs cs \<Longrightarrow> merge_diff N [] (q # qs) (map NewInsert (path_leaves N q) @ cs)"
| from_less: "path_names N p < path_names N q \<Longrightarrow> merge_diff N ps (q # qs) cs \<Longrightarrow>
    merge_diff N (p # ps) (q # qs) (map NewDelete (path_leaves N p) @ cs)"
| to_less: "path_names N q < path_names N p \<Longrightarrow> merge_diff N (p # ps) qs cs \<Longrightarrow>
    merge_diff N (p # ps) (q # qs) (map NewInsert (path_leaves N q) @ cs)"
| same: "path_names N p = path_names N q \<Longrightarrow> same_node N p q \<Longrightarrow> merge_diff N ps qs cs \<Longrightarrow>
    merge_diff N (p # ps) (q # qs) cs"
| files: "path_names N p = path_names N q \<Longrightarrow> \<not> same_node N p q \<Longrightarrow>
    \<not> path_IsDir N p \<Longrightarrow> \<not> path_IsDir N q \<Longrightarrow> merge_diff N ps qs cs \<Longrightarrow>
    merge_diff N (p # ps) (q # qs) (NewModify p q # cs)"
| file_dir: "path_names N p = path_names N q \<Longrightarrow> \<not> same_node N p q \<Longrightarrow>
    path_IsDir N p \<noteq> path_IsDir N q \<Longrightarrow> merge_diff N ps qs cs \<Longrightarrow>
    merge_diff N (p # ps) (q # qs)
      (map NewDelete (path_leaves N p) @ map NewInsert (path_leaves N q) @ cs)"
| dirs_same_children: "path_names N p = path_names N q \<Longrightarrow> \<not> same_node N p q \<Longrightarrow>
    path_IsDir N p \<Longrightarrow> path_IsDir N q \<Longrightarrow> same_children N p q \<Longrightarrow> merge_diff N ps qs cs \<Longrightarrow>
    merge_diff N (p # ps) (q # qs) (NewModify p q # cs)"
| from_empty: "path_names N p = path_names N q \<Longrightarrow> \<not> same_node N p q \<Longrightarrow>
    path_IsDir N p \<Longrightarrow> path_IsDir N q \<Longrightarrow> \<not> same_children N p q \<Longrightarrow> path_kids N p = [] \<Longrightarrow>
    merge_diff N ps qs cs \<Longrightarrow>
    merge_diff N (p # ps) (q # qs) (map NewInsert (path_leaves N q) @ cs)"
| to_empty: "path_names N p = path_names N q \<Longrightarrow> \<not> same_node N p q \<Longrightarrow>
    path_IsDir N p \<Longrightarrow> path_IsDir N q \<Longrightarrow> \<not> same_children N p q \<Longrightarrow>
    path_kids N p \<noteq> [] \<Longrightarrow> path_kids N q = [] \<Longrightarrow> merge_diff N ps qs cs \<Longrightarrow>
    merge_diff N (p # ps) (q # qs) (map NewDelete (path_leaves N p) @ cs)"
| descend: "path_names N p = path_names N q \<Longrightarrow> \<not> same_node N p q \<Longrightarrow>
    path_IsDir N p \<Longrightarrow> path_IsDir N q \<Longrightarrow> \<not> same_children N p q \<Longrightarrow>
    path_kids N p \<noteq> [] \<Longrightarrow> path_kids N q \<noteq> [] \<Longrightarrow>
    merge_diff N (path_kids N p @ ps) (path_kids N q @ qs) cs \<Longrightarrow>
    merge_diff N (p # ps) (q # qs) cs"

subsection \<open>addRecursive\<close>

lemma add_loop_walks:
  assumes "walks N it ps" "ps \<noteq> [] \<Longrightarrow> it_started it"
  shows "add_recursive_loop N ctor it l =
    Some (Inr (l @ map ctor (all_leaves N (case ps of [] \<Rightarrow> [] | p # qs \<Rightarrow> path_kids N p @ qs))))"
  using assms
proof (induction "total_size N ps" arbitrary: ps it l rule: less_induct)
  case less
  show ?case
  proof (cases ps)
    case Nil
    with less.prems have "iter_Step N it = (Inl EOF, it)"
      by (simp add: iter_Step_def advance_end)
    then show ?thesis by (simp add: Nil add_recursive_loop.simps)
  next
    case (Cons p qs)
    let ?rest = "path_kids N p @ qs"
    have tree: "is_tree N (path_Last p)" using less.prems(1) Cons by (auto simp: walks_def)
    obtain it' where step: "iter_Step N it = (head_result ?rest, it')" "it_started it'"
      "walks N it' ?rest"
      using advance_step [of N it p qs] less.prems Cons by auto
    show ?thesis
    proof (cases ?rest)
      case Nil
      then show ?thesis using step(1) Cons
        by (subst add_recursive_loop.simps) (simp add: head_result_def)
    next
      case rest: (Cons q rs)
      have treeq: "is_tree N (path_Last q)" using step(3) rest by (auto simp: walks_def)
      have "total_size N ?rest < total_size N ps"
        using total_size_kids [OF tree] Cons by simp
      then have IH: "add_recursive_loop N ctor it' l' =
          Some (Inr (l' @ map ctor (all_leaves N (path_kids N q @ rs))))" for l'
        using less.hyps [of ?rest it' l'] step rest by simp
      have "path_kids N q = []" if "\<not> path_IsDir N q"
        using is_tree_file [OF treeq] that by (simp add: path_IsDir_def path_kids_def)
      then have "add_recursive_loop N ctor it l =
          Some (Inr (l @ map ctor (all_leaves N (q # rs))))"
        using step(1) rest treeq
        by (subst add_recursive_loop.simps)
          (simp add: head_result_def IH changes_Add_def path_leaves_unfold)
      with rest Cons show ?thesis by simp
    qed
  qed
qed

lemma addRecursive_leaves:
  assumes "is_tree N (path_Last p)"
  shows "addRecursive N p ctor l = Some (Inr (l @ map ctor (path_leaves N p)))"
proof (cases "path_IsDir N p")
  case False
  then show ?thesis by (simp add: addRecursive_def changes_Add_def path_leaves_unfold [OF assms])
next
  case True
  obtain it where it: "newIter N (Some (path_Last p)) p = Inr it" "\<not> it_started it"
    "walks N it (path_kids N p)"
    using newIter_walks [OF is_tree_imp_root [OF assms], of p] by (auto simp: path_kids_def)
  have "add_recursive_loop N ctor it l = Some (Inr (l @ map ctor (all_leaves N (path_kids N p))))"
  proof (cases "path_kids N p")
    case Nil
    then show ?thesis using add_loop_walks [OF it(3)] by simp
  next
    case (Cons q qs)
    obtain it' where it': "iter_Step N it = (Inr q, it')" "it_started it'" "walks N it' (q # qs)"
      using advance_first [of N it q qs True] it Cons by (auto simp: iter_Step_def)
    have treeq: "is_tree N (path_Last q)" using it'(3) by (auto simp: walks_def)
    have rest: "add_recursive_loop N ctor it' l' =
        Some (Inr (l' @ map ctor (all_leaves N (path_kids N q @ qs))))" for l'
      using add_loop_walks [OF it'(3)] it'(2) by simp
    have "path_kids N q = []" if "\<not> path_IsDir N q"
      using is_tree_file [OF treeq] that by (simp add: path_IsDir_def path_kids_def)
    then show ?thesis
      using it'(1) treeq Cons
      by (subst add_recursive_loop.simps) (simp add: rest changes_Add_def path_leaves_unfold)
  qed
  with True it(1) show ?thesis
    by (simp add: addRecursive_def NewIterFromPath_def path_leaves_unfold [OF assms])
qed

subsection \<open>The double iterator\<close>

definition head_path :: "'n path list \<Rightarrow> 'n path option" where
  "head_path ps = (case ps of [] \<Rightarrow> None | p # _ \<Rightarrow> Some p)"

text \<open>A double iterator whose sides walk \<open>ps\<close> and \<open>qs\<close> and stand at their heads.\<close>

definition side :: "'n noder_ops \<Rightarrow> 'n iter \<Rightarrow> 'n path option \<Rightarrow> 'n path list \<Rightarrow> bool" where
  "side N it cur ps \<longleftrightarrow> walks N it ps \<and> cur = head_path ps \<and> (ps \<noteq> [] \<longrightarrow> it_started it)"

definition both_walk :: "'n noder_ops \<Rightarrow> 'n double_iter \<Rightarrow> 'n path list \<Rightarrow> 'n path list \<Rightarrow> bool" where
  "both_walk N d ps qs \<longleftrightarrow>
     side N (di_from_iter d) (di_from d) ps \<and> side N (di_to_iter d) (di_to d) qs"

lemma head_result_simps [simp]:
  "turnEOFIntoNil (head_result ps) = None" "path_or_nil (head_result ps) = head_path ps"
  by (auto simp: turnEOFIntoNil_def path_or_nil_def head_result_def head_path_def split: list.split)

lemma side_Next:
  assumes "side N it cur (p # ps)"
  obtains it' where "iter_Next N it = (head_result ps, it')" "side N it' (head_path ps) ps"
  using Next_walks [of N it p ps] assms by (auto simp: side_def)

lemma side_Step:
  assumes "side N it cur (p # ps)"
  obtains it' where "iter_Step N it = (head_result (path_kids N p @ ps), it')"
    "side N it' (head_path (path_kids N p @ ps)) (path_kids N p @ ps)"
  using advance_step [of N it p ps] assms by (auto simp: side_def)

lemma nextFrom_walk:
  assumes "both_walk N d (p # ps) qs"
  shows "\<exists>d'. nextFrom N d = Inr d' \<and> both_walk N d' ps qs"
proof -
  obtain it where "iter_Next N (di_from_iter d) = (head_result ps, it)" "side N it (head_path ps) ps"
    using side_Next assms by (metis both_walk_def)
  with assms show ?thesis by (simp add: nextFrom_def both_walk_def)
qed

lemma nextTo_walk:
  assumes "both_walk N d ps (q # qs)"
  shows "\<exists>d'. nextTo N d = Inr d' \<and> both_walk N d' ps qs"
proof -
  obtain it where "iter_Next N (di_to_iter d) = (head_result qs, it)" "side N it (head_path qs) qs"
    using side_Next assms by (metis both_walk_def)
  with assms show ?thesis by (simp add: nextTo_def both_walk_def)
qed

lemma nextBoth_walk:
  assumes "both_walk N d (p # ps) (q # qs)"
  shows "\<exists>d'. nextBoth N d = Inr d' \<and> both_walk N d' ps qs"
proof -
  obtain d1 where "nextFrom N d = Inr d1" "both_walk N d1 ps (q # qs)"
    using nextFrom_walk [OF assms] by blast
  moreover obtain d2 where "nextTo N d1 = Inr d2" "both_walk N d2 ps qs"
    using nextTo_walk [OF calculation(2)] by blast
  ultimately show ?thesis by (simp add: nextBoth_def)
qed

lemma stepBoth_walk:
  assumes "both_walk N d (p # ps) (q # qs)"
  shows "\<exists>d'. stepBoth N d = Inr d' \<and> both_walk N d' (path_kids N p @ ps) (path_kids N q @ qs)"
proof -
  from assms have sides: "side N (di_from_iter d) (di_from d) (p # ps)"
    "side N (di_to_iter d) (di_to d) (q # qs)"
    by (simp_all add: both_walk_def)
  obtain fi where "iter_Step N (di_from_iter d) = (head_result (path_kids N p @ ps), fi)"
    "side N fi (head_path (path_kids N p @ ps)) (path_kids N p @ ps)"
    by (rule side_Step [OF sides(1)])
  moreover obtain ti where
    "iter_Step N (di_to_iter d) = (head_result (path_kids N q @ qs), ti)"
    "side N ti (head_path (path_kids N q @ qs)) (path_kids N q @ qs)"
    by (rule side_Step [OF sides(2)])
  ultimately show ?thesis by (simp add: stepBoth_def both_walk_def)
qed

lemma both_walk_heads:
  "both_walk N d ps qs \<Longrightarrow> di_from d = head_path ps"
  "both_walk N d ps qs \<Longrightarrow> di_to d = head_path qs"
  by (auto simp: both_walk_def side_def)

lemma both_walk_trees:
  "both_walk N d (p # ps) qs \<Longrightarrow> is_tree N (path_Last p) \<and> p \<noteq> []"
  "both_walk N d ps (q # qs) \<Longrightarrow> is_tree N (path_Last q) \<and> q \<noteq> []"
  by (auto simp: both_walk_def side_def walks_def)

lemma newDoubleIter_walk:
  assumes "is_root N f" "is_root N t"
  shows "\<exists>d. newDoubleIter N f t = Inr d \<and>
    both_walk N d (map (\<lambda>k. [k]) (sorted_kids N f)) (map (\<lambda>k. [k]) (sorted_kids N t))"
proof -
  have one: "\<exists>it it'. NewIter N (Some r) = Inr it \<and> iter_Next N it = (head_result ps, it') \<and>
      side N it' (head_path ps) ps"
    if r: "is_root N r" and ps: "ps = map (\<lambda>k. [k]) (sorted_kids N r)" for r ps
  proof -
    obtain it where it: "NewIter N (Some r) = Inr it" "\<not> it_started it" "walks N it ps"
      using newIter_walks [OF r, of "[]"] by (auto simp: NewIter_def ps)
    show ?thesis
    proof (cases ps)
      case Nil
      with it show ?thesis
        by (auto simp: iter_Next_def advance_end side_def head_result_def)
    next
      case (Cons p qs)
      with it advance_first [of N it p qs False] show ?thesis
        by (auto simp: iter_Next_def side_def head_result_def)
    qed
  qed
  let ?ps = "map (\<lambda>k. [k]) (sorted_kids N f)" and ?qs = "map (\<lambda>k. [k]) (sorted_kids N t)"
  obtain fi fi' where "NewIter N (Some f) = Inr fi" "iter_Next N fi = (head_result ?ps, fi')"
    "side N fi' (head_path ?ps) ?ps"
    using one [OF assms(1) refl] by blast
  moreover obtain ti ti' where "NewIter N (Some t) = Inr ti"
    "iter_Next N ti = (head_result ?qs, ti')" "side N ti' (head_path ?qs) ?qs"
    using one [OF assms(2) refl] by blast
  ultimately show ?thesis by (simp add: newDoubleIter_def both_walk_def)
qed

subsection \<open>One turn of the loop\<close>

lemma double_compare_tree:
  assumes "is_tree N (path_Last p)" "is_tree N (path_Last q)"
  shows "double_compare N p q = Inr
    \<lparr>cmp_sameHash = same_node N p q,
     cmp_bothAreFiles = (\<not> path_IsDir N p \<and> \<not> path_IsDir N q),
     cmp_fileAndDir = (path_IsDir N p \<noteq> path_IsDir N q),
     cmp_bothAreDirs = (path_IsDir N p \<and> path_IsDir N q),
     cmp_fromIsEmptyDir = (path_IsDir N p \<and> path_kids N p = []),
     cmp_toIsEmptyDir = (path_IsDir N q \<and> path_kids N q = [])\<rparr>"
  using is_tree_num [OF assms(1)] is_tree_num [OF assms(2)]
  by (auto simp: double_compare_def Let_def path_NumChildren_def same_node_def path_kids_def)

lemma isDiffChildrenSame_tree:
  assumes "is_tree N (path_Last p)" "is_tree N (path_Last q)"
  shows "isDiffChildrenSame N (path_Last p) (path_Last q) = Inr (same_children N p q)"
proof -
  obtain ks ls where "nd_children N (path_Last p) = Inr ks" "nd_children N (path_Last q) = Inr ls"
    using is_tree_imp_root [OF assms(1)] is_tree_imp_root [OF assms(2)] by (auto simp: is_root_def)
  then show ?thesis by (simp add: same_children_def isDiffChildrenSame_def)
qed

lemma bind_diff_simps [simp]: "bind_diff (Some (Inr x)) f = f x"
  by (simp add: bind_diff_def)

lemma advance_with_Inr [simp]: "advance_with l (Inr d) = Some (Inr (l, d))"
  by (simp add: advance_with_def)

lemma tree_no_path_Skip: "is_tree N (path_Last p) \<Longrightarrow> \<not> path_Skip N p"
  by (simp add: path_Skip_def is_tree_no_skip)

lemma tree_size_pos: "is_tree N n \<Longrightarrow> 0 < nd_size N n"
  by (simp add: nd_size_kids)

lemmas add_recursive_simps = AddRecursiveInsert_def AddRecursiveDelete_def addRecursive_leaves

text \<open>
  What a turn does to a pair of walks: it adds changes, moves to smaller walks, and any merge
  of those walks is a merge of the present ones with the added changes in front.
\<close>

definition turn_ok ::
  "'n noder_ops \<Rightarrow> 'n diff_state result option \<Rightarrow> 'n change list \<Rightarrow> 'n path list \<Rightarrow> 'n path list \<Rightarrow> bool"
where
  "turn_ok N r ret ps qs \<longleftrightarrow>
     (\<exists>cs1 d' ps' qs'. r = Some (Inr (ret @ cs1, d')) \<and> both_walk N d' ps' qs' \<and>
        total_size N ps' + total_size N qs' < total_size N ps + total_size N qs \<and>
        (\<forall>cs. merge_diff N ps' qs' cs \<longrightarrow> merge_diff N ps qs (cs1 @ cs)))"

lemma turn_okI:
  assumes "r = Some (Inr (ret @ new, d'))" "both_walk N d' ps' qs'"
    "total_size N ps' + total_size N qs' < total_size N ps + total_size N qs"
    "\<And>cs. merge_diff N ps' qs' cs \<Longrightarrow> merge_diff N ps qs (new @ cs)"
  shows "turn_ok N r ret ps qs"
  using assms unfolding turn_ok_def by blast

lemma same_name_turn:
  assumes w: "both_walk N d (p # ps) (q # qs)" and eq: "path_names N p = path_names N q"
  shows "turn_ok N (diffNodesSameName N p q ret d) ret (p # ps) (q # qs)"
proof -
  note tp = both_walk_trees(1) [OF w, THEN conjunct1]
  note tq = both_walk_trees(2) [OF w, THEN conjunct1]
  obtain d1 where d1: "nextBoth N d = Inr d1" "both_walk N d1 ps qs"
    using nextBoth_walk [OF w] by blast
  have small: "total_size N ps + total_size N qs < total_size N (p # ps) + total_size N (q # qs)"
    using tree_size_pos [OF tp] by simp
  note cmp = double_compare_tree [OF tp tq] isDiffChildrenSame_tree [OF tp tq]
  note step = turn_okI [OF _ d1(2) small]
  consider
      (same) "same_node N p q"
    | (files) "\<not> same_node N p q" "\<not> path_IsDir N p" "\<not> path_IsDir N q"
    | (mixed) "\<not> same_node N p q" "path_IsDir N p \<noteq> path_IsDir N q"
    | (kids) "\<not> same_node N p q" "path_IsDir N p" "path_IsDir N q" "same_children N p q"
    | (fromE) "\<not> same_node N p q" "path_IsDir N p" "path_IsDir N q" "\<not> same_children N p q"
        "path_kids N p = []"
    | (toE) "\<not> same_node N p q" "path_IsDir N p" "path_IsDir N q" "\<not> same_children N p q"
        "path_kids N p \<noteq> []" "path_kids N q = []"
    | (desc) "\<not> same_node N p q" "path_IsDir N p" "path_IsDir N q" "\<not> same_children N p q"
        "path_kids N p \<noteq> []" "path_kids N q \<noteq> []"
    by blast
  then show ?thesis
  proof cases
    case same
    show ?thesis
      by (rule step [where new = "[]"]) (use same eq in \<open>auto simp: diffNodesSameName_def cmp d1 intro: merge_diff.same\<close>)
  next
    case files
    show ?thesis
      by (rule step [where new = "[NewModify p q]"])
        (use files eq in \<open>auto simp: diffNodesSameName_def cmp d1 changes_Add_def intro: merge_diff.files\<close>)
  next
    case mixed
    show ?thesis
      by (rule step [where new = "map NewDelete (path_leaves N p) @ map NewInsert (path_leaves N q)"])
        (use mixed eq tp tq in \<open>auto simp: diffNodesSameName_def cmp d1 add_recursive_simps intro: merge_diff.file_dir\<close>)
  next
    case kids
    show ?thesis
      by (rule step [where new = "[NewModify p q]"])
        (use kids eq in \<open>auto simp: diffNodesSameName_def cmp d1 changes_Add_def NewModify_def [symmetric]
          intro: merge_diff.dirs_same_children\<close>)
  next
    case fromE
    show ?thesis
      by (rule step [where new = "map NewInsert (path_leaves N q)"])
        (use fromE eq tq in \<open>auto simp: diffNodesSameName_def diffDirs_def cmp d1 add_recursive_simps
          intro: merge_diff.from_empty\<close>)
  next
    case toE
    show ?thesis
      by (rule step [where new = "map NewDelete (path_leaves N p)"])
        (use toE eq tp in \<open>auto simp: diffNodesSameName_def diffDirs_def cmp d1 add_recursive_simps
          intro: merge_diff.to_empty\<close>)
  next
    case desc
    obtain d2 where d2: "stepBoth N d = Inr d2"
      "both_walk N d2 (path_kids N p @ ps) (path_kids N q @ qs)"
      using stepBoth_walk [OF w] by blast
    show ?thesis
      by (rule turn_okI [where new = "[]", OF _ d2(2)])
        (use desc eq total_size_kids [OF tp] total_size_kids [OF tq] in
          \<open>auto simp: diffNodesSameName_def diffDirs_def cmp d2 intro: merge_diff.descend\<close>)
  qed
qed

lemma diff_turn_ok:
  assumes w: "both_walk N d ps qs" and ne: "ps \<noteq> [] \<or> qs \<noteq> []"
  shows "turn_ok N (diff_turn N ret d) ret ps qs"
proof (cases ps)
  case Nil
  then obtain q qs' where qs: "qs = q # qs'" using ne by (cases qs) auto
  have tq: "is_tree N (path_Last q)" using both_walk_trees w qs by metis
  obtain d1 where d1: "nextTo N d = Inr d1" "both_walk N d1 [] qs'"
    using nextTo_walk [of N d "[]" q qs'] w Nil qs by auto
  show ?thesis unfolding Nil qs
    by (rule turn_okI [OF _ d1(2), where new = "map NewInsert (path_leaves N q)"])
      (use Nil qs w tq tree_size_pos [OF tq] in \<open>auto simp: diff_turn_def both_walk_heads [OF w]
         head_path_def tree_no_path_Skip add_recursive_simps d1 intro: merge_diff.only_to\<close>)
next
  case ps: (Cons p ps')
  have tp: "is_tree N (path_Last p)" using both_walk_trees w ps by metis
  obtain d1 where d1: "nextFrom N d = Inr d1" "both_walk N d1 ps' qs"
    using nextFrom_walk [of N d p ps' qs] w ps by auto
  show ?thesis
  proof (cases qs)
    case Nil
    show ?thesis unfolding ps Nil
      by (rule turn_okI [OF _ d1(2) [unfolded Nil], where new = "map NewDelete (path_leaves N p)"])
        (use Nil ps w tp tree_size_pos [OF tp] in \<open>auto simp: diff_turn_def both_walk_heads [OF w]
           head_path_def add_recursive_simps d1 intro: merge_diff.only_from\<close>)
  next
    case qs: (Cons q qs')
    have tq: "is_tree N (path_Last q)" using both_walk_trees w qs by metis
    obtain d2 where d2: "nextTo N d = Inr d2" "both_walk N d2 ps qs'"
      using nextTo_walk [of N d ps q qs'] w qs by auto
    have turn: "diff_turn N ret d = diffNodes N p q ret d"
      using tp tq by (simp add: diff_turn_def both_walk_heads [OF w] head_path_def ps qs tree_no_path_Skip)
    consider "path_names N p < path_names N q" | "path_names N q < path_names N p"
      | "path_names N p = path_names N q" by fastforce
    then show ?thesis
    proof cases
      case 1
      show ?thesis unfolding turn ps qs
        by (rule turn_okI [OF _ d1(2) [unfolded qs], where new = "map NewDelete (path_leaves N p)"])
          (use 1 tp tree_size_pos [OF tp] in \<open>auto simp: diffNodes_def Let_def add_recursive_simps d1
            intro: merge_diff.from_less\<close>)
    next
      case 2
      have "path_Compare N p q = 1" using 2 by simp
      with 2 tq tree_size_pos [OF tq] show ?thesis unfolding turn ps qs
        by (intro turn_okI [OF _ d2(2) [unfolded ps], where new = "map NewInsert (path_leaves N q)"])
          (auto simp: diffNodes_def Let_def add_recursive_simps d2 simp del: path_Compare_greater path_Compare_less
            intro: merge_diff.to_less)
    next
      case 3
      then have "path_Compare N p q = 0" by simp
      then have "diffNodes N p q ret d = diffNodesSameName N p q ret d"
        by (simp add: diffNodes_def del: path_Compare_0)
      with same_name_turn [OF w [unfolded ps qs] 3] show ?thesis by (simp add: turn ps qs)
    qed
  qed
qed

subsection \<open>The whole loop\<close>

text \<open>
  The loop ends: with the changes of a walk, or cancelled at a turn at which the context was
  done.
\<close>

lemma diff_loop_walk:
  assumes "both_walk N d ps qs"
  shows "\<exists>cs. merge_diff N ps qs cs \<and>
    (diff_loop N ctx i ret d = Some (Inr (ret @ cs)) \<or>
     diff_loop N ctx i ret d = Some (Inl ErrCanceled) \<and> (\<exists>j \<ge> i. ctx j))"
  using assms
proof (induction "total_size N ps + total_size N qs" arbitrary: ps qs d i ret rule: less_induct)
  case less
  show ?case
  proof (cases "ps = [] \<and> qs = []")
    case True
    with less.prems have "double_remaining d = noMoreNoders"
      by (simp add: double_remaining_def both_walk_heads [OF less.prems] head_path_def)
    with True show ?thesis
      by (subst (1 2) diff_loop.simps) (auto intro: merge_diff.done_both)
  next
    case False
    then have "turn_ok N (diff_turn N ret d) ret ps qs"
      by (intro diff_turn_ok [OF less.prems]) auto
    then obtain cs1 d' ps' qs' where turn: "diff_turn N ret d = Some (Inr (ret @ cs1, d'))"
      "both_walk N d' ps' qs'"
      "total_size N ps' + total_size N qs' < total_size N ps + total_size N qs"
      "\<And>cs. merge_diff N ps' qs' cs \<Longrightarrow> merge_diff N ps qs (cs1 @ cs)"
      unfolding turn_ok_def by blast
    obtain cs where cs: "merge_diff N ps' qs' cs"
      "diff_loop N ctx (Suc i) (ret @ cs1) d' = Some (Inr ((ret @ cs1) @ cs)) \<or>
       diff_loop N ctx (Suc i) (ret @ cs1) d' = Some (Inl ErrCanceled) \<and> (\<exists>j \<ge> Suc i. ctx j)"
      using less.hyps [OF turn(3,2)] by blast
    have "double_remaining d \<noteq> noMoreNoders"
      using False by (cases ps; cases qs)
        (auto simp: double_remaining_def both_walk_heads [OF less.prems] head_path_def)
    then have "diff_loop N ctx i ret d =
        (if ctx i then Some (Inl ErrCanceled) else diff_loop N ctx (Suc i) (ret @ cs1) d')"
      by (subst diff_loop.simps) (simp add: turn(1))
    moreover have "merge_diff N ps qs (cs1 @ cs)" by (rule turn(4) [OF cs(1)])
    ultimately show ?thesis
      using cs(2) by (intro exI [of _ "cs1 @ cs"]) (auto dest: Suc_leD)
  qed
qed

definition root_paths :: "'n noder_ops \<Rightarrow> 'n \<Rightarrow> 'n path list" where
  "root_paths N n = map (\<lambda>k. [k]) (sorted_kids N n)"

lemma DiffTreeContext_walk:
  assumes "is_root N f" "is_root N t"
  shows "\<exists>cs. merge_diff N (root_paths N f) (root_paths N t) cs \<and>
    (DiffTreeContext N ctx f t = Some (Inr cs) \<or>
     DiffTreeContext N ctx f t = Some (Inl ErrCanceled) \<and> (\<exists>j. ctx j))"
proof -
  obtain d where d: "newDoubleIter N f t = Inr d"
    "both_walk N d (root_paths N f) (root_paths N t)"
    using newDoubleIter_walk [OF assms] by (auto simp: root_paths_def)
  show ?thesis using diff_loop_walk [OF d(2), of ctx 0 "[]"] d(1)
    by (auto simp: DiffTreeContext_def)
qed

lemma DiffTree_walk:
  assumes "is_root N f" "is_root N t"
  shows "\<exists>cs. DiffTree N f t = Some (Inr cs) \<and> merge_diff N (root_paths N f) (root_paths N t) cs"
  using DiffTreeContext_walk [OF assms, of "\<lambda>_. False"] by (auto simp: DiffTree_def)

end
