(* ===== verification/Diff_Spec.thy ===== *)
theory Diff_Spec
  imports Diff_Refine
begin

section \<open>What DiffTree computes\<close>

text \<open>
  The specification of a diff speaks of files only. \<open>diff_spec F G\<close> is the set of changes
  between two sets of file paths: a delete for each path of \<open>F\<close> whose name \<open>G\<close> does not
  have, an insert for each path of \<open>G\<close> whose name \<open>F\<close> does not have, a modify for each common
  name with different content. The theory proves that a \<open>merge_diff\<close> walk computes it, each
  change once, when equal hashes mean equal files (\<open>merkle_ok\<close>) and no directory differs from
  its counterpart by names alone. The second condition is needed: see the theory \<open>Tree_Noder\<close>.
\<close>

subsection \<open>Names of paths\<close>

abbreviation names_of :: "'n noder_ops \<Rightarrow> 'n path set \<Rightarrow> string list set" where
  "names_of N A \<equiv> path_names N ` A"

lemma less_append_not_prefix:
  "(xs :: 'a::linorder list) < ys \<Longrightarrow> \<not> prefix xs ys \<Longrightarrow> xs @ zs < ys"
proof (induction xs arbitrary: ys)
  case Nil
  then show ?case by simp
next
  case (Cons x xs)
  then show ?case by (cases ys) auto
qed

lemma snoc_less_iff [simp]: "xs @ [a] < xs @ [b] \<longleftrightarrow> (a :: 'a::linorder) < b"
  by (induction xs) auto

lemma prefix_snoc_cases: "prefix ys (xs @ [x]) \<longleftrightarrow> prefix ys xs \<or> ys = xs @ [x]"
  by (auto simp: prefix_snoc)

lemma leaves_prefix:
  assumes "is_tree N (path_Last p)" "r \<in> set (path_leaves N p)"
  shows "prefix p r \<and> \<not> path_IsDir N r \<and> (path_IsDir N p \<longrightarrow> p \<noteq> r) \<and> (\<not> path_IsDir N p \<longrightarrow> r = p)"
  using assms
proof (induction "nd_size N (path_Last p)" arbitrary: p rule: less_induct)
  case less
  show ?case
  proof (cases "path_IsDir N p")
    case False
    with less.prems show ?thesis by (simp add: path_leaves_unfold)
  next
    case True
    with less.prems obtain q where q: "q \<in> set (path_kids N p)" "r \<in> set (path_leaves N q)"
      by (auto simp: path_leaves_unfold all_leaves_def)
    have "is_tree N (path_Last q)"
      using path_kids_trees [OF is_tree_imp_root [OF less.prems(1)] q(1)] by simp
    moreover have "nd_size N (path_Last q) < nd_size N (path_Last p)"
      using total_size_kids [OF less.prems(1)] nd_size_member [OF q(1), of N] by simp
    ultimately have "prefix q r" "\<not> path_IsDir N r" using less.hyps q(2) by auto
    moreover have "prefix p q" "p \<noteq> q" using q(1) by (auto simp: path_kids_def)
    ultimately show ?thesis using True by (metis prefix_order.trans prefix_order.antisym)
  qed
qed

lemma names_prefix: "prefix p r \<Longrightarrow> prefix (path_names N p) (path_names N r)"
  by (simp add: path_names_def map_mono_prefix)

subsection \<open>The walks' invariant\<close>

text \<open>
  Both lists ascend strictly, all paths end in tries, and no path is a proper prefix of
  another: the walks stand side by side.
\<close>

definition apart :: "'n noder_ops \<Rightarrow> 'n path set \<Rightarrow> bool" where
  "apart N A \<longleftrightarrow> (\<forall>p \<in> A. \<forall>q \<in> A. prefix (path_names N p) (path_names N q) \<longrightarrow>
     path_names N p = path_names N q)"

definition ascending :: "'n noder_ops \<Rightarrow> 'n path list \<Rightarrow> bool" where
  "ascending N ps \<longleftrightarrow> sorted_wrt (\<lambda>p q. path_names N p < path_names N q) ps \<and>
     (\<forall>p \<in> set ps. is_tree N (path_Last p))"

definition walk_inv :: "'n noder_ops \<Rightarrow> 'n path list \<Rightarrow> 'n path list \<Rightarrow> bool" where
  "walk_inv N ps qs \<longleftrightarrow> ascending N ps \<and> ascending N qs \<and> apart N (set ps \<union> set qs)"

lemma apartD:
  "apart N A \<Longrightarrow> p \<in> A \<Longrightarrow> q \<in> A \<Longrightarrow> prefix (path_names N p) (path_names N q) \<Longrightarrow>
    path_names N p = path_names N q"
  by (simp add: apart_def)

lemma leaves_disjoint:
  assumes "apart N A" "p \<in> A" "q \<in> A" "path_names N p \<noteq> path_names N q"
    "is_tree N (path_Last p)" "is_tree N (path_Last q)"
  shows "names_of N (set (path_leaves N p)) \<inter> names_of N (set (path_leaves N q)) = {}"
proof (rule ccontr)
  assume "\<not> ?thesis"
  then obtain r s where "r \<in> set (path_leaves N p)" "s \<in> set (path_leaves N q)"
    "path_names N r = path_names N s" by blast
  then have "prefix (path_names N p) (path_names N r)" "prefix (path_names N q) (path_names N r)"
    using assms(5,6) by (metis leaves_prefix names_prefix)+
  then have "prefix (path_names N p) (path_names N q) \<or> prefix (path_names N q) (path_names N p)"
    by (rule prefix_same_cases)
  then show False
    using apartD [OF assms(1-3)] apartD [OF assms(1,3,2)] assms(4) by auto
qed

lemma walk_inv_leaves_disjoint:
  assumes "walk_inv N ps qs" "p \<in> set ps \<union> set qs"
    "\<forall>q \<in> set xs. q \<in> set ps \<union> set qs \<and> path_names N p \<noteq> path_names N q"
  shows "names_of N (set (path_leaves N p)) \<inter> names_of N (set (all_leaves N xs)) = {}"
proof -
  have "apart N (set ps \<union> set qs)" "\<And>q. q \<in> set ps \<union> set qs \<Longrightarrow> is_tree N (path_Last q)"
    using assms(1) by (auto simp: walk_inv_def ascending_def)
  then have "names_of N (set (path_leaves N p)) \<inter> names_of N (set (path_leaves N q)) = {}"
    if "q \<in> set xs" for q
    using assms(2,3) that leaves_disjoint by (metis (no_types, lifting))
  then show ?thesis by (auto simp: all_leaves_def)
qed

lemma apart_subset: "apart N B \<Longrightarrow> A \<subseteq> B \<Longrightarrow> apart N A"
  by (auto simp: apart_def)

lemma ascending_Cons:
  "ascending N (p # ps) \<longleftrightarrow> ascending N ps \<and> is_tree N (path_Last p) \<and>
     (\<forall>q \<in> set ps. path_names N p < path_names N q)"
  by (auto simp: ascending_def)

lemma walk_inv_tails:
  "walk_inv N (p # ps) qs \<Longrightarrow> walk_inv N ps qs"
  "walk_inv N ps (q # qs) \<Longrightarrow> walk_inv N ps qs"
  by (auto simp: walk_inv_def ascending_Cons elim: apart_subset)

lemma path_kids_names:
  "q \<in> set (path_kids N p) \<Longrightarrow> \<exists>x. path_names N q = path_names N p @ [x]"
  by (auto simp: path_kids_def)

lemma ascending_kids:
  assumes "is_tree N (path_Last p)"
  shows "ascending N (path_kids N p)"
proof -
  have names: "sorted (map (nd_name N) (sorted_kids N (path_Last p)))"
    "distinct (map (nd_name N) (sorted_kids N (path_Last p)))"
    using sorted_kids_names [OF is_tree_imp_root [OF assms]] by auto
  then have "sorted_wrt (<) (map (nd_name N) (sorted_kids N (path_Last p)))"
    by (simp add: strict_sorted_iff)
  then have "sorted_wrt (\<lambda>p q. path_names N p < path_names N q) (path_kids N p)"
    by (simp add: path_kids_def sorted_wrt_map path_names_def)
  then show ?thesis
    using path_kids_trees [OF is_tree_imp_root [OF assms]] by (auto simp: ascending_def)
qed

lemma ascending_descend:
  assumes "ascending N (p # ps)" "apart N (set (p # ps))"
  shows "ascending N (path_kids N p @ ps)"
proof -
  have "path_names N q < path_names N r" if "q \<in> set (path_kids N p)" "r \<in> set ps" for q r
  proof -
    have less: "path_names N p < path_names N r"
      using assms(1) that(2) by (simp add: ascending_Cons)
    then have "\<not> prefix (path_names N p) (path_names N r)"
      using assms(2) that(2) unfolding apart_def by (metis list.set_intros less_irrefl)
    with less path_kids_names [OF that(1)] show ?thesis
      using less_append_not_prefix by metis
  qed
  then show ?thesis
    using assms(1) ascending_kids [of N p] by (auto simp: ascending_def sorted_wrt_append)
qed

lemma apart_kids:
  assumes A: "apart N (insert p A)" and ne: "\<forall>q \<in> A. path_names N q \<noteq> path_names N p"
    and K: "\<forall>k \<in> K. \<exists>x. path_names N k = path_names N p @ [x]"
  shows "apart N (K \<union> A)"
proof -
  have inc: "\<not> prefix (path_names N p) (path_names N q)" "\<not> prefix (path_names N q) (path_names N p)"
    if "q \<in> A" for q
    using apartD [OF A, of p q] apartD [OF A, of q p] ne that by auto
  have one: "\<not> prefix (path_names N k) (path_names N q)" "\<not> prefix (path_names N q) (path_names N k)"
    if k: "k \<in> K" and q: "q \<in> A" for k q
  proof -
    obtain x where x: "path_names N k = path_names N p @ [x]" using K k by blast
    show "\<not> prefix (path_names N k) (path_names N q)"
      using inc(1) [OF q] x by (metis append_prefixD)
    show "\<not> prefix (path_names N q) (path_names N k)"
      using inc [OF q] x by (auto simp: prefix_snoc_cases)
  qed
  have "path_names N k = path_names N l"
    if k: "k \<in> K" and l: "l \<in> K" and "prefix (path_names N k) (path_names N l)" for k l
  proof -
    obtain x y where "path_names N k = path_names N p @ [x]" "path_names N l = path_names N p @ [y]"
      using K k l by blast
    with that(3) show ?thesis by simp
  qed
  with A one show ?thesis unfolding apart_def by blast
qed

lemma walk_inv_descend:
  assumes inv: "walk_inv N (p # ps) (q # qs)" and eq: "path_names N p = path_names N q"
  shows "walk_inv N (path_kids N p @ ps) (path_kids N q @ qs)"
proof -
  let ?K = "set (path_kids N p) \<union> set (path_kids N q)" and ?A = "set ps \<union> set qs"
  have ap: "apart N (insert p ?A)" "apart N (set (p # ps))" "apart N (set (q # qs))"
    using inv by (auto simp: walk_inv_def elim: apart_subset)
  have "\<forall>r \<in> ?A. path_names N r \<noteq> path_names N p"
    using inv eq by (fastforce simp: walk_inv_def ascending_Cons)
  moreover have "\<forall>k \<in> ?K. \<exists>x. path_names N k = path_names N p @ [x]"
    using path_kids_names eq by (metis Un_iff)
  ultimately have "apart N (?K \<union> ?A)" by (rule apart_kids [OF ap(1)])
  moreover have "?K \<union> ?A = set (path_kids N p @ ps) \<union> set (path_kids N q @ qs)" by auto
  ultimately show ?thesis
    using inv ascending_descend [OF _ ap(2)] ascending_descend [OF _ ap(3)]
    by (simp add: walk_inv_def)
qed


subsection \<open>The specification\<close>

definition diff_spec :: "'n noder_ops \<Rightarrow> 'n path set \<Rightarrow> 'n path set \<Rightarrow> 'n change set" where
  "diff_spec N A B =
     NewDelete ` {p \<in> A. path_names N p \<notin> names_of N B} \<union>
     NewInsert ` {q \<in> B. path_names N q \<notin> names_of N A} \<union>
     {NewModify p q | p q. p \<in> A \<and> q \<in> B \<and> path_names N p = path_names N q \<and> \<not> same_node N p q}"

lemma diff_spec_mono_union:
  assumes "names_of N A \<inter> names_of N D = {}" "names_of N B \<inter> names_of N C = {}"
  shows "diff_spec N (A \<union> B) (C \<union> D) = diff_spec N A C \<union> diff_spec N B D"
proof -
  have ne: "\<And>a d. a \<in> A \<Longrightarrow> d \<in> D \<Longrightarrow> path_names N a \<noteq> path_names N d"
    "\<And>b c. b \<in> B \<Longrightarrow> c \<in> C \<Longrightarrow> path_names N b \<noteq> path_names N c"
    using assms by blast+
  have dels: "{p \<in> A \<union> B. path_names N p \<notin> names_of N (C \<union> D)} =
      {p \<in> A. path_names N p \<notin> names_of N C} \<union> {p \<in> B. path_names N p \<notin> names_of N D}"
    using ne by (auto dest: sym)
  have inss: "{q \<in> C \<union> D. path_names N q \<notin> names_of N (A \<union> B)} =
      {q \<in> C. path_names N q \<notin> names_of N A} \<union> {q \<in> D. path_names N q \<notin> names_of N B}"
    using ne by (auto dest: sym)
  have mods: "{NewModify p q | p q. p \<in> A \<union> B \<and> q \<in> C \<union> D \<and>
        path_names N p = path_names N q \<and> \<not> same_node N p q} =
      {NewModify p q | p q. p \<in> A \<and> q \<in> C \<and> path_names N p = path_names N q \<and> \<not> same_node N p q} \<union>
      {NewModify p q | p q. p \<in> B \<and> q \<in> D \<and> path_names N p = path_names N q \<and> \<not> same_node N p q}"
    using ne by blast
  have "diff_spec N (A \<union> B) (C \<union> D) =
      NewDelete ` ({p \<in> A. path_names N p \<notin> names_of N C} \<union> {p \<in> B. path_names N p \<notin> names_of N D}) \<union>
      NewInsert ` ({q \<in> C. path_names N q \<notin> names_of N A} \<union> {q \<in> D. path_names N q \<notin> names_of N B}) \<union>
      ({NewModify p q | p q. p \<in> A \<and> q \<in> C \<and> path_names N p = path_names N q \<and> \<not> same_node N p q} \<union>
       {NewModify p q | p q. p \<in> B \<and> q \<in> D \<and> path_names N p = path_names N q \<and> \<not> same_node N p q})"
    unfolding diff_spec_def [of N "A \<union> B"] dels inss mods by (rule refl)
  then show ?thesis unfolding diff_spec_def [of N A C] diff_spec_def [of N B D]
    by (simp only: image_Un [of NewDelete] image_Un [of NewInsert] Un_ac)
qed

lemma diff_spec_simps [simp]:
  "diff_spec N {} {} = {}"
  "diff_spec N A {} = NewDelete ` A"
  "diff_spec N {} B = NewInsert ` B"
  by (simp_all add: diff_spec_def)

lemma diff_spec_disjoint:
  "names_of N A \<inter> names_of N B = {} \<Longrightarrow> diff_spec N A B = NewDelete ` A \<union> NewInsert ` B"
proof -
  assume d: "names_of N A \<inter> names_of N B = {}"
  then have "{p \<in> A. path_names N p \<notin> names_of N B} = A" "{q \<in> B. path_names N q \<notin> names_of N A} = B"
    by blast+
  moreover have "{NewModify p q | p q. p \<in> A \<and> q \<in> B \<and> path_names N p = path_names N q \<and>
      \<not> same_node N p q} = {}"
    using d by blast
  ultimately show ?thesis by (simp only: diff_spec_def Un_empty_right)
qed

definition change_names :: "'n noder_ops \<Rightarrow> 'n change \<Rightarrow> string list" where
  "change_names N c = (case ch_From c of Some p \<Rightarrow> path_names N p
     | None \<Rightarrow> (case ch_To c of Some q \<Rightarrow> path_names N q | None \<Rightarrow> []))"

lemma change_names_simps [simp]:
  "change_names N (NewDelete p) = path_names N p"
  "change_names N (NewInsert p) = path_names N p"
  "change_names N (NewModify p q) = path_names N p"
  by (simp_all add: change_names_def NewDelete_def NewInsert_def NewModify_def)

lemma diff_spec_names: "change_names N ` diff_spec N A B \<subseteq> names_of N A \<union> names_of N B"
  by (auto simp: diff_spec_def)

lemma change_eqs [simp]:
  "NewDelete p = NewDelete q \<longleftrightarrow> p = q" "NewInsert p = NewInsert q \<longleftrightarrow> p = q"
  "NewModify p q = NewModify r s \<longleftrightarrow> p = r \<and> q = s"
  "NewDelete p \<noteq> NewInsert q" "NewInsert q \<noteq> NewDelete p" "NewDelete p \<noteq> NewModify q r"
  "NewModify q r \<noteq> NewDelete p" "NewInsert p \<noteq> NewModify q r" "NewModify q r \<noteq> NewInsert p"
  by (simp_all add: NewDelete_def NewInsert_def NewModify_def)

subsection \<open>The files below a node, and when hashes can be trusted\<close>

definition path_files :: "'n noder_ops \<Rightarrow> 'n path \<Rightarrow> (string list \<times> hash) set" where
  "path_files N p = (\<lambda>r. (path_names N r, path_Hash N r)) ` set (path_leaves N p)"

definition node_files :: "'n noder_ops \<Rightarrow> 'n \<Rightarrow> (string list \<times> hash) set" where
  "node_files N n = (\<lambda>r. (path_names N (tl r), path_Hash N r)) ` set (path_leaves N [n])"

inductive below :: "'n noder_ops \<Rightarrow> 'n \<Rightarrow> 'n \<Rightarrow> bool" for N :: "'n noder_ops" and n :: 'n where
  child: "k \<in> set (sorted_kids N n) \<Longrightarrow> below N n k"
| deeper: "below N n m \<Longrightarrow> k \<in> set (sorted_kids N m) \<Longrightarrow> below N n k"

text \<open>
  Below the two roots, nodes that compare equal hold the same files, and two directories that
  compare different do not have the same multiset of child hashes.
\<close>

definition hashes_sound :: "'n noder_ops \<Rightarrow> 'n \<Rightarrow> 'n \<Rightarrow> bool" where
  "hashes_sound N f t \<longleftrightarrow> (\<forall>a b. below N f a \<longrightarrow> below N t b \<longrightarrow> nd_equal N a b \<longrightarrow>
     nd_is_dir N a = nd_is_dir N b \<and> node_files N a = node_files N b)"

definition no_bare_renames :: "'n noder_ops \<Rightarrow> 'n \<Rightarrow> 'n \<Rightarrow> bool" where
  "no_bare_renames N f t \<longleftrightarrow> (\<forall>a b. below N f a \<longrightarrow> below N t b \<longrightarrow> nd_is_dir N a \<longrightarrow>
     nd_is_dir N b \<longrightarrow> \<not> nd_equal N a b \<longrightarrow> isDiffChildrenSame N a b \<noteq> Inr True)"

lemma leaves_upto_prepend:
  "p \<noteq> [] \<Longrightarrow> leaves_upto d N (base @ p) = map ((@) base) (leaves_upto d N p)"
proof (induction d arbitrary: p)
  case (Suc d)
  have "path_kids N (base @ p) = map ((@) base) (path_kids N p)"
    using Suc.prems by (simp add: path_kids_def path_Last_def comp_def)
  moreover have "leaves_upto d N (base @ q) = map ((@) base) (leaves_upto d N q)"
    if "q \<in> set (path_kids N p)" for q
    using that Suc.IH [of q] by (auto simp: path_kids_def)
  ultimately show ?case
    using Suc.prems
    by (simp add: path_IsDir_def path_Last_def map_concat comp_def cong: map_cong)
qed simp

lemma path_leaves_prepend:
  "p \<noteq> [] \<Longrightarrow> path_leaves N (base @ p) = map ((@) base) (path_leaves N p)"
  by (simp add: path_leaves_def path_Last_def leaves_upto_prepend)

lemma leaves_upto_ne: "p \<noteq> [] \<Longrightarrow> r \<in> set (leaves_upto d N p) \<Longrightarrow> r \<noteq> []"
  by (induction d arbitrary: p) (fastforce simp: path_kids_def split: if_splits)+

lemma leaves_upto_hd: "p \<noteq> [] \<Longrightarrow> r \<in> set (leaves_upto d N p) \<Longrightarrow> hd r = hd p"
proof (induction d arbitrary: p)
  case (Suc d)
  show ?case
  proof (cases "path_IsDir N p")
    case True
    with Suc.prems obtain k where "k \<in> set (path_kids N p)" "r \<in> set (leaves_upto d N k)" by auto
    with Suc.IH [of k] Suc.prems(1) show ?thesis by (auto simp: path_kids_def)
  qed (use Suc.prems in auto)
qed simp

lemma path_files_node_files:
  assumes "p \<noteq> []"
  shows "path_files N p = (\<lambda>(ns, h). (path_names N p @ ns, h)) ` node_files N (path_Last p)"
proof -
  have p: "p = butlast p @ [path_Last p]" using assms by (simp add: path_Last_def)
  have "path_leaves N p = map ((@) (butlast p)) (path_leaves N [path_Last p])"
    using path_leaves_prepend [of "[path_Last p]" N "butlast p"] p by simp
  moreover have "path_names N (butlast p @ r) = path_names N p @ path_names N (tl r)"
    "path_Hash N (butlast p @ r) = path_Hash N r"
    if "r \<in> set (path_leaves N [path_Last p])" for r
  proof -
    have r: "r \<noteq> []" "hd r = path_Last p"
      using leaves_upto_ne [OF _ that [unfolded path_leaves_def]]
        leaves_upto_hd [OF _ that [unfolded path_leaves_def]] by auto
    then obtain rs where rs: "r = path_Last p # rs" by (cases r) auto
    show "path_names N (butlast p @ r) = path_names N p @ path_names N (tl r)"
      using arg_cong [OF p, of "path_names N"] by (simp add: rs)
    show "path_Hash N (butlast p @ r) = path_Hash N r"
      by (simp add: path_Hash_def path_Last_def rs)
  qed
  ultimately show ?thesis
    by (auto simp: path_files_def node_files_def image_image)
qed


lemma apart_path_kids: "apart N (set (path_kids N p))"
proof -
  have "apart N {p}" by (simp add: apart_def)
  then have "apart N (set (path_kids N p) \<union> {})"
    by (rule apart_kids) (use path_kids_names in auto)
  then show ?thesis by simp
qed

lemma all_leaves_distinct:
  assumes "ascending N ps" "apart N (set ps)"
    "\<And>p. p \<in> set ps \<Longrightarrow> distinct (map (path_names N) (path_leaves N p))"
  shows "distinct (map (path_names N) (all_leaves N ps))"
  using assms
proof (induction ps)
  case (Cons p ps)
  have "walk_inv N (p # ps) []" using Cons.prems by (simp add: walk_inv_def ascending_def)
  moreover have "\<forall>q \<in> set ps. q \<in> set (p # ps) \<union> set [] \<and> path_names N p \<noteq> path_names N q"
    using Cons.prems(1) by (auto simp: ascending_Cons)
  ultimately have "names_of N (set (path_leaves N p)) \<inter> names_of N (set (all_leaves N ps)) = {}"
    by (intro walk_inv_leaves_disjoint [of N "p # ps" "[]"]) auto
  moreover have "distinct (map (path_names N) (all_leaves N ps))"
    using Cons.prems apart_subset [of N "set (p # ps)" "set ps"]
    by (intro Cons.IH) (auto simp: ascending_Cons)
  ultimately show ?case using Cons.prems(3) [of p] by auto
qed simp

lemma path_leaves_distinct:
  "is_tree N (path_Last p) \<Longrightarrow> distinct (map (path_names N) (path_leaves N p))"
proof (induction "nd_size N (path_Last p)" arbitrary: p rule: less_induct)
  case less
  have "distinct (map (path_names N) (path_leaves N q))" if q: "q \<in> set (path_kids N p)" for q
  proof (rule less.hyps)
    show "is_tree N (path_Last q)"
      using path_kids_trees [OF is_tree_imp_root [OF less.prems] q] by simp
    show "nd_size N (path_Last q) < nd_size N (path_Last p)"
      using total_size_kids [OF less.prems] nd_size_member [OF q, of N] by simp
  qed
  then have "distinct (map (path_names N) (all_leaves N (path_kids N p)))"
    by (intro all_leaves_distinct ascending_kids apart_path_kids less.prems)
  then show ?case by (simp add: path_leaves_unfold [OF less.prems])
qed

lemma same_files_no_diff:
  assumes files: "path_files N p = path_files N q" and hash: "\<And>a b. nd_hash N a = nd_hash N b \<Longrightarrow> nd_equal N a b"
    and q: "is_tree N (path_Last q)"
  shows "diff_spec N (set (path_leaves N p)) (set (path_leaves N q)) = {}"
proof -
  let ?P = "set (path_leaves N p)" and ?Q = "set (path_leaves N q)"
  have "names_of N ?P = fst ` path_files N p" "names_of N ?Q = fst ` path_files N q"
    by (simp_all add: path_files_def image_image)
  then have names: "names_of N ?P = names_of N ?Q" using files by simp
  have "same_node N r s" if r: "r \<in> ?P" and s: "s \<in> ?Q" and eq: "path_names N r = path_names N s" for r s
  proof -
    have "(path_names N r, path_Hash N r) \<in> path_files N q"
      using r files by (auto simp: path_files_def)
    then obtain s' where s': "s' \<in> ?Q" "path_names N s' = path_names N s" "path_Hash N s' = path_Hash N r"
      using eq by (auto simp: path_files_def)
    have "inj_on (path_names N) ?Q" using path_leaves_distinct [OF q] by (simp add: distinct_map)
    then have "s' = s" using s' s by (simp add: inj_on_def)
    with s'(3) show ?thesis by (simp add: same_node_def path_Hash_def hash)
  qed
  moreover have "{p \<in> ?P. path_names N p \<notin> names_of N ?Q} = {}" "{q \<in> ?Q. path_names N q \<notin> names_of N ?P} = {}"
    using names by blast+
  ultimately show ?thesis unfolding diff_spec_def by blast
qed

subsection \<open>A walk computes the specification\<close>

definition computes :: "'n noder_ops \<Rightarrow> 'n path list \<Rightarrow> 'n path list \<Rightarrow> 'n change list \<Rightarrow> bool" where
  "computes N ps qs cs \<longleftrightarrow>
     set cs = diff_spec N (set (all_leaves N ps)) (set (all_leaves N qs)) \<and>
     distinct (map (change_names N) cs)"

lemma computes_append:
  assumes first: "set new = diff_spec N A C" "distinct (map (change_names N) new)"
    and rest: "computes N ps qs cs"
    and disj: "(names_of N A \<union> names_of N C) \<inter>
      (names_of N (set (all_leaves N ps)) \<union> names_of N (set (all_leaves N qs))) = {}"
    and whole: "set (all_leaves N ps') = A \<union> set (all_leaves N ps)"
      "set (all_leaves N qs') = C \<union> set (all_leaves N qs)"
  shows "computes N ps' qs' (new @ cs)"
proof -
  let ?B = "set (all_leaves N ps)" and ?D = "set (all_leaves N qs)"
  have "diff_spec N (A \<union> ?B) (C \<union> ?D) = diff_spec N A C \<union> diff_spec N ?B ?D"
    using disj by (intro diff_spec_mono_union) blast+
  moreover have "change_names N ` set new \<inter> change_names N ` set cs = {}"
    using diff_spec_names [of N A C] diff_spec_names [of N ?B ?D] disj first(1) rest
    unfolding computes_def by blast
  ultimately show ?thesis
    using first rest by (simp add: computes_def whole)
qed

lemma walk_inv_head_disjoint:
  assumes "walk_inv N (p # ps) (q # qs)" "path_names N p = path_names N q"
  shows "(names_of N (set (path_leaves N p)) \<union> names_of N (set (path_leaves N q))) \<inter>
    (names_of N (set (all_leaves N ps)) \<union> names_of N (set (all_leaves N qs))) = {}"
proof -
  have "\<forall>r \<in> set (ps @ qs). r \<in> set (p # ps) \<union> set (q # qs) \<and> path_names N p \<noteq> path_names N r"
    "\<forall>r \<in> set (ps @ qs). r \<in> set (p # ps) \<union> set (q # qs) \<and> path_names N q \<noteq> path_names N r"
    using assms by (fastforce simp: walk_inv_def ascending_Cons)+
  then have "names_of N (set (path_leaves N p)) \<inter> names_of N (set (all_leaves N (ps @ qs))) = {}"
    "names_of N (set (path_leaves N q)) \<inter> names_of N (set (all_leaves N (ps @ qs))) = {}"
    by (intro walk_inv_leaves_disjoint [OF assms(1)]; simp)+
  then show ?thesis by (simp add: image_Un) blast
qed

lemma walk_inv_from_disjoint:
  assumes "walk_inv N (p # ps) qs" "\<forall>q \<in> set qs. path_names N p < path_names N q"
  shows "(names_of N (set (path_leaves N p)) \<union> names_of N {}) \<inter>
    (names_of N (set (all_leaves N ps)) \<union> names_of N (set (all_leaves N qs))) = {}"
proof -
  have "\<forall>r \<in> set (ps @ qs). r \<in> set (p # ps) \<union> set qs \<and> path_names N p \<noteq> path_names N r"
    using assms by (fastforce simp: walk_inv_def ascending_Cons)
  then have "names_of N (set (path_leaves N p)) \<inter> names_of N (set (all_leaves N (ps @ qs))) = {}"
    by (intro walk_inv_leaves_disjoint [OF assms(1)]; simp)
  then show ?thesis by (simp add: image_Un Int_Un_distrib)
qed

lemma walk_inv_sym: "walk_inv N ps qs \<Longrightarrow> walk_inv N qs ps"
  by (simp add: walk_inv_def Un_commute)

lemma walk_inv_to_disjoint:
  assumes "walk_inv N ps (q # qs)" "\<forall>p \<in> set ps. path_names N q < path_names N p"
  shows "(names_of N {} \<union> names_of N (set (path_leaves N q))) \<inter>
    (names_of N (set (all_leaves N ps)) \<union> names_of N (set (all_leaves N qs))) = {}"
  using walk_inv_from_disjoint [OF walk_inv_sym [OF assms(1)] assms(2)] by blast


text \<open>What is known of the two lists of pending paths during a walk from the roots.\<close>

definition pair_inv :: "'n noder_ops \<Rightarrow> 'n \<Rightarrow> 'n \<Rightarrow> 'n path list \<Rightarrow> 'n path list \<Rightarrow> bool" where
  "pair_inv N f t ps qs \<longleftrightarrow> walk_inv N ps qs \<and>
     (\<forall>p \<in> set ps. p \<noteq> [] \<and> below N f (path_Last p)) \<and>
     (\<forall>q \<in> set qs. q \<noteq> [] \<and> below N t (path_Last q))"

lemma pair_inv_tails:
  "pair_inv N f t (p # ps) qs \<Longrightarrow> pair_inv N f t ps qs"
  "pair_inv N f t ps (q # qs) \<Longrightarrow> pair_inv N f t ps qs"
  by (auto simp: pair_inv_def intro: walk_inv_tails)

lemma pair_inv_both_tails: "pair_inv N f t (p # ps) (q # qs) \<Longrightarrow> pair_inv N f t ps qs"
  by (metis pair_inv_tails)

lemma below_path_kids:
  "below N n (path_Last p) \<Longrightarrow> k \<in> set (path_kids N p) \<Longrightarrow> k \<noteq> [] \<and> below N n (path_Last k)"
  by (auto simp: path_kids_def path_Last_def intro: below.deeper)

lemma pair_inv_descend:
  assumes "pair_inv N f t (p # ps) (q # qs)" "path_names N p = path_names N q"
  shows "pair_inv N f t (path_kids N p @ ps) (path_kids N q @ qs)"
proof -
  have "below N f (path_Last p)" "below N t (path_Last q)"
    "\<forall>p \<in> set ps. p \<noteq> [] \<and> below N f (path_Last p)" "\<forall>q \<in> set qs. q \<noteq> [] \<and> below N t (path_Last q)"
    using assms(1) by (simp_all add: pair_inv_def)
  moreover have "walk_inv N (path_kids N p @ ps) (path_kids N q @ qs)"
    using assms by (intro walk_inv_descend) (simp_all add: pair_inv_def)
  ultimately show ?thesis
    using below_path_kids [of N f p] below_path_kids [of N t q] unfolding pair_inv_def set_append
    by (intro conjI ballI) (blast+)
qed

lemma pair_inv_root:
  assumes "is_root N f" "is_root N t"
  shows "pair_inv N f t (root_paths N f) (root_paths N t)"
proof -
  have asc: "ascending N (root_paths N n)" if n: "is_root N n" for n
  proof -
    have "sorted_wrt (<) (map (nd_name N) (sorted_kids N n))"
      using sorted_kids_names [OF n] by (simp add: strict_sorted_iff)
    then show ?thesis using n
      by (auto simp: ascending_def root_paths_def sorted_wrt_map path_Last_def is_root_def sorted_kids_def)
  qed
  have "apart N (set (root_paths N f) \<union> set (root_paths N t))"
    by (auto simp: apart_def root_paths_def)
  with asc [OF assms(1)] asc [OF assms(2)] show ?thesis
    by (auto simp: pair_inv_def walk_inv_def root_paths_def path_Last_def intro: below.child)
qed


lemma pair_inv_trees:
  assumes "pair_inv N f t (p # ps) (q # qs)"
  shows "is_tree N (path_Last p)" "is_tree N (path_Last q)" "p \<noteq> []" "q \<noteq> []"
    "below N f (path_Last p)" "below N t (path_Last q)"
  using assms by (auto simp: pair_inv_def walk_inv_def ascending_Cons)

lemma pair_inv_disjoint:
  "pair_inv N f t (p # ps) (q # qs) \<Longrightarrow> path_names N p = path_names N q \<Longrightarrow>
    (names_of N (set (path_leaves N p)) \<union> names_of N (set (path_leaves N q))) \<inter>
    (names_of N (set (all_leaves N ps)) \<union> names_of N (set (all_leaves N qs))) = {}"
  by (rule walk_inv_head_disjoint) (simp_all add: pair_inv_def)

lemma map_ctor_distinct:
  assumes "is_tree N (path_Last p)"
  shows "distinct (map (change_names N) (map NewDelete (path_leaves N p)))"
    "distinct (map (change_names N) (map NewInsert (path_leaves N p)))"
  using path_leaves_distinct [OF assms] by (simp_all add: comp_def)

text \<open>A file where the other side has a directory.\<close>

lemma file_dir_disjoint:
  assumes "is_tree N (path_Last p)" "is_tree N (path_Last q)" "path_names N p = path_names N q"
    "path_IsDir N p \<noteq> path_IsDir N q"
  shows "names_of N (set (path_leaves N p)) \<inter> names_of N (set (path_leaves N q)) = {}"
proof -
  have longer: "path_names N r \<noteq> path_names N d" if "r \<in> set (path_leaves N d)" "path_IsDir N d"
    "is_tree N (path_Last d)" for r d
  proof
    assume "path_names N r = path_names N d"
    then have "length r = length d" by (metis path_names_simps(5))
    with leaves_prefix [OF that(3,1)] that(2) show False by (auto simp: prefix_def)
  qed
  show ?thesis
  proof (cases "path_IsDir N p")
    case True
    then have "path_leaves N q = [q]" using assms by (simp add: path_leaves_unfold)
    with longer [OF _ True assms(1)] assms(3) show ?thesis by fastforce
  next
    case False
    then have "path_leaves N p = [p]" "path_IsDir N q" using assms by (auto simp: path_leaves_unfold)
    with longer [OF _ _ assms(2)] assms(3) show ?thesis by force
  qed
qed


theorem merge_diff_computes:
  assumes "merge_diff N ps qs cs" "pair_inv N f t ps qs"
    and hash: "\<And>a b. nd_equal N a b \<longleftrightarrow> nd_hash N a = nd_hash N b"
    and sound: "hashes_sound N f t" and renames: "no_bare_renames N f t"
  shows "computes N ps qs cs"
  using assms(1,2)
proof (induction rule: merge_diff.induct)
  case done_both
  show ?case by (simp add: computes_def)
next
  case (only_from ps cs p)
  have "walk_inv N (p # ps) []" using only_from.prems by (simp add: pair_inv_def)
  then have tree: "is_tree N (path_Last p)" and
    disj: "(names_of N (set (path_leaves N p)) \<union> names_of N {}) \<inter>
      (names_of N (set (all_leaves N ps)) \<union> names_of N (set (all_leaves N []))) = {}"
    using walk_inv_from_disjoint [of N p ps "[]"] by (simp_all add: walk_inv_def ascending_Cons)
  from only_from.IH [OF pair_inv_tails(1) [OF only_from.prems]] show ?case
    by (intro computes_append [OF _ map_ctor_distinct(1) [OF tree] _ disj]) simp_all
next
  case (only_to qs cs q)
  have "walk_inv N [] (q # qs)" using only_to.prems by (simp add: pair_inv_def)
  then have tree: "is_tree N (path_Last q)" and
    disj: "(names_of N {} \<union> names_of N (set (path_leaves N q))) \<inter>
      (names_of N (set (all_leaves N [])) \<union> names_of N (set (all_leaves N qs))) = {}"
    using walk_inv_to_disjoint [of N "[]" q qs] by (simp_all add: walk_inv_def ascending_Cons)
  from only_to.IH [OF pair_inv_tails(2) [OF only_to.prems]] show ?case
    by (intro computes_append [OF _ map_ctor_distinct(2) [OF tree] _ disj]) simp_all
next
  case (from_less p q ps qs cs)
  have w: "walk_inv N (p # ps) (q # qs)" using from_less.prems by (simp add: pair_inv_def)
  then have "\<forall>r \<in> set (q # qs). path_names N p < path_names N r"
    using from_less.hyps(1) by (auto simp: walk_inv_def ascending_Cons)
  note disj = walk_inv_from_disjoint [OF w this]
  from from_less.IH [OF pair_inv_tails(1) [OF from_less.prems]] show ?case
    by (intro computes_append [OF _ map_ctor_distinct(1) [OF pair_inv_trees(1) [OF from_less.prems]]
        _ disj]) simp_all
next
  case (to_less q p ps qs cs)
  have w: "walk_inv N (p # ps) (q # qs)" using to_less.prems by (simp add: pair_inv_def)
  then have "\<forall>r \<in> set (p # ps). path_names N q < path_names N r"
    using to_less.hyps(1) by (auto simp: walk_inv_def ascending_Cons)
  note disj = walk_inv_to_disjoint [OF w this]
  from to_less.IH [OF pair_inv_tails(2) [OF to_less.prems]] show ?case
    by (intro computes_append [OF _ map_ctor_distinct(2) [OF pair_inv_trees(2) [OF to_less.prems]]
        _ disj]) simp_all
next
  case (same p q ps qs cs)
  note tr = pair_inv_trees [OF same.prems]
  have "node_files N (path_Last p) = node_files N (path_Last q)"
    using sound tr(5,6) same.hyps(2) unfolding hashes_sound_def same_node_def by blast
  then have "path_files N p = path_files N q"
    using same.hyps(1) by (simp add: path_files_node_files tr)
  then have "diff_spec N (set (path_leaves N p)) (set (path_leaves N q)) = {}"
    using same_files_no_diff [OF _ _ tr(2)] hash by blast
  with same.IH [OF pair_inv_both_tails [OF same.prems]]
  have "computes N (p # ps) (q # qs) ([] @ cs)"
    by (intro computes_append [OF _ _ _ pair_inv_disjoint [OF same.prems same.hyps(1)]]) simp_all
  then show ?case by simp
next
  case (files p q ps qs cs)
  note tr = pair_inv_trees [OF files.prems]
  have one: "path_leaves N p = [p]" "path_leaves N q = [q]"
    using files.hyps by (simp_all add: path_leaves_unfold tr)
  have "set [NewModify p q] = diff_spec N (set (path_leaves N p)) (set (path_leaves N q))"
    using files.hyps(1,2) by (auto simp: one diff_spec_def)
  with files.IH [OF pair_inv_both_tails [OF files.prems]]
  have "computes N (p # ps) (q # qs) ([NewModify p q] @ cs)"
    by (intro computes_append [OF _ _ _ pair_inv_disjoint [OF files.prems files.hyps(1)]]) simp_all
  then show ?case by simp
next
  case (file_dir p q ps qs cs)
  note tr = pair_inv_trees [OF file_dir.prems]
  let ?new = "map NewDelete (path_leaves N p) @ map NewInsert (path_leaves N q)"
  have disj: "names_of N (set (path_leaves N p)) \<inter> names_of N (set (path_leaves N q)) = {}"
    using file_dir_disjoint [OF tr(1,2) file_dir.hyps(1,3)] .
  have "set ?new = diff_spec N (set (path_leaves N p)) (set (path_leaves N q))"
    by (simp add: diff_spec_disjoint [OF disj])
  moreover have "distinct (map (change_names N) ?new)"
    using disj path_leaves_distinct [OF tr(1)] path_leaves_distinct [OF tr(2)] by (simp add: comp_def)
  ultimately have "computes N (p # ps) (q # qs) (?new @ cs)"
    using file_dir.IH [OF pair_inv_both_tails [OF file_dir.prems]]
    by (intro computes_append [OF _ _ _ pair_inv_disjoint [OF file_dir.prems file_dir.hyps(1)]]) simp_all
  then show ?case by simp
next
  case (dirs_same_children p q ps qs cs)
  note tr = pair_inv_trees [OF dirs_same_children.prems]
  have "False"
    using renames tr(5,6) dirs_same_children.hyps
    unfolding no_bare_renames_def same_node_def same_children_def path_IsDir_def by blast
  then show ?case ..
next
  case (from_empty p q ps qs cs)
  note tr = pair_inv_trees [OF from_empty.prems]
  have "path_leaves N p = []" using from_empty.hyps by (simp add: path_leaves_unfold tr)
  with from_empty.IH [OF pair_inv_both_tails [OF from_empty.prems]] show ?case
    by (intro computes_append [OF _ map_ctor_distinct(2) [OF tr(2)] _
        pair_inv_disjoint [OF from_empty.prems from_empty.hyps(1)]]) simp_all
next
  case (to_empty p q ps qs cs)
  note tr = pair_inv_trees [OF to_empty.prems]
  have "path_leaves N q = []" using to_empty.hyps by (simp add: path_leaves_unfold tr)
  with to_empty.IH [OF pair_inv_both_tails [OF to_empty.prems]] show ?case
    by (intro computes_append [OF _ map_ctor_distinct(1) [OF tr(1)] _
        pair_inv_disjoint [OF to_empty.prems to_empty.hyps(1)]]) simp_all
next
  case (descend p q ps qs cs)
  note tr = pair_inv_trees [OF descend.prems]
  from descend.IH [OF pair_inv_descend [OF descend.prems descend.hyps(1)]] descend.hyps show ?case
    by (simp add: computes_def path_leaves_unfold tr)
qed

subsection \<open>The contract of DiffTree for every provider of noders\<close>

definition root_files :: "'n noder_ops \<Rightarrow> 'n \<Rightarrow> 'n path set" where
  "root_files N n = set (all_leaves N (root_paths N n))"

text \<open>The files of a trie as a map from names to hashes, and the difference of two such maps.\<close>

definition root_map :: "'n noder_ops \<Rightarrow> 'n \<Rightarrow> string list \<Rightarrow> hash option" where
  "root_map N n = map_of (map (\<lambda>r. (path_names N r, path_Hash N r)) (all_leaves N (root_paths N n)))"

definition map_diff :: "(string list \<Rightarrow> hash option) \<Rightarrow> (string list \<Rightarrow> hash option) \<Rightarrow>
    (string list \<times> hash option \<times> hash option) set" where
  "map_diff f g = {(p, f p, g p) | p. f p \<noteq> g p}"

definition change_summary :: "'n noder_ops \<Rightarrow> 'n change \<Rightarrow> string list \<times> hash option \<times> hash option" where
  "change_summary N c =
     (change_names N c, map_option (path_Hash N) (ch_From c), map_option (path_Hash N) (ch_To c))"

lemma change_summary_simps [simp]:
  "change_summary N (NewDelete p) = (path_names N p, Some (path_Hash N p), None)"
  "change_summary N (NewInsert q) = (path_names N q, None, Some (path_Hash N q))"
  "change_summary N (NewModify p q) = (path_names N p, Some (path_Hash N p), Some (path_Hash N q))"
  by (simp_all add: change_summary_def, simp_all add: NewDelete_def NewInsert_def NewModify_def)

lemma root_map_eq:
  assumes "is_root N n"
  shows "root_map N n x = Some h \<longleftrightarrow> (\<exists>r \<in> root_files N n. path_names N r = x \<and> path_Hash N r = h)"
    "root_map N n x = None \<longleftrightarrow> x \<notin> names_of N (root_files N n)"
proof -
  let ?L = "map (\<lambda>r. (path_names N r, path_Hash N r)) (all_leaves N (root_paths N n))"
  have inv: "pair_inv N n n (root_paths N n) (root_paths N n)" by (rule pair_inv_root [OF assms assms])
  have "distinct (map (path_names N) (all_leaves N (root_paths N n)))"
    using inv by (intro all_leaves_distinct path_leaves_distinct)
      (auto simp: pair_inv_def walk_inv_def ascending_def)
  then have "distinct (map fst ?L)" by (simp add: comp_def)
  then have "map_of ?L x = Some h \<longleftrightarrow> (x, h) \<in> set ?L" for h by (rule map_of_eq_Some_iff)
  then show "root_map N n x = Some h \<longleftrightarrow> (\<exists>r \<in> root_files N n. path_names N r = x \<and> path_Hash N r = h)"
    by (auto simp: root_map_def root_files_def)
  show "root_map N n x = None \<longleftrightarrow> x \<notin> names_of N (root_files N n)"
    by (simp add: root_map_def root_files_def map_of_eq_None_iff image_image)
qed

lemma diff_spec_map_diff:
  assumes roots: "is_root N f" "is_root N t" and hash: "\<And>a b. nd_equal N a b \<longleftrightarrow> nd_hash N a = nd_hash N b"
  shows "change_summary N ` diff_spec N (root_files N f) (root_files N t) =
    map_diff (root_map N f) (root_map N t)" (is "?l = ?r")
proof
  note f = root_map_eq [OF roots(1)] and t = root_map_eq [OF roots(2)]
  have node: "same_node N p q \<longleftrightarrow> path_Hash N p = path_Hash N q" for p q
    by (simp add: same_node_def hash path_Hash_def)
  have at: "root_map N f (path_names N p) = Some (path_Hash N p)" if "p \<in> root_files N f" for p
    using f(1) that by blast
  have at': "root_map N t (path_names N q) = Some (path_Hash N q)" if "q \<in> root_files N t" for q
    using t(1) that by blast
  have "change_summary N c \<in> ?r" if c: "c \<in> diff_spec N (root_files N f) (root_files N t)" for c
    using c unfolding diff_spec_def
  proof (elim UnE)
    assume "c \<in> NewDelete ` {p \<in> root_files N f. path_names N p \<notin> names_of N (root_files N t)}"
    then obtain p where "c = NewDelete p" "p \<in> root_files N f" "root_map N t (path_names N p) = None"
      using t(2) by auto
    with at show ?thesis by (auto simp: map_diff_def)
  next
    assume "c \<in> NewInsert ` {q \<in> root_files N t. path_names N q \<notin> names_of N (root_files N f)}"
    then obtain p where "c = NewInsert p" "p \<in> root_files N t" "root_map N f (path_names N p) = None"
      using f(2) by auto
    with at' show ?thesis by (auto simp: map_diff_def)
  next
    assume "c \<in> {NewModify p q | p q. p \<in> root_files N f \<and> q \<in> root_files N t \<and>
      path_names N p = path_names N q \<and> \<not> same_node N p q}"
    then obtain p q where c: "c = NewModify p q" "path_names N p = path_names N q"
      "path_Hash N p \<noteq> path_Hash N q" and pq: "p \<in> root_files N f" "q \<in> root_files N t"
      using node by auto
    from at [OF pq(1)] at' [OF pq(2)] c show ?thesis by (auto simp: map_diff_def)
  qed
  then show "?l \<subseteq> ?r" by blast
  show "?r \<subseteq> ?l"
  proof
    fix z assume "z \<in> ?r"
    then obtain x where x: "z = (x, root_map N f x, root_map N t x)" "root_map N f x \<noteq> root_map N t x"
      by (auto simp: map_diff_def)
    consider (d) p where "root_map N t x = None" "p \<in> root_files N f" "path_names N p = x"
      | (i) q where "root_map N f x = None" "q \<in> root_files N t" "path_names N q = x"
      | (m) p q where "p \<in> root_files N f" "path_names N p = x" "q \<in> root_files N t" "path_names N q = x"
      using x(2) f(1) t(1) by (metis option.exhaust)
    then show "z \<in> ?l"
    proof cases
      case d
      then have "NewDelete p \<in> diff_spec N (root_files N f) (root_files N t)"
        using t(2) by (auto simp: diff_spec_def)
      moreover have "z = change_summary N (NewDelete p)" using x d at by auto
      ultimately show ?thesis by blast
    next
      case i
      then have "NewInsert q \<in> diff_spec N (root_files N f) (root_files N t)"
        using f(2) by (auto simp: diff_spec_def)
      moreover have "z = change_summary N (NewInsert q)" using x i at' by auto
      ultimately show ?thesis by blast
    next
      case m
      note am = at [OF m(1)] at' [OF m(3)]
      with m x have "\<not> same_node N p q" "path_names N p = path_names N q" by (auto simp: node)
      with m(1,3) have "NewModify p q \<in> diff_spec N (root_files N f) (root_files N t)"
        unfolding diff_spec_def by (intro UnI2 CollectI exI conjI) (rule refl)
      moreover have "z = change_summary N (NewModify p q)" using x m am by auto
      ultimately show ?thesis by blast
    qed
  qed
qed

text \<open>A modification keeps the path.\<close>

definition same_path :: "'n noder_ops \<Rightarrow> 'n change \<Rightarrow> bool" where
  "same_path N c \<longleftrightarrow> (\<forall>p q. ch_From c = Some p \<longrightarrow> ch_To c = Some q \<longrightarrow> path_names N p = path_names N q)"

lemma diff_spec_same_path: "c \<in> diff_spec N A B \<Longrightarrow> same_path N c"
  by (auto simp: diff_spec_def same_path_def NewInsert_def NewDelete_def NewModify_def)

context noder_interface begin

lemma DiffTree_total: "valid_root f \<Longrightarrow> valid_root t \<Longrightarrow> \<exists>cs. DiffTree N f t = Some (Inr cs)"
  using DiffTree_walk valid_is_root by metis

lemma DiffTree_spec:
  assumes "valid_root f" "valid_root t" "hashes_sound N f t" "no_bare_renames N f t"
  shows "\<exists>cs. DiffTree N f t = Some (Inr cs) \<and>
    set cs = diff_spec N (root_files N f) (root_files N t) \<and> distinct (map (change_names N) cs) \<and>
    change_summary N ` set cs = map_diff (root_map N f) (root_map N t)"
proof -
  note roots = valid_is_root [OF assms(1)] valid_is_root [OF assms(2)]
  obtain cs where cs: "DiffTree N f t = Some (Inr cs)" "merge_diff N (root_paths N f) (root_paths N t) cs"
    using DiffTree_walk [OF roots] by blast
  from merge_diff_computes [OF cs(2) pair_inv_root [OF roots] equal_is_hash assms(3,4)] cs(1)
  have "set cs = diff_spec N (root_files N f) (root_files N t)" "distinct (map (change_names N) cs)"
    by (simp_all add: computes_def root_files_def)
  with cs(1) diff_spec_map_diff [OF roots equal_is_hash] show ?thesis by auto
qed

end

end
