(* ===== verification/Tree_Noder.thy ===== *)
theory Tree_Noder
  imports Object_Model Diff_Spec
begin

section \<open>Stored directories as noders: versionmgr/tree_node.go\<close>

text \<open>
  A \<open>TreeNode\<close> is a tree entry with the row its hash names. Its methods read the object table
  of one repository; here the repository and the table are their first arguments. The datatype
  \<open>dtree\<close> is a directory tree written out; \<open>stored\<close> says that every directory and file of one
  has its row. A \<open>TreeNode\<close> at the root of a stored tree is a valid noder, so the contract of
  \<open>DiffTree\<close> holds for it, and since both trees live in one table equal hashes are sound there
  without any assumption on the digest.
\<close>

definition EmptyRoot :: tree_node where
  "EmptyRoot = \<lparr>tn_hash = [], tn_repo = [], tn_type = TreeObject, tn_subs = [],
     tn_props = \<lparr>prop_mode = 0\<rparr>, tn_created = 0, tn_updated = 0\<rparr>"

definition EmptyDirEntry :: tree_entry where
  "EmptyDirEntry = \<lparr>te_name = [], te_is_dir = False, te_hash = []\<rparr>"

record vtree_node =
  vt_entry :: tree_entry
  vt_node :: tree_node

definition NewTreeNode :: "uuid \<Rightarrow> tree_table \<Rightarrow> tree_entry \<Rightarrow> vtree_node result" where
  "NewTreeNode repo st entry =
     (if \<not> TreeEntry_Equal entry EmptyDirEntry then
        (case FileTreeRepo_TreeNode repo (te_hash entry) st of
           Inl e \<Rightarrow> Inl e
         | Inr tn \<Rightarrow> Inr \<lparr>vt_entry = entry, vt_node = tn\<rparr>)
      else Inr \<lparr>vt_entry = entry, vt_node = EmptyRoot\<rparr>)"

definition vt_Type :: "vtree_node \<Rightarrow> object_type" where
  "vt_Type n = tn_type (vt_node n)"

definition vt_Properties :: "vtree_node \<Rightarrow> property" where
  "vt_Properties n = tn_props (vt_node n)"

definition vt_SubObjects :: "vtree_node \<Rightarrow> tree_entry list" where
  "vt_SubObjects n = tn_subs (vt_node n)"

definition vt_Hash :: "vtree_node \<Rightarrow> hash" where
  "vt_Hash n = te_hash (vt_entry n)"

definition vt_Name :: "vtree_node \<Rightarrow> string" where
  "vt_Name n = te_name (vt_entry n)"

definition vt_IsDir :: "vtree_node \<Rightarrow> bool" where
  "vt_IsDir n = te_is_dir (vt_entry n)"

definition vt_Equal :: "vtree_node \<Rightarrow> vtree_node \<Rightarrow> bool" where
  "vt_Equal n other \<longleftrightarrow> vt_Hash n = vt_Hash other"

definition vt_String :: "(bytes \<Rightarrow> string) \<Rightarrow> vtree_node \<Rightarrow> string" where
  "vt_String encode n = te_name (vt_entry n) @ '' '' @ hash_Hex encode (te_hash (vt_entry n))"

definition SubDir :: "uuid \<Rightarrow> tree_table \<Rightarrow> vtree_node \<Rightarrow> string \<Rightarrow> vtree_node result" where
  "SubDir repo st n name =
     (case find (\<lambda>e. te_name e = name) (vt_SubObjects n) of
        None \<Rightarrow> Inl ErrPathNotFound
      | Some e \<Rightarrow> if te_is_dir e then NewTreeNode repo st e else Inl (ErrMsg ''node is not directory''))"

definition SubFile :: "uuid \<Rightarrow> tree_table \<Rightarrow> vtree_node \<Rightarrow> string \<Rightarrow> blob result" where
  "SubFile repo st n name =
     (case find (\<lambda>e. te_name e = name) (vt_SubObjects n) of
        None \<Rightarrow> Inl ErrPathNotFound
      | Some e \<Rightarrow> if \<not> te_is_dir e then FileTreeRepo_Blob repo (te_hash e) st
          else Inl (ErrMsg ''node is not blob''))"

definition SubEntry :: "vtree_node \<Rightarrow> string \<Rightarrow> tree_entry result" where
  "SubEntry n name =
     (case find (\<lambda>e. te_name e = name) (vt_SubObjects n) of
        None \<Rightarrow> Inl ErrPathNotFound
      | Some e \<Rightarrow> Inr e)"

definition vt_Children :: "uuid \<Rightarrow> tree_table \<Rightarrow> vtree_node \<Rightarrow> vtree_node list result" where
  "vt_Children repo st n = map_res (NewTreeNode repo st) (vt_SubObjects n)"

definition vt_NumChildren :: "uuid \<Rightarrow> tree_table \<Rightarrow> vtree_node \<Rightarrow> nat result" where
  "vt_NumChildren repo st n =
     (case FileTreeRepo_TreeNode repo (vt_Hash n) st of
        Inl e \<Rightarrow> Inl e
      | Inr tn \<Rightarrow> Inr (length (tn_subs tn)))"

definition vt_Skip :: "vtree_node \<Rightarrow> bool" where
  "vt_Skip n = False"

definition tree_ops :: "uuid \<Rightarrow> tree_table \<Rightarrow> vtree_node noder_ops" where
  "tree_ops repo st =
     \<lparr>nd_name = vt_Name, nd_is_dir = vt_IsDir, nd_hash = vt_Hash,
      nd_children = vt_Children repo st, nd_num_children = vt_NumChildren repo st,
      nd_skip = vt_Skip, nd_equal = vt_Equal\<rparr>"

subsection \<open>Directory trees and the rows that store them\<close>

datatype dtree = DFile hash | DDir "(string \<times> dtree) list"

fun is_ddir :: "dtree \<Rightarrow> bool" where
  "is_ddir (DFile h) = False"
| "is_ddir (DDir kids) = True"

fun dt_hash :: "env \<Rightarrow> dtree \<Rightarrow> hash" where
  "dt_hash E (DFile h) = h"
| "dt_hash E (DDir kids) = env_md5 E (tree_bytes
     (map (\<lambda>k. \<lparr>te_name = fst k, te_is_dir = is_ddir (snd k), te_hash = dt_hash E (snd k)\<rparr>) kids)
     DefaultDirProperty)"

definition dt_entry :: "env \<Rightarrow> string \<times> dtree \<Rightarrow> tree_entry" where
  "dt_entry E k = \<lparr>te_name = fst k, te_is_dir = is_ddir (snd k), te_hash = dt_hash E (snd k)\<rparr>"

definition listing :: "env \<Rightarrow> (string \<times> dtree) list \<Rightarrow> tree_entry list" where
  "listing E kids = map (dt_entry E) kids"

definition valid_name :: "string \<Rightarrow> bool" where
  "valid_name n \<longleftrightarrow> n \<noteq> [] \<and> CHR ''/'' \<notin> set n"

text \<open>The entries of a directory are sorted by distinct names; only a root may be empty.\<close>

fun dt_ok :: "dtree \<Rightarrow> bool" where
  "dt_ok (DFile h) = True"
| "dt_ok (DDir kids) \<longleftrightarrow> sorted (map fst kids) \<and> distinct (map fst kids) \<and>
     (\<forall>k \<in> set kids. valid_name (fst k) \<and> snd k \<noteq> DDir [] \<and> dt_ok (snd k))"

definition dir_row :: "tree_entry list \<Rightarrow> file_tree \<Rightarrow> bool" where
  "dir_row subs f \<longleftrightarrow> ft_type f = TreeObject \<and> ft_subs f = subs \<and> ft_props f = DefaultDirProperty"

definition file_row :: "file_tree \<Rightarrow> bool" where
  "file_row f \<longleftrightarrow> ft_type f = BlobObject \<and> ft_subs f = []"

fun stored :: "env \<Rightarrow> uuid \<Rightarrow> tree_table \<Rightarrow> dtree \<Rightarrow> bool" where
  "stored E repo st (DFile h) \<longleftrightarrow>
     (case lookup_tree (h, repo) st of None \<Rightarrow> False | Some f \<Rightarrow> file_row f)"
| "stored E repo st (DDir kids) \<longleftrightarrow>
     (case lookup_tree (dt_hash E (DDir kids), repo) st of None \<Rightarrow> False
      | Some f \<Rightarrow> dir_row (listing E kids) f) \<and>
     (\<forall>k \<in> set kids. stored E repo st (snd k))"

lemma dt_hash_listing: "dt_hash E (DDir kids) = env_md5 E (tree_bytes (listing E kids) DefaultDirProperty)"
  by (simp add: listing_def dt_entry_def [abs_def])

declare dt_hash.simps(2) [simp del]

lemma dt_entry_simps [simp]:
  "te_name (dt_entry E k) = fst k" "te_is_dir (dt_entry E k) = is_ddir (snd k)"
  "te_hash (dt_entry E k) = dt_hash E (snd k)"
  by (simp_all add: dt_entry_def)

lemma listing_names [simp]: "map te_name (listing E kids) = map fst kids"
  by (simp add: listing_def)

text \<open>The node a stored subtree is read as.\<close>

definition vt_of :: "env \<Rightarrow> uuid \<Rightarrow> tree_table \<Rightarrow> string \<times> dtree \<Rightarrow> vtree_node" where
  "vt_of E repo st k = \<lparr>vt_entry = dt_entry E k,
     vt_node = FileTree_TreeNode (the (lookup_tree (dt_hash E (snd k), repo) st))\<rparr>"

definition kids_of :: "dtree \<Rightarrow> (string \<times> dtree) list" where
  "kids_of d = (case d of DFile _ \<Rightarrow> [] | DDir kids \<Rightarrow> kids)"

lemma stored_row:
  assumes "stored E repo st d"
  shows "\<exists>f. lookup_tree (dt_hash E d, repo) st = Some f \<and> ft_subs f = listing E (kids_of d) \<and>
    ft_type f = (if is_ddir d then TreeObject else BlobObject)"
  using assms by (cases d) (auto simp: kids_of_def listing_def file_row_def dir_row_def split: option.splits)

lemma stored_kids: "stored E repo st d \<Longrightarrow> k \<in> set (kids_of d) \<Longrightarrow> stored E repo st (snd k)"
  by (cases d) (auto simp: kids_of_def)

lemma dt_ok_kids:
  "dt_ok d \<Longrightarrow> k \<in> set (kids_of d) \<Longrightarrow> valid_name (fst k) \<and> snd k \<noteq> DDir [] \<and> dt_ok (snd k)"
  by (cases d) (auto simp: kids_of_def)

lemma dt_ok_names: "dt_ok d \<Longrightarrow> sorted (map fst (kids_of d)) \<and> distinct (map fst (kids_of d))"
  by (cases d) (auto simp: kids_of_def)

lemma FileTree_TreeNode_sel [simp]:
  "tn_subs (FileTree_TreeNode f) = ft_subs f" "tn_type (FileTree_TreeNode f) = ft_type f"
  "tn_props (FileTree_TreeNode f) = ft_props f" "tn_hash (FileTree_TreeNode f) = ft_hash f"
  by (simp_all add: FileTree_TreeNode_def)

lemma NewTreeNode_stored:
  assumes "stored E repo st (snd k)" "fst k \<noteq> []"
  shows "NewTreeNode repo st (dt_entry E k) = Inr (vt_of E repo st k)"
  using stored_row [OF assms(1)] assms(2)
  by (auto simp: NewTreeNode_def TreeEntry_Equal_def EmptyDirEntry_def FileTreeRepo_TreeNode_def vt_of_def)

lemma vt_of_SubObjects:
  "stored E repo st (snd k) \<Longrightarrow> vt_SubObjects (vt_of E repo st k) = listing E (kids_of (snd k))"
  using stored_row [of E repo st "snd k"] by (auto simp: vt_SubObjects_def vt_of_def)


subsection \<open>Stored trees are well-formed tries\<close>

lemma tree_ops_simps [simp]:
  "nd_name (tree_ops repo st) = vt_Name" "nd_is_dir (tree_ops repo st) = vt_IsDir"
  "nd_hash (tree_ops repo st) = vt_Hash" "nd_children (tree_ops repo st) = vt_Children repo st"
  "nd_num_children (tree_ops repo st) = vt_NumChildren repo st"
  "nd_skip (tree_ops repo st) = vt_Skip" "nd_equal (tree_ops repo st) = vt_Equal"
  by (simp_all add: tree_ops_def)

lemma vt_of_simps [simp]:
  "vt_Name (vt_of E repo st k) = fst k" "vt_IsDir (vt_of E repo st k) = is_ddir (snd k)"
  "vt_Hash (vt_of E repo st k) = dt_hash E (snd k)"
  by (simp_all add: vt_Name_def vt_IsDir_def vt_Hash_def vt_of_def)

text \<open>A node whose entries are those of a list of stored subtrees.\<close>

definition lists_kids :: "env \<Rightarrow> uuid \<Rightarrow> tree_table \<Rightarrow> vtree_node \<Rightarrow> (string \<times> dtree) list \<Rightarrow> bool" where
  "lists_kids E repo st n kids \<longleftrightarrow> vt_SubObjects n = listing E kids \<and> dt_ok (DDir kids) \<and>
     (\<forall>k \<in> set kids. stored E repo st (snd k))"

lemma vt_Children_kids:
  assumes "lists_kids E repo st n kids"
  shows "vt_Children repo st n = Inr (map (vt_of E repo st) kids)"
proof -
  have "NewTreeNode repo st (dt_entry E k) = Inr (vt_of E repo st k)" if "k \<in> set kids" for k
    using assms that by (intro NewTreeNode_stored) (auto simp: lists_kids_def valid_name_def)
  then have "map_res (\<lambda>k. NewTreeNode repo st (dt_entry E k)) kids = Inr (map (vt_of E repo st) kids)"
    by (rule map_res_Inr)
  then show ?thesis
    using assms by (simp add: vt_Children_def lists_kids_def listing_def)
qed

lemma vt_of_kids:
  assumes "stored E repo st (snd k)" "dt_ok (snd k)"
  shows "lists_kids E repo st (vt_of E repo st k) (kids_of (snd k))"
  using assms vt_of_SubObjects [OF assms(1)] stored_kids [OF assms(1)]
  by (cases "snd k") (auto simp: lists_kids_def kids_of_def)

lemma vt_of_tree:
  "stored E repo st (snd k) \<Longrightarrow> dt_ok (snd k) \<Longrightarrow> is_tree (tree_ops repo st) (vt_of E repo st k)"
proof (induction "size (snd k)" arbitrary: k rule: less_induct)
  case less
  let ?kids = "kids_of (snd k)"
  note kids = vt_Children_kids [OF vt_of_kids [OF less.prems]]
  have "vt_NumChildren repo st (vt_of E repo st k) = Inr (length ?kids)"
    using stored_row [OF less.prems(1)]
    by (auto simp: vt_NumChildren_def FileTreeRepo_TreeNode_def listing_def)
  moreover have "is_tree (tree_ops repo st) (vt_of E repo st x)" if "x \<in> set ?kids" for x
  proof (rule less.hyps)
    show "size (snd x) < size (snd k)"
    proof (cases "snd k")
      case (DDir ks)
      then have "x \<in> set ks" using that by (simp add: kids_of_def)
      then have "size (snd x) < size_list (size_prod (\<lambda>_. 0) size) ks"
        by (induction ks) (auto simp: size_prod_simp [abs_def] split_def)
      then show ?thesis by (simp add: DDir)
    qed (use that in \<open>simp add: kids_of_def\<close>)
    show "stored E repo st (snd x)" using stored_kids [OF less.prems(1) that] .
    show "dt_ok (snd x)" using dt_ok_kids [OF less.prems(2) that] by simp
  qed
  moreover have "is_ddir (snd k) \<or> ?kids = []" by (cases "snd k") (simp_all add: kids_of_def)
  moreover have "distinct (map vt_Name (map (vt_of E repo st) ?kids))"
    using dt_ok_names [OF less.prems(2)] by (simp add: comp_def)
  ultimately have facts: "nd_num_children (tree_ops repo st) (vt_of E repo st k) =
      Inr (length (map (vt_of E repo st) ?kids))"
    "distinct (map (nd_name (tree_ops repo st)) (map (vt_of E repo st) ?kids))"
    "\<forall>x \<in> set (map (vt_of E repo st) ?kids). is_tree (tree_ops repo st) x"
    "nd_is_dir (tree_ops repo st) (vt_of E repo st k) \<or> map (vt_of E repo st) ?kids = []"
    by simp_all
  have children: "nd_children (tree_ops repo st) (vt_of E repo st k) = Inr (map (vt_of E repo st) ?kids)"
    using kids by simp
  have "\<not> nd_skip (tree_ops repo st) (vt_of E repo st k)" by (simp add: vt_Skip_def)
  then show ?case
    by (rule is_treeI [OF children facts(1,2,4)]) (rule bspec [OF facts(3)])
qed

text \<open>
  A root: the empty one, which has no row, or a stored tree under a nameless entry.
\<close>

definition root_rep :: "env \<Rightarrow> uuid \<Rightarrow> tree_table \<Rightarrow> vtree_node \<Rightarrow> dtree \<Rightarrow> bool" where
  "root_rep E repo st n d \<longleftrightarrow> dt_ok d \<and> is_ddir d \<and> te_name (vt_entry n) = [] \<and>
     (if d = DDir [] then te_hash (vt_entry n) = [] \<and> vt_node n = EmptyRoot
      else stored E repo st d \<and> te_hash (vt_entry n) = dt_hash E d \<and>
        (\<exists>f. lookup_tree (dt_hash E d, repo) st = Some f \<and> vt_node n = FileTree_TreeNode f))"

lemma root_rep_kids:
  assumes "root_rep E repo st n d"
  shows "lists_kids E repo st n (kids_of d)"
proof (cases "d = DDir []")
  case True
  then show ?thesis using assms
    by (simp add: root_rep_def lists_kids_def kids_of_def vt_SubObjects_def EmptyRoot_def listing_def)
next
  case False
  then have "stored E repo st d" using assms by (simp add: root_rep_def)
  from stored_row [OF this] stored_kids [OF this] False show ?thesis
    using assms by (cases d) (auto simp: root_rep_def lists_kids_def kids_of_def vt_SubObjects_def)
qed

lemma lists_kids_root:
  assumes "lists_kids E repo st n kids"
  shows "is_root (tree_ops repo st) n"
proof -
  have "dt_ok (snd k)" "stored E repo st (snd k)" if "k \<in> set kids" for k
    using assms that by (auto simp: lists_kids_def)
  then show ?thesis
    using vt_Children_kids [OF assms] assms vt_of_tree
    by (auto simp: is_root_def lists_kids_def comp_def)
qed

interpretation tree_noders: noder_interface "tree_ops repo st" "\<lambda>n. \<exists>E d. root_rep E repo st n d"
  for repo st
  by unfold_locales (auto dest: root_rep_kids lists_kids_root simp: vt_Equal_def)


subsection \<open>Equal hashes in one table\<close>

text \<open>A table holds at most one tree under a hash, so equal hashes are equal trees.\<close>

lemma stored_inj:
  "stored E repo st d \<Longrightarrow> stored E repo st d' \<Longrightarrow> dt_hash E d = dt_hash E d' \<Longrightarrow> d = d'"
proof (induction d arbitrary: d')
  case (DFile h)
  then show ?case
    by (cases d') (auto simp: file_row_def dir_row_def split: option.splits)
next
  case (DDir kids)
  obtain f where f: "lookup_tree (dt_hash E (DDir kids), repo) st = Some f"
    "ft_subs f = listing E kids" "ft_type f = TreeObject"
    using stored_row [OF DDir.prems(1)] by (auto simp: kids_of_def)
  obtain kids' where d': "d' = DDir kids'"
    using stored_row [OF DDir.prems(2)] DDir.prems(3) f by (cases d') (auto simp: kids_of_def)
  have "listing E kids = listing E kids'"
    using stored_row [OF DDir.prems(2)] DDir.prems(3) f by (auto simp: kids_of_def d')
  then have all: "list_all2 (\<lambda>k k'. fst k = fst k' \<and> dt_hash E (snd k) = dt_hash E (snd k')) kids kids'"
    by (auto simp: listing_def dt_entry_def list_eq_iff_nth_eq list_all2_conv_all_nth)
  have "k = k'" if "k \<in> set kids" "k' \<in> set kids'" "fst k = fst k'" "dt_hash E (snd k) = dt_hash E (snd k')" for k k'
  proof -
    have "stored E repo st (snd k)" using stored_kids [OF DDir.prems(1)] that(1) by (simp add: kids_of_def)
    moreover have "stored E repo st (snd k')"
      using stored_kids [OF DDir.prems(2)] that(2) by (simp add: kids_of_def d')
    ultimately have "snd k = snd k'"
      using DDir.IH [of k "snd k" "snd k'"] that by (cases k) auto
    with that(3) show ?thesis by (simp add: prod_eq_iff)
  qed
  with all have "list_all2 (=) kids kids'" by (rule list.rel_mono_strong) simp_all
  then show ?case by (simp add: d' list_all2_eq)
qed


subsection \<open>The files of a stored tree\<close>

fun dt_files :: "dtree \<Rightarrow> (string list \<times> hash) list" where
  "dt_files (DFile h) = [([], h)]"
| "dt_files (DDir kids) =
     concat (map (\<lambda>k. map (\<lambda>(ns, h). (fst k # ns, h)) (dt_files (snd k))) kids)"

definition file_map :: "dtree \<Rightarrow> string list \<Rightarrow> hash option" where
  "file_map d = map_of (dt_files d)"

fun strict_subs :: "dtree \<Rightarrow> dtree list" where
  "strict_subs (DFile h) = []"
| "strict_subs (DDir kids) = concat (map (\<lambda>k. snd k # strict_subs (snd k)) kids)"

text \<open>
  Two different directories whose entries' hashes agree one by one: they differ in names only,
  and \<open>isDiffChildrenSame\<close> cannot tell them apart.
\<close>

definition bare_rename :: "env \<Rightarrow> dtree \<Rightarrow> dtree \<Rightarrow> bool" where
  "bare_rename E x y \<longleftrightarrow> x \<noteq> y \<and> is_ddir x \<and> is_ddir y \<and>
     map (\<lambda>k. dt_hash E (snd k)) (kids_of x) = map (\<lambda>k. dt_hash E (snd k)) (kids_of y)"

definition renames_between :: "env \<Rightarrow> dtree \<Rightarrow> dtree \<Rightarrow> bool" where
  "renames_between E d d' \<longleftrightarrow> list_ex (\<lambda>x. list_ex (bare_rename E x) (strict_subs d')) (strict_subs d)"

lemma sorted_kids_vt:
  assumes "lists_kids E repo st n kids"
  shows "sorted_kids (tree_ops repo st) n = map (vt_of E repo st) kids"
proof -
  have "sorted (map vt_Name (map (vt_of E repo st) kids))"
    using assms by (simp add: lists_kids_def comp_def)
  then have "sort_key vt_Name (map (vt_of E repo st) kids) = map (vt_of E repo st) kids"
    by (rule sort_key_idem)
  then show ?thesis by (simp add: sorted_kids_def vt_Children_kids [OF assms])
qed


lemma path_Last_snoc [simp]: "path_Last (p @ [x]) = x"
  by (simp add: path_Last_def)

lemma path_files_dtree:
  "stored E repo st (snd k) \<Longrightarrow> dt_ok (snd k) \<Longrightarrow>
    map (\<lambda>r. (path_names (tree_ops repo st) r, path_Hash (tree_ops repo st) r))
      (path_leaves (tree_ops repo st) (p @ [vt_of E repo st k])) =
    map (\<lambda>(ns, h). (path_names (tree_ops repo st) p @ fst k # ns, h)) (dt_files (snd k))"
proof (induction "snd k" arbitrary: k p)
  case (DFile h)
  have tree: "is_tree (tree_ops repo st) (vt_of E repo st k)" by (rule vt_of_tree [OF DFile.prems])
  have "\<not> path_IsDir (tree_ops repo st) (p @ [vt_of E repo st k])"
    using DFile.hyps [symmetric] by (simp add: path_IsDir_def)
  with tree DFile.hyps [symmetric] show ?case
    by (simp add: path_leaves_unfold path_Hash_def)
next
  case (DDir kids)
  let ?N = "tree_ops repo st" and ?q = "p @ [vt_of E repo st k]"
  note k = DDir.hyps(2) [symmetric]
  have tree: "is_tree ?N (vt_of E repo st k)" by (rule vt_of_tree [OF DDir.prems])
  have dir: "path_IsDir ?N ?q" using k by (simp add: path_IsDir_def)
  have kids: "path_kids ?N ?q = map (\<lambda>x. ?q @ [vt_of E repo st x]) kids"
    using sorted_kids_vt [OF vt_of_kids [OF DDir.prems]] k by (simp add: path_kids_def kids_of_def)
  have IH: "map (\<lambda>r. (path_names ?N r, path_Hash ?N r)) (path_leaves ?N (?q @ [vt_of E repo st x])) =
      map (\<lambda>(ns, h). (path_names ?N ?q @ fst x # ns, h)) (dt_files (snd x))" if "x \<in> set kids" for x
  proof (rule DDir.hyps(1) [OF that])
    show "snd x \<in> Basic_BNFs.snds x" by (simp add: snds.simps)
    show "stored E repo st (snd x)" "dt_ok (snd x)"
      using stored_kids [OF DDir.prems(1)] dt_ok_kids [OF DDir.prems(2)] that k by (auto simp: kids_of_def)
  qed
  have "map (\<lambda>r. (path_names ?N r, path_Hash ?N r)) (path_leaves ?N ?q) =
      concat (map (\<lambda>x. map (\<lambda>r. (path_names ?N r, path_Hash ?N r))
        (path_leaves ?N (?q @ [vt_of E repo st x]))) kids)"
    using tree dir by (simp add: path_leaves_unfold kids all_leaves_def map_concat comp_def)
  also have "\<dots> = concat (map (\<lambda>x. map (\<lambda>(ns, h). (path_names ?N ?q @ fst x # ns, h)) (dt_files (snd x))) kids)"
    using IH by (simp cong: map_cong)
  finally show ?case
    by (simp add: k map_concat comp_def split_def)
qed

lemma root_map_dtree:
  assumes "root_rep E repo st n d"
  shows "root_map (tree_ops repo st) n = file_map d"
proof -
  let ?N = "tree_ops repo st"
  note kids = root_rep_kids [OF assms]
  have "map (\<lambda>r. (path_names ?N r, path_Hash ?N r)) (path_leaves ?N ([] @ [vt_of E repo st k])) =
      map (\<lambda>(ns, h). (path_names ?N [] @ fst k # ns, h)) (dt_files (snd k))" if "k \<in> set (kids_of d)" for k
    using kids that by (intro path_files_dtree) (auto simp: lists_kids_def)
  then have "map (\<lambda>r. (path_names ?N r, path_Hash ?N r)) (all_leaves ?N (root_paths ?N n)) =
      concat (map (\<lambda>k. map (\<lambda>(ns, h). (fst k # ns, h)) (dt_files (snd k))) (kids_of d))"
    by (simp add: root_paths_def sorted_kids_vt [OF kids] all_leaves_def map_concat comp_def cong: map_cong)
  moreover have "d = DDir (kids_of d)" using assms by (cases d) (auto simp: root_rep_def kids_of_def)
  ultimately show ?thesis by (metis dt_files.simps(2) file_map_def root_map_def)
qed


subsection \<open>DiffTree on stored trees\<close>

lemma strict_subs_trans:
  "x \<in> set (strict_subs d) \<Longrightarrow> k \<in> set (kids_of x) \<Longrightarrow> snd k \<in> set (strict_subs d)"
proof (induction d)
  case (DDir kids)
  then obtain y where y: "y \<in> set kids" "x = snd y \<or> x \<in> set (strict_subs (snd y))" by auto
  have "snd k \<in> set (strict_subs (snd y))" if "x = snd y"
    using DDir.prems(2) unfolding that [symmetric] by (cases x) (auto simp: kids_of_def)
  moreover have "snd k \<in> set (strict_subs (snd y))" if "x \<in> set (strict_subs (snd y))"
    using DDir.IH [OF y(1)] that DDir.prems(2) by (auto simp: snds.simps)
  ultimately show ?case using y by auto
qed simp

lemma below_stored:
  assumes "below (tree_ops repo st) n a" and root: "lists_kids E repo st n kids"
  shows "\<exists>k. a = vt_of E repo st k \<and> stored E repo st (snd k) \<and> dt_ok (snd k) \<and>
    snd k \<in> set (strict_subs (DDir kids))"
  using assms(1)
proof induction
  case (child a)
  then obtain k where k: "a = vt_of E repo st k" "k \<in> set kids"
    by (auto simp: sorted_kids_vt [OF root])
  then have "stored E repo st (snd k)" "dt_ok (snd k)" using root by (auto simp: lists_kids_def)
  with k show ?case by (intro exI [of _ k]) auto
next
  case (deeper m a)
  then obtain k where k: "m = vt_of E repo st k" "stored E repo st (snd k)" "dt_ok (snd k)"
    "snd k \<in> set (strict_subs (DDir kids))" by blast
  then obtain x where x: "a = vt_of E repo st x" "x \<in> set (kids_of (snd k))"
    using deeper.hyps(2) sorted_kids_vt [OF vt_of_kids [OF k(2,3)]] by auto
  with k show ?case
    using stored_kids [OF k(2) x(2)] dt_ok_kids [OF k(3) x(2)] strict_subs_trans [OF k(4) x(2)]
    by blast
qed

lemma vt_node_files:
  assumes "stored E repo st (snd k)" "dt_ok (snd k)"
  shows "node_files (tree_ops repo st) (vt_of E repo st k) = set (dt_files (snd k))"
proof -
  let ?N = "tree_ops repo st"
  have "path_names ?N (tl r) = tl (path_names ?N r)" for r
    by (simp add: path_names_def map_tl)
  then have "node_files ?N (vt_of E repo st k) = (\<lambda>(x, h). (tl x, h)) `
      set (map (\<lambda>r. (path_names ?N r, path_Hash ?N r)) (path_leaves ?N ([] @ [vt_of E repo st k])))"
    by (simp add: node_files_def image_image)
  also have "\<dots> = set (dt_files (snd k))"
    unfolding path_files_dtree [OF assms] by (simp add: image_image split_def)
  finally show ?thesis .
qed

lemma stored_hashes_sound:
  assumes "root_rep E repo st a d" "root_rep E repo st b d'"
  shows "hashes_sound (tree_ops repo st) a b"
  unfolding hashes_sound_def
proof (intro allI impI)
  fix x y assume x: "below (tree_ops repo st) a x" and y: "below (tree_ops repo st) b y"
    and eq: "nd_equal (tree_ops repo st) x y"
  obtain k where k: "x = vt_of E repo st k" "stored E repo st (snd k)" "dt_ok (snd k)"
    using below_stored [OF x root_rep_kids [OF assms(1)]] by blast
  obtain l where l: "y = vt_of E repo st l" "stored E repo st (snd l)" "dt_ok (snd l)"
    using below_stored [OF y root_rep_kids [OF assms(2)]] by blast
  have "snd k = snd l" using eq k l stored_inj by (simp add: vt_Equal_def)
  then show "nd_is_dir (tree_ops repo st) x = nd_is_dir (tree_ops repo st) y \<and>
      node_files (tree_ops repo st) x = node_files (tree_ops repo st) y"
    using k l by (simp add: vt_node_files)
qed

lemma isDiffChildrenSame_vt:
  assumes "stored E repo st (snd k)" "dt_ok (snd k)" "stored E repo st (snd l)" "dt_ok (snd l)"
  shows "isDiffChildrenSame (tree_ops repo st) (vt_of E repo st k) (vt_of E repo st l) =
    Inr (map (\<lambda>x. dt_hash E (snd x)) (kids_of (snd k)) = map (\<lambda>x. dt_hash E (snd x)) (kids_of (snd l)))"
  using vt_Children_kids [OF vt_of_kids [OF assms(1,2)]] vt_Children_kids [OF vt_of_kids [OF assms(3,4)]]
  by (auto simp: isDiffChildrenSame_def list_all_length list_eq_iff_nth_eq vt_Equal_def)

lemma stored_no_bare_renames:
  assumes reps: "root_rep E repo st a d" "root_rep E repo st b d'" and "\<not> renames_between E d d'"
  shows "no_bare_renames (tree_ops repo st) a b"
  unfolding no_bare_renames_def
proof (intro allI impI)
  fix x y assume x: "below (tree_ops repo st) a x" and y: "below (tree_ops repo st) b y"
    and dirs: "nd_is_dir (tree_ops repo st) x" "nd_is_dir (tree_ops repo st) y"
    and ne: "\<not> nd_equal (tree_ops repo st) x y"
  have d: "d = DDir (kids_of d)" "d' = DDir (kids_of d')"
    using reps by (cases d; cases d'; simp add: root_rep_def kids_of_def)+
  obtain k where k: "x = vt_of E repo st k" "stored E repo st (snd k)" "dt_ok (snd k)"
    "snd k \<in> set (strict_subs d)"
    using below_stored [OF x root_rep_kids [OF assms(1)]] d by metis
  obtain l where l: "y = vt_of E repo st l" "stored E repo st (snd l)" "dt_ok (snd l)"
    "snd l \<in> set (strict_subs d')"
    using below_stored [OF y root_rep_kids [OF assms(2)]] d by metis
  have "snd k \<noteq> snd l" using ne k(1) l(1) by (auto simp: vt_Equal_def)
  moreover have "\<not> bare_rename E (snd k) (snd l)"
    using assms(3) k(4) l(4) by (auto simp: renames_between_def list_ex_iff)
  ultimately show "isDiffChildrenSame (tree_ops repo st) x y \<noteq> Inr True"
    using dirs k(1) l(1) isDiffChildrenSame_vt [OF k(2,3) l(2,3)] by (simp add: bare_rename_def)
qed

lemma DiffTree_stored:
  assumes "root_rep E repo st a d" "root_rep E repo st b d'" "\<not> renames_between E d d'"
  shows "\<exists>cs. DiffTree (tree_ops repo st) a b = Some (Inr cs) \<and>
    distinct (map (change_names (tree_ops repo st)) cs) \<and>
    change_summary (tree_ops repo st) ` set cs = map_diff (file_map d) (file_map d') \<and>
    (\<forall>c \<in> set cs. same_path (tree_ops repo st) c)"
proof -
  have "\<exists>E d. root_rep E repo st a d" "\<exists>E d. root_rep E repo st b d" using assms by blast+
  from tree_noders.DiffTree_spec [OF this stored_hashes_sound [OF assms(1,2)]
      stored_no_bare_renames [OF assms]]
  obtain cs where cs: "DiffTree (tree_ops repo st) a b = Some (Inr cs)"
    "set cs = diff_spec (tree_ops repo st) (root_files (tree_ops repo st) a) (root_files (tree_ops repo st) b)"
    "distinct (map (change_names (tree_ops repo st)) cs)"
    "change_summary (tree_ops repo st) ` set cs = map_diff (file_map d) (file_map d')"
    unfolding root_map_dtree [OF assms(1)] root_map_dtree [OF assms(2)] by blast
  moreover have "\<forall>c \<in> set cs. same_path (tree_ops repo st) c"
    unfolding cs(2) by (intro ballI diff_spec_same_path)
  ultimately show ?thesis by blast
qed

text \<open>
  C6: The diff of two stored trees in which no directory differs from a directory of the other
  tree by names alone ends without an error. Its changes, each on a path of its own, are
  exactly the paths at which the two trees hold different files, with the old and the new hash:
  a missing old hash is an insert, a missing new hash a delete, both a modification. (A directory
  that differs by names alone is excluded because the code reports it as a modification of the
  directory itself: \<open>rename_reported_as_directory\<close>.)
\<close>

theorem tree_diff_exact:
  assumes "root_rep E repo st a d" "root_rep E repo st b d'" "\<not> renames_between E d d'"
  shows "\<exists>cs. DiffTree (tree_ops repo st) a b = Some (Inr cs) \<and>
    distinct (map (change_names (tree_ops repo st)) cs) \<and>
    change_summary (tree_ops repo st) ` set cs = map_diff (file_map d) (file_map d')"
  using DiffTree_stored [OF assms] by blast

subsection \<open>A concrete store\<close>

text \<open>The rows of a tree, and an environment whose digest is injective: for the witnesses.\<close>

fun rows_of :: "env \<Rightarrow> uuid \<Rightarrow> dtree \<Rightarrow> tree_table" where
  "rows_of E repo (DFile h) =
     [\<lparr>ft_hash = h, ft_repo = repo, ft_check_sum = h, ft_type = BlobObject, ft_size = 1,
       ft_props = DefaultLeafProperty, ft_subs = [], ft_created = 0, ft_updated = 0\<rparr>]"
| "rows_of E repo (DDir kids) =
     \<lparr>ft_hash = dt_hash E (DDir kids), ft_repo = repo, ft_check_sum = [], ft_type = TreeObject,
       ft_size = 0, ft_props = DefaultDirProperty, ft_subs = listing E kids,
       ft_created = 0, ft_updated = 0\<rparr> # concat (map (\<lambda>k. rows_of E repo (snd k)) kids)"

definition demo_env :: env where
  "demo_env = \<lparr>env_md5 = (\<lambda>x. CHR ''#'' # x), env_now = 0\<rparr>"

definition demo_tree :: dtree where
  "demo_tree = DDir [(''a'', DFile ''1''), (''d'', DDir [(''x'', DFile ''2'')])]"

definition demo_tree' :: dtree where
  "demo_tree' = DDir [(''a'', DFile ''3''), (''d'', DDir [(''x'', DFile ''2''), (''y'', DFile ''1'')])]"

definition demo_renamed :: dtree where
  "demo_renamed = DDir [(''d'', DDir [(''x'', DFile ''2'')])]"

definition demo_renamed' :: dtree where
  "demo_renamed' = DDir [(''d'', DDir [(''z'', DFile ''2'')])]"

definition demo_table :: tree_table where
  "demo_table = concat (map (rows_of demo_env ''r'')
     [demo_tree, demo_tree', demo_renamed, demo_renamed'])"

definition demo_root :: "dtree \<Rightarrow> vtree_node" where
  "demo_root d = vt_of demo_env ''r'' demo_table ([], d)"

lemma root_repI:
  assumes "stored E repo st d" "dt_ok d" "is_ddir d" "d \<noteq> DDir []"
  shows "root_rep E repo st (vt_of E repo st ([], d)) d"
  using assms stored_row [OF assms(1)] by (auto simp: root_rep_def vt_of_def)

lemma demo_hashes:
  "dt_hash demo_env (DFile h) = h"
  "dt_hash demo_env (DDir kids) = CHR ''#'' # byte_of 2 #
     concat (map (\<lambda>k. dt_hash demo_env (snd k) @ fst k) kids) @ ''mode0040000''"
  by (simp_all add: dt_hash_listing demo_env_def tree_bytes_def listing_def DefaultDirProperty_def
      mode_String_Dir comp_def)

lemma demo_stored:
  "\<forall>d \<in> {demo_tree, demo_tree', demo_renamed, demo_renamed'}. stored demo_env ''r'' demo_table d"
  by (simp add: demo_tree_def demo_tree'_def demo_renamed_def demo_renamed'_def demo_table_def
      lookup_tree_def ft_key_def demo_hashes file_row_def dir_row_def)

lemma demo_roots:
  assumes "d \<in> {demo_tree, demo_tree', demo_renamed, demo_renamed'}"
  shows "root_rep demo_env ''r'' demo_table (demo_root d) d"
proof -
  have "dt_ok d \<and> is_ddir d \<and> d \<noteq> DDir []"
    using assms by (auto simp: demo_tree_def demo_tree'_def demo_renamed_def demo_renamed'_def valid_name_def)
  with assms demo_stored show ?thesis unfolding demo_root_def by (intro root_repI) auto
qed

lemma tree_diff_exact_witness:
  "\<exists>cs. DiffTree (tree_ops ''r'' demo_table) (demo_root demo_tree) (demo_root demo_tree') =
      Some (Inr cs) \<and>
    distinct (map (change_names (tree_ops ''r'' demo_table)) cs) \<and>
    change_summary (tree_ops ''r'' demo_table) ` set cs =
      map_diff (file_map demo_tree) (file_map demo_tree')"
proof (rule tree_diff_exact [of demo_env])
  show "\<not> renames_between demo_env demo_tree demo_tree'"
    by (simp add: renames_between_def bare_rename_def demo_tree_def demo_tree'_def demo_hashes kids_of_def)
qed (simp_all add: demo_roots)

text \<open>
  When the two roots hold one directory of the same name whose entries' hashes agree one by
  one while their names do not (a file of it was renamed), DiffTree reports one modification of
  the directory itself and no change of a file: \<open>isDiffChildrenSame\<close> compares hashes only.
\<close>

theorem rename_reported_as_directory:
  assumes "root_rep E repo st a (DDir [(n, x)])" "root_rep E repo st b (DDir [(n, y)])"
    "bare_rename E x y"
  shows "DiffTree (tree_ops repo st) a b =
      Some (Inr [NewModify [vt_of E repo st (n, x)] [vt_of E repo st (n, y)]]) \<and>
    vt_IsDir (vt_of E repo st (n, y))"
proof -
  let ?N = "tree_ops repo st" and ?p = "[vt_of E repo st (n, x)]" and ?q = "[vt_of E repo st (n, y)]"
  note kids = root_rep_kids [OF assms(1)] root_rep_kids [OF assms(2)]
  have st: "stored E repo st x" "dt_ok x" "stored E repo st y" "dt_ok y"
    using kids by (simp_all add: lists_kids_def kids_of_def)
  have dirs: "path_IsDir ?N ?p" "path_IsDir ?N ?q" "is_ddir y" "x \<noteq> y"
    using assms(3) by (simp_all add: bare_rename_def path_IsDir_def path_Last_def)
  have "dt_hash E x \<noteq> dt_hash E y" using stored_inj [OF st(1,3)] dirs(4) by blast
  then have diff: "\<not> same_node ?N ?p ?q"
    by (simp add: same_node_def vt_Equal_def path_Last_def)
  have same: "same_children ?N ?p ?q"
    using isDiffChildrenSame_vt [of E repo st "(n, x)" "(n, y)"] st assms(3)
    by (simp add: same_children_def path_Last_def bare_rename_def)
  have paths: "root_paths ?N a = [?p]" "root_paths ?N b = [?q]"
    using sorted_kids_vt [OF kids(1)] sorted_kids_vt [OF kids(2)] by (simp_all add: root_paths_def kids_of_def)
  obtain cs where cs: "DiffTree ?N a b = Some (Inr cs)" "merge_diff ?N [?p] [?q] cs"
    using DiffTree_walk [OF lists_kids_root [OF kids(1)] lists_kids_root [OF kids(2)]] paths by auto
  have names: "path_names ?N ?p = path_names ?N ?q" by simp
  from cs(2) have "cs = [NewModify ?p ?q]"
  proof cases
    case (dirs_same_children cs')
    from dirs_same_children(7) have "cs' = []" by cases auto
    then show ?thesis by (simp add: dirs_same_children(1))
  qed (use names dirs diff same in auto)
  with cs(1) dirs show ?thesis by simp
qed

lemma rename_reported_as_directory_witness:
  "DiffTree (tree_ops ''r'' demo_table) (demo_root demo_renamed) (demo_root demo_renamed') =
      Some (Inr [NewModify [vt_of demo_env ''r'' demo_table (''d'', DDir [(''x'', DFile ''2'')])]
        [vt_of demo_env ''r'' demo_table (''d'', DDir [(''z'', DFile ''2'')])]]) \<and>
    vt_IsDir (vt_of demo_env ''r'' demo_table (''d'', DDir [(''z'', DFile ''2'')]))"
proof (rule rename_reported_as_directory)
  show "bare_rename demo_env (DDir [(''x'', DFile ''2'')]) (DDir [(''z'', DFile ''2'')])"
    by (simp add: bare_rename_def kids_of_def)
  show "root_rep demo_env ''r'' demo_table (demo_root demo_renamed) (DDir [(''d'', DDir [(''x'', DFile ''2'')])])"
    using demo_roots [of demo_renamed] by (simp add: demo_renamed_def)
  show "root_rep demo_env ''r'' demo_table (demo_root demo_renamed') (DDir [(''d'', DDir [(''z'', DFile ''2'')])])"
    using demo_roots [of demo_renamed'] by (simp add: demo_renamed'_def)
qed

lemma merge_diff_self: "\<forall>p \<in> set ps. same_node N p p \<Longrightarrow> merge_diff N ps ps cs \<Longrightarrow> cs = []"
proof (induction ps arbitrary: cs)
  case Nil
  then show ?case by (auto elim: merge_diff.cases)
next
  case (Cons p ps)
  have "same_node N p p" using Cons.prems(1) by simp
  with Cons.prems(2) have "merge_diff N ps ps cs" by cases auto
  with Cons.IH Cons.prems(1) show ?case by simp
qed

text \<open>
  C26: The comparison of any two stored trees ends, and ends without an error, also when
  directories differ by names alone; comparing a tree with itself reports nothing.
\<close>

theorem DiffTree_terminates:
  assumes "root_rep E repo st a d" "root_rep E repo st b d'"
  shows "\<exists>cs. DiffTree (tree_ops repo st) a b = Some (Inr cs) \<and> (d = d' \<longrightarrow> cs = [])"
proof -
  let ?N = "tree_ops repo st"
  note kids = root_rep_kids [OF assms(1)] root_rep_kids [OF assms(2)]
  obtain cs where cs: "DiffTree ?N a b = Some (Inr cs)" "merge_diff ?N (root_paths ?N a) (root_paths ?N b) cs"
    using DiffTree_walk [OF lists_kids_root [OF kids(1)] lists_kids_root [OF kids(2)]] by blast
  have "cs = []" if "d = d'"
  proof (rule merge_diff_self)
    show "\<forall>p \<in> set (root_paths ?N a). same_node ?N p p" by (simp add: same_node_def vt_Equal_def)
    have "root_paths ?N b = root_paths ?N a"
      using sorted_kids_vt [OF kids(1)] sorted_kids_vt [OF kids(2)] that by (simp add: root_paths_def)
    with cs(2) show "merge_diff ?N (root_paths ?N a) (root_paths ?N a) cs" by simp
  qed
  with cs(1) show ?thesis by blast
qed

lemma DiffTree_terminates_witness:
  "\<exists>cs. DiffTree (tree_ops ''r'' demo_table) (demo_root demo_renamed) (demo_root demo_renamed') = Some (Inr cs)"
  using DiffTree_terminates [OF demo_roots [of demo_renamed] demo_roots [of demo_renamed']] by auto


end
