(* ===== verification/Work_Tree.thy ===== *)
theory Work_Tree
  imports Tree_Noder
begin

section \<open>Editing a directory tree: versionmgr/worktree.go, files_walk.go\<close>

text \<open>
  A \<open>WorkTree\<close> is a root node over the object table. Its operations write new directory rows
  and move the root; they never change a row. The state \<open>work_state\<close> is the root and the table,
  the repository's id and the environment (digest, clock) are arguments. The loops over the
  reversed list of existing nodes are the functions with the suffix \<open>_loop\<close>, over that
  reversed list.
\<close>

subsection \<open>The model\<close>

record full_object =
  fo_node :: file_tree
  fo_entry :: tree_entry

record work_state =
  ws_root :: vtree_node
  ws_objs :: tree_table

definition NewWorkTree :: "uuid \<Rightarrow> tree_table \<Rightarrow> tree_entry \<Rightarrow> vtree_node result" where
  "NewWorkTree repo st root = NewTreeNode repo st root"

definition CleanPath :: "string \<Rightarrow> string" where
  "CleanPath fullPath =
     (let path = map (\<lambda>c. if c = CHR 0x5C then CHR ''/'' else c) fullPath
      in trim_by (\<lambda>c. c = CHR ''/'' \<or> c = CHR 0x5C) (trim_space path))"

definition insert_tree :: "uuid \<Rightarrow> tree_node \<Rightarrow> tree_table \<Rightarrow> tree_node result \<times> tree_table" where
  "insert_tree repo newTree st =
     (case FileTreeRepo_Insert repo (TreeNode_FileTree newTree) st of
        (Inl e, st') \<Rightarrow> (Inl e, st')
      | (Inr obj, st') \<Rightarrow> (Inr (FileTree_TreeNode obj), st'))"

definition AppendDirectEntry ::
  "env \<Rightarrow> uuid \<Rightarrow> vtree_node \<Rightarrow> tree_entry \<Rightarrow> tree_table \<Rightarrow> tree_node result \<times> tree_table" where
  "AppendDirectEntry E repo root treeEntry st =
     (case vt_Children repo st root of
        Inl e \<Rightarrow> (Inl e, st)
      | Inr children \<Rightarrow>
          if list_ex (\<lambda>n. vt_Name n = te_name treeEntry) children then (Inl ErrEntryExit, st)
          else insert_tree repo
            (models_NewTreeNode E \<lparr>prop_mode = Dir\<rparr> repo
              (SortSubObjects (vt_SubObjects root @ [treeEntry]))) st)"

text \<open>The boolean of the result says that no entry is left; then nothing is written.\<close>

definition DeleteDirectEntry ::
  "env \<Rightarrow> uuid \<Rightarrow> vtree_node \<Rightarrow> string \<Rightarrow> tree_table \<Rightarrow> (tree_node option \<times> bool) result \<times> tree_table"
where
  "DeleteDirectEntry E repo root name st =
     (let subs = filter (\<lambda>sub. te_name sub \<noteq> name) (vt_SubObjects root) in
      if length subs = 0 then (Inr (None, True), st)
      else (case insert_tree repo (models_NewTreeNode E (vt_Properties root) repo subs) st of
              (Inl e, st') \<Rightarrow> (Inl e, st')
            | (Inr obj, st') \<Rightarrow> (Inr (Some obj, False), st')))"

text \<open>
  The loop \<open>for index, sub = range\<close> with its \<open>break\<close>: the first entry of the name, or the last
  entry when there is none, or -1 (here \<open>None\<close>) when there are no entries.
\<close>

fun range_index :: "string \<Rightarrow> nat \<Rightarrow> tree_entry list \<Rightarrow> nat option" where
  "range_index name i [] = None"
| "range_index name i (sub # subs) =
     (if te_name sub = name \<or> subs = [] then Some i else range_index name (Suc i) subs)"

definition ReplaceSubTreeEntry ::
  "env \<Rightarrow> uuid \<Rightarrow> vtree_node \<Rightarrow> tree_entry \<Rightarrow> tree_table \<Rightarrow> tree_node result \<times> tree_table" where
  "ReplaceSubTreeEntry E repo root treeEntry st =
     (case range_index (te_name treeEntry) 0 (vt_SubObjects root) of
        None \<Rightarrow> (Inl ErrPathNotFound, st)
      | Some index \<Rightarrow>
          insert_tree repo
            (models_NewTreeNode E (vt_Properties root) repo ((vt_SubObjects root)[index := treeEntry])) st)"

fun find_segs ::
  "uuid \<Rightarrow> tree_table \<Rightarrow> vtree_node \<Rightarrow> string list \<Rightarrow> full_object list \<Rightarrow>
    (full_object list \<times> string list) result"
where
  "find_segs repo st curNode [] existNodes = Inr (existNodes, [])"
| "find_segs repo st curNode (seg # segs) existNodes =
     (case SubEntry curNode seg of
        Inl e \<Rightarrow> Inr (existNodes, seg # segs)
      | Inr entry \<Rightarrow>
          if te_is_dir entry then
            (case SubDir repo st curNode (te_name entry) of
               Inl e \<Rightarrow> Inl e
             | Inr sub \<Rightarrow> find_segs repo st sub segs
                 (existNodes @ [\<lparr>fo_node = TreeNode_FileTree (vt_node sub), fo_entry = entry\<rparr>]))
          else
            (case SubFile repo st curNode (te_name entry) of
               Inl e \<Rightarrow> Inl e
             | Inr blob \<Rightarrow>
                 if segs \<noteq> [] then Inl ErrBlobMustBeLeaf
                 else find_segs repo st curNode segs
                   (existNodes @ [\<lparr>fo_node = Blob_FileTree blob, fo_entry = entry\<rparr>])))"

definition findNodeByPath ::
  "uuid \<Rightarrow> work_state \<Rightarrow> string \<Rightarrow> (full_object list \<times> string list) result" where
  "findNodeByPath repo w path = find_segs repo (ws_objs w) (ws_root w) (split_on (CHR ''/'') path) []"

definition root_object :: "work_state \<Rightarrow> full_object" where
  "root_object w =
     \<lparr>fo_node = TreeNode_FileTree (vt_node (ws_root w)),
      fo_entry = NewRootTreeEntry (vt_Hash (ws_root w))\<rparr>"

definition insert_blob :: "uuid \<Rightarrow> blob \<Rightarrow> tree_table \<Rightarrow> unit result \<times> tree_table" where
  "insert_blob repo blob st =
     (case FileTreeRepo_Insert repo (Blob_FileTree blob) st of
        (Inl e, st') \<Rightarrow> (Inl e, st')
      | (Inr _, st') \<Rightarrow> (Inr (), st'))"

subsection \<open>AddLeaf\<close>

text \<open>The loop over the reversed missing segments; \<open>first\<close> is \<open>index == 0\<close>.\<close>

fun add_chain_loop ::
  "env \<Rightarrow> uuid \<Rightarrow> blob \<Rightarrow> bool \<Rightarrow> tree_entry \<Rightarrow> string list \<Rightarrow> tree_table \<Rightarrow> tree_entry result \<times> tree_table"
where
  "add_chain_loop E repo blob first lastEntry [] st = (Inr lastEntry, st)"
| "add_chain_loop E repo blob first lastEntry (path # paths) st =
     (if length path = 0 then (Inl (ErrMsg ''name is empty''), st)
      else if first then
        (case insert_blob repo blob st of
           (Inl e, st') \<Rightarrow> (Inl e, st')
         | (Inr _, st') \<Rightarrow> add_chain_loop E repo blob False
             \<lparr>te_name = path, te_is_dir = False, te_hash = bl_hash blob\<rparr> paths st')
      else
        (let newTree = models_NewTreeNode E DefaultDirProperty repo [lastEntry] in
         case insert_tree repo newTree st of
           (Inl e, st') \<Rightarrow> (Inl e, st')
         | (Inr _, st') \<Rightarrow> add_chain_loop E repo blob False
             \<lparr>te_name = path, te_is_dir = True, te_hash = tn_hash newTree\<rparr> paths st'))"

fun add_up_loop ::
  "env \<Rightarrow> uuid \<Rightarrow> bool \<Rightarrow> tree_entry \<Rightarrow> full_object list \<Rightarrow> tree_table \<Rightarrow> tree_entry result \<times> tree_table"
where
  "add_up_loop E repo first lastEntry [] st = (Inr lastEntry, st)"
| "add_up_loop E repo first lastEntry (node # nodes) st =
     (case NewWorkTree repo st (fo_entry node) of
        Inl e \<Rightarrow> (Inl e, st)
      | Inr newWorkTree \<Rightarrow>
          (case (if first then AppendDirectEntry E repo newWorkTree lastEntry st
                 else ReplaceSubTreeEntry E repo newWorkTree lastEntry st) of
             (Inl e, st') \<Rightarrow> (Inl e, st')
           | (Inr newNode, st') \<Rightarrow> add_up_loop E repo False
               \<lparr>te_name = te_name (fo_entry node), te_is_dir = True, te_hash = tn_hash newNode\<rparr>
               nodes st'))"

text \<open>The zero value of \<open>models.TreeEntry\<close>.\<close>

definition zero_entry :: tree_entry where
  "zero_entry = \<lparr>te_name = [], te_is_dir = False, te_hash = []\<rparr>"

text \<open>
  \<open>workTree.root, err = NewTreeNode(...)\<close>: on an error the root would be nil. The model keeps the
  old root there; every caller returns the error at once and gives the working tree up, so that
  it is not read again.
\<close>

definition set_root :: "uuid \<Rightarrow> work_state \<Rightarrow> tree_entry \<Rightarrow> tree_table \<Rightarrow> unit result \<times> work_state" where
  "set_root repo w lastEntry st =
     (case NewTreeNode repo st lastEntry of
        Inl e \<Rightarrow> (Inl e, w\<lparr>ws_objs := st\<rparr>)
      | Inr n \<Rightarrow> (Inr (), \<lparr>ws_root = n, ws_objs = st\<rparr>))"

definition AddLeaf :: "env \<Rightarrow> uuid \<Rightarrow> string \<Rightarrow> blob \<Rightarrow> work_state \<Rightarrow> unit result \<times> work_state" where
  "AddLeaf E repo fullPath blob w =
     (case findNodeByPath repo w (CleanPath fullPath) of
        Inl e \<Rightarrow> (Inl e, w)
      | Inr (existNode, missingPath) \<Rightarrow>
          if length missingPath = 0 then (Inl ErrEntryExit, w)
          else (case insert_blob repo blob (ws_objs w) of
            (Inl e, st1) \<Rightarrow> (Inl e, w\<lparr>ws_objs := st1\<rparr>)
          | (Inr _, st1) \<Rightarrow>
              (case add_chain_loop E repo blob True zero_entry (rev missingPath) st1 of
                 (Inl e, st2) \<Rightarrow> (Inl e, w\<lparr>ws_objs := st2\<rparr>)
               | (Inr lastEntry, st2) \<Rightarrow>
                   (case add_up_loop E repo True lastEntry (rev existNode @ [root_object w]) st2 of
                      (Inl e, st3) \<Rightarrow> (Inl e, w\<lparr>ws_objs := st3\<rparr>)
                    | (Inr entry, st3) \<Rightarrow> set_root repo w entry st3))))"

subsection \<open>ReplaceLeaf\<close>

fun replace_up_loop ::
  "env \<Rightarrow> uuid \<Rightarrow> tree_entry \<Rightarrow> full_object list \<Rightarrow> tree_table \<Rightarrow> tree_entry result \<times> tree_table"
where
  "replace_up_loop E repo lastEntry [] st = (Inr lastEntry, st)"
| "replace_up_loop E repo lastEntry (node # nodes) st =
     (case NewWorkTree repo st (fo_entry node) of
        Inl e \<Rightarrow> (Inl e, st)
      | Inr subWorkTree \<Rightarrow>
          (case ReplaceSubTreeEntry E repo subWorkTree lastEntry st of
             (Inl e, st') \<Rightarrow> (Inl e, st')
           | (Inr newNode, st') \<Rightarrow> replace_up_loop E repo
               \<lparr>te_name = te_name (fo_entry node), te_is_dir = True, te_hash = tn_hash newNode\<rparr>
               nodes st'))"

definition ReplaceLeaf :: "env \<Rightarrow> uuid \<Rightarrow> string \<Rightarrow> blob \<Rightarrow> work_state \<Rightarrow> unit result \<times> work_state" where
  "ReplaceLeaf E repo fullPath blob w =
     (case findNodeByPath repo w (CleanPath fullPath) of
        Inl e \<Rightarrow> (Inl e, w)
      | Inr (existNode, missingPath) \<Rightarrow>
          if length missingPath > 0 then (Inl ErrPathNotFound, w)
          else (case insert_blob repo blob (ws_objs w) of
            (Inl e, st1) \<Rightarrow> (Inl e, w\<lparr>ws_objs := st1\<rparr>)
          | (Inr _, st1) \<Rightarrow>
              (case rev existNode @ [root_object w] of
                 [] \<Rightarrow> set_root repo w zero_entry st1
               | leaf # nodes \<Rightarrow>
                   (case replace_up_loop E repo
                       \<lparr>te_name = te_name (fo_entry leaf), te_is_dir = False, te_hash = bl_hash blob\<rparr>
                       nodes st1 of
                      (Inl e, st2) \<Rightarrow> (Inl e, w\<lparr>ws_objs := st2\<rparr>)
                    | (Inr entry, st2) \<Rightarrow> set_root repo w entry st2))))"

subsection \<open>RemoveEntry\<close>

fun remove_up_loop ::
  "env \<Rightarrow> uuid \<Rightarrow> bool \<Rightarrow> tree_entry \<Rightarrow> tree_node option \<Rightarrow> full_object list \<Rightarrow> tree_table \<Rightarrow>
    (tree_entry \<times> tree_node option) result \<times> tree_table"
where
  "remove_up_loop E repo first lastEntry newNode [] st = (Inr (lastEntry, newNode), st)"
| "remove_up_loop E repo first lastEntry newNode (node # nodes) st =
     (case NewWorkTree repo st (fo_entry node) of
        Inl e \<Rightarrow> (Inl e, st)
      | Inr subWorkTree \<Rightarrow>
          if first \<or> IsEmpty (te_hash lastEntry) then
            (case DeleteDirectEntry E repo subWorkTree (te_name lastEntry) st of
               (Inl e, st') \<Rightarrow> (Inl e, st')
             | (Inr (newNode', isEmpty), st') \<Rightarrow> remove_up_loop E repo False
                 \<lparr>te_name = te_name (fo_entry node), te_is_dir = True,
                  te_hash = (if isEmpty then [] else tn_hash (the newNode'))\<rparr>
                 newNode' nodes st')
          else
            (case ReplaceSubTreeEntry E repo subWorkTree lastEntry st of
               (Inl e, st') \<Rightarrow> (Inl e, st')
             | (Inr newNode', st') \<Rightarrow> remove_up_loop E repo False
                 \<lparr>te_name = te_name (fo_entry node), te_is_dir = True, te_hash = tn_hash newNode'\<rparr>
                 (Some newNode') nodes st'))"

definition RemoveEntry :: "env \<Rightarrow> uuid \<Rightarrow> string \<Rightarrow> work_state \<Rightarrow> unit result \<times> work_state" where
  "RemoveEntry E repo fullPath w =
     (case findNodeByPath repo w (CleanPath fullPath) of
        Inl e \<Rightarrow> (Inl e, w)
      | Inr (existNode, missingPath) \<Rightarrow>
          if length missingPath > 0 then (Inl ErrPathNotFound, w)
          else
            (let nodes = rev existNode @ [root_object w] in
             case remove_up_loop E repo True (fo_entry (hd nodes)) None (tl nodes) (ws_objs w) of
               (Inl e, st') \<Rightarrow> (Inl e, w\<lparr>ws_objs := st'\<rparr>)
             | (Inr (lastEntry, newNode), st') \<Rightarrow>
                 if newNode = None then
                   (Inr (), \<lparr>ws_root = \<lparr>vt_entry = EmptyDirEntry, vt_node = EmptyRoot\<rparr>, ws_objs = st'\<rparr>)
                 else set_root repo w lastEntry st'))"

subsection \<open>Ls, FindBlob and the manifest\<close>

record full_tree_entry =
  fte_name :: string
  fte_is_dir :: bool
  fte_hash :: hash
  fte_size :: int
  fte_created :: time
  fte_updated :: time

definition full_entry :: "uuid \<Rightarrow> tree_table \<Rightarrow> tree_entry \<Rightarrow> full_tree_entry result" where
  "full_entry repo st e =
     (if te_is_dir e then
        (case FileTreeRepo_TreeNode repo (te_hash e) st of
           Inl er \<Rightarrow> Inl er
         | Inr n \<Rightarrow> Inr \<lparr>fte_name = te_name e, fte_is_dir = te_is_dir e, fte_hash = te_hash e,
             fte_size = 0, fte_created = tn_created n, fte_updated = tn_updated n\<rparr>)
      else
        (case FileTreeRepo_Blob repo (te_hash e) st of
           Inl er \<Rightarrow> Inl er
         | Inr b \<Rightarrow> Inr \<lparr>fte_name = te_name e, fte_is_dir = te_is_dir e, fte_hash = te_hash e,
             fte_size = bl_size b, fte_created = bl_created b, fte_updated = bl_updated b\<rparr>))"

definition getFullEntry :: "uuid \<Rightarrow> tree_table \<Rightarrow> tree_entry list \<Rightarrow> full_tree_entry list result" where
  "getFullEntry repo st entries = map_res (full_entry repo st) entries"

definition Ls :: "uuid \<Rightarrow> string \<Rightarrow> work_state \<Rightarrow> full_tree_entry list result" where
  "Ls repo pattern w =
     (let fullPath = CleanPath pattern in
      if length fullPath = 0 then getFullEntry repo (ws_objs w) (vt_SubObjects (ws_root w))
      else (case findNodeByPath repo w fullPath of
        Inl e \<Rightarrow> Inl e
      | Inr (existNode, missingPath) \<Rightarrow>
          if length missingPath > 0 then Inl ErrPathNotFound
          else if ft_type (fo_node (last existNode)) \<noteq> TreeObject then Inl ErrNotDirectory
          else getFullEntry repo (ws_objs w) (ft_subs (fo_node (last existNode)))))"

definition FindBlob :: "uuid \<Rightarrow> string \<Rightarrow> work_state \<Rightarrow> (blob \<times> string) result" where
  "FindBlob repo fullPath w =
     (case findNodeByPath repo w (CleanPath fullPath) of
        Inl e \<Rightarrow> Inl e
      | Inr (existNode, missingPath) \<Rightarrow>
          if length missingPath > 0 then Inl ErrPathNotFound
          else
            (let lastNode = last existNode in
             if ft_type (fo_node lastNode) \<noteq> BlobObject then Inl ErrPathNotFound
             else Inr (FileTree_Blob (fo_node lastNode), te_name (fo_entry lastNode))))"

text \<open>
  \<open>FileWalk.Walk\<close>: a stack of directories with their paths. The callback takes and returns its
  own state. The loop has no bound, \<open>None\<close> is a walk that does not end.
\<close>

fun push_dirs ::
  "uuid \<Rightarrow> tree_table \<Rightarrow> string \<Rightarrow> tree_entry list \<Rightarrow> (vtree_node \<times> string) list \<Rightarrow>
    (vtree_node \<times> string) list result"
where
  "push_dirs repo st base [] cache = Inr cache"
| "push_dirs repo st base (sub # subs) cache =
     (if \<not> te_is_dir sub then push_dirs repo st base subs cache
      else (case NewTreeNode repo st sub of
              Inl e \<Rightarrow> Inl e
            | Inr treeNode \<Rightarrow>
                push_dirs repo st base subs ((treeNode, path_Join [base, vt_Name treeNode]) # cache)))"

type_synonym 's walk_fn = "tree_entry \<Rightarrow> blob option \<Rightarrow> string \<Rightarrow> 's \<Rightarrow> unit result \<times> 's"

fun visit_entries ::
  "uuid \<Rightarrow> tree_table \<Rightarrow> string \<Rightarrow> 's walk_fn \<Rightarrow> tree_entry list \<Rightarrow> 's \<Rightarrow> unit result \<times> 's"
where
  "visit_entries repo st base f [] s = (Inr (), s)"
| "visit_entries repo st base f (sub # subs) s =
     (if te_is_dir sub then
        (case f sub None (path_Join [base, te_name sub]) s of
           (Inl e, s') \<Rightarrow> (Inl e, s')
         | (Inr _, s') \<Rightarrow> visit_entries repo st base f subs s')
      else (case FileTreeRepo_Blob repo (te_hash sub) st of
              Inl e \<Rightarrow> (Inl e, s)
            | Inr blob \<Rightarrow>
                (case f sub (Some blob) (path_Join [base, te_name sub]) s of
                   (Inl e, s') \<Rightarrow> (Inl e, s')
                 | (Inr _, s') \<Rightarrow> visit_entries repo st base f subs s')))"

partial_function (option) walk_loop ::
  "uuid \<Rightarrow> tree_table \<Rightarrow> 's walk_fn \<Rightarrow> (vtree_node \<times> string) list \<Rightarrow> 's \<Rightarrow> (unit result \<times> 's) option"
where
  "walk_loop repo st f cache s =
     (case cache of
        [] \<Rightarrow> Some (Inr (), s)
      | cur # rest \<Rightarrow>
          (let subNodes = vt_SubObjects (fst cur) in
           case push_dirs repo st (snd cur) (rev subNodes) rest of
             Inl e \<Rightarrow> Some (Inl e, s)
           | Inr cache' \<Rightarrow>
               (case visit_entries repo st (snd cur) f subNodes s of
                  (Inl e, s') \<Rightarrow> Some (Inl e, s')
                | (Inr _, s') \<Rightarrow> walk_loop repo st f cache' s')))"

definition Walk ::
  "uuid \<Rightarrow> tree_table \<Rightarrow> vtree_node \<Rightarrow> 's walk_fn \<Rightarrow> 's \<Rightarrow> (unit result \<times> 's) option" where
  "Walk repo st curNode f s = walk_loop repo st f [(curNode, [])] s"

record tree_manifest =
  tm_size :: int
  tm_files :: "string list"

text \<open>\<open>compile\<close> is \<open>glob.Compile\<close> of the package gobwas/glob: an error, or the match predicate.\<close>

definition manifest_fn :: "(string \<Rightarrow> bool) \<Rightarrow> tree_manifest walk_fn" where
  "manifest_fn g entry blob path m =
     (if te_is_dir entry then (Inr (), m)
      else if g path then
        (Inr (), m\<lparr>tm_size := tm_size m + bl_size (the blob), tm_files := tm_files m @ [path]\<rparr>)
      else (Inr (), m))"

definition GetTreeManifest ::
  "(string \<Rightarrow> (string \<Rightarrow> bool) result) \<Rightarrow> uuid \<Rightarrow> string \<Rightarrow> work_state \<Rightarrow> (unit result \<times> tree_manifest) option"
where
  "GetTreeManifest compile repo pattern w =
     (case compile (CleanPath pattern) of
        Inl e \<Rightarrow> Some (Inl e, \<lparr>tm_size = 0, tm_files = []\<rparr>)
      | Inr g \<Rightarrow> Walk repo (ws_objs w) (ws_root w) (manifest_fn g) \<lparr>tm_size = 0, tm_files = []\<rparr>)"

subsection \<open>ApplyOneChange\<close>

definition ApplyOneChange ::
  "env \<Rightarrow> uuid \<Rightarrow> vtree_node change \<Rightarrow> work_state \<Rightarrow> unit result \<times> work_state" where
  "ApplyOneChange E repo c w =
     (let N = tree_ops repo (ws_objs w) in
      case change_Action c of
        Inl e \<Rightarrow> (Inl e, w)
      | Inr Insert \<Rightarrow>
          (case FileTreeRepo_Blob repo (path_Hash N (the (ch_To c))) (ws_objs w) of
             Inl e \<Rightarrow> (Inl e, w)
           | Inr blob \<Rightarrow> AddLeaf E repo (opt_String N (ch_To c)) blob w)
      | Inr Delete \<Rightarrow> RemoveEntry E repo (opt_String N (ch_From c)) w
      | Inr Modify \<Rightarrow>
          (case FileTreeRepo_Blob repo (path_Hash N (the (ch_To c))) (ws_objs w) of
             Inl e \<Rightarrow> (Inl e, w)
           | Inr blob \<Rightarrow> ReplaceLeaf E repo (opt_String N (ch_To c)) blob w))"

end
