(* ===== verification/Changes.thy ===== *)
theory Changes
  imports Work_Tree
begin

section \<open>Change sets and their merge: versionmgr/changes.go, conflict.go, WorkTree.Diff\<close>

text \<open>
  A \<open>Changes\<close> is a list of changes sorted by path with a cursor that starts at -1. The pair
  iterator steps two cursors in path order and puts back the change of the larger path; the
  merge iterator turns a pair into one change, asking a resolver when the two sides conflict.
  The interface \<open>IChange\<close> is the record \<open>change\<close>; the noder operations \<open>N\<close> give a path its text.
  The lemmas show that the two cursors perform a merge of two sorted lists that ends.
\<close>

subsection \<open>Changes\<close>

record 'n changes =
  chs_changes :: "'n change list"
  chs_idx :: int

text \<open>
  \<open>sort.Slice\<close> leaves the order of changes with equal paths open; the model sorts stably. The
  theorems on merges are about lists of changes with distinct paths, which have one sorted order.
\<close>

definition NewChanges :: "'n noder_ops \<Rightarrow> 'n change list \<Rightarrow> 'n changes" where
  "NewChanges N cs = \<lparr>chs_changes = sort_key (change_Path N) cs, chs_idx = -1\<rparr>"

definition changes_Num :: "'n changes \<Rightarrow> nat" where
  "changes_Num c = length (chs_changes c)"

definition changes_Index :: "'n changes \<Rightarrow> int \<Rightarrow> 'n change result" where
  "changes_Index c idx =
     (if 0 \<le> idx \<and> idx < int (length (chs_changes c)) then Inr (chs_changes c ! nat idx)
      else Inl (Panic ''index out of range''))"

definition changes_Has :: "'n changes \<Rightarrow> bool" where
  "changes_Has c \<longleftrightarrow> chs_idx c < int (length (chs_changes c)) - 1"

definition changes_Next :: "'n changes \<Rightarrow> 'n change result \<times> 'n changes" where
  "changes_Next c =
     (if chs_idx c < int (length (chs_changes c)) - 1
      then (let i = chs_idx c + 1 in (Inr (chs_changes c ! nat i), c\<lparr>chs_idx := i\<rparr>))
      else (Inl EOF, c))"

definition changes_Back :: "'n changes \<Rightarrow> 'n changes" where
  "changes_Back c = (if chs_idx c > -1 then c\<lparr>chs_idx := chs_idx c - 1\<rparr> else c)"

definition changes_Reset :: "'n changes \<Rightarrow> 'n changes" where
  "changes_Reset c = c\<lparr>chs_idx := -1\<rparr>"

fun for_each_change :: "('n change \<Rightarrow> 's \<Rightarrow> unit result \<times> 's) \<Rightarrow> 'n change list \<Rightarrow> 's \<Rightarrow> unit result \<times> 's"
where
  "for_each_change f [] s = (Inr (), s)"
| "for_each_change f (c # cs) s =
     (case f c s of
        (Inr _, s') \<Rightarrow> for_each_change f cs s'
      | (Inl e, s') \<Rightarrow> if e = ErrStop then (Inr (), s') else (Inl e, s'))"

definition changes_ForEach ::
  "('n change \<Rightarrow> 's \<Rightarrow> unit result \<times> 's) \<Rightarrow> 'n changes \<Rightarrow> 's \<Rightarrow> unit result \<times> 's" where
  "changes_ForEach f c s = for_each_change f (chs_changes c) s"

subsection \<open>Pairs\<close>

record 'n change_pair =
  cp_left :: "'n change option"
  cp_right :: "'n change option"
  cp_conflict :: bool

definition pair_Path :: "'n noder_ops \<Rightarrow> 'n change_pair \<Rightarrow> string" where
  "pair_Path N p = (case cp_left p of Some l \<Rightarrow> change_Path N l | None \<Rightarrow> change_Path N (the (cp_right p)))"

definition to_hash :: "'n noder_ops \<Rightarrow> 'n change \<Rightarrow> hash" where
  "to_hash N c = path_Hash N (the (ch_To c))"

definition isConflict :: "'n noder_ops \<Rightarrow> 'n change \<Rightarrow> 'n change \<Rightarrow> bool result" where
  "isConflict N left right =
     (case change_Action left of Inl e \<Rightarrow> Inl e
      | Inr leftAction \<Rightarrow> (case change_Action right of Inl e \<Rightarrow> Inl e
      | Inr rightAction \<Rightarrow>
          (case leftAction of
             Insert \<Rightarrow> (case rightAction of
                 Delete \<Rightarrow> Inl ErrActionNotMatch
               | Modify \<Rightarrow> Inl ErrActionNotMatch
               | Insert \<Rightarrow> if to_hash N left = to_hash N right then Inr False else Inr True)
           | Delete \<Rightarrow> (case rightAction of
                 Delete \<Rightarrow> Inr False
               | Insert \<Rightarrow> Inl ErrActionNotMatch
               | Modify \<Rightarrow> Inr True)
           | Modify \<Rightarrow> (case rightAction of
                 Insert \<Rightarrow> Inl ErrActionNotMatch
               | Delete \<Rightarrow> Inr True
               | Modify \<Rightarrow> if to_hash N left = to_hash N right then Inr False else Inr True))))"

record 'n pair_iter =
  pi_left :: "'n changes"
  pi_right :: "'n changes"

definition NewChangesPairIter :: "'n changes \<Rightarrow> 'n changes \<Rightarrow> 'n pair_iter" where
  "NewChangesPairIter l r = \<lparr>pi_left = l, pi_right = r\<rparr>"

definition pair_Has :: "'n pair_iter \<Rightarrow> bool" where
  "pair_Has p \<longleftrightarrow> changes_Has (pi_left p) \<or> changes_Has (pi_right p)"

definition pair_Reset :: "'n pair_iter \<Rightarrow> 'n pair_iter" where
  "pair_Reset p = \<lparr>pi_left = changes_Reset (pi_left p), pi_right = changes_Reset (pi_right p)\<rparr>"

definition pair_Next :: "'n noder_ops \<Rightarrow> 'n pair_iter \<Rightarrow> 'n change_pair result \<times> 'n pair_iter" where
  "pair_Next N p =
     (case changes_Next (pi_left p) of (leftNode, l) \<Rightarrow>
      (case changes_Next (pi_right p) of (rightNode, r) \<Rightarrow>
       (case (leftNode, rightNode) of
          (Inl _, Inl _) \<Rightarrow> (Inl EOF, \<lparr>pi_left = l, pi_right = r\<rparr>)
        | (Inl _, Inr b) \<Rightarrow>
            (Inr \<lparr>cp_left = None, cp_right = Some b, cp_conflict = False\<rparr>, \<lparr>pi_left = l, pi_right = r\<rparr>)
        | (Inr a, Inl _) \<Rightarrow>
            (Inr \<lparr>cp_left = Some a, cp_right = None, cp_conflict = False\<rparr>, \<lparr>pi_left = l, pi_right = r\<rparr>)
        | (Inr a, Inr b) \<Rightarrow>
            (let compare = str_compare (change_Path N a) (change_Path N b) in
             if compare > 0 then
               (Inr \<lparr>cp_left = None, cp_right = Some b, cp_conflict = False\<rparr>,
                \<lparr>pi_left = changes_Back l, pi_right = r\<rparr>)
             else if compare = 0 then
               (case isConflict N a b of
                  Inl e \<Rightarrow> (Inl e, \<lparr>pi_left = l, pi_right = r\<rparr>)
                | Inr isConfl \<Rightarrow>
                    (Inr \<lparr>cp_left = Some a, cp_right = Some b, cp_conflict = isConfl\<rparr>,
                     \<lparr>pi_left = l, pi_right = r\<rparr>))
             else
               (Inr \<lparr>cp_left = Some a, cp_right = None, cp_conflict = False\<rparr>,
                \<lparr>pi_left = l, pi_right = changes_Back r\<rparr>)))))"

subsection \<open>Merging\<close>

type_synonym 'n resolver = "'n change \<Rightarrow> 'n change \<Rightarrow> 'n change result"

record 'n merge_iter =
  mi_pairs :: "'n pair_iter"
  mi_resolver :: "'n resolver option"

definition NewChangesMergeIter :: "'n changes \<Rightarrow> 'n changes \<Rightarrow> 'n resolver option \<Rightarrow> 'n merge_iter" where
  "NewChangesMergeIter l r res = \<lparr>mi_pairs = NewChangesPairIter l r, mi_resolver = res\<rparr>"

definition merge_Has :: "'n merge_iter \<Rightarrow> bool" where
  "merge_Has m \<longleftrightarrow> pair_Has (mi_pairs m)"

definition merge_Reset :: "'n merge_iter \<Rightarrow> 'n merge_iter" where
  "merge_Reset m = m\<lparr>mi_pairs := pair_Reset (mi_pairs m)\<rparr>"

definition resolveConflict :: "'n resolver option \<Rightarrow> 'n change \<Rightarrow> 'n change \<Rightarrow> 'n change result" where
  "resolveConflict resolver left right =
     (case resolver of Some r \<Rightarrow> r left right | None \<Rightarrow> Inl ErrConflict)"

definition merge_Next :: "'n noder_ops \<Rightarrow> 'n merge_iter \<Rightarrow> 'n change result \<times> 'n merge_iter" where
  "merge_Next N m =
     (case pair_Next N (mi_pairs m) of
        (Inl e, p) \<Rightarrow> (Inl e, m\<lparr>mi_pairs := p\<rparr>)
      | (Inr pair, p) \<Rightarrow>
          ((if cp_conflict pair
            then resolveConflict (mi_resolver m) (the (cp_left pair)) (the (cp_right pair))
            else (case cp_left pair of Some l \<Rightarrow> Inr l | None \<Rightarrow> Inr (the (cp_right pair)))),
           m\<lparr>mi_pairs := p\<rparr>))"

subsection \<open>Resolvers\<close>

definition LeastHashResolve :: "'n noder_ops \<Rightarrow> 'n resolver" where
  "LeastHashResolve N left right =
     (case change_Action left of Inl e \<Rightarrow> Inl e
      | Inr leftAction \<Rightarrow> (case change_Action right of Inl e \<Rightarrow> Inl e
      | Inr rightAction \<Rightarrow>
          if leftAction = Delete then Inr right
          else if rightAction = Delete then Inr left
          else if str_compare (to_hash N left) (to_hash N right) < 0 then Inr left
          else Inr right))"

definition ForbidResolver :: "'n resolver" where
  "ForbidResolver left right = Inl (ErrMsg ''not allow conflict in this mode'')"

definition OneSideResolver :: "bool \<Rightarrow> 'n resolver" where
  "OneSideResolver useLeft left right = (if useLeft then Inr left else Inr right)"

definition ResolveFromSelector :: "'n noder_ops \<Rightarrow> (string \<Rightarrow> string option) \<Rightarrow> 'n resolver" where
  "ResolveFromSelector N resolveMsg left right =
     (if resolveMsg (change_Path N left) = Some ''left'' then Inr left else Inr right)"

subsection \<open>WorkTree.Diff\<close>

definition wt_Diff ::
  "(nat \<Rightarrow> bool) \<Rightarrow> uuid \<Rightarrow> hash \<Rightarrow> string \<Rightarrow> work_state \<Rightarrow> vtree_node changes result option" where
  "wt_Diff ctx repo rootTreeHash pre w =
     (let N = tree_ops repo (ws_objs w) in
      case NewTreeNode repo (ws_objs w) (NewRootTreeEntry rootTreeHash) of
        Inl e \<Rightarrow> Some (Inl e)
      | Inr toNode \<Rightarrow>
          (case DiffTreeContext N ctx (ws_root w) toNode of
             None \<Rightarrow> None
           | Some (Inl e) \<Rightarrow> Some (Inl e)
           | Some (Inr cs) \<Rightarrow>
               Some (Inr (NewChanges N
                 (filter (\<lambda>c. has_prefix (change_Path N c) (CleanPath pre)) cs)))))"

subsection \<open>The cursor as the list of what is left\<close>

definition rest :: "'n changes \<Rightarrow> 'n change list" where
  "rest c = drop (nat (chs_idx c + 1)) (chs_changes c)"

definition cursor_ok :: "'n changes \<Rightarrow> bool" where
  "cursor_ok c \<longleftrightarrow> -1 \<le> chs_idx c \<and> chs_idx c < int (length (chs_changes c))"

lemma NewChanges_rest [simp]:
  "rest (NewChanges N cs) = sort_key (change_Path N) cs" "cursor_ok (NewChanges N cs)"
  by (simp_all add: rest_def NewChanges_def cursor_ok_def)

lemma changes_Has_rest: "cursor_ok c \<Longrightarrow> changes_Has c \<longleftrightarrow> rest c \<noteq> []"
  by (auto simp: changes_Has_def rest_def cursor_ok_def)

lemma changes_Next_rest:
  assumes "cursor_ok c"
  shows "rest c = [] \<Longrightarrow> changes_Next c = (Inl EOF, c)"
    "rest c = x # xs \<Longrightarrow> \<exists>c'. changes_Next c = (Inr x, c') \<and> rest c' = xs \<and> cursor_ok c' \<and> changes_Back c' = c"
proof -
  show "rest c = [] \<Longrightarrow> changes_Next c = (Inl EOF, c)"
    using assms by (auto simp: rest_def cursor_ok_def changes_Next_def)
  assume r: "rest c = x # xs"
  then have lt: "nat (chs_idx c + 1) < length (chs_changes c)"
    by (cases "nat (chs_idx c + 1) < length (chs_changes c)") (auto simp: rest_def)
  have "chs_changes c ! nat (chs_idx c + 1) = x" "drop (Suc (nat (chs_idx c + 1))) (chs_changes c) = xs"
    using Cons_nth_drop_Suc [OF lt] r by (simp_all add: rest_def)
  moreover have "Suc (nat (chs_idx c + 1)) = nat (chs_idx c + 1 + 1)"
    using assms unfolding cursor_ok_def by linarith
  moreover have bounds: "-1 \<le> chs_idx c" "chs_idx c < int (length (chs_changes c)) - 1"
    using assms lt by (simp_all add: cursor_ok_def)
  ultimately have "changes_Next c = (Inr x, c\<lparr>chs_idx := chs_idx c + 1\<rparr>)"
    "rest (c\<lparr>chs_idx := chs_idx c + 1\<rparr>) = xs"
    by (simp_all add: changes_Next_def rest_def)
  moreover have "cursor_ok (c\<lparr>chs_idx := chs_idx c + 1\<rparr>)" "changes_Back (c\<lparr>chs_idx := chs_idx c + 1\<rparr>) = c"
    using bounds by (simp_all add: cursor_ok_def changes_Back_def)
  ultimately show "\<exists>c'. changes_Next c = (Inr x, c') \<and> rest c' = xs \<and> cursor_ok c' \<and> changes_Back c' = c"
    by blast
qed


subsection \<open>The merge loop\<close>

text \<open>
  \<open>for cmw.Has() { change, err := cmw.Next(); ...; err = apply(change) }\<close> of work_repo.go, and the
  same loop over pairs. Neither has a bound in the source.
\<close>

partial_function (option) merge_loop ::
  "'n noder_ops \<Rightarrow> ('n change \<Rightarrow> 's \<Rightarrow> unit result \<times> 's) \<Rightarrow> 'n merge_iter \<Rightarrow> 's \<Rightarrow> (unit result \<times> 's) option"
where
  "merge_loop N f m s =
     (if \<not> merge_Has m then Some (Inr (), s)
      else (case merge_Next N m of (res, m') \<Rightarrow>
        (case res of
           Inl e \<Rightarrow> Some (Inl e, s)
         | Inr c \<Rightarrow> (case f c s of (res', s') \<Rightarrow>
             (case res' of Inl e \<Rightarrow> Some (Inl e, s') | Inr _ \<Rightarrow> merge_loop N f m' s')))))"

partial_function (option) pair_loop ::
  "'n noder_ops \<Rightarrow> 'n pair_iter \<Rightarrow> 'n change_pair list \<Rightarrow> 'n change_pair list result option"
where
  "pair_loop N p acc =
     (if \<not> pair_Has p then Some (Inr acc)
      else (case pair_Next N p of (res, p') \<Rightarrow>
        (case res of
           Inl e \<Rightarrow> Some (Inl e)
         | Inr x \<Rightarrow> pair_loop N p' (acc @ [x]))))"

text \<open>The merge of two lists in path order; an error ends it where it occurs.\<close>

definition joint_change :: "'n noder_ops \<Rightarrow> 'n resolver option \<Rightarrow> 'n change \<Rightarrow> 'n change \<Rightarrow> 'n change result" where
  "joint_change N res l r =
     (case isConflict N l r of
        Inl e \<Rightarrow> Inl e
      | Inr c \<Rightarrow> if c then resolveConflict res l r else Inr l)"

fun merge_stream ::
  "'n noder_ops \<Rightarrow> 'n resolver option \<Rightarrow> 'n change list \<Rightarrow> 'n change list \<Rightarrow> 'n change result list"
where
  "merge_stream N res [] rs = map Inr rs"
| "merge_stream N res (l # ls) [] = map Inr (l # ls)"
| "merge_stream N res (l # ls) (r # rs) =
     (if change_Path N l > change_Path N r then Inr r # merge_stream N res (l # ls) rs
      else if change_Path N l = change_Path N r then joint_change N res l r # merge_stream N res ls rs
      else Inr l # merge_stream N res ls (r # rs))"

fun run_stream :: "('n change \<Rightarrow> 's \<Rightarrow> unit result \<times> 's) \<Rightarrow> 'n change result list \<Rightarrow> 's \<Rightarrow> unit result \<times> 's" where
  "run_stream f [] s = (Inr (), s)"
| "run_stream f (Inl e # xs) s = (Inl e, s)"
| "run_stream f (Inr c # xs) s =
     (case f c s of (Inl e, s') \<Rightarrow> (Inl e, s') | (Inr _, s') \<Rightarrow> run_stream f xs s')"

definition pair_ok :: "'n pair_iter \<Rightarrow> bool" where
  "pair_ok p \<longleftrightarrow> cursor_ok (pi_left p) \<and> cursor_ok (pi_right p)"

lemma pair_Has_rest: "pair_ok p \<Longrightarrow> pair_Has p \<longleftrightarrow> rest (pi_left p) \<noteq> [] \<or> rest (pi_right p) \<noteq> []"
  by (simp add: pair_ok_def pair_Has_def changes_Has_rest)

lemma merge_Next_rest:
  assumes "pair_ok (mi_pairs m)" "merge_Has m"
  shows "\<exists>res m'. merge_Next N m = (res, m') \<and> mi_resolver m' = mi_resolver m \<and> pair_ok (mi_pairs m') \<and>
    length (rest (pi_left (mi_pairs m'))) + length (rest (pi_right (mi_pairs m'))) <
      length (rest (pi_left (mi_pairs m))) + length (rest (pi_right (mi_pairs m))) \<and>
    merge_stream N (mi_resolver m) (rest (pi_left (mi_pairs m))) (rest (pi_right (mi_pairs m))) =
      res # merge_stream N (mi_resolver m) (rest (pi_left (mi_pairs m'))) (rest (pi_right (mi_pairs m')))"
proof -
  let ?l = "pi_left (mi_pairs m)" and ?r = "pi_right (mi_pairs m)"
  have ok: "cursor_ok ?l" "cursor_ok ?r" using assms(1) by (simp_all add: pair_ok_def)
  note nl = changes_Next_rest [OF ok(1)] and nr = changes_Next_rest [OF ok(2)]
  have some: "rest ?l \<noteq> [] \<or> rest ?r \<noteq> []"
    using assms by (simp add: merge_Has_def pair_Has_rest)
  show ?thesis
  proof (cases "rest ?l")
    case Nil
    then obtain b bs where b: "rest ?r = b # bs" using some by (cases "rest ?r") auto
    then obtain r' where r': "changes_Next ?r = (Inr b, r')" "rest r' = bs" "cursor_ok r'"
      using nr(2) by blast
    show ?thesis
      using nl(1) [OF Nil] r' Nil b ok by (simp add: merge_Next_def pair_Next_def pair_ok_def)
  next
    case (Cons a as)
    then obtain l' where l': "changes_Next ?l = (Inr a, l')" "rest l' = as" "cursor_ok l'" "changes_Back l' = ?l"
      using nl(2) by blast
    show ?thesis
    proof (cases "rest ?r")
      case Nil
      then show ?thesis
        using nr(1) [OF Nil] l' Cons ok
        by (cases as) (simp_all add: merge_Next_def pair_Next_def pair_ok_def)
    next
      case r: (Cons b bs)
      then obtain r' where r': "changes_Next ?r = (Inr b, r')" "rest r' = bs" "cursor_ok r'" "changes_Back r' = ?r"
        using nr(2) by blast
      consider "change_Path N b < change_Path N a" | "change_Path N a = change_Path N b"
        | "change_Path N a < change_Path N b" by fastforce
      then show ?thesis
      proof cases
        case 1
        then show ?thesis using l' r' Cons r ok
          by (simp add: merge_Next_def pair_Next_def pair_ok_def Let_def)
      next
        case 2
        show ?thesis
        proof (cases "isConflict N a b")
          case (Inl e)
          with 2 show ?thesis using l' r' Cons r ok
            by (simp add: merge_Next_def pair_Next_def pair_ok_def Let_def joint_change_def)
        next
          case (Inr c)
          with 2 show ?thesis using l' r' Cons r ok
            by (simp add: merge_Next_def pair_Next_def pair_ok_def Let_def joint_change_def)
        qed
      next
        case 3
        then have "\<not> change_Path N b < change_Path N a" "change_Path N a \<noteq> change_Path N b" by auto
        with 3 show ?thesis using l' r' Cons r ok
          by (simp add: merge_Next_def pair_Next_def pair_ok_def Let_def)
      qed
    qed
  qed
qed

lemma merge_loop_stream:
  "pair_ok (mi_pairs m) \<Longrightarrow> merge_loop N f m s =
    Some (run_stream f (merge_stream N (mi_resolver m) (rest (pi_left (mi_pairs m)))
      (rest (pi_right (mi_pairs m)))) s)"
proof (induction "length (rest (pi_left (mi_pairs m))) + length (rest (pi_right (mi_pairs m)))"
    arbitrary: m s rule: less_induct)
  case less
  show ?case
  proof (cases "merge_Has m")
    case False
    then have "rest (pi_left (mi_pairs m)) = []" "rest (pi_right (mi_pairs m)) = []"
      using less.prems by (simp_all add: merge_Has_def pair_Has_rest)
    with False show ?thesis by (simp add: merge_loop.simps)
  next
    case True
    obtain res m' where m': "merge_Next N m = (res, m')" "mi_resolver m' = mi_resolver m" "pair_ok (mi_pairs m')"
      "length (rest (pi_left (mi_pairs m'))) + length (rest (pi_right (mi_pairs m'))) <
        length (rest (pi_left (mi_pairs m))) + length (rest (pi_right (mi_pairs m)))"
      "merge_stream N (mi_resolver m) (rest (pi_left (mi_pairs m))) (rest (pi_right (mi_pairs m))) =
        res # merge_stream N (mi_resolver m) (rest (pi_left (mi_pairs m'))) (rest (pi_right (mi_pairs m')))"
      using merge_Next_rest [OF less.prems True] by blast
    have IH: "merge_loop N f m' s' = Some (run_stream f (merge_stream N (mi_resolver m)
        (rest (pi_left (mi_pairs m'))) (rest (pi_right (mi_pairs m')))) s')" for s'
      using less.hyps [OF m'(4,3)] m'(2) by simp
    show ?thesis
    proof (cases res)
      case (Inl e)
      then show ?thesis using True m'(1,5) by (simp add: merge_loop.simps)
    next
      case (Inr c)
      then show ?thesis using True m'(1,5) IH
        by (subst merge_loop.simps) (simp split: prod.split sum.split)
    qed
  qed
qed

lemma NewChangesMergeIter_ok [simp]:
  "pair_ok (mi_pairs (NewChangesMergeIter (NewChanges N cs) (NewChanges N ds) res))"
  "mi_resolver (NewChangesMergeIter l r res) = res"
  "pi_left (mi_pairs (NewChangesMergeIter l r res)) = l"
  "pi_right (mi_pairs (NewChangesMergeIter l r res)) = r"
  by (simp_all add: NewChangesMergeIter_def NewChangesPairIter_def pair_ok_def)

end
