(* ===== verification/Commit_Walk.thy ===== *)
theory Commit_Walk
  imports Commit_Graph
begin

section \<open>Walks over the commit history\<close>

text \<open>
  The walks of versionmgr/commit_walker.go (pre-order and post-order), commit_walker_bfs.go,
  commit_walker_ctime.go and commit_walker_bfs_filtered.go. Each \<open>Next\<close> is the loop of the
  source on the walk's own state: the hashes seen, keyed by their text form, and a stack, queue
  or heap of commits. A Go slice used as a stack is a list with its top first. The locale
  \<open>commit_iter\<close> is what \<open>ForEach\<close> relies on; its lemma says that a walk visits every commit
  still to come exactly once. Each walk is an interpretation of it.
\<close>

subsection \<open>Pre-order\<close>

record pre_iter =
  pr_ext :: "string set"
  pr_seen :: "string set"
  pr_stack :: "array_iter list"
  pr_start :: "commit option"

definition NewCommitPreorderIter :: "commit_store \<Rightarrow> commit \<Rightarrow> string set \<Rightarrow> hash list \<Rightarrow> pre_iter" where
  "NewCommitPreorderIter S c seenExternal ignore =
     \<lparr>pr_ext = seenExternal, pr_seen = set (map (cs_Hex S) ignore), pr_stack = [], pr_start = Some c\<rparr>"

definition filteredParentIter :: "commit_store \<Rightarrow> commit \<Rightarrow> string set \<Rightarrow> array_iter result" where
  "filteredParentIter S c seen =
     (case GetCommits S (filter (\<lambda>h. cs_Hex S h \<notin> seen) (cm_parents c)) of
        Inl e \<Rightarrow> Inl e
      | Inr commits \<Rightarrow> Inr (newArrayCommitIter commits))"

definition pre_accept :: "commit_store \<Rightarrow> commit \<Rightarrow> pre_iter \<Rightarrow> commit result \<times> pre_iter" where
  "pre_accept S c w =
     (let w' = w\<lparr>pr_seen := insert (hex_of S c) (pr_seen w)\<rparr> in
      if NumParents c > 0 then
        (case filteredParentIter S c (pr_seen w') of
           Inl e \<Rightarrow> (Inl e, w')
         | Inr commitIter \<Rightarrow> (Inr c, w'\<lparr>pr_stack := commitIter # pr_stack w'\<rparr>))
      else (Inr c, w'))"

definition array_left :: "array_iter \<Rightarrow> nat" where
  "array_left a = nat (int (length (ai_commits a)) - 1 - ai_idx a)"

lemma array_left_Next: "array_Next a = (Inr c, a') \<Longrightarrow> array_left a' < array_left a"
  by (auto simp: array_Next_def Let_def array_left_def split: if_splits)

function pre_Next :: "commit_store \<Rightarrow> pre_iter \<Rightarrow> commit result \<times> pre_iter" where
  "pre_Next S w =
     (case pr_start w of
        Some c \<Rightarrow>
          (let w' = w\<lparr>pr_start := None\<rparr> in
           if hex_of S c \<in> pr_seen w' \<or> hex_of S c \<in> pr_ext w' then pre_Next S w'
           else pre_accept S c w')
      | None \<Rightarrow>
          (case pr_stack w of
             [] \<Rightarrow> (Inl EOF, w)
           | cur # below \<Rightarrow>
               (case array_Next cur of
                  (Inl e, cur') \<Rightarrow>
                    if e = EOF then pre_Next S (w\<lparr>pr_stack := below\<rparr>)
                    else (Inl e, w\<lparr>pr_stack := cur' # below\<rparr>)
                | (Inr c, cur') \<Rightarrow>
                    (let w' = w\<lparr>pr_stack := cur' # below\<rparr> in
                     if hex_of S c \<in> pr_seen w' \<or> hex_of S c \<in> pr_ext w' then pre_Next S w'
                     else pre_accept S c w'))))"
  by pat_completeness auto
termination
  by (relation "measure (\<lambda>(S, w). (if pr_start w = None then 0 else 1) +
      sum_list (map (\<lambda>a. Suc (array_left a)) (pr_stack w)))")
    (auto dest: array_left_Next [OF sym])

declare pre_Next.simps [simp del]

definition pre_ForEach :: "commit_store \<Rightarrow> 's visit \<Rightarrow> pre_iter \<Rightarrow> 's \<Rightarrow> (unit result \<times> 's) option" where
  "pre_ForEach S = iter_ForEach (\<lambda>_ w. Some (pre_Next S w))"

subsection \<open>Post-order\<close>

record post_iter =
  po_stack :: "commit list"
  po_seen :: "string set"

definition NewCommitPostorderIter :: "commit_store \<Rightarrow> commit \<Rightarrow> hash list \<Rightarrow> post_iter" where
  "NewCommitPostorderIter S c ignore = \<lparr>po_stack = [c], po_seen = set (map (cs_Hex S) ignore)\<rparr>"

function post_Next :: "commit_store \<Rightarrow> post_iter \<Rightarrow> commit result \<times> post_iter" where
  "post_Next S w =
     (case po_stack w of
        [] \<Rightarrow> (Inl EOF, w)
      | c # below \<Rightarrow>
          (let w1 = w\<lparr>po_stack := below\<rparr> in
           if hex_of S c \<in> po_seen w1 then post_Next S w1
           else
             (let w2 = w1\<lparr>po_seen := insert (hex_of S c) (po_seen w1)\<rparr> in
              case Parents S c of
                Inl e \<Rightarrow> (Inl e, w2)
              | Inr parentCommits \<Rightarrow>
                  (case array_ForEach (newArrayCommitIter parentCommits)
                      (\<lambda>p stack. (Inr (), p # stack)) (po_stack w2) of
                     (Inl e, stack) \<Rightarrow> (Inl e, w2\<lparr>po_stack := stack\<rparr>)
                   | (Inr _, stack) \<Rightarrow> (Inr c, w2\<lparr>po_stack := stack\<rparr>)))))"
  by pat_completeness auto
termination
  by (relation "measure (\<lambda>(S, w). length (po_stack w))") auto

declare post_Next.simps [simp del]

definition post_ForEach :: "commit_store \<Rightarrow> 's visit \<Rightarrow> post_iter \<Rightarrow> 's \<Rightarrow> (unit result \<times> 's) option" where
  "post_ForEach S = iter_ForEach (\<lambda>_ w. Some (post_Next S w))"

subsection \<open>Breadth first\<close>

record bfs_iter =
  bf_ext :: "string set"
  bf_seen :: "string set"
  bf_queue :: "commit list"

definition NewCommitIterBSF :: "commit_store \<Rightarrow> commit \<Rightarrow> string set \<Rightarrow> hash list \<Rightarrow> bfs_iter" where
  "NewCommitIterBSF S c seenExternal ignore =
     \<lparr>bf_ext = seenExternal, bf_seen = set (map (cs_Hex S) ignore), bf_queue = [c]\<rparr>"

definition appendHash :: "commit_store \<Rightarrow> hash \<Rightarrow> bfs_iter \<Rightarrow> unit result \<times> bfs_iter" where
  "appendHash S h w =
     (if cs_Hex S h \<in> bf_seen w \<or> cs_Hex S h \<in> bf_ext w then (Inr (), w)
      else (case GetCommit S h of
              Inl e \<Rightarrow> (Inl e, w)
            | Inr c \<Rightarrow> (Inr (), w\<lparr>bf_queue := bf_queue w @ [c]\<rparr>)))"

fun append_hashes :: "commit_store \<Rightarrow> hash list \<Rightarrow> bfs_iter \<Rightarrow> unit result \<times> bfs_iter" where
  "append_hashes S [] w = (Inr (), w)"
| "append_hashes S (h # hs) w =
     (case appendHash S h w of (Inl e, w') \<Rightarrow> (Inl e, w') | (Inr _, w') \<Rightarrow> append_hashes S hs w')"

function bfs_Next :: "commit_store \<Rightarrow> bfs_iter \<Rightarrow> commit result \<times> bfs_iter" where
  "bfs_Next S w =
     (case bf_queue w of
        [] \<Rightarrow> (Inl EOF, w)
      | c # queue \<Rightarrow>
          (let w1 = w\<lparr>bf_queue := queue\<rparr> in
           if hex_of S c \<in> bf_seen w1 \<or> hex_of S c \<in> bf_ext w1 then bfs_Next S w1
           else
             (case append_hashes S (cm_parents c) (w1\<lparr>bf_seen := insert (hex_of S c) (bf_seen w1)\<rparr>) of
                (Inl e, w2) \<Rightarrow> (Inl e, w2)
              | (Inr _, w2) \<Rightarrow> (Inr c, w2))))"
  by pat_completeness auto
termination
  by (relation "measure (\<lambda>(S, w). length (bf_queue w))") auto

declare bfs_Next.simps [simp del]

definition bfs_ForEach :: "commit_store \<Rightarrow> 's visit \<Rightarrow> bfs_iter \<Rightarrow> 's \<Rightarrow> (unit result \<times> 's) option" where
  "bfs_ForEach S = iter_ForEach (\<lambda>_ w. Some (bfs_Next S w))"

subsection \<open>By committer time\<close>

text \<open>
  The heap is the package emirpasic/gods: \<open>binaryheap.NewWith(compare)\<close> is the argument \<open>H\<close>.
  \<open>heap_laws\<close> says what its \<open>Push\<close> and \<open>Pop\<close> do: \<open>Pop\<close> removes an element that the
  comparator puts before or level with every other one.
\<close>

record 'h heap_ops =
  hp_empty :: 'h
  hp_Push :: "commit \<Rightarrow> 'h \<Rightarrow> 'h"
  hp_Pop :: "'h \<Rightarrow> (commit \<times> 'h) option"

definition ctime_compare :: "commit \<Rightarrow> commit \<Rightarrow> int" where
  "ctime_compare a b = (if sig_when (cm_committer a) < sig_when (cm_committer b) then 1 else -1)"

definition heap_laws :: "(commit \<Rightarrow> commit \<Rightarrow> int) \<Rightarrow> 'h heap_ops \<Rightarrow> ('h \<Rightarrow> commit multiset) \<Rightarrow> bool" where
  "heap_laws cmp H elems \<longleftrightarrow>
     elems (hp_empty H) = {#} \<and>
     (\<forall>c h. elems (hp_Push H c h) = add_mset c (elems h)) \<and>
     (\<forall>h. hp_Pop H h = None \<longleftrightarrow> elems h = {#}) \<and>
     (\<forall>h c h'. hp_Pop H h = Some (c, h') \<longrightarrow>
        elems h = add_mset c (elems h') \<and> (\<forall>d \<in># elems h'. cmp c d \<le> 0))"

record 'h ctime_iter =
  ct_ext :: "string set"
  ct_seen :: "string set"
  ct_heap :: 'h

definition NewCommitIterCTime ::
  "commit_store \<Rightarrow> 'h heap_ops \<Rightarrow> commit \<Rightarrow> string set \<Rightarrow> hash list \<Rightarrow> 'h ctime_iter" where
  "NewCommitIterCTime S H c seenExternal ignore =
     \<lparr>ct_ext = seenExternal, ct_seen = set (map (cs_Hex S) ignore), ct_heap = hp_Push H c (hp_empty H)\<rparr>"

fun push_parents :: "commit_store \<Rightarrow> 'h heap_ops \<Rightarrow> hash list \<Rightarrow> 'h ctime_iter \<Rightarrow> unit result \<times> 'h ctime_iter" where
  "push_parents S H [] w = (Inr (), w)"
| "push_parents S H (h # hs) w =
     (if cs_Hex S h \<in> ct_seen w \<or> cs_Hex S h \<in> ct_ext w then push_parents S H hs w
      else (case GetCommit S h of
              Inl e \<Rightarrow> (Inl e, w)
            | Inr pc \<Rightarrow> push_parents S H hs (w\<lparr>ct_heap := hp_Push H pc (ct_heap w)\<rparr>)))"

partial_function (option) ctime_Next ::
  "commit_store \<Rightarrow> 'h heap_ops \<Rightarrow> 'h ctime_iter \<Rightarrow> (commit result \<times> 'h ctime_iter) option"
where
  "ctime_Next S H w =
     (case hp_Pop H (ct_heap w) of
        None \<Rightarrow> Some (Inl EOF, w)
      | Some (c, heap) \<Rightarrow>
          (let w1 = w\<lparr>ct_heap := heap\<rparr> in
           if hex_of S c \<in> ct_seen w1 \<or> hex_of S c \<in> ct_ext w1 then ctime_Next S H w1
           else
             (case push_parents S H (cm_parents c) (w1\<lparr>ct_seen := insert (hex_of S c) (ct_seen w1)\<rparr>) of
                (Inl e, w2) \<Rightarrow> Some (Inl e, w2)
              | (Inr _, w2) \<Rightarrow> Some (Inr c, w2))))"

definition ctime_ForEach ::
  "commit_store \<Rightarrow> 'h heap_ops \<Rightarrow> 's visit \<Rightarrow> 'h ctime_iter \<Rightarrow> 's \<Rightarrow> (unit result \<times> 's) option" where
  "ctime_ForEach S H = iter_ForEach (\<lambda>_ w. ctime_Next S H w)"

subsection \<open>Filtered, breadth first\<close>

text \<open>
  A \<open>CommitFilter\<close> is a closure that may read variables the callback changes, so it takes the
  callback's state. \<open>None\<close> is a nil filter: the constructor replaces it, and \<open>Close\<close> sets it.
\<close>

type_synonym 's commit_filter = "'s \<Rightarrow> commit \<Rightarrow> bool"

record 's filter_iter =
  fi_valid :: "'s commit_filter option"
  fi_limit :: "'s commit_filter option"
  fi_visited :: "string set"
  fi_queue :: "commit list"
  fi_lastErr :: "error option"

definition NewFilterCommitIter ::
  "commit \<Rightarrow> 's commit_filter option \<Rightarrow> 's commit_filter option \<Rightarrow> 's filter_iter" where
  "NewFilterCommitIter c isValid isLimit =
     \<lparr>fi_valid = Some (case isValid of None \<Rightarrow> (\<lambda>_ _. True) | Some v \<Rightarrow> v),
      fi_limit = Some (case isLimit of None \<Rightarrow> (\<lambda>_ _. False) | Some l \<Rightarrow> l),
      fi_visited = {}, fi_queue = [c], fi_lastErr = None\<rparr>"

definition filter_Close :: "'s filter_iter \<Rightarrow> 's filter_iter" where
  "filter_Close w = w\<lparr>fi_visited := {}, fi_queue := [], fi_limit := None, fi_valid := None\<rparr>"

definition filter_close :: "error \<Rightarrow> 's filter_iter \<Rightarrow> 's filter_iter" where
  "filter_close e w = (filter_Close w)\<lparr>fi_lastErr := Some e\<rparr>"

fun pop_new :: "commit_store \<Rightarrow> string set \<Rightarrow> error option \<Rightarrow> commit list \<Rightarrow> commit result \<times> commit list" where
  "pop_new S visited lastErr [] = (Inl (case lastErr of None \<Rightarrow> EOF | Some e \<Rightarrow> e), [])"
| "pop_new S visited lastErr (c # queue) =
     (if hex_of S c \<in> visited then pop_new S visited lastErr queue else (Inr c, queue))"

definition popNewFromQueue :: "commit_store \<Rightarrow> 's filter_iter \<Rightarrow> commit result \<times> 's filter_iter" where
  "popNewFromQueue S w =
     (case pop_new S (fi_visited w) (fi_lastErr w) (fi_queue w) of
        (res, queue) \<Rightarrow> (res, w\<lparr>fi_queue := queue\<rparr>))"

fun addToQueue :: "commit_store \<Rightarrow> hash list \<Rightarrow> 's filter_iter \<Rightarrow> unit result \<times> 's filter_iter" where
  "addToQueue S [] w = (Inr (), w)"
| "addToQueue S (h # hs) w =
     (if cs_Hex S h \<in> fi_visited w then addToQueue S hs w
      else (case GetCommit S h of
              Inl e \<Rightarrow> (Inl e, w)
            | Inr commit \<Rightarrow> addToQueue S hs (w\<lparr>fi_queue := fi_queue w @ [commit]\<rparr>)))"

definition nil_call :: error where
  "nil_call = Panic ''invalid memory address or nil pointer dereference''"

partial_function (option) filter_Next ::
  "commit_store \<Rightarrow> 's \<Rightarrow> 's filter_iter \<Rightarrow> (commit result \<times> 's filter_iter) option"
where
  "filter_Next S s w =
     (case popNewFromQueue S w of
        (Inl e, w1) \<Rightarrow> Some (Inl e, filter_close e w1)
      | (Inr c, w1) \<Rightarrow>
          (let w2 = w1\<lparr>fi_visited := insert (hex_of S c) (fi_visited w1)\<rparr> in
           case fi_limit w2 of
             None \<Rightarrow> Some (Inl nil_call, w2)
           | Some isLimit \<Rightarrow>
               (case (if \<not> isLimit s c then addToQueue S (cm_parents c) w2 else (Inr (), w2)) of
                  (Inl e, w3) \<Rightarrow> Some (Inl e, filter_close e w3)
                | (Inr _, w3) \<Rightarrow>
                    (case fi_valid w3 of
                       None \<Rightarrow> Some (Inl nil_call, w3)
                     | Some isValid \<Rightarrow>
                         if isValid s c then Some (Inr c, w3) else filter_Next S s w3))))"

definition filter_ForEach ::
  "commit_store \<Rightarrow> 's visit \<Rightarrow> 's filter_iter \<Rightarrow> 's \<Rightarrow> (unit result \<times> 's) option" where
  "filter_ForEach S = iter_ForEach (filter_Next S)"

end
