(* ===== verification/Commit_Walk_Props.thy ===== *)
theory Commit_Walk_Props
  imports Commit_Walk
begin

section \<open>Every walk visits what it can reach, once\<close>

text \<open>
  The contract of the iterators and its interpretations. \<open>todo\<close> is the set of hashes a walk
  will still visit: what is reachable from its pending commits without entering the seen ones.
\<close>

locale commit_iter =
  fixes nxt :: "'i \<Rightarrow> (commit result \<times> 'i) option"
    and todo :: "'i \<Rightarrow> hash set"
    and inv :: "'i \<Rightarrow> bool"
    and node :: "commit \<Rightarrow> bool"
  assumes finite_todo: "inv w \<Longrightarrow> finite (todo w)"
    and next_finished: "inv w \<Longrightarrow> todo w = {} \<Longrightarrow> \<exists>w'. nxt w = Some (Inl EOF, w')"
    and next_visit: "inv w \<Longrightarrow> todo w \<noteq> {} \<Longrightarrow>
      \<exists>c w'. nxt w = Some (Inr c, w') \<and> inv w' \<and> node c \<and> cm_hash c \<in> todo w \<and>
        todo w' = todo w - {cm_hash c}"
begin

text \<open>The commits in the order of the walk, which does not depend on the callback.\<close>

lemma ForEach_visits:
  assumes "inv w"
  shows "\<exists>cs. distinct (map cm_hash cs) \<and> cm_hash ` set cs = todo w \<and> (\<forall>c \<in> set cs. node c) \<and>
    (\<forall>(f :: 's visit) s. iter_ForEach (\<lambda>_. nxt) f w s = Some (visit_all f cs s))"
  using assms
proof (induction "card (todo w)" arbitrary: w)
  case 0
  then have "todo w = {}" using finite_todo [OF 0(2)] by simp
  then obtain w' where "nxt w = Some (Inl EOF, w')" using next_finished 0(2) by blast
  then have "iter_ForEach (\<lambda>_. nxt) f w s = Some (visit_all f [] s)" for f :: "'s visit" and s
    by (subst iter_ForEach.simps) simp
  with \<open>todo w = {}\<close> show ?case by (intro exI [of _ "[]"]) simp
next
  case (Suc n)
  then have "todo w \<noteq> {}" by auto
  then obtain c w' where step: "nxt w = Some (Inr c, w')" "inv w'" "node c" "cm_hash c \<in> todo w"
    "todo w' = todo w - {cm_hash c}"
    using next_visit Suc.prems by blast
  then have "n = card (todo w')" using Suc.hyps(2) finite_todo [OF Suc.prems] by simp
  from Suc.hyps(1) [OF this step(2)] obtain cs where cs: "distinct (map cm_hash cs)"
    "cm_hash ` set cs = todo w'" "\<forall>c \<in> set cs. node c"
    "\<And>(f :: 's visit) s. iter_ForEach (\<lambda>_. nxt) f w' s = Some (visit_all f cs s)"
    by blast
  have "iter_ForEach (\<lambda>_. nxt) f w s = Some (visit_all f (c # cs) s)" for f :: "'s visit" and s
    by (subst iter_ForEach.simps) (simp add: step(1) cs(4) split: prod.split sum.split)
  with cs step show ?case
    by (intro exI [of _ "c # cs"]) auto
qed

end

text \<open>A walk whose next commit is the newest of those to come visits them newest first.\<close>

locale ordered_commit_iter = commit_iter nxt todo inv node
  for nxt :: "'i \<Rightarrow> (commit result \<times> 'i) option" and todo inv node +
  fixes rank :: "hash \<Rightarrow> int"
  assumes next_newest: "inv w \<Longrightarrow> nxt w = Some (Inr c, w') \<Longrightarrow> h \<in> todo w \<Longrightarrow> rank h \<le> rank (cm_hash c)"
begin

lemma ForEach_ordered:
  assumes "inv w"
  shows "\<exists>cs. distinct (map cm_hash cs) \<and> cm_hash ` set cs = todo w \<and> (\<forall>c \<in> set cs. node c) \<and>
    sorted_wrt (\<lambda>c d. rank (cm_hash d) \<le> rank (cm_hash c)) cs \<and>
    (\<forall>(f :: 's visit) s. iter_ForEach (\<lambda>_. nxt) f w s = Some (visit_all f cs s))"
  using assms
proof (induction "card (todo w)" arbitrary: w)
  case 0
  then have "todo w = {}" using finite_todo [OF 0(2)] by simp
  with ForEach_visits [OF 0(2)] show ?case by fastforce
next
  case (Suc n)
  then have "todo w \<noteq> {}" by auto
  then obtain c w' where step: "nxt w = Some (Inr c, w')" "inv w'" "node c" "cm_hash c \<in> todo w"
    "todo w' = todo w - {cm_hash c}"
    using next_visit Suc.prems by blast
  then have "n = card (todo w')" using Suc.hyps(2) finite_todo [OF Suc.prems] by simp
  from Suc.hyps(1) [OF this step(2)] obtain cs where cs: "distinct (map cm_hash cs)"
    "cm_hash ` set cs = todo w'" "\<forall>c \<in> set cs. node c"
    "sorted_wrt (\<lambda>c d. rank (cm_hash d) \<le> rank (cm_hash c)) cs"
    "\<And>(f :: 's visit) s. iter_ForEach (\<lambda>_. nxt) f w' s = Some (visit_all f cs s)"
    by blast
  have "iter_ForEach (\<lambda>_. nxt) f w s = Some (visit_all f (c # cs) s)" for f :: "'s visit" and s
    by (subst iter_ForEach.simps) (simp add: step(1) cs(5) split: prod.split sum.split)
  moreover have "rank (cm_hash d) \<le> rank (cm_hash c)" if "d \<in> set cs" for d
    using next_newest [OF Suc.prems step(1)] cs(2) step(5) that by blast
  ultimately show ?case
    using cs step by (intro exI [of _ "c # cs"]) auto
qed

end

subsection \<open>Pre-order\<close>

definition pre_inv :: "commit_store \<Rightarrow> pre_iter \<Rightarrow> bool" where
  "pre_inv S w \<longleftrightarrow> history_ok S \<and>
     (\<forall>a \<in> set (pr_stack w). array_ok a \<and> (\<forall>c \<in> set (array_rest a). is_node S c)) \<and>
     (\<forall>c. pr_start w = Some c \<longrightarrow> is_node S c)"

definition pre_front :: "pre_iter \<Rightarrow> hash set" where
  "pre_front w = cm_hash ` (set_option (pr_start w) \<union> (\<Union>a \<in> set (pr_stack w). set (array_rest a)))"

definition pre_seen :: "commit_store \<Rightarrow> pre_iter \<Rightarrow> hash set" where
  "pre_seen S w = seen_hashes S (pr_seen w \<union> pr_ext w)"

definition pre_todo :: "commit_store \<Rightarrow> pre_iter \<Rightarrow> hash set" where
  "pre_todo S w = live (parent_rel S) (pre_seen S w) (pre_front w)"

lemma pre_seen_iff: "cm_hash c \<in> pre_seen S w \<longleftrightarrow> hex_of S c \<in> pr_seen w \<or> hex_of S c \<in> pr_ext w"
  by (auto simp: pre_seen_def hex_of_def)

lemma pre_accept_visit:
  assumes "pre_inv S w" "pr_start w = None" "is_node S c" "cm_hash c \<notin> pre_seen S w"
  shows "\<exists>w'. pre_accept S c w = (Inr c, w') \<and> pre_inv S w' \<and>
    pre_todo S w' = live (parent_rel S) (pre_seen S w) (insert (cm_hash c) (pre_front w)) - {cm_hash c}"
proof -
  have ok: "history_ok S" using assms(1) by (simp add: pre_inv_def)
  let ?w = "w\<lparr>pr_seen := insert (hex_of S c) (pr_seen w)\<rparr>"
  let ?hs = "filter (\<lambda>h. cs_Hex S h \<notin> pr_seen ?w) (cm_parents c)"
  have seen: "pre_seen S ?w = insert (cm_hash c) (pre_seen S w)"
    using ok by (simp add: pre_seen_def hex_of_def)
  have R: "parent_rel S `` {cm_hash c} = set (cm_parents c)" by (rule parent_rel_node [OF assms(3)])
  show ?thesis
  proof (cases "NumParents c > 0")
    case False
    then have "cm_parents c = []" by (simp add: NumParents_def)
    moreover have "pre_front ?w = pre_front w" by (simp add: pre_front_def)
    ultimately show ?thesis
      using False assms(1,4) R seen live_accept [of "cm_hash c" "pre_seen S w" "pre_front w" "pre_front w" "parent_rel S"]
      by (intro exI [of _ ?w]) (auto simp: pre_accept_def Let_def pre_inv_def pre_todo_def)
  next
    case True
    obtain ps where ps: "GetCommits S ?hs = Inr ps" "map cm_hash ps = ?hs" "\<forall>p \<in> set ps. is_node S p"
      using GetCommits_stored [OF ok, of ?hs] history_parents [OF ok assms(3)] by auto
    let ?w' = "?w\<lparr>pr_stack := newArrayCommitIter ps # pr_stack ?w\<rparr>"
    have "cm_hash ` set ps = {p \<in> set (cm_parents c). cs_Hex S p \<notin> pr_seen ?w}"
      using arg_cong [OF ps(2), of set] by auto
    then have front: "pre_front ?w' = pre_front w \<union> {p \<in> set (cm_parents c). cs_Hex S p \<notin> pr_seen ?w}"
      by (auto simp: pre_front_def image_Un image_UN)
    have "live (parent_rel S) (insert (cm_hash c) (pre_seen S w)) (pre_front ?w') =
        live (parent_rel S) (pre_seen S w) (insert (cm_hash c) (pre_front w)) - {cm_hash c}"
    proof (rule live_accept [OF assms(4)])
      show "parent_rel S `` {cm_hash c} - pre_seen S w - {cm_hash c} \<subseteq> pre_front ?w'"
        unfolding R front using ok by (auto simp: pre_seen_def hex_of_def)
      show "pre_front ?w' \<subseteq> insert (cm_hash c) (pre_front w) \<union> parent_rel S `` {cm_hash c}"
        unfolding R front by auto
      show "pre_front w - {cm_hash c} \<subseteq> pre_front ?w'"
        unfolding front by auto
    qed
    moreover have "pre_seen S ?w' = insert (cm_hash c) (pre_seen S w)"
      using seen by (simp add: pre_seen_def)
    moreover have "pre_accept S c w = (Inr c, ?w')"
      using True ps(1) by (simp add: pre_accept_def filteredParentIter_def)
    moreover have "pre_inv S ?w'"
      using assms(1) ps(3) by (simp add: pre_inv_def)
    ultimately show ?thesis by (simp add: pre_todo_def)
  qed
qed

lemma pre_Next_step:
  "pre_inv S w \<Longrightarrow>
    (if pre_todo S w = {} then \<exists>w'. pre_Next S w = (Inl EOF, w')
     else \<exists>c w'. pre_Next S w = (Inr c, w') \<and> pre_inv S w' \<and> is_node S c \<and> cm_hash c \<in> pre_todo S w \<and>
       pre_todo S w' = pre_todo S w - {cm_hash c})"
proof (induction S w rule: pre_Next.induct)
  case (1 S w)
  have take: ?case
    if w': "pre_inv S w'" "pr_start w' = None" "is_node S c" "pre_seen S w' = pre_seen S w"
      and front: "pre_front w = insert (cm_hash c) (pre_front w')"
      and nxt: "pre_Next S w = (if hex_of S c \<in> pr_seen w' \<or> hex_of S c \<in> pr_ext w' then pre_Next S w'
        else pre_accept S c w')"
      and IH: "hex_of S c \<in> pr_seen w' \<or> hex_of S c \<in> pr_ext w' \<Longrightarrow>
        (if pre_todo S w' = {} then \<exists>w''. pre_Next S w' = (Inl EOF, w'')
         else \<exists>c w''. pre_Next S w' = (Inr c, w'') \<and> pre_inv S w'' \<and> is_node S c \<and> cm_hash c \<in> pre_todo S w' \<and>
           pre_todo S w'' = pre_todo S w' - {cm_hash c})"
    for w' c
  proof (cases "cm_hash c \<in> pre_seen S w'")
    case True
    then have "pre_todo S w = pre_todo S w'"
      by (simp add: pre_todo_def front w'(4) [symmetric] live_insert_seen)
    with True nxt IH show ?thesis by (simp add: pre_seen_iff)
  next
    case False
    then have "cm_hash c \<in> pre_todo S w"
      by (auto simp: pre_todo_def front w'(4) live_def)
    moreover obtain w'' where "pre_accept S c w' = (Inr c, w'')" "pre_inv S w''"
      "pre_todo S w'' = pre_todo S w - {cm_hash c}"
      using pre_accept_visit [OF w'(1-3) False] by (auto simp: pre_todo_def front w'(4))
    ultimately show ?thesis using nxt False w'(3) by (auto simp: pre_seen_iff)
  qed
  show ?case
  proof (cases "pr_start w")
    case (Some c)
    let ?w = "w\<lparr>pr_start := None\<rparr>"
    have inv: "pre_inv S ?w" "is_node S c" using "1.prems" Some by (simp_all add: pre_inv_def)
    show ?thesis
    proof (rule take [of ?w c])
      show "pre_Next S w = (if hex_of S c \<in> pr_seen ?w \<or> hex_of S c \<in> pr_ext ?w then pre_Next S ?w
          else pre_accept S c ?w)"
        by (subst pre_Next.simps) (simp add: Some)
    qed (use inv "1.IH"(3) [OF Some refl _ inv(1)] in \<open>auto simp: Some pre_seen_def pre_front_def\<close>)
  next
    case None
    show ?thesis
    proof (cases "pr_stack w")
      case Nil
      with None have "pre_Next S w = (Inl EOF, w)" by (subst pre_Next.simps) simp
      with None Nil show ?thesis by (simp add: pre_todo_def pre_front_def)
    next
      case (Cons cur below)
      have cur: "array_ok cur" "\<forall>c \<in> set (array_rest cur). is_node S c"
        using "1.prems" Cons by (simp_all add: pre_inv_def)
      from cur(1) show ?thesis
      proof (cases rule: array_Next_cases)
        case finished
        let ?w = "w\<lparr>pr_stack := below\<rparr>"
        have inv: "pre_inv S ?w" using "1.prems" Cons by (simp add: pre_inv_def)
        have "pre_Next S w = pre_Next S ?w"
          by (subst pre_Next.simps) (simp add: None Cons finished)
        moreover have "pre_todo S w = pre_todo S ?w"
          by (simp add: pre_todo_def pre_front_def pre_seen_def None Cons finished)
        ultimately show ?thesis
          using "1.IH"(1) [OF None Cons finished(2) [symmetric] refl refl inv] by simp
      next
        case (more c cur')
        let ?w = "w\<lparr>pr_stack := cur' # below\<rparr>"
        have inv: "pre_inv S ?w" "is_node S c"
          using "1.prems" Cons cur more by (simp_all add: pre_inv_def)
        show ?thesis
        proof (rule take [of ?w c])
          show "pre_Next S w = (if hex_of S c \<in> pr_seen ?w \<or> hex_of S c \<in> pr_ext ?w then pre_Next S ?w
              else pre_accept S c ?w)"
            by (subst pre_Next.simps) (simp add: None Cons more)
        qed (use inv "1.IH"(2) [OF None Cons more(2) [symmetric] refl refl _ inv(1)] in
            \<open>auto simp: None Cons more pre_seen_def pre_front_def\<close>)
      qed
    qed
  qed
qed


lemma finite_live_history:
  "history_ok S \<Longrightarrow> T \<subseteq> stored_hashes S \<Longrightarrow> finite (live (parent_rel S) V T)"
  by (rule live_finite [OF _ _ parent_rel_stored]) (auto simp: history_ok_def)

lemma pre_front_stored: "pre_inv S w \<Longrightarrow> pre_front w \<subseteq> stored_hashes S"
  by (auto simp: pre_inv_def pre_front_def is_node_stored)

lemma commit_iterI:
  assumes "\<And>w. I w \<Longrightarrow> finite (todo w)"
    "\<And>w. I w \<Longrightarrow> (if todo w = {} then \<exists>w'. nxt w = Some (Inl EOF, w')
      else \<exists>c w'. nxt w = Some (Inr c, w') \<and> I w' \<and> node c \<and> cm_hash c \<in> todo w \<and>
        todo w' = todo w - {cm_hash c})"
  shows "commit_iter nxt todo I node"
proof
  fix w
  assume I: "I w"
  show "finite (todo w)" by (rule assms(1) [OF I])
  note step = assms(2) [OF I]
  { assume "todo w = {}"
    with step show "\<exists>w'. nxt w = Some (Inl EOF, w')" by simp }
  { assume "todo w \<noteq> {}"
    with step show "\<exists>c w'. nxt w = Some (Inr c, w') \<and> I w' \<and> node c \<and> cm_hash c \<in> todo w \<and>
        todo w' = todo w - {cm_hash c}" by simp }
qed

interpretation pre: commit_iter "\<lambda>w. Some (pre_Next S w)" "pre_todo S" "pre_inv S" "is_node S" for S
proof (rule commit_iterI)
  show "finite (pre_todo S w)" if "pre_inv S w" for w
    using that pre_front_stored [OF that] by (simp add: pre_todo_def pre_inv_def finite_live_history)
qed (use pre_Next_step in simp)

lemma NewCommitPreorderIter_inv [simp]:
  "history_ok S \<Longrightarrow> is_node S c \<Longrightarrow> pre_inv S (NewCommitPreorderIter S c ext ignore)"
  "history_ok S \<Longrightarrow> pre_todo S (NewCommitPreorderIter S c ext ignore) =
    live (parent_rel S) (set ignore \<union> seen_hashes S ext) {cm_hash c}"
  by (auto simp: pre_inv_def NewCommitPreorderIter_def pre_todo_def pre_front_def pre_seen_def seen_hashes_def
      intro!: arg_cong [where f = "\<lambda>V. live (parent_rel S) V {cm_hash c}"])

subsection \<open>Post-order\<close>

definition post_inv :: "commit_store \<Rightarrow> post_iter \<Rightarrow> bool" where
  "post_inv S w \<longleftrightarrow> history_ok S \<and> (\<forall>c \<in> set (po_stack w). is_node S c)"

definition post_todo :: "commit_store \<Rightarrow> post_iter \<Rightarrow> hash set" where
  "post_todo S w = live (parent_rel S) (seen_hashes S (po_seen w)) (cm_hash ` set (po_stack w))"

lemma visit_all_push: "visit_all (\<lambda>p stack. (Inr (), p # stack)) ps st = (Inr (), rev ps @ st)"
  by (induction ps arbitrary: st) auto

lemma post_Next_step:
  "post_inv S w \<Longrightarrow>
    (if post_todo S w = {} then \<exists>w'. post_Next S w = (Inl EOF, w')
     else \<exists>c w'. post_Next S w = (Inr c, w') \<and> post_inv S w' \<and> is_node S c \<and> cm_hash c \<in> post_todo S w \<and>
       post_todo S w' = post_todo S w - {cm_hash c})"
proof (induction S w rule: post_Next.induct)
  case (1 S w)
  have ok: "history_ok S" using "1.prems" by (simp add: post_inv_def)
  let ?V = "seen_hashes S (po_seen w)"
  show ?case
  proof (cases "po_stack w")
    case Nil
    then have "post_Next S w = (Inl EOF, w)" by (subst post_Next.simps) simp
    with Nil show ?thesis by (simp add: post_todo_def)
  next
    case (Cons c below)
    let ?w = "w\<lparr>po_stack := below\<rparr>"
    have inv: "post_inv S ?w" and node: "is_node S c" using "1.prems" Cons by (simp_all add: post_inv_def)
    have seen: "cm_hash c \<in> ?V \<longleftrightarrow> hex_of S c \<in> po_seen w" by (simp add: hex_of_def)
    show ?thesis
    proof (cases "hex_of S c \<in> po_seen w")
      case True
      then have "post_Next S w = post_Next S ?w" by (subst post_Next.simps) (simp add: Cons)
      moreover have "post_todo S w = post_todo S ?w"
        using True seen by (simp add: post_todo_def Cons live_insert_seen)
      ultimately show ?thesis using "1.IH" [OF Cons refl _ inv] True by simp
    next
      case False
      obtain ps where ps: "Parents S c = Inr ps" "map cm_hash ps = cm_parents c" "\<forall>p \<in> set ps. is_node S p"
        using GetCommits_stored [OF ok history_parents [OF ok node]]
        by (auto simp: GetCommits_def Parents_def)
      let ?w' = "w\<lparr>po_stack := rev ps @ below, po_seen := insert (hex_of S c) (po_seen w)\<rparr>"
      have nxt: "post_Next S w = (Inr c, ?w')"
        using False ps(1)
        by (subst post_Next.simps) (simp add: Cons array_ForEach_def newArrayCommitIter_def visit_all_push)
      have "cm_hash ` set ps = set (cm_parents c)" using arg_cong [OF ps(2), of set] by simp
      then have "live (parent_rel S) (insert (cm_hash c) ?V) (cm_hash ` set (rev ps @ below)) =
          live (parent_rel S) ?V (insert (cm_hash c) (cm_hash ` set below)) - {cm_hash c}"
        using False seen parent_rel_node [OF node] by (intro live_accept) (auto simp: image_Un)
      then have "post_todo S ?w' = post_todo S w - {cm_hash c}"
        using ok by (simp add: post_todo_def Cons hex_of_def)
      moreover have "cm_hash c \<in> post_todo S w"
        using False seen by (auto simp: post_todo_def Cons live_def)
      moreover have "post_inv S ?w'" using inv ps(3) by (auto simp: post_inv_def)
      ultimately show ?thesis using nxt node by auto
    qed
  qed
qed

interpretation post: commit_iter "\<lambda>w. Some (post_Next S w)" "post_todo S" "post_inv S" "is_node S" for S
proof (rule commit_iterI)
  show "finite (post_todo S w)" if "post_inv S w" for w
    using that by (auto simp: post_todo_def post_inv_def is_node_stored intro!: finite_live_history)
qed (use post_Next_step in simp)

lemma NewCommitPostorderIter_inv [simp]:
  "history_ok S \<Longrightarrow> is_node S c \<Longrightarrow> post_inv S (NewCommitPostorderIter S c ignore)"
  "history_ok S \<Longrightarrow> post_todo S (NewCommitPostorderIter S c ignore) =
    live (parent_rel S) (set ignore) {cm_hash c}"
  by (auto simp: post_inv_def NewCommitPostorderIter_def post_todo_def seen_hashes_def
      intro!: arg_cong [where f = "\<lambda>V. live (parent_rel S) V {cm_hash c}"])

subsection \<open>Breadth first\<close>

definition bfs_inv :: "commit_store \<Rightarrow> bfs_iter \<Rightarrow> bool" where
  "bfs_inv S w \<longleftrightarrow> history_ok S \<and> (\<forall>c \<in> set (bf_queue w). is_node S c)"

definition bfs_seen :: "commit_store \<Rightarrow> bfs_iter \<Rightarrow> hash set" where
  "bfs_seen S w = seen_hashes S (bf_seen w \<union> bf_ext w)"

definition bfs_todo :: "commit_store \<Rightarrow> bfs_iter \<Rightarrow> hash set" where
  "bfs_todo S w = live (parent_rel S) (bfs_seen S w) (cm_hash ` set (bf_queue w))"

lemma append_hashes_stored:
  assumes "history_ok S" "set hs \<subseteq> stored_hashes S"
  shows "\<exists>cs. append_hashes S hs w = (Inr (), w\<lparr>bf_queue := bf_queue w @ cs\<rparr>) \<and>
    cm_hash ` set cs = set hs - bfs_seen S w \<and> (\<forall>c \<in> set cs. is_node S c)"
  using assms(2)
proof (induction hs arbitrary: w)
  case Nil
  show ?case by (intro exI [of _ "[]"]) simp
next
  case (Cons h hs)
  show ?case
  proof (cases "h \<in> bfs_seen S w")
    case True
    then have "appendHash S h w = (Inr (), w)" by (auto simp: appendHash_def bfs_seen_def)
    with True Cons show ?thesis by simp
  next
    case False
    obtain c where c: "cs_Commit S h = Inr c" "is_node S c" "cm_hash c = h"
      using stored_commit assms(1) Cons.prems by auto
    let ?w = "w\<lparr>bf_queue := bf_queue w @ [c]\<rparr>"
    have step: "appendHash S h w = (Inr (), ?w)"
      using False c(1) by (auto simp: appendHash_def bfs_seen_def GetCommit_def)
    have "bfs_seen S ?w = bfs_seen S w" by (simp add: bfs_seen_def)
    then obtain cs where "append_hashes S hs ?w = (Inr (), w\<lparr>bf_queue := bf_queue w @ c # cs\<rparr>)"
      "cm_hash ` set cs = set hs - bfs_seen S w" "\<forall>c \<in> set cs. is_node S c"
      using Cons.IH [of ?w] Cons.prems by auto
    with step c False show ?thesis by (intro exI [of _ "c # cs"]) auto
  qed
qed

lemma bfs_Next_step:
  "bfs_inv S w \<Longrightarrow>
    (if bfs_todo S w = {} then \<exists>w'. bfs_Next S w = (Inl EOF, w')
     else \<exists>c w'. bfs_Next S w = (Inr c, w') \<and> bfs_inv S w' \<and> is_node S c \<and> cm_hash c \<in> bfs_todo S w \<and>
       bfs_todo S w' = bfs_todo S w - {cm_hash c})"
proof (induction S w rule: bfs_Next.induct)
  case (1 S w)
  have ok: "history_ok S" using "1.prems" by (simp add: bfs_inv_def)
  show ?case
  proof (cases "bf_queue w")
    case Nil
    then have "bfs_Next S w = (Inl EOF, w)" by (subst bfs_Next.simps) simp
    with Nil show ?thesis by (simp add: bfs_todo_def)
  next
    case (Cons c queue)
    let ?w = "w\<lparr>bf_queue := queue\<rparr>" and ?V = "bfs_seen S w"
    have inv: "bfs_inv S ?w" and node: "is_node S c" using "1.prems" Cons by (simp_all add: bfs_inv_def)
    have seen: "cm_hash c \<in> ?V \<longleftrightarrow> hex_of S c \<in> bf_seen w \<or> hex_of S c \<in> bf_ext w"
      by (simp add: hex_of_def bfs_seen_def)
    show ?thesis
    proof (cases "cm_hash c \<in> ?V")
      case True
      then have "bfs_Next S w = bfs_Next S ?w" by (subst bfs_Next.simps) (auto simp: Cons seen)
      moreover have "bfs_todo S w = bfs_todo S ?w"
        using True by (simp add: bfs_todo_def Cons live_insert_seen) (simp add: bfs_seen_def)
      ultimately show ?thesis using "1.IH" [OF Cons refl _ inv] True seen by simp
    next
      case False
      let ?w1 = "?w\<lparr>bf_seen := insert (hex_of S c) (bf_seen w)\<rparr>"
      have V1: "bfs_seen S ?w1 = insert (cm_hash c) ?V"
        using ok by (simp add: bfs_seen_def hex_of_def)
      obtain cs where cs: "append_hashes S (cm_parents c) ?w1 = (Inr (), ?w1\<lparr>bf_queue := queue @ cs\<rparr>)"
        "cm_hash ` set cs = set (cm_parents c) - insert (cm_hash c) ?V" "\<forall>c \<in> set cs. is_node S c"
        using append_hashes_stored [OF ok history_parents [OF ok node], of ?w1] V1 by auto
      let ?w' = "?w1\<lparr>bf_queue := queue @ cs\<rparr>"
      have nxt: "bfs_Next S w = (Inr c, ?w')"
        using False cs(1) by (subst bfs_Next.simps) (simp add: Cons seen)
      have "live (parent_rel S) (insert (cm_hash c) ?V) (cm_hash ` set (queue @ cs)) =
          live (parent_rel S) ?V (insert (cm_hash c) (cm_hash ` set queue)) - {cm_hash c}"
        using False cs(2) parent_rel_node [OF node] by (intro live_accept) (auto simp: image_Un)
      moreover have "bfs_seen S ?w' = insert (cm_hash c) ?V" using V1 by (simp add: bfs_seen_def)
      ultimately have "bfs_todo S ?w' = bfs_todo S w - {cm_hash c}"
        by (simp add: bfs_todo_def Cons)
      moreover have "cm_hash c \<in> bfs_todo S w"
        using False by (auto simp: bfs_todo_def Cons live_def)
      moreover have "bfs_inv S ?w'" using inv cs(3) by (auto simp: bfs_inv_def)
      ultimately show ?thesis using nxt node by auto
    qed
  qed
qed

interpretation bfs: commit_iter "\<lambda>w. Some (bfs_Next S w)" "bfs_todo S" "bfs_inv S" "is_node S" for S
proof (rule commit_iterI)
  show "finite (bfs_todo S w)" if "bfs_inv S w" for w
    using that by (auto simp: bfs_todo_def bfs_inv_def is_node_stored intro!: finite_live_history)
qed (use bfs_Next_step in simp)

lemma NewCommitIterBSF_inv [simp]:
  "history_ok S \<Longrightarrow> is_node S c \<Longrightarrow> bfs_inv S (NewCommitIterBSF S c ext ignore)"
  "history_ok S \<Longrightarrow> bfs_todo S (NewCommitIterBSF S c ext ignore) =
    live (parent_rel S) (set ignore \<union> seen_hashes S ext) {cm_hash c}"
  by (auto simp: bfs_inv_def NewCommitIterBSF_def bfs_todo_def bfs_seen_def seen_hashes_def
      intro!: arg_cong [where f = "\<lambda>V. live (parent_rel S) V {cm_hash c}"])


subsection \<open>By committer time\<close>

definition ct_inv :: "commit_store \<Rightarrow> 'h heap_ops \<Rightarrow> ('h \<Rightarrow> commit multiset) \<Rightarrow> 'h ctime_iter \<Rightarrow> bool" where
  "ct_inv S H elems w \<longleftrightarrow> history_ok S \<and> heap_laws ctime_compare H elems \<and>
     (\<forall>c \<in># elems (ct_heap w). is_node S c)"

definition ct_seen_set :: "commit_store \<Rightarrow> 'h ctime_iter \<Rightarrow> hash set" where
  "ct_seen_set S w = seen_hashes S (ct_seen w \<union> ct_ext w)"

definition ct_todo :: "commit_store \<Rightarrow> ('h \<Rightarrow> commit multiset) \<Rightarrow> 'h ctime_iter \<Rightarrow> hash set" where
  "ct_todo S elems w = live (parent_rel S) (ct_seen_set S w) (cm_hash ` set_mset (elems (ct_heap w)))"

definition commit_date :: "commit_store \<Rightarrow> hash \<Rightarrow> time" where
  "commit_date S h = (case cs_Commit S h of Inl _ \<Rightarrow> 0 | Inr c \<Rightarrow> sig_when (cm_committer c))"

definition dates_monotone :: "commit_store \<Rightarrow> bool" where
  "dates_monotone S \<longleftrightarrow> (\<forall>(h, p) \<in> parent_rel S. commit_date S p \<le> commit_date S h)"

lemma commit_date_node [simp]: "is_node S c \<Longrightarrow> commit_date S (cm_hash c) = sig_when (cm_committer c)"
  by (simp add: is_node_def commit_date_def)

lemma heap_lawsD:
  assumes "heap_laws cmp H elems"
  shows "elems (hp_empty H) = {#}" "elems (hp_Push H c h) = add_mset c (elems h)"
    "hp_Pop H h = None \<longleftrightarrow> elems h = {#}"
    "hp_Pop H h = Some (c, h') \<Longrightarrow> elems h = add_mset c (elems h')"
    "hp_Pop H h = Some (c, h') \<Longrightarrow> d \<in># elems h' \<Longrightarrow> cmp c d \<le> 0"
  using assms by (auto simp: heap_laws_def)

lemma push_parents_stored:
  assumes "history_ok S" "heap_laws cmp H elems" "set hs \<subseteq> stored_hashes S"
  shows "\<exists>h'. push_parents S H hs w = (Inr (), w\<lparr>ct_heap := h'\<rparr>) \<and>
    cm_hash ` set_mset (elems h') = cm_hash ` set_mset (elems (ct_heap w)) \<union> (set hs - ct_seen_set S w) \<and>
    ((\<forall>c \<in># elems (ct_heap w). is_node S c) \<longrightarrow> (\<forall>c \<in># elems h'. is_node S c))"
  using assms(3)
proof (induction hs arbitrary: w)
  case Nil
  show ?case by (intro exI [of _ "ct_heap w"]) simp
next
  case (Cons h hs)
  have mem: "h \<in> ct_seen_set S w \<longleftrightarrow> cs_Hex S h \<in> ct_seen w \<or> cs_Hex S h \<in> ct_ext w"
    by (simp add: ct_seen_set_def)
  show ?case
  proof (cases "h \<in> ct_seen_set S w")
    case True
    then have "push_parents S H (h # hs) w = push_parents S H hs w" using mem by auto
    with True Cons show ?thesis by (simp add: insert_Diff_if)
  next
    case False
    obtain c where c: "cs_Commit S h = Inr c" "is_node S c" "cm_hash c = h"
      using stored_commit assms(1) Cons.prems by auto
    let ?w = "w\<lparr>ct_heap := hp_Push H c (ct_heap w)\<rparr>"
    have "push_parents S H (h # hs) w = push_parents S H hs ?w"
      using False mem c(1) by (simp add: GetCommit_def)
    moreover have "ct_seen_set S ?w = ct_seen_set S w" by (simp add: ct_seen_set_def)
    moreover obtain h' where "push_parents S H hs ?w = (Inr (), ?w\<lparr>ct_heap := h'\<rparr>)"
      "cm_hash ` set_mset (elems h') =
        cm_hash ` set_mset (elems (ct_heap ?w)) \<union> (set hs - ct_seen_set S ?w)"
      "(\<forall>c \<in># elems (ct_heap ?w). is_node S c) \<longrightarrow> (\<forall>c \<in># elems h'. is_node S c)"
      using Cons.IH [of ?w] Cons.prems by auto
    ultimately show ?thesis
      using c False heap_lawsD(2) [OF assms(2)] by (intro exI [of _ h']) auto
  qed
qed

lemma ctime_Next_step:
  "ct_inv S H elems w \<Longrightarrow>
    (if ct_todo S elems w = {} then \<exists>w'. ctime_Next S H w = Some (Inl EOF, w')
     else \<exists>c w'. ctime_Next S H w = Some (Inr c, w') \<and> ct_inv S H elems w' \<and> is_node S c \<and>
       cm_hash c \<in> ct_todo S elems w \<and> ct_todo S elems w' = ct_todo S elems w - {cm_hash c} \<and>
       (\<forall>d \<in># elems (ct_heap w). cm_hash d \<notin> ct_seen_set S w \<longrightarrow>
          sig_when (cm_committer d) \<le> sig_when (cm_committer c)))"
proof (induction "size (elems (ct_heap w))" arbitrary: w rule: less_induct)
  case less
  have ok: "history_ok S" and laws: "heap_laws ctime_compare H elems"
    using less.prems by (simp_all add: ct_inv_def)
  show ?case
  proof (cases "hp_Pop H (ct_heap w)")
    case None
    then have "ctime_Next S H w = Some (Inl EOF, w)" by (subst ctime_Next.simps) simp
    moreover have "elems (ct_heap w) = {#}" using None heap_lawsD(3) [OF laws] by simp
    ultimately show ?thesis by (simp add: ct_todo_def)
  next
    case (Some pop)
    obtain c heap where pop: "hp_Pop H (ct_heap w) = Some (c, heap)" using Some by (cases pop) simp
    let ?w = "w\<lparr>ct_heap := heap\<rparr>" and ?V = "ct_seen_set S w"
    have elems: "elems (ct_heap w) = add_mset c (elems heap)" by (rule heap_lawsD(4) [OF laws pop])
    have newest: "sig_when (cm_committer d) \<le> sig_when (cm_committer c)" if "d \<in># elems heap" for d
      using heap_lawsD(5) [OF laws pop that] by (simp add: ctime_compare_def split: if_splits)
    have inv: "ct_inv S H elems ?w" and node: "is_node S c"
      using less.prems elems by (simp_all add: ct_inv_def)
    have seen: "cm_hash c \<in> ?V \<longleftrightarrow> hex_of S c \<in> ct_seen w \<or> hex_of S c \<in> ct_ext w"
      by (simp add: hex_of_def ct_seen_set_def)
    have V: "ct_seen_set S ?w = ?V" by (simp add: ct_seen_set_def)
    show ?thesis
    proof (cases "cm_hash c \<in> ?V")
      case True
      then have nxt: "ctime_Next S H w = ctime_Next S H ?w"
        using seen by (subst ctime_Next.simps) (simp add: pop)
      have todo: "ct_todo S elems w = ct_todo S elems ?w"
        using True by (simp add: ct_todo_def elems V live_insert_seen)
      note IH = less.hyps [OF _ inv]
      show ?thesis
      proof (cases "ct_todo S elems ?w = {}")
        case True
        with IH show ?thesis by (simp add: nxt todo elems)
      next
        case False
        then obtain c' w' where "ctime_Next S H ?w = Some (Inr c', w')" "ct_inv S H elems w'" "is_node S c'"
          "cm_hash c' \<in> ct_todo S elems ?w" "ct_todo S elems w' = ct_todo S elems ?w - {cm_hash c'}"
          "\<forall>d \<in># elems heap. cm_hash d \<notin> ?V \<longrightarrow> sig_when (cm_committer d) \<le> sig_when (cm_committer c')"
          using IH by (auto simp: elems V)
        with False \<open>cm_hash c \<in> ?V\<close> show ?thesis by (auto simp: nxt todo elems)
      qed
    next
      case False
      let ?w1 = "?w\<lparr>ct_seen := insert (hex_of S c) (ct_seen w)\<rparr>"
      have V1: "ct_seen_set S ?w1 = insert (cm_hash c) ?V"
        using ok by (simp add: ct_seen_set_def hex_of_def)
      obtain h' where h': "push_parents S H (cm_parents c) ?w1 = (Inr (), ?w1\<lparr>ct_heap := h'\<rparr>)"
        "cm_hash ` set_mset (elems h') = cm_hash ` set_mset (elems heap) \<union>
          (set (cm_parents c) - insert (cm_hash c) ?V)"
        "\<forall>c \<in># elems h'. is_node S c"
        using push_parents_stored [OF ok laws history_parents [OF ok node], of ?w1] V1 inv
        by (auto simp: ct_inv_def)
      let ?w' = "?w1\<lparr>ct_heap := h'\<rparr>"
      have nxt: "ctime_Next S H w = Some (Inr c, ?w')"
        using False h'(1) by (subst ctime_Next.simps) (simp add: pop seen)
      have "live (parent_rel S) (insert (cm_hash c) ?V) (cm_hash ` set_mset (elems h')) =
          live (parent_rel S) ?V (insert (cm_hash c) (cm_hash ` set_mset (elems heap))) - {cm_hash c}"
        using False h'(2) parent_rel_node [OF node] by (intro live_accept) auto
      moreover have "ct_seen_set S ?w' = insert (cm_hash c) ?V" using V1 by (simp add: ct_seen_set_def)
      ultimately have "ct_todo S elems ?w' = ct_todo S elems w - {cm_hash c}"
        by (simp add: ct_todo_def elems)
      moreover have "cm_hash c \<in> ct_todo S elems w"
        using False by (auto simp: ct_todo_def elems live_def)
      moreover have "ct_inv S H elems ?w'" using inv h'(3) by (simp add: ct_inv_def)
      ultimately show ?thesis using nxt node newest by (auto simp: elems)
    qed
  qed
qed

lemma ct_todo_finite: "ct_inv S H elems w \<Longrightarrow> finite (ct_todo S elems w)"
  by (auto simp: ct_todo_def ct_inv_def is_node_stored intro!: finite_live_history)

lemma ctime_commit_iter: "commit_iter (ctime_Next S H) (ct_todo S elems) (ct_inv S H elems) (is_node S)"
proof (rule commit_iterI)
  fix w
  assume "ct_inv S H elems w"
  from ctime_Next_step [OF this] show "if ct_todo S elems w = {} then \<exists>w'. ctime_Next S H w = Some (Inl EOF, w')
      else \<exists>c w'. ctime_Next S H w = Some (Inr c, w') \<and> ct_inv S H elems w' \<and> is_node S c \<and>
        cm_hash c \<in> ct_todo S elems w \<and> ct_todo S elems w' = ct_todo S elems w - {cm_hash c}"
    by (auto split: if_splits)
qed (rule ct_todo_finite)

interpretation ctime: commit_iter "ctime_Next S H" "ct_todo S elems" "ct_inv S H elems" "is_node S"
  for S H elems
  by (rule ctime_commit_iter)

definition ct_inv_dated :: "commit_store \<Rightarrow> 'h heap_ops \<Rightarrow> ('h \<Rightarrow> commit multiset) \<Rightarrow> 'h ctime_iter \<Rightarrow> bool" where
  "ct_inv_dated S H elems w \<longleftrightarrow> ct_inv S H elems w \<and> dates_monotone S"

lemma live_dates:
  assumes "dates_monotone S" "h \<in> live (parent_rel S) V T"
  shows "\<exists>d \<in> T - V. commit_date S h \<le> commit_date S d"
proof -
  have "live (parent_rel S) V T \<subseteq> {h. \<exists>d \<in> T - V. commit_date S h \<le> commit_date S d}"
  proof (rule live_subset)
    fix y z
    assume y: "y \<in> {h. \<exists>d \<in> T - V. commit_date S h \<le> commit_date S d}" and "(y, z) \<in> parent_rel S"
    then have "commit_date S z \<le> commit_date S y" using assms(1) by (auto simp: dates_monotone_def)
    with y show "z \<in> {h. \<exists>d \<in> T - V. commit_date S h \<le> commit_date S d}" by (auto intro: order_trans)
  qed auto
  with assms(2) show ?thesis by blast
qed

interpretation ctime_dated: ordered_commit_iter "ctime_Next S H" "ct_todo S elems" "ct_inv_dated S H elems"
  "is_node S" "commit_date S" for S H elems
proof
  fix w c w' h
  { assume inv: "ct_inv_dated S H elems w"
    then have ct: "ct_inv S H elems w" and dates: "dates_monotone S" by (simp_all add: ct_inv_dated_def)
    show "finite (ct_todo S elems w)" by (rule ct_todo_finite [OF ct])
    { assume "ct_todo S elems w = {}"
      with ctime.next_finished [OF ct] show "\<exists>w'. ctime_Next S H w = Some (Inl EOF, w')" by simp }
    { assume "ct_todo S elems w \<noteq> {}"
      with ctime.next_visit [OF ct] dates show "\<exists>c w'. ctime_Next S H w = Some (Inr c, w') \<and>
          ct_inv_dated S H elems w' \<and> is_node S c \<and> cm_hash c \<in> ct_todo S elems w \<and>
          ct_todo S elems w' = ct_todo S elems w - {cm_hash c}"
        by (simp add: ct_inv_dated_def) }
    assume nxt: "ctime_Next S H w = Some (Inr c, w')" and h: "h \<in> ct_todo S elems w"
    then have node: "is_node S c"
      "\<forall>d \<in># elems (ct_heap w). cm_hash d \<notin> ct_seen_set S w \<longrightarrow>
        sig_when (cm_committer d) \<le> sig_when (cm_committer c)"
      using ctime_Next_step [OF ct] by (auto split: if_splits)
    obtain d where "d \<in># elems (ct_heap w)" "cm_hash d \<notin> ct_seen_set S w"
      "commit_date S h \<le> commit_date S (cm_hash d)"
      using live_dates [OF dates h [unfolded ct_todo_def]] by auto
    moreover from this(1) have "is_node S d" using ct by (simp add: ct_inv_def)
    ultimately show "commit_date S h \<le> commit_date S (cm_hash c)" using node by fastforce }
qed

lemma NewCommitIterCTime_inv [simp]:
  assumes "history_ok S" "heap_laws ctime_compare H elems"
  shows "is_node S c \<Longrightarrow> ct_inv S H elems (NewCommitIterCTime S H c ext ignore)"
    "ct_todo S elems (NewCommitIterCTime S H c ext ignore) =
      live (parent_rel S) (set ignore \<union> seen_hashes S ext) {cm_hash c}"
  using assms heap_lawsD(1,2) [OF assms(2)]
  by (auto simp: ct_inv_def NewCommitIterCTime_def ct_todo_def ct_seen_set_def seen_hashes_def
      intro!: arg_cong [where f = "\<lambda>V. live (parent_rel S) V {cm_hash c}"])


subsection \<open>Filtered\<close>

text \<open>A commit at the limit is visited, but its parents are not followed.\<close>

definition flt_rel :: "commit_store \<Rightarrow> (commit \<Rightarrow> bool) \<Rightarrow> (hash \<times> hash) set" where
  "flt_rel S l = {(h, p). \<exists>c. cs_Commit S h = Inr c \<and> \<not> l c \<and> p \<in> set (cm_parents c)}"

definition fi_inv :: "commit_store \<Rightarrow> 's filter_iter \<Rightarrow> bool" where
  "fi_inv S w \<longleftrightarrow> history_ok S \<and> (\<forall>c \<in> set (fi_queue w). is_node S c) \<and>
     fi_valid w \<noteq> None \<and> fi_limit w \<noteq> None \<and> fi_lastErr w = None"

definition fi_seen :: "commit_store \<Rightarrow> 's filter_iter \<Rightarrow> hash set" where
  "fi_seen S w = seen_hashes S (fi_visited w)"

definition fi_live :: "commit_store \<Rightarrow> 's \<Rightarrow> 's filter_iter \<Rightarrow> hash set" where
  "fi_live S s w = live (flt_rel S (the (fi_limit w) s)) (fi_seen S w) (cm_hash ` set (fi_queue w))"

definition valid_hash :: "commit_store \<Rightarrow> (commit \<Rightarrow> bool) \<Rightarrow> hash \<Rightarrow> bool" where
  "valid_hash S v h \<longleftrightarrow> (\<exists>c. cs_Commit S h = Inr c \<and> v c)"

definition fi_todo :: "commit_store \<Rightarrow> 's \<Rightarrow> 's filter_iter \<Rightarrow> hash set" where
  "fi_todo S s w = {h \<in> fi_live S s w. valid_hash S (the (fi_valid w) s) h}"

lemma flt_rel_sub: "flt_rel S l \<subseteq> parent_rel S"
  by (auto simp: flt_rel_def parent_rel_def)

lemma flt_rel_node: "is_node S c \<Longrightarrow> flt_rel S l `` {cm_hash c} = (if l c then {} else set (cm_parents c))"
  by (auto simp: flt_rel_def is_node_def)

lemma valid_hash_node [simp]: "is_node S c \<Longrightarrow> valid_hash S v (cm_hash c) = v c"
  by (simp add: valid_hash_def is_node_def)

lemma fi_live_finite: "fi_inv S w \<Longrightarrow> finite (fi_live S s w)"
proof -
  assume inv: "fi_inv S w"
  then have ok: "history_ok S" by (simp add: fi_inv_def)
  show ?thesis
    unfolding fi_live_def
  proof (rule live_finite)
    show "finite (stored_hashes S)" using ok by (simp add: history_ok_def)
    show "cm_hash ` set (fi_queue w) \<subseteq> stored_hashes S" using inv by (auto simp: fi_inv_def is_node_stored)
  qed (rule subset_trans [OF flt_rel_sub parent_rel_stored [OF ok]])
qed

lemma pop_new_cases:
  obtains (none) "pop_new S visited None q = (Inl EOF, [])" "\<forall>c \<in> set q. hex_of S c \<in> visited"
    | (new) pre c q' where "q = pre @ c # q'" "\<forall>c \<in> set pre. hex_of S c \<in> visited"
        "hex_of S c \<notin> visited" "pop_new S visited None q = (Inr c, q')"
proof (induction q arbitrary: thesis)
  case Nil
  then show ?case by simp
next
  case (Cons c q)
  show ?case
  proof (cases "hex_of S c \<in> visited")
    case True
    show ?thesis
    proof (rule Cons.IH)
      assume "pop_new S visited None q = (Inl EOF, [])" "\<forall>c \<in> set q. hex_of S c \<in> visited"
      with True show thesis by (intro Cons.prems(1)) auto
    next
      fix pre d q'
      assume "q = pre @ d # q'" "\<forall>c \<in> set pre. hex_of S c \<in> visited" "hex_of S d \<notin> visited"
        "pop_new S visited None q = (Inr d, q')"
      with True show thesis by (intro Cons.prems(2) [of "c # pre" d q']) auto
    qed
  next
    case False
    then show ?thesis by (intro Cons.prems(2) [of "[]" c q]) auto
  qed
qed

lemma addToQueue_stored:
  assumes "history_ok S" "set hs \<subseteq> stored_hashes S"
  shows "\<exists>cs. addToQueue S hs w = (Inr (), w\<lparr>fi_queue := fi_queue w @ cs\<rparr>) \<and>
    cm_hash ` set cs = set hs - fi_seen S w \<and> (\<forall>c \<in> set cs. is_node S c)"
  using assms(2)
proof (induction hs arbitrary: w)
  case Nil
  show ?case by (intro exI [of _ "[]"]) simp
next
  case (Cons h hs)
  show ?case
  proof (cases "h \<in> fi_seen S w")
    case True
    with Cons show ?thesis by (simp add: fi_seen_def insert_Diff_if)
  next
    case False
    obtain c where c: "cs_Commit S h = Inr c" "is_node S c" "cm_hash c = h"
      using stored_commit assms(1) Cons.prems by auto
    let ?w = "w\<lparr>fi_queue := fi_queue w @ [c]\<rparr>"
    have "addToQueue S (h # hs) w = addToQueue S hs ?w"
      using False c(1) by (simp add: fi_seen_def GetCommit_def)
    moreover obtain cs where "addToQueue S hs ?w = (Inr (), w\<lparr>fi_queue := fi_queue w @ c # cs\<rparr>)"
      "cm_hash ` set cs = set hs - fi_seen S w" "\<forall>c \<in> set cs. is_node S c"
      using Cons.IH [of ?w] Cons.prems by (auto simp: fi_seen_def)
    ultimately show ?thesis using c False by (intro exI [of _ "c # cs"]) auto
  qed
qed

lemma filter_Next_step:
  "fi_inv S w \<Longrightarrow>
    (if fi_todo S s w = {} then \<exists>w'. filter_Next S s w = Some (Inl EOF, w')
     else \<exists>c w'. filter_Next S s w = Some (Inr c, w') \<and> fi_inv S w' \<and> is_node S c \<and> cm_hash c \<in> fi_todo S s w \<and>
       fi_todo S s w' = fi_todo S s w - {cm_hash c} \<and> fi_valid w' = fi_valid w \<and> fi_limit w' = fi_limit w \<and>
       fi_live S s w' \<subseteq> fi_live S s w \<and> fi_seen S w' = fi_seen S w \<union> (fi_live S s w - fi_live S s w'))"
proof (induction "card (fi_live S s w)" arbitrary: w rule: less_induct)
  case less
  have ok: "history_ok S" and err: "fi_lastErr w = None" using less.prems by (simp_all add: fi_inv_def)
  obtain l v where lv: "fi_limit w = Some l" "fi_valid w = Some v" using less.prems by (auto simp: fi_inv_def)
  let ?V = "fi_seen S w" and ?R = "flt_rel S (l s)"
  have seen: "cm_hash c \<in> ?V \<longleftrightarrow> hex_of S c \<in> fi_visited w" for c
    by (simp add: hex_of_def fi_seen_def)
  show ?case
  proof (cases rule: pop_new_cases [of S "fi_visited w" "fi_queue w"])
    case none
    then have "filter_Next S s w = Some (Inl EOF, filter_close EOF (w\<lparr>fi_queue := []\<rparr>))"
      by (subst filter_Next.simps) (simp add: popNewFromQueue_def err)
    moreover have "fi_live S s w = {}" using none(2) seen by (auto simp: fi_live_def live_eq_empty_iff)
    ultimately show ?thesis by (simp add: fi_todo_def)
  next
    case (new pre c q')
    have node: "is_node S c" using less.prems new(1) by (simp add: fi_inv_def)
    have c: "cm_hash c \<notin> ?V" using new(3) seen by simp
    let ?w2 = "w\<lparr>fi_queue := q', fi_visited := insert (hex_of S c) (fi_visited w)\<rparr>"
    have V2: "fi_seen S ?w2 = insert (cm_hash c) ?V" using ok by (simp add: fi_seen_def hex_of_def)
    obtain cs where cs: "(if \<not> l s c then addToQueue S (cm_parents c) ?w2 else (Inr (), ?w2)) =
        (Inr (), w\<lparr>fi_visited := insert (hex_of S c) (fi_visited w), fi_queue := q' @ cs\<rparr>)"
      "cm_hash ` set cs = ?R `` {cm_hash c} - insert (cm_hash c) ?V" "\<forall>c \<in> set cs. is_node S c"
    proof (cases "l s c")
      case True
      then show ?thesis by (intro that [of "[]"]) (simp_all add: flt_rel_node [OF node])
    next
      case False
      then show ?thesis
        using addToQueue_stored [OF ok history_parents [OF ok node], of ?w2] that V2
        by (auto simp: flt_rel_node [OF node])
    qed
    let ?w' = "w\<lparr>fi_visited := insert (hex_of S c) (fi_visited w), fi_queue := q' @ cs\<rparr>"
    have inv: "fi_inv S ?w'" using less.prems new(1) cs(3) by (auto simp: fi_inv_def)
    have front: "cm_hash ` set (fi_queue w) = cm_hash ` set pre \<union> insert (cm_hash c) (cm_hash ` set q')"
      by (simp add: new(1) image_Un)
    have "cm_hash ` set pre \<subseteq> ?V" using new(2) seen by auto
    then have "live ?R ?V (cm_hash ` set (fi_queue w)) = live ?R ?V (insert (cm_hash c) (cm_hash ` set q'))"
      unfolding front by (rule live_Un_seen)
    moreover have "live ?R (insert (cm_hash c) ?V) (cm_hash ` set (q' @ cs)) =
        live ?R ?V (insert (cm_hash c) (cm_hash ` set q')) - {cm_hash c}"
      by (rule live_accept [OF c]) (auto simp: image_Un cs(2))
    moreover have seen': "fi_seen S ?w' = insert (cm_hash c) ?V" using V2 by (simp add: fi_seen_def)
    ultimately have live': "fi_live S s ?w' = fi_live S s w - {cm_hash c}"
      by (simp add: fi_live_def lv)
    have mem: "cm_hash c \<in> fi_live S s w"
      using c by (auto simp: fi_live_def live_def new(1))
    have nxt: "filter_Next S s w = (if v s c then Some (Inr c, ?w') else filter_Next S s ?w')"
    proof (cases "l s c")
      case True
      with cs(1) have "?w' = ?w2" by simp
      then show ?thesis
        using True unfolding \<open>?w' = ?w2\<close> by (subst filter_Next.simps) (simp add: popNewFromQueue_def err new(4) lv)
    next
      case False
      with cs(1) have "addToQueue S (cm_parents c) ?w2 = (Inr (), ?w')" by simp
      with False show ?thesis
        by (subst filter_Next.simps) (simp add: popNewFromQueue_def err new(4) lv)
    qed
    show ?thesis
    proof (cases "v s c")
      case True
      have "cm_hash c \<in> fi_todo S s w" using True mem node by (simp add: fi_todo_def lv)
      moreover have "fi_todo S s ?w' = fi_todo S s w - {cm_hash c}"
        by (auto simp: fi_todo_def live' lv)
      ultimately show ?thesis
        using nxt True inv node live' seen' mem lv by (auto intro!: exI [of _ c])
    next
      case False
      have todo: "fi_todo S s ?w' = fi_todo S s w"
        using False node by (auto simp: fi_todo_def live' lv)
      have "card (fi_live S s ?w') < card (fi_live S s w)"
        unfolding live' by (rule card_Diff1_less [OF fi_live_finite [OF less.prems] mem])
      note IH = less.hyps [OF this inv]
      show ?thesis
      proof (cases "fi_todo S s ?w' = {}")
        case True
        with IH show ?thesis using False by (simp add: nxt todo)
      next
        case ne: False
        then obtain d w'' where d: "filter_Next S s ?w' = Some (Inr d, w'')" "fi_inv S w''" "is_node S d"
          "cm_hash d \<in> fi_todo S s ?w'" "fi_todo S s w'' = fi_todo S s ?w' - {cm_hash d}"
          "fi_valid w'' = fi_valid ?w'" "fi_limit w'' = fi_limit ?w'"
          "fi_live S s w'' \<subseteq> fi_live S s ?w'"
          "fi_seen S w'' = fi_seen S ?w' \<union> (fi_live S s ?w' - fi_live S s w'')"
          using IH by auto
        have "fi_seen S w'' = fi_seen S w \<union> (fi_live S s w - fi_live S s w'')"
          using d(8,9) mem unfolding live' seen' by auto
        moreover have "fi_live S s w'' \<subseteq> fi_live S s w" using d(8) unfolding live' by auto
        ultimately show ?thesis using nxt False ne d unfolding todo by (auto intro!: exI [of _ d])
      qed
    qed
  qed
qed

lemma NewFilterCommitIter_inv [simp]:
  "history_ok S \<Longrightarrow> is_node S c \<Longrightarrow> fi_inv S (NewFilterCommitIter c v l)"
  "fi_seen S (NewFilterCommitIter c v l) = {}"
  "fi_live S s (NewFilterCommitIter c v l) =
    (flt_rel S (case l of None \<Rightarrow> (\<lambda>_. False) | Some l \<Rightarrow> l s))\<^sup>* `` {cm_hash c}"
  by (simp_all add: fi_inv_def NewFilterCommitIter_def fi_live_def fi_seen_def live_all split: option.split)

text \<open>With filters that do not look at the callback's state.\<close>

interpretation filtered: commit_iter "filter_Next S s" "fi_todo S s" "fi_inv S" "is_node S" for S s
proof (rule commit_iterI)
  show "finite (fi_todo S s w)" if "fi_inv S w" for w
    using fi_live_finite [OF that] by (simp add: fi_todo_def)
  show "if fi_todo S s w = {} then \<exists>w'. filter_Next S s w = Some (Inl EOF, w')
      else \<exists>c w'. filter_Next S s w = Some (Inr c, w') \<and> fi_inv S w' \<and> is_node S c \<and>
        cm_hash c \<in> fi_todo S s w \<and> fi_todo S s w' = fi_todo S s w - {cm_hash c}" if "fi_inv S w" for w
    using filter_Next_step [OF that, of s] by (auto split: if_splits)
qed

end
