(* ===== verification/Merge_Base.thy ===== *)
theory Merge_Base
  imports Commit_Walk_Props
begin

section \<open>Merge bases: versionmgr/merge_base.go\<close>

text \<open>
  The search for the best common ancestors of two commits. The definitions follow the file;
  the callbacks of the walks are functions on the variables they capture. The properties say
  that \<open>IsAncestor\<close> decides reachability, that \<open>Independents\<close> keeps an independent subset from
  which every commit it was given can be reached, and that \<open>MergeBase\<close> returns exactly the
  common ancestors that no other common ancestor reaches.
\<close>

definition sortByCommitDateDesc :: "commit list \<Rightarrow> commit list" where
  "sortByCommitDateDesc commits = sort_key (\<lambda>c. - sig_when (cm_committer c)) commits"

fun indexOf :: "commit list \<Rightarrow> commit \<Rightarrow> int" where
  "indexOf [] target = -1"
| "indexOf (c # cs) target =
     (if cm_hash target = cm_hash c then 0
      else (let i = indexOf cs target in if i = -1 then -1 else i + 1))"

definition remove_commit :: "commit list \<Rightarrow> commit \<Rightarrow> commit list" where
  "remove_commit commits toDelete = filter (\<lambda>c. cm_hash c \<noteq> cm_hash toDelete) commits"

fun dedup_loop :: "commit_store \<Rightarrow> string set \<Rightarrow> commit list \<Rightarrow> commit list" where
  "dedup_loop S seen [] = []"
| "dedup_loop S seen (c # cs) =
     (if hex_of S c \<in> seen then dedup_loop S seen cs
      else c # dedup_loop S (insert (hex_of S c) seen) cs)"

definition removeDuplicated :: "commit_store \<Rightarrow> commit list \<Rightarrow> commit list" where
  "removeDuplicated S commits = dedup_loop S {} commits"

definition isInIndexCommitFilter :: "commit_store \<Rightarrow> string set \<Rightarrow> 's commit_filter" where
  "isInIndexCommitFilter S index = (\<lambda>_ c. hex_of S c \<in> index)"

subsection \<open>IsAncestor and the history of a commit\<close>

text \<open>\<open>IsAncestor\<close> returns the flag and the walk's error together.\<close>

definition IsAncestor :: "commit_store \<Rightarrow> commit \<Rightarrow> commit \<Rightarrow> (unit result \<times> bool) option" where
  "IsAncestor S c other =
     pre_ForEach S
       (\<lambda>comm found. if cm_hash comm \<noteq> cm_hash c then (Inr (), found) else (Inl ErrStop, True))
       (NewCommitPreorderIter S other {} []) False"

definition history_visit :: "commit_store \<Rightarrow> commit \<Rightarrow> string set visit" where
  "history_visit S excluded commit history =
     (if cm_hash commit = cm_hash excluded then (Inl ErrIsReachable, history)
      else (Inr (), insert (hex_of S commit) history))"

definition ancestorsIndex :: "commit_store \<Rightarrow> commit \<Rightarrow> commit \<Rightarrow> string set result option" where
  "ancestorsIndex S excluded starting =
     (if cm_hash excluded = cm_hash starting then Some (Inl ErrIsReachable)
      else (case bfs_ForEach S (history_visit S excluded) (NewCommitIterBSF S starting {} []) {} of
              None \<Rightarrow> None
            | Some (Inl e, _) \<Rightarrow> Some (Inl e)
            | Some (Inr _, history) \<Rightarrow> Some (Inr history)))"

subsection \<open>Independents\<close>

record ind_state =
  in_candidates :: "commit list"
  in_others :: "commit list"
  in_seen :: "string set"

text \<open>The loop \<open>for _, other := range others\<close> ranges over the slice it found.\<close>

fun prune_loop :: "commit \<Rightarrow> commit list \<Rightarrow> ind_state \<Rightarrow> ind_state" where
  "prune_loop fromAncestor [] st = st"
| "prune_loop fromAncestor (other # os) st =
     prune_loop fromAncestor os
       (if cm_hash fromAncestor = cm_hash other then
          st\<lparr>in_candidates := remove_commit (in_candidates st) other,
             in_others := remove_commit (in_others st) other\<rparr>
        else st)"

definition ind_visit :: "commit_store \<Rightarrow> ind_state visit" where
  "ind_visit S fromAncestor st =
     (let st' = prune_loop fromAncestor (in_others st) st in
      if length (in_candidates st') = 1 then (Inl ErrStop, st')
      else (Inr (), st'\<lparr>in_seen := insert (hex_of S fromAncestor) (in_seen st')\<rparr>))"

definition ind_limit :: "commit_store \<Rightarrow> ind_state commit_filter" where
  "ind_limit S st commit \<longleftrightarrow> hex_of S commit \<in> in_seen st"

partial_function (option) independents_loop ::
  "commit_store \<Rightarrow> nat \<Rightarrow> commit list \<Rightarrow> string set \<Rightarrow> commit list result option"
where
  "independents_loop S pos candidates seen =
     (let from = candidates ! pos;
          others = remove_commit candidates from
      in case filter_ForEach S (ind_visit S) (NewFilterCommitIter from None (Some (ind_limit S)))
           \<lparr>in_candidates = candidates, in_others = others, in_seen = seen\<rparr> of
           None \<Rightarrow> None
         | Some (res, st) \<Rightarrow>
             (case res of
                Inl e \<Rightarrow> Some (Inl e)
              | Inr _ \<Rightarrow>
                  (let nextPos = indexOf (in_candidates st) from + 1 in
                   if nextPos \<ge> int (length (in_candidates st)) then Some (Inr (in_candidates st))
                   else independents_loop S (nat nextPos) (in_candidates st) (in_seen st))))"

definition Independents :: "commit_store \<Rightarrow> commit list \<Rightarrow> commit list result option" where
  "Independents S commits =
     (let candidates = removeDuplicated S (sortByCommitDateDesc commits) in
      if length candidates < 2 then Some (Inr candidates)
      else independents_loop S 0 candidates {})"

subsection \<open>MergeBase\<close>

text \<open>The error of the walk from the older commit is dropped: \<open>_ = resIter.ForEach(...)\<close>.\<close>

definition MergeBase :: "commit_store \<Rightarrow> commit \<Rightarrow> commit \<Rightarrow> commit list result option" where
  "MergeBase S c other =
     (let sorted = sortByCommitDateDesc [c, other];
          newer = sorted ! 0;
          older = sorted ! 1
      in case ancestorsIndex S older newer of
           None \<Rightarrow> None
         | Some (Inl e) \<Rightarrow> if e = ErrIsReachable then Some (Inr [older]) else Some (Inl e)
         | Some (Inr newerHistory) \<Rightarrow>
             (let inNewerHistory = isInIndexCommitFilter S newerHistory in
              case filter_ForEach S (\<lambda>commit res. (Inr (), res @ [commit]))
                  (NewFilterCommitIter older (Some inNewerHistory) (Some inNewerHistory)) [] of
                None \<Rightarrow> None
              | Some (_, res) \<Rightarrow> Independents S res))"

subsection \<open>Callbacks over a list of commits\<close>

lemma visit_all_find:
  "visit_all (\<lambda>comm found. if cm_hash comm \<noteq> h then (Inr (), found) else (Inl ErrStop, True)) cs b =
    (Inr (), b \<or> h \<in> cm_hash ` set cs)"
  by (induction cs arbitrary: b) auto

lemma visit_all_history:
  "visit_all (history_visit S x) cs hs =
    (if cm_hash x \<in> cm_hash ` set cs then (Inl ErrIsReachable, snd (visit_all (history_visit S x) cs hs))
     else (Inr (), hs \<union> hex_of S ` set cs))"
  by (induction cs arbitrary: hs) (auto simp: history_visit_def)

lemma visit_all_collect: "visit_all (\<lambda>c res. (Inr (), res @ [c])) cs rs = (Inr (), rs @ cs)"
  by (induction cs arbitrary: rs) auto

lemma IsAncestor_result:
  assumes "history_ok S" "is_node S other"
  shows "IsAncestor S c other = Some (Inr (), cm_hash c \<in> ancestors S (cm_hash other))"
proof -
  have inv: "pre_inv S (NewCommitPreorderIter S other {} [])"
    using assms by simp
  have todo: "pre_todo S (NewCommitPreorderIter S other {} []) = ancestors S (cm_hash other)"
    using assms by (simp add: live_all ancestors_def)
  obtain cs where cs: "cm_hash ` set cs = ancestors S (cm_hash other)"
    "\<And>(f :: bool visit) s. iter_ForEach (\<lambda>_ w. Some (pre_Next S w)) f
        (NewCommitPreorderIter S other {} []) s = Some (visit_all f cs s)"
    using pre.ForEach_visits [OF inv] unfolding todo by blast
  show ?thesis
    unfolding IsAncestor_def pre_ForEach_def cs(2) visit_all_find cs(1) by simp
qed

lemma ancestorsIndex_correct:
  assumes "history_ok S" "is_node S starting"
  shows "ancestorsIndex S excluded starting =
    Some (if cm_hash excluded \<in> ancestors S (cm_hash starting) then Inl ErrIsReachable
          else Inr (cs_Hex S ` ancestors S (cm_hash starting)))"
proof -
  have inv: "bfs_inv S (NewCommitIterBSF S starting {} [])" using assms by simp
  have todo: "bfs_todo S (NewCommitIterBSF S starting {} []) = ancestors S (cm_hash starting)"
    using assms by (simp add: live_all ancestors_def)
  obtain cs where cs: "cm_hash ` set cs = ancestors S (cm_hash starting)"
    "\<And>(f :: string set visit) s. iter_ForEach (\<lambda>_ w. Some (bfs_Next S w)) f
        (NewCommitIterBSF S starting {} []) s = Some (visit_all f cs s)"
    using bfs.ForEach_visits [OF inv] unfolding todo by blast
  have "hex_of S ` set cs = cs_Hex S ` ancestors S (cm_hash starting)"
    unfolding cs(1) [symmetric] by (auto simp: hex_of_def)
  moreover have "cm_hash starting \<in> ancestors S (cm_hash starting)" by (simp add: ancestors_def)
  ultimately show ?thesis
    unfolding ancestorsIndex_def bfs_ForEach_def cs(2)
    by (subst visit_all_history) (simp add: cs(1))
qed

subsection \<open>A filtered walk whose callback moves the limit only behind it\<close>

lemma filter_ForEach_stable:
  assumes "fi_inv S w" "fi_limit w = Some l" "fi_valid w = Some (\<lambda>_. v)" "J s (fi_seen S w)"
    "\<And>s V c. J s V \<Longrightarrow> is_node S c \<Longrightarrow> cm_hash c \<notin> V \<Longrightarrow> l s c = l0 c"
    "\<And>s V c. J s V \<Longrightarrow> is_node S c \<Longrightarrow> J (snd (f c s)) (insert (cm_hash c) V)"
    "\<And>s V V'. J s V \<Longrightarrow> V \<subseteq> V' \<Longrightarrow> J s V'"
  shows "\<exists>cs. distinct (map cm_hash cs) \<and> (\<forall>c \<in> set cs. is_node S c) \<and>
    cm_hash ` set cs = {h \<in> live (flt_rel S l0) (fi_seen S w) (cm_hash ` set (fi_queue w)). valid_hash S v h} \<and>
    filter_ForEach S f w s = Some (visit_all f cs s)"
proof -
  let ?live = "\<lambda>w. live (flt_rel S l0) (fi_seen S w) (cm_hash ` set (fi_queue w))"
  have same: "fi_live S s w = ?live w"
    if "fi_limit w = Some l" "J s (fi_seen S w)" "history_ok S" for s w
  proof -
    have "flt_rel S (l s) `` {h} = flt_rel S l0 `` {h}" if h: "h \<notin> fi_seen S w" for h
    proof -
      have "l s c = l0 c" if "cs_Commit S h = Inr c" for c
        using assms(5) [OF \<open>J s (fi_seen S w)\<close>, of c] is_nodeI [OF \<open>history_ok S\<close> that] h by simp
      then show ?thesis by (auto simp: flt_rel_def)
    qed
    then show ?thesis unfolding fi_live_def that(1) option.sel by (rule live_cong)
  qed
  have todo: "fi_todo S s w = {h \<in> ?live w. valid_hash S v h}"
    if "fi_limit w = Some l" "J s (fi_seen S w)" "fi_inv S w" "fi_valid w = Some (\<lambda>_. v)" for s w
    using same [OF that(1,2)] that(3,4) by (simp add: fi_todo_def fi_inv_def)
  have fin: "finite (fi_todo S s w)" if "fi_inv S w" for s w
    using fi_live_finite [OF that] by (simp add: fi_todo_def)
  show ?thesis
    using assms(1-4)
  proof (induction "card (fi_todo S s w)" arbitrary: s w)
    case 0
    then have none: "fi_todo S s w = {}" using fin [OF 0(2)] by simp
    then obtain w' where "filter_Next S s w = Some (Inl EOF, w')"
      using filter_Next_step [OF 0(2), of s] by auto
    then have "filter_ForEach S f w s = Some (visit_all f [] s)"
      unfolding filter_ForEach_def by (subst iter_ForEach.simps) simp
    then show ?case using none todo [OF 0(3,5,2,4)] by (intro exI [of _ "[]"]) simp
  next
    case (Suc n)
    have ne: "fi_todo S s w \<noteq> {}" using Suc.hyps(2) by auto
    obtain c w' where step: "filter_Next S s w = Some (Inr c, w')" "fi_inv S w'" "is_node S c"
      "cm_hash c \<in> fi_todo S s w" "fi_todo S s w' = fi_todo S s w - {cm_hash c}"
      "fi_valid w' = fi_valid w" "fi_limit w' = fi_limit w"
      "fi_seen S w' = fi_seen S w \<union> (fi_live S s w - fi_live S s w')"
      using filter_Next_step [OF Suc.prems(1), of s] ne by auto
    have valid: "valid_hash S (the (fi_valid w') s) (cm_hash c)" and live: "cm_hash c \<in> fi_live S s w"
      using step(4,6) by (simp_all add: fi_todo_def)
    have "cm_hash c \<notin> fi_todo S s w'" using step(5) by simp
    then have "cm_hash c \<notin> fi_live S s w'" using valid by (simp add: fi_todo_def)
    then have sub: "insert (cm_hash c) (fi_seen S w) \<subseteq> fi_seen S w'" using step(8) live by simp
    let ?s = "snd (f c s)"
    have J': "J ?s (fi_seen S w')" by (rule assms(7) [OF assms(6) [OF Suc.prems(4) step(3)] sub])
    have Js: "J s (fi_seen S w')" using assms(7) [OF Suc.prems(4)] sub by simp
    have lim: "fi_limit w' = Some l" "fi_valid w' = Some (\<lambda>_. v)"
      using step(6,7) Suc.prems(2,3) by simp_all
    have T': "fi_todo S ?s w' = fi_todo S s w - {cm_hash c}"
      unfolding todo [OF lim(1) J' step(2) lim(2)] todo [OF lim(1) Js step(2) lim(2), symmetric] by (rule step(5))
    then have "n = card (fi_todo S ?s w')"
      using Suc.hyps(2) step(4) fin [OF Suc.prems(1)] by simp
    from Suc.hyps(1) [OF this step(2) lim J'] obtain cs where cs: "distinct (map cm_hash cs)"
      "\<forall>c \<in> set cs. is_node S c" "cm_hash ` set cs = {h \<in> ?live w'. valid_hash S v h}"
      "filter_ForEach S f w' ?s = Some (visit_all f cs ?s)"
      by blast
    have hashes: "cm_hash ` set cs = fi_todo S s w - {cm_hash c}"
      unfolding cs(3) T' [symmetric] by (rule todo [OF lim(1) J' step(2) lim(2), symmetric])
    have "filter_ForEach S f w s = Some (visit_all f (c # cs) s)"
      unfolding filter_ForEach_def using cs(4)
      by (subst iter_ForEach.simps, cases "f c s")
        (simp add: step(1) filter_ForEach_def split: sum.split)
    moreover have "cm_hash ` set (c # cs) = {h \<in> ?live w. valid_hash S v h}"
      unfolding todo [OF Suc.prems(2,4,1,3), symmetric] using hashes step(4) by auto
    moreover have "distinct (map cm_hash (c # cs))" using cs(1) hashes by auto
    moreover have "\<forall>c \<in> set (c # cs). is_node S c" using cs(2) step(3) by simp
    ultimately show ?case by blast
  qed
qed


lemma filter_ForEach_static:
  assumes "history_ok S" "is_node S c"
  shows "\<exists>cs. distinct (map cm_hash cs) \<and> (\<forall>c \<in> set cs. is_node S c) \<and>
    cm_hash ` set cs = {h \<in> (flt_rel S l)\<^sup>* `` {cm_hash c}. valid_hash S v h} \<and>
    filter_ForEach S f (NewFilterCommitIter c (Some (\<lambda>_. v)) (Some (\<lambda>_. l))) s = Some (visit_all f cs s)"
  using filter_ForEach_stable [of S "NewFilterCommitIter c (Some (\<lambda>_. v)) (Some (\<lambda>_. l))" "\<lambda>_. l" v
      "\<lambda>_ _. True" s l f] assms
  by (simp add: fi_seen_def live_all NewFilterCommitIter_def fi_inv_def)

subsection \<open>Lists of commits\<close>

lemma distinct_of_map: "distinct (map f xs) \<Longrightarrow> distinct xs"
  by (simp add: distinct_map)

lemma sortByCommitDateDesc_simps [simp]:
  "set (sortByCommitDateDesc cs) = set cs" "length (sortByCommitDateDesc cs) = length cs"
  by (simp_all add: sortByCommitDateDesc_def)

lemma dedup_loop_props:
  assumes "history_ok S"
  shows "distinct (map cm_hash (dedup_loop S seen cs)) \<and> set (dedup_loop S seen cs) \<subseteq> set cs \<and>
    cm_hash ` set (dedup_loop S seen cs) = cm_hash ` set cs - seen_hashes S seen"
proof (induction cs arbitrary: seen)
  case Nil
  then show ?case by simp
next
  case (Cons c cs)
  show ?case
  proof (cases "hex_of S c \<in> seen")
    case True
    then show ?thesis using Cons [of seen] by (auto simp: hex_of_def)
  next
    case False
    let ?seen = "insert (hex_of S c) seen"
    have seen: "seen_hashes S ?seen = insert (cm_hash c) (seen_hashes S seen)"
      using assms by (simp add: hex_of_def)
    have "cm_hash ` set (dedup_loop S ?seen cs) = cm_hash ` set cs - insert (cm_hash c) (seen_hashes S seen)"
      using Cons [of ?seen] unfolding seen by blast
    moreover have "cm_hash c \<notin> seen_hashes S seen" using False by (simp add: hex_of_def)
    ultimately show ?thesis using False Cons [of ?seen] by auto
  qed
qed

lemma removeDuplicated_props:
  assumes "history_ok S"
  shows "distinct (map cm_hash (removeDuplicated S cs))" "set (removeDuplicated S cs) \<subseteq> set cs"
    "cm_hash ` set (removeDuplicated S cs) = cm_hash ` set cs"
  using dedup_loop_props [OF assms, of "{}" cs] by (simp_all add: removeDuplicated_def)

lemma indexOf_append:
  assumes "cm_hash c \<notin> cm_hash ` set xs"
  shows "indexOf (xs @ c # ys) c = int (length xs)"
  using assms by (induction xs) auto

lemma remove_commit_cong: "cm_hash c = cm_hash d \<Longrightarrow> remove_commit cs c = remove_commit cs d"
  by (simp add: remove_commit_def)

lemma remove_commit_idem [simp]: "remove_commit (remove_commit cs c) c = remove_commit cs c"
  by (simp add: remove_commit_def)

lemma remove_commit_commute: "remove_commit (remove_commit cs c) d = remove_commit (remove_commit cs d) c"
  by (simp add: remove_commit_def conj_commute)

lemma remove_commit_absent: "cm_hash c \<notin> cm_hash ` set cs \<Longrightarrow> remove_commit cs c = cs"
  by (auto simp: remove_commit_def filter_id_conv image_iff)

lemma prune_loop_eq:
  "prune_loop a os st =
     (if cm_hash a \<in> cm_hash ` set os then
        st\<lparr>in_candidates := remove_commit (in_candidates st) a, in_others := remove_commit (in_others st) a\<rparr>
      else st)"
proof (induction os arbitrary: st)
  case Nil
  then show ?case by simp
next
  case (Cons other os)
  show ?case
  proof (cases "cm_hash a = cm_hash other")
    case True
    then show ?thesis
      using remove_commit_cong [OF True] by (simp add: Cons.IH)
  next
    case False
    then show ?thesis by (simp add: Cons.IH)
  qed
qed

text \<open>The candidates that the walk from \<open>from\<close> keeps after it has met the commits \<open>cs\<close>.\<close>

definition kept :: "commit \<Rightarrow> commit list \<Rightarrow> commit list \<Rightarrow> commit list" where
  "kept from cs C = filter (\<lambda>x. cm_hash x \<notin> cm_hash ` set cs \<or> cm_hash x = cm_hash from) C"

lemma kept_Nil [simp]: "kept from [] C = C"
  by (simp add: kept_def)

lemma kept_Cons: "kept from (a # cs) C = kept from cs (kept from [a] C)"
  by (auto simp: kept_def intro: filter_cong)

lemma ind_visit_eq:
  assumes "in_others st = remove_commit (in_candidates st) from"
  shows "ind_visit S a st =
    (let C = kept from [a] (in_candidates st);
         st' = st\<lparr>in_candidates := C, in_others := remove_commit C from\<rparr>
     in if length C = 1 then (Inl ErrStop, st')
        else (Inr (), st'\<lparr>in_seen := insert (hex_of S a) (in_seen st)\<rparr>))"
proof -
  have C: "kept from [a] (in_candidates st) =
      (if cm_hash a = cm_hash from then in_candidates st else remove_commit (in_candidates st) a)"
    by (auto simp: kept_def remove_commit_def filter_id_conv intro: filter_cong)
  have "prune_loop a (in_others st) st =
      st\<lparr>in_candidates := kept from [a] (in_candidates st),
         in_others := remove_commit (kept from [a] (in_candidates st)) from\<rparr>"
  proof (cases "cm_hash a \<in> cm_hash ` set (in_others st)")
    case True
    then have ne: "cm_hash a \<noteq> cm_hash from" unfolding assms by (auto simp: remove_commit_def)
    have "remove_commit (in_others st) a = remove_commit (remove_commit (in_candidates st) a) from"
      unfolding assms by (rule remove_commit_commute)
    with True ne show ?thesis by (simp add: prune_loop_eq C)
  next
    case False
    then have "cm_hash a \<noteq> cm_hash from \<Longrightarrow> remove_commit (in_candidates st) a = in_candidates st"
      unfolding assms by (intro remove_commit_absent) (auto simp: remove_commit_def)
    with False show ?thesis using assms by (simp add: prune_loop_eq C)
  qed
  then show ?thesis by (simp add: ind_visit_def Let_def)
qed

lemma visit_all_ind:
  assumes "in_others st = remove_commit (in_candidates st) from"
  shows "\<exists>st' pre. visit_all (ind_visit S) cs st = (Inr (), st') \<and> set pre \<subseteq> set cs \<and>
    in_candidates st' = kept from pre (in_candidates st) \<and>
    (length (in_candidates st') = 1 \<or> set pre = set cs \<and> in_seen st' = in_seen st \<union> hex_of S ` set cs)"
  using assms
proof (induction cs arbitrary: st)
  case Nil
  then show ?case by (intro exI [of _ st] exI [of _ "[]"]) simp
next
  case (Cons a cs)
  let ?C = "kept from [a] (in_candidates st)"
  show ?case
  proof (cases "length ?C = 1")
    case True
    then show ?thesis
      using ind_visit_eq [OF Cons.prems, of S a]
      by (intro exI [of _ "st\<lparr>in_candidates := ?C, in_others := remove_commit ?C from\<rparr>"] exI [of _ "[a]"])
        (simp add: Let_def)
  next
    case False
    let ?st = "st\<lparr>in_candidates := ?C, in_others := remove_commit ?C from,
        in_seen := insert (hex_of S a) (in_seen st)\<rparr>"
    have visit: "ind_visit S a st = (Inr (), ?st)"
      using ind_visit_eq [OF Cons.prems, of S a] False by (simp add: Let_def)
    obtain st' pre where IH: "visit_all (ind_visit S) cs ?st = (Inr (), st')" "set pre \<subseteq> set cs"
      "in_candidates st' = kept from pre ?C"
      "length (in_candidates st') = 1 \<or> set pre = set cs \<and> in_seen st' = in_seen ?st \<union> hex_of S ` set cs"
      using Cons.IH [of ?st] by auto
    have "in_candidates st' = kept from (a # pre) (in_candidates st)"
      unfolding IH(3) by (rule kept_Cons [symmetric])
    then show ?thesis
      using IH visit by (intro exI [of _ st'] exI [of _ "a # pre"]) auto
  qed
qed


subsection \<open>Independents\<close>

definition reaches :: "commit_store \<Rightarrow> commit \<Rightarrow> commit \<Rightarrow> bool" where
  "reaches S c d \<longleftrightarrow> (cm_hash c, cm_hash d) \<in> (parent_rel S)\<^sup>*"

lemma reaches_refl [simp]: "reaches S c c"
  by (simp add: reaches_def)

lemma reaches_trans: "reaches S a b \<Longrightarrow> reaches S b c \<Longrightarrow> reaches S a c"
  by (simp add: reaches_def)

lemma acyclic_antisym:
  "acyclic r \<Longrightarrow> (x, y) \<in> r\<^sup>* \<Longrightarrow> (y, x) \<in> r\<^sup>* \<Longrightarrow> x = y"
  using acyclic_impl_antisym_rtrancl antisymD by fastforce

lemma flt_star_sub: "(x, y) \<in> (flt_rel S l)\<^sup>* \<Longrightarrow> (x, y) \<in> (parent_rel S)\<^sup>*"
  using rtrancl_mono [OF flt_rel_sub] by blast

text \<open>A path either stays below the limit or meets a commit at it.\<close>

lemma flt_path:
  assumes "(x, y) \<in> (parent_rel S)\<^sup>*" "(a, x) \<in> (flt_rel S l)\<^sup>*"
  shows "(a, y) \<in> (flt_rel S l)\<^sup>* \<or>
    (\<exists>z. (a, z) \<in> (flt_rel S l)\<^sup>* \<and> valid_hash S l z \<and> (z, y) \<in> (parent_rel S)\<^sup>*)"
  using assms
proof (induction rule: rtrancl_induct)
  case base
  then show ?case by simp
next
  case (step y z)
  show ?case
  proof (cases "\<exists>z. (a, z) \<in> (flt_rel S l)\<^sup>* \<and> valid_hash S l z \<and> (z, y) \<in> (parent_rel S)\<^sup>*")
    case True
    with step(2) show ?thesis by (meson rtrancl.rtrancl_into_rtrancl)
  next
    case False
    then have y: "(a, y) \<in> (flt_rel S l)\<^sup>*" "\<not> valid_hash S l y" using step by auto
    then have "(y, z) \<in> flt_rel S l"
      using step(2) by (auto simp: flt_rel_def parent_rel_def valid_hash_def)
    with y(1) show ?thesis by (meson rtrancl.rtrancl_into_rtrancl)
  qed
qed

definition independent :: "commit_store \<Rightarrow> commit list \<Rightarrow> bool" where
  "independent S C \<longleftrightarrow> (\<forall>x \<in> set C. \<forall>y \<in> set C. reaches S x y \<longrightarrow> x = y)"

definition covers :: "commit_store \<Rightarrow> commit list \<Rightarrow> commit list \<Rightarrow> bool" where
  "covers S C D \<longleftrightarrow> (\<forall>d \<in> set D. \<exists>c \<in> set C. reaches S c d)"

definition swept :: "commit_store \<Rightarrow> string set \<Rightarrow> commit list \<Rightarrow> bool" where
  "swept S X C \<longleftrightarrow> (\<forall>h \<in> seen_hashes S X. \<forall>y \<in> set C. (h, cm_hash y) \<in> (parent_rel S)\<^sup>* \<longrightarrow> h = cm_hash y)"

text \<open>The walk from one candidate.\<close>

lemma ind_walk:
  assumes ok: "history_ok S" and acyc: "acyclic (parent_rel S)" and nodes: "\<forall>c \<in> set C. is_node S c"
    and "from \<in> set C" and swept: "swept S X C"
  shows "\<exists>st. filter_ForEach S (ind_visit S) (NewFilterCommitIter from None (Some (ind_limit S)))
      \<lparr>in_candidates = C, in_others = remove_commit C from, in_seen = X\<rparr> = Some (Inr (), st) \<and>
    covers S (in_candidates st) C \<and> (\<exists>pre. in_candidates st = kept from pre C) \<and>
    (length (in_candidates st) = 1 \<or>
     swept S (in_seen st) (in_candidates st) \<and> X \<subseteq> in_seen st \<and> hex_of S from \<in> in_seen st)"
proof -
  have node: "is_node S from" using nodes assms(4) by blast
  let ?l = "\<lambda>c. hex_of S c \<in> X" and ?F = "flt_rel S (\<lambda>c. hex_of S c \<in> X)"
  let ?w = "NewFilterCommitIter from None (Some (ind_limit S))"
  let ?st = "\<lparr>in_candidates = C, in_others = remove_commit C from, in_seen = X\<rparr>"
  let ?J = "\<lambda>(st :: ind_state) V. X \<subseteq> in_seen st \<and> seen_hashes S (in_seen st) \<subseteq> seen_hashes S X \<union> V"
  have seen_visit: "in_seen (snd (ind_visit S c st)) = in_seen st \<or>
      in_seen (snd (ind_visit S c st)) = insert (hex_of S c) (in_seen st)" for c st
    by (auto simp: ind_visit_def Let_def prune_loop_eq)
  have "\<exists>cs. distinct (map cm_hash cs) \<and> (\<forall>c \<in> set cs. is_node S c) \<and>
    cm_hash ` set cs = {h \<in> live ?F (fi_seen S ?w) (cm_hash ` set (fi_queue ?w)). valid_hash S (\<lambda>_. True) h} \<and>
    filter_ForEach S (ind_visit S) ?w ?st = Some (visit_all (ind_visit S) cs ?st)"
  proof (rule filter_ForEach_stable [where l = "ind_limit S" and J = ?J])
    show "fi_inv S ?w" by (simp add: ok node)
    show "fi_limit ?w = Some (ind_limit S)" "fi_valid ?w = Some (\<lambda>_ _. True)"
      by (simp_all add: NewFilterCommitIter_def)
    show "?J ?st (fi_seen S ?w)" by simp
  next
    fix s :: ind_state and V c
    assume J: "?J s V" and c: "is_node S c"
    { assume "cm_hash c \<notin> V"
      with J show "ind_limit S s c = ?l c" by (auto simp: ind_limit_def hex_of_def) }
    show "?J (snd (ind_visit S c s)) (insert (cm_hash c) V)"
      using seen_visit [of c s] J ok by (auto simp: hex_of_def)
  qed auto
  then obtain cs where cs: "\<forall>c \<in> set cs. is_node S c" "filter_ForEach S (ind_visit S) ?w ?st = Some (visit_all (ind_visit S) cs ?st)"
    "cm_hash ` set cs = {h \<in> live ?F {} {cm_hash from}. valid_hash S (\<lambda>_. True) h}"
    by (auto simp: fi_seen_def NewFilterCommitIter_def)
  have "valid_hash S (\<lambda>_. True) h" if "(cm_hash from, h) \<in> ?F\<^sup>*" for h
  proof -
    have "(cm_hash from, h) \<in> (parent_rel S)\<^sup>*" by (rule flt_star_sub [OF that])
    then have "h \<in> stored_hashes S"
      using is_node_stored [OF node] parent_rel_stored [OF ok] by (induction rule: rtrancl_induct) auto
    then show ?thesis by (simp add: stored_hashes_def valid_hash_def)
  qed
  then have hashes: "cm_hash ` set cs = ?F\<^sup>* `` {cm_hash from}" unfolding cs(3) live_all by auto
  obtain st pre where st: "visit_all (ind_visit S) cs ?st = (Inr (), st)" "set pre \<subseteq> set cs"
    "in_candidates st = kept from pre C"
    "length (in_candidates st) = 1 \<or> set pre = set cs \<and> in_seen st = X \<union> hex_of S ` set cs"
    using visit_all_ind [of ?st "from" S cs] by auto
  have kept_from: "from \<in> set (kept from pre C)" using assms(4) by (simp add: kept_def)
  have "covers S (in_candidates st) C"
    unfolding covers_def
  proof
    fix d
    assume d: "d \<in> set C"
    show "\<exists>c \<in> set (in_candidates st). reaches S c d"
    proof (cases "d \<in> set (kept from pre C)")
      case True
      then show ?thesis unfolding st(3) by (intro bexI [of _ d]) simp_all
    next
      case False
      then have "cm_hash d \<in> cm_hash ` set cs" using d st(2) by (auto simp: kept_def)
      then have "reaches S from d" unfolding hashes reaches_def by (auto dest: flt_star_sub)
      then show ?thesis unfolding st(3) using kept_from by blast
    qed
  qed
  moreover have "swept S (in_seen st) (in_candidates st) \<and> X \<subseteq> in_seen st \<and> hex_of S from \<in> in_seen st"
    if seen: "set pre = set cs" "in_seen st = X \<union> hex_of S ` set cs"
  proof (intro conjI)
    have mem: "cm_hash from \<in> cm_hash ` set cs" unfolding hashes by simp
    then show "hex_of S from \<in> in_seen st" unfolding seen(2) by (auto simp: hex_of_def image_iff)
    show "X \<subseteq> in_seen st" unfolding seen(2) by simp
    have stays: "cm_hash y = cm_hash from" if "y \<in> set (in_candidates st)" "(cm_hash from, cm_hash y) \<in> ?F\<^sup>*" for y
      using that hashes seen(1) unfolding st(3) kept_def by auto
    show "swept S (in_seen st) (in_candidates st)"
      unfolding swept_def
    proof (intro ballI impI)
      fix h y
      assume h: "h \<in> seen_hashes S (in_seen st)" and y: "y \<in> set (in_candidates st)"
        and hy: "(h, cm_hash y) \<in> (parent_rel S)\<^sup>*"
      have yC: "y \<in> set C" using y unfolding st(3) kept_def by simp
      show "h = cm_hash y"
      proof (cases "h \<in> seen_hashes S X")
        case True
        then show ?thesis using swept yC hy by (auto simp: swept_def)
      next
        case False
        then have h: "(cm_hash from, h) \<in> ?F\<^sup>*"
          using h ok hashes unfolding seen(2) by (auto simp: hex_of_def)
        have "(cm_hash from, cm_hash y) \<in> ?F\<^sup>*"
          using flt_path [OF hy h]
        proof
          assume "\<exists>z. (cm_hash from, z) \<in> ?F\<^sup>* \<and> valid_hash S ?l z \<and> (z, cm_hash y) \<in> (parent_rel S)\<^sup>*"
          then obtain z where z: "(cm_hash from, z) \<in> ?F\<^sup>*" "valid_hash S ?l z" "(z, cm_hash y) \<in> (parent_rel S)\<^sup>*"
            by blast
          then have "z \<in> seen_hashes S X" using is_nodeI [OF ok] by (auto simp: valid_hash_def hex_of_def)
          then have "z = cm_hash y" using swept yC z(3) by (auto simp: swept_def)
          with z(1) show ?thesis by simp
        qed
        then have "cm_hash y = cm_hash from" by (rule stays [OF y])
        with hy flt_star_sub [OF h] acyclic_antisym [OF acyc] show ?thesis by metis
      qed
    qed
  qed
  ultimately show ?thesis using cs(2) st by auto
qed


lemma covers_trans: "covers S C D \<Longrightarrow> covers S C' C \<Longrightarrow> covers S C' D"
  unfolding covers_def using reaches_trans by blast

lemma swept_independent:
  assumes "swept S X C" "\<forall>c \<in> set C. hex_of S c \<in> X" "\<forall>c \<in> set C. is_node S c"
  shows "independent S C"
  unfolding independent_def
proof (intro ballI impI)
  fix x y
  assume xy: "x \<in> set C" "y \<in> set C" "reaches S x y"
  have "cm_hash x \<in> seen_hashes S X" using assms(2) xy(1) by (simp add: hex_of_def)
  then have "cm_hash x = cm_hash y" using assms(1) xy(2,3) by (simp add: swept_def reaches_def)
  with assms(3) xy(1,2) is_node_eq show "x = y" by blast
qed

lemma independents_loop_correct:
  assumes ok: "history_ok S" and acyc: "acyclic (parent_rel S)"
  shows "C = A @ c # B \<Longrightarrow> \<forall>c \<in> set C. is_node S c \<Longrightarrow> distinct (map cm_hash C) \<Longrightarrow> covers S C D \<Longrightarrow>
    swept S X C \<Longrightarrow> \<forall>a \<in> set A. hex_of S a \<in> X \<Longrightarrow> set C \<subseteq> set D \<Longrightarrow>
    \<exists>R. independents_loop S (length A) C X = Some (Inr R) \<and> covers S R D \<and> independent S R \<and>
      set R \<subseteq> set D \<and> distinct (map cm_hash R)"
proof (induction "length B" arbitrary: A c B C X rule: less_induct)
  case less
  note C = less.prems(1)
  have mem: "c \<in> set C" unfolding C by simp
  obtain st pre where st: "filter_ForEach S (ind_visit S) (NewFilterCommitIter c None (Some (ind_limit S)))
      \<lparr>in_candidates = C, in_others = remove_commit C c, in_seen = X\<rparr> = Some (Inr (), st)"
    "covers S (in_candidates st) C" "in_candidates st = kept c pre C"
    "length (in_candidates st) = 1 \<or>
      swept S (in_seen st) (in_candidates st) \<and> X \<subseteq> in_seen st \<and> hex_of S c \<in> in_seen st"
    using ind_walk [OF ok acyc less.prems(2) mem less.prems(5)] by blast
  let ?A = "kept c pre A" and ?B = "kept c pre B"
  have C': "in_candidates st = ?A @ c # ?B" unfolding st(3) C by (simp add: kept_def)
  have sub: "set ?A \<subseteq> set A" "set ?B \<subseteq> set B" by (auto simp: kept_def)
  have dist: "distinct (map cm_hash (in_candidates st))"
    unfolding st(3) kept_def by (rule distinct_map_filter [OF less.prems(3)])
  have nodes: "\<forall>c \<in> set (in_candidates st). is_node S c"
    using less.prems(2) unfolding st(3) kept_def by simp
  have cov: "covers S (in_candidates st) D" by (rule covers_trans [OF less.prems(4) st(2)])
  have in_D: "set (in_candidates st) \<subseteq> set D" using less.prems(7) unfolding st(3) kept_def by auto
  have npos: "indexOf (in_candidates st) c = int (length ?A)"
    unfolding C' using dist C' by (intro indexOf_append) auto
  have cand: "C ! length A = c" unfolding C by simp
  show ?case
  proof (cases ?B)
    case Nil
    then have loop: "independents_loop S (length A) C X = Some (Inr (in_candidates st))"
      using st(1) npos by (subst independents_loop.simps) (simp add: cand C')
    have "independent S (in_candidates st)"
    proof (cases "length (in_candidates st) = 1")
      case True
      then obtain x where "in_candidates st = [x]" by (auto simp: length_Suc_conv)
      then show ?thesis by (simp add: independent_def)
    next
      case False
      then show ?thesis
        using st(4) nodes less.prems(6) sub(1) by (intro swept_independent [of S "in_seen st"]) (auto simp: C' Nil)
    qed
    with loop cov in_D dist show ?thesis by blast
  next
    case (Cons b B')
    then have "length (in_candidates st) \<noteq> 1" by (simp add: C')
    then have seen: "swept S (in_seen st) (in_candidates st)" "X \<subseteq> in_seen st" "hex_of S c \<in> in_seen st"
      using st(4) by blast+
    have loop: "independents_loop S (length A) C X =
        independents_loop S (length (?A @ [c])) (in_candidates st) (in_seen st)"
      using st(1) npos Cons by (subst independents_loop.simps) (simp add: cand C' nat_add_distrib)
    have shorter: "length B' < length B"
      using Cons length_filter_le [of "\<lambda>x. cm_hash x \<notin> cm_hash ` set pre \<or> cm_hash x = cm_hash c" B]
      unfolding kept_def by simp
    have split: "in_candidates st = (?A @ [c]) @ b # B'" by (simp add: C' Cons)
    have marked: "\<forall>a \<in> set (?A @ [c]). hex_of S a \<in> in_seen st"
      using less.prems(6) sub(1) seen by auto
    show ?thesis
      unfolding loop by (rule less.hyps [OF shorter split nodes dist cov seen(1) marked in_D])
  qed
qed

lemma Independents_result:
  assumes ok: "history_ok S" and acyc: "acyclic (parent_rel S)" and nodes: "\<forall>c \<in> set D. is_node S c"
  shows "\<exists>R. Independents S D = Some (Inr R) \<and> covers S R D \<and> independent S R \<and> set R \<subseteq> set D \<and>
    distinct (map cm_hash R)"
proof -
  let ?C = "removeDuplicated S (sortByCommitDateDesc D)"
  note dup = removeDuplicated_props [OF ok, of "sortByCommitDateDesc D"]
  have sub: "set ?C \<subseteq> set D" using dup(2) by simp
  have node: "\<forall>c \<in> set ?C. is_node S c" using sub nodes by blast
  have cov: "covers S ?C D"
    unfolding covers_def
  proof
    fix d
    assume "d \<in> set D"
    then have "cm_hash d \<in> cm_hash ` set ?C" unfolding dup(3) by simp
    then show "\<exists>c \<in> set ?C. reaches S c d" by (auto simp: reaches_def)
  qed
  show ?thesis
  proof (cases "length ?C < 2")
    case True
    have "independent S ?C"
    proof (cases ?C)
      case (Cons x xs)
      with True have "?C = [x]" by simp
      then show ?thesis by (simp add: independent_def)
    qed (simp add: independent_def)
    with True cov sub dup(1) show ?thesis by (auto simp: Independents_def Let_def)
  next
    case False
    then obtain x xs where C: "?C = [] @ x # xs" by (cases ?C) auto
    have "swept S {} ?C" by (simp add: swept_def)
    then have "\<exists>R. independents_loop S (length ([] :: commit list)) ?C {} = Some (Inr R) \<and> covers S R D \<and>
        independent S R \<and> set R \<subseteq> set D \<and> distinct (map cm_hash R)"
      by (rule independents_loop_correct [OF ok acyc C node dup(1) cov]) (simp_all add: sub [simplified])
    with False show ?thesis by (auto simp: Independents_def Let_def)
  qed
qed


subsection \<open>Best common ancestors\<close>

definition best_ancestors :: "commit_store \<Rightarrow> hash set \<Rightarrow> hash set" where
  "best_ancestors S A = {h \<in> A. \<forall>k \<in> A. (k, h) \<in> (parent_rel S)\<^sup>* \<longrightarrow> k = h}"

definition common_ancestors :: "commit_store \<Rightarrow> commit \<Rightarrow> commit \<Rightarrow> hash set" where
  "common_ancestors S a b = ancestors S (cm_hash a) \<inter> ancestors S (cm_hash b)"

lemma common_ancestors_commute: "common_ancestors S a b = common_ancestors S b a"
  by (auto simp: common_ancestors_def)

lemma best_of_cover:
  assumes acyc: "acyclic (parent_rel S)" and nodes: "\<forall>c \<in> set R. is_node S c"
    and sub: "cm_hash ` set R \<subseteq> A" and ind: "independent S R"
    and cov: "\<And>h. h \<in> A \<Longrightarrow> \<exists>c \<in> set R. (cm_hash c, h) \<in> (parent_rel S)\<^sup>*"
  shows "cm_hash ` set R = best_ancestors S A"
proof
  show "best_ancestors S A \<subseteq> cm_hash ` set R"
  proof
    fix h
    assume h: "h \<in> best_ancestors S A"
    then obtain c where c: "c \<in> set R" "(cm_hash c, h) \<in> (parent_rel S)\<^sup>*"
      using cov [of h] by (auto simp: best_ancestors_def)
    then have "cm_hash c = h" using h sub by (auto simp: best_ancestors_def)
    with c(1) show "h \<in> cm_hash ` set R" by blast
  qed
  show "cm_hash ` set R \<subseteq> best_ancestors S A"
  proof
    fix h
    assume "h \<in> cm_hash ` set R"
    then obtain c where c: "c \<in> set R" "h = cm_hash c" by blast
    have "k = h" if k: "k \<in> A" "(k, h) \<in> (parent_rel S)\<^sup>*" for k
    proof -
      obtain d where d: "d \<in> set R" "(cm_hash d, k) \<in> (parent_rel S)\<^sup>*" using cov [OF k(1)] by blast
      then have "reaches S d c" using k(2) c(2) by (simp add: reaches_def)
      then have "d = c" using ind d(1) c(1) by (simp add: independent_def)
      then show ?thesis using d(2) k(2) c(2) acyclic_antisym [OF acyc] by metis
    qed
    with c sub show "h \<in> best_ancestors S A" by (auto simp: best_ancestors_def)
  qed
qed

lemma best_of_ancestor:
  assumes "acyclic (parent_rel S)" "cm_hash a \<in> ancestors S (cm_hash b)"
  shows "best_ancestors S (common_ancestors S a b) = {cm_hash a}"
proof -
  have up: "(cm_hash a, h) \<in> (parent_rel S)\<^sup>*" if "h \<in> common_ancestors S a b" for h
    using that by (simp add: common_ancestors_def ancestors_def)
  have a: "cm_hash a \<in> common_ancestors S a b"
    using assms(2) by (simp add: common_ancestors_def ancestors_def)
  show ?thesis
    using up a acyclic_antisym [OF assms(1)] by (auto simp: best_ancestors_def)
qed

lemma ancestors_stored:
  assumes "history_ok S" "is_node S c" "h \<in> ancestors S (cm_hash c)"
  shows "h \<in> stored_hashes S"
proof -
  have "(cm_hash c, h) \<in> (parent_rel S)\<^sup>*" using assms(3) by (simp add: ancestors_def)
  then show ?thesis
    using is_node_stored [OF assms(2)] parent_rel_stored [OF assms(1)] by (induction rule: rtrancl_induct) auto
qed

text \<open>What the walk from the older commit collects when the newer one does not reach it.\<close>

lemma frontier:
  assumes ok: "history_ok S" and nodes: "is_node S older" "is_node S newer"
  shows "\<exists>D. (\<forall>c \<in> set D. is_node S c) \<and> cm_hash ` set D \<subseteq> common_ancestors S older newer \<and>
    (\<forall>h \<in> common_ancestors S older newer. \<exists>c \<in> set D. (cm_hash c, h) \<in> (parent_rel S)\<^sup>*) \<and>
    filter_ForEach S (\<lambda>commit res. (Inr (), res @ [commit]))
      (NewFilterCommitIter older
        (Some (isInIndexCommitFilter S (cs_Hex S ` ancestors S (cm_hash newer))))
        (Some (isInIndexCommitFilter S (cs_Hex S ` ancestors S (cm_hash newer))))) [] = Some (Inr (), D)"
proof -
  let ?N = "ancestors S (cm_hash newer)"
  let ?l = "\<lambda>c. hex_of S c \<in> cs_Hex S ` ?N"
  have filter: "isInIndexCommitFilter S (cs_Hex S ` ?N) = (\<lambda>(_ :: commit list). ?l)"
    by (simp add: isInIndexCommitFilter_def)
  have l: "valid_hash S ?l h \<longleftrightarrow> h \<in> ?N" if h: "h \<in> stored_hashes S" for h
  proof -
    obtain c where c: "is_node S c" "cm_hash c = h" using stored_commit [OF ok h] by blast
    have "?l c \<longleftrightarrow> cm_hash c \<in> ?N" using ok inj_image_mem_iff [of "cs_Hex S" "cm_hash c" ?N]
      by (simp add: hex_of_def history_ok_def)
    with valid_hash_node [OF c(1), of ?l] c(2) show ?thesis by simp
  qed
  obtain D where D: "\<forall>c \<in> set D. is_node S c"
    "cm_hash ` set D = {h \<in> (flt_rel S ?l)\<^sup>* `` {cm_hash older}. valid_hash S ?l h}"
    "filter_ForEach S (\<lambda>commit res. (Inr (), res @ [commit]))
      (NewFilterCommitIter older (Some (\<lambda>_. ?l)) (Some (\<lambda>_. ?l))) [] =
      Some (visit_all (\<lambda>commit res. (Inr (), res @ [commit])) D [])"
    using filter_ForEach_static [OF ok nodes(1), of ?l ?l "\<lambda>commit res. (Inr (), res @ [commit])" "[]"]
    by (elim exE conjE) (rule that; assumption)
  have stored: "h \<in> stored_hashes S" if "(cm_hash older, h) \<in> (parent_rel S)\<^sup>*" for h
    using ancestors_stored [OF ok nodes(1)] that by (simp add: ancestors_def)
  have hashes: "cm_hash ` set D = {h. (cm_hash older, h) \<in> (flt_rel S ?l)\<^sup>* \<and> h \<in> ?N}"
    unfolding D(2) using l stored flt_star_sub by (auto 0 3)
  have "\<exists>c \<in> set D. (cm_hash c, h) \<in> (parent_rel S)\<^sup>*" if h: "h \<in> common_ancestors S older newer" for h
  proof -
    have path: "(cm_hash older, h) \<in> (parent_rel S)\<^sup>*" and N: "h \<in> ?N"
      using h by (simp_all add: common_ancestors_def ancestors_def)
    have "\<exists>k \<in> cm_hash ` set D. (k, h) \<in> (parent_rel S)\<^sup>*"
      using flt_path [OF path rtrancl_refl, of ?l]
    proof
      assume "(cm_hash older, h) \<in> (flt_rel S ?l)\<^sup>*"
      with N have "h \<in> cm_hash ` set D" unfolding hashes by simp
      then show ?thesis by blast
    next
      assume "\<exists>z. (cm_hash older, z) \<in> (flt_rel S ?l)\<^sup>* \<and> valid_hash S ?l z \<and> (z, h) \<in> (parent_rel S)\<^sup>*"
      then obtain z where z: "(cm_hash older, z) \<in> (flt_rel S ?l)\<^sup>*" "valid_hash S ?l z" "(z, h) \<in> (parent_rel S)\<^sup>*"
        by blast
      then have "z \<in> ?N" using l [OF stored [OF flt_star_sub [OF z(1)]]] by simp
      with z(1) have "z \<in> cm_hash ` set D" unfolding hashes by simp
      with z(3) show ?thesis by blast
    qed
    then show ?thesis by blast
  qed
  moreover have "cm_hash ` set D \<subseteq> common_ancestors S older newer"
    unfolding hashes by (auto simp: common_ancestors_def ancestors_def dest: flt_star_sub)
  ultimately show ?thesis using D(1,3) unfolding filter by (intro exI [of _ D]) (simp add: visit_all_collect)
qed

lemma MergeBase_sorted:
  assumes ok: "history_ok S" and acyc: "acyclic (parent_rel S)" and nodes: "is_node S older" "is_node S newer"
    and sorted: "sortByCommitDateDesc [c, other] = [newer, older]"
  shows "\<exists>res. MergeBase S c other = Some (Inr res) \<and> (\<forall>c \<in> set res. is_node S c) \<and> distinct (map cm_hash res) \<and>
    cm_hash ` set res = best_ancestors S (common_ancestors S older newer)"
proof (cases "cm_hash older \<in> ancestors S (cm_hash newer)")
  case True
  then have "MergeBase S c other = Some (Inr [older])"
    by (simp add: MergeBase_def sorted ancestorsIndex_correct [OF ok nodes(2)])
  with best_of_ancestor [OF acyc True] nodes(1) show ?thesis by simp
next
  case False
  obtain D where D: "\<forall>c \<in> set D. is_node S c" "cm_hash ` set D \<subseteq> common_ancestors S older newer"
    "\<forall>h \<in> common_ancestors S older newer. \<exists>c \<in> set D. (cm_hash c, h) \<in> (parent_rel S)\<^sup>*"
    "filter_ForEach S (\<lambda>commit res. (Inr (), res @ [commit]))
      (NewFilterCommitIter older
        (Some (isInIndexCommitFilter S (cs_Hex S ` ancestors S (cm_hash newer))))
        (Some (isInIndexCommitFilter S (cs_Hex S ` ancestors S (cm_hash newer))))) [] = Some (Inr (), D)"
    using frontier [OF ok nodes] by (elim exE conjE) (rule that; assumption)
  obtain R where R: "Independents S D = Some (Inr R)" "covers S R D" "independent S R" "set R \<subseteq> set D"
    "distinct (map cm_hash R)"
    using Independents_result [OF ok acyc D(1)] by blast
  have "MergeBase S c other = Some (Inr R)"
    using False D(4) R(1) by (simp add: MergeBase_def sorted ancestorsIndex_correct [OF ok nodes(2)])
  moreover have "cm_hash ` set R = best_ancestors S (common_ancestors S older newer)"
  proof (rule best_of_cover [OF acyc])
    show "\<forall>c \<in> set R. is_node S c" using R(4) D(1) by blast
    show "cm_hash ` set R \<subseteq> common_ancestors S older newer" using R(4) D(2) by blast
    show "independent S R" by (rule R(3))
    show "\<exists>c \<in> set R. (cm_hash c, h) \<in> (parent_rel S)\<^sup>*" if h: "h \<in> common_ancestors S older newer" for h
    proof -
      obtain d where "d \<in> set D" "(cm_hash d, h) \<in> (parent_rel S)\<^sup>*" using D(3) h by blast
      moreover obtain c where "c \<in> set R" "reaches S c d" using R(2) calculation(1) by (auto simp: covers_def)
      ultimately show ?thesis unfolding reaches_def by (meson rtrancl_trans)
    qed
  qed
  moreover have "\<forall>c \<in> set R. is_node S c" using R(4) D(1) by blast
  ultimately show ?thesis using R(5) by blast
qed

lemma MergeBase_result:
  assumes "history_ok S" "acyclic (parent_rel S)" "is_node S c" "is_node S other"
  shows "\<exists>res. MergeBase S c other = Some (Inr res) \<and> (\<forall>c \<in> set res. is_node S c) \<and> distinct (map cm_hash res) \<and>
    cm_hash ` set res = best_ancestors S (common_ancestors S c other)"
proof (cases "sig_when (cm_committer c) < sig_when (cm_committer other)")
  case True
  then have "sortByCommitDateDesc [c, other] = [other, c]" by (simp add: sortByCommitDateDesc_def)
  with MergeBase_sorted [OF assms(1-4)] show ?thesis by simp
next
  case False
  then have "sortByCommitDateDesc [c, other] = [c, other]" by (simp add: sortByCommitDateDesc_def)
  with MergeBase_sorted [OF assms(1,2,4,3)] show ?thesis
    by (simp add: common_ancestors_commute [of S other c])
qed

subsection \<open>A small history\<close>

text \<open>Two branches that fork at the root and are merged.\<close>

definition demo_commit :: "hash \<Rightarrow> time \<Rightarrow> hash list \<Rightarrow> commit" where
  "demo_commit h t ps =
     \<lparr>cm_hash = h, cm_repo = ''r'', cm_author = \<lparr>sig_name = ''a'', sig_email = ''a'', sig_when = t\<rparr>,
      cm_committer = \<lparr>sig_name = ''a'', sig_email = ''a'', sig_when = t\<rparr>, cm_merge_tag = [],
      cm_message = [], cm_tree_hash = [], cm_parents = ps, cm_created = t, cm_updated = t\<rparr>"

definition demo_commits :: "commit list" where
  "demo_commits =
     [demo_commit ''0'' 1 [], demo_commit ''1'' 2 [''0''], demo_commit ''2'' 3 [''0''],
      demo_commit ''m'' 4 [''1'', ''2'']]"

definition demo_store :: commit_store where
  "demo_store = table_store (\<lambda>b. b) ''r'' demo_commits"

lemma demo_commit_simps [simp]:
  "cm_hash (demo_commit h t ps) = h" "cm_repo (demo_commit h t ps) = ''r''"
  "cm_parents (demo_commit h t ps) = ps" "sig_when (cm_committer (demo_commit h t ps)) = t"
  by (simp_all add: demo_commit_def)

lemma demo_lookup:
  "cs_Commit demo_store h =
     (if h = ''0'' then Inr (demo_commit ''0'' 1 []) else if h = ''1'' then Inr (demo_commit ''1'' 2 [''0''])
      else if h = ''2'' then Inr (demo_commit ''2'' 3 [''0'']) else if h = ''m'' then Inr (demo_commit ''m'' 4 [''1'', ''2''])
      else Inl ErrNotFound)"
  by (simp add: demo_store_def table_store_def CommitRepo_Commit_def demo_commits_def tbl_get_def)

lemma demo_nodes [simp]:
  "is_node demo_store (demo_commit ''0'' 1 [])" "is_node demo_store (demo_commit ''1'' 2 [''0''])"
  "is_node demo_store (demo_commit ''2'' 3 [''0''])" "is_node demo_store (demo_commit ''m'' 4 [''1'', ''2''])"
  by (simp_all add: is_node_def demo_lookup)

lemma demo_parents: "(h, p) \<in> parent_rel demo_store \<longleftrightarrow>
    (h, p) \<in> {(''1'', ''0''), (''2'', ''0''), (''m'', ''1''), (''m'', ''2'')}"
  by (auto simp: parent_rel_def demo_lookup split: if_splits)

lemma demo_history_ok [simp]: "history_ok demo_store"
  unfolding demo_store_def
proof (rule table_history_ok)
  fix c
  assume "c \<in> set demo_commits"
  then show "set (cm_parents c) \<subseteq> stored_hashes (table_store (\<lambda>b. b) ''r'' demo_commits)"
    unfolding demo_store_def [symmetric] by (auto simp: demo_commits_def stored_hashes_def demo_lookup)
qed (simp add: inj_def)

lemma demo_acyclic: "acyclic (parent_rel demo_store)"
proof (rule acyclicI_order)
  show "commit_date demo_store p < commit_date demo_store h" if "(h, p) \<in> parent_rel demo_store" for h p
    using that by (auto simp: demo_parents commit_date_def demo_lookup)
qed

lemma demo_dates: "dates_monotone demo_store"
  by (auto simp: dates_monotone_def demo_parents commit_date_def demo_lookup)


text \<open>
  C32: \<open>IsAncestor\<close> always returns, without an error on a complete history, and its answer is
  whether the commit can be reached from the other one through parent hashes.
\<close>

theorem IsAncestor_correct:
  assumes "history_ok S" "is_node S other"
  shows "IsAncestor S c other = Some (Inr (), reaches S other c)"
  using IsAncestor_result [OF assms] by (simp add: reaches_def ancestors_def)

lemma IsAncestor_correct_witness:
  "IsAncestor demo_store (demo_commit ''0'' 1 []) (demo_commit ''m'' 4 [''1'', ''2'']) =
    Some (Inr (), reaches demo_store (demo_commit ''m'' 4 [''1'', ''2'']) (demo_commit ''0'' 1 []))"
  by (rule IsAncestor_correct [OF demo_history_ok demo_nodes(4)])

text \<open>
  C3: on a complete acyclic history \<open>MergeBase\<close> returns without an error the best common
  ancestors of the two commits: exactly the common ancestors that no other common ancestor
  reaches, each once, whatever the dates of the commits.
\<close>

theorem MergeBase_best:
  assumes "history_ok S" "acyclic (parent_rel S)" "is_node S c" "is_node S other"
  shows "\<exists>res. MergeBase S c other = Some (Inr res) \<and> distinct (map cm_hash res) \<and>
    cm_hash ` set res = best_ancestors S (common_ancestors S c other)"
  using MergeBase_result [OF assms] by blast

lemma MergeBase_best_witness:
  "\<exists>res. MergeBase demo_store (demo_commit ''1'' 2 [''0'']) (demo_commit ''2'' 3 [''0'']) = Some (Inr res) \<and>
    distinct (map cm_hash res) \<and>
    cm_hash ` set res = best_ancestors demo_store
      (common_ancestors demo_store (demo_commit ''1'' 2 [''0'']) (demo_commit ''2'' 3 [''0'']))"
  by (rule MergeBase_best [OF demo_history_ok demo_acyclic demo_nodes(2,3)])

text \<open>
  \<open>Independents\<close> on a complete acyclic history returns a subset of the commits it was given
  in which no commit reaches another, and from which every commit it was given can be reached.
\<close>

theorem Independents_correct:
  assumes "history_ok S" "acyclic (parent_rel S)" "\<forall>c \<in> set commits. is_node S c"
  shows "\<exists>R. Independents S commits = Some (Inr R) \<and> set R \<subseteq> set commits \<and> distinct (map cm_hash R) \<and>
    (\<forall>x \<in> set R. \<forall>y \<in> set R. reaches S x y \<longrightarrow> x = y) \<and>
    (\<forall>d \<in> set commits. \<exists>c \<in> set R. reaches S c d)"
  using Independents_result [OF assms] by (auto simp: independent_def covers_def)

lemma Independents_correct_witness:
  "\<exists>R. Independents demo_store [demo_commit ''0'' 1 [], demo_commit ''1'' 2 [''0'']] = Some (Inr R) \<and>
    set R \<subseteq> set [demo_commit ''0'' 1 [], demo_commit ''1'' 2 [''0'']] \<and> distinct (map cm_hash R) \<and>
    (\<forall>x \<in> set R. \<forall>y \<in> set R. reaches demo_store x y \<longrightarrow> x = y) \<and>
    (\<forall>d \<in> set [demo_commit ''0'' 1 [], demo_commit ''1'' 2 [''0'']]. \<exists>c \<in> set R. reaches demo_store c d)"
  by (rule Independents_correct [OF demo_history_ok demo_acyclic]) simp

text \<open>
  \<open>MergeBase\<close> hides a failure of the walk from the older commit: when a parent of it is
  missing from the repository and the newer commit is a root, the result is the empty list and
  no error.
\<close>

theorem MergeBase_swallows_error:
  assumes "is_node S newer" "cm_parents newer = []" "is_node S older" "cm_parents older = [h]"
    "cs_Commit S h = Inl e" "inj (cs_Hex S)" "cm_hash older \<noteq> cm_hash newer" "h \<noteq> cm_hash older"
    "sig_when (cm_committer older) < sig_when (cm_committer newer)" "e \<noteq> EOF" "e \<noteq> ErrStop"
  shows "MergeBase S older newer = Some (Inr [])"
proof -
  have sorted: "sortByCommitDateDesc [older, newer] = [newer, older]"
    using assms(9) by (simp add: sortByCommitDateDesc_def)
  have hex: "hex_of S older \<noteq> hex_of S newer" "cs_Hex S h \<noteq> hex_of S older"
    using assms(6,7,8) by (auto simp: hex_of_def inj_eq)
  have "bfs_Next S (NewCommitIterBSF S newer {} []) = (Inr newer, \<lparr>bf_ext = {}, bf_seen = {hex_of S newer}, bf_queue = []\<rparr>)"
    by (subst bfs_Next.simps) (simp add: NewCommitIterBSF_def assms(2))
  moreover have "bfs_Next S \<lparr>bf_ext = {}, bf_seen = {hex_of S newer}, bf_queue = []\<rparr> =
      (Inl EOF, \<lparr>bf_ext = {}, bf_seen = {hex_of S newer}, bf_queue = []\<rparr>)"
    by (subst bfs_Next.simps) simp
  ultimately have "bfs_ForEach S (history_visit S older) (NewCommitIterBSF S newer {} []) {} =
      Some (Inr (), {hex_of S newer})"
    unfolding bfs_ForEach_def using assms(7)
    by (subst iter_ForEach.simps, subst iter_ForEach.simps) (simp add: history_visit_def)
  then have index: "ancestorsIndex S older newer = Some (Inr {hex_of S newer})"
    using assms(7) by (simp add: ancestorsIndex_def)
  let ?in = "isInIndexCommitFilter S {hex_of S newer} :: commit list commit_filter"
  let ?w = "NewFilterCommitIter older (Some ?in) (Some ?in)"
  have "\<exists>w'. filter_Next S [] ?w = Some (Inl e, w')"
    by (subst filter_Next.simps)
      (simp add: NewFilterCommitIter_def popNewFromQueue_def isInIndexCommitFilter_def hex assms(4,5) GetCommit_def)
  then obtain w' where "filter_Next S [] ?w = Some (Inl e, w')" by blast
  then have "filter_ForEach S (\<lambda>commit res. (Inr (), res @ [commit])) ?w [] = Some (Inl e, [])"
    unfolding filter_ForEach_def using assms(10) by (subst iter_ForEach.simps) simp
  then have "MergeBase S older newer = Independents S []" by (simp add: MergeBase_def sorted index)
  then show ?thesis by (simp add: Independents_def removeDuplicated_def sortByCommitDateDesc_def)
qed

definition broken_store :: commit_store where
  "broken_store = table_store (\<lambda>b. b) ''r'' [demo_commit ''1'' 2 [''0''], demo_commit ''2'' 3 []]"

lemma MergeBase_swallows_error_witness:
  "MergeBase broken_store (demo_commit ''1'' 2 [''0'']) (demo_commit ''2'' 3 []) = Some (Inr [])"
proof (rule MergeBase_swallows_error)
  show "cs_Commit broken_store ''0'' = Inl ErrNotFound"
    by (simp add: broken_store_def table_store_def CommitRepo_Commit_def tbl_get_def)
qed (simp_all add: broken_store_def table_store_def CommitRepo_Commit_def tbl_get_def is_node_def
    hash_Hex_def inj_def)

subsection \<open>The walks visit the same commits\<close>

text \<open>A heap: the list of its elements, from which the first of the newest is taken.\<close>

fun take_newest :: "commit list \<Rightarrow> (commit \<times> commit list) option" where
  "take_newest [] = None"
| "take_newest (c # cs) =
     (case take_newest cs of
        None \<Rightarrow> Some (c, cs)
      | Some (d, ds) \<Rightarrow>
          if sig_when (cm_committer c) < sig_when (cm_committer d) then Some (d, c # ds) else Some (c, cs))"

definition list_heap :: "commit list heap_ops" where
  "list_heap = \<lparr>hp_empty = [], hp_Push = (#), hp_Pop = take_newest\<rparr>"

lemma take_newest_Some:
  "take_newest cs = Some (c, ds) \<Longrightarrow>
    mset cs = add_mset c (mset ds) \<and> (\<forall>d \<in> set ds. sig_when (cm_committer d) \<le> sig_when (cm_committer c))"
proof (induction cs arbitrary: c ds)
  case Nil
  then show ?case by simp
next
  case (Cons x cs)
  show ?case
  proof (cases "take_newest cs")
    case None
    then have "cs = []" by (cases cs) (auto split: option.splits if_splits)
    with None Cons.prems show ?thesis by simp
  next
    case (Some p)
    obtain d es where p: "p = (d, es)" by (cases p) simp
    from Cons.IH [OF Some [unfolded p]]
    have IH: "mset cs = add_mset d (mset es)" "\<forall>e \<in> set es. sig_when (cm_committer e) \<le> sig_when (cm_committer d)"
      by simp_all
    then have "set cs = insert d (set es)" by (metis set_mset_add_mset_insert set_mset_mset)
    with IH Some p Cons.prems show ?thesis by (force split: if_splits)
  qed
qed

lemma list_heap_laws: "heap_laws ctime_compare list_heap mset"
proof -
  have "take_newest h = None \<longleftrightarrow> h = []" for h
    by (cases h) (auto split: option.splits)
  then show ?thesis
    using take_newest_Some by (fastforce simp: heap_laws_def list_heap_def ctime_compare_def)
qed

text \<open>
  C33: started at the same commit with the same ignored hashes, the pre-order, post-order,
  breadth-first and commit-time walks all end without an error of their own and visit the same
  commits, each once: those reachable from the start without passing an ignored one. The order
  does not depend on the callback.
\<close>

theorem walks_agree:
  assumes "history_ok S" "is_node S c" "heap_laws ctime_compare H elems"
  shows "\<exists>ps qs bs ts. distinct ps \<and> mset qs = mset ps \<and> mset bs = mset ps \<and> mset ts = mset ps \<and>
    cm_hash ` set ps = live (parent_rel S) (set ignore) {cm_hash c} \<and>
    (\<forall>(f :: 's visit) s.
       pre_ForEach S f (NewCommitPreorderIter S c {} ignore) s = Some (visit_all f ps s) \<and>
       post_ForEach S f (NewCommitPostorderIter S c ignore) s = Some (visit_all f qs s) \<and>
       bfs_ForEach S f (NewCommitIterBSF S c {} ignore) s = Some (visit_all f bs s) \<and>
       ctime_ForEach S H f (NewCommitIterCTime S H c {} ignore) s = Some (visit_all f ts s))"
proof -
  have same: "mset xs = mset ys"
    if "distinct (map cm_hash xs)" "distinct (map cm_hash ys)" "cm_hash ` set xs = cm_hash ` set ys"
      "\<forall>c \<in> set xs. is_node S c" "\<forall>c \<in> set ys. is_node S c" for xs ys
  proof -
    have "inj_on cm_hash (set xs \<union> set ys)"
      using that(4,5) is_node_eq by (intro inj_onI) blast
    then have "set xs = set ys" using that(3) by (metis Un_upper1 Un_upper2 inj_on_image_eq_iff)
    with distinct_of_map [OF that(1)] distinct_of_map [OF that(2)] show ?thesis
      by (simp add: set_eq_iff_mset_eq_distinct)
  qed
  let ?T = "live (parent_rel S) (set ignore) {cm_hash c}"
  have pre: "pre_inv S (NewCommitPreorderIter S c {} ignore)"
    and pre_T: "pre_todo S (NewCommitPreorderIter S c {} ignore) = ?T" using assms by simp_all
  have post: "post_inv S (NewCommitPostorderIter S c ignore)"
    and post_T: "post_todo S (NewCommitPostorderIter S c ignore) = ?T" using assms by simp_all
  have bfs: "bfs_inv S (NewCommitIterBSF S c {} ignore)"
    and bfs_T: "bfs_todo S (NewCommitIterBSF S c {} ignore) = ?T" using assms by simp_all
  have ct: "ct_inv S H elems (NewCommitIterCTime S H c {} ignore)"
    and ct_T: "ct_todo S elems (NewCommitIterCTime S H c {} ignore) = ?T" using assms by simp_all
  obtain ps where ps: "distinct (map cm_hash ps)" "cm_hash ` set ps = ?T" "\<forall>c \<in> set ps. is_node S c"
    "\<And>(f :: 's visit) s. pre_ForEach S f (NewCommitPreorderIter S c {} ignore) s = Some (visit_all f ps s)"
    using pre.ForEach_visits [OF pre] unfolding pre_T pre_ForEach_def by blast
  obtain qs where qs: "distinct (map cm_hash qs)" "cm_hash ` set qs = ?T" "\<forall>c \<in> set qs. is_node S c"
    "\<And>(f :: 's visit) s. post_ForEach S f (NewCommitPostorderIter S c ignore) s = Some (visit_all f qs s)"
    using post.ForEach_visits [OF post] unfolding post_T post_ForEach_def by blast
  obtain bs where bs: "distinct (map cm_hash bs)" "cm_hash ` set bs = ?T" "\<forall>c \<in> set bs. is_node S c"
    "\<And>(f :: 's visit) s. bfs_ForEach S f (NewCommitIterBSF S c {} ignore) s = Some (visit_all f bs s)"
    using bfs.ForEach_visits [OF bfs] unfolding bfs_T bfs_ForEach_def by blast
  obtain ts where ts: "distinct (map cm_hash ts)" "cm_hash ` set ts = ?T" "\<forall>c \<in> set ts. is_node S c"
    "\<And>(f :: 's visit) s. ctime_ForEach S H f (NewCommitIterCTime S H c {} ignore) s = Some (visit_all f ts s)"
    using ctime.ForEach_visits [OF ct] unfolding ct_T ctime_ForEach_def by blast
  have "mset qs = mset ps" "mset bs = mset ps" "mset ts = mset ps"
    using same [OF qs(1) ps(1) _ qs(3) ps(3)] same [OF bs(1) ps(1) _ bs(3) ps(3)]
      same [OF ts(1) ps(1) _ ts(3) ps(3)] ps(2) qs(2) bs(2) ts(2) by simp_all
  moreover have "distinct ps" by (rule distinct_of_map [OF ps(1)])
  ultimately show ?thesis
    using ps(2)
    by (intro exI [of _ ps] exI [of _ qs] exI [of _ bs] exI [of _ ts] conjI allI ps(4) qs(4) bs(4) ts(4))
qed

lemma walks_agree_witness:
  "\<exists>ps qs bs ts. distinct ps \<and> mset qs = mset ps \<and> mset bs = mset ps \<and> mset ts = mset ps \<and>
    cm_hash ` set ps = live (parent_rel demo_store) (set [''1'']) {cm_hash (demo_commit ''m'' 4 [''1'', ''2''])} \<and>
    (\<forall>(f :: nat visit) s.
       pre_ForEach demo_store f (NewCommitPreorderIter demo_store (demo_commit ''m'' 4 [''1'', ''2'']) {} [''1'']) s =
         Some (visit_all f ps s) \<and>
       post_ForEach demo_store f (NewCommitPostorderIter demo_store (demo_commit ''m'' 4 [''1'', ''2'']) [''1'']) s =
         Some (visit_all f qs s) \<and>
       bfs_ForEach demo_store f (NewCommitIterBSF demo_store (demo_commit ''m'' 4 [''1'', ''2'']) {} [''1'']) s =
         Some (visit_all f bs s) \<and>
       ctime_ForEach demo_store list_heap f
         (NewCommitIterCTime demo_store list_heap (demo_commit ''m'' 4 [''1'', ''2'']) {} [''1'']) s =
         Some (visit_all f ts s))"
  by (rule walks_agree [OF demo_history_ok demo_nodes(4) list_heap_laws])

text \<open>
  when no parent is newer than its child, the commit-time walk visits the reachable commits
  in the order of their committer times, newest first.
\<close>

theorem ctime_newest_first:
  assumes "history_ok S" "is_node S c" "heap_laws ctime_compare H elems" "dates_monotone S"
  shows "\<exists>ts. distinct ts \<and> cm_hash ` set ts = live (parent_rel S) (set ignore) {cm_hash c} \<and>
    sorted_wrt (\<lambda>a b. sig_when (cm_committer b) \<le> sig_when (cm_committer a)) ts \<and>
    (\<forall>(f :: 's visit) s.
      ctime_ForEach S H f (NewCommitIterCTime S H c {} ignore) s = Some (visit_all f ts s))"
proof -
  let ?w = "NewCommitIterCTime S H c {} ignore"
  have inv: "ct_inv_dated S H elems ?w" using assms by (simp add: ct_inv_dated_def)
  have T: "ct_todo S elems ?w = live (parent_rel S) (set ignore) {cm_hash c}" using assms by simp
  obtain ts where ts: "distinct (map cm_hash ts)" "cm_hash ` set ts = live (parent_rel S) (set ignore) {cm_hash c}"
    "\<forall>c \<in> set ts. is_node S c"
    "sorted_wrt (\<lambda>a b. commit_date S (cm_hash b) \<le> commit_date S (cm_hash a)) ts"
    "\<And>(f :: 's visit) s. ctime_ForEach S H f ?w s = Some (visit_all f ts s)"
    using ctime_dated.ForEach_ordered [OF inv] unfolding T ctime_ForEach_def by blast
  have "sorted_wrt (\<lambda>a b. sig_when (cm_committer b) \<le> sig_when (cm_committer a)) ts"
    by (rule sorted_wrt_mono_rel [OF _ ts(4)]) (use ts(3) in simp)
  with ts show ?thesis by (intro exI [of _ ts]) (simp add: distinct_of_map)
qed

lemma ctime_newest_first_witness:
  "\<exists>ts. distinct ts \<and>
    cm_hash ` set ts = live (parent_rel demo_store) (set []) {cm_hash (demo_commit ''m'' 4 [''1'', ''2''])} \<and>
    sorted_wrt (\<lambda>a b. sig_when (cm_committer b) \<le> sig_when (cm_committer a)) ts \<and>
    (\<forall>(f :: nat visit) s. ctime_ForEach demo_store list_heap f
      (NewCommitIterCTime demo_store list_heap (demo_commit ''m'' 4 [''1'', ''2'']) {} []) s =
      Some (visit_all f ts s))"
  by (rule ctime_newest_first [OF demo_history_ok demo_nodes(4) list_heap_laws demo_dates])

end
