(* ===== verification/Work_Repo.thy ===== *)
theory Work_Repo
  imports Repos Changes Merge_Base
begin

section \<open>The working repository: versionmgr/work_repo.go\<close>

text \<open>
  A \<open>WorkRepository\<close> is a view of one repository at a working copy, a branch, a commit or a tag.
  Its operations read and write the database \<^typ>\<open>db\<close> and its own fields, which are passed and
  returned beside the result; \<open>None\<close> is a call whose walk or diff does not end. The arguments
  are the digests and clock \<open>E\<close>, the hexadecimal coder \<open>encode\<close>/\<open>decode\<close>, and the context
  \<open>ctx\<close>, which may cancel a diff. An error wrapped by \<open>%w\<close> is the error it wraps. A nil pointer
  that the code would dereference is the panic \<^const>\<open>nil_call\<close>.
\<close>

definition InWip :: string where "InWip = ''wip''"
definition InBranch :: string where "InBranch = ''branch''"
definition InCommit :: string where "InCommit = ''commit''"
definition InTag :: string where "InTag = ''tag''"

text \<open>
  \<open>headTree\<close> points to a variable of its own or to the field \<open>CurrentTree\<close> of the working
  copy; in the second case a change of that field moves the head too.
\<close>

datatype head_ref = HeadTree hash | HeadOfWip

record work_repo =
  wr_operator :: user
  wr_model :: repository
  wr_state :: string
  wr_head :: "head_ref option"
  wr_wip :: "wip option"
  wr_branch :: "branch option"
  wr_tag :: "tag option"
  wr_commit :: "commit option"

definition NewWorkRepositoryFromAdapter :: "user \<Rightarrow> repository \<Rightarrow> work_repo" where
  "NewWorkRepositoryFromAdapter operator repoModel =
     \<lparr>wr_operator = operator, wr_model = repoModel, wr_state = [], wr_head = None, wr_wip = None,
      wr_branch = None, wr_tag = None, wr_commit = None\<rparr>"

definition repo_id :: "work_repo \<Rightarrow> uuid" where
  "repo_id w = rp_id (wr_model w)"

definition head_hash :: "work_repo \<Rightarrow> hash option" where
  "head_hash w =
     (case wr_head w of
        None \<Rightarrow> None
      | Some (HeadTree h) \<Rightarrow> Some h
      | Some HeadOfWip \<Rightarrow> map_option wp_tree (wr_wip w))"

text \<open>The pointer keeps its old target when the working copy is replaced.\<close>

definition setCurState ::
  "string \<Rightarrow> wip option \<Rightarrow> branch option \<Rightarrow> tag option \<Rightarrow> commit option \<Rightarrow> work_repo \<Rightarrow> work_repo" where
  "setCurState state wip branch tag commit w =
     w\<lparr>wr_state := state, wr_head := map_option HeadTree (head_hash w), wr_wip := wip,
       wr_branch := branch, wr_tag := tag, wr_commit := commit\<rparr>"

definition Reset :: "work_repo \<Rightarrow> work_repo" where
  "Reset w = setCurState [] None None None None (w\<lparr>wr_head := None\<rparr>)"

definition CurWip :: "work_repo \<Rightarrow> wip option" where "CurWip w = wr_wip w"
definition CurBranch :: "work_repo \<Rightarrow> branch option" where "CurBranch w = wr_branch w"
definition CurTag :: "work_repo \<Rightarrow> branch option" where "CurTag w = wr_branch w"

definition get_commit :: "work_repo \<Rightarrow> db \<Rightarrow> hash \<Rightarrow> commit result" where
  "get_commit w d h = CommitRepo_Commit (repo_id w) (db_commits d) h"

definition get_branch :: "work_repo \<Rightarrow> db \<Rightarrow> string \<Rightarrow> branch result" where
  "get_branch w d nm =
     BranchRepo_Get (NewGetBranchParams\<lparr>gb_repo := repo_id w, gb_name := Some nm\<rparr>) d"

text \<open>The commit a branch points to, if any.\<close>

definition commit_of :: "work_repo \<Rightarrow> db \<Rightarrow> hash \<Rightarrow> commit option result" where
  "commit_of w d h =
     (if IsEmpty h then Inr None
      else (case get_commit w d h of Inl e \<Rightarrow> Inl e | Inr c \<Rightarrow> Inr (Some c)))"

definition treeHashFromCommit :: "commit option \<Rightarrow> hash" where
  "treeHashFromCommit c = (case c of None \<Rightarrow> [] | Some c \<Rightarrow> cm_tree_hash c)"

definition commitHashFromCommit :: "commit option \<Rightarrow> hash" where
  "commitHashFromCommit c = (case c of None \<Rightarrow> [] | Some c \<Rightarrow> cm_hash c)"

subsection \<open>Trees of the repository\<close>

definition open_tree :: "uuid \<Rightarrow> hash \<Rightarrow> tree_table \<Rightarrow> work_state result" where
  "open_tree repo h st =
     (case NewWorkTree repo st (NewRootTreeEntry h) of
        Inl e \<Rightarrow> Inl e | Inr root \<Rightarrow> Inr \<lparr>ws_root = root, ws_objs = st\<rparr>)"

definition rootTree :: "work_repo \<Rightarrow> db \<Rightarrow> work_state result \<times> work_repo" where
  "rootTree w d =
     (case head_hash w of
        Some h \<Rightarrow> (open_tree (repo_id w) h (db_trees d), w)
      | None \<Rightarrow>
          (case get_branch w d (rp_HEAD (wr_model w)) of
             Inl e \<Rightarrow> (Inl e, w)
           | Inr ref \<Rightarrow>
               (let w1 = w\<lparr>wr_branch := Some ref\<rparr> in
                case commit_of w d (br_commit ref) of
                  Inl e \<Rightarrow> (Inl e, w1)
                | Inr commit \<Rightarrow>
                    (let treeHash = treeHashFromCommit commit;
                         w2 = (setCurState InBranch None (Some ref) None commit w1)
                           \<lparr>wr_head := Some (HeadTree treeHash)\<rparr>
                     in (open_tree (repo_id w) treeHash (db_trees d), w2)))))"

definition CheckOut ::
  "(string \<Rightarrow> bytes result) \<Rightarrow> string \<Rightarrow> string \<Rightarrow> db \<Rightarrow> work_repo \<Rightarrow> unit result \<times> work_repo" where
  "CheckOut decode refType refName d w =
     (let set_head = (\<lambda>h w. w\<lparr>wr_head := Some (HeadTree h)\<rparr>) in
      if refType = InWip then
        (case get_branch w d refName of
           Inl e \<Rightarrow> (Inl e, w)
         | Inr ref \<Rightarrow>
             (case WipRepo_Get (NewGetWipParams\<lparr>gw_creator := us_id (wr_operator w), gw_repo := repo_id w,
                 gw_ref := br_id ref\<rparr>) d of
                Inl e \<Rightarrow> (Inl e, w)
              | Inr wip \<Rightarrow>
                  (Inr (), set_head (wp_tree wip) (setCurState InWip (Some wip) (Some ref) None None w))))
      else if refType = InBranch then
        (case get_branch w d refName of
           Inl e \<Rightarrow> (Inl e, w)
         | Inr branch \<Rightarrow>
             (case commit_of w d (br_commit branch) of
                Inl e \<Rightarrow> (Inl e, w)
              | Inr commit \<Rightarrow>
                  (Inr (), set_head (treeHashFromCommit commit)
                    (setCurState InBranch None (Some branch) None commit w))))
      else if refType = InCommit then
        (case hash_FromHex decode refName of
           Inl e \<Rightarrow> (Inl e, w)
         | Inr commitHash \<Rightarrow>
             if \<not> IsEmpty commitHash then
               (case get_commit w d commitHash of
                  Inl e \<Rightarrow> (Inl e, w)
                | Inr commit \<Rightarrow>
                    (Inr (), set_head (cm_tree_hash commit) (setCurState InCommit None None None (Some commit) w)))
             else (Inr (), set_head [] w))
      else if refType = InTag then
        (case TagRepo_Get (NewGetTagParams\<lparr>gt_repo := repo_id w, gt_name := Some refName\<rparr>) d of
           Inl e \<Rightarrow> (Inl e, w)
         | Inr tag \<Rightarrow>
             (case get_commit w d (tg_target tag) of
                Inl e \<Rightarrow> (Inl e, w)
              | Inr commit \<Rightarrow>
                  (Inr (), set_head (cm_tree_hash commit) (setCurState InTag None None (Some tag) (Some commit) w))))
      else (Inl (ErrMsg ''not support type''), w))"

subsection \<open>Working copies\<close>

definition update_wip :: "update_wip_params \<Rightarrow> (wip \<Rightarrow> wip) \<Rightarrow> work_repo \<Rightarrow> db \<Rightarrow> work_repo \<times> db" where
  "update_wip params f w d = (w\<lparr>wr_wip := map_option f (wr_wip w)\<rparr>, WipRepo_UpdateByID params d)"

text \<open>The callback of \<open>Revert\<close>: undo one change; both trees read the same object table.\<close>

definition revert_change ::
  "env \<Rightarrow> uuid \<Rightarrow> vtree_node \<Rightarrow> vtree_node change \<Rightarrow> work_state \<Rightarrow> unit result \<times> work_state" where
  "revert_change E repo baseRoot change curTree =
     (let changePath = change_Path (tree_ops repo (ws_objs curTree)) change;
          baseTree = \<lparr>ws_root = baseRoot, ws_objs = ws_objs curTree\<rparr>
      in case change_Action change of
           Inl e \<Rightarrow> (Inl e, curTree)
         | Inr Insert \<Rightarrow> RemoveEntry E repo changePath curTree
         | Inr Modify \<Rightarrow>
             (case FindBlob repo changePath baseTree of
                Inl e \<Rightarrow> (Inl e, curTree)
              | Inr (blob, _) \<Rightarrow> ReplaceLeaf E repo changePath blob curTree)
         | Inr Delete \<Rightarrow>
             (case FindBlob repo changePath baseTree of
                Inl e \<Rightarrow> (Inl e, curTree)
              | Inr (blob, _) \<Rightarrow> AddLeaf E repo changePath blob curTree))"

definition Revert ::
  "env \<Rightarrow> (nat \<Rightarrow> bool) \<Rightarrow> string \<Rightarrow> work_repo \<Rightarrow> db \<Rightarrow> (unit result \<times> work_repo \<times> db) option" where
  "Revert E ctx prefixPath w d =
     (if wr_state w \<noteq> InWip then Some (Inl (ErrMsg ''working repo not in wip state''), w, d)
      else (case wr_wip w of
        None \<Rightarrow> Some (Inl nil_call, w, d)
      | Some wip \<Rightarrow>
          (case commit_of w d (wp_base wip) of
             Inl e \<Rightarrow> Some (Inl e, w, d)
           | Inr base \<Rightarrow>
               (let baseTreeHash = treeHashFromCommit base;
                    set_tree = (\<lambda>h. update_wip ((NewUpdateWipParams E (wp_id wip))\<lparr>uw_tree := Some h\<rparr>)
                      (\<lambda>x. x\<lparr>wp_tree := h\<rparr>) w);
                    clean = CleanPath prefixPath
                in if length clean = 0 then Some (Inr (), set_tree baseTreeHash d)
                   else
                     (case open_tree (repo_id w) baseTreeHash (db_trees d) of
                        Inl e \<Rightarrow> Some (Inl e, w, d)
                      | Inr baseTree \<Rightarrow>
                     (case open_tree (repo_id w) (wp_tree wip) (db_trees d) of
                        Inl e \<Rightarrow> Some (Inl e, w, d)
                      | Inr curTree \<Rightarrow>
                     (case wt_Diff ctx (repo_id w) (wp_tree wip) clean baseTree of
                        None \<Rightarrow> None
                      | Some (Inl e) \<Rightarrow> Some (Inl e, w, d)
                      | Some (Inr changes) \<Rightarrow>
                          if changes_Num changes = 0 then Some (Inl ErrNotFound, w, d)
                          else (case changes_ForEach (revert_change E (repo_id w) (ws_root baseTree)) changes curTree of
                                  (Inl e, _) \<Rightarrow> Some (Inl e, w, d)
                                | (Inr _, curTree') \<Rightarrow>
                                    Some (Inr (), set_tree (vt_Hash (ws_root curTree'))
                                      (d\<lparr>db_trees := ws_objs curTree'\<rparr>))))))))))"

definition DeleteWip :: "work_repo \<Rightarrow> db \<Rightarrow> unit result \<times> db" where
  "DeleteWip w d =
     (if wr_state w \<noteq> InBranch then (Inl (ErrMsg ''working repo not in branch state''), d)
      else (case wr_branch w of
        None \<Rightarrow> (Inl nil_call, d)
      | Some branch \<Rightarrow>
          (case WipRepo_Delete (NewGetWipParams\<lparr>gw_ref := br_id branch, gw_repo := repo_id w,
              gw_creator := us_id (wr_operator w)\<rparr>) d of
             (Inl e, d') \<Rightarrow> (Inl e, d')
           | (Inr affectRow, d') \<Rightarrow> if affectRow = 0 then (Inl ErrNotFound, d') else (Inr (), d'))))"

definition GetOrCreateWip :: "env \<Rightarrow> work_repo \<Rightarrow> db \<Rightarrow> (wip \<times> bool) result \<times> work_repo \<times> db" where
  "GetOrCreateWip E w d =
     (if wr_state w \<noteq> InBranch then (Inl (ErrMsg ''only create wip from branch''), w, d)
      else (case wr_branch w of
        None \<Rightarrow> (Inl nil_call, w, d)
      | Some branch \<Rightarrow>
          (case WipRepo_Get (NewGetWipParams\<lparr>gw_ref := br_id branch, gw_creator := us_id (wr_operator w),
              gw_repo := repo_id w\<rparr>) d of
             Inr wip \<Rightarrow> (Inr (wip, False), w\<lparr>wr_head := Some (HeadTree (wp_tree wip))\<rparr>, d)
           | Inl err \<Rightarrow>
               if err \<noteq> ErrNotFound then (Inl err, w, d)
               else
                 (case commit_of w d (br_commit branch) of
                    Inl e \<Rightarrow> (Inl e, w, d)
                  | Inr baseCommit \<Rightarrow>
                      (case WipRepo_Insert
                          \<lparr>wp_id = uuid_Nil, wp_tree = treeHashFromCommit baseCommit, wp_base = br_commit branch,
                           wp_repo = repo_id w, wp_ref = br_id branch, wp_state = Init,
                           wp_creator = us_id (wr_operator w), wp_created = env_now E, wp_updated = env_now E\<rparr> d of
                         (Inl e, d') \<Rightarrow> (Inl e, w, d')
                       | (Inr wip, d') \<Rightarrow>
                           (Inr (wip, True),
                            (setCurState InWip (Some wip) (Some branch) None None w)\<lparr>wr_head := Some HeadOfWip\<rparr>,
                            d'))))))"

subsection \<open>Commits\<close>

definition operator_signature :: "env \<Rightarrow> user \<Rightarrow> signature" where
  "operator_signature E u = \<lparr>sig_name = us_name u, sig_email = us_email u, sig_when = env_now E\<rparr>"

definition commitChangeRoot ::
  "env \<Rightarrow> work_repo \<Rightarrow> branch \<Rightarrow> signature \<Rightarrow> hash \<Rightarrow> string \<Rightarrow> db \<Rightarrow> commit result \<times> db" where
  "commitChangeRoot E w branch author root msg d =
     (let parentHash = (if \<not> IsEmpty (br_commit branch) then [br_commit branch] else []);
          commit = \<lparr>cm_hash = [], cm_repo = repo_id w, cm_author = author,
            cm_committer = operator_signature E (wr_operator w), cm_merge_tag = [], cm_message = msg,
            cm_tree_hash = root, cm_parents = parentHash, cm_created = env_now E, cm_updated = env_now E\<rparr>;
          commit' = commit\<lparr>cm_hash := commit_GetHash E commit\<rparr>
      in case CommitRepo_Insert (repo_id w) commit' (db_commits d) of
           (Inl e, t) \<Rightarrow> (Inl e, d\<lparr>db_commits := t\<rparr>)
         | (Inr _, t) \<Rightarrow>
             (case BranchRepo_UpdateByID ((NewUpdateBranchParams (br_id branch))\<lparr>ub_commit := Some (cm_hash commit')\<rparr>)
                 (d\<lparr>db_commits := t\<rparr>) of
                (Inl e, d') \<Rightarrow> (Inl e, d')
              | (Inr _, d') \<Rightarrow> (Inr commit', d')))"

text \<open>The author of a commit is the creator of the working copy.\<close>

definition wip_author :: "wip \<Rightarrow> db \<Rightarrow> signature result" where
  "wip_author wip d =
     (case UserRepo_Get (NewGetUserParams\<lparr>gu_id := wp_creator wip\<rparr>) d of
        Inl e \<Rightarrow> Inl e
      | Inr creator \<Rightarrow>
          Inr \<lparr>sig_name = us_name creator, sig_email = us_email creator, sig_when = wp_updated wip\<rparr>)"

definition set_base :: "hash \<Rightarrow> work_repo \<Rightarrow> work_repo" where
  "set_base h w =
     w\<lparr>wr_branch := map_option (\<lambda>b. b\<lparr>br_commit := h\<rparr>) (wr_branch w),
       wr_wip := map_option (\<lambda>x. x\<lparr>wp_base := h\<rparr>) (wr_wip w)\<rparr>"

definition CommitChanges :: "env \<Rightarrow> string \<Rightarrow> work_repo \<Rightarrow> db \<Rightarrow> commit result \<times> work_repo \<times> db" where
  "CommitChanges E msg w d =
     (if wr_state w \<noteq> InWip then (Inl (ErrMsg ''must commit changes on branch''), w, d)
      else (case (wr_branch w, wr_wip w) of
        (Some branch, Some wip) \<Rightarrow>
          if br_commit branch \<noteq> wp_base wip
          then (Inl (ErrMsg ''base commit not equal with branch, please update wip''), w, d)
          else
            (case wip_author wip d of
               Inl e \<Rightarrow> (Inl e, w, d)
             | Inr author \<Rightarrow>
                 (case Transaction (\<lambda>d.
                     case commitChangeRoot E w branch author (wp_tree wip) msg d of
                       (Inl e, d1) \<Rightarrow> (Inl e, d1)
                     | (Inr commit, d1) \<Rightarrow>
                         (Inr commit,
                          WipRepo_UpdateByID
                            ((NewUpdateWipParams E (wp_id wip))\<lparr>uw_base := Some (cm_hash commit)\<rparr>) d1)) d of
                    (Inl e, d') \<Rightarrow> (Inl e, w, d')
                  | (Inr commit, d') \<Rightarrow>
                      (Inr commit, (set_base (cm_hash commit) w)\<lparr>wr_head := Some HeadOfWip\<rparr>, d')))
      | _ \<Rightarrow> (Inl nil_call, w, d)))"

type_synonym change_fn = "work_state \<Rightarrow> unit result \<times> work_state"

definition changeInWip ::
  "change_fn \<Rightarrow> work_repo \<Rightarrow> db \<Rightarrow> work_state result \<times> work_repo \<times> db" where
  "changeInWip changFn w d =
     (if wr_state w \<noteq> InWip then (Inl (ErrMsg ''must commit changes on branch''), w, d)
      else (case rootTree w d of
        (Inl e, w') \<Rightarrow> (Inl e, w', d)
      | (Inr workTree, w') \<Rightarrow>
          (case changFn workTree of
             (Inl e, t) \<Rightarrow> (Inl e, w', d\<lparr>db_trees := ws_objs t\<rparr>)
           | (Inr _, t) \<Rightarrow> (Inr t, w', d\<lparr>db_trees := ws_objs t\<rparr>))))"

definition set_wip_tree :: "hash \<Rightarrow> work_repo \<Rightarrow> work_repo" where
  "set_wip_tree h w = w\<lparr>wr_wip := map_option (\<lambda>x. x\<lparr>wp_tree := h\<rparr>) (wr_wip w), wr_head := Some HeadOfWip\<rparr>"

definition ChangeInWip ::
  "env \<Rightarrow> change_fn \<Rightarrow> work_repo \<Rightarrow> db \<Rightarrow> unit result \<times> work_repo \<times> db" where
  "ChangeInWip E changFn w d =
     (case changeInWip changFn w d of
        (Inl e, w', _) \<Rightarrow> (Inl e, w', d)
      | (Inr workTree, w', d') \<Rightarrow>
          (case wr_wip w' of
             None \<Rightarrow> (Inl nil_call, w', d)
           | Some wip \<Rightarrow>
               (let h = vt_Hash (ws_root workTree) in
                (Inr (), set_wip_tree h w',
                 WipRepo_UpdateByID ((NewUpdateWipParams E (wp_id wip))\<lparr>uw_tree := Some h\<rparr>) d'))))"

definition ChangeAndCommit ::
  "env \<Rightarrow> string \<Rightarrow> change_fn \<Rightarrow> work_repo \<Rightarrow> db \<Rightarrow> commit result \<times> work_repo \<times> db" where
  "ChangeAndCommit E msg changFn w d =
     (case (wr_branch w, wr_wip w) of
        (Some branch, Some wip) \<Rightarrow>
          if br_commit branch \<noteq> wp_base wip
          then (Inl (ErrMsg ''base commit not equal with branch, please update wip''), w, d)
          else
            (case wip_author wip d of
               Inl e \<Rightarrow> (Inl e, w, d)
             | Inr author \<Rightarrow>
                 (case changeInWip changFn w d of
                    (Inl e, w', _) \<Rightarrow> (Inl e, w', d)
                  | (Inr workTree, w', d1) \<Rightarrow>
                      (let h = vt_Hash (ws_root workTree) in
                       case commitChangeRoot E w' branch author h msg d1 of
                         (Inl e, _) \<Rightarrow> (Inl e, w', d)
                       | (Inr commit, d2) \<Rightarrow>
                           (Inr commit, set_base (cm_hash commit) (set_wip_tree h w'),
                            WipRepo_UpdateByID ((NewUpdateWipParams E (wp_id wip))
                              \<lparr>uw_tree := Some h, uw_base := Some (cm_hash commit)\<rparr>) d2))))
      | _ \<Rightarrow> (Inl nil_call, w, d))"

subsection \<open>Branches and tags\<close>

definition CreateBranch :: "env \<Rightarrow> string \<Rightarrow> work_repo \<Rightarrow> db \<Rightarrow> branch result \<times> db" where
  "CreateBranch E branchName w d =
     (case get_branch w d branchName of
        Inr _ \<Rightarrow> (Inl (ErrMsg ''already exit''), d)
      | Inl err \<Rightarrow>
          if err \<noteq> ErrNotFound then (Inl err, d)
          else BranchRepo_Insert
            \<lparr>br_id = uuid_Nil, br_repo = repo_id w, br_commit = commitHashFromCommit (wr_commit w),
             br_name = branchName, br_description = None, br_creator = us_id (wr_operator w),
             br_created = env_now E, br_updated = env_now E\<rparr> d)"

definition DeleteBranch :: "work_repo \<Rightarrow> db \<Rightarrow> unit result \<times> db" where
  "DeleteBranch w d =
     (case wr_branch w of
        None \<Rightarrow> (Inl nil_call, d)
      | Some branch \<Rightarrow>
          Transaction (\<lambda>d.
            case BranchRepo_Delete (NewDeleteBranchParams\<lparr>dbp_repo := repo_id w, dbp_name := Some (br_name branch)\<rparr>) d of
              (Inl e, d1) \<Rightarrow> (Inl e, d1)
            | (Inr _, d1) \<Rightarrow>
                (case WipRepo_Delete (NewGetWipParams\<lparr>gw_repo := repo_id w, gw_ref := br_id branch\<rparr>) d1 of
                   (Inl e, d2) \<Rightarrow> (Inl e, d2)
                 | (Inr _, d2) \<Rightarrow> (Inr (), d2))) d)"

definition CreateTag :: "env \<Rightarrow> string \<Rightarrow> string option \<Rightarrow> work_repo \<Rightarrow> db \<Rightarrow> tag result \<times> db" where
  "CreateTag E tagName msg w d =
     (case TagRepo_Get (NewGetTagParams\<lparr>gt_name := Some tagName, gt_repo := repo_id w\<rparr>) d of
        Inr _ \<Rightarrow> (Inl (ErrMsg ''already exit''), d)
      | Inl err \<Rightarrow>
          if err \<noteq> ErrNotFound then (Inl err, d)
          else (case wr_commit w of
            None \<Rightarrow> (Inl (ErrMsg ''no commit to create tag''), d)
          | Some commit \<Rightarrow>
              if IsEmpty (cm_hash commit) then (Inl (ErrMsg ''empty commit to create tag''), d)
              else TagRepo_Insert
                \<lparr>tg_id = uuid_Nil, tg_repo = repo_id w, tg_name = tagName, tg_creator = us_id (wr_operator w),
                 tg_target = cm_hash commit, tg_message = msg, tg_created = env_now E,
                 tg_updated = env_now E\<rparr> d))"

definition DeleteTag :: "work_repo \<Rightarrow> db \<Rightarrow> unit result \<times> db" where
  "DeleteTag w d =
     (case wr_tag w of
        None \<Rightarrow> (Inl nil_call, d)
      | Some tag \<Rightarrow>
          Transaction (\<lambda>d.
            case TagRepo_Delete (tg_id tag) (repo_id w) d of
              (Inl e, d1) \<Rightarrow> (Inl e, d1) | (Inr _, d1) \<Rightarrow> (Inr (), d1)) d)"

subsection \<open>Differences between commits\<close>

type_synonym tree_changes = "vtree_node changes"

definition DiffCommit ::
  "(nat \<Rightarrow> bool) \<Rightarrow> hash \<Rightarrow> string \<Rightarrow> work_repo \<Rightarrow> db \<Rightarrow> (tree_changes result \<times> work_repo) option" where
  "DiffCommit ctx toCommitID pathPrefix w d =
     (case rootTree w d of
        (Inl e, w') \<Rightarrow> Some (Inl e, w')
      | (Inr workTree, w') \<Rightarrow>
          (case get_commit w' d toCommitID of
             Inl e \<Rightarrow> Some (Inl e, w')
           | Inr toCommit \<Rightarrow>
               map_option (\<lambda>r. (r, w')) (wt_Diff ctx (repo_id w') (cm_tree_hash toCommit) pathPrefix workTree)))"

definition GetCommitChanges ::
  "(nat \<Rightarrow> bool) \<Rightarrow> string \<Rightarrow> work_repo \<Rightarrow> db \<Rightarrow> tree_changes result option" where
  "GetCommitChanges ctx pathPrefix w d =
     (case wr_commit w of
        None \<Rightarrow> Some (Inl nil_call)
      | Some commit \<Rightarrow>
          (let commitHash =
             (if length (cm_parents commit) = 1 then cm_parents commit ! 0
              else if length (cm_parents commit) = 2 then cm_parents commit ! 1
              else [])
           in case commit_of w d commitHash of
                Inl e \<Rightarrow> Some (Inl e)
              | Inr parent \<Rightarrow>
                  (case open_tree (repo_id w) (treeHashFromCommit parent) (db_trees d) of
                     Inl e \<Rightarrow> Some (Inl e)
                   | Inr workTree \<Rightarrow> wt_Diff ctx (repo_id w) (cm_tree_hash commit) pathPrefix workTree)))"

end
