(* ===== verification/Merge_Commits.thy ===== *)
theory Merge_Commits
  imports Work_Repo
begin

section \<open>Merging commits: the second half of versionmgr/work_repo.go\<close>

text \<open>
  \<open>merge\<close> and \<open>findBestAncestor\<close> call each other's results: a criss-cross history has several
  best ancestors, the first two of which are merged into a virtual commit first. The commit and
  object tables are those of the transaction, passed as \<open>d\<close>. \<open>cenv\<close> holds what every step
  takes: digests and clock, hexadecimal coder, context, repository and the user who merges.
\<close>

record cenv =
  ce_env :: env
  ce_encode :: "bytes \<Rightarrow> string"
  ce_ctx :: "nat \<Rightarrow> bool"
  ce_repo :: repository
  ce_merger :: user

definition ce_store :: "cenv \<Rightarrow> db \<Rightarrow> commit_store" where
  "ce_store C d = table_store (ce_encode C) (rp_id (ce_repo C)) (db_commits d)"

definition ce_Diff :: "cenv \<Rightarrow> hash \<Rightarrow> work_state \<Rightarrow> tree_changes result option" where
  "ce_Diff C h t = wt_Diff (ce_ctx C) (rp_id (ce_repo C)) h [] t"

text \<open>The loop \<open>for cmw.Has()\<close> over the merged changes, applied to the ancestor's tree.\<close>

definition apply_merged ::
  "cenv \<Rightarrow> tree_changes \<Rightarrow> tree_changes \<Rightarrow> vtree_node resolver option \<Rightarrow> work_state \<Rightarrow>
    (unit result \<times> work_state) option" where
  "apply_merged C sourceDiff targetDiff resolver baseWorkTree =
     merge_loop (tree_ops (rp_id (ce_repo C)) (ws_objs baseWorkTree))
       (ApplyOneChange (ce_env C) (rp_id (ce_repo C)))
       (NewChangesMergeIter sourceDiff targetDiff resolver) baseWorkTree"

definition merge_commit :: "cenv \<Rightarrow> commit \<Rightarrow> commit \<Rightarrow> hash \<Rightarrow> string \<Rightarrow> commit" where
  "merge_commit C sourceCommit targetCommit root msg =
     (let author = operator_signature (ce_env C) (ce_merger C);
          c = \<lparr>cm_hash = [], cm_repo = rp_id (ce_repo C), cm_author = author, cm_committer = author,
               cm_merge_tag = [], cm_message = msg, cm_tree_hash = root,
               cm_parents = [cm_hash sourceCommit, cm_hash targetCommit],
               cm_created = env_now (ce_env C), cm_updated = env_now (ce_env C)\<rparr>
      in c\<lparr>cm_hash := commit_GetHash (ce_env C) c\<rparr>)"

definition merge_trees ::
  "cenv \<Rightarrow> commit \<Rightarrow> commit \<Rightarrow> commit \<Rightarrow> string \<Rightarrow> vtree_node resolver option \<Rightarrow> db \<Rightarrow>
    (commit result \<times> db) option" where
  "merge_trees C bestAncestor sourceCommit targetCommit msg resolver d =
     (case open_tree (rp_id (ce_repo C)) (cm_tree_hash bestAncestor) (db_trees d) of
        Inl e \<Rightarrow> Some (Inl e, d)
      | Inr ancestorWorkTree \<Rightarrow>
          (case ce_Diff C (cm_tree_hash sourceCommit) ancestorWorkTree of
             None \<Rightarrow> None
           | Some (Inl e) \<Rightarrow> Some (Inl e, d)
           | Some (Inr sourceDiff) \<Rightarrow>
               (case ce_Diff C (cm_tree_hash targetCommit) ancestorWorkTree of
                  None \<Rightarrow> None
                | Some (Inl e) \<Rightarrow> Some (Inl e, d)
                | Some (Inr targetDiff) \<Rightarrow>
                    (case apply_merged C sourceDiff targetDiff resolver ancestorWorkTree of
                       None \<Rightarrow> None
                     | Some (Inl e, t) \<Rightarrow> Some (Inl e, d\<lparr>db_trees := ws_objs t\<rparr>)
                     | Some (Inr _, t) \<Rightarrow>
                         (case CommitRepo_Insert (rp_id (ce_repo C))
                             (merge_commit C sourceCommit targetCommit (vt_Hash (ws_root t)) msg) (db_commits d) of
                            (res, cs) \<Rightarrow> Some (res, d\<lparr>db_trees := ws_objs t, db_commits := cs\<rparr>))))))"

definition merge ::
  "cenv \<Rightarrow> commit \<Rightarrow> commit option \<Rightarrow> commit option \<Rightarrow> string \<Rightarrow> vtree_node resolver option \<Rightarrow> db \<Rightarrow>
    (commit result \<times> db) option" where
  "merge C bestAncestor source target msg resolver d =
     (case (source, target) of
        (None, None) \<Rightarrow> Some (Inl (ErrMsg ''cannot find nil commit''), d)
      | (Some s, None) \<Rightarrow> Some (Inr s, d)
      | (None, Some t) \<Rightarrow> Some (Inr t, d)
      | (Some s, Some t) \<Rightarrow>
          (case IsAncestor (ce_store C d) t s of
             None \<Rightarrow> None
           | Some (Inl e, _) \<Rightarrow> Some (Inl e, d)
           | Some (Inr _, mergeIsAncestorOfBase) \<Rightarrow>
               if mergeIsAncestorOfBase then Some (Inr s, d)
               else
                 (case IsAncestor (ce_store C d) s t of
                    None \<Rightarrow> None
                  | Some (Inl e, _) \<Rightarrow> Some (Inl e, d)
                  | Some (Inr _, baseIsAncestorOfMerge) \<Rightarrow>
                      if baseIsAncestorOfMerge then Some (Inr t, d)
                      else merge_trees C bestAncestor s t msg resolver d)))"

partial_function (option) findBestAncestor ::
  "cenv \<Rightarrow> commit option \<Rightarrow> commit option \<Rightarrow> db \<Rightarrow> (commit result \<times> db) option"
where
  "findBestAncestor C baseCommit toMergeCommit d =
     (case baseCommit of
        None \<Rightarrow>
          (case toMergeCommit of
             None \<Rightarrow> Some (Inl (ErrMsg ''cannot find nil commit''), d)
           | Some t \<Rightarrow> Some (Inr t, d))
      | Some b \<Rightarrow>
          (case toMergeCommit of
             None \<Rightarrow> Some (Inr b, d)
           | Some t \<Rightarrow>
               (case MergeBase (ce_store C d) b t of
                  None \<Rightarrow> None
                | Some res \<Rightarrow>
                    (case res of
                       Inl e \<Rightarrow> Some (Inl e, d)
                     | Inr best \<Rightarrow>
                         (if length best = 0 then Some (Inl (ErrMsg ''no common ancesstor find''), d)
                          else if length best > 1 then
                            Option.bind (findBestAncestor C (Some (best ! 0)) (Some (best ! 1)) d)
                              (\<lambda>r. case fst r of
                                 Inl e \<Rightarrow> Some (Inl e, snd r)
                               | Inr subBestAncestor \<Rightarrow>
                                   merge C subBestAncestor (Some (best ! 0)) (Some (best ! 1))
                                     ''virtual commit'' (Some ForbidResolver) (snd r))
                          else Some (Inr (best ! 0), d))))))"

definition cenv_of :: "env \<Rightarrow> (bytes \<Rightarrow> string) \<Rightarrow> (nat \<Rightarrow> bool) \<Rightarrow> work_repo \<Rightarrow> cenv" where
  "cenv_of E encode ctx w =
     \<lparr>ce_env = E, ce_encode = encode, ce_ctx = ctx, ce_repo = wr_model w, ce_merger = wr_operator w\<rparr>"

text \<open>
  \<open>Merge\<close>: the branch's commit is the target, the given one the source. The transaction is rolled
  back on an error; the branch the working repository holds keeps its old commit.
\<close>

definition Merge ::
  "env \<Rightarrow> (bytes \<Rightarrow> string) \<Rightarrow> (nat \<Rightarrow> bool) \<Rightarrow> hash \<Rightarrow> string \<Rightarrow> vtree_node resolver option \<Rightarrow>
    work_repo \<Rightarrow> db \<Rightarrow> (commit result \<times> db) option" where
  "Merge E encode ctx toMergeCommitHash msg resolver w d =
     (if wr_state w \<noteq> InBranch then Some (Inl (ErrMsg ''must merge on branch''), d)
      else (case wr_branch w of
        None \<Rightarrow> Some (Inl nil_call, d)
      | Some branch \<Rightarrow>
          (case commit_of w d (br_commit branch) of
             Inl e \<Rightarrow> Some (Inl e, d)
           | Inr targetCommit \<Rightarrow>
               (case commit_of w d toMergeCommitHash of
                  Inl e \<Rightarrow> Some (Inl e, d)
                | Inr sourceCommit \<Rightarrow>
                    (let C = cenv_of E encode ctx w in
                     case findBestAncestor C sourceCommit targetCommit d of
                       None \<Rightarrow> None
                     | Some (Inl e, _) \<Rightarrow> Some (Inl e, d)
                     | Some (Inr bestAncestor, d1) \<Rightarrow>
                         (case merge C bestAncestor sourceCommit targetCommit msg resolver d1 of
                            None \<Rightarrow> None
                          | Some (Inl e, _) \<Rightarrow> Some (Inl e, d)
                          | Some (Inr newCommit, d2) \<Rightarrow>
                              (case BranchRepo_UpdateByID ((NewUpdateBranchParams (br_id branch))
                                  \<lparr>ub_commit := Some (cm_hash newCommit)\<rparr>) d2 of
                                 (Inl e, _) \<Rightarrow> Some (Inl e, d)
                               | (Inr _, d3) \<Rightarrow> Some (Inr newCommit, d3))))))))"

text \<open>
  \<open>GetMergeState\<close> searches the ancestor in a transaction that it always rolls back with
  \<open>ErrStop\<close>, so it leaves the database as it was.
\<close>

definition GetMergeState ::
  "env \<Rightarrow> (bytes \<Rightarrow> string) \<Rightarrow> (nat \<Rightarrow> bool) \<Rightarrow> hash \<Rightarrow> work_repo \<Rightarrow> db \<Rightarrow>
    vtree_node change_pair list result option" where
  "GetMergeState E encode ctx toMergeCommitHash w d =
     (if wr_state w \<noteq> InBranch then Some (Inl (ErrMsg ''must merge on branch''))
      else (case wr_branch w of
        None \<Rightarrow> Some (Inl nil_call)
      | Some branch \<Rightarrow>
          (case commit_of w d (br_commit branch) of
             Inl e \<Rightarrow> Some (Inl e)
           | Inr commit \<Rightarrow>
               (case commit_of w d toMergeCommitHash of
                  Inl e \<Rightarrow> Some (Inl e)
                | Inr toMergeCommit \<Rightarrow>
                    (let C = cenv_of E encode ctx w in
                     case findBestAncestor C commit toMergeCommit d of
                       None \<Rightarrow> None
                     | Some (Inl e, _) \<Rightarrow> Some (Inl (if e = ErrStop then nil_call else e))
                     | Some (Inr bestAncestor, _) \<Rightarrow>
                         (case open_tree (repo_id w) (cm_tree_hash bestAncestor) (db_trees d) of
                            Inl e \<Rightarrow> Some (Inl e)
                          | Inr ancestorWorkTree \<Rightarrow>
                              (case ce_Diff C (treeHashFromCommit commit) ancestorWorkTree of
                                 None \<Rightarrow> None
                               | Some (Inl e) \<Rightarrow> Some (Inl e)
                               | Some (Inr baseDiff) \<Rightarrow>
                                   (case ce_Diff C (treeHashFromCommit toMergeCommit) ancestorWorkTree of
                                      None \<Rightarrow> None
                                    | Some (Inl e) \<Rightarrow> Some (Inl e)
                                    | Some (Inr mergeDiff) \<Rightarrow>
                                        pair_loop (tree_ops (repo_id w) (db_trees d))
                                          (NewChangesPairIter baseDiff mergeDiff) []))))))))"

end
