(* ===== verification/Wildcard.thy ===== *)
theory Wildcard
  imports Prelude
begin

section \<open>Wildcard patterns: auth/rbac/wildcard/match.go\<close>

text \<open>
  \<open>Match\<close>, \<open>scanChunk\<close> and \<open>matchChunk\<close>, with the width of a rune as
  \<open>utf8.DecodeRuneInString\<close> computes it. The reference is \<open>glob\<close>, which tries every way a
  star can match; on ASCII names the two agree. A star skips bytes and a question mark takes a
  rune, so on other names they need not.
\<close>

subsection \<open>The code\<close>

text \<open>The second result of \<open>utf8.DecodeRuneInString\<close>: an invalid encoding has width one.\<close>

definition byte_in :: "nat \<Rightarrow> nat \<Rightarrow> char \<Rightarrow> bool" where
  "byte_in lo hi c \<longleftrightarrow> lo \<le> (of_char c :: nat) \<and> (of_char c :: nat) \<le> hi"

definition rune_width :: "string \<Rightarrow> nat" where
  "rune_width s =
     (let cont = byte_in 0x80 0xBF
      in case s of
           [] \<Rightarrow> 0
         | b0 # s1 \<Rightarrow>
             if byte_in 0xC2 0xDF b0 then (case s1 of b1 # _ \<Rightarrow> if cont b1 then 2 else 1 | [] \<Rightarrow> 1)
             else if byte_in 0xE0 0xEF b0 then
               (case s1 of b1 # b2 # _ \<Rightarrow>
                  if byte_in (if b0 = CHR 0xE0 then 0xA0 else 0x80) (if b0 = CHR 0xED then 0x9F else 0xBF) b1
                     \<and> cont b2 then 3 else 1
                | _ \<Rightarrow> 1)
             else if byte_in 0xF0 0xF4 b0 then
               (case s1 of b1 # b2 # b3 # _ \<Rightarrow>
                  if byte_in (if b0 = CHR 0xF0 then 0x90 else 0x80) (if b0 = CHR 0xF4 then 0x8F else 0xBF) b1
                     \<and> cont b2 \<and> cont b3 then 4 else 1
                | _ \<Rightarrow> 1)
             else 1)"

text \<open>\<open>None\<close> is the result with \<open>ok\<close> false.\<close>

fun matchChunk :: "string \<Rightarrow> string \<Rightarrow> string option" where
  "matchChunk [] s = Some s"
| "matchChunk (c # chunk) s =
     (if s = [] then None
      else if c = CHR ''?'' then matchChunk chunk (drop (rune_width s) s)
      else if c \<noteq> hd s then None
      else matchChunk chunk (drop 1 s))"

definition scanChunk :: "string \<Rightarrow> bool \<times> string \<times> string" where
  "scanChunk pattern =
     (let p = dropWhile (\<lambda>c. c = CHR ''*'') pattern;
          star = (pattern \<noteq> [] \<and> hd pattern = CHR ''*'')
      in case p of
           [] \<Rightarrow> (star, [], [])
         | c # cs \<Rightarrow> (star, c # takeWhile (\<lambda>c. c \<noteq> CHR ''*'') cs, dropWhile (\<lambda>c. c \<noteq> CHR ''*'') cs))"

text \<open>
  The loop that skips \<open>i+1\<close> bytes, and the body of the outer loop: the rest of the name with
  which the loop continues, \<open>None\<close> when it returns false. \<open>at_end\<close> holds when no pattern is
  left, so that the name must be exhausted.
\<close>

fun skip_loop :: "string \<Rightarrow> bool \<Rightarrow> string \<Rightarrow> string option" where
  "skip_loop chunk at_end [] = None"
| "skip_loop chunk at_end (c # name) =
     (case matchChunk chunk name of
        Some t \<Rightarrow> if at_end \<and> t \<noteq> [] then skip_loop chunk at_end name else Some t
      | None \<Rightarrow> skip_loop chunk at_end name)"

definition match_step :: "bool \<Rightarrow> string \<Rightarrow> bool \<Rightarrow> string \<Rightarrow> string option" where
  "match_step star chunk at_end name =
     (case matchChunk chunk name of
        Some t \<Rightarrow>
          if t = [] \<or> \<not> at_end then Some t
          else if star then skip_loop chunk at_end name else None
      | None \<Rightarrow> if star then skip_loop chunk at_end name else None)"

lemma scanChunk_parts:
  assumes "scanChunk pattern = (star, chunk, rest)"
  shows "\<exists>k. pattern = replicate k (CHR ''*'') @ chunk @ rest \<and> (star \<longleftrightarrow> 0 < k) \<and>
    CHR ''*'' \<notin> set chunk \<and> (rest = [] \<or> hd rest = CHR ''*'') \<and> (chunk = [] \<longrightarrow> rest = [])"
proof -
  define stars where "stars = takeWhile (\<lambda>c. c = CHR ''*'') pattern"
  define p where "p = dropWhile (\<lambda>c. c = CHR ''*'') pattern"
  have tail: "hd (dropWhile (\<lambda>c. c \<noteq> CHR ''*'') cs) = CHR ''*''" if "dropWhile (\<lambda>c. c \<noteq> CHR ''*'') cs \<noteq> []" for cs
    using hd_dropWhile [OF that] by simp
  have "stars = replicate (length stars) (CHR ''*'')"
    unfolding stars_def by (rule sym, rule replicate_length_same) (auto dest: set_takeWhileD)
  moreover have pat: "pattern = stars @ p" by (simp add: stars_def p_def)
  moreover have "(pattern \<noteq> [] \<and> hd pattern = CHR ''*'') \<longleftrightarrow> stars \<noteq> []"
    by (cases pattern) (auto simp: stars_def)
  moreover have "hd p \<noteq> CHR ''*''" if "p \<noteq> []" using that unfolding p_def by (rule hd_dropWhile)
  moreover have "(star, chunk, rest) = (case p of [] \<Rightarrow> (stars \<noteq> [], [], [])
      | c # cs \<Rightarrow> (stars \<noteq> [], c # takeWhile (\<lambda>c. c \<noteq> CHR ''*'') cs, dropWhile (\<lambda>c. c \<noteq> CHR ''*'') cs))"
    using assms calculation(3) by (simp add: scanChunk_def Let_def p_def [symmetric])
  ultimately show ?thesis
  proof (cases p)
    case (Cons c cs)
    then show ?thesis using \<open>(star, chunk, rest) = _\<close> \<open>stars = replicate _ _\<close> \<open>pattern = _\<close> \<open>p \<noteq> [] \<Longrightarrow> _\<close> tail
      by (intro exI [of _ "length stars"]) (auto dest: set_takeWhileD)
  qed (auto intro!: exI [of _ "length stars"])
qed

lemma scanChunk_rest: "pattern \<noteq> [] \<Longrightarrow> scanChunk pattern = (star, chunk, rest) \<Longrightarrow> length rest < length pattern"
  by (drule scanChunk_parts) auto

function Match :: "string \<Rightarrow> string \<Rightarrow> bool" where
  "Match pattern name =
     (if pattern = [] then name = []
      else (case scanChunk pattern of (star, chunk, rest) \<Rightarrow>
        if star \<and> chunk = [] then True
        else (case match_step star chunk (rest = []) name of
                Some t \<Rightarrow> Match rest t
              | None \<Rightarrow> False)))"
  by pat_completeness auto
termination
  by (relation "measure (length \<circ> fst)") (auto dest: scanChunk_rest [OF _ sym])

declare Match.simps [simp del]

subsection \<open>The reference\<close>

fun glob :: "string \<Rightarrow> string \<Rightarrow> bool" where
  "glob [] s = (s = [])"
| "glob (p # ps) [] = (p = CHR ''*'' \<and> glob ps [])"
| "glob (p # ps) (c # cs) =
     (if p = CHR ''*'' then glob ps (c # cs) \<or> glob (p # ps) cs
      else (p = CHR ''?'' \<or> p = c) \<and> glob ps cs)"

definition ascii :: "string \<Rightarrow> bool" where
  "ascii s \<longleftrightarrow> (\<forall>c \<in> set s. (of_char c :: nat) < 128)"

definition no_star :: "string \<Rightarrow> bool" where
  "no_star chunk \<longleftrightarrow> CHR ''*'' \<notin> set chunk"

lemma rune_width_ascii: "s \<noteq> [] \<Longrightarrow> ascii s \<Longrightarrow> rune_width s = 1"
  by (cases s) (auto simp: rune_width_def ascii_def byte_in_def Let_def split: list.splits)

lemma ascii_Cons [simp]: "ascii (c # s) \<longleftrightarrow> (of_char c :: nat) < 128 \<and> ascii s"
  by (simp add: ascii_def)

lemma ascii_append [simp]: "ascii (s @ t) \<longleftrightarrow> ascii s \<and> ascii t"
  by (auto simp: ascii_def)

subsection \<open>A chunk without stars\<close>

lemma matchChunk_suffix: "ascii s \<Longrightarrow> matchChunk chunk s = Some t \<Longrightarrow> \<exists>u. s = u @ t \<and> length u = length chunk"
proof (induction chunk s rule: matchChunk.induct)
  case (2 c chunk s)
  then obtain a s' where s: "s = a # s'" by (cases s) auto
  have w: "rune_width (a # s') = 1" using 2(3) s by (intro rune_width_ascii) auto
  have "matchChunk chunk s' = Some t" using 2(4) s w by (auto split: if_splits)
  moreover have "\<exists>u. s' = u @ t \<and> length u = length chunk" if "matchChunk chunk s' = Some t"
    using 2(1,2) 2(3,4) s w that by (auto split: if_splits)
  ultimately show ?case using s by (metis append_Cons length_Cons)
qed simp

lemma matchChunk_ascii: "ascii s \<Longrightarrow> matchChunk chunk s = Some t \<Longrightarrow> ascii t"
  using matchChunk_suffix by fastforce

lemma glob_chunk:
  "ascii s \<Longrightarrow> no_star chunk \<Longrightarrow>
   glob (chunk @ rest) s \<longleftrightarrow> (\<exists>t. matchChunk chunk s = Some t \<and> glob rest t)"
proof (induction chunk arbitrary: s)
  case (Cons c chunk)
  show ?case
  proof (cases s)
    case (Cons a s')
    have "rune_width (a # s') = 1" using Cons.prems(1) Cons by (intro rune_width_ascii) auto
    with Cons.IH [of s'] Cons.prems Cons show ?thesis by (auto simp: no_star_def)
  qed (use Cons.prems in \<open>auto simp: no_star_def\<close>)
qed simp

lemma glob_star: "glob (CHR ''*'' # ps) s \<longleftrightarrow> (\<exists>u t. s = u @ t \<and> glob ps t)"
proof (induction s)
  case (Cons c s)
  have "(\<exists>u t. c # s = u @ t \<and> glob ps t) \<longleftrightarrow> glob ps (c # s) \<or> (\<exists>u t. s = u @ t \<and> glob ps t)"
    by (auto simp: Cons_eq_append_conv)
  then show ?case using Cons by simp
qed simp

lemma glob_star_mono: "glob (CHR ''*'' # ps) t \<Longrightarrow> glob (CHR ''*'' # ps) (u @ t)"
  by (auto simp: glob_star) (metis append.assoc)

lemma glob_stars: "0 < k \<Longrightarrow> glob (replicate k (CHR ''*'') @ ps) s \<longleftrightarrow> glob (CHR ''*'' # ps) s"
proof (induction k arbitrary: s)
  case (Suc k)
  show ?case
  proof (cases k)
    case (Suc k')
    then have IH: "glob (replicate k (CHR ''*'') @ ps) t \<longleftrightarrow> glob (CHR ''*'' # ps) t" for t
      using Suc.IH by simp
    show ?thesis by (auto simp: glob_star IH) (metis append.assoc append_Nil)+
  qed simp
qed simp

text \<open>
  A star and a chunk: what is left after the first place that the loop accepts is as good as what
  is left after any other, because it is longer and the rest of the pattern starts with a star.
\<close>

lemma glob_rest_later:
  assumes "ascii (u @ v)" "matchChunk chunk (u @ v) = Some t" "matchChunk chunk v = Some t'"
    "hd rest = CHR ''*''" "rest \<noteq> []" "glob rest t'"
  shows "glob rest t"
proof -
  obtain a b where a: "u @ v = a @ t" "length a = length chunk" and b: "v = b @ t'" "length b = length chunk"
    using matchChunk_suffix [OF assms(1,2)] matchChunk_suffix [OF _ assms(3)] assms(1) by auto
  have "t = drop (length chunk) (u @ b @ t')" using a b by (metis append_eq_conv_conj)
  also have "\<dots> = drop (length chunk) (u @ b) @ t'" using b(2) by simp
  finally show ?thesis
    using assms(4-6) glob_star_mono by (cases rest) auto
qed

lemma skip_loop_glob:
  assumes "ascii s" "no_star chunk" "rest = [] \<or> hd rest = CHR ''*''"
  shows "(\<exists>u t. s = u @ t \<and> u \<noteq> [] \<and> glob (chunk @ rest) t) \<longleftrightarrow>
    (case skip_loop chunk (rest = []) s of None \<Rightarrow> False | Some t \<Rightarrow> glob rest t)"
  using assms(1)
proof (induction s)
  case (Cons c s)
  let ?later = "\<exists>u t. s = u @ t \<and> u \<noteq> [] \<and> glob (chunk @ rest) t"
  have split: "(\<exists>u t. c # s = u @ t \<and> u \<noteq> [] \<and> glob (chunk @ rest) t) \<longleftrightarrow> glob (chunk @ rest) s \<or> ?later"
  proof (intro iffI)
    assume "\<exists>u t. c # s = u @ t \<and> u \<noteq> [] \<and> glob (chunk @ rest) t"
    then obtain u t where "c # s = u @ t" "u \<noteq> []" "glob (chunk @ rest) t" by blast
    then show "glob (chunk @ rest) s \<or> ?later" by (cases u; cases "tl u = []") auto
  next
    assume "glob (chunk @ rest) s \<or> ?later"
    then show "\<exists>u t. c # s = u @ t \<and> u \<noteq> [] \<and> glob (chunk @ rest) t"
      by (metis append.simps list.distinct(1))
  qed
  have here: "glob (chunk @ rest) t \<longleftrightarrow> (\<exists>t'. matchChunk chunk t = Some t' \<and> glob rest t')" if "ascii t" for t
    using glob_chunk [OF that assms(2)] .
  show ?case
  proof (cases "matchChunk chunk s")
    case None
    then show ?thesis using Cons split here [of s] by simp
  next
    case (Some t)
    show ?thesis
    proof (cases "rest = []")
      case True
      then show ?thesis using Cons split here [of s] Some by auto
    next
      case False
      have "?later \<longrightarrow> glob rest t"
      proof (intro impI, elim exE conjE)
        fix u v assume "s = u @ v" "glob (chunk @ rest) v"
        then show "glob rest t"
          using here [of v] glob_rest_later [of u v chunk t _ rest] Some False assms(3) Cons.prems by auto
      qed
      then show ?thesis using split here [of s] Some False Cons.prems by auto
    qed
  qed
qed simp

lemma match_step_glob:
  assumes "ascii s" "no_star chunk" "rest = [] \<or> hd rest = CHR ''*''"
  shows "(case match_step star chunk (rest = []) s of None \<Rightarrow> False | Some t \<Rightarrow> glob rest t) \<longleftrightarrow>
    (if star then glob (CHR ''*'' # chunk @ rest) s else glob (chunk @ rest) s)"
proof -
  note skip = skip_loop_glob [OF assms]
  have here: "glob (chunk @ rest) s \<longleftrightarrow> (\<exists>t. matchChunk chunk s = Some t \<and> glob rest t)"
    using glob_chunk [OF assms(1,2)] .
  have star: "glob (CHR ''*'' # chunk @ rest) s \<longleftrightarrow>
      glob (chunk @ rest) s \<or> (\<exists>u t. s = u @ t \<and> u \<noteq> [] \<and> glob (chunk @ rest) t)"
    by (auto simp: glob_star) (metis append_Nil)
  have later: "glob rest t" if t1: "matchChunk chunk s = Some t" and t2: "rest \<noteq> []"
    and ex: "\<exists>u t. s = u @ t \<and> u \<noteq> [] \<and> glob (chunk @ rest) t" for t
  proof -
    obtain u v where v: "s = u @ v" "glob (chunk @ rest) v" using ex by blast
    then have "ascii v" using assms(1) by simp
    with v(2) obtain t' where t': "matchChunk chunk v = Some t'" "glob rest t'"
      using glob_chunk assms(2) by blast
    from assms(1) t1 have "ascii (u @ v)" "matchChunk chunk (u @ v) = Some t" unfolding v(1) .
    moreover have "hd rest = CHR ''*''" using assms(3) t2 by simp
    ultimately show ?thesis by (rule glob_rest_later [OF _ _ t'(1) _ t2 t'(2)])
  qed
  show ?thesis
  proof (cases "matchChunk chunk s")
    case None
    then show ?thesis using skip star here by (simp add: match_step_def)
  next
    case (Some t)
    show ?thesis
    proof (cases "t = [] \<or> rest \<noteq> []")
      case True
      have "glob rest t" if "\<exists>u t. s = u @ t \<and> u \<noteq> [] \<and> glob (chunk @ rest) t"
      proof (cases "rest = []")
        case False
        then show ?thesis by (rule later [OF Some _ that])
      qed (use True in simp)
      moreover have "glob (chunk @ rest) s \<longleftrightarrow> glob rest t" using here Some by simp
      ultimately have "(if star then glob (CHR ''*'' # chunk @ rest) s else glob (chunk @ rest) s) \<longleftrightarrow> glob rest t"
        unfolding star by argo
      moreover have "match_step star chunk (rest = []) s = Some t" using Some True by (auto simp: match_step_def)
      ultimately show ?thesis by (simp only: option.case)
    next
      case False
      then have "\<not> glob (chunk @ rest) s" using here Some by simp
      with False show ?thesis unfolding star using skip Some by (simp add: match_step_def)
    qed
  qed
qed

lemma skip_loop_ascii: "ascii s \<Longrightarrow> skip_loop chunk e s = Some t \<Longrightarrow> ascii t"
  by (induction s) (auto split: option.splits if_splits dest: matchChunk_ascii)

lemma match_step_ascii: "ascii s \<Longrightarrow> match_step star chunk e s = Some t \<Longrightarrow> ascii t"
  by (auto simp: match_step_def split: option.splits if_splits dest: skip_loop_ascii matchChunk_ascii)

lemma Match_is_glob: "ascii name \<Longrightarrow> Match pattern name = glob pattern name"
proof (induction pattern name rule: Match.induct)
  case (1 pattern name)
  obtain star chunk rest where scan: "scanChunk pattern = (star, chunk, rest)" by (cases "scanChunk pattern")
  obtain k where parts: "pattern = replicate k (CHR ''*'') @ chunk @ rest" "star \<longleftrightarrow> 0 < k"
    "no_star chunk" "rest = [] \<or> hd rest = CHR ''*''" "chunk = [] \<longrightarrow> rest = []"
    using scanChunk_parts [OF scan] by (auto simp: no_star_def)
  have pat: "glob pattern name \<longleftrightarrow> (if star then glob (CHR ''*'' # chunk @ rest) name else glob (chunk @ rest) name)"
    using glob_stars [of k "chunk @ rest" name] parts(1,2) by auto
  show ?case
  proof (cases "pattern = [] \<or> star \<and> chunk = []")
    case True
    moreover have "glob ''*'' name" by (simp add: glob_star)
    ultimately show ?thesis using scan pat parts(5) by (auto simp: Match.simps [of pattern name])
  next
    case False
    have "Match rest t = glob rest t" if "match_step star chunk (rest = []) name = Some t" for t
      using 1(1) [OF _ scan [symmetric] refl _ that] match_step_ascii [OF 1(2) that] False by auto
    then have "Match pattern name =
        (case match_step star chunk (rest = []) name of None \<Rightarrow> False | Some t \<Rightarrow> glob rest t)"
      using False scan by (auto simp: Match.simps [of pattern name] split: option.splits)
    then show ?thesis using match_step_glob [OF 1(2) parts(3,4)] pat by simp
  qed
qed

subsection \<open>Patterns without question marks\<close>

lemma glob_exact: "CHR ''*'' \<notin> set p \<Longrightarrow> CHR ''?'' \<notin> set p \<Longrightarrow> glob (p @ ps) s \<longleftrightarrow> (\<exists>t. s = p @ t \<and> glob ps t)"
proof (induction p arbitrary: s)
  case (Cons a p)
  then show ?case by (cases s) auto
qed simp

lemma glob_only_star: "glob ''*'' s"
  by (simp add: glob_star)

lemma Match_literal:
  "ascii name \<Longrightarrow> CHR ''*'' \<notin> set p \<Longrightarrow> CHR ''?'' \<notin> set p \<Longrightarrow> Match p name \<longleftrightarrow> p = name"
  using glob_exact [of p "[]" name] by (auto simp: Match_is_glob)

lemma Match_prefix:
  "ascii name \<Longrightarrow> CHR ''*'' \<notin> set p \<Longrightarrow> CHR ''?'' \<notin> set p \<Longrightarrow> Match (p @ ''*'') name \<longleftrightarrow> has_prefix name p"
  using glob_exact [of p "''*''" name]
  by (auto simp: Match_is_glob glob_only_star has_prefix_def) (metis append_take_drop_id)

subsection \<open>The matcher\<close>

text \<open>
  C36: On ASCII names the matcher, which takes each chunk of the pattern at the first place where
  it fits and never goes back, accepts exactly what a full search over the choices of every star
  accepts.
\<close>

theorem Match_glob:
  assumes "ascii name"
  shows "Match pattern name = glob pattern name"
  using assms by (rule Match_is_glob)

lemma Match_glob_witness: "ascii ''repo:ReadTag'' \<and> Match ''*:Re*d*T?g'' ''repo:ReadTag'' = glob ''*:Re*d*T?g'' ''repo:ReadTag''"
proof
  show "ascii ''repo:ReadTag''" by (simp add: ascii_def)
  then show "Match ''*:Re*d*T?g'' ''repo:ReadTag'' = glob ''*:Re*d*T?g'' ''repo:ReadTag''"
    by (rule Match_glob)
qed


end
