(* ===== verification/Arn.thy ===== *)
theory Arn
  imports Wildcard
begin

section \<open>Resource names and actions: auth/rbac/arn.go, models/rbacmodel\<close>

text \<open>
  The resource names of models/rbacmodel/resoure.go, the check of an action name in
  actions.go, and the parser and matcher of auth/rbac/arn.go. A resource is its text. The
  text of a user's or repository's id (\<open>uuid.UUID.String\<close>) comes in as a string.
\<close>

subsection \<open>Package \<open>strings\<close>\<close>

text \<open>\<open>strings.SplitN\<close> at a one-byte separator, for a positive number of pieces.\<close>

fun split_n :: "nat \<Rightarrow> char \<Rightarrow> string \<Rightarrow> string list" where
  "split_n 0 c s = []"
| "split_n (Suc 0) c s = [s]"
| "split_n (Suc (Suc n)) c s =
     (case dropWhile (\<lambda>x. x \<noteq> c) s of
        [] \<Rightarrow> [s]
      | _ # rest \<Rightarrow> takeWhile (\<lambda>x. x \<noteq> c) s # split_n (Suc n) c rest)"

text \<open>\<open>strings.ReplaceAll\<close> of a non-empty text.\<close>

function replace_all :: "string \<Rightarrow> string \<Rightarrow> string \<Rightarrow> string" where
  "replace_all old new s =
     (case s of
        [] \<Rightarrow> []
      | c # cs \<Rightarrow>
          if old \<noteq> [] \<and> has_prefix s old then new @ replace_all old new (drop (length old) s)
          else c # replace_all old new cs)"
  by pat_completeness auto
termination
  by (relation "measure (\<lambda>(old, new, s). length s)") auto

declare replace_all.simps [simp del]

subsection \<open>Resources\<close>

definition ArnPrefix :: string where
  "ArnPrefix = ''arn:gitdata:jiaozifs:::''"

definition All :: string where
  "All = ''*''"

definition UserIDCapture :: string where
  "UserIDCapture = ''{user_id}''"

definition RepoIDCapture :: string where
  "RepoIDCapture = ''{repo_id}''"

definition WithRepoID :: "string \<Rightarrow> string \<Rightarrow> string" where
  "WithRepoID r repoID = replace_all RepoIDCapture repoID r"

definition WithUserID :: "string \<Rightarrow> string \<Rightarrow> string" where
  "WithUserID r userID = replace_all UserIDCapture userID r"

definition RepoURArn :: "string \<Rightarrow> string \<Rightarrow> string" where
  "RepoURArn userID repoID = ArnPrefix @ ''repository/'' @ userID @ ''/'' @ repoID"

definition RepoUArn :: "string \<Rightarrow> string" where
  "RepoUArn userID = ArnPrefix @ ''repository/'' @ userID @ ''/*''"

definition UserArn :: "string \<Rightarrow> string" where
  "UserArn userID = ArnPrefix @ ''user/'' @ userID"

definition UserAkskArn :: "string \<Rightarrow> string" where
  "UserAkskArn userID = ArnPrefix @ ''user/aksk/'' @ userID"

definition GroupArn :: "string \<Rightarrow> string" where
  "GroupArn groupID = ArnPrefix @ ''group/'' @ groupID"

definition PolicyArn :: "string \<Rightarrow> string" where
  "PolicyArn policyID = ArnPrefix @ ''policy/'' @ policyID"

subsection \<open>Actions\<close>

datatype action_error = ErrInvalidAction | ErrInvalidServiceName

definition serviceSet :: "string list" where
  "serviceSet = [''repo'', ''auth'', ''user'']"

definition IsValidAction :: "string \<Rightarrow> action_error option" where
  "IsValidAction name =
     (case split_on (CHR '':'') name of
        [service, _] \<Rightarrow> if service \<notin> set serviceSet then Some ErrInvalidServiceName else None
      | _ \<Rightarrow> Some ErrInvalidAction)"

subsection \<open>ARNs\<close>

datatype arn_error = ErrInvalidArn

record arn =
  ar_Partition :: string
  ar_Service :: string
  ar_Region :: string
  ar_AccountID :: string
  ar_ResourceID :: string

definition arn_empty :: arn where
  "arn_empty = \<lparr>ar_Partition = [], ar_Service = [], ar_Region = [], ar_AccountID = [], ar_ResourceID = []\<rparr>"

text \<open>The index of a field: 0 is \<open>fieldIndexArn\<close>, 5 is \<open>fieldIndexResource\<close>.\<close>

definition arnParseField :: "arn \<Rightarrow> string \<Rightarrow> nat \<Rightarrow> arn_error + arn" where
  "arnParseField a field fieldIndex =
     (if fieldIndex = 0 then (if field \<noteq> ''arn'' then Inl ErrInvalidArn else Inr a)
      else if fieldIndex = 1 then
        (if field \<noteq> ''gitdata'' then Inl ErrInvalidArn else Inr (a\<lparr>ar_Partition := field\<rparr>))
      else if fieldIndex = 2 then
        (if length field < 1 then Inl ErrInvalidArn
         else if field \<noteq> ''jiaozifs'' then Inl ErrInvalidArn
         else Inr (a\<lparr>ar_Service := field\<rparr>))
      else if fieldIndex = 3 then Inr (a\<lparr>ar_Region := field\<rparr>)
      else if fieldIndex = 4 then Inr (a\<lparr>ar_AccountID := field\<rparr>)
      else if fieldIndex = 5 then
        (if length field < 1 then Inl ErrInvalidArn else Inr (a\<lparr>ar_ResourceID := field\<rparr>))
      else Inr a)"

fun arn_parse_loop :: "arn \<Rightarrow> nat \<Rightarrow> string list \<Rightarrow> arn_error + arn" where
  "arn_parse_loop a currField [] = Inr a"
| "arn_parse_loop a currField (part # parts) =
     (case arnParseField a part currField of
        Inl e \<Rightarrow> Inl e
      | Inr a' \<Rightarrow> arn_parse_loop a' (currField + 1) parts)"

definition ParseARN :: "string \<Rightarrow> arn_error + arn" where
  "ParseARN arnString =
     (let parts = split_n 6 (CHR '':'') arnString
      in if length parts < 6 then Inl ErrInvalidArn else arn_parse_loop arn_empty 0 parts)"

definition ArnMatch :: "string \<Rightarrow> string \<Rightarrow> bool" where
  "ArnMatch src dst =
     (if src = All then True
      else case ParseARN src of
        Inl _ \<Rightarrow> False
      | Inr source \<Rightarrow>
          (case ParseARN dst of
             Inl _ \<Rightarrow> False
           | Inr dest \<Rightarrow>
               if ar_Service source \<noteq> ar_Service dest then False
               else if ar_Partition source \<noteq> ar_Partition dest then False
               else if ar_AccountID source \<noteq> ar_AccountID dest then False
               else Match (ar_ResourceID source) (ar_ResourceID dest)))"

subsection \<open>Printing and parsing\<close>

definition arn_String :: "arn \<Rightarrow> string" where
  "arn_String a = join_with '':'' [''arn'', ar_Partition a, ar_Service a, ar_Region a, ar_AccountID a, ar_ResourceID a]"

text \<open>What the parser accepts: the fixed service, no colon before the resource, a resource.\<close>

definition arn_ok :: "arn \<Rightarrow> bool" where
  "arn_ok a \<longleftrightarrow> ar_Partition a = ''gitdata'' \<and> ar_Service a = ''jiaozifs'' \<and> CHR '':'' \<notin> set (ar_Region a) \<and>
     CHR '':'' \<notin> set (ar_AccountID a) \<and> ar_ResourceID a \<noteq> []"

lemma split_n_join: "xs \<noteq> [] \<Longrightarrow> \<forall>x \<in> set (butlast xs). c \<notin> set x \<Longrightarrow> split_n (length xs) c (join_with [c] xs) = xs"
proof (induction xs)
  case (Cons x xs)
  show ?case
  proof (cases xs)
    case (Cons y ys)
    have "c \<notin> set x" using Cons.prems(2) Cons by simp
    then have "dropWhile (\<lambda>b. b \<noteq> c) (x @ c # r) = c # r" "takeWhile (\<lambda>b. b \<noteq> c) (x @ c # r) = x" for r
      by (simp_all add: dropWhile_append takeWhile_append)
    then show ?thesis using Cons.IH Cons.prems Cons by simp
  qed simp
qed simp

lemma join_split_n: "0 < n \<Longrightarrow> join_with [c] (split_n n c s) = s"
proof (induction n c s rule: split_n.induct)
  case (3 n c s)
  show ?case
  proof (cases "dropWhile (\<lambda>x. x \<noteq> c) s")
    case (Cons a rest)
    then have a: "a = c" using hd_dropWhile [of "\<lambda>x. x \<noteq> c" s] by simp
    obtain y ys where ys: "split_n (Suc n) c rest = y # ys"
      by (cases n; cases "dropWhile (\<lambda>x. x \<noteq> c) rest") auto
    have "join_with [c] (y # ys) = rest" using 3(1) [OF Cons] ys by simp
    then show ?thesis
      using Cons a ys takeWhile_dropWhile_id [of "\<lambda>x. x \<noteq> c" s] by simp
  next
    case Nil
    then show ?thesis by (simp only: split_n.simps) simp
  qed
qed simp_all

lemma split_n_no_sep: "x \<in> set (butlast (split_n n c s)) \<Longrightarrow> c \<notin> set x"
  by (induction n c s rule: split_n.induct) (auto split: list.splits if_splits dest: set_takeWhileD)

lemma length_split_n: "length (split_n n c s) \<le> n"
  by (induction n c s rule: split_n.induct) (auto split: list.splits)

lemma arn_parse_six:
  "arn_parse_loop arn_empty 0 [p0, p1, p2, p3, p4, p5] =
     (if p0 = ''arn'' \<and> p1 = ''gitdata'' \<and> p2 = ''jiaozifs'' \<and> p5 \<noteq> []
      then Inr \<lparr>ar_Partition = p1, ar_Service = p2, ar_Region = p3, ar_AccountID = p4, ar_ResourceID = p5\<rparr>
      else Inl ErrInvalidArn)"
  by (auto simp: arnParseField_def arn_empty_def Suc_le_eq)

lemma ParseARN_String:
  assumes "arn_ok a"
  shows "ParseARN (arn_String a) = Inr a"
proof -
  let ?xs = "[''arn'', ar_Partition a, ar_Service a, ar_Region a, ar_AccountID a, ar_ResourceID a]"
  have "split_n 6 (CHR '':'') (arn_String a) = ?xs"
  proof -
    have six: "length ?xs = 6" by simp
    have "\<forall>x \<in> set (butlast ?xs). CHR '':'' \<notin> set x" using assms by (simp add: arn_ok_def)
    then have "split_n (length ?xs) (CHR '':'') (join_with '':'' ?xs) = ?xs" by (intro split_n_join) simp
    then show ?thesis unfolding six arn_String_def .
  qed
  then show ?thesis using assms by (simp add: ParseARN_def arn_ok_def arn_parse_six del: arn_parse_loop.simps)
qed

lemma ParseARN_ok: "ParseARN s = Inr a \<Longrightarrow> arn_ok a \<and> s = arn_String a"
proof -
  assume parse: "ParseARN s = Inr a"
  let ?ps = "split_n 6 (CHR '':'') s"
  have "length ?ps = 6" using parse length_split_n [of 6 "CHR '':''" s]
    by (auto simp: ParseARN_def Let_def split: if_splits)
  then obtain p0 p1 p2 p3 p4 p5 where ps: "?ps = [p0, p1, p2, p3, p4, p5]"
    by (auto simp: eval_nat_numeral length_Suc_conv)
  then have "ParseARN s = arn_parse_loop arn_empty 0 [p0, p1, p2, p3, p4, p5]" by (simp add: ParseARN_def)
  then have fields: "p0 = ''arn''" "p1 = ''gitdata''" "p2 = ''jiaozifs''" "p5 \<noteq> []"
    "a = \<lparr>ar_Partition = p1, ar_Service = p2, ar_Region = p3, ar_AccountID = p4, ar_ResourceID = p5\<rparr>"
    using parse unfolding arn_parse_six by (auto split: if_splits)
  have "CHR '':'' \<notin> set p3" "CHR '':'' \<notin> set p4"
    using split_n_no_sep [of _ 6 "CHR '':''" s] unfolding ps by auto
  moreover have "s = join_with '':'' [p0, p1, p2, p3, p4, p5]"
    using join_split_n [of 6 "CHR '':''" s] ps by simp
  ultimately show ?thesis
    unfolding arn_ok_def arn_String_def fields(5) using fields(1-4) by (simp del: join_with.simps)
qed

text \<open>
  C37: Parsing undoes printing, and the parser accepts nothing else: the ARNs of this service are
  exactly the texts of the records whose region and account have no colon and whose resource is
  not empty; each of them stands for one record.
\<close>

theorem ParseARN_roundtrip: "ParseARN s = Inr a \<longleftrightarrow> arn_ok a \<and> s = arn_String a"
  using ParseARN_String ParseARN_ok by blast

subsection \<open>Resources of this service\<close>

lemma ParseARN_prefix: "r \<noteq> [] \<Longrightarrow> ParseARN (ArnPrefix @ r) =
    Inr \<lparr>ar_Partition = ''gitdata'', ar_Service = ''jiaozifs'', ar_Region = [], ar_AccountID = [], ar_ResourceID = r\<rparr>"
  using ParseARN_String [of "\<lparr>ar_Partition = ''gitdata'', ar_Service = ''jiaozifs'', ar_Region = [], ar_AccountID = [], ar_ResourceID = r\<rparr>"]
  by (simp add: arn_String_def arn_ok_def ArnPrefix_def)

lemma ArnMatch_prefix: "r \<noteq> [] \<Longrightarrow> t \<noteq> [] \<Longrightarrow> ArnMatch (ArnPrefix @ r) (ArnPrefix @ t) \<longleftrightarrow> Match r t"
  by (simp add: ArnMatch_def ParseARN_prefix) (simp add: ArnPrefix_def All_def)

end
