(* ===== verification/Access_Tables.thy ===== *)
theory Access_Tables
  imports Repos
begin

section \<open>Tables of access control: models/rbacmodel, models/members.go\<close>

text \<open>
  The tables of policies, groups, user groups and members, beside the database of the metadata,
  with their repository functions. A slice that is nil and an empty slice are both the empty list.
\<close>

subsection \<open>Rows\<close>

definition StatementEffectAllow :: string where
  "StatementEffectAllow = ''allow''"

definition StatementEffectDeny :: string where
  "StatementEffectDeny = ''deny''"

record statement =
  st_Effect :: string
  st_Action :: "string list"
  st_Resource :: string

record policy =
  po_id :: uuid
  po_name :: string
  po_statements :: "statement list"
  po_created :: time
  po_updated :: time

record rgroup =
  gp_id :: uuid
  gp_name :: string
  gp_policies :: "uuid list"
  gp_created :: time
  gp_updated :: time

record user_group =
  ug_id :: uuid
  ug_user :: uuid
  ug_group :: uuid
  ug_created :: time
  ug_updated :: time

record member =
  mb_id :: uuid
  mb_user :: uuid
  mb_repo :: uuid
  mb_group :: uuid
  mb_created :: time
  mb_updated :: time

record access_db =
  ad_db :: db
  ad_policies :: "policy list"
  ad_groups :: "rgroup list"
  ad_user_groups :: "user_group list"
  ad_members :: "member list"

definition access_id :: "uuid \<Rightarrow> access_db \<Rightarrow> uuid \<times> access_db" where
  "access_id given d = (case row_id given (ad_db d) of (i, d0) \<Rightarrow> (i, d\<lparr>ad_db := d0\<rparr>))"

subsection \<open>Policies\<close>

definition PolicyRepo_Insert :: "policy \<Rightarrow> access_db \<Rightarrow> policy result \<times> access_db" where
  "PolicyRepo_Insert p d =
     (case access_id (po_id p) d of (i, d1) \<Rightarrow>
        (case tbl_insert2 po_id po_name (p\<lparr>po_id := i\<rparr>) (ad_policies d1) of
           (res, t) \<Rightarrow> (res, d1\<lparr>ad_policies := t\<rparr>)))"

definition PolicyRepo_Get :: "uuid \<Rightarrow> access_db \<Rightarrow> policy result" where
  "PolicyRepo_Get i d = q_select_one (where_id i po_id) (ad_policies d)"

text \<open>Without ids there is no condition, and every policy is returned.\<close>

definition PolicyRepo_List :: "uuid list \<Rightarrow> access_db \<Rightarrow> policy list" where
  "PolicyRepo_List ids d =
     sort_key (\<lambda>p. - po_created p)
       (q_select (if length ids > 0 then [\<lambda>p. po_id p \<in> set ids] else []) (ad_policies d))"

subsection \<open>Groups\<close>

record get_group_params =
  gg_id :: uuid
  gg_name :: "string option"

definition NewGetGroupParams :: get_group_params where
  "NewGetGroupParams = \<lparr>gg_id = uuid_Nil, gg_name = None\<rparr>"

definition group_zero :: rgroup where
  "group_zero = \<lparr>gp_id = uuid_Nil, gp_name = [], gp_policies = [], gp_created = 0, gp_updated = 0\<rparr>"

text \<open>
  The right join keeps a user group whose group is missing, with every column NULL; bun leaves the
  fields of the row at their zero values then.
\<close>

definition GroupRepo_GetGroupByUserID :: "uuid \<Rightarrow> access_db \<Rightarrow> rgroup result" where
  "GroupRepo_GetGroupByUserID userID d =
     (case q_select_one [\<lambda>u. ug_user u = userID] (ad_user_groups d) of
        Inl e \<Rightarrow> Inl e
      | Inr u \<Rightarrow>
          (case find (\<lambda>g. gp_id g = ug_group u) (ad_groups d) of
             None \<Rightarrow> Inr group_zero
           | Some g \<Rightarrow> Inr g))"

definition GroupRepo_Get :: "get_group_params \<Rightarrow> access_db \<Rightarrow> rgroup result" where
  "GroupRepo_Get params d =
     q_select_one (where_id (gg_id params) gp_id @ where_opt (gg_name params) gp_name) (ad_groups d)"

definition GroupRepo_List :: "string list \<Rightarrow> access_db \<Rightarrow> rgroup list" where
  "GroupRepo_List names d =
     sort_key (\<lambda>g. - gp_created g)
       (q_select (if length names > 0 then [\<lambda>g. gp_name g \<in> set names] else []) (ad_groups d))"

definition GroupRepo_Insert :: "rgroup \<Rightarrow> access_db \<Rightarrow> rgroup result \<times> access_db" where
  "GroupRepo_Insert g d =
     (case access_id (gp_id g) d of (i, d1) \<Rightarrow>
        (case tbl_insert2 gp_id gp_name (g\<lparr>gp_id := i\<rparr>) (ad_groups d1) of
           (res, t) \<Rightarrow> (res, d1\<lparr>ad_groups := t\<rparr>)))"

subsection \<open>User groups\<close>

definition UserGroupRepo_Insert :: "user_group \<Rightarrow> access_db \<Rightarrow> user_group result \<times> access_db" where
  "UserGroupRepo_Insert u d =
     (case access_id (ug_id u) d of (i, d1) \<Rightarrow>
        (case tbl_insert2 ug_id (\<lambda>u. (ug_user u, ug_group u)) (u\<lparr>ug_id := i\<rparr>) (ad_user_groups d1) of
           (res, t) \<Rightarrow> (res, d1\<lparr>ad_user_groups := t\<rparr>)))"

definition UserGroupRepo_Get :: "uuid \<Rightarrow> uuid \<Rightarrow> access_db \<Rightarrow> user_group result" where
  "UserGroupRepo_Get userID groupID d =
     q_select_one (where_id userID ug_user @ where_id groupID ug_group) (ad_user_groups d)"

subsection \<open>Members\<close>

record get_member_params =
  gm_member :: uuid
  gm_repo :: uuid
  gm_user :: uuid

record update_member_params =
  um_repo :: uuid
  um_user :: uuid
  um_group :: uuid
  um_time :: time

definition member_unique :: "member \<Rightarrow> uuid \<times> uuid" where
  "member_unique m = (mb_user m, mb_repo m)"

definition MemberRepo_Insert :: "member \<Rightarrow> access_db \<Rightarrow> member result \<times> access_db" where
  "MemberRepo_Insert m d =
     (case access_id (mb_id m) d of (i, d1) \<Rightarrow>
        (case tbl_insert2 mb_id member_unique (m\<lparr>mb_id := i\<rparr>) (ad_members d1) of
           (res, t) \<Rightarrow> (res, d1\<lparr>ad_members := t\<rparr>)))"

definition MemberRepo_GetMember :: "get_member_params \<Rightarrow> access_db \<Rightarrow> member result" where
  "MemberRepo_GetMember params d =
     q_select_one (where_id (gm_member params) mb_id @ where_id (gm_repo params) mb_repo @
       where_id (gm_user params) mb_user) (ad_members d)"

definition MemberRepo_ListMember :: "uuid \<Rightarrow> access_db \<Rightarrow> member list" where
  "MemberRepo_ListMember repoID d =
     sort_key (\<lambda>m. - mb_created m) (q_select (where_id repoID mb_repo) (ad_members d))"

definition MemberRepo_UpdateMember :: "update_member_params \<Rightarrow> access_db \<Rightarrow> unit result \<times> access_db" where
  "MemberRepo_UpdateMember params d =
     (let conds = where_id (um_repo params) mb_repo @ where_id (um_user params) mb_user
      in if conds = [] then (Inl (ErrMsg ''bun: Update and Delete queries require at least one Where''), d)
         else (Inr (), d\<lparr>ad_members := tbl_update (holds conds)
            (\<lambda>m. (if um_group params \<noteq> uuid_Nil then m\<lparr>mb_group := um_group params\<rparr> else m)\<lparr>mb_updated := um_time params\<rparr>)
            (ad_members d)\<rparr>))"

definition MemberRepo_DeleteMember :: "uuid \<Rightarrow> uuid \<Rightarrow> access_db \<Rightarrow> nat result \<times> access_db" where
  "MemberRepo_DeleteMember repoID userID d =
     (case q_delete (where_id repoID mb_repo @ where_id userID mb_user) (ad_members d) of
        (res, t) \<Rightarrow> (res, d\<lparr>ad_members := t\<rparr>))"

end
