(* ===== verification/Rbac.thy ===== *)
theory Rbac
  imports Arn Access_Tables
begin

section \<open>Access control: auth/rbac\<close>

text \<open>
  The built-in statements (statements.go) and groups, and the check of a request's permissions
  (rbac.go). \<open>us\<close> is \<open>uuid.UUID.String\<close> of the package uuid and \<open>now\<close> the clock. The
  policies of the viewer group are cached in the state of \<open>RbacAuth\<close>; its lock is not modelled.
\<close>

subsection \<open>Statements\<close>

definition statement_empty :: statement where
  "statement_empty = \<lparr>st_Effect = [], st_Action = [], st_Resource = []\<rparr>"

definition RepoReadWrite_actions :: "string list" where
  "RepoReadWrite_actions =
     [''repo:ReadRepository'', ''repo:UpdateRepository'', ''repo:DeleteRepository'', ''repo:ListRepositories'',
      ''repo:ReadObject'', ''repo:WriteObject'', ''repo:DeleteObject'', ''repo:ListObjects'',
      ''repo:CreateCommit'', ''repo:ReadCommit'', ''repo:ListCommits'',
      ''repo:CreateBranch'', ''repo:DeleteBranch'', ''repo:ReadBranch'', ''repo:ListBranches'', ''repo:WriteBranch'',
      ''repo:CreateTag'', ''repo:DeleteTag'', ''repo:ReadTag'', ''repo:ListTags'', ''repo:WriteTag'',
      ''repo:DeleteWip'',
      ''repo:CreateMergeRequest'', ''repo:ReadMergeRequest'', ''repo:UpdateMergeRequest'', ''repo:ListMergeRequest'',
      ''repo:ReadConfig'', ''repo:WriteConfig'',
      ''repo:GetWip'', ''repo:ListWip'', ''repo:WriteWip'', ''repo:CreateWip'']"

definition allow_statement :: "string list \<Rightarrow> statement" where
  "allow_statement actions = statement_empty\<lparr>st_Action := actions, st_Effect := StatementEffectAllow\<rparr>"

definition statementByName :: "string \<Rightarrow> statement option" where
  "statementByName =
     map_of [(''AllAccess'', allow_statement [''repo:*'', ''auth:*'', ''user:*'']),
       (''RepoReadWrite'', allow_statement RepoReadWrite_actions),
       (''RepoRead'', allow_statement [''repo:Read*'', ''repo:List*'']),
       (''RepoReadConfig'', allow_statement [''repo:ReadConfig'']),
       (''RepoWriteConfig'', allow_statement
          [''repo:ReadConfig'', ''repo:WriteConfig'', ''repo:AddGroupMember'', ''repo:RemoveGroupMember'']),
       (''RepoMemberRead'', allow_statement [''repo:GetGroupMember'', ''repo:GetGroupMember'']),
       (''RepoMemberAccess'', allow_statement
          [''repo:GetGroupMember'', ''repo:GetGroupMember'', ''repo:AddGroupMember'', ''repo:RemoveGroupMember'']),
       (''UserFullAccess'', allow_statement [''auth:*'', ''user:*''])]"

definition GetActionsForPolicyType :: "string \<Rightarrow> string list result" where
  "GetActionsForPolicyType typ =
     (case statementByName typ of None \<Rightarrow> Inl (ErrMsg ''statement not found'') | Some s \<Rightarrow> Inr (st_Action s))"

definition GetActionsForPolicyTypeOrDie :: "string \<Rightarrow> string list result" where
  "GetActionsForPolicyTypeOrDie typ =
     (case GetActionsForPolicyType typ of Inl _ \<Rightarrow> Inl (Panic ''statement not found'') | Inr actions \<Rightarrow> Inr actions)"

definition MakeStatementForPolicyType :: "string \<Rightarrow> string list \<Rightarrow> statement list result" where
  "MakeStatementForPolicyType typ resources =
     (case statementByName typ of
        None \<Rightarrow> Inl (ErrMsg ''statement not found'')
      | Some s \<Rightarrow> Inr (map (\<lambda>r. if st_Resource s = [] then s\<lparr>st_Resource := r\<rparr> else statement_empty) resources))"

definition MakeStatementForPolicyTypeOrDie :: "string \<Rightarrow> string list \<Rightarrow> statement list result" where
  "MakeStatementForPolicyTypeOrDie typ resources =
     (case MakeStatementForPolicyType typ resources of
        Inl _ \<Rightarrow> Inl (Panic ''statement not found'') | Inr ss \<Rightarrow> Inr ss)"

subsection \<open>Permissions\<close>

datatype check_result = CheckAllow | CheckNeutral | CheckDeny

record permission =
  pm_Action :: string
  pm_Resource :: string

text \<open>\<open>NodeType\<close> is an \<open>int\<close>: 0 a permission, 1 \<open>Or\<close>, 2 \<open>And\<close>, anything else is refused.\<close>

datatype node = Node int permission "node list"

abbreviation (input) NodeTypeNode :: int where "NodeTypeNode \<equiv> 0"
abbreviation (input) NodeTypeOr :: int where "NodeTypeOr \<equiv> 1"
abbreviation (input) NodeTypeAnd :: int where "NodeTypeAnd \<equiv> 2"

record resource_params =
  rs_user :: uuid
  rs_repo :: uuid

definition Render :: "(uuid \<Rightarrow> string) \<Rightarrow> resource_params \<Rightarrow> string \<Rightarrow> string" where
  "Render us rp resource =
     (let r1 = (if rs_user rp \<noteq> uuid_Nil then WithUserID resource (us (rs_user rp)) else resource)
      in if rs_repo rp \<noteq> uuid_Nil then WithRepoID r1 (us (rs_repo rp)) else r1)"

text \<open>The three nested loops over policies, statements and actions; \<open>Inl\<close> is a \<open>return\<close> inside one.\<close>

fun action_loop :: "statement \<Rightarrow> permission \<Rightarrow> string list \<Rightarrow> check_result \<Rightarrow> check_result + check_result" where
  "action_loop stmt perm [] allowed = Inr allowed"
| "action_loop stmt perm (action # actions) allowed =
     (if \<not> Match action (pm_Action perm) then action_loop stmt perm actions allowed
      else if st_Effect stmt = StatementEffectDeny then Inl CheckDeny
      else action_loop stmt perm actions CheckAllow)"

fun stmt_loop :: "(uuid \<Rightarrow> string) \<Rightarrow> resource_params \<Rightarrow> permission \<Rightarrow> statement list \<Rightarrow> check_result \<Rightarrow>
    check_result + check_result" where
  "stmt_loop us params perm [] allowed = Inr allowed"
| "stmt_loop us params perm (stmt # stmts) allowed =
     (if \<not> ArnMatch (Render us params (st_Resource stmt)) (pm_Resource perm) then stmt_loop us params perm stmts allowed
      else case action_loop stmt perm (st_Action stmt) allowed of
        Inl r \<Rightarrow> Inl r
      | Inr allowed' \<Rightarrow> stmt_loop us params perm stmts allowed')"

fun policy_loop :: "(uuid \<Rightarrow> string) \<Rightarrow> resource_params \<Rightarrow> permission \<Rightarrow> policy list \<Rightarrow> check_result \<Rightarrow>
    check_result + check_result" where
  "policy_loop us params perm [] allowed = Inr allowed"
| "policy_loop us params perm (policy # policies) allowed =
     (case stmt_loop us params perm (po_statements policy) allowed of
        Inl r \<Rightarrow> Inl r
      | Inr allowed' \<Rightarrow> policy_loop us params perm policies allowed')"

fun checkPermissions :: "(uuid \<Rightarrow> string) \<Rightarrow> node \<Rightarrow> resource_params \<Rightarrow> policy list \<Rightarrow> check_result"
  and check_or :: "(uuid \<Rightarrow> string) \<Rightarrow> node list \<Rightarrow> resource_params \<Rightarrow> policy list \<Rightarrow> check_result \<Rightarrow> check_result"
  and check_and :: "(uuid \<Rightarrow> string) \<Rightarrow> node list \<Rightarrow> resource_params \<Rightarrow> policy list \<Rightarrow> check_result" where
  "checkPermissions us (Node ty perm nodes) params policies =
     (if ty = NodeTypeNode then
        (case policy_loop us params perm policies CheckNeutral of Inl r \<Rightarrow> r | Inr allowed \<Rightarrow> allowed)
      else if ty = NodeTypeOr then check_or us nodes params policies CheckNeutral
      else if ty = NodeTypeAnd then check_and us nodes params policies
      else CheckDeny)"
| "check_or us [] params policies allowed = allowed"
| "check_or us (n # nodes) params policies allowed =
     (let r = checkPermissions us n params policies
      in if r = CheckDeny then CheckDeny
         else check_or us nodes params policies (if allowed \<noteq> CheckAllow then r else allowed))"
| "check_and us [] params policies = CheckAllow"
| "check_and us (n # nodes) params policies =
     (let r = checkPermissions us n params policies
      in if r = CheckNeutral \<or> r = CheckDeny then r else check_and us nodes params policies)"

subsection \<open>Authorization\<close>

record auth_response =
  ap_Allowed :: bool
  ap_Error :: "string option"

definition not_allowed :: auth_response where
  "not_allowed = \<lparr>ap_Allowed = False, ap_Error = Some ''permission not enough''\<rparr>"

definition allowed_response :: auth_response where
  "allowed_response = \<lparr>ap_Allowed = True, ap_Error = None\<rparr>"

definition listEffectivePolicies :: "uuid \<Rightarrow> access_db \<Rightarrow> policy list result" where
  "listEffectivePolicies userID d =
     (case GroupRepo_GetGroupByUserID userID d of
        Inl e \<Rightarrow> Inl e
      | Inr g \<Rightarrow> Inr (PolicyRepo_List (gp_policies g) d))"

definition Authorize :: "(uuid \<Rightarrow> string) \<Rightarrow> uuid \<Rightarrow> node \<Rightarrow> access_db \<Rightarrow> auth_response result" where
  "Authorize us operator required d =
     (case listEffectivePolicies operator d of
        Inl e \<Rightarrow> Inl e
      | Inr policies \<Rightarrow>
          if checkPermissions us required \<lparr>rs_user = operator, rs_repo = uuid_Nil\<rparr> policies \<noteq> CheckAllow
          then Inr not_allowed else Inr allowed_response)"

definition getMemberPolicy :: "uuid \<Rightarrow> uuid \<Rightarrow> access_db \<Rightarrow> policy list result" where
  "getMemberPolicy operatorID repoID d =
     (case MemberRepo_GetMember \<lparr>gm_member = uuid_Nil, gm_repo = repoID, gm_user = operatorID\<rparr> d of
        Inl e \<Rightarrow> Inl e
      | Inr m \<Rightarrow>
          (case GroupRepo_Get (NewGetGroupParams\<lparr>gg_id := mb_group m\<rparr>) d of
             Inl e \<Rightarrow> Inl e
           | Inr g \<Rightarrow> Inr (PolicyRepo_List (gp_policies g) d)))"

text \<open>The cache \<open>viewerPolicies\<close> is the state.\<close>

definition getViewerPolicy :: "access_db \<Rightarrow> policy list \<Rightarrow> policy list result \<times> policy list" where
  "getViewerPolicy d cache =
     (if cache \<noteq> [] then (Inr cache, cache)
      else case GroupRepo_Get (NewGetGroupParams\<lparr>gg_name := Some ''Viewer''\<rparr>) d of
        Inl e \<Rightarrow> (Inl e, cache)
      | Inr g \<Rightarrow> let policies = PolicyRepo_List (gp_policies g) d in (Inr policies, policies))"

text \<open>The end of \<open>AuthorizeMember\<close>, when the policies are known.\<close>

definition check_member :: "(uuid \<Rightarrow> string) \<Rightarrow> node \<Rightarrow> repository \<Rightarrow> uuid \<Rightarrow> policy list \<Rightarrow> auth_response" where
  "check_member us required repo repoID policies =
     (if length policies = 0 then not_allowed
      else if checkPermissions us required \<lparr>rs_user = rp_owner repo, rs_repo = repoID\<rparr> policies \<noteq> CheckAllow
      then not_allowed else allowed_response)"

definition AuthorizeMember ::
  "(uuid \<Rightarrow> string) \<Rightarrow> uuid \<Rightarrow> uuid \<Rightarrow> node \<Rightarrow> access_db \<Rightarrow> policy list \<Rightarrow> auth_response result \<times> policy list" where
  "AuthorizeMember us repoID operator required d cache =
     (case RepositoryRepo_Get (NewGetRepoParams\<lparr>gr_id := repoID\<rparr>) (ad_db d) of
        Inl e \<Rightarrow> (Inl e, cache)
      | Inr repo \<Rightarrow>
          if rp_owner repo = operator then (Inr allowed_response, cache)
          else case (if rp_visible repo then getViewerPolicy d cache else (Inr [], cache)) of
            (Inl e, cache') \<Rightarrow> (Inl e, cache')
          | (Inr policies, cache') \<Rightarrow>
              (case getMemberPolicy operator repoID d of
                 Inl e \<Rightarrow>
                   if e \<noteq> ErrNotFound then (Inl e, cache')
                   else (Inr (check_member us required repo repoID policies), cache')
               | Inr ps \<Rightarrow> (Inr (check_member us required repo repoID (policies @ ps)), cache')))"

subsection \<open>Setting up the built-in groups\<close>

fun insert_policies :: "policy list \<Rightarrow> uuid list \<Rightarrow> access_db \<Rightarrow> uuid list result \<times> access_db" where
  "insert_policies [] policyIDs d = (Inr policyIDs, d)"
| "insert_policies (p # policies) policyIDs d =
     (case PolicyRepo_Insert p d of
        (Inl e, d1) \<Rightarrow> (Inl e, d1)
      | (Inr p', d1) \<Rightarrow> insert_policies policies (policyIDs @ [po_id p']) d1)"

definition addGroupPolicy :: "time \<Rightarrow> string \<Rightarrow> policy list \<Rightarrow> access_db \<Rightarrow> rgroup result \<times> access_db" where
  "addGroupPolicy now groupName policies d =
     (case insert_policies policies [] d of
        (Inl e, d1) \<Rightarrow> (Inl e, d1)
      | (Inr policyIDs, d1) \<Rightarrow>
          GroupRepo_Insert \<lparr>gp_id = uuid_Nil, gp_name = groupName, gp_policies = policyIDs,
            gp_created = now, gp_updated = now\<rparr> d1)"

definition make_policy :: "time \<Rightarrow> string \<Rightarrow> statement list \<Rightarrow> policy" where
  "make_policy now nm statements =
     \<lparr>po_id = uuid_Nil, po_name = nm, po_statements = statements, po_created = now, po_updated = now\<rparr>"

definition RepoAdmin_statements :: "statement list" where
  "RepoAdmin_statements =
     [\<lparr>st_Effect = StatementEffectAllow, st_Action = [''repo:*''],
       st_Resource = RepoURArn UserIDCapture RepoIDCapture\<rparr>,
      \<lparr>st_Effect = StatementEffectDeny, st_Action = [''repo:UpdateVisible''], st_Resource = RepoUArn UserIDCapture\<rparr>]"

definition UserOwner_extra :: statement where
  "UserOwner_extra =
     \<lparr>st_Effect = StatementEffectAllow, st_Action = [''repo:CreateRepository'', ''repo:*''],
      st_Resource = RepoUArn UserIDCapture\<rparr>"

text \<open>The statements of a group, or the panic of \<open>MakeStatementForPolicyTypeOrDie\<close>.\<close>

definition add_builtin :: "time \<Rightarrow> string \<Rightarrow> statement list result \<Rightarrow> access_db \<Rightarrow> rgroup result \<times> access_db" where
  "add_builtin now nm statements d =
     (case statements of
        Inl e \<Rightarrow> (Inl e, d)
      | Inr ss \<Rightarrow> addGroupPolicy now nm [make_policy now nm ss] d)"

definition init_groups :: "time \<Rightarrow> access_db \<Rightarrow> rgroup result \<times> access_db" where
  "init_groups now =
     (let repo_res = [RepoURArn UserIDCapture RepoIDCapture]
      in bind_st (add_builtin now ''Super'' (MakeStatementForPolicyTypeOrDie ''AllAccess'' [All])) (\<lambda>superGroup.
         bind_st (add_builtin now ''RepoAdmin'' (Inr RepoAdmin_statements)) (\<lambda>_.
         bind_st (add_builtin now ''RepoWrite'' (MakeStatementForPolicyTypeOrDie ''RepoReadWrite'' repo_res)) (\<lambda>_.
         bind_st (add_builtin now ''RepoRead'' (MakeStatementForPolicyTypeOrDie ''RepoRead'' repo_res)) (\<lambda>_.
         bind_st (add_builtin now ''Viewer'' (MakeStatementForPolicyTypeOrDie ''RepoRead'' repo_res)) (\<lambda>_.
         bind_st (add_builtin now ''UserOwnAccess''
             (case MakeStatementForPolicyTypeOrDie ''UserFullAccess'' [UserArn UserIDCapture, UserAkskArn UserIDCapture] of
                Inl e \<Rightarrow> Inl e | Inr userOwner \<Rightarrow> Inr (userOwner @ [UserOwner_extra]))) (\<lambda>_.
         return_st superGroup)))))))"

definition insert_user :: "user \<Rightarrow> access_db \<Rightarrow> user result \<times> access_db" where
  "insert_user u d = (case UserRepo_Insert u (ad_db d) of (res, d0) \<Rightarrow> (res, d\<lparr>ad_db := d0\<rparr>))"

definition access_transaction :: "(access_db \<Rightarrow> 'a result \<times> access_db) \<Rightarrow> access_db \<Rightarrow> 'a result \<times> access_db" where
  "access_transaction fn d = (case fn d of (Inl e, _) \<Rightarrow> (Inl e, d) | (Inr x, d') \<Rightarrow> (Inr x, d'))"

definition InitRbac :: "time \<Rightarrow> user \<Rightarrow> access_db \<Rightarrow> unit result \<times> access_db" where
  "InitRbac now adminUser =
     access_transaction
       (bind_st (init_groups now) (\<lambda>superGroup.
        bind_st (insert_user adminUser) (\<lambda>admin.
        bind_st (UserGroupRepo_Insert \<lparr>ug_id = uuid_Nil, ug_user = us_id admin, ug_group = gp_id superGroup,
            ug_created = now, ug_updated = now\<rparr>) (\<lambda>_.
        return_st ()))))"


end
