(* ===== verification/Http_Range.thy ===== *)
theory Http_Range
  imports Prelude "HOL-Library.Word"
begin

section \<open>Byte ranges: utils/httputil/range.go\<close>

text \<open>
  \<open>ParseRange\<close> reads the value of a Range header against the length of an object. An
  \<open>int64\<close> is a \<^typ>\<open>64 word\<close> that \<open>sint\<close> reads, so subtraction wraps as in Go.
  \<open>strconv.ParseInt(s, 10, 64)\<close> takes an optional sign and decimal digits and fails on any
  other byte and outside 64 bits; the callers only ask whether it failed.
\<close>

type_synonym int64 = "64 word"

datatype range_error = ErrBadRange | ErrUnsatisfiableRange

record range =
  StartOffset :: int64
  EndOffset :: int64

definition range_Size :: "range \<Rightarrow> int64" where
  "range_Size r = EndOffset r - StartOffset r + 1"

subsection \<open>Decimal numbers\<close>

definition dec_value :: "char \<Rightarrow> nat option" where
  "dec_value c = (let n = of_char c in if 48 \<le> n \<and> n < 58 then Some (n - 48) else None)"

fun parse_dec_loop :: "nat \<Rightarrow> string \<Rightarrow> nat option" where
  "parse_dec_loop n [] = Some n"
| "parse_dec_loop n (c # cs) =
     (case dec_value c of None \<Rightarrow> None | Some d \<Rightarrow> parse_dec_loop (n * 10 + d) cs)"

definition ParseInt64 :: "string \<Rightarrow> int64 option" where
  "ParseInt64 s =
     (let neg = has_prefix s ''-'';
          digits = (if neg \<or> has_prefix s ''+'' then drop 1 s else s)
      in if digits = [] then None
         else case parse_dec_loop 0 digits of
                None \<Rightarrow> None
              | Some n \<Rightarrow>
                  if neg then (if n > 2 ^ 63 then None else Some (word_of_int (- int n)))
                  else (if n \<ge> 2 ^ 63 then None else Some (word_of_int (int n))))"

subsection \<open>The parser\<close>

definition ParseRange :: "string \<Rightarrow> int64 \<Rightarrow> range_error + range" where
  "ParseRange spec len =
     (if \<not> has_prefix spec ''bytes='' then Inl ErrBadRange
      else case split_on (CHR ''-'') (trim_prefix spec ''bytes='') of
        [fromString, toString] \<Rightarrow>
          if fromString = [] \<and> toString = [] then Inl ErrBadRange
          else if fromString = [] then
            (case ParseInt64 toString of
               None \<Rightarrow> Inl ErrBadRange
             | Some endOffset \<Rightarrow>
                 Inr \<lparr>StartOffset = (if sint (len - endOffset) < 0 then 0 else len - endOffset),
                      EndOffset = len - 1\<rparr>)
          else if toString = [] then
            (case ParseInt64 fromString of
               None \<Rightarrow> Inl ErrBadRange
             | Some beginOffset \<Rightarrow>
                 if sint beginOffset > sint (len - 1) then Inl ErrUnsatisfiableRange
                 else Inr \<lparr>StartOffset = beginOffset, EndOffset = len - 1\<rparr>)
          else
            (case ParseInt64 fromString of
               None \<Rightarrow> Inl ErrBadRange
             | Some beginOffset \<Rightarrow>
                 (case ParseInt64 toString of
                    None \<Rightarrow> Inl ErrBadRange
                  | Some endOffset0 \<Rightarrow>
                      let endOffset = (if sint endOffset0 > sint (len - 1) then len - 1 else endOffset0)
                      in if sint beginOffset > sint (len - 1) \<or> sint endOffset > sint (len - 1)
                         then Inl ErrUnsatisfiableRange
                         else Inr \<lparr>StartOffset = beginOffset, EndOffset = endOffset\<rparr>))
      | _ \<Rightarrow> Inl ErrBadRange)"

subsection \<open>Numbers of a range are not negative\<close>

lemma sint_bounds: "- (2 ^ 63) \<le> sint (w :: int64)" "sint (w :: int64) < 2 ^ 63"
  using sint_ge [of w] sint_lt [of w] by simp_all

lemma sint_small: "- (2 ^ 63) \<le> k \<Longrightarrow> k < 2 ^ 63 \<Longrightarrow> sint (word_of_int k :: int64) = k"
  using signed_take_bit_int_eq_self [of 63 k] by (simp only: sint_sbintrunc') simp

lemma sint_diff_small:
  "- (2 ^ 63) \<le> sint a - sint b \<Longrightarrow> sint a - sint b < 2 ^ 63 \<Longrightarrow> sint (a - b :: int64) = sint a - sint b"
  using signed_take_bit_int_eq_self [of 63 "sint a - sint b"] by (simp only: sint_word_diff) simp

lemma sint_add_small:
  "- (2 ^ 63) \<le> sint a + sint b \<Longrightarrow> sint a + sint b < 2 ^ 63 \<Longrightarrow> sint (a + b :: int64) = sint a + sint b"
  using signed_take_bit_int_eq_self [of 63 "sint a + sint b"] by (simp only: sint_word_add) simp

lemma sint_minus_one: "0 \<le> sint len \<Longrightarrow> sint (len - 1 :: int64) = sint len - 1"
  using sint_bounds(2) [of len] by (subst sint_diff_small) simp_all

lemma ParseInt64_nonneg:
  assumes "ParseInt64 s = Some w" "CHR ''-'' \<notin> set s"
  shows "0 \<le> sint w"
proof -
  have "\<not> has_prefix s ''-''" using assms(2) by (cases s) (auto simp: has_prefix_def)
  with assms(1) obtain n where "n < 2 ^ 63" "w = word_of_int (int n)"
    by (auto simp: ParseInt64_def Let_def not_le split: if_splits option.splits)
  then show ?thesis using sint_small [of "int n"] by simp
qed

lemma ParseRange_parts:
  assumes "ParseRange spec len = Inr r"
  obtains fromString toString where "split_on (CHR ''-'') (trim_prefix spec ''bytes='') = [fromString, toString]"
    "CHR ''-'' \<notin> set fromString" "CHR ''-'' \<notin> set toString"
proof -
  obtain f t where p: "split_on (CHR ''-'') (trim_prefix spec ''bytes='') = [f, t]"
    using assms by (auto simp: ParseRange_def split: if_splits list.splits)
  with split_on_no_sep [of "CHR ''-''" "trim_prefix spec ''bytes=''"] show ?thesis
    by (intro that [OF p]) auto
qed

lemma ParseRange_offsets:
  assumes "0 \<le> sint len" "ParseRange spec len = Inr r"
  shows "0 \<le> sint (StartOffset r) \<and> sint (StartOffset r) \<le> sint len \<and>
    -1 \<le> sint (EndOffset r) \<and> sint (EndOffset r) < sint len"
proof -
  from assms(2) obtain f t where p: "split_on (CHR ''-'') (trim_prefix spec ''bytes='') = [f, t]"
    and neg: "CHR ''-'' \<notin> set f" "CHR ''-'' \<notin> set t" by (rule ParseRange_parts)
  have last: "sint (len - 1) = sint len - 1" by (rule sint_minus_one [OF assms(1)])
  have diff: "sint (len - e) = sint len - sint e" if "0 \<le> sint e" for e
    using sint_bounds(2) [of len] sint_bounds(2) [of e] assms(1) that by (subst sint_diff_small) simp_all
  note nonneg = ParseInt64_nonneg [OF _ neg(1)] ParseInt64_nonneg [OF _ neg(2)]
  show ?thesis
    using assms p last by (auto simp: ParseRange_def Let_def diff split: if_splits option.splits dest: nonneg)
qed

lemma sint_range_Size:
  assumes "0 \<le> sint len" "ParseRange spec len = Inr r"
  shows "sint (range_Size r) = sint (EndOffset r) - sint (StartOffset r) + 1"
  using ParseRange_offsets [OF assms] sint_bounds(2) [of len] unfolding range_Size_def
  by (subst sint_add_small; subst sint_diff_small) simp_all

text \<open>
  C38: For an object of any length a range that is accepted starts between zero and the length,
  ends before the length, and its size is computed without wrapping: it is at most the length. (It
  can be negative, see below.)
\<close>

theorem ParseRange_bounds:
  assumes "0 \<le> sint len" "ParseRange spec len = Inr r"
  shows "0 \<le> sint (StartOffset r) \<and> sint (StartOffset r) \<le> sint len \<and>
    -1 \<le> sint (EndOffset r) \<and> sint (EndOffset r) < sint len \<and>
    sint (range_Size r) = sint (EndOffset r) - sint (StartOffset r) + 1 \<and> sint (range_Size r) \<le> sint len"
  using ParseRange_offsets [OF assms] sint_range_Size [OF assms] by simp

lemma ParseRange_bounds_witness:
  "sint (StartOffset \<lparr>StartOffset = 2, EndOffset = 9\<rparr>) \<le> 10 \<and>
   ParseRange ''bytes=2-99'' 10 = Inr \<lparr>StartOffset = 2, EndOffset = 9\<rparr>"
proof -
  have run: "ParseRange ''bytes=2-99'' 10 = Inr \<lparr>StartOffset = 2, EndOffset = 9\<rparr>"
    by (simp add: ParseRange_def ParseInt64_def dec_value_def has_prefix_def trim_prefix_def)
  from ParseRange_bounds [OF _ run] run show ?thesis by simp
qed

subsection \<open>The three forms of a range\<close>

text \<open>\<open>%d\<close> of a number that is not negative.\<close>

fun dec_digits :: "nat \<Rightarrow> string" where
  "dec_digits n = (if n < 10 then [char_of (48 + n)] else dec_digits (n div 10) @ [char_of (48 + n mod 10)])"

declare dec_digits.simps [simp del]

lemma dec_value_digit [simp]: "d < 10 \<Longrightarrow> dec_value (char_of (48 + d)) = Some d"
  by (simp add: dec_value_def Let_def)

lemma parse_dec_append:
  "parse_dec_loop n (xs @ ys) = (case parse_dec_loop n xs of None \<Rightarrow> None | Some k \<Rightarrow> parse_dec_loop k ys)"
  by (induction xs arbitrary: n) (auto split: option.splits)

lemma parse_dec_digits: "parse_dec_loop 0 (dec_digits n) = Some n"
proof (induction n rule: dec_digits.induct)
  case (1 n)
  then show ?case by (cases "n < 10") (simp_all add: dec_digits.simps [of n] parse_dec_append div_mult_mod_eq)
qed

lemma dec_digits_set: "c \<in> set (dec_digits n) \<Longrightarrow> dec_value c \<noteq> None"
proof (induction n rule: dec_digits.induct)
  case (1 n)
  then show ?case by (subst (asm) dec_digits.simps) (auto split: if_splits)
qed

lemma dec_digits_neq_Nil [simp]: "dec_digits n \<noteq> []"
  by (subst dec_digits.simps) simp

lemma dec_digits_no_sign: "CHR ''-'' \<notin> set (dec_digits n)" "CHR ''+'' \<notin> set (dec_digits n)"
  using dec_digits_set [of "CHR ''-''" n] dec_digits_set [of "CHR ''+''" n] by (auto simp: dec_value_def)

lemma ParseInt64_digits: "n < 2 ^ 63 \<Longrightarrow> ParseInt64 (dec_digits n) = Some (word_of_int (int n))"
  using dec_digits_no_sign [of n] parse_dec_digits [of n]
  by (cases "dec_digits n") (auto simp: ParseInt64_def Let_def has_prefix_def)

lemma split_on_two: "c \<notin> set f \<Longrightarrow> c \<notin> set t \<Longrightarrow> split_on c (f @ [c] @ t) = [f, t]"
proof (induction f)
  case Nil
  then have "split_on c t = [t]" by (induction t) (auto)
  then show ?case by simp
qed auto

text \<open>
  The three forms of a range are read as intended, with the end cut to the last byte of the
  object and a start past it refused: \<open>a-b\<close>, \<open>a-\<close> and the last \<open>b\<close> bytes \<open>-b\<close>. The first form
  does not compare its two numbers: a range whose end is before its start is accepted, and its
  size is then not positive.
\<close>

theorem ParseRange_forms:
  assumes "len = word_of_int (int n)" "n < 2 ^ 63" "a < 2 ^ 63" "b < 2 ^ 63"
  shows "ParseRange (''bytes='' @ dec_digits a @ ''-'' @ dec_digits b) len =
      (if a < n then Inr \<lparr>StartOffset = word_of_int (int a), EndOffset = word_of_int (int (min b (n - 1)))\<rparr>
       else Inl ErrUnsatisfiableRange) \<and>
    ParseRange (''bytes='' @ dec_digits a @ ''-'') len =
      (if a < n then Inr \<lparr>StartOffset = word_of_int (int a), EndOffset = word_of_int (int n - 1)\<rparr>
       else Inl ErrUnsatisfiableRange) \<and>
    ParseRange (''bytes=-'' @ dec_digits b) len =
      Inr \<lparr>StartOffset = word_of_int (int (n - b)), EndOffset = word_of_int (int n - 1)\<rparr>"
proof -
  have n: "sint len = int n" "sint (len - 1) = int n - 1"
    using assms(1,2) sint_small [of "int n"] sint_minus_one [of len] by simp_all
  have a: "sint (word_of_int (int a) :: int64) = int a" and b: "sint (word_of_int (int b) :: int64) = int b"
    using assms(3,4) sint_small [of "int a"] sint_small [of "int b"] by simp_all
  have nb: "sint (len - word_of_int (int b)) = int n - int b"
    using n(1) b assms(2,4) by (subst sint_diff_small) simp_all
  have w1: "len - 1 = word_of_int (int n - 1)" using assms(1) by (simp add: wi_hom_sub)
  have wb: "len - word_of_int (int b) = word_of_int (int (n - b))" if "b \<le> n"
    using that assms(1) by (simp add: of_nat_diff)
  note pre = has_prefix_def trim_prefix_def
  note ints = ParseInt64_digits [OF assms(3)] ParseInt64_digits [OF assms(4)]
  note two = split_on_two [OF dec_digits_no_sign(1), of "dec_digits b" a] split_on_two [of "CHR ''-''" _ "[]"]
    split_on_two [of "CHR ''-''" "[]"]
  have "ParseRange (''bytes='' @ dec_digits a @ ''-'' @ dec_digits b) len =
      (if a < n then Inr \<lparr>StartOffset = word_of_int (int a), EndOffset = word_of_int (int (min b (n - 1)))\<rparr>
       else Inl ErrUnsatisfiableRange)"
    using two(1) n a b w1 by (auto simp: ParseRange_def pre ints dec_digits_no_sign Let_def min_def of_nat_diff)
  moreover have "ParseRange (''bytes='' @ dec_digits a @ ''-'') len =
      (if a < n then Inr \<lparr>StartOffset = word_of_int (int a), EndOffset = word_of_int (int n - 1)\<rparr>
       else Inl ErrUnsatisfiableRange)"
    using two(2) n a w1 by (auto simp: ParseRange_def pre ints dec_digits_no_sign)
  moreover have "ParseRange (''bytes=-'' @ dec_digits b) len =
      Inr \<lparr>StartOffset = word_of_int (int (n - b)), EndOffset = word_of_int (int n - 1)\<rparr>"
    using two(3) [of "dec_digits b"] n b nb w1 wb
    by (auto simp: ParseRange_def pre ints dec_digits_no_sign)
  ultimately show ?thesis by blast
qed

lemma ParseRange_forms_witness: "ParseRange ''bytes=5-2'' 10 = Inr \<lparr>StartOffset = 5, EndOffset = 2\<rparr>"
proof -
  have "dec_digits 5 = ''5''" "dec_digits 2 = ''2''" by (simp_all add: dec_digits.simps, code_simp+)
  then show ?thesis using ParseRange_forms [of 10 10 5 2] by simp
qed


end
