(* ===== verification/Blocks.thy ===== *)
theory Blocks
  imports Object_Model Http_Range "HOL-Library.AList"
begin

section \<open>Stored contents: block/adapter.go, block/mem, WriteBlob and ReadBlob\<close>

text \<open>
  The contents of files live in a block store behind the interface \<open>block.Adapter\<close>. The record
  \<open>adapter\<close> has the methods of the interface that the program calls, over a store of any type.
  \<open>WriteBlob\<close> and \<open>ReadBlob\<close> of versionmgr/work_repo.go address a content by its checksum. The
  locale \<open>block_store\<close> is what they rely on; the in-memory adapter (block/mem), modelled whole, is
  an interpretation. The store in a directory follows in \<open>Local_Store\<close>.
\<close>

subsection \<open>The interface\<close>

definition ErrDataNotFound :: error where "ErrDataNotFound = ErrMsg ''not found''"
definition ErrOperationNotSupported :: error where "ErrOperationNotSupported = ErrMsg ''operation not supported''"
definition ErrInvalidAddress :: error where "ErrInvalidAddress = ErrMsg ''invalid address''"

datatype identifier_type = IdentifierTypeRelative | IdentifierTypeFull

record object_pointer =
  StorageNamespace :: string
  Identifier :: string
  IdentifierType :: identifier_type

record 's adapter =
  blk_Put :: "object_pointer \<Rightarrow> int \<Rightarrow> bytes \<Rightarrow> 's \<Rightarrow> unit result \<times> 's"
  blk_Get :: "object_pointer \<Rightarrow> int \<Rightarrow> 's \<Rightarrow> bytes result"
  blk_GetRange :: "object_pointer \<Rightarrow> int \<Rightarrow> int \<Rightarrow> 's \<Rightarrow> bytes result"
  blk_RemoveNameSpace :: "string \<Rightarrow> 's \<Rightarrow> unit result \<times> 's"

text \<open>
  A reader is the bytes it delivers. \<open>io.NewSectionReader\<close>: \<open>n\<close> bytes from \<open>start\<close>, and an error
  of the first read before the beginning.
\<close>

definition section_bytes :: "bytes \<Rightarrow> int \<Rightarrow> int \<Rightarrow> bytes result" where
  "section_bytes data start n =
     (if n \<le> 0 then Inr []
      else if start < 0 then Inl (ErrMsg ''bytes.Reader.ReadAt: negative offset'')
      else Inr (take (nat n) (drop (nat start) data)))"

subsection \<open>The in-memory adapter\<close>

definition ErrNoDataForKey :: error where "ErrNoDataForKey = ErrDataNotFound"
definition ErrMultiPartNotFound :: error where "ErrMultiPartNotFound = ErrMsg ''multipart ID not found''"
definition ErrNoPropertiesForKey :: error where "ErrNoPropertiesForKey = ErrMsg ''no properties for key''"

type_synonym parts = "(int \<times> bytes) list"

type_synonym properties = "string option"

record mem_store =
  ms_data :: "string \<Rightarrow> bytes option"
  ms_mpu :: "string \<Rightarrow> parts option"
  ms_properties :: "string \<Rightarrow> properties option"

definition mem_New :: mem_store where
  "mem_New = \<lparr>ms_data = (\<lambda>_. None), ms_mpu = (\<lambda>_. None), ms_properties = (\<lambda>_. None)\<rparr>"

text \<open>\<open>get\<close> makes a slice of as many zeros as there are parts and takes them for the part numbers.\<close>

definition mpu_get :: "parts \<Rightarrow> bytes" where
  "mpu_get m = concat (map (\<lambda>part. case map_of m part of None \<Rightarrow> [] | Some b \<Rightarrow> b) (sort (replicate (length m) 0)))"

definition getKey :: "object_pointer \<Rightarrow> string" where
  "getKey obj =
     (if IdentifierType obj = IdentifierTypeFull then Identifier obj
      else StorageNamespace obj @ '':'' @ Identifier obj)"

definition verifyObjectPointer :: "object_pointer \<Rightarrow> unit result" where
  "verifyObjectPointer obj =
     (if StorageNamespace obj = [] then
        (if \<not> has_prefix (Identifier obj) ''mem://'' then Inl ErrInvalidAddress else Inr ())
      else if \<not> has_prefix (StorageNamespace obj) ''mem://'' then Inl ErrInvalidAddress else Inr ())"

definition mem_Put :: "object_pointer \<Rightarrow> int \<Rightarrow> bytes \<Rightarrow> mem_store \<Rightarrow> unit result \<times> mem_store" where
  "mem_Put obj sizeBytes data a =
     (case verifyObjectPointer obj of
        Inl e \<Rightarrow> (Inl e, a)
      | Inr _ \<Rightarrow> (Inr (), a\<lparr>ms_data := (ms_data a)(getKey obj \<mapsto> data)\<rparr>))"

definition mem_Get :: "object_pointer \<Rightarrow> int \<Rightarrow> mem_store \<Rightarrow> bytes result" where
  "mem_Get obj expectedSize a =
     (case verifyObjectPointer obj of
        Inl e \<Rightarrow> Inl e
      | Inr _ \<Rightarrow> (case ms_data a (getKey obj) of None \<Rightarrow> Inl ErrNoDataForKey | Some data \<Rightarrow> Inr data))"

definition mem_Exists :: "object_pointer \<Rightarrow> mem_store \<Rightarrow> bool result" where
  "mem_Exists obj a =
     (case verifyObjectPointer obj of
        Inl e \<Rightarrow> Inl e
      | Inr _ \<Rightarrow> Inr (ms_data a (getKey obj) \<noteq> None))"

definition mem_GetRange :: "object_pointer \<Rightarrow> int \<Rightarrow> int \<Rightarrow> mem_store \<Rightarrow> bytes result" where
  "mem_GetRange obj startPosition endPosition a =
     (case verifyObjectPointer obj of
        Inl e \<Rightarrow> Inl e
      | Inr _ \<Rightarrow>
          (case ms_data a (getKey obj) of
             None \<Rightarrow> Inl ErrNoDataForKey
           | Some data \<Rightarrow> section_bytes data startPosition (endPosition - startPosition + 1)))"

definition mem_GetProperties :: "object_pointer \<Rightarrow> mem_store \<Rightarrow> properties result" where
  "mem_GetProperties obj a =
     (case verifyObjectPointer obj of
        Inl e \<Rightarrow> Inl e
      | Inr _ \<Rightarrow>
          (case ms_properties a (getKey obj) of None \<Rightarrow> Inl ErrNoPropertiesForKey | Some props \<Rightarrow> Inr props))"

definition mem_Remove :: "object_pointer \<Rightarrow> mem_store \<Rightarrow> unit result \<times> mem_store" where
  "mem_Remove obj a =
     (case verifyObjectPointer obj of
        Inl e \<Rightarrow> (Inl e, a)
      | Inr _ \<Rightarrow> (Inr (), a\<lparr>ms_data := (ms_data a)(getKey obj := None)\<rparr>))"

definition mem_RemoveNameSpace :: "string \<Rightarrow> mem_store \<Rightarrow> unit result \<times> mem_store" where
  "mem_RemoveNameSpace storageNamespace a =
     (if storageNamespace = [] then (Inl (ErrMsg ''storageNamespace cannot be empty''), a)
      else (Inr (), a\<lparr>ms_data :=
        (\<lambda>key. if has_prefix key (storageNamespace @ '':'') then None else ms_data a key)\<rparr>))"

text \<open>A key that is missing in a Go map reads as the zero value.\<close>

definition mem_Copy :: "object_pointer \<Rightarrow> object_pointer \<Rightarrow> mem_store \<Rightarrow> unit result \<times> mem_store" where
  "mem_Copy sourceObj destinationObj a =
     (case verifyObjectPointer sourceObj of
        Inl e \<Rightarrow> (Inl e, a)
      | Inr _ \<Rightarrow>
          (case verifyObjectPointer destinationObj of
             Inl e \<Rightarrow> (Inl e, a)
           | Inr _ \<Rightarrow>
               (let destinationKey = getKey destinationObj; sourceKey = getKey sourceObj
                in (Inr (), a\<lparr>
                  ms_data := (ms_data a)(destinationKey \<mapsto> case ms_data a sourceKey of None \<Rightarrow> [] | Some b \<Rightarrow> b),
                  ms_properties := (ms_properties a)(destinationKey \<mapsto>
                    case ms_properties a sourceKey of None \<Rightarrow> None | Some p \<Rightarrow> p)\<rparr>))))"

subsubsection \<open>Uploads in parts\<close>

text \<open>
  The fresh upload id and the text \<open>etag\<close> of a SHA-256 digest are arguments. \<open>UploadCopyPart\<close>
  takes the read lock through \<open>Get\<close> while it holds the write lock, so that from there it waits
  for ever: \<open>None\<close>.
\<close>

definition mem_CreateMultiPartUpload :: "string \<Rightarrow> object_pointer \<Rightarrow> mem_store \<Rightarrow> string result \<times> mem_store" where
  "mem_CreateMultiPartUpload fresh obj a =
     (case verifyObjectPointer obj of
        Inl e \<Rightarrow> (Inl e, a)
      | Inr _ \<Rightarrow> (Inr fresh, a\<lparr>ms_mpu := (ms_mpu a)(fresh \<mapsto> [])\<rparr>))"

definition put_part :: "(bytes \<Rightarrow> string) \<Rightarrow> string \<Rightarrow> parts \<Rightarrow> int \<Rightarrow> bytes \<Rightarrow> mem_store \<Rightarrow> string result \<times> mem_store" where
  "put_part etag uploadID m partNumber data a =
     (Inr (etag data), a\<lparr>ms_mpu := (ms_mpu a)(uploadID \<mapsto> AList.update partNumber data m)\<rparr>)"

definition mem_UploadPart ::
  "(bytes \<Rightarrow> string) \<Rightarrow> object_pointer \<Rightarrow> bytes \<Rightarrow> string \<Rightarrow> int \<Rightarrow> mem_store \<Rightarrow> string result \<times> mem_store" where
  "mem_UploadPart etag obj data uploadID partNumber a =
     (case verifyObjectPointer obj of
        Inl e \<Rightarrow> (Inl e, a)
      | Inr _ \<Rightarrow>
          (case ms_mpu a uploadID of
             None \<Rightarrow> (Inl ErrMultiPartNotFound, a)
           | Some m \<Rightarrow> put_part etag uploadID m partNumber data a))"

definition mem_UploadCopyPart ::
  "object_pointer \<Rightarrow> string \<Rightarrow> int \<Rightarrow> mem_store \<Rightarrow> (string result \<times> mem_store) option" where
  "mem_UploadCopyPart sourceObj uploadID partNumber a =
     (case verifyObjectPointer sourceObj of
        Inl e \<Rightarrow> Some (Inl e, a)
      | Inr _ \<Rightarrow>
          (case ms_mpu a uploadID of
             None \<Rightarrow> Some (Inl ErrMultiPartNotFound, a)
           | Some m \<Rightarrow> None))"

definition mem_UploadCopyPartRange ::
  "(bytes \<Rightarrow> string) \<Rightarrow> object_pointer \<Rightarrow> string \<Rightarrow> int \<Rightarrow> int \<Rightarrow> int \<Rightarrow> mem_store \<Rightarrow>
    string result \<times> mem_store" where
  "mem_UploadCopyPartRange etag sourceObj uploadID partNumber startPosition endPosition a =
     (case verifyObjectPointer sourceObj of
        Inl e \<Rightarrow> (Inl e, a)
      | Inr _ \<Rightarrow>
          (case ms_mpu a uploadID of
             None \<Rightarrow> (Inl ErrMultiPartNotFound, a)
           | Some m \<Rightarrow>
               (case ms_data a (getKey sourceObj) of
                  None \<Rightarrow> (Inl ErrNoDataForKey, a)
                | Some data \<Rightarrow>
                    (case section_bytes data startPosition (endPosition - startPosition + 1) of
                       Inl e \<Rightarrow> (Inl e, a)
                     | Inr part \<Rightarrow> put_part etag uploadID m partNumber part a))))"

definition mem_AbortMultiPartUpload :: "object_pointer \<Rightarrow> string \<Rightarrow> mem_store \<Rightarrow> unit result \<times> mem_store" where
  "mem_AbortMultiPartUpload obj uploadID a =
     (case verifyObjectPointer obj of
        Inl e \<Rightarrow> (Inl e, a)
      | Inr _ \<Rightarrow>
          (case ms_mpu a uploadID of
             None \<Rightarrow> (Inl ErrMultiPartNotFound, a)
           | Some m \<Rightarrow> (Inr (), a\<lparr>ms_mpu := (ms_mpu a)(uploadID := None)\<rparr>)))"

definition mem_CompleteMultiPartUpload ::
  "(bytes \<Rightarrow> string) \<Rightarrow> object_pointer \<Rightarrow> string \<Rightarrow> mem_store \<Rightarrow> (string \<times> nat) result \<times> mem_store" where
  "mem_CompleteMultiPartUpload etag obj uploadID a =
     (case verifyObjectPointer obj of
        Inl e \<Rightarrow> (Inl e, a)
      | Inr _ \<Rightarrow>
          (case ms_mpu a uploadID of
             None \<Rightarrow> (Inl ErrMultiPartNotFound, a)
           | Some m \<Rightarrow>
               (let data = mpu_get m
                in (Inr (etag data, length data), a\<lparr>ms_data := (ms_data a)(getKey obj \<mapsto> data)\<rparr>))))"

definition mem_adapter :: "mem_store adapter" where
  "mem_adapter =
     \<lparr>blk_Put = mem_Put, blk_Get = mem_Get, blk_GetRange = mem_GetRange, blk_RemoveNameSpace = mem_RemoveNameSpace\<rparr>"

subsection \<open>WriteBlob and ReadBlob\<close>

definition string_value :: "string option \<Rightarrow> string" where
  "string_value s = (case s of None \<Rightarrow> [] | Some x \<Rightarrow> x)"

definition blob_pointer :: "string option \<Rightarrow> string \<Rightarrow> object_pointer" where
  "blob_pointer ns address =
     \<lparr>StorageNamespace = string_value ns, Identifier = address, IdentifierType = IdentifierTypeRelative\<rparr>"

definition range_error_text :: "range_error \<Rightarrow> string" where
  "range_error_text e = (case e of ErrBadRange \<Rightarrow> ''invalid range'' | ErrUnsatisfiableRange \<Rightarrow> ''unsatisfiable range'')"

text \<open>
  \<open>ns\<close> and \<open>repo\<close> are the repository's namespace and id, \<open>body\<close> what the request delivers. The
  temporary file holds the body between the two passes over it; its errors are not modelled.
\<close>

definition WriteBlob ::
  "env \<Rightarrow> (bytes \<Rightarrow> string) \<Rightarrow> 's adapter \<Rightarrow> string option \<Rightarrow> uuid \<Rightarrow> bytes \<Rightarrow> int \<Rightarrow> property \<Rightarrow> 's \<Rightarrow>
    blob result \<times> 's" where
  "WriteBlob E encode A ns repo body contentLength properties s =
     (let hashReader = hashing_Read body (NewHashingReader [Md5]);
          checkSum = env_md5 E (case h_md5 hashReader of None \<Rightarrow> [] | Some w \<Rightarrow> w)
      in case PathOfHash encode checkSum of
           Inl e \<Rightarrow> (Inl e, s)
         | Inr address \<Rightarrow>
             (case blk_Put A (blob_pointer ns address) contentLength body s of
                (Inl e, s') \<Rightarrow> (Inl e, s')
              | (Inr _, s') \<Rightarrow> (Inr (NewBlob E properties repo checkSum (int (hr_copied hashReader))), s')))"

definition ReadBlob ::
  "(bytes \<Rightarrow> string) \<Rightarrow> 's adapter \<Rightarrow> string option \<Rightarrow> blob \<Rightarrow> string option \<Rightarrow> 's \<Rightarrow> bytes result" where
  "ReadBlob encode A ns blob rangeSpec s =
     (case PathOfHash encode (bl_check_sum blob) of
        Inl e \<Rightarrow> Inl e
      | Inr address \<Rightarrow>
          (case rangeSpec of
             None \<Rightarrow> blk_Get A (blob_pointer ns address) (bl_size blob) s
           | Some spec \<Rightarrow>
               (case ParseRange spec (word_of_int (bl_size blob)) of
                  Inl e \<Rightarrow> Inl (ErrMsg (range_error_text e))
                | Inr rng \<Rightarrow>
                    blk_GetRange A (blob_pointer ns address) (sint (StartOffset rng)) (sint (EndOffset rng)) s)))"

subsection \<open>Addresses\<close>

text \<open>What the coder of the package go-hex does.\<close>

definition hex_coder :: "(bytes \<Rightarrow> string) \<Rightarrow> bool" where
  "hex_coder encode \<longleftrightarrow> inj encode \<and>
     (\<forall>h. length (encode h) = 2 * length h \<and> set (encode h) \<subseteq> set ''0123456789abcdef'')"

lemma PathOfHash_hex:
  assumes "hex_coder encode" "2 \<le> length h"
  shows "PathOfHash encode h = Inr (take 2 (encode h) @ ''/'' @ drop 2 (encode h))"
proof -
  let ?a = "take 2 (encode h)" and ?b = "drop 2 (encode h)"
  have len: "length (encode h) \<ge> 4" and set: "set (encode h) \<subseteq> set ''0123456789abcdef''"
    using assms by (auto simp: hex_coder_def)
  have hexd: "CHR ''/'' \<notin> set (encode h)" "CHR ''.'' \<notin> set (encode h)" using set by auto
  have ab: "?a \<noteq> []" "?b \<noteq> []" "CHR ''/'' \<notin> set ?a" "CHR ''/'' \<notin> set ?b" "CHR ''.'' \<notin> set ?a" "CHR ''.'' \<notin> set ?b"
    using len hexd by (auto dest: in_set_takeD in_set_dropD)
  have split: "split_on (CHR ''/'') (join_with ''/'' [?a, ?b]) = [?a, ?b]"
    using ab by (intro split_join_on) auto
  have "path_Join [?a, ?b] = path_Clean (join_with ''/'' [?a, ?b])" using ab by (simp add: path_Join_def)
  moreover have "hd (join_with ''/'' [?a, ?b]) \<noteq> CHR ''/''" using ab by (cases ?a) auto
  moreover have dots: "?a \<noteq> ''.''" "?b \<noteq> ''.''" "?a \<noteq> ''..''" "?b \<noteq> ''..''" using ab(5,6) by auto
  moreover have "clean_segs False [] [?a, ?b] = [?a, ?b]" using ab(1,2) dots by simp
  ultimately have "path_Join [?a, ?b] = ?a @ ''/'' @ ?b"
    using split ab by (simp add: path_Clean_def Let_def)
  moreover have "h \<noteq> []" using assms(2) by auto
  ultimately show ?thesis using len by (simp add: PathOfHash_def hash_Hex_def Let_def)
qed

lemma PathOfHash_inj:
  assumes "hex_coder encode" "2 \<le> length h" "2 \<le> length g" "PathOfHash encode h = PathOfHash encode g"
  shows "h = g"
proof -
  have len: "length (take 2 (encode x)) = 2" if "2 \<le> length x" for x
  proof -
    have "length (encode x) = 2 * length x" using assms(1) by (simp add: hex_coder_def)
    with that show ?thesis by simp
  qed
  have "take 2 (encode h) = take 2 (encode g) \<and> ''/'' @ drop 2 (encode h) = ''/'' @ drop 2 (encode g)"
    using assms(4) PathOfHash_hex [OF assms(1,2)] PathOfHash_hex [OF assms(1,3)] len [OF assms(2)] len [OF assms(3)]
    by (simp add: append_eq_append_conv)
  then have "encode h = encode g" using append_take_drop_id [of 2] by (metis append_same_eq same_append_eq)
  then show ?thesis using assms(1) by (simp add: hex_coder_def inj_def)
qed

text \<open>What the digest does: sixteen bytes.\<close>

definition digest16 :: "env \<Rightarrow> bool" where
  "digest16 E \<longleftrightarrow> (\<forall>b. length (env_md5 E b) = 16)"

subsection \<open>What a block store promises\<close>

text \<open>
  Addresses of blobs: the hexadecimal text of a checksum with a slash after two digits. \<open>ns\<close> is a
  namespace the store accepts and \<open>good\<close> what the store keeps true of its state. A put returns, the
  content is read back, other addresses of the namespace keep theirs, and a range of a stored
  content is its section.
\<close>

definition blob_address :: "string \<Rightarrow> bool" where
  "blob_address a \<longleftrightarrow>
     take 1 (drop 2 a) = ''/'' \<and> 3 < length a \<and> set (take 2 a @ drop 3 a) \<subseteq> set ''0123456789abcdef''"

lemma blob_address_hex:
  assumes "hex_coder encode" "2 \<le> length h"
  shows "blob_address (take 2 (encode h) @ ''/'' @ drop 2 (encode h))"
proof -
  have "length (encode h) \<ge> 4" "set (encode h) \<subseteq> set ''0123456789abcdef''"
    using assms by (auto simp: hex_coder_def)
  then show ?thesis
    by (auto simp: blob_address_def simp del: set_simps list.set dest!: in_set_takeD in_set_dropD)
qed

locale block_store =
  fixes A :: "'s adapter" and ns :: "string option" and good :: "'s \<Rightarrow> bool"
  assumes put_ok: "good s \<Longrightarrow> blob_address a \<Longrightarrow> \<exists>s'. blk_Put A (blob_pointer ns a) n b s = (Inr (), s') \<and> good s'"
    and get_put: "good s \<Longrightarrow> blob_address a \<Longrightarrow> blk_Put A (blob_pointer ns a) n b s = (r, s') \<Longrightarrow>
      blk_Get A (blob_pointer ns a) m s' = Inr b"
    and get_put_other: "good s \<Longrightarrow> blob_address a \<Longrightarrow> blob_address a' \<Longrightarrow> a \<noteq> a' \<Longrightarrow>
      blk_Put A (blob_pointer ns a) n b s = (r, s') \<Longrightarrow>
      blk_Get A (blob_pointer ns a') m s' = blk_Get A (blob_pointer ns a') m s"
    and get_range: "blk_Get A (blob_pointer ns a) m s = Inr b \<Longrightarrow> 0 \<le> i \<Longrightarrow> i \<le> j \<Longrightarrow>
      blk_GetRange A (blob_pointer ns a) i j s = section_bytes b i (j - i + 1)"
begin

lemma WriteBlob_ok:
  assumes "hex_coder encode" "digest16 E" "good s"
  obtains s' where "WriteBlob E encode A ns repo body n props s =
      (Inr (NewBlob E props repo (env_md5 E body) (int (length body))), s')" "good s'"
    and "\<And>b. bl_check_sum b = env_md5 E body \<Longrightarrow> ReadBlob encode A ns b None s' = Inr body"
    and "\<And>b. env_md5 E body \<noteq> bl_check_sum b \<Longrightarrow> 2 \<le> length (bl_check_sum b) \<Longrightarrow>
      ReadBlob encode A ns b None s' = ReadBlob encode A ns b None s"
proof -
  have len: "2 \<le> length (env_md5 E body)" using assms(2) by (simp add: digest16_def)
  note path = PathOfHash_hex [OF assms(1) len]
  let ?a = "\<lambda>h. take 2 (encode h) @ ''/'' @ drop 2 (encode h)"
  note addr = blob_address_hex [OF assms(1)]
  obtain s' where put: "blk_Put A (blob_pointer ns (?a (env_md5 E body))) n body s = (Inr (), s')" "good s'"
    using put_ok [OF assms(3) addr [OF len]] by blast
  have hr: "h_md5 (hashing_Read body (NewHashingReader [Md5])) = Some body"
    "hr_copied (hashing_Read body (NewHashingReader [Md5])) = length body"
    by (simp_all add: hashing_Read_def NewHashingReader_def)
  show ?thesis
  proof (rule that [of s'])
    show "WriteBlob E encode A ns repo body n props s =
      (Inr (NewBlob E props repo (env_md5 E body) (int (length body))), s')"
      using put path hr by (simp add: WriteBlob_def Let_def)
    show "ReadBlob encode A ns b None s' = Inr body" if "bl_check_sum b = env_md5 E body" for b
      using get_put [OF assms(3) addr [OF len] put(1)] path that by (simp add: ReadBlob_def)
    fix b :: blob
    assume b: "env_md5 E body \<noteq> bl_check_sum b" "2 \<le> length (bl_check_sum b)"
    have "?a (env_md5 E body) \<noteq> ?a (bl_check_sum b)"
      using PathOfHash_inj [OF assms(1) len b(2)] b(1) path PathOfHash_hex [OF assms(1) b(2)] by auto
    from get_put_other [OF assms(3) addr [OF len] addr [OF b(2)] this put(1)] PathOfHash_hex [OF assms(1) b(2)]
    show "ReadBlob encode A ns b None s' = ReadBlob encode A ns b None s"
      by (simp add: ReadBlob_def)
  qed (rule put(2))
qed

lemma ReadBlob_range:
  assumes "ReadBlob encode A ns b None s = Inr body" "ParseRange spec (word_of_int (bl_size b)) = Inr r"
    "0 \<le> sint (StartOffset r)" "sint (StartOffset r) \<le> sint (EndOffset r)"
  shows "ReadBlob encode A ns b (Some spec) s =
    section_bytes body (sint (StartOffset r)) (sint (EndOffset r) - sint (StartOffset r) + 1)"
  using assms get_range by (auto simp: ReadBlob_def split: sum.splits)

end

text \<open>A store that also takes ranges whose end is before their start; they are empty.\<close>

locale lenient_block_store = block_store +
  assumes get_any_range: "blk_Get A (blob_pointer ns a) m s = Inr b \<Longrightarrow>
    blk_GetRange A (blob_pointer ns a) i j s = section_bytes b i (j - i + 1)"
begin

lemma ReadBlob_any_range:
  assumes "ReadBlob encode A ns b None s = Inr body" "ParseRange spec (word_of_int (bl_size b)) = Inr r"
  shows "ReadBlob encode A ns b (Some spec) s =
    section_bytes body (sint (StartOffset r)) (sint (EndOffset r) - sint (StartOffset r) + 1)"
  using assms get_any_range by (auto simp: ReadBlob_def split: sum.splits)

end

text \<open>The in-memory store keeps the promise in a namespace of its scheme.\<close>

lemma mem_ptr_ok: "has_prefix ns ''mem://'' \<Longrightarrow> verifyObjectPointer (blob_pointer (Some ns) a) = Inr ()"
  by (auto simp: verifyObjectPointer_def blob_pointer_def string_value_def has_prefix_def)

lemma mem_key: "getKey (blob_pointer (Some ns) a) = ns @ '':'' @ a"
  by (simp add: getKey_def blob_pointer_def string_value_def)

interpretation mem: lenient_block_store mem_adapter "Some (''mem://'' @ x)" "\<lambda>_. True" for x
  by unfold_locales
    (auto simp: mem_adapter_def mem_Put_def mem_Get_def mem_GetRange_def mem_key mem_ptr_ok has_prefix_def
      split: option.splits)

subsection \<open>What was written is read back\<close>

fun write_blobs ::
  "env \<Rightarrow> (bytes \<Rightarrow> string) \<Rightarrow> 's adapter \<Rightarrow> string option \<Rightarrow> uuid \<Rightarrow> property \<Rightarrow> bytes list \<Rightarrow> 's \<Rightarrow>
    blob result list \<times> 's" where
  "write_blobs E encode A ns repo props [] s = ([], s)"
| "write_blobs E encode A ns repo props (b # bs) s =
     (case WriteBlob E encode A ns repo b (int (length b)) props s of
        (r, s1) \<Rightarrow> (case write_blobs E encode A ns repo props bs s1 of (rs, s2) \<Rightarrow> (r # rs, s2)))"

definition blob_of :: "env \<Rightarrow> property \<Rightarrow> uuid \<Rightarrow> bytes \<Rightarrow> blob" where
  "blob_of E props repo b = NewBlob E props repo (env_md5 E b) (int (length b))"

lemma blob_of_fields [simp]:
  "bl_check_sum (blob_of E props repo b) = env_md5 E b" "bl_size (blob_of E props repo b) = int (length b)"
  by (simp_all add: blob_of_def NewBlob_def)

context block_store
begin

lemma write_blobs_ok:
  assumes "hex_coder encode" "digest16 E" "good s" "inj_on (env_md5 E) (set bs \<union> B)"
    and "\<And>b. b \<in> B \<Longrightarrow> ReadBlob encode A ns (blob_of E props repo b) None s = Inr b"
  shows "\<exists>s'. write_blobs E encode A ns repo props bs s = (map (\<lambda>b. Inr (blob_of E props repo b)) bs, s') \<and>
    (\<forall>b \<in> set bs \<union> B. ReadBlob encode A ns (blob_of E props repo b) None s' = Inr b)"
  using assms
proof (induction bs arbitrary: s B)
  case (Cons b bs)
  obtain s1 where w: "WriteBlob E encode A ns repo b (int (length b)) props s = (Inr (blob_of E props repo b), s1)" "good s1"
    and r: "\<And>x. bl_check_sum x = env_md5 E b \<Longrightarrow> ReadBlob encode A ns x None s1 = Inr b"
    and o: "\<And>x. env_md5 E b \<noteq> bl_check_sum x \<Longrightarrow> 2 \<le> length (bl_check_sum x) \<Longrightarrow>
      ReadBlob encode A ns x None s1 = ReadBlob encode A ns x None s"
    using WriteBlob_ok [OF Cons.prems(1-3)] unfolding blob_of_def by metis
  have "ReadBlob encode A ns (blob_of E props repo x) None s1 = Inr x" if "x \<in> insert b B" for x
  proof (cases "x = b")
    case False
    then have "env_md5 E b \<noteq> env_md5 E x" using Cons.prems(4) that by (auto dest: inj_onD)
    then have "ReadBlob encode A ns (blob_of E props repo x) None s1 = ReadBlob encode A ns (blob_of E props repo x) None s"
      using Cons.prems(2) by (intro o) (simp_all add: digest16_def)
    then show ?thesis using Cons.prems(5) that False by simp
  qed (simp add: r)
  then have "\<exists>s'. write_blobs E encode A ns repo props bs s1 = (map (\<lambda>b. Inr (blob_of E props repo b)) bs, s') \<and>
    (\<forall>x \<in> set bs \<union> insert b B. ReadBlob encode A ns (blob_of E props repo x) None s' = Inr x)"
    using Cons.prems(1,2,4) w(2) by (intro Cons.IH) auto
  then show ?case using w by auto
qed auto

lemma ReadBlob_slice:
  assumes r: "ReadBlob encode A ns (blob_of E props repo b) None s = Inr b"
    and p: "ParseRange spec (word_of_int (int (length b))) = Inr r" and len: "int (length b) < 2 ^ 63"
    and le: "sint (StartOffset r) \<le> sint (EndOffset r)"
  shows "ReadBlob encode A ns (blob_of E props repo b) (Some spec) s =
    Inr (take (nat (sint (range_Size r))) (drop (nat (sint (StartOffset r))) b))"
proof -
  have "0 \<le> sint (word_of_int (int (length b)) :: int64)"
    using sint_small [of "int (length b)"] len by simp
  note offs = ParseRange_offsets [OF this p] sint_range_Size [OF this p]
  have "ReadBlob encode A ns (blob_of E props repo b) (Some spec) s =
    section_bytes b (sint (StartOffset r)) (sint (EndOffset r) - sint (StartOffset r) + 1)"
    using p offs le by (intro ReadBlob_range [OF r]) simp_all
  then show ?thesis using offs by (auto simp: section_bytes_def)
qed

end

context lenient_block_store
begin

lemma ReadBlob_any_slice:
  assumes r: "ReadBlob encode A ns (blob_of E props repo b) None s = Inr b"
    and p: "ParseRange spec (word_of_int (int (length b))) = Inr r" and len: "int (length b) < 2 ^ 63"
  shows "ReadBlob encode A ns (blob_of E props repo b) (Some spec) s =
    Inr (take (nat (sint (range_Size r))) (drop (nat (sint (StartOffset r))) b))"
proof -
  have "0 \<le> sint (word_of_int (int (length b)) :: int64)"
    using sint_small [of "int (length b)"] len by simp
  note offs = ParseRange_offsets [OF this p] sint_range_Size [OF this p]
  have "ReadBlob encode A ns (blob_of E props repo b) (Some spec) s =
    section_bytes b (sint (StartOffset r)) (sint (EndOffset r) - sint (StartOffset r) + 1)"
    using p by (intro ReadBlob_any_range [OF r]) simp
  then show ?thesis using offs by (auto simp: section_bytes_def)
qed

end

text \<open>
  Contents that are written one after the other to the in-memory store are all read back: each
  write succeeds, each blob has the length of its content, reading it without a range gives the
  whole content, and reading an accepted range gives exactly the bytes of that range. The contents
  must have different checksums.
\<close>

theorem blobs_read_back:
  assumes "hex_coder encode" "digest16 E" "inj_on (env_md5 E) (set bs)" "\<forall>b \<in> set bs. int (length b) < 2 ^ 63"
  shows "\<exists>s'. write_blobs E encode mem_adapter (Some (''mem://'' @ x)) repo props bs s =
      (map (\<lambda>b. Inr (blob_of E props repo b)) bs, s') \<and>
    (\<forall>b \<in> set bs. bl_size (blob_of E props repo b) = int (length b) \<and>
      ReadBlob encode mem_adapter (Some (''mem://'' @ x)) (blob_of E props repo b) None s' = Inr b \<and>
      (\<forall>spec r. ParseRange spec (word_of_int (bl_size (blob_of E props repo b))) = Inr r \<longrightarrow>
        ReadBlob encode mem_adapter (Some (''mem://'' @ x)) (blob_of E props repo b) (Some spec) s' =
          Inr (take (nat (sint (range_Size r))) (drop (nat (sint (StartOffset r))) b))))"
proof -
  obtain s' where "write_blobs E encode mem_adapter (Some (''mem://'' @ x)) repo props bs s =
      (map (\<lambda>b. Inr (blob_of E props repo b)) bs, s')"
    "\<forall>b \<in> set bs. ReadBlob encode mem_adapter (Some (''mem://'' @ x)) (blob_of E props repo b) None s' = Inr b"
    using mem.write_blobs_ok [OF assms(1,2) TrueI, of bs "{}" x props repo s] assms(3) by auto
  then show ?thesis using assms(4) mem.ReadBlob_any_slice by (intro exI [of _ s']) auto
qed

text \<open>A coder and a digest for concrete runs.\<close>

definition hex_digit :: "nat \<Rightarrow> char" where
  "hex_digit n = ''0123456789abcdef'' ! n"

definition hex_encode :: "bytes \<Rightarrow> string" where
  "hex_encode h = concat (map (\<lambda>c. [hex_digit (of_char c div 16), hex_digit (of_char c mod 16)]) h)"

lemma hex_digit_inj: "n < 16 \<Longrightarrow> m < 16 \<Longrightarrow> hex_digit n = hex_digit m \<Longrightarrow> n = m"
proof -
  have "distinct ''0123456789abcdef''" by simp
  then show "n < 16 \<Longrightarrow> m < 16 \<Longrightarrow> hex_digit n = hex_digit m \<Longrightarrow> n = m"
    unfolding hex_digit_def by (subst (asm) nth_eq_iff_index_eq) simp_all
qed

lemma hex_digit_in: "n < 16 \<Longrightarrow> hex_digit n \<in> set ''0123456789abcdef''"
  unfolding hex_digit_def by (rule nth_mem) simp

lemma of_char_digits: "(of_char c :: nat) div 16 < 16" "(of_char c :: nat) mod 16 < 16"
proof -
  have "(of_char c :: nat) < 256" using of_char_mod_256 [of c, where 'a = nat] mod_less_divisor [of 256 "of_char c :: nat"]
    by simp
  then show "(of_char c :: nat) div 16 < 16" by (intro less_mult_imp_div_less) simp
qed simp

lemma hex_byte_inj:
  "hex_digit (of_char c div 16) = hex_digit (of_char d div 16) \<Longrightarrow>
   hex_digit (of_char c mod 16) = hex_digit (of_char d mod 16) \<Longrightarrow> c = d"
proof -
  assume "hex_digit (of_char c div 16) = hex_digit (of_char d div 16)"
    "hex_digit (of_char c mod 16) = hex_digit (of_char d mod 16)"
  then have "(of_char c :: nat) div 16 = of_char d div 16" "(of_char c :: nat) mod 16 = of_char d mod 16"
    by (auto dest!: hex_digit_inj [rotated 2] simp: of_char_digits)
  then have "(of_char c :: nat) = of_char d" by (metis div_mult_mod_eq)
  then show "c = d" by simp
qed

lemma hex_encode_inj: "hex_encode h = hex_encode g \<Longrightarrow> h = g"
proof (induction h arbitrary: g)
  case Nil
  then show ?case by (cases g) (simp_all add: hex_encode_def)
next
  case (Cons c h)
  then obtain d g' where g: "g = d # g'" by (cases g) (simp_all add: hex_encode_def)
  with Cons show ?case by (auto simp: hex_encode_def dest: hex_byte_inj)
qed

lemma hex_coder_encode: "hex_coder hex_encode"
proof -
  have "length (hex_encode h) = 2 * length h" "set (hex_encode h) \<subseteq> set ''0123456789abcdef''" for h
    by (induction h) (use hex_digit_in of_char_digits in \<open>auto simp: hex_encode_def\<close>)
  then show ?thesis unfolding hex_coder_def by (auto intro: injI hex_encode_inj)
qed

definition pad_env :: env where
  "pad_env = \<lparr>env_md5 = (\<lambda>b. take 16 (b @ replicate 16 (CHR 0x00))), env_now = 0\<rparr>"

lemma digest16_pad: "digest16 pad_env"
  by (auto simp: digest16_def pad_env_def min_def)

lemma blobs_read_back_witness:
  "\<exists>s' blobs. write_blobs pad_env hex_encode mem_adapter (Some ''mem://r'') ''r'' DefaultLeafProperty
      [''hello'', ''world''] mem_New = (blobs, s') \<and> length blobs = 2 \<and>
    ReadBlob hex_encode mem_adapter (Some ''mem://r'') (blob_of pad_env DefaultLeafProperty ''r'' ''hello'')
      (Some ''bytes=1-3'') s' = Inr ''ell''"
proof -
  have inj: "inj_on (env_md5 pad_env) (set [''hello'', ''world''])" by (simp add: pad_env_def eval_nat_numeral)
  have short: "\<forall>b \<in> set [''hello'', ''world'']. int (length b) < 2 ^ 63" by simp
  have rng: "ParseRange ''bytes=1-3'' (word_of_int (bl_size (blob_of pad_env DefaultLeafProperty ''r'' ''hello''))) =
      Inr \<lparr>StartOffset = 1, EndOffset = 3\<rparr>"
    by (simp add: ParseRange_def ParseInt64_def dec_value_def has_prefix_def trim_prefix_def)
  from blobs_read_back [OF hex_coder_encode digest16_pad inj short, of "''r''" "''r''" DefaultLeafProperty mem_New] rng
  show ?thesis by (auto simp: range_Size_def)
qed

subsection \<open>An upload in parts loses them\<close>

text \<open>The parts of an upload that are numbered from one are not in the object that completes it.\<close>

lemma mem_multipart_loses_parts:
  assumes "verifyObjectPointer obj = Inr ()" "ms_mpu a uploadID = Some m" "0 \<notin> fst ` set m"
  shows "\<exists>a'. mem_CompleteMultiPartUpload etag obj uploadID a = (Inr (etag [], 0), a') \<and>
    mem_Get obj n a' = Inr []"
proof -
  have "map_of m 0 = None" using assms(3) by (simp add: map_of_eq_None_iff)
  then have "mpu_get m = []" by (simp add: mpu_get_def sort_replicate)
  then show ?thesis using assms by (simp add: mem_CompleteMultiPartUpload_def mem_Get_def)
qed

end
