(* ===== verification/Validator.thy ===== *)
theory Validator
  imports Prelude
begin

section \<open>Names and paths from clients: controller/validator/validate.go\<close>

text \<open>
  The validators check names with regular expressions. \<open>rx\<close> holds the expressions of the file,
  \<open>rx_match\<close> is \<open>MatchString\<close> of an expression between \<open>^\<close> and \<open>$\<close>, by derivatives. An
  expression of the file is matched on bytes here and on runes in Go: the only classes that a byte
  outside ASCII can be in are the negated ones of \<open>ReValidPath\<close>, which contain all of them and
  are not counted. The properties say exactly which names are accepted.
\<close>

subsection \<open>Regular expressions\<close>

datatype rx = Empty | Eps | Cls "char \<Rightarrow> bool" | Alt rx rx | Seq rx rx | Star rx

definition Opt :: "rx \<Rightarrow> rx" where "Opt r = Alt r Eps"
definition Plus :: "rx \<Rightarrow> rx" where "Plus r = Seq r (Star r)"

fun Repeat :: "nat \<Rightarrow> nat \<Rightarrow> rx \<Rightarrow> rx" where
  "Repeat (Suc m) k r = Seq r (Repeat m k r)"
| "Repeat 0 (Suc k) r = Opt (Seq r (Repeat 0 k r))"
| "Repeat 0 0 r = Eps"

fun nullable :: "rx \<Rightarrow> bool" where
  "nullable Empty = False"
| "nullable Eps = True"
| "nullable (Cls P) = False"
| "nullable (Alt r q) = (nullable r \<or> nullable q)"
| "nullable (Seq r q) = (nullable r \<and> nullable q)"
| "nullable (Star r) = True"

fun deriv :: "char \<Rightarrow> rx \<Rightarrow> rx" where
  "deriv c Empty = Empty"
| "deriv c Eps = Empty"
| "deriv c (Cls P) = (if P c then Eps else Empty)"
| "deriv c (Alt r q) = Alt (deriv c r) (deriv c q)"
| "deriv c (Seq r q) = (if nullable r then Alt (Seq (deriv c r) q) (deriv c q) else Seq (deriv c r) q)"
| "deriv c (Star r) = Seq (deriv c r) (Star r)"

fun rx_match :: "rx \<Rightarrow> string \<Rightarrow> bool" where
  "rx_match r [] = nullable r"
| "rx_match r (c # cs) = rx_match (deriv c r) cs"

subsection \<open>The expressions of the file\<close>

definition is_digit :: "char \<Rightarrow> bool" where "is_digit c \<longleftrightarrow> CHR ''0'' \<le> c \<and> c \<le> CHR ''9''"

definition is_letter :: "char \<Rightarrow> bool" where
  "is_letter c \<longleftrightarrow> list_ex (\<lambda>(lo, hi). lo \<le> c \<and> c \<le> hi) [(CHR ''A'', CHR ''Z''), (CHR ''a'', CHR ''z'')]"

definition is_alnum :: "char \<Rightarrow> bool" where "is_alnum c \<longleftrightarrow> is_letter c \<or> is_digit c"

text \<open>\<open>\w\<close> and \<open>\s\<close>.\<close>

definition is_word :: "char \<Rightarrow> bool" where "is_word c \<longleftrightarrow> is_alnum c \<or> c = CHR ''_''"

definition is_blank :: "char \<Rightarrow> bool" where
  "is_blank c \<longleftrightarrow> c \<in> set [CHR 0x09, CHR 0x0A, CHR 0x0C, CHR 0x0D, CHR '' '']"

definition path_forbidden :: "char \<Rightarrow> bool" where
  "path_forbidden c \<longleftrightarrow> c \<in> set [CHR 0x00, CHR '':'', CHR ''*'', CHR ''?'', CHR 0x22, CHR ''<'', CHR ''>'', CHR ''|'']"

definition MaxBranchNameLength :: nat where "MaxBranchNameLength = 40"

definition ReValidRef :: rx where
  "ReValidRef = Seq (Plus (Cls is_word)) (Seq (Opt (Cls (\<lambda>c. c = CHR ''/''))) (Plus (Cls is_word)))"

definition name_rx :: "(char \<Rightarrow> bool) \<Rightarrow> nat \<Rightarrow> rx" where
  "name_rx P n = Seq (Cls is_alnum) (Seq (Repeat 1 (n - 1) (Cls P)) (Cls is_alnum))"

definition ReValidRepo :: rx where "ReValidRepo = name_rx (\<lambda>c. is_word c \<or> c = CHR ''-'') 61"
definition ReValidTag :: rx where "ReValidTag = name_rx (\<lambda>c. is_word c \<or> c = CHR ''.'' \<or> c = CHR ''-'') 61"
definition ReValidUser :: rx where "ReValidUser = name_rx (\<lambda>c. is_word c \<or> c = CHR ''-'') 28"

definition first_char :: "char \<Rightarrow> bool" where
  "first_char c \<longleftrightarrow> \<not> path_forbidden c \<and> c \<noteq> CHR ''/''"

definition seg_char :: "char \<Rightarrow> bool" where
  "seg_char c \<longleftrightarrow> first_char c \<and> \<not> is_blank c"

definition ReValidPath :: rx where
  "ReValidPath =
     Seq (Star (Cls first_char)) (Seq (Opt (Cls (\<lambda>c. c = CHR ''/'')))
       (Seq (Star (Seq (Plus (Cls seg_char)) (Cls (\<lambda>c. c = CHR ''/''))))
         (Seq (Plus (Cls seg_char)) (Opt (Seq (Cls (\<lambda>c. c = CHR ''.'')) (Plus (Cls is_alnum)))))))"

definition RepoNameBlackList :: "string list" where
  "RepoNameBlackList =
     [''repository'', ''repositories'', ''wip'', ''wips'', ''object'', ''objects'', ''tags'', ''tag'',
      ''commit'', ''commits'', ''ref'', ''refs'', ''repo'', ''repos'', ''user'', ''users'']"

subsection \<open>The validators\<close>

datatype name_error = ErrNameBlackList | ErrNameTooLong | ErrBranchFormat | ErrInvalidBranchName
  | ErrInvalidRepoName | ErrInvalidTagName | ErrInvalidUsername | ErrInvalidObjectPath

definition name_error_text :: "name_error \<Rightarrow> string" where
  "name_error_text e =
     (case e of
        ErrNameBlackList \<Rightarrow>
          ''repository name is black list''
      | ErrNameTooLong \<Rightarrow>
          ''name too long''
      | ErrBranchFormat \<Rightarrow>
          ''branch format must be <name> or <name>/<name>''
      | ErrInvalidBranchName \<Rightarrow>
          ''invalid branch name: must start with a number or letter and can only contain num'' @
          ''bers, letters, hyphens or underscores''
      | ErrInvalidRepoName \<Rightarrow>
          ''repository name must start with a number or letter, can only contain numbers, le'' @
          ''tters, or hyphens, and must be between 3 and 63 characters in length''
      | ErrInvalidTagName \<Rightarrow>
          ''tag name must start with a number or letter, can only contain numbers, letters, '' @
          ''dot, or hyphens, and must be between 3 and 63 characters in length''
      | ErrInvalidUsername \<Rightarrow>
          ''invalid username: it must start and end with a letter or digit, can contain lett'' @
          ''ers, digits, hyphens, and cannot start or end with a hyphen; the length must be '' @
          ''between 3 and 30 characters''
      | ErrInvalidObjectPath \<Rightarrow>
          ''invalid object path: it must not contain null characters or NTFS forbidden chara'' @
          ''cters'')"

definition ValidateBranchName :: "string \<Rightarrow> name_error option" where
  "ValidateBranchName nm =
     (if nm \<in> set RepoNameBlackList then Some ErrNameBlackList
      else if length nm > MaxBranchNameLength then Some ErrNameTooLong
      else
        (let seg = split_on (CHR ''/'') nm
         in if length seg > 2 then Some ErrBranchFormat
            else if \<not> rx_match ReValidRef (seg ! 0) then Some ErrInvalidBranchName
            else if length seg > 1 \<and> \<not> rx_match ReValidRef (seg ! 1) then Some ErrInvalidBranchName
            else None))"

definition ValidateRepoName :: "string \<Rightarrow> name_error option" where
  "ValidateRepoName nm =
     (if nm \<in> set RepoNameBlackList then Some ErrNameBlackList
      else if \<not> rx_match ReValidRepo nm then Some ErrInvalidRepoName
      else None)"

definition ValidateTagName :: "string \<Rightarrow> name_error option" where
  "ValidateTagName nm = (if \<not> rx_match ReValidTag nm then Some ErrInvalidTagName else None)"

definition ValidateUsername :: "string \<Rightarrow> name_error option" where
  "ValidateUsername nm = (if \<not> rx_match ReValidUser nm then Some ErrInvalidUsername else None)"

definition ValidateObjectPath :: "string \<Rightarrow> name_error option" where
  "ValidateObjectPath path = (if \<not> rx_match ReValidPath path then Some ErrInvalidObjectPath else None)"

subsection \<open>The matcher decides the language\<close>

inductive_set words_star :: "string set \<Rightarrow> string set" for L where
  star_Nil: "[] \<in> words_star L"
| star_app: "u \<in> L \<Longrightarrow> v \<in> words_star L \<Longrightarrow> u @ v \<in> words_star L"

fun words :: "rx \<Rightarrow> string set" where
  "words Empty = {}"
| "words Eps = {[]}"
| "words (Cls P) = {[c] |c. P c}"
| "words (Alt r q) = words r \<union> words q"
| "words (Seq r q) = {u @ v |u v. u \<in> words r \<and> v \<in> words q}"
| "words (Star r) = words_star (words r)"

lemma nullable_words: "nullable r \<longleftrightarrow> [] \<in> words r"
  by (induction r) (auto intro: star_Nil)

lemma star_Cons:
  assumes "c # cs \<in> words_star L"
  shows "\<exists>u v. cs = u @ v \<and> c # u \<in> L \<and> v \<in> words_star L"
  using assms
proof (induction "c # cs" arbitrary: c cs rule: words_star.induct)
  case (star_app u v)
  show ?case
  proof (cases u)
    case Nil
    with star_app show ?thesis by auto
  next
    case (Cons a u')
    with star_app show ?thesis by auto
  qed
qed

lemma deriv_words: "cs \<in> words (deriv c r) \<longleftrightarrow> c # cs \<in> words r"
proof (induction r arbitrary: cs)
  case (Seq r q)
  show ?case by (auto simp: Seq nullable_words Cons_eq_append_conv)
next
  case (Star r)
  show ?case using star_app [of "c # u" "words r" for u] by (auto simp: Star dest!: star_Cons)
qed auto

lemma rx_match_words: "rx_match r s \<longleftrightarrow> s \<in> words r"
  by (induction s arbitrary: r) (simp_all add: nullable_words deriv_words)

subsection \<open>What the expressions accept\<close>

lemma words_Star_Cls: "words (Star (Cls P)) = {s. list_all P s}"
proof -
  have "list_all P s" if "s \<in> words_star {[c] |c. P c}" for s
    using that by (induction rule: words_star.induct) auto
  moreover have "s \<in> words_star {[c] |c. P c}" if "list_all P s" for s
    using that
  proof (induction s)
    case (Cons c s)
    then show ?case using star_app [of "[c]" "{[c] |c. P c}" s] by auto
  qed (simp add: star_Nil)
  ultimately show ?thesis by auto
qed

lemma in_Seq: "u \<in> words r \<Longrightarrow> v \<in> words q \<Longrightarrow> u @ v \<in> words (Seq r q)"
  by auto

lemma words_Cls_Seq: "words (Seq (Cls P) r) = {c # v |c v. P c \<and> v \<in> words r}"
proof -
  have "s \<in> words (Seq (Cls P) r) \<longleftrightarrow> (\<exists>c v. s = c # v \<and> P c \<and> v \<in> words r)" for s
  proof
    assume "\<exists>c v. s = c # v \<and> P c \<and> v \<in> words r"
    then obtain c v where "s = [c] @ v" "P c" "v \<in> words r" by auto
    then show "s \<in> words (Seq (Cls P) r)" using in_Seq [of "[c]" "Cls P" v r] by simp
  qed auto
  then show ?thesis by blast
qed

lemma words_Seq_Cls: "words (Seq r (Cls P)) = {u @ [c] |u c. u \<in> words r \<and> P c}"
  by auto

lemma words_Plus_Cls: "words (Plus (Cls P)) = {s. s \<noteq> [] \<and> list_all P s}"
proof -
  have "words (Plus (Cls P)) = {c # v |c v. P c \<and> list_all P v}"
    by (simp only: Plus_def words_Cls_Seq words_Star_Cls mem_Collect_eq)
  also have "\<dots> = {s. s \<noteq> [] \<and> list_all P s}" by (auto simp: neq_Nil_conv)
  finally show ?thesis .
qed

lemma words_Repeat_Cls: "words (Repeat m k (Cls P)) = {s. m \<le> length s \<and> length s \<le> m + k \<and> list_all P s}"
proof (induction m k "Cls P" rule: Repeat.induct)
  case (1 m k)
  have "words (Repeat (Suc m) k (Cls P)) = {c # v |c v. P c \<and> m \<le> length v \<and> length v \<le> m + k \<and> list_all P v}"
    by (simp only: Repeat.simps words_Cls_Seq 1 mem_Collect_eq)
  also have "\<dots> = {s. Suc m \<le> length s \<and> length s \<le> Suc m + k \<and> list_all P s}"
    by (auto simp: Suc_le_length_iff)
  finally show ?case .
next
  case (2 k)
  have "words (Repeat 0 (Suc k) (Cls P)) = {c # v |c v. P c \<and> length v \<le> k \<and> list_all P v} \<union> {[]}"
    by (simp only: Repeat.simps Opt_def words.simps(4) words.simps(2) words_Cls_Seq 2 mem_Collect_eq) simp
  also have "\<dots> = {s. length s \<le> Suc k \<and> list_all P s}" (is "?A = ?B")
  proof -
    have "s \<in> ?A \<longleftrightarrow> s \<in> ?B" for s by (cases s) auto
    then show ?thesis by blast
  qed
  finally show ?case by simp
qed auto

definition name_ok :: "(char \<Rightarrow> bool) \<Rightarrow> nat \<Rightarrow> string \<Rightarrow> bool" where
  "name_ok P n s \<longleftrightarrow> 3 \<le> length s \<and> length s \<le> n \<and> is_alnum (hd s) \<and> is_alnum (last s) \<and> list_all P (butlast (tl s))"

lemma name_rx_ok: "0 < n \<Longrightarrow> rx_match (name_rx P n) s \<longleftrightarrow> name_ok P (n + 2) s"
proof -
  assume n: "0 < n"
  have "words (name_rx P n) =
    {a # v @ [b] |a v b. is_alnum a \<and> is_alnum b \<and> 1 \<le> length v \<and> length v \<le> n \<and> list_all P v}"
    unfolding name_rx_def words_Cls_Seq words_Seq_Cls words_Repeat_Cls using n by auto
  also have "\<dots> = {s. name_ok P (n + 2) s}" (is "?A = ?B")
  proof (intro equalityI subsetI)
    fix s assume s: "s \<in> ?B"
    then obtain a t where t: "s = a # t" "t \<noteq> []" by (cases s) (auto simp: name_ok_def split: if_splits)
    with s have "is_alnum a" "is_alnum (last t)" "list_all P (butlast t)" "1 \<le> length (butlast t)"
      "length (butlast t) \<le> n" by (auto simp: name_ok_def)
    moreover have "s = a # butlast t @ [last t]" using t by simp
    ultimately show "s \<in> ?A" by blast
  qed (auto simp: name_ok_def)
  finally show ?thesis by (simp add: rx_match_words)
qed

lemma two_parts: "(\<exists>u v. s = u @ v \<and> u \<noteq> [] \<and> v \<noteq> []) \<longleftrightarrow> 2 \<le> length s"
proof
  assume "\<exists>u v. s = u @ v \<and> u \<noteq> [] \<and> v \<noteq> []"
  then obtain u v where "s = u @ v" "u \<noteq> []" "v \<noteq> []" by blast
  then show "2 \<le> length s" by (cases u; cases v) auto
next
  assume "2 \<le> length s"
  then show "\<exists>u v. s = u @ v \<and> u \<noteq> [] \<and> v \<noteq> []"
    by (intro exI [of _ "take 1 s"] exI [of _ "drop 1 s"]) auto
qed

lemma ref_ok: "CHR ''/'' \<notin> set s \<Longrightarrow> rx_match ReValidRef s \<longleftrightarrow> 2 \<le> length s \<and> list_all is_word s"
proof -
  assume slash: "CHR ''/'' \<notin> set s"
  have "s \<in> words ReValidRef \<longleftrightarrow> (\<exists>u v. s = u @ v \<and> u \<noteq> [] \<and> v \<noteq> [] \<and> list_all is_word s)"
  proof
    assume "s \<in> words ReValidRef"
    then obtain u w v where s: "s = u @ w @ v" "w = [] \<or> w = ''/''" "u \<noteq> []" "list_all is_word u" "v \<noteq> []"
      "list_all is_word v" unfolding ReValidRef_def words.simps(5) words_Plus_Cls Opt_def by auto
    then have "w = []" using slash by auto
    with s show "\<exists>u v. s = u @ v \<and> u \<noteq> [] \<and> v \<noteq> [] \<and> list_all is_word s" by auto
  next
    assume "\<exists>u v. s = u @ v \<and> u \<noteq> [] \<and> v \<noteq> [] \<and> list_all is_word s"
    then obtain u v where uv: "s = u @ [] @ v" "u \<in> words (Plus (Cls is_word))" "v \<in> words (Plus (Cls is_word))"
      by (auto simp: words_Plus_Cls)
    have "[] \<in> words (Opt (Cls (\<lambda>c. c = CHR ''/'')))" by (simp add: Opt_def)
    from in_Seq [OF uv(2) in_Seq [OF this uv(3)]] show "s \<in> words ReValidRef"
      by (simp only: ReValidRef_def uv(1))
  qed
  also have "\<dots> \<longleftrightarrow> 2 \<le> length s \<and> list_all is_word s" using two_parts [of s] by blast
  finally show ?thesis by (simp add: rx_match_words)
qed

text \<open>Paths: every segment after the first is a non-empty name without white space.\<close>

definition path_ok :: "string \<Rightarrow> bool" where
  "path_ok p \<longleftrightarrow>
     (case split_on (CHR ''/'') p of
        [s] \<Rightarrow> s \<noteq> [] \<and> list_all first_char s \<and> seg_char (last s)
      | s # ss \<Rightarrow> list_all first_char s \<and> list_all (\<lambda>t. t \<noteq> [] \<and> list_all seg_char t) ss)"

lemma words_star_segs:
  "words_star {u @ v |u v. u \<in> {s. s \<noteq> [] \<and> list_all P s} \<and> v \<in> {''/''}} =
   {concat (map (\<lambda>t. t @ ''/'') ss) |ss. list_all (\<lambda>t. t \<noteq> [] \<and> list_all P t) ss}" (is "words_star ?L = ?R")
proof -
  have "s \<in> ?R" if "s \<in> words_star ?L" for s
    using that
  proof (induction rule: words_star.induct)
    case star_Nil
    then show ?case by (auto intro: exI [of _ "[]"])
  next
    case (star_app u v)
    then obtain t ss where "u = t @ ''/''" "t \<noteq> []" "list_all P t" "v = concat (map (\<lambda>t. t @ ''/'') ss)"
      "list_all (\<lambda>t. t \<noteq> [] \<and> list_all P t) ss" by auto
    then show ?case by (auto intro!: exI [of _ "t # ss"])
  qed
  moreover have "concat (map (\<lambda>t. t @ ''/'') ss) \<in> words_star ?L" if "list_all (\<lambda>t. t \<noteq> [] \<and> list_all P t) ss" for ss
    using that
  proof (induction ss)
    case (Cons t ss)
    then show ?case using star_app [of "t @ ''/''" ?L "concat (map (\<lambda>t. t @ ''/'') ss)"] by auto
  qed (simp add: star_Nil)
  ultimately show ?thesis by auto
qed

lemma join_concat: "concat (map (\<lambda>t. t @ sep) ss) @ b = join_with sep (ss @ [b])"
proof (induction ss)
  case (Cons t ss)
  then show ?case by (cases ss) simp_all
qed simp

lemma seg_no_slash: "list_all first_char s \<Longrightarrow> CHR ''/'' \<notin> set s" "list_all seg_char s \<Longrightarrow> CHR ''/'' \<notin> set s"
  by (auto simp: first_char_def seg_char_def list_all_iff)

lemma seg_first: "list_all seg_char s \<Longrightarrow> list_all first_char s"
  by (auto simp: seg_char_def list_all_iff)


lemma alnum_seg: "is_alnum c \<Longrightarrow> seg_char c"
  by (auto simp: is_alnum_def is_letter_def is_digit_def seg_char_def first_char_def path_forbidden_def is_blank_def
    less_eq_char_def)

lemma words_ReValidPath:
  "words ReValidPath =
    {a @ w @ join_with ''/'' (ss @ [b]) |a w ss b. list_all first_char a \<and> (w = [] \<or> w = ''/'') \<and>
      list_all (\<lambda>t. t \<noteq> [] \<and> list_all seg_char t) (ss @ [b])}" (is "_ = ?R")
proof (intro equalityI subsetI)
  let ?slash = "Cls (\<lambda>c. c = CHR ''/'')" and ?ext = "Opt (Seq (Cls (\<lambda>c. c = CHR ''.'')) (Plus (Cls is_alnum)))"
  let ?dirs = "Star (Seq (Plus (Cls seg_char)) ?slash)"
  have dirs: "words ?dirs = {concat (map (\<lambda>t. t @ ''/'') ss) |ss. list_all (\<lambda>t. t \<noteq> [] \<and> list_all seg_char t) ss}"
  proof -
    have "words (Seq (Plus (Cls seg_char)) ?slash) =
      {u @ v |u v. u \<in> {s. s \<noteq> [] \<and> list_all seg_char s} \<and> v \<in> {''/''}}"
      unfolding words_Seq_Cls words_Plus_Cls by auto
    then show ?thesis unfolding words.simps(6) by (simp only: words_star_segs)
  qed
  {
    fix s assume "s \<in> words ReValidPath"
    then obtain a w d b x where s: "s = a @ w @ d @ b @ x" "a \<in> words (Star (Cls first_char))" "w \<in> words (Opt ?slash)"
      "d \<in> words ?dirs" "b \<in> words (Plus (Cls seg_char))" "x \<in> words ?ext"
      unfolding ReValidPath_def words.simps(5) by blast
    from s(6) have "list_all seg_char x"
      by (auto simp: Opt_def words_Cls_Seq words_Plus_Cls list_all_iff alnum_seg)
        (simp add: seg_char_def first_char_def path_forbidden_def is_blank_def)
    moreover from s(4) dirs obtain ss where "d = concat (map (\<lambda>t. t @ ''/'') ss)"
      "list_all (\<lambda>t. t \<noteq> [] \<and> list_all seg_char t) ss" by auto
    moreover have "w = [] \<or> w = ''/''" using s(3) by (auto simp: Opt_def)
    moreover have "list_all first_char a" using s(2) by (simp only: words_Star_Cls mem_Collect_eq)
    moreover have "b \<noteq> [] \<and> list_all seg_char b" using s(5) unfolding words_Plus_Cls by simp
    ultimately show "s \<in> ?R" using s(1) join_concat [of "''/''" ss "b @ x"]
      by (intro CollectI exI [of _ a] exI [of _ w] exI [of _ ss] exI [of _ "b @ x"]) auto
  next
    fix s assume "s \<in> ?R"
    then obtain a w ss b where s: "s = a @ w @ join_with ''/'' (ss @ [b])" "list_all first_char a" "w = [] \<or> w = ''/''"
      "list_all (\<lambda>t. t \<noteq> [] \<and> list_all seg_char t) (ss @ [b])" by blast
    have "a \<in> words (Star (Cls first_char))" using s(2) by (simp only: words_Star_Cls mem_Collect_eq)
    moreover have "w \<in> words (Opt ?slash)" using s(3) by (auto simp: Opt_def)
    moreover have "concat (map (\<lambda>t. t @ ''/'') ss) \<in> words ?dirs" using dirs s(4) by auto
    moreover have "b \<in> words (Plus (Cls seg_char))" using s(4) by (simp add: words_Plus_Cls)
    moreover have "[] \<in> words ?ext" by (simp add: Opt_def)
    ultimately have "a @ w @ concat (map (\<lambda>t. t @ ''/'') ss) @ b @ [] \<in> words ReValidPath"
      unfolding ReValidPath_def by (intro in_Seq)
    then show "s \<in> words ReValidPath" using s(1) join_concat [of "''/''" ss b] by simp
  }
qed

lemma join_cons: "xs \<noteq> [] \<Longrightarrow> join_with sep (x # xs) = x @ sep @ join_with sep xs"
  by (cases xs) simp_all

lemma join_append_first: "xs \<noteq> [] \<Longrightarrow> a @ join_with sep xs = join_with sep ((a @ hd xs) # tl xs)"
  by (cases xs; cases "tl xs") simp_all

lemma rx_path_ok: "rx_match ReValidPath p \<longleftrightarrow> path_ok p"
proof
  assume "rx_match ReValidPath p"
  then obtain a w ss b where p: "p = a @ w @ join_with ''/'' (ss @ [b])" and a: "list_all first_char a"
    and w: "w = [] \<or> w = ''/''" and ss: "list_all (\<lambda>t. t \<noteq> [] \<and> list_all seg_char t) (ss @ [b])"
    unfolding rx_match_words words_ReValidPath by blast
  define segs where "segs = (if w = [] then (a @ hd (ss @ [b])) # tl (ss @ [b]) else a # ss @ [b])"
  have "p = join_with ''/'' segs"
    using w join_cons [of "ss @ [b]" "''/''" a] join_append_first [of "ss @ [b]" a "''/''"]
    by (auto simp: p segs_def)
  moreover have "\<forall>s \<in> set segs. CHR ''/'' \<notin> set s"
    using a ss seg_no_slash by (cases ss) (auto simp: segs_def list_all_iff)
  ultimately have "split_on (CHR ''/'') p = segs" by (simp add: split_join_on segs_def)
  moreover have "list_all first_char (hd segs)" "list_all (\<lambda>t. t \<noteq> [] \<and> list_all seg_char t) (tl segs)"
    using a ss by (cases ss; auto simp: segs_def seg_first)+
  moreover have "hd segs \<noteq> []" "seg_char (last (hd segs))" if "tl segs = []"
    using that ss w by (cases ss; auto simp: segs_def list_all_iff split: if_splits)+
  ultimately show "path_ok p" by (cases segs; cases "tl segs") (auto simp: path_ok_def segs_def)
next
  assume ok: "path_ok p"
  obtain s ss where segs: "split_on (CHR ''/'') p = s # ss" by (meson neq_Nil_conv split_on_neq_Nil)
  have p: "p = join_with ''/'' (s # ss)" using join_split_on [of "CHR ''/''" p] segs by simp
  show "rx_match ReValidPath p"
  proof (cases "ss = []")
    case True
    with ok segs have "s \<noteq> []" "list_all first_char s" "seg_char (last s)" by (simp_all add: path_ok_def)
    then have "p = butlast s @ [] @ join_with ''/'' ([] @ [[last s]])" "list_all first_char (butlast s)"
      "list_all (\<lambda>t. t \<noteq> [] \<and> list_all seg_char t) ([] @ [[last s]])"
      using p True by (auto simp: list_all_iff dest: in_set_butlastD)
    then show ?thesis unfolding rx_match_words words_ReValidPath by blast
  next
    case False
    with ok segs have s: "list_all first_char s" "list_all (\<lambda>t. t \<noteq> [] \<and> list_all seg_char t) ss"
      by (cases ss; simp add: path_ok_def)+
    have "p = s @ ''/'' @ join_with ''/'' (butlast ss @ [last ss])" using p False join_cons [OF False] by simp
    moreover have "list_all (\<lambda>t. t \<noteq> [] \<and> list_all seg_char t) (butlast ss @ [last ss])" using s(2) False by simp
    ultimately show ?thesis using s(1) unfolding rx_match_words words_ReValidPath by blast
  qed
qed

lemma branch_name_ok:
  "ValidateBranchName nm = None \<longleftrightarrow> nm \<notin> set RepoNameBlackList \<and> length nm \<le> 40 \<and>
      length (split_on (CHR ''/'') nm) \<le> 2 \<and>
      list_all (\<lambda>s. 2 \<le> length s \<and> list_all is_word s) (split_on (CHR ''/'') nm)"
proof -
  obtain s ss where segs: "split_on (CHR ''/'') nm = s # ss" by (meson neq_Nil_conv split_on_neq_Nil)
  have ref: "rx_match ReValidRef t \<longleftrightarrow> 2 \<le> length t \<and> list_all is_word t" if "t \<in> set (s # ss)" for t
    using split_on_no_sep [of "CHR ''/''" nm] segs that by (intro ref_ok) auto
  consider "ss = []" | t where "ss = [t]" | t u vs where "ss = t # u # vs" by (metis neq_Nil_conv)
  then show ?thesis
  proof cases
    case 1
    then show ?thesis using ref [of s] by (auto simp: ValidateBranchName_def MaxBranchNameLength_def segs)
  next
    case (2 t)
    then show ?thesis using ref [of s] ref [of t] by (auto simp: ValidateBranchName_def MaxBranchNameLength_def segs)
  next
    case (3 t u vs)
    then show ?thesis by (simp add: ValidateBranchName_def segs)
  qed
qed

lemma other_names_ok:
  "ValidateRepoName nm = None \<longleftrightarrow> nm \<notin> set RepoNameBlackList \<and> name_ok (\<lambda>c. is_word c \<or> c = CHR ''-'') 63 nm"
  "ValidateTagName nm = None \<longleftrightarrow> name_ok (\<lambda>c. is_word c \<or> c = CHR ''.'' \<or> c = CHR ''-'') 63 nm"
  "ValidateUsername nm = None \<longleftrightarrow> name_ok (\<lambda>c. is_word c \<or> c = CHR ''-'') 30 nm"
  "ValidateObjectPath nm = None \<longleftrightarrow> path_ok nm"
  by (simp_all add: ValidateRepoName_def ValidateTagName_def ValidateUsername_def ValidateObjectPath_def ReValidRepo_def
    ReValidTag_def ReValidUser_def name_rx_ok rx_path_ok)

text \<open>Names on which the texts of the errors and the expressions differ.\<close>

lemma message_cases:
  "ValidateBranchName ''a-b'' = Some ErrInvalidBranchName" "ValidateBranchName ''a'' = Some ErrInvalidBranchName"
  "ValidateBranchName ''_a'' = None" "ValidateRepoName ''a_b'' = None" "ValidateTagName ''a_b'' = None"
  "ValidateUsername ''a_b'' = None" "ValidateRepoName ''ab-'' = Some ErrInvalidRepoName"
  "ValidateTagName ''ab-'' = Some ErrInvalidTagName" "ValidateObjectPath ''a/b c'' = Some ErrInvalidObjectPath"
  by code_simp+

text \<open>
  C29: The validators accept exactly what their regular expressions describe: branch names of at most
  forty bytes that are no reserved word and consist of one or two segments, each of two or more
  letters, digits and underscores; repository, tag and user names of 3 to 63 (users 30) bytes that
  begin and end with a letter or digit and have only letters, digits, underscores and hyphens (tags
  also dots) between, where a repository name is no reserved word; object paths without forbidden
  characters whose segments after the first are non-empty and without white space. The texts of
  the errors describe other sets, and the last conjuncts decide cases on which they and the code
  differ: the code rejects hyphens in branch names, which the text allows, and one-character names,
  and accepts a leading underscore there; it accepts underscores in repository, tag and user names,
  which the texts do not, and rejects a hyphen at the end of a repository or tag name and white
  space in object paths, which the texts do not mention.
\<close>

theorem validators_exact:
  "(ValidateBranchName nm = None \<longleftrightarrow> nm \<notin> set RepoNameBlackList \<and> length nm \<le> 40 \<and>
      length (split_on (CHR ''/'') nm) \<le> 2 \<and>
      list_all (\<lambda>s. 2 \<le> length s \<and> list_all is_word s) (split_on (CHR ''/'') nm)) \<and>
   (ValidateRepoName nm = None \<longleftrightarrow> nm \<notin> set RepoNameBlackList \<and> name_ok (\<lambda>c. is_word c \<or> c = CHR ''-'') 63 nm) \<and>
   (ValidateTagName nm = None \<longleftrightarrow> name_ok (\<lambda>c. is_word c \<or> c = CHR ''.'' \<or> c = CHR ''-'') 63 nm) \<and>
   (ValidateUsername nm = None \<longleftrightarrow> name_ok (\<lambda>c. is_word c \<or> c = CHR ''-'') 30 nm) \<and>
   (ValidateObjectPath nm = None \<longleftrightarrow> path_ok nm) \<and>
   ValidateBranchName ''a-b'' = Some ErrInvalidBranchName \<and> ValidateBranchName ''a'' = Some ErrInvalidBranchName \<and>
   ValidateBranchName ''_a'' = None \<and> ValidateRepoName ''a_b'' = None \<and> ValidateTagName ''a_b'' = None \<and>
   ValidateUsername ''a_b'' = None \<and> ValidateRepoName ''ab-'' = Some ErrInvalidRepoName \<and>
   ValidateTagName ''ab-'' = Some ErrInvalidTagName \<and> ValidateObjectPath ''a/b c'' = Some ErrInvalidObjectPath"
  by (intro conjI message_cases branch_name_ok other_names_ok)

end
