(* ===== verification/Responses.thy ===== *)
theory Responses
  imports Merge_Commits Rbac Blocks Validator
begin

section \<open>Responses of the server: api/custom_response.go, the types of api/jiaozifs.gen.go\<close>

text \<open>
  A response is the list of the writes to the \<open>http.ResponseWriter\<close>, in order: a status and a body
  each. The client sees the status of the first one; \<open>status_of\<close> reads it. The types that are sent
  as JSON are records, converted from rows by the \<open>...ToDto\<close> functions of controller/. Times are
  nanoseconds; \<open>UnixMilli\<close> rounds down. The hexadecimal coder is the argument \<open>encode\<close>.
\<close>

definition UnixMilli :: "time \<Rightarrow> int" where "UnixMilli t = t div 1000000"
definition from_UnixMilli :: "int \<Rightarrow> time" where "from_UnixMilli ms = ms * 1000000"

subsection \<open>Types\<close>

record api_pagination =
  pg_HasMore :: bool
  pg_MaxPerPage :: int
  pg_NextOffset :: string
  pg_Results :: nat

record api_branch =
  ab_CommitHash :: string
  ab_CreatedAt :: int
  ab_CreatorId :: uuid
  ab_Description :: "string option"
  ab_Id :: uuid
  ab_Name :: string
  ab_RepositoryId :: uuid
  ab_UpdatedAt :: int

record api_change =
  ac_Action :: action
  ac_BaseHash :: "string option"
  ac_Path :: string
  ac_ToHash :: "string option"

record api_change_pair =
  acp_IsConflict :: bool
  acp_Left :: "api_change option"
  acp_Path :: string
  acp_Right :: "api_change option"

record api_signature =
  as_Email :: string
  as_Name :: string
  as_When :: int

record api_commit =
  am_Author :: api_signature
  am_Committer :: api_signature
  am_CreatedAt :: int
  am_Hash :: string
  am_MergeTag :: string
  am_Message :: string
  am_ParentHashes :: "string list"
  am_RepositoryId :: uuid
  am_TreeHash :: string
  am_UpdatedAt :: int

record api_full_tree_entry =
  af_CreatedAt :: int
  af_Hash :: string
  af_IsDir :: bool
  af_Name :: string
  af_Size :: int
  af_UpdatedAt :: int

record api_group =
  ag_CreatedAt :: int
  ag_Id :: uuid
  ag_Name :: string
  ag_Policies :: "uuid list"
  ag_UpdatedAt :: int

record api_member =
  amb_CreatedAt :: int
  amb_GroupId :: uuid
  amb_Id :: uuid
  amb_RepoId :: uuid
  amb_UpdatedAt :: int
  amb_UserId :: uuid

record api_merge_request =
  amr_AuthorId :: uuid
  amr_CreatedAt :: int
  amr_Description :: "string option"
  amr_Id :: uuid
  amr_MergeStatus :: int
  amr_Sequence :: nat
  amr_SourceBranch :: uuid
  amr_SourceRepoId :: uuid
  amr_TargetBranch :: uuid
  amr_TargetRepoId :: uuid
  amr_Title :: string
  amr_UpdatedAt :: int

text \<open>\<open>MergeRequestFullState\<close> has the fields of \<open>MergeRequest\<close> and the changes.\<close>

record api_merge_request_full = api_merge_request +
  amr_Changes :: "api_change_pair list"

record api_object_stats =
  ao_Checksum :: string
  ao_ContentType :: string
  ao_Mtime :: int
  ao_Path :: string
  ao_PathMode :: file_mode
  ao_SizeBytes :: int

record api_repository =
  ar_CreatedAt :: int
  ar_CreatorId :: uuid
  ar_Description :: "string option"
  ar_Head :: string
  ar_Id :: uuid
  ar_Name :: string
  ar_OwnerId :: uuid
  ar_StorageAdapterParams :: "string option"
  ar_StorageNamespace :: "string option"
  ar_UpdatedAt :: int
  ar_UsePublicStorage :: bool
  ar_Visible :: bool

record api_tag =
  at_CreatedAt :: int
  at_CreatorId :: uuid
  at_Id :: uuid
  at_Message :: "string option"
  at_Name :: string
  at_RepositoryId :: uuid
  at_Target :: string
  at_UpdatedAt :: int

record api_user_info =
  au_CreatedAt :: int
  au_CurrentSignInAt :: int
  au_CurrentSignInIp :: string
  au_Email :: string
  au_Id :: uuid
  au_LastSignInAt :: int
  au_LastSignInIp :: string
  au_Name :: string
  au_UpdatedAt :: int

record api_wip =
  aw_BaseCommit :: string
  aw_CreatedAt :: int
  aw_CreatorId :: uuid
  aw_CurrentTree :: string
  aw_Id :: uuid
  aw_RefId :: uuid
  aw_RepositoryId :: uuid
  aw_State :: int
  aw_UpdatedAt :: int

record api_aksk =
  ak_AccessKey :: string
  ak_CreatedAt :: int
  ak_Description :: "string option"
  ak_Id :: uuid
  ak_SecretKey :: string
  ak_UpdatedAt :: int

record api_safe_aksk =
  ask_AccessKey :: string
  ask_CreatedAt :: int
  ask_Description :: "string option"
  ask_Id :: uuid
  ask_UpdatedAt :: int

record api_token =
  atk_Token :: string
  atk_TokenExpiration :: int

record version_result =
  vr_ApiVersion :: string
  vr_Version :: string
  vr_LatestVersion :: "string option"

record login_config =
  lc_RBAC :: string
  lc_LoginURL :: string
  lc_LoginFailedMessage :: string
  lc_FallbackLoginURL :: "string option"
  lc_FallbackLoginLabel :: "string option"
  lc_LoginCookieNames :: "string list"
  lc_LogoutURL :: string

record setup_state =
  ss_State :: string
  ss_LoginConfig :: login_config
  ss_CommPrefsMissing :: bool

datatype payload =
    PBranch api_branch | PBranches api_pagination "api_branch list"
  | PChanges "api_change list" | PCommit api_commit | PCommits "api_commit list"
  | PEntries "api_full_tree_entry list" | PGroups "api_group list"
  | PMember api_member | PMembers "api_member list"
  | PMergeRequests api_pagination "api_merge_request list" | PMergeRequest api_merge_request_full
  | PObjectStats api_object_stats | PFiles "string list"
  | PRepository api_repository | PRepositories api_pagination "api_repository list"
  | PTag api_tag | PTags api_pagination "api_tag list"
  | PUser api_user_info | PWip api_wip | PWips "api_wip list"
  | PAksk api_aksk | PSafeAksk api_safe_aksk | PAksks api_pagination "api_safe_aksk list"
  | PToken api_token | PVersion version_result | PSetupState setup_state

subsection \<open>The response writer\<close>

datatype body = NoBody | Message string | ErrorText error | Json payload | Content "(string \<times> string) list" bytes
  | Recovered string

type_synonym reply = "int \<times> body"

definition w_JSON :: "payload \<Rightarrow> int option \<Rightarrow> reply" where
  "w_JSON v code = (case code of None \<Rightarrow> (200, Json v) | Some c \<Rightarrow> (c, Json v))"

definition w_OK :: reply where "w_OK = (200, NoBody)"
definition w_NotFound :: reply where "w_NotFound = (404, NoBody)"
definition w_Forbidden :: reply where "w_Forbidden = (403, NoBody)"
definition w_Unauthorized :: reply where "w_Unauthorized = (401, NoBody)"
definition w_BadRequest :: "string \<Rightarrow> reply" where "w_BadRequest msg = (400, Message msg)"
definition w_BadRequestError :: "error \<Rightarrow> reply" where "w_BadRequestError err = (400, ErrorText err)"
definition w_String :: "body \<Rightarrow> int \<Rightarrow> reply" where "w_String msg code = (code, msg)"
definition w_Code :: "int \<Rightarrow> reply" where "w_Code code = (code, NoBody)"

text \<open>
  The messages of \<open>BadRequest\<close> are the texts given; \<open>BadRequest\<close> passes them through
  \<open>fmt.Sprintf\<close>, which changes a text with a percent sign in it.
\<close>

text \<open>
  A panic does not reach \<open>Error\<close>: the handler stops there and the server's recovery answers 500.
\<close>

definition w_Error :: "error \<Rightarrow> reply" where
  "w_Error err =
     (case err of
        ErrNotFound \<Rightarrow> (404, ErrorText err)
      | ErrUserNotFound \<Rightarrow> (401, NoBody)
      | ErrCode c \<Rightarrow> (c, ErrorText err)
      | Panic m \<Rightarrow> (500, Recovered m)
      | _ \<Rightarrow> (500, ErrorText err))"

definition status_of :: "reply list \<Rightarrow> int" where
  "status_of out = (case out of [] \<Rightarrow> 200 | (c, _) # _ \<Rightarrow> c)"

subsection \<open>Rows to types\<close>

definition branchToDto :: "(bytes \<Rightarrow> string) \<Rightarrow> branch \<Rightarrow> api_branch" where
  "branchToDto encode b =
     \<lparr>ab_CommitHash = hash_Hex encode (br_commit b), ab_CreatedAt = UnixMilli (br_created b),
      ab_CreatorId = br_creator b, ab_Description = br_description b, ab_Id = br_id b, ab_Name = br_name b,
      ab_RepositoryId = br_repo b, ab_UpdatedAt = UnixMilli (br_updated b)\<rparr>"

text \<open>The fields that the code does not set keep their zero values.\<close>

definition repositoryToDto :: "repository \<Rightarrow> api_repository" where
  "repositoryToDto r =
     \<lparr>ar_CreatedAt = UnixMilli (rp_created r), ar_CreatorId = rp_creator r, ar_Description = rp_description r,
      ar_Head = rp_HEAD r, ar_Id = rp_id r, ar_Name = rp_name r, ar_OwnerId = uuid_Nil,
      ar_StorageAdapterParams = None, ar_StorageNamespace = None, ar_UpdatedAt = UnixMilli (rp_updated r),
      ar_UsePublicStorage = False, ar_Visible = False\<rparr>"

definition tagToDto :: "(bytes \<Rightarrow> string) \<Rightarrow> tag \<Rightarrow> api_tag" where
  "tagToDto encode t =
     \<lparr>at_CreatedAt = UnixMilli (tg_created t), at_CreatorId = tg_creator t, at_Id = uuid_Nil,
      at_Message = tg_message t, at_Name = tg_name t, at_RepositoryId = tg_repo t,
      at_Target = hash_Hex encode (tg_target t), at_UpdatedAt = UnixMilli (tg_updated t)\<rparr>"

definition wip_state_code :: "wip_state \<Rightarrow> int" where
  "wip_state_code s = (case s of Init \<Rightarrow> 0 | Completed \<Rightarrow> 1)"

definition wipToDto :: "(bytes \<Rightarrow> string) \<Rightarrow> wip \<Rightarrow> api_wip" where
  "wipToDto encode w =
     \<lparr>aw_BaseCommit = hash_Hex encode (wp_base w), aw_CreatedAt = UnixMilli (wp_created w),
      aw_CreatorId = wp_creator w, aw_CurrentTree = hash_Hex encode (wp_tree w), aw_Id = wp_id w,
      aw_RefId = wp_ref w, aw_RepositoryId = wp_repo w, aw_State = wip_state_code (wp_state w),
      aw_UpdatedAt = UnixMilli (wp_updated w)\<rparr>"

definition sigToDto :: "signature \<Rightarrow> api_signature" where
  "sigToDto s = \<lparr>as_Email = sig_email s, as_Name = sig_name s, as_When = UnixMilli (sig_when s)\<rparr>"

definition commitToDto :: "(bytes \<Rightarrow> string) \<Rightarrow> commit \<Rightarrow> api_commit" where
  "commitToDto encode c =
     \<lparr>am_Author = sigToDto (cm_author c), am_Committer = sigToDto (cm_committer c),
      am_CreatedAt = UnixMilli (cm_created c), am_Hash = hash_Hex encode (cm_hash c), am_MergeTag = cm_merge_tag c,
      am_Message = cm_message c, am_ParentHashes = HexArrayOfHashes encode (cm_parents c),
      am_RepositoryId = cm_repo c, am_TreeHash = hash_Hex encode (cm_tree_hash c),
      am_UpdatedAt = UnixMilli (cm_updated c)\<rparr>"

definition entryToDto :: "(bytes \<Rightarrow> string) \<Rightarrow> full_tree_entry \<Rightarrow> api_full_tree_entry" where
  "entryToDto encode e =
     \<lparr>af_CreatedAt = UnixMilli (fte_created e), af_Hash = hash_Hex encode (fte_hash e), af_IsDir = fte_is_dir e,
      af_Name = fte_name e, af_Size = fte_size e, af_UpdatedAt = UnixMilli (fte_updated e)\<rparr>"

definition groupToDto :: "rgroup \<Rightarrow> api_group" where
  "groupToDto g =
     \<lparr>ag_CreatedAt = UnixMilli (gp_created g), ag_Id = gp_id g, ag_Name = gp_name g, ag_Policies = gp_policies g,
      ag_UpdatedAt = UnixMilli (gp_updated g)\<rparr>"

definition memberToDto :: "member \<Rightarrow> api_member" where
  "memberToDto m =
     \<lparr>amb_CreatedAt = UnixMilli (mb_created m), amb_GroupId = mb_group m, amb_Id = mb_id m, amb_RepoId = mb_repo m,
      amb_UpdatedAt = UnixMilli (mb_updated m), amb_UserId = mb_user m\<rparr>"

definition userInfoToDto :: "user \<Rightarrow> api_user_info" where
  "userInfoToDto u =
     \<lparr>au_CreatedAt = UnixMilli (us_created u), au_CurrentSignInAt = UnixMilli (us_current_sign_in_at u),
      au_CurrentSignInIp = us_current_sign_in_ip u, au_Email = us_email u, au_Id = us_id u,
      au_LastSignInAt = UnixMilli (us_last_sign_in_at u), au_LastSignInIp = us_last_sign_in_ip u,
      au_Name = us_name u, au_UpdatedAt = UnixMilli (us_updated u)\<rparr>"

text \<open>\<open>mr_id\<close> and \<open>mr_sequence\<close> are set for a single request only, not in a list.\<close>

definition mrToListDto :: "merge_request \<Rightarrow> api_merge_request" where
  "mrToListDto m =
     \<lparr>amr_AuthorId = mr_author m, amr_CreatedAt = UnixMilli (mr_created m), amr_Description = mr_description m,
      amr_Id = uuid_Nil, amr_MergeStatus = mr_state m, amr_Sequence = 0, amr_SourceBranch = mr_source_branch m,
      amr_SourceRepoId = mr_source_repo m, amr_TargetBranch = mr_target_branch m,
      amr_TargetRepoId = mr_target_repo m, amr_Title = mr_title m, amr_UpdatedAt = UnixMilli (mr_updated m)\<rparr>"

definition mrToFullDto :: "merge_request \<Rightarrow> api_change_pair list \<Rightarrow> api_merge_request_full" where
  "mrToFullDto m changes =
     \<lparr>amr_AuthorId = mr_author m, amr_CreatedAt = UnixMilli (mr_created m), amr_Description = mr_description m,
      amr_Id = mr_id m, amr_MergeStatus = mr_state m, amr_Sequence = mr_sequence m,
      amr_SourceBranch = mr_source_branch m, amr_SourceRepoId = mr_source_repo m,
      amr_TargetBranch = mr_target_branch m, amr_TargetRepoId = mr_target_repo m, amr_Title = mr_title m,
      amr_UpdatedAt = UnixMilli (mr_updated m), amr_Changes = changes\<rparr>"

subsection \<open>Changes\<close>

text \<open>\<open>N\<close> are the methods of the noders of the change.\<close>

definition changeToDto :: "(bytes \<Rightarrow> string) \<Rightarrow> 'n noder_ops \<Rightarrow> string \<Rightarrow> 'n change \<Rightarrow> api_change result" where
  "changeToDto encode N path c =
     (case change_Action c of
        Inl e \<Rightarrow> Inl e
      | Inr action \<Rightarrow>
          Inr \<lparr>ac_Action = action, ac_BaseHash = map_option (\<lambda>p. hash_Hex encode (path_Hash N p)) (ch_From c),
            ac_Path = path, ac_ToHash = map_option (\<lambda>p. hash_Hex encode (path_Hash N p)) (ch_To c)\<rparr>)"

definition changesToDTO :: "(bytes \<Rightarrow> string) \<Rightarrow> 'n noder_ops \<Rightarrow> 'n changes \<Rightarrow> api_change list result" where
  "changesToDTO encode N changes =
     (case changes_ForEach (\<lambda>c resp.
         (case changeToDto encode N (change_Path N c) c of
            Inl e \<Rightarrow> (Inl e, resp)
          | Inr a \<Rightarrow> (Inr (), resp @ [a]))) changes [] of
        (Inl e, _) \<Rightarrow> Inl e
      | (Inr _, resp) \<Rightarrow> Inr resp)"

definition side_dto ::
  "(bytes \<Rightarrow> string) \<Rightarrow> 'n noder_ops \<Rightarrow> string \<Rightarrow> 'n change option \<Rightarrow> api_change option result" where
  "side_dto encode N path c =
     (case c of
        None \<Rightarrow> Inr None
      | Some ch \<Rightarrow> (case changeToDto encode N path ch of Inl e \<Rightarrow> Inl e | Inr a \<Rightarrow> Inr (Some a)))"

definition pairToDTO :: "(bytes \<Rightarrow> string) \<Rightarrow> 'n noder_ops \<Rightarrow> 'n change_pair \<Rightarrow> api_change_pair result" where
  "pairToDTO encode N ch =
     (if cp_left ch = None \<and> cp_right ch = None then Inl nil_call
      else
        (let path = pair_Path N ch in
         case side_dto encode N path (cp_left ch) of
           Inl e \<Rightarrow> Inl e
         | Inr left \<Rightarrow>
             (case side_dto encode N path (cp_right ch) of
                Inl e \<Rightarrow> Inl e
              | Inr right \<Rightarrow>
                  Inr \<lparr>acp_IsConflict = cp_conflict ch, acp_Left = left, acp_Path = path, acp_Right = right\<rparr>)))"

definition changePairToDTO ::
  "(bytes \<Rightarrow> string) \<Rightarrow> 'n noder_ops \<Rightarrow> 'n change_pair list \<Rightarrow> api_change_pair list result" where
  "changePairToDTO encode N pairs = map_res (pairToDTO encode N) pairs"

subsection \<open>Pages\<close>

definition DefaultMaxPerPage :: int where "DefaultMaxPerPage = 1000"

text \<open>
  \<open>PaginationFor\<close> reads the field it is given the name of by reflection; \<open>token\<close> is that field as
  text: \<open>strconv.FormatInt\<close> for an \<open>int64\<close>, the string itself for a string.
\<close>

definition FormatInt :: "int \<Rightarrow> string" where
  "FormatInt i = (if i < 0 then ''-'' @ dec_digits (nat (- i)) else dec_digits (nat i))"

definition PaginationFor :: "bool \<Rightarrow> 'r list \<Rightarrow> ('r \<Rightarrow> string) \<Rightarrow> api_pagination" where
  "PaginationFor hasMore results token =
     (let pagination = \<lparr>pg_HasMore = hasMore, pg_MaxPerPage = DefaultMaxPerPage, pg_NextOffset = [],
            pg_Results = length results\<rparr>
      in if \<not> hasMore \<or> length results = 0 then pagination
         else pagination\<lparr>pg_NextOffset := token (last results)\<rparr>)"

definition int_value :: "int option \<Rightarrow> int" where
  "int_value v = (case v of None \<Rightarrow> 0 | Some i \<Rightarrow> i)"

definition bool_value :: "bool option \<Rightarrow> bool" where
  "bool_value v = (case v of None \<Rightarrow> False | Some b \<Rightarrow> b)"

definition page_amount :: "int option \<Rightarrow> int" where
  "page_amount amount =
     (let pageAmount = int_value amount
      in if pageAmount > DefaultMaxPerPage \<or> pageAmount \<le> 0 then DefaultMaxPerPage else pageAmount)"

definition prefix_param :: "string option \<Rightarrow> string option" where
  "prefix_param p = (case p of None \<Rightarrow> None | Some s \<Rightarrow> if length s > 0 then Some s else None)"

end
