(* ===== verification/Handlers.thy ===== *)
theory Handlers
  imports Responses
begin

section \<open>Request handlers: controller/base_ctl.go and what the controllers share\<close>

text \<open>
  A handler reads and changes the state of the server and writes replies. Most of its statements
  have the form \<open>x, err := f(...); if err != nil { w.Error(err); return }\<close>. An \<open>act\<close> is a piece of
  a handler: it delivers a value, or has returned (\<open>None\<close> inside), or does not end (\<open>None\<close>
  outside, when a walk or diff does not). \<open>then_do\<close> puts two pieces one after the other.

  The state \<open>server\<close> holds the database, the policies that \<open>RbacAuth\<close> caches, the access keys, the
  block store and the replies of the request so far. \<open>call\<close> is what a request brings along: who
  asks, the clock, the package functions that are parameters of the model, random values, and the
  block adapters that \<open>BuildBlockAdapter\<close> makes of the server's and of a client's configuration.
  Values of \<open>time.Now()\<close> in one request are equal. Each request is handled without interruption.
\<close>

record aksk =
  aks_id :: uuid
  aks_user :: uuid
  aks_access_key :: string
  aks_secret_key :: string
  aks_description :: "string option"
  aks_created :: time
  aks_updated :: time

record 's server =
  sv_data :: access_db
  sv_viewer :: "policy list"
  sv_aksks :: "aksk list"
  sv_blocks :: 's
  sv_out :: "reply list"

record 's call =
  ca_env :: env
  ca_us :: "uuid \<Rightarrow> string"
  ca_encode :: "bytes \<Rightarrow> string"
  ca_decode :: "string \<Rightarrow> bytes result"
  ca_ctx :: "nat \<Rightarrow> bool"
  ca_glob :: "string \<Rightarrow> (string \<Rightarrow> bool) result"
  ca_timestamp :: "time \<Rightarrow> string"
  ca_mime :: "string \<Rightarrow> string"
  ca_operator :: "user option"
  ca_uuid :: uuid
  ca_aksk :: "string \<times> string"
  ca_hash_password :: "string \<Rightarrow> string result"
  ca_public :: "string \<times> 's adapter result"
  ca_custom :: "string \<Rightarrow> (string \<times> 's adapter result) result"

type_synonym ('s, 'a) act = "'s server \<Rightarrow> ('a option \<times> 's server) option"

definition give :: "'a \<Rightarrow> ('s, 'a) act" where
  "give x s = Some (Some x, s)"

definition then_do :: "('s, 'a) act \<Rightarrow> ('a \<Rightarrow> ('s, 'b) act) \<Rightarrow> ('s, 'b) act" where
  "then_do m f s =
     (case m s of
        None \<Rightarrow> None
      | Some (None, s1) \<Rightarrow> Some (None, s1)
      | Some (Some x, s1) \<Rightarrow> f x s1)"

text \<open>A reply, with and without returning after it.\<close>

definition respond :: "reply \<Rightarrow> ('s, unit) act" where
  "respond r s = Some (Some (), s\<lparr>sv_out := sv_out s @ [r]\<rparr>)"

definition finish :: "reply \<Rightarrow> ('s, 'a) act" where
  "finish r s = Some (None, s\<lparr>sv_out := sv_out s @ [r]\<rparr>)"

text \<open>\<open>if err != nil { w.Error(err); return }\<close>\<close>

definition or_error :: "'a result \<Rightarrow> ('s, 'a) act" where
  "or_error r = (case r of Inl e \<Rightarrow> finish (w_Error e) | Inr x \<Rightarrow> give x)"

definition ask :: "('s server \<Rightarrow> 'a) \<Rightarrow> ('s, 'a) act" where
  "ask f s = Some (Some (f s), s)"

definition ask_db :: "(db \<Rightarrow> 'a) \<Rightarrow> ('s, 'a) act" where
  "ask_db f = ask (\<lambda>s. f (ad_db (sv_data s)))"

definition get_db :: "(db \<Rightarrow> 'a result) \<Rightarrow> ('s, 'a) act" where
  "get_db f = then_do (ask_db f) or_error"

definition get_data :: "(access_db \<Rightarrow> 'a result) \<Rightarrow> ('s, 'a) act" where
  "get_data f = then_do (ask (\<lambda>s. f (sv_data s))) or_error"

definition set_data :: "access_db \<Rightarrow> ('s, unit) act" where
  "set_data d s = Some (Some (), s\<lparr>sv_data := d\<rparr>)"

definition set_db :: "db \<Rightarrow> ('s, unit) act" where
  "set_db d s = Some (Some (), s\<lparr>sv_data := (sv_data s)\<lparr>ad_db := d\<rparr>\<rparr>)"

definition set_blocks :: "'s \<Rightarrow> ('s, unit) act" where
  "set_blocks b s = Some (Some (), s\<lparr>sv_blocks := b\<rparr>)"

text \<open>An operation that changes the database, with \<open>or_error\<close> on its result.\<close>

definition on_db :: "(db \<Rightarrow> 'a result \<times> db) \<Rightarrow> ('s, 'a) act" where
  "on_db f = then_do (ask_db f) (\<lambda>(r, d). then_do (set_db d) (\<lambda>_. or_error r))"

definition on_data :: "(access_db \<Rightarrow> 'a result \<times> access_db) \<Rightarrow> ('s, 'a) act" where
  "on_data f = then_do (ask (\<lambda>s. f (sv_data s))) (\<lambda>(r, d). then_do (set_data d) (\<lambda>_. or_error r))"

text \<open>The same for operations that change the working repository too, and that may not end.\<close>

definition on_work ::
  "(work_repo \<Rightarrow> db \<Rightarrow> 'a result \<times> work_repo \<times> db) \<Rightarrow> work_repo \<Rightarrow> ('s, 'a \<times> work_repo) act" where
  "on_work f w = then_do (ask_db (f w)) (\<lambda>(r, w', d). then_do (set_db d) (\<lambda>_.
     then_do (or_error r) (\<lambda>x. give (x, w'))))"

definition or_stuck :: "'a option \<Rightarrow> ('s, 'a) act" where
  "or_stuck r s = (case r of None \<Rightarrow> None | Some x \<Rightarrow> Some (Some x, s))"

definition get_db_opt :: "(db \<Rightarrow> 'a result option) \<Rightarrow> ('s, 'a) act" where
  "get_db_opt f = then_do (ask_db f) (\<lambda>r. then_do (or_stuck r) or_error)"

definition on_db_opt :: "(db \<Rightarrow> ('a result \<times> db) option) \<Rightarrow> ('s, 'a) act" where
  "on_db_opt f = then_do (ask_db f) (\<lambda>r. then_do (or_stuck r) (\<lambda>(x, d). then_do (set_db d) (\<lambda>_. or_error x)))"

definition when_do :: "bool \<Rightarrow> ('s, unit) act \<Rightarrow> ('s, unit) act" where
  "when_do b m = (if b then m else give ())"

subsection \<open>auth/context.go and base_ctl.go\<close>

definition GetOperator :: "'s call \<Rightarrow> user result" where
  "GetOperator C = (case ca_operator C of None \<Rightarrow> Inl ErrUserNotFound | Some u \<Rightarrow> Inr u)"

definition no_permission :: reply where
  "no_permission = w_String (Message ''User does not have the required permissions'') 500"

text \<open>The end of both functions; a denial that carries an error is answered with 401.\<close>

definition check_response :: "auth_response result \<Rightarrow> ('s, unit) act" where
  "check_response r =
     (case r of
        Inl e \<Rightarrow> finish (w_String (ErrorText e) 500)
      | Inr resp \<Rightarrow>
          if ap_Error resp \<noteq> None then finish (w_Code 401)
          else if \<not> ap_Allowed resp then finish no_permission
          else give ())"

definition authorize :: "'s call \<Rightarrow> node \<Rightarrow> ('s, unit) act" where
  "authorize C perms =
     (case GetOperator C of
        Inl _ \<Rightarrow> finish w_Unauthorized
      | Inr operator \<Rightarrow>
          then_do (ask (\<lambda>s. Authorize (ca_us C) (us_id operator) perms (sv_data s))) check_response)"

definition set_viewer :: "policy list \<Rightarrow> ('s, unit) act" where
  "set_viewer c s = Some (Some (), s\<lparr>sv_viewer := c\<rparr>)"

definition authorizeMember :: "'s call \<Rightarrow> uuid \<Rightarrow> node \<Rightarrow> ('s, unit) act" where
  "authorizeMember C repoID perms =
     (case GetOperator C of
        Inl _ \<Rightarrow> finish w_Unauthorized
      | Inr operator \<Rightarrow>
          then_do (ask (\<lambda>s. AuthorizeMember (ca_us C) repoID (us_id operator) perms (sv_data s) (sv_viewer s)))
            (\<lambda>(r, cache). then_do (set_viewer cache) (\<lambda>_. check_response r)))"

subsection \<open>Steps that many handlers have\<close>

definition operator_of :: "'s call \<Rightarrow> ('s, user) act" where
  "operator_of C = or_error (GetOperator C)"

definition get_owner :: "string \<Rightarrow> ('s, user) act" where
  "get_owner ownerName = get_db (UserRepo_Get (NewGetUserParams\<lparr>gu_name := Some ownerName\<rparr>))"

definition get_repository :: "string \<Rightarrow> user \<Rightarrow> ('s, repository) act" where
  "get_repository repositoryName owner =
     get_db (RepositoryRepo_Get (NewGetRepoParams\<lparr>gr_name := Some repositoryName, gr_owner := us_id owner\<rparr>))"

definition get_ref :: "repository \<Rightarrow> string \<Rightarrow> ('s, branch) act" where
  "get_ref repo refName =
     get_db (BranchRepo_Get (NewGetBranchParams\<lparr>gb_repo := rp_id repo, gb_name := Some refName\<rparr>))"

definition get_wip :: "user \<Rightarrow> repository \<Rightarrow> branch \<Rightarrow> ('s, wip) act" where
  "get_wip operator repo ref =
     get_db (WipRepo_Get (NewGetWipParams\<lparr>gw_creator := us_id operator, gw_repo := rp_id repo,
       gw_ref := br_id ref\<rparr>))"

definition get_commit_of :: "repository \<Rightarrow> hash \<Rightarrow> ('s, commit) act" where
  "get_commit_of repo h = get_db (\<lambda>d. CommitRepo_Commit (rp_id repo) (db_commits d) h)"

text \<open>A permission for an action on one repository, and several of them at once.\<close>

definition repo_perm :: "'s call \<Rightarrow> user \<Rightarrow> repository \<Rightarrow> string \<Rightarrow> node" where
  "repo_perm C owner repo action =
     Node NodeTypeNode
       \<lparr>pm_Action = action, pm_Resource = RepoURArn (ca_us C (us_id owner)) (ca_us C (rp_id repo))\<rparr> []"

definition repo_perms :: "'s call \<Rightarrow> user \<Rightarrow> repository \<Rightarrow> string list \<Rightarrow> node" where
  "repo_perms C owner repo actions =
     Node NodeTypeAnd \<lparr>pm_Action = [], pm_Resource = []\<rparr> (map (repo_perm C owner repo) actions)"

definition user_perm :: "string \<Rightarrow> string \<Rightarrow> node" where
  "user_perm action resource = Node NodeTypeNode \<lparr>pm_Action = action, pm_Resource = resource\<rparr> []"

text \<open>\<open>NewWorkRepositoryFromConfig\<close>: the adapter of the public or of the repository's own store.\<close>

definition AdapterFromConfig :: "'s call \<Rightarrow> string \<Rightarrow> 's adapter result" where
  "AdapterFromConfig C cfg = (case ca_custom C cfg of Inl e \<Rightarrow> Inl e | Inr (_, a) \<Rightarrow> a)"

definition repo_adapter :: "'s call \<Rightarrow> repository \<Rightarrow> 's adapter result" where
  "repo_adapter C repo =
     (if rp_public_storage repo then snd (ca_public C)
      else case rp_adapter_params repo of None \<Rightarrow> Inl nil_call | Some cfg \<Rightarrow> AdapterFromConfig C cfg)"

definition NewWorkRepositoryFromConfig ::
  "'s call \<Rightarrow> user \<Rightarrow> repository \<Rightarrow> (work_repo \<times> 's adapter) result" where
  "NewWorkRepositoryFromConfig C operator repo =
     (case repo_adapter C repo of
        Inl e \<Rightarrow> Inl e
      | Inr adapter \<Rightarrow> Inr (NewWorkRepositoryFromAdapter operator repo, adapter))"

definition work_repo_of :: "'s call \<Rightarrow> user \<Rightarrow> repository \<Rightarrow> ('s, work_repo \<times> 's adapter) act" where
  "work_repo_of C operator repo = or_error (NewWorkRepositoryFromConfig C operator repo)"

definition check_out :: "'s call \<Rightarrow> string \<Rightarrow> string \<Rightarrow> work_repo \<Rightarrow> ('s, work_repo) act" where
  "check_out C refType refName w =
     get_db (\<lambda>d. case CheckOut (ca_decode C) refType refName d w of
       (Inl e, _) \<Rightarrow> Inl e | (Inr _, w') \<Rightarrow> Inr w')"

definition root_tree :: "work_repo \<Rightarrow> ('s, work_state \<times> work_repo) act" where
  "root_tree w = get_db (\<lambda>d. case rootTree w d of (Inl e, _) \<Rightarrow> Inl e | (Inr t, w') \<Rightarrow> Inr (t, w'))"

definition noders_of :: "repository \<Rightarrow> db \<Rightarrow> vtree_node noder_ops" where
  "noders_of repo d = tree_ops (rp_id repo) (db_trees d)"

definition reply_changes :: "'s call \<Rightarrow> repository \<Rightarrow> tree_changes \<Rightarrow> ('s, unit) act" where
  "reply_changes C repo changes =
     then_do (get_db (\<lambda>d. changesToDTO (ca_encode C) (noders_of repo d) changes)) (\<lambda>resp.
     respond (w_JSON (PChanges resp) None))"

end
