(* ===== verification/Ref_Controllers.thy ===== *)
theory Ref_Controllers
  imports Handlers
begin

section \<open>Branches, tags, commits, groups and members: controller/\<close>

text \<open>
  The handlers of branch_ctl.go, tag_ctl.go, commit_ctl.go, group_ctl.go and member_ctl.go, each
  with its own guards in the order of the source.
\<close>

subsection \<open>branch_ctl.go\<close>

record list_params =
  lp_Prefix :: "string option"
  lp_After :: "int option"
  lp_Amount :: "int option"

definition ListBranches ::
  "'s call \<Rightarrow> string \<Rightarrow> string \<Rightarrow> string option \<Rightarrow> string option \<Rightarrow> int option \<Rightarrow> ('s, unit) act" where
  "ListBranches C ownerName repositoryName p_Prefix p_After p_Amount =
     then_do (get_owner ownerName) (\<lambda>owner.
     then_do (get_repository repositoryName owner) (\<lambda>repo.
     then_do (authorizeMember C (rp_id repo) (repo_perm C owner repo ''repo:ListBranches'')) (\<lambda>_.
     then_do (ask_db (BranchRepo_List
       \<lparr>lb_repo = rp_id repo, lb_name = prefix_param p_Prefix,
        lb_match = PrefixMatch, lb_after = prefix_param p_After, lb_amount = page_amount p_Amount\<rparr>)) (\<lambda>(branches, hasMore).
     (let results = map (branchToDto (ca_encode C)) branches
      in respond (w_JSON (PBranches (PaginationFor hasMore results ab_Name) results) None))))))"

definition CreateBranch_handler :: "'s call \<Rightarrow> string \<Rightarrow> string \<Rightarrow> string \<Rightarrow> string \<Rightarrow> ('s, unit) act" where
  "CreateBranch_handler C ownerName repositoryName body_Name body_Source =
     (case ValidateBranchName body_Name of
        Some e \<Rightarrow> finish (w_BadRequest (name_error_text e))
      | None \<Rightarrow>
     then_do (operator_of C) (\<lambda>operator.
     then_do (get_owner ownerName) (\<lambda>owner.
     then_do (get_repository repositoryName owner) (\<lambda>repo.
     then_do (authorizeMember C (rp_id repo) (repo_perm C owner repo ''repo:CreateBranch'')) (\<lambda>_.
     then_do (ask_db (BranchRepo_Get (NewGetBranchParams\<lparr>gb_repo := rp_id repo, gb_name := Some body_Source\<rparr>))) (\<lambda>src.
     then_do (case src of
         Inl e \<Rightarrow> if e \<noteq> ErrNotFound then finish (w_Error e) else give None
       | Inr b \<Rightarrow> give (Some b)) (\<lambda>sourceBranch.
     then_do (work_repo_of C operator repo) (\<lambda>(w, _).
     then_do (case sourceBranch of
         None \<Rightarrow> finish (w_Error nil_call)
       | Some b \<Rightarrow> check_out C InCommit (hash_Hex (ca_encode C) (br_commit b)) w) (\<lambda>w.
     then_do (on_db (CreateBranch (ca_env C) body_Name w)) (\<lambda>newBranch.
     respond (w_JSON (PBranch (branchToDto (ca_encode C) newBranch)) (Some 201))))))))))))"

definition DeleteBranch_handler :: "'s call \<Rightarrow> string \<Rightarrow> string \<Rightarrow> string \<Rightarrow> ('s, unit) act" where
  "DeleteBranch_handler C ownerName repositoryName p_RefName =
     then_do (operator_of C) (\<lambda>operator.
     then_do (get_owner ownerName) (\<lambda>owner.
     then_do (get_repository repositoryName owner) (\<lambda>repo.
     then_do (authorizeMember C (rp_id repo) (repo_perm C owner repo ''repo:DeleteBranch'')) (\<lambda>_.
     if p_RefName = rp_HEAD repo then finish (w_BadRequest ''can not delete HEAD branch'')
     else
     then_do (work_repo_of C operator repo) (\<lambda>(w, _).
     then_do (check_out C InBranch p_RefName w) (\<lambda>w.
     then_do (on_db (DeleteBranch w)) (\<lambda>_.
     respond w_OK)))))))"

definition GetBranch :: "'s call \<Rightarrow> string \<Rightarrow> string \<Rightarrow> string \<Rightarrow> ('s, unit) act" where
  "GetBranch C ownerName repositoryName p_RefName =
     then_do (get_owner ownerName) (\<lambda>owner.
     then_do (get_repository repositoryName owner) (\<lambda>repo.
     then_do (authorizeMember C (rp_id repo) (repo_perm C owner repo ''repo:ReadRepository'')) (\<lambda>_.
     then_do (get_ref repo p_RefName) (\<lambda>ref.
     respond (w_JSON (PBranch (branchToDto (ca_encode C) ref)) None)))))"

subsection \<open>tag_ctl.go\<close>

definition CreateTag_handler ::
  "'s call \<Rightarrow> string \<Rightarrow> string \<Rightarrow> string \<Rightarrow> string \<Rightarrow> string option \<Rightarrow> ('s, unit) act" where
  "CreateTag_handler C ownerName repositoryName body_Name body_Target body_Message =
     (case ValidateTagName body_Name of
        Some e \<Rightarrow> finish (w_BadRequest (name_error_text e))
      | None \<Rightarrow>
     then_do (operator_of C) (\<lambda>operator.
     then_do (get_owner ownerName) (\<lambda>owner.
     then_do (get_repository repositoryName owner) (\<lambda>repo.
     then_do (authorizeMember C (rp_id repo) (repo_perm C owner repo ''repo:CreateTag'')) (\<lambda>_.
     then_do (work_repo_of C operator repo) (\<lambda>(w, _).
     then_do (ask_db (BranchRepo_Get (NewGetBranchParams\<lparr>gb_repo := rp_id repo, gb_name := Some body_Target\<rparr>))) (\<lambda>target.
     then_do (case target of
         Inr _ \<Rightarrow> check_out C InBranch body_Target w
       | Inl e \<Rightarrow> if e = ErrNotFound then check_out C InCommit body_Target w else finish (w_Error e)) (\<lambda>w.
     then_do (on_db (CreateTag (ca_env C) body_Name body_Message w)) (\<lambda>newTag.
     respond (w_JSON (PTag (tagToDto (ca_encode C) newTag)) (Some 201)))))))))))"

definition DeleteTag_handler :: "'s call \<Rightarrow> string \<Rightarrow> string \<Rightarrow> string \<Rightarrow> ('s, unit) act" where
  "DeleteTag_handler C ownerName repositoryName p_RefName =
     then_do (operator_of C) (\<lambda>operator.
     then_do (get_owner ownerName) (\<lambda>owner.
     then_do (get_repository repositoryName owner) (\<lambda>repo.
     then_do (authorizeMember C (rp_id repo) (repo_perm C owner repo ''repo:DeleteTag'')) (\<lambda>_.
     then_do (work_repo_of C operator repo) (\<lambda>(w, _).
     then_do (check_out C InTag p_RefName w) (\<lambda>w.
     then_do (on_db (DeleteTag w)) (\<lambda>_.
     respond w_OK)))))))"

definition GetTag :: "'s call \<Rightarrow> string \<Rightarrow> string \<Rightarrow> string \<Rightarrow> ('s, unit) act" where
  "GetTag C ownerName repositoryName p_RefName =
     then_do (get_owner ownerName) (\<lambda>owner.
     then_do (get_repository repositoryName owner) (\<lambda>repo.
     then_do (authorizeMember C (rp_id repo) (repo_perm C owner repo ''repo:ReadTag'')) (\<lambda>_.
     then_do (get_db (TagRepo_Get (NewGetTagParams\<lparr>gt_name := Some p_RefName, gt_repo := rp_id repo\<rparr>))) (\<lambda>ref.
     respond (w_JSON (PTag (tagToDto (ca_encode C) ref)) None)))))"

definition ListTags :: "'s call \<Rightarrow> string \<Rightarrow> string \<Rightarrow> list_params \<Rightarrow> ('s, unit) act" where
  "ListTags C ownerName repositoryName params =
     then_do (get_owner ownerName) (\<lambda>owner.
     then_do (get_repository repositoryName owner) (\<lambda>repo.
     then_do (authorizeMember C (rp_id repo) (repo_perm C owner repo ''repo:ListTags'')) (\<lambda>_.
     then_do (ask_db (TagRepo_List
       \<lparr>lt_repo = rp_id repo, lt_name = prefix_param (lp_Prefix params),
        lt_match = PrefixMatch, lt_after = map_option from_UnixMilli (lp_After params),
        lt_amount = page_amount (lp_Amount params)\<rparr>)) (\<lambda>(tags, hasMore).
     (let results = map (tagToDto (ca_encode C)) tags
      in respond (w_JSON (PTags (PaginationFor hasMore results (\<lambda>t. FormatInt (at_UpdatedAt t))) results) None))))))"

subsection \<open>commit_ctl.go\<close>

text \<open>The tree a reference of \<open>GetEntriesInRef\<close> names.\<close>

definition entries_tree :: "'s call \<Rightarrow> user \<Rightarrow> repository \<Rightarrow> string \<Rightarrow> string option \<Rightarrow> ('s, hash) act" where
  "entries_tree C operator repo p_Type p_Ref =
     (let refName = (case p_Ref of None \<Rightarrow> rp_HEAD repo | Some r \<Rightarrow> r);
          tree_of = (\<lambda>h. then_do (get_commit_of repo h) (\<lambda>c. give (cm_tree_hash c)))
      in if p_Type = ''wip'' then
           then_do (get_ref repo refName) (\<lambda>ref.
           then_do (get_wip operator repo ref) (\<lambda>wip. give (wp_tree wip)))
         else if p_Type = ''branch'' then
           then_do (get_ref repo refName) (\<lambda>ref.
           if \<not> IsEmpty (br_commit ref) then tree_of (br_commit ref) else give [])
         else if p_Type = ''tag'' then
           then_do (get_db (TagRepo_Get (NewGetTagParams\<lparr>gt_repo := rp_id repo, gt_name := Some (string_value p_Ref)\<rparr>)))
             (\<lambda>ref. tree_of (tg_target ref))
         else if p_Type = ''commit'' then
           (case hash_FromHex (ca_decode C) (string_value p_Ref) of
              Inl e \<Rightarrow> finish (w_BadRequestError e)
            | Inr h \<Rightarrow> if \<not> IsEmpty h then tree_of h else give [])
         else finish (w_BadRequest ''not support''))"

definition GetEntriesInRef ::
  "'s call \<Rightarrow> string \<Rightarrow> string \<Rightarrow> string \<Rightarrow> string option \<Rightarrow> string option \<Rightarrow> ('s, unit) act" where
  "GetEntriesInRef C ownerName repositoryName p_Type p_Ref p_Path =
     then_do (operator_of C) (\<lambda>operator.
     then_do (get_owner ownerName) (\<lambda>owner.
     then_do (get_repository repositoryName owner) (\<lambda>repo.
     then_do (authorizeMember C (rp_id repo) (repo_perm C owner repo ''repo:ReadObject'')) (\<lambda>_.
     then_do (entries_tree C operator repo p_Type p_Ref) (\<lambda>treeHash.
     then_do (get_db (\<lambda>d. open_tree (rp_id repo) treeHash (db_trees d))) (\<lambda>workTree.
     (case Ls (rp_id repo) (CleanPath (string_value p_Path)) workTree of
        Inl e \<Rightarrow> if e = ErrPathNotFound then respond w_NotFound else respond (w_Error e)
      | Inr entries \<Rightarrow> respond (w_JSON (PEntries (map (entryToDto (ca_encode C)) entries)) None))))))))"

text \<open>\<open>strings.Split\<close> at three dots.\<close>

fun split_dots :: "string \<Rightarrow> string list" where
  "split_dots [] = [[]]"
| "split_dots (c # cs) =
     (if has_prefix (c # cs) ''...'' then [] # split_dots (drop 2 cs)
      else (case split_dots cs of [] \<Rightarrow> [[c]] | y # ys \<Rightarrow> (c # y) # ys))"

definition CompareCommit ::
  "'s call \<Rightarrow> string \<Rightarrow> string \<Rightarrow> string \<Rightarrow> string option \<Rightarrow> ('s, unit) act" where
  "CompareCommit C ownerName repositoryName basehead p_Path =
     then_do (operator_of C) (\<lambda>operator.
     then_do (get_owner ownerName) (\<lambda>owner.
     then_do (get_repository repositoryName owner) (\<lambda>repo.
     then_do (authorizeMember C (rp_id repo) (repo_perm C owner repo ''repo:ReadCommit'')) (\<lambda>_.
     (let baseHead = split_dots basehead in
      if length baseHead \<noteq> 2 then finish (w_BadRequest ''invalid basehead must be base...head'')
      else
     then_do (or_error (ca_decode C (baseHead ! 1))) (\<lambda>toCommitHash.
     then_do (work_repo_of C operator repo) (\<lambda>(w, _).
     then_do (check_out C InCommit (baseHead ! 0) w) (\<lambda>w.
     then_do (get_db_opt (\<lambda>d. map_option fst (DiffCommit (ca_ctx C) toCommitHash (string_value p_Path) w d)))
       (reply_changes C repo)))))))))"

definition GetCommitChanges_handler ::
  "'s call \<Rightarrow> string \<Rightarrow> string \<Rightarrow> string \<Rightarrow> string option \<Rightarrow> ('s, unit) act" where
  "GetCommitChanges_handler C ownerName repositoryName commitID p_Path =
     then_do (operator_of C) (\<lambda>operator.
     then_do (get_owner ownerName) (\<lambda>owner.
     then_do (get_repository repositoryName owner) (\<lambda>repo.
     then_do (authorizeMember C (rp_id repo) (repo_perm C owner repo ''repo:ReadCommit'')) (\<lambda>_.
     then_do (work_repo_of C operator repo) (\<lambda>(w, _).
     then_do (check_out C InCommit commitID w) (\<lambda>w.
     then_do (get_db_opt (GetCommitChanges (ca_ctx C) (string_value p_Path) w))
       (reply_changes C repo)))))))"

subsection \<open>group_ctl.go\<close>

definition ListRepoGroup :: "'s call \<Rightarrow> ('s, unit) act" where
  "ListRepoGroup C =
     (case GetOperator C of
        Inl _ \<Rightarrow> finish w_Forbidden
      | Inr _ \<Rightarrow>
          then_do (ask (\<lambda>s. GroupRepo_List [''RepoAdmin'', ''RepoWrite'', ''RepoRead''] (sv_data s))) (\<lambda>groups.
          respond (w_JSON (PGroups (map groupToDto groups)) None)))"

subsection \<open>member_ctl.go\<close>

definition UpdateMemberGroup :: "'s call \<Rightarrow> string \<Rightarrow> string \<Rightarrow> uuid \<Rightarrow> uuid \<Rightarrow> ('s, unit) act" where
  "UpdateMemberGroup C ownerName repositoryName p_UserId p_GroupId =
     then_do (get_owner ownerName) (\<lambda>owner.
     then_do (get_repository repositoryName owner) (\<lambda>repo.
     then_do (authorizeMember C (rp_id repo) (repo_perm C owner repo ''repo:AddGroupMember'')) (\<lambda>_.
     then_do (on_data (MemberRepo_UpdateMember
       \<lparr>um_repo = rp_id repo, um_user = p_UserId, um_group = p_GroupId,
        update_member_params.um_time = env_now (ca_env C)\<rparr>)) (\<lambda>_.
     respond w_OK))))"

text \<open>There is no return after the first reply.\<close>

definition InviteMember :: "'s call \<Rightarrow> string \<Rightarrow> string \<Rightarrow> uuid \<Rightarrow> uuid \<Rightarrow> ('s, unit) act" where
  "InviteMember C ownerName repositoryName p_UserId p_GroupId =
     then_do (get_owner ownerName) (\<lambda>owner.
     then_do (get_repository repositoryName owner) (\<lambda>repo.
     then_do (authorizeMember C (rp_id repo) (repo_perm C owner repo ''repo:AddGroupMember'')) (\<lambda>_.
     then_do (when_do (us_id owner = p_UserId) (respond (w_BadRequest ''not need to invite self''))) (\<lambda>_.
     then_do (on_data (MemberRepo_Insert
       \<lparr>mb_id = uuid_Nil, mb_user = p_UserId, mb_repo = rp_id repo, mb_group = p_GroupId,
        mb_created = env_now (ca_env C), mb_updated = env_now (ca_env C)\<rparr>)) (\<lambda>member.
     respond (w_JSON (PMember (memberToDto member)) (Some 201)))))))"

definition RevokeMember :: "'s call \<Rightarrow> string \<Rightarrow> string \<Rightarrow> uuid \<Rightarrow> ('s, unit) act" where
  "RevokeMember C ownerName repositoryName p_UserId =
     then_do (get_owner ownerName) (\<lambda>owner.
     then_do (get_repository repositoryName owner) (\<lambda>repo.
     then_do (authorizeMember C (rp_id repo) (repo_perm C owner repo ''repo:RemoveGroupMember'')) (\<lambda>_.
     then_do (on_data (MemberRepo_DeleteMember (rp_id repo) p_UserId)) (\<lambda>_.
     respond w_OK))))"

definition ListMembers :: "'s call \<Rightarrow> string \<Rightarrow> string \<Rightarrow> ('s, unit) act" where
  "ListMembers C ownerName repositoryName =
     then_do (get_owner ownerName) (\<lambda>owner.
     then_do (get_repository repositoryName owner) (\<lambda>repo.
     then_do (authorizeMember C (rp_id repo) (repo_perm C owner repo ''repo:GetGroupMember'')) (\<lambda>_.
     then_do (ask (\<lambda>s. MemberRepo_ListMember (rp_id repo) (sv_data s))) (\<lambda>members.
     respond (w_JSON (PMembers (map memberToDto members)) None)))))"

end
