(* ===== verification/Wip_Controllers.thy ===== *)
theory Wip_Controllers
  imports Ref_Controllers
begin

section \<open>Working copies, objects and merge requests: controller/\<close>

text \<open>
  The handlers of wip_ctl.go, object_ctl.go and merge_request_ctl.go. The parser of multipart
  bodies is the package mime/multipart: the request \<open>upload\<close> holds what it delivers.
\<close>

subsection \<open>wip_ctl.go\<close>

definition GetWip :: "'s call \<Rightarrow> string \<Rightarrow> string \<Rightarrow> string \<Rightarrow> ('s, unit) act" where
  "GetWip C ownerName repositoryName p_RefName =
     then_do (operator_of C) (\<lambda>operator.
     then_do (get_owner ownerName) (\<lambda>owner.
     then_do (get_repository repositoryName owner) (\<lambda>repo.
     then_do (authorizeMember C (rp_id repo) (repo_perms C owner repo [''repo:GetWip'', ''repo:CreateWip''])) (\<lambda>_.
     then_do (work_repo_of C operator repo) (\<lambda>(w, _).
     then_do (check_out C InBranch p_RefName w) (\<lambda>w.
     then_do (on_work (GetOrCreateWip (ca_env C)) w) (\<lambda>((wip, isNew), _).
     if isNew then respond (w_JSON (PWip (wipToDto (ca_encode C) wip)) (Some 201))
     else respond (w_JSON (PWip (wipToDto (ca_encode C) wip)) None))))))))"

definition ListWip :: "'s call \<Rightarrow> string \<Rightarrow> string \<Rightarrow> ('s, unit) act" where
  "ListWip C ownerName repositoryName =
     then_do (operator_of C) (\<lambda>operator.
     then_do (get_owner ownerName) (\<lambda>owner.
     then_do (get_repository repositoryName owner) (\<lambda>repo.
     then_do (authorizeMember C (rp_id repo) (repo_perm C owner repo ''repo:ListWip'')) (\<lambda>_.
     then_do (ask_db (WipRepo_List (NewGetWipParams\<lparr>gw_creator := us_id operator, gw_repo := rp_id repo\<rparr>))) (\<lambda>wips.
     respond (w_JSON (PWips (map (wipToDto (ca_encode C)) wips)) None))))))"

definition CommitWip :: "'s call \<Rightarrow> string \<Rightarrow> string \<Rightarrow> string \<Rightarrow> string \<Rightarrow> ('s, unit) act" where
  "CommitWip C ownerName repositoryName p_RefName p_Msg =
     then_do (operator_of C) (\<lambda>operator.
     then_do (get_owner ownerName) (\<lambda>owner.
     then_do (get_repository repositoryName owner) (\<lambda>repo.
     then_do (authorizeMember C (rp_id repo)
       (repo_perms C owner repo [''repo:GetWip'', ''repo:WriteBranch'', ''repo:ReadCommit''])) (\<lambda>_.
     then_do (work_repo_of C operator repo) (\<lambda>(w, _).
     then_do (check_out C InWip p_RefName w) (\<lambda>w.
     then_do (on_work (CommitChanges (ca_env C) p_Msg) w) (\<lambda>(_, w).
     (case CurWip w of
        None \<Rightarrow> respond (w_Error nil_call)
      | Some wip \<Rightarrow> respond (w_JSON (PWip (wipToDto (ca_encode C) wip)) (Some 201))))))))))"

definition UpdateWip ::
  "'s call \<Rightarrow> string \<Rightarrow> string \<Rightarrow> string \<Rightarrow> string option \<Rightarrow> string option \<Rightarrow> ('s, unit) act" where
  "UpdateWip C ownerName repositoryName p_RefName body_BaseCommit body_CurrentTree =
     then_do (operator_of C) (\<lambda>operator.
     then_do (get_owner ownerName) (\<lambda>owner.
     then_do (get_repository repositoryName owner) (\<lambda>repo.
     then_do (authorizeMember C (rp_id repo) (repo_perm C owner repo ''repo:WriteWip'')) (\<lambda>_.
     then_do (get_ref repo p_RefName) (\<lambda>ref.
     then_do (get_wip operator repo ref) (\<lambda>wip.
     then_do (case body_BaseCommit of
         None \<Rightarrow> give None
       | Some hx \<Rightarrow>
           then_do (or_error (hash_FromHex (ca_decode C) hx)) (\<lambda>h.
           if \<not> IsEmpty h then then_do (get_commit_of repo h) (\<lambda>_. give (Some h)) else give (Some h))) (\<lambda>base.
     then_do (case body_CurrentTree of
         None \<Rightarrow> give None
       | Some hx \<Rightarrow>
           then_do (or_error (hash_FromHex (ca_decode C) hx)) (\<lambda>h.
           if \<not> IsEmpty h
           then then_do (get_db (\<lambda>d. FileTreeRepo_TreeNode (rp_id repo) h (db_trees d))) (\<lambda>_. give (Some h))
           else give (Some h))) (\<lambda>tree.
     then_do (on_db (\<lambda>d. (Inr (), WipRepo_UpdateByID ((NewUpdateWipParams (ca_env C) (wp_id wip))
         \<lparr>uw_base := base, uw_tree := tree\<rparr>) d))) (\<lambda>_.
     respond w_OK)))))))))"

definition DeleteWip_handler :: "'s call \<Rightarrow> string \<Rightarrow> string \<Rightarrow> string \<Rightarrow> ('s, unit) act" where
  "DeleteWip_handler C ownerName repositoryName p_RefName =
     then_do (operator_of C) (\<lambda>operator.
     then_do (get_owner ownerName) (\<lambda>owner.
     then_do (get_repository repositoryName owner) (\<lambda>repo.
     then_do (authorizeMember C (rp_id repo) (repo_perm C owner repo ''repo:DeleteBranch'')) (\<lambda>_.
     then_do (work_repo_of C operator repo) (\<lambda>(w, _).
     then_do (check_out C InBranch p_RefName w) (\<lambda>w.
     then_do (on_db (DeleteWip w)) (\<lambda>_.
     respond w_OK)))))))"

definition GetWipChanges :: "'s call \<Rightarrow> string \<Rightarrow> string \<Rightarrow> string \<Rightarrow> string option \<Rightarrow> ('s, unit) act" where
  "GetWipChanges C ownerName repositoryName p_RefName p_Path =
     then_do (operator_of C) (\<lambda>operator.
     then_do (get_owner ownerName) (\<lambda>owner.
     then_do (get_repository repositoryName owner) (\<lambda>repo.
     then_do (authorizeMember C (rp_id repo)
       (repo_perms C owner repo [''repo:ReadCommit'', ''repo:GetWip'', ''repo:ReadBranch''])) (\<lambda>_.
     then_do (get_ref repo p_RefName) (\<lambda>ref.
     then_do (get_wip operator repo ref) (\<lambda>wip.
     then_do (if \<not> IsEmpty (wp_base wip)
       then then_do (get_commit_of repo (wp_base wip)) (\<lambda>commit. give (cm_tree_hash commit))
       else give []) (\<lambda>treeHash.
     if treeHash = wp_tree wip then respond (w_JSON (PChanges []) None)
     else
     then_do (get_db (\<lambda>d. open_tree (rp_id repo) treeHash (db_trees d))) (\<lambda>workTree.
     then_do (get_db_opt (\<lambda>d. wt_Diff (ca_ctx C) (rp_id repo) (wp_tree wip) (string_value p_Path) workTree))
       (reply_changes C repo)))))))))"

definition RevertWipChanges :: "'s call \<Rightarrow> string \<Rightarrow> string \<Rightarrow> string \<Rightarrow> string option \<Rightarrow> ('s, unit) act" where
  "RevertWipChanges C ownerName repositoryName p_RefName p_PathPrefix =
     then_do (operator_of C) (\<lambda>operator.
     then_do (get_owner ownerName) (\<lambda>owner.
     then_do (get_repository repositoryName owner) (\<lambda>repo.
     if us_name operator \<noteq> us_name owner then finish w_Forbidden
     else
     then_do (work_repo_of C operator repo) (\<lambda>(w, _).
     then_do (check_out C InWip p_RefName w) (\<lambda>w.
     then_do (on_db_opt (\<lambda>d. map_option (\<lambda>(r, _, d'). (r, d'))
         (Revert (ca_env C) (ca_ctx C) (string_value p_PathPrefix) w d))) (\<lambda>_.
     respond w_OK))))))"

subsection \<open>object_ctl.go\<close>

text \<open>Any error of \<open>RemoveEntry\<close> but \<open>ErrPathNotFound\<close> is overwritten by the next call's.\<close>

definition DeleteObject :: "'s call \<Rightarrow> string \<Rightarrow> string \<Rightarrow> string \<Rightarrow> string \<Rightarrow> ('s, unit) act" where
  "DeleteObject C ownerName repositoryName p_RefName p_Path =
     then_do (operator_of C) (\<lambda>operator.
     then_do (get_owner ownerName) (\<lambda>owner.
     then_do (get_repository repositoryName owner) (\<lambda>repo.
     then_do (authorizeMember C (rp_id repo) (repo_perm C owner repo ''repo:DeleteObject'')) (\<lambda>_.
     then_do (get_ref repo p_RefName) (\<lambda>ref.
     then_do (get_wip operator repo ref) (\<lambda>wip.
     then_do (get_db (\<lambda>d. open_tree (rp_id repo) (wp_tree wip) (db_trees d))) (\<lambda>workTree.
     (case RemoveEntry (ca_env C) (rp_id repo) (CleanPath p_Path) workTree of (r, workTree') \<Rightarrow>
     then_do (on_db (\<lambda>d. (Inr (), d\<lparr>db_trees := ws_objs workTree'\<rparr>))) (\<lambda>_.
     then_do (case r of Inl (Panic m) \<Rightarrow> finish (w_Error (Panic m)) | _ \<Rightarrow> give ()) (\<lambda>_.
     if r = Inl ErrPathNotFound then finish (w_BadRequest (''path '' @ p_Path @ '' not found''))
     else
     then_do (on_db (\<lambda>d. (Inr (), WipRepo_UpdateByID ((NewUpdateWipParams (ca_env C) (wp_id wip))
         \<lparr>uw_tree := Some (vt_Hash (ws_root workTree'))\<rparr>) d))) (\<lambda>_.
     respond w_OK)))))))))))"

definition ETag :: "string \<Rightarrow> string" where
  "ETag checksum = (if has_prefix checksum [CHR 0x22] then checksum else [CHR 0x22] @ checksum @ [CHR 0x22])"

text \<open>\<open>filepath.Ext\<close>, and the media type of an extension without its parameters.\<close>

definition path_Ext :: "string \<Rightarrow> string" where
  "path_Ext p =
     (let tail = takeWhile (\<lambda>c. c \<noteq> CHR ''.'' \<and> c \<noteq> CHR ''/'') (rev p)
      in if length tail < length p \<and> rev p ! length tail = CHR ''.'' then CHR ''.'' # rev tail else [])"

definition ExtensionsByType :: "'s call \<Rightarrow> string \<Rightarrow> string" where
  "ExtensionsByType C fileName =
     (let m = ca_mime C (path_Ext fileName)
      in if length m = 0 then ''application/octet-stream'' else split_on (CHR '';'') m ! 0)"

definition object_headers :: "'s call \<Rightarrow> blob \<Rightarrow> string \<Rightarrow> (string \<times> string) list" where
  "object_headers C blob nm =
     [(''ETag'', ETag (hash_Hex (ca_encode C) (bl_check_sum blob))),
      (''Last-Modified'', ca_timestamp C (bl_created blob)),
      (''Content-Type'', ExtensionsByType C nm),
      (''Cache-Control'', ''no-store, must-revalidate''), (''Expires'', ''0'')]"

definition range_headers :: "range \<Rightarrow> int \<Rightarrow> (string \<times> string) list" where
  "range_headers rng sz =
     [(''Content-Range'', ''bytes '' @ FormatInt (sint (StartOffset rng)) @ ''-'' @
         FormatInt (sint (EndOffset rng)) @ ''/'' @ FormatInt sz),
      (''Content-Length'', FormatInt (sint (EndOffset rng - StartOffset rng + 1)))]"

text \<open>The steps \<open>GetObject\<close> and \<open>HeadObject\<close> share: check out, find the blob.\<close>

definition find_object ::
  "'s call \<Rightarrow> string \<Rightarrow> string \<Rightarrow> string \<Rightarrow> string \<Rightarrow> string \<Rightarrow>
    ('s, repository \<times> 's adapter \<times> blob \<times> string) act" where
  "find_object C ownerName repositoryName p_Type p_RefName p_Path =
     then_do (operator_of C) (\<lambda>operator.
     then_do (get_owner ownerName) (\<lambda>owner.
     then_do (get_repository repositoryName owner) (\<lambda>repo.
     then_do (authorizeMember C (rp_id repo) (repo_perm C owner repo ''repo:ReadObject'')) (\<lambda>_.
     then_do (work_repo_of C operator repo) (\<lambda>(w, adapter).
     then_do (check_out C p_Type p_RefName w) (\<lambda>w.
     then_do (root_tree w) (\<lambda>(workTree, _).
     (case FindBlob (rp_id repo) (CleanPath p_Path) workTree of
        Inl e \<Rightarrow>
          if e = ErrPathNotFound then finish (w_BadRequest (''path '' @ p_Path @ '' not found''))
          else finish (w_Error e)
      | Inr (blob, nm) \<Rightarrow> give (repo, adapter, blob, nm)))))))))"

text \<open>
  For a range the status is written before the other headers are set, which are not sent any more.
\<close>

definition GetObject ::
  "'s call \<Rightarrow> string \<Rightarrow> string \<Rightarrow> string \<Rightarrow> string \<Rightarrow> string \<Rightarrow> string option \<Rightarrow> ('s, unit) act" where
  "GetObject C ownerName repositoryName p_Type p_RefName p_Path p_Range =
     then_do (find_object C ownerName repositoryName p_Type p_RefName p_Path) (\<lambda>(repo, adapter, blob, nm).
     then_do (ask (\<lambda>s. ReadBlob (ca_encode C) adapter (rp_namespace repo) blob p_Range (sv_blocks s))) (\<lambda>reader.
     then_do (or_error reader) (\<lambda>content.
     (let headers = object_headers C blob nm @
            [(''X-Content-Type-Options'', ''nosniff''), (''X-Frame-Options'', ''SAMEORIGIN''),
             (''Content-Security-Policy'', ''default-src '' @ [CHR 0x27] @ ''none'' @ [CHR 0x27]),
             (''Content-Disposition'', ''attachment; filename='' @ [CHR 0x22] @ nm @ [CHR 0x22])]
      in case p_Range of
           None \<Rightarrow> respond (200, Content ((''Content-Length'', FormatInt (bl_size blob)) # headers) content)
         | Some spec \<Rightarrow>
             (case ParseRange spec (word_of_int (bl_size blob)) of
                Inl _ \<Rightarrow> finish (w_String (Message ''Requested Range Not Satisfiable'') 416)
              | Inr rng \<Rightarrow> respond (206, Content (range_headers rng (bl_size blob)) content))))))"

definition HeadObject ::
  "'s call \<Rightarrow> string \<Rightarrow> string \<Rightarrow> string \<Rightarrow> string \<Rightarrow> string \<Rightarrow> string option \<Rightarrow> ('s, unit) act" where
  "HeadObject C ownerName repositoryName p_Type p_RefName p_Path p_Range =
     then_do (find_object C ownerName repositoryName p_Type p_RefName p_Path) (\<lambda>(repo, adapter, blob, nm).
     (let headers = object_headers C blob nm @ [(''Accept-Ranges'', ''bytes'')]
      in case p_Range of
           None \<Rightarrow> respond (200, Content (headers @ [(''Content-Length'', FormatInt (bl_size blob))]) [])
         | Some spec \<Rightarrow>
             (case ParseRange spec (word_of_int (bl_size blob)) of
                Inl e \<Rightarrow> finish (w_String (Message (''get blob range fail '' @ range_error_text e)) 416)
              | Inr rng \<Rightarrow> respond (206, Content (headers @ range_headers rng (bl_size blob)) []))))"


text \<open>
  The body of an upload. \<open>ul_media\<close> is the result of \<open>mime.ParseMediaType\<close>: the type and the
  parameter \<open>boundary\<close>; \<open>ul_parts\<close> what \<open>NextPart\<close> delivers one after the other: form name, type
  and bytes of a part, or an error; after the last one it is at the end.
\<close>

record upload =
  ul_ContentType :: string
  ul_media :: "(string \<times> string option) result"
  ul_body :: bytes
  ul_parts :: "(string \<times> string \<times> bytes) result list"
  ul_ContentLength :: int

fun find_content :: "(string \<times> string \<times> bytes) result list \<Rightarrow> (string \<times> bytes) option result" where
  "find_content [] = Inr None"
| "find_content (Inl e # parts) = Inl e"
| "find_content (Inr (nm, contentType, data) # parts) =
     (if nm = ''content'' then Inr (Some (contentType, data)) else find_content parts)"

text \<open>Without a boundary the code answers the error of the call before, which is nil there.\<close>

definition upload_reader :: "upload \<Rightarrow> (string \<times> bytes) result" where
  "upload_reader r =
     (case ul_media r of
        Inl e \<Rightarrow> Inl e
      | Inr (mediaType, boundary) \<Rightarrow>
          if mediaType = ''multipart/form-data'' then
            (case boundary of
               None \<Rightarrow> Inl nil_call
             | Some _ \<Rightarrow>
                 (case find_content (ul_parts r) of
                    Inl e \<Rightarrow> Inl e
                  | Inr None \<Rightarrow> Inl (ErrMsg ''multipart upload missing key content'')
                  | Inr (Some c) \<Rightarrow> Inr c))
          else Inr (ul_ContentType r, ul_body r))"

text \<open>
  The transaction of an upload. The tree is edited outside of it, through the repository that was
  opened before: its rows stay when the update is rolled back.
\<close>

definition upload_change ::
  "'s call \<Rightarrow> repository \<Rightarrow> wip option \<Rightarrow> string \<Rightarrow> blob \<Rightarrow> bool \<Rightarrow> work_state \<Rightarrow> db \<Rightarrow> unit result \<times> db" where
  "upload_change C repo curWip path blob isReplace workTree d =
     (let save = (\<lambda>(r, t).
            let d' = d\<lparr>db_trees := ws_objs t\<rparr> in
            case r of
              Inl e \<Rightarrow> (Inl e, d')
            | Inr _ \<Rightarrow>
                (case curWip of
                   None \<Rightarrow> (Inl nil_call, d')
                 | Some wip \<Rightarrow>
                     (Inr (), WipRepo_UpdateByID ((NewUpdateWipParams (ca_env C) (wp_id wip))
                        \<lparr>uw_tree := Some (vt_Hash (ws_root t))\<rparr>) d')))
      in case FindBlob (rp_id repo) path workTree of
           Inl e \<Rightarrow>
             if e \<noteq> ErrPathNotFound then (Inl e, d)
             else save (AddLeaf (ca_env C) (rp_id repo) path blob workTree)
         | Inr (oldData, _) \<Rightarrow>
             if bl_check_sum oldData = bl_check_sum blob then (Inr (), d)
             else if \<not> isReplace then (Inl (ErrCode 409), d)
             else save (ReplaceLeaf (ca_env C) (rp_id repo) path blob workTree))"

definition UploadObject ::
  "'s call \<Rightarrow> string \<Rightarrow> string \<Rightarrow> upload \<Rightarrow> string \<Rightarrow> string \<Rightarrow> bool option \<Rightarrow> ('s, unit) act" where
  "UploadObject C ownerName repositoryName r p_RefName p_Path p_IsReplace =
     then_do (get_owner ownerName) (\<lambda>owner.
     then_do (get_repository repositoryName owner) (\<lambda>repo.
     then_do (authorizeMember C (rp_id repo) (repo_perm C owner repo ''repo:ReadObject'')) (\<lambda>_.
     then_do (or_error (upload_reader r)) (\<lambda>(contentType, body).
     (case ValidateObjectPath p_Path of
        Some e \<Rightarrow> finish (w_BadRequest (name_error_text e))
      | None \<Rightarrow>
     then_do (operator_of C) (\<lambda>operator.
     then_do (work_repo_of C operator repo) (\<lambda>(w, adapter).
     then_do (check_out C InWip p_RefName w) (\<lambda>w.
     then_do (root_tree w) (\<lambda>(workTree, w).
     then_do (ask (\<lambda>s. WriteBlob (ca_env C) (ca_encode C) adapter (rp_namespace repo) (rp_id repo) body
       (ul_ContentLength r) DefaultLeafProperty (sv_blocks s))) (\<lambda>(written, blocks).
     then_do (set_blocks blocks) (\<lambda>_.
     then_do (or_error written) (\<lambda>blob.
     (let path = CleanPath p_Path in
     then_do (on_db (upload_change C repo (CurWip w) path blob (bool_value p_IsReplace) workTree)) (\<lambda>_.
     respond (w_JSON (PObjectStats
       \<lparr>ao_Checksum = hash_Hex (ca_encode C) (bl_check_sum blob), ao_ContentType = contentType,
        ao_Mtime = env_now (ca_env C) div 1000000000, ao_Path = path, ao_PathMode = Regular,
        ao_SizeBytes = bl_size blob\<rparr>) (Some 201))))))))))))))))"

definition GetFiles ::
  "'s call \<Rightarrow> string \<Rightarrow> string \<Rightarrow> string \<Rightarrow> string \<Rightarrow> string option \<Rightarrow> ('s, unit) act" where
  "GetFiles C ownerName repositoryName p_Type p_RefName p_Pattern =
     then_do (get_owner ownerName) (\<lambda>owner.
     then_do (get_repository repositoryName owner) (\<lambda>repo.
     then_do (authorizeMember C (rp_id repo) (repo_perm C owner repo ''repo:ListObjects'')) (\<lambda>_.
     then_do (operator_of C) (\<lambda>operator.
     then_do (work_repo_of C operator repo) (\<lambda>(w, _).
     then_do (check_out C p_Type p_RefName w) (\<lambda>w.
     then_do (root_tree w) (\<lambda>(workTree, _).
     then_do (get_db_opt (\<lambda>_. map_option (\<lambda>(r, m). case r of Inl e \<Rightarrow> Inl e | Inr _ \<Rightarrow> Inr m)
       (GetTreeManifest (ca_glob C) (rp_id repo) (string_value p_Pattern) workTree))) (\<lambda>treeManifest.
     respond (w_JSON (PFiles (tm_files treeManifest)) None)))))))))"

subsection \<open>merge_request_ctl.go\<close>

definition NewGetMergeRequestParams :: get_mr_params where
  "NewGetMergeRequestParams = \<lparr>gm_id = uuid_Nil, gm_sequence = None, gm_target_repo = uuid_Nil,
     gm_target_branch = uuid_Nil, gm_source_branch = uuid_Nil, gm_state = None\<rparr>"

definition NewUpdateMergeRequestParams :: "env \<Rightarrow> uuid \<Rightarrow> nat \<Rightarrow> update_mr_params" where
  "NewUpdateMergeRequestParams E repo sq =
     \<lparr>um_sequence = sq, um_target_repo = repo, um_time = env_now E, um_title = None, um_description = None,
      um_state = None\<rparr>"

definition ListMergeRequests ::
  "'s call \<Rightarrow> string \<Rightarrow> string \<Rightarrow> int option \<Rightarrow> int option \<Rightarrow> int option \<Rightarrow> ('s, unit) act" where
  "ListMergeRequests C ownerName repositoryName p_State p_After p_Amount =
     then_do (get_owner ownerName) (\<lambda>owner.
     then_do (get_repository repositoryName owner) (\<lambda>repo.
     then_do (authorizeMember C (rp_id repo) (repo_perm C owner repo ''repo:ListMergeRequest'')) (\<lambda>_.
     then_do (ask_db (MergeRequestRepo_List
       \<lparr>lm_after = map_option from_UnixMilli p_After, lm_amount = page_amount p_Amount,
        lm_target_repo = rp_id repo, lm_state = p_State\<rparr>)) (\<lambda>(mrs, hasMore).
     (let results = map mrToListDto mrs
      in respond (w_JSON (PMergeRequests (PaginationFor hasMore results (\<lambda>m. FormatInt (amr_UpdatedAt m))) results)
           None))))))"

text \<open>The state of a merge request: check out the source, compare with the target.\<close>

definition reply_merge_state ::
  "'s call \<Rightarrow> repository \<Rightarrow> work_repo \<Rightarrow> merge_request \<Rightarrow> branch \<Rightarrow> branch \<Rightarrow> int option \<Rightarrow> ('s, unit) act" where
  "reply_merge_state C repo w mr sourceBranch targetBranch code =
     then_do (check_out C InBranch (br_name sourceBranch) w) (\<lambda>w.
     then_do (get_db_opt (GetMergeState (ca_env C) (ca_encode C) (ca_ctx C) (br_commit targetBranch) w)) (\<lambda>changePairs.
     then_do (get_db (\<lambda>d. changePairToDTO (ca_encode C) (noders_of repo d) changePairs)) (\<lambda>changes.
     respond (w_JSON (PMergeRequest (mrToFullDto mr changes)) code))))"

definition CreateMergeRequest ::
  "'s call \<Rightarrow> string \<Rightarrow> string \<Rightarrow> string \<Rightarrow> string \<Rightarrow> string \<Rightarrow> string option \<Rightarrow> ('s, unit) act" where
  "CreateMergeRequest C ownerName repositoryName body_SourceBranchName body_TargetBranchName body_Title body_Description =
     then_do (operator_of C) (\<lambda>operator.
     then_do (get_owner ownerName) (\<lambda>owner.
     then_do (get_repository repositoryName owner) (\<lambda>repo.
     then_do (authorizeMember C (rp_id repo) (repo_perm C owner repo ''repo:CreateMergeRequest'')) (\<lambda>_.
     if body_SourceBranchName = body_TargetBranchName
     then finish (w_BadRequest (''source branch name '' @ body_SourceBranchName @ '' and target branch name '' @
            body_SourceBranchName @ '' can not be same''))
     else
     then_do (get_ref repo body_SourceBranchName) (\<lambda>sourceBranch.
     then_do (get_ref repo body_TargetBranchName) (\<lambda>targetBranch.
     then_do (ask_db (MergeRequestRepo_Get (NewGetMergeRequestParams\<lparr>gm_target_repo := rp_id repo,
       gm_target_branch := br_id targetBranch, gm_source_branch := br_id sourceBranch,
       gm_state := Some MergeStateInit\<rparr>))) (\<lambda>old.
     then_do (case old of
         Inr _ \<Rightarrow> finish (w_BadRequest (''repo '' @ repositoryName @ '' merge request between '' @
           body_SourceBranchName @ '' and '' @ body_TargetBranchName @ '' already exists''))
       | Inl e \<Rightarrow> if e \<noteq> ErrNotFound then finish (w_Error e) else give ()) (\<lambda>_.
     then_do (on_db (MergeRequestRepo_Insert
       \<lparr>mr_id = uuid_Nil, mr_sequence = 0, mr_source_repo = rp_id repo, mr_target_repo = rp_id repo,
        mr_target_branch = br_id targetBranch, mr_source_branch = br_id sourceBranch, mr_title = body_Title,
        mr_state = MergeStateInit, mr_description = body_Description, mr_author = us_id operator,
        mr_created = env_now (ca_env C), mr_updated = env_now (ca_env C)\<rparr>)) (\<lambda>mrModel.
     then_do (work_repo_of C operator repo) (\<lambda>(w, _).
     reply_merge_state C repo w mrModel sourceBranch targetBranch (Some 201)))))))))))"

definition get_mr :: "repository \<Rightarrow> nat \<Rightarrow> ('s, merge_request) act" where
  "get_mr repo mrSeq =
     get_db (MergeRequestRepo_Get (NewGetMergeRequestParams\<lparr>gm_target_repo := rp_id repo, gm_sequence := Some mrSeq\<rparr>))"

definition get_branch_by_id :: "uuid \<Rightarrow> db \<Rightarrow> branch result" where
  "get_branch_by_id i d = BranchRepo_Get (NewGetBranchParams\<lparr>gb_id := i\<rparr>) d"

definition GetMergeRequest :: "'s call \<Rightarrow> string \<Rightarrow> string \<Rightarrow> nat \<Rightarrow> ('s, unit) act" where
  "GetMergeRequest C ownerName repositoryName mrSeq =
     then_do (operator_of C) (\<lambda>operator.
     then_do (get_owner ownerName) (\<lambda>owner.
     then_do (get_repository repositoryName owner) (\<lambda>repo.
     then_do (authorizeMember C (rp_id repo) (repo_perm C owner repo ''repo:ReadMergeRequest'')) (\<lambda>_.
     then_do (work_repo_of C operator repo) (\<lambda>(w, _).
     then_do (get_mr repo mrSeq) (\<lambda>mergeRequest.
     then_do (get_db (get_branch_by_id (mr_source_branch mergeRequest))) (\<lambda>sourceBranch.
     then_do (get_db (get_branch_by_id (mr_target_branch mergeRequest))) (\<lambda>targetBranch.
     reply_merge_state C repo w mergeRequest sourceBranch targetBranch None))))))))"

definition UpdateMergeRequest ::
  "'s call \<Rightarrow> string \<Rightarrow> string \<Rightarrow> nat \<Rightarrow> string option \<Rightarrow> string option \<Rightarrow> int option \<Rightarrow> ('s, unit) act" where
  "UpdateMergeRequest C ownerName repositoryName mrSeq body_Title body_Description body_Status =
     then_do (get_owner ownerName) (\<lambda>owner.
     then_do (get_repository repositoryName owner) (\<lambda>repo.
     then_do (authorizeMember C (rp_id repo) (repo_perm C owner repo ''repo:UpdateMergeRequest'')) (\<lambda>_.
     then_do (on_db (\<lambda>d. (Inr (), MergeRequestRepo_UpdateByID ((NewUpdateMergeRequestParams (ca_env C) (rp_id repo) mrSeq)
         \<lparr>um_title := body_Title, um_description := body_Description, um_state := body_Status\<rparr>) d))) (\<lambda>_.
     respond w_OK))))"

text \<open>The body of the transaction of \<open>Merge\<close>; an error rolls everything back.\<close>

definition merge_transaction ::
  "'s call \<Rightarrow> user \<Rightarrow> repository \<Rightarrow> merge_request \<Rightarrow> string \<Rightarrow> (string \<Rightarrow> string option) \<Rightarrow> db \<Rightarrow>
    (commit result \<times> db) option" where
  "merge_transaction C operator repo mergeRequest msg resolve d =
     (let fail = (\<lambda>e. Some (Inl e, d)) in
      case NewWorkRepositoryFromConfig C operator repo of
        Inl e \<Rightarrow> fail e
      | Inr (w, _) \<Rightarrow>
      (case get_branch_by_id (mr_source_branch mergeRequest) d of
        Inl e \<Rightarrow> fail e
      | Inr sourceBranch \<Rightarrow>
      (case get_branch_by_id (mr_target_branch mergeRequest) d of
        Inl e \<Rightarrow> fail e
      | Inr targetBranch \<Rightarrow>
      (case CheckOut (ca_decode C) InBranch (br_name targetBranch) d w of
        (Inl e, _) \<Rightarrow> fail e
      | (Inr _, w) \<Rightarrow>
      (case Merge (ca_env C) (ca_encode C) (ca_ctx C) (br_commit sourceBranch) msg
          (Some (ResolveFromSelector (noders_of repo d) resolve)) w d of
        None \<Rightarrow> None
      | Some (Inl e, _) \<Rightarrow> fail e
      | Some (Inr commit, d') \<Rightarrow>
          Some (Inr commit, MergeRequestRepo_UpdateByID
            ((NewUpdateMergeRequestParams (ca_env C) (rp_id repo) (mr_sequence mergeRequest))
              \<lparr>um_state := Some MergeStateMerged\<rparr>) d'))))))"

definition Merge_handler ::
  "'s call \<Rightarrow> string \<Rightarrow> string \<Rightarrow> nat \<Rightarrow> string \<Rightarrow> (string \<Rightarrow> string option) option \<Rightarrow> ('s, unit) act" where
  "Merge_handler C ownerName repositoryName mrSeq body_Msg body_ConflictResolve =
     then_do (operator_of C) (\<lambda>operator.
     then_do (get_owner ownerName) (\<lambda>owner.
     then_do (get_repository repositoryName owner) (\<lambda>repo.
     then_do (authorizeMember C (rp_id repo) (repo_perm C owner repo ''repo:MergeMergeRequest'')) (\<lambda>_.
     then_do (get_mr repo mrSeq) (\<lambda>mergeRequest.
     then_do (on_db_opt (merge_transaction C operator repo mergeRequest body_Msg
       (case body_ConflictResolve of None \<Rightarrow> (\<lambda>_. None) | Some m \<Rightarrow> m))) (\<lambda>commit.
     respond (w_JSON (PCommit (commitToDto (ca_encode C) commit)) None)))))))"

end
