(* ===== verification/Tokens.thy ===== *)
theory Tokens
  imports Handlers
begin

section \<open>Tokens and secrets: auth/token.go, auth/types.go, auth/crypt\<close>

text \<open>
  A token carries claims. The package jwt is the record \<open>jwt_env\<close>: signing, parsing at a time, which
  looks whether the claims have expired, with a function that chooses the key by the signing method,
  and validation of claims at a time; the session store
  and the configuration of the server are fields of it too. \<open>NaclSecretStore\<close> encrypts with the
  packages scrypt and secretbox, which are the record \<open>nacl_env\<close>.
\<close>

record claims =
  cl_id :: string
  cl_aud :: string
  cl_sub :: string
  cl_iat :: int
  cl_exp :: int

record jwt_env =
  jw_NewString :: string
  jw_SignedString :: "bytes \<Rightarrow> claims \<Rightarrow> string result"
  jw_ParseWithClaims :: "time \<Rightarrow> string \<Rightarrow> (bool \<times> string \<Rightarrow> bytes result) \<Rightarrow> (claims \<times> bool) result"
  jw_Validate :: "string \<Rightarrow> time \<Rightarrow> claims \<Rightarrow> unit result"
  jw_hex_decode :: "string \<Rightarrow> bytes result"
  jw_SecretKey :: string
  jw_save_session :: "string \<Rightarrow> bool"

definition ExpirationDuration :: time where "ExpirationDuration = 3600000000000"
definition LoginAudience :: string where "LoginAudience = ''login''"

definition ErrInvalidToken :: error where "ErrInvalidToken = ErrMsg ''invalid token''"

definition GenerateJWTLogin :: "jwt_env \<Rightarrow> bytes \<Rightarrow> string \<Rightarrow> time \<Rightarrow> time \<Rightarrow> string result" where
  "GenerateJWTLogin J secret userID issuedAt expiresAt =
     jw_SignedString J secret
       \<lparr>cl_id = jw_NewString J, cl_aud = LoginAudience, cl_sub = userID, cl_iat = time_Unix issuedAt,
        cl_exp = time_Unix expiresAt\<rparr>"

text \<open>The key function gets whether the method is one of HMAC, and its name.\<close>

definition VerifyToken :: "jwt_env \<Rightarrow> bytes \<Rightarrow> time \<Rightarrow> string \<Rightarrow> claims result" where
  "VerifyToken J secret now tokenString =
     (case jw_ParseWithClaims J now tokenString
         (\<lambda>(isHMAC, alg). if \<not> isHMAC then Inl (ErrMsg (''unexpected signing method: '' @ alg)) else Inr secret) of
        Inl _ \<Rightarrow> Inl ErrInvalidToken
      | Inr (claims, valid) \<Rightarrow> if \<not> valid then Inl ErrInvalidToken else Inr claims)"

subsection \<open>Encrypted secrets\<close>

record nacl_env =
  nc_Key :: "bytes \<Rightarrow> bytes \<Rightarrow> bytes result"
  nc_Seal :: "bytes \<Rightarrow> bytes \<Rightarrow> bytes \<Rightarrow> bytes"
  nc_Open :: "bytes \<Rightarrow> bytes \<Rightarrow> bytes \<Rightarrow> bytes option"

definition KeySaltBytes :: nat where "KeySaltBytes = 8"
definition KeySizeBytes :: nat where "KeySizeBytes = 32"
definition NonceSizeBytes :: nat where "NonceSizeBytes = 24"

text \<open>\<open>copy\<close> into an array of \<open>n\<close> zero bytes.\<close>

definition copy_array :: "nat \<Rightarrow> bytes \<Rightarrow> bytes" where
  "copy_array n src = take n src @ replicate (n - length src) (CHR 0x00)"

definition kdf :: "nacl_env \<Rightarrow> bytes \<Rightarrow> bytes \<Rightarrow> (bytes \<times> bytes) result" where
  "kdf N secret storedSalt =
     (let salt = copy_array KeySaltBytes storedSalt in
      case nc_Key N secret salt of
        Inl e \<Rightarrow> Inl e
      | Inr keySlice \<Rightarrow> Inr (copy_array KeySizeBytes keySlice, salt))"

text \<open>\<open>fresh_salt\<close> and \<open>nonce\<close> are the random bytes read.\<close>

definition Encrypt :: "nacl_env \<Rightarrow> bytes \<Rightarrow> bytes \<Rightarrow> bytes \<Rightarrow> bytes \<Rightarrow> bytes result" where
  "Encrypt N secret fresh_salt nonce data =
     (case kdf N secret fresh_salt of
        Inl e \<Rightarrow> Inl e
      | Inr (key, salt) \<Rightarrow> Inr (salt @ nonce @ nc_Seal N data nonce key))"

text \<open>A slice beyond the end panics.\<close>

definition Decrypt :: "nacl_env \<Rightarrow> bytes \<Rightarrow> bytes \<Rightarrow> bytes result" where
  "Decrypt N secret encrypted =
     (if length encrypted < KeySaltBytes then Inl (Panic ''slice bounds out of range'')
      else
        (case kdf N secret (take KeySaltBytes encrypted) of
           Inl e \<Rightarrow> Inl e
         | Inr (key, _) \<Rightarrow>
             if length encrypted < KeySaltBytes + NonceSizeBytes then Inl (Panic ''slice bounds out of range'')
             else
               (let decryptNonce = take NonceSizeBytes (drop KeySaltBytes encrypted) in
                case nc_Open N (drop (KeySaltBytes + NonceSizeBytes) encrypted) decryptNonce key of
                  None \<Rightarrow> Inl (ErrMsg ''could not decrypt value'')
                | Some decrypted \<Rightarrow> Inr decrypted)))"

lemma Decrypt_Encrypt:
  assumes "Encrypt N secret salt nonce data = Inr encrypted" "length salt = KeySaltBytes" "length nonce = NonceSizeBytes"
    and "\<And>key. nc_Open N (nc_Seal N data nonce key) nonce key = Some data"
  shows "Decrypt N secret encrypted = Inr data"
  using assms by (auto simp: Encrypt_def Decrypt_def kdf_def copy_array_def Let_def KeySaltBytes_def
      NonceSizeBytes_def split: sum.splits)

end
