(* ===== verification/Repo_Controllers.thy ===== *)
theory Repo_Controllers
  imports Wip_Controllers Tokens
begin

section \<open>Repositories, users and access keys: controller/, models/aksk.go, archive_repo.go\<close>

text \<open>
  The handlers of repository_ctl.go, user_ctl.go and aksk_ctl.go, the table of access keys and the
  zip archive of a tree. A zip file is the list of its entries in the order they are written; the
  bytes of the file are the argument \<open>zipWriter\<close>, of the package archive/zip. \<open>ArchiveCar\<close> is not
  called by the program and not modelled. Tokens are made by the package jwt.
\<close>

subsection \<open>models/aksk.go\<close>

record get_aksk_params =
  gk_user :: uuid
  gk_id :: uuid
  gk_access_key :: "string option"

definition AkskRepo_Insert :: "uuid \<Rightarrow> aksk \<Rightarrow> aksk list \<Rightarrow> aksk result \<times> aksk list" where
  "AkskRepo_Insert fresh a t =
     (if aks_secret_key a \<in> set (map aks_secret_key t) then (Inl ErrDuplicate, t)
      else tbl_insert2 aks_id aks_access_key (if aks_id a = uuid_Nil then a\<lparr>aks_id := fresh\<rparr> else a) t)"

definition aksk_conds :: "get_aksk_params \<Rightarrow> aksk conds" where
  "aksk_conds params =
     where_id (gk_id params) aks_id @ where_id (gk_user params) aks_user @
     where_opt (gk_access_key params) aks_access_key"

definition AkskRepo_Get :: "get_aksk_params \<Rightarrow> aksk list \<Rightarrow> aksk result" where
  "AkskRepo_Get params t = q_select_one (aksk_conds params) t"

definition AkskRepo_List :: "uuid \<Rightarrow> time option \<Rightarrow> int \<Rightarrow> aksk list \<Rightarrow> aksk list \<times> bool" where
  "AkskRepo_List userID after amount t =
     (let rows = q_select (where_id userID aks_user @
            (case after of None \<Rightarrow> [] | Some x \<Rightarrow> [\<lambda>a. aks_created a < x])) t;
          aksks = q_limit amount (sort_key (\<lambda>a. - aks_created a) rows)
      in (aksks, int (length aksks) = amount))"

definition AkskRepo_Delete :: "get_aksk_params \<Rightarrow> aksk list \<Rightarrow> nat result \<times> aksk list" where
  "AkskRepo_Delete params t = q_delete (aksk_conds params) t"

definition on_aksks :: "(aksk list \<Rightarrow> 'a result \<times> aksk list) \<Rightarrow> ('s, 'a) act" where
  "on_aksks f =
     then_do (ask (\<lambda>s. f (sv_aksks s))) (\<lambda>(r, t).
     then_do (\<lambda>s. Some (Some (), s\<lparr>sv_aksks := t\<rparr>)) (\<lambda>_. or_error r))"

subsection \<open>aksk_ctl.go\<close>

definition akskToDto :: "aksk \<Rightarrow> api_aksk" where
  "akskToDto a =
     \<lparr>ak_AccessKey = aks_access_key a, ak_CreatedAt = UnixMilli (aks_created a), ak_Description = aks_description a,
      ak_Id = aks_id a, ak_SecretKey = aks_secret_key a, ak_UpdatedAt = UnixMilli (aks_updated a)\<rparr>"

definition akskToSafeDto :: "aksk \<Rightarrow> api_safe_aksk" where
  "akskToSafeDto a =
     \<lparr>ask_AccessKey = aks_access_key a, ask_CreatedAt = UnixMilli (aks_created a), ask_Description = aks_description a,
      ask_Id = aks_id a, ask_UpdatedAt = UnixMilli (aks_updated a)\<rparr>"

definition aksk_perm :: "'s call \<Rightarrow> user \<Rightarrow> string \<Rightarrow> node" where
  "aksk_perm C operator action = user_perm action (UserAkskArn (ca_us C (us_id operator)))"

definition CreateAksk :: "'s call \<Rightarrow> string option \<Rightarrow> ('s, unit) act" where
  "CreateAksk C p_Description =
     then_do (operator_of C) (\<lambda>operator.
     then_do (authorize C (aksk_perm C operator ''user:CreateCredentials'')) (\<lambda>_.
     then_do (on_aksks (AkskRepo_Insert (ca_uuid C)
       \<lparr>aks_id = uuid_Nil, aks_user = us_id operator, aks_access_key = fst (ca_aksk C), aks_secret_key = snd (ca_aksk C),
        aks_description = p_Description, aks_created = env_now (ca_env C), aks_updated = env_now (ca_env C)\<rparr>)) (\<lambda>aksk.
     respond (w_JSON (PAksk (akskToDto aksk)) (Some 201)))))"

definition aksk_params :: "user \<Rightarrow> uuid option \<Rightarrow> string option \<Rightarrow> get_aksk_params" where
  "aksk_params operator p_Id p_AccessKey =
     \<lparr>gk_user = us_id operator, gk_id = (case p_Id of None \<Rightarrow> uuid_Nil | Some i \<Rightarrow> i), gk_access_key = p_AccessKey\<rparr>"

definition GetAksk :: "'s call \<Rightarrow> uuid option \<Rightarrow> string option \<Rightarrow> ('s, unit) act" where
  "GetAksk C p_Id p_AccessKey =
     then_do (operator_of C) (\<lambda>operator.
     then_do (authorize C (aksk_perm C operator ''user:ReadCredentials'')) (\<lambda>_.
     then_do (ask (\<lambda>s. AkskRepo_Get (aksk_params operator p_Id p_AccessKey) (sv_aksks s))) (\<lambda>r.
     then_do (or_error r) (\<lambda>aksk.
     respond (w_JSON (PSafeAksk (akskToSafeDto aksk)) None)))))"

definition DeleteAksk :: "'s call \<Rightarrow> uuid option \<Rightarrow> string option \<Rightarrow> ('s, unit) act" where
  "DeleteAksk C p_Id p_AccessKey =
     then_do (operator_of C) (\<lambda>operator.
     then_do (authorize C (aksk_perm C operator ''user:DeleteCredentials'')) (\<lambda>_.
     then_do (on_aksks (AkskRepo_Delete (aksk_params operator p_Id p_AccessKey))) (\<lambda>_.
     respond w_OK)))"

definition ListAksks :: "'s call \<Rightarrow> int option \<Rightarrow> int option \<Rightarrow> ('s, unit) act" where
  "ListAksks C p_After p_Amount =
     then_do (operator_of C) (\<lambda>operator.
     then_do (authorize C (aksk_perm C operator ''user:ListCredentials'')) (\<lambda>_.
     then_do (ask (\<lambda>s. AkskRepo_List (us_id operator) (map_option from_UnixMilli p_After) (int_value p_Amount)
       (sv_aksks s))) (\<lambda>(aksks, hasMore).
     (let results = map akskToSafeDto aksks
      in respond (w_JSON (PAksks (PaginationFor hasMore results (\<lambda>a. FormatInt (ask_UpdatedAt a))) results) None)))))"

subsection \<open>user_ctl.go\<close>

definition AuthenticateUser :: "(string \<Rightarrow> string \<Rightarrow> bool) \<Rightarrow> string \<Rightarrow> string \<Rightarrow> db \<Rightarrow> user result" where
  "AuthenticateUser compare nm password d =
     (case GetEPByName nm d of
        Inl e \<Rightarrow> Inl e
      | Inr ep \<Rightarrow>
          if \<not> compare ep password then Inl (ErrMsg ''crypto/bcrypt: hashedPassword is not the hash of the given password'')
          else UserRepo_Get (NewGetUserParams\<lparr>gu_name := Some nm\<rparr>) d)"

definition generateAndRespToken :: "jwt_env \<Rightarrow> 's call \<Rightarrow> string \<Rightarrow> ('s, unit) act" where
  "generateAndRespToken J C nm =
     (let loginTime = env_now (ca_env C); expires = loginTime + ExpirationDuration in
      then_do (or_error (jw_hex_decode J (jw_SecretKey J))) (\<lambda>secretKey.
      then_do (or_error (GenerateJWTLogin J secretKey nm loginTime expires)) (\<lambda>tokenString.
      if \<not> jw_save_session J tokenString then finish (w_Code 500)
      else respond (w_JSON (PToken \<lparr>atk_Token = tokenString, atk_TokenExpiration = time_Unix expires\<rparr>) None))))"

definition Login ::
  "(string \<Rightarrow> string \<Rightarrow> bool) \<Rightarrow> jwt_env \<Rightarrow> 's call \<Rightarrow> string \<Rightarrow> string \<Rightarrow> ('s, unit) act" where
  "Login compare J C body_Name body_Password =
     then_do (ask_db (AuthenticateUser compare body_Name body_Password)) (\<lambda>r.
     (case r of
        Inl e \<Rightarrow> finish (w_Code 401)
      | Inr user \<Rightarrow> generateAndRespToken J C (us_name user)))"

definition RefreshToken :: "jwt_env \<Rightarrow> 's call \<Rightarrow> ('s, unit) act" where
  "RefreshToken J C =
     then_do (operator_of C) (\<lambda>operator. generateAndRespToken J C (us_name operator))"

text \<open>
  The arguments are the results of \<open>SessionStore.Get\<close> and \<open>session.Save\<close>. When the session cannot
  be saved the code answers the error of the call before, which is nil there.
\<close>

definition Logout :: "unit result \<Rightarrow> unit result \<Rightarrow> ('s, unit) act" where
  "Logout session saved =
     then_do (or_error session) (\<lambda>_.
     (case saved of
        Inl _ \<Rightarrow> finish (w_Error nil_call)
      | Inr _ \<Rightarrow> respond (307, Message ''/'')))"

text \<open>The zero value of \<open>time.Time\<close>, the first of January of year 1.\<close>

definition zero_time :: time where "zero_time = -62135596800000000000"

definition register_transaction :: "'s call \<Rightarrow> user \<Rightarrow> access_db \<Rightarrow> user result \<times> access_db" where
  "register_transaction C user =
     bind_st (insert_user user) (\<lambda>insertUser.
     bind_st (lift_st (GroupRepo_Get (NewGetGroupParams\<lparr>gg_name := Some ''UserOwnAccess''\<rparr>))) (\<lambda>userOwnGroup.
     bind_st (UserGroupRepo_Insert \<lparr>ug_id = uuid_Nil, ug_user = us_id insertUser, ug_group = gp_id userOwnGroup,
         ug_created = env_now (ca_env C), ug_updated = env_now (ca_env C)\<rparr>) (\<lambda>_.
     return_st insertUser)))"

text \<open>There is no return after the reply to a name or address that is taken.\<close>

definition Register :: "'s call \<Rightarrow> string \<Rightarrow> string \<Rightarrow> string \<Rightarrow> ('s, unit) act" where
  "Register C body_Name body_Email body_Password =
     (case ValidateUsername body_Name of
        Some e \<Rightarrow> finish (w_BadRequest (name_error_text e))
      | None \<Rightarrow>
     then_do (ask_db (UserRepo_Count (Some body_Name) None)) (\<lambda>count1.
     then_do (ask_db (UserRepo_Count None (Some body_Email))) (\<lambda>count2.
     then_do (when_do (count1 + count2 > 0)
       (respond (w_BadRequest (''username '' @ body_Name @ '' or email '' @ body_Email @ '' not found '')))) (\<lambda>_.
     then_do (or_error (ca_hash_password C body_Password)) (\<lambda>password.
     then_do (on_data (access_transaction (register_transaction C
       \<lparr>us_id = uuid_Nil, us_name = body_Name, us_email = body_Email, us_encrypted_password = password,
        us_current_sign_in_at = zero_time, us_last_sign_in_at = zero_time, us_current_sign_in_ip = [],
        us_last_sign_in_ip = [], us_created = env_now (ca_env C), us_updated = env_now (ca_env C)\<rparr>))) (\<lambda>insertUser.
     respond (w_JSON (PUser (userInfoToDto insertUser)) (Some 201))))))))"

definition list_repositories_perm :: "'s call \<Rightarrow> user \<Rightarrow> node" where
  "list_repositories_perm C u = user_perm ''repo:ListRepositories'' (RepoUArn (ca_us C (us_id u)))"

definition GetUserInfo :: "'s call \<Rightarrow> ('s, unit) act" where
  "GetUserInfo C =
     (case GetOperator C of
        Inl _ \<Rightarrow> finish (w_Code 401)
      | Inr user \<Rightarrow>
          then_do (authorize C (list_repositories_perm C user)) (\<lambda>_.
          respond (w_JSON (PUser (userInfoToDto user)) None)))"


subsection \<open>repository_ctl.go: lists and single repositories\<close>

definition NewListRepoParams :: list_repo_params where
  "NewListRepoParams =
     \<lparr>lr_creator = uuid_Nil, lr_owner = uuid_Nil, lr_name = None, lr_match = ExactMatch, lr_visible = None,
      lr_after = None, lr_amount = 0\<rparr>"

text \<open>The rest of the three list handlers, from the prefix on.\<close>

definition reply_repositories :: "list_params \<Rightarrow> list_repo_params \<Rightarrow> ('s, unit) act" where
  "reply_repositories p params =
     then_do (ask_db (RepositoryRepo_List (params\<lparr>lr_name := prefix_param (lp_Prefix p), lr_match := PrefixMatch,
       lr_after := map_option from_UnixMilli (lp_After p), lr_amount := page_amount (lp_Amount p)\<rparr>)))
       (\<lambda>(repositories, hasMore).
     (let results = map repositoryToDto repositories
      in respond (w_JSON (PRepositories (PaginationFor hasMore results (\<lambda>r. FormatInt (ar_UpdatedAt r))) results) None)))"

definition ListRepositoryOfAuthenticatedUser :: "'s call \<Rightarrow> list_params \<Rightarrow> ('s, unit) act" where
  "ListRepositoryOfAuthenticatedUser C p =
     then_do (operator_of C) (\<lambda>operator.
     then_do (authorize C (list_repositories_perm C operator)) (\<lambda>_.
     reply_repositories p (NewListRepoParams\<lparr>lr_owner := us_id operator\<rparr>)))"

definition ListRepository :: "'s call \<Rightarrow> string \<Rightarrow> list_params \<Rightarrow> ('s, unit) act" where
  "ListRepository C ownerName p =
     then_do (get_owner ownerName) (\<lambda>owner.
     then_do (authorize C (list_repositories_perm C owner)) (\<lambda>_.
     reply_repositories p (NewListRepoParams\<lparr>lr_owner := us_id owner\<rparr>)))"

definition ListPublicRepository :: "list_params \<Rightarrow> ('s, unit) act" where
  "ListPublicRepository p = reply_repositories p (NewListRepoParams\<lparr>lr_visible := Some True\<rparr>)"

definition DefaultBranchName :: string where "DefaultBranchName = ''main''"

text \<open>
  The type of the store, the namespace and the parameters of a new repository. \<open>ca_custom\<close> reads
  the JSON text of a configuration and delivers its type and the adapter that is built from it.
\<close>

definition storage_of :: "'s call \<Rightarrow> string \<Rightarrow> (bool \<times> string) + reply" where
  "storage_of C storageConfig =
     (if length storageConfig > 0 then
        (case ca_custom C storageConfig of
           Inl _ \<Rightarrow> Inr (w_BadRequest ''storage config not json format'')
         | Inr (blockstoreType, _) \<Rightarrow>
             if blockstoreType = ''local'' then Inr w_Forbidden
             else Inl (False, blockstoreType @ ''://'' @ ca_us C (ca_uuid C)))
      else Inl (True, fst (ca_public C) @ ''://'' @ ca_us C (ca_uuid C)))"

definition create_repository_transaction :: "branch \<Rightarrow> repository \<Rightarrow> db \<Rightarrow> repository result \<times> db" where
  "create_repository_transaction defaultRef repository d =
     (case BranchRepo_Insert defaultRef d of
        (Inl e, d1) \<Rightarrow> (Inl e, d1)
      | (Inr _, d1) \<Rightarrow> RepositoryRepo_Insert repository d1)"

definition CreateRepository ::
  "'s call \<Rightarrow> string \<Rightarrow> string option \<Rightarrow> bool option \<Rightarrow> string option \<Rightarrow> ('s, unit) act" where
  "CreateRepository C body_Name body_Description body_Visible body_BlockstoreConfig =
     (case ValidateRepoName body_Name of
        Some e \<Rightarrow> finish (w_BadRequest (name_error_text e))
      | None \<Rightarrow>
     then_do (operator_of C) (\<lambda>operator.
     then_do (authorize C (user_perm ''repo:CreateRepository'' (RepoUArn (ca_us C (us_id operator))))) (\<lambda>_.
     (let storageConfig = string_value body_BlockstoreConfig; now = env_now (ca_env C); repoID = ca_uuid C
      in case storage_of C storageConfig of
        Inr r \<Rightarrow> finish r
      | Inl (usePublicStorage, storageNamespace) \<Rightarrow>
     then_do (on_db (Transaction (create_repository_transaction
       \<lparr>br_id = uuid_Nil, br_repo = repoID, br_commit = [], br_name = DefaultBranchName, br_description = None,
        br_creator = us_id operator, br_created = now, br_updated = now\<rparr>
       \<lparr>rp_id = repoID, rp_name = body_Name, rp_owner = us_id operator, rp_HEAD = DefaultBranchName,
        rp_visible = bool_value body_Visible, rp_public_storage = usePublicStorage,
        rp_namespace = Some storageNamespace, rp_adapter_params = Some storageConfig,
        rp_description = body_Description, rp_creator = us_id operator, rp_created = now, rp_updated = now\<rparr>)))
       (\<lambda>createdRepo.
     respond (w_JSON (PRepository (repositoryToDto createdRepo)) (Some 201)))))))"

definition GetRepository :: "'s call \<Rightarrow> string \<Rightarrow> string \<Rightarrow> ('s, unit) act" where
  "GetRepository C ownerName repositoryName =
     then_do (get_owner ownerName) (\<lambda>owner.
     then_do (get_repository repositoryName owner) (\<lambda>repo.
     then_do (authorizeMember C (rp_id repo) (repo_perm C owner repo ''repo:ReadRepository'')) (\<lambda>_.
     respond (w_JSON (PRepository (repositoryToDto repo)) None))))"

definition UpdateRepository ::
  "'s call \<Rightarrow> string \<Rightarrow> string \<Rightarrow> string option \<Rightarrow> string option \<Rightarrow> ('s, unit) act" where
  "UpdateRepository C ownerName repositoryName body_Head body_Description =
     then_do (get_owner ownerName) (\<lambda>owner.
     then_do (get_repository repositoryName owner) (\<lambda>repo.
     then_do (authorizeMember C (rp_id repo) (repo_perm C owner repo ''repo:UpdateRepository'')) (\<lambda>_.
     then_do (case body_Head of None \<Rightarrow> give () | Some h \<Rightarrow> then_do (get_ref repo h) (\<lambda>_. give ())) (\<lambda>_.
     then_do (on_db (\<lambda>d. (Inr (), RepositoryRepo_UpdateByID
       \<lparr>ur_id = rp_id repo, ur_description = body_Description, ur_visible = None, ur_head = body_Head\<rparr> d))) (\<lambda>_.
     respond w_OK)))))"

definition ChangeVisible :: "'s call \<Rightarrow> string \<Rightarrow> string \<Rightarrow> bool \<Rightarrow> ('s, unit) act" where
  "ChangeVisible C ownerName repositoryName p_Visible =
     then_do (get_owner ownerName) (\<lambda>owner.
     then_do (get_repository repositoryName owner) (\<lambda>repo.
     then_do (authorizeMember C (rp_id repo) (repo_perm C owner repo ''repo:UpdateVisible'')) (\<lambda>_.
     then_do (on_db (\<lambda>d. (Inr (), RepositoryRepo_UpdateByID
       \<lparr>ur_id = rp_id repo, ur_description = None, ur_visible = Some p_Visible, ur_head = None\<rparr> d))) (\<lambda>_.
     respond w_OK))))"


subsection \<open>repository_ctl.go: deletion, commits and archives\<close>

text \<open>An operation on one of the tables within a transaction on the whole database.\<close>

definition in_db :: "(db \<Rightarrow> 'a result \<times> db) \<Rightarrow> access_db \<Rightarrow> 'a result \<times> access_db" where
  "in_db f d = (case f (ad_db d) of (r, d0) \<Rightarrow> (r, d\<lparr>ad_db := d0\<rparr>))"

definition delete_transaction :: "uuid \<Rightarrow> access_db \<Rightarrow> nat result \<times> access_db" where
  "delete_transaction repoID =
     bind_st (in_db (RepositoryRepo_Delete \<lparr>dr_id = repoID, dr_owner = uuid_Nil, dr_name = None\<rparr>)) (\<lambda>affectRows.
     if affectRows = 0 then (\<lambda>d. (Inl ErrNotFound, d))
     else
       bind_st (in_db (BranchRepo_Delete (NewDeleteBranchParams\<lparr>dbp_repo := repoID\<rparr>))) (\<lambda>_.
       bind_st (in_db (\<lambda>d. case CommitRepo_Delete repoID None (db_commits d) of
         (n, t) \<Rightarrow> (Inr n, d\<lparr>db_commits := t\<rparr>))) (\<lambda>_.
       bind_st (in_db (TagRepo_Delete uuid_Nil repoID)) (\<lambda>_.
       bind_st (in_db (\<lambda>d. case FileTreeRepo_Delete repoID None (db_trees d) of
         (n, t) \<Rightarrow> (Inr n, d\<lparr>db_trees := t\<rparr>))) (\<lambda>_.
       bind_st (in_db (WipRepo_Delete (NewGetWipParams\<lparr>gw_repo := repoID\<rparr>))) (\<lambda>_.
       MemberRepo_DeleteMember repoID uuid_Nil))))))"

text \<open>\<open>*repository.StorageNamespace\<close> panics when it is nil.\<close>

definition remove_namespace :: "'s adapter result \<Rightarrow> repository \<Rightarrow> ('s, unit) act" where
  "remove_namespace built repo =
     then_do (or_error built) (\<lambda>adapter.
     (case rp_namespace repo of
        None \<Rightarrow> finish (w_Error nil_call)
      | Some ns \<Rightarrow>
          then_do (ask (\<lambda>s. blk_RemoveNameSpace adapter ns (sv_blocks s))) (\<lambda>(r, b).
          then_do (set_blocks b) (\<lambda>_. or_error r))))"

definition DeleteRepository :: "'s call \<Rightarrow> string \<Rightarrow> string \<Rightarrow> bool option \<Rightarrow> ('s, unit) act" where
  "DeleteRepository C ownerName repositoryName p_IsCleanData =
     then_do (get_owner ownerName) (\<lambda>owner.
     then_do (get_repository repositoryName owner) (\<lambda>repo.
     then_do (authorizeMember C (rp_id repo) (repo_perm C owner repo ''repo:DeleteRepository'')) (\<lambda>_.
     then_do (on_data (access_transaction (delete_transaction (rp_id repo)))) (\<lambda>_.
     then_do
       (if rp_public_storage repo then remove_namespace (snd (ca_public C)) repo
        else if bool_value p_IsCleanData
        then remove_namespace (AdapterFromConfig C (string_value (rp_adapter_params repo))) repo
        else give ()) (\<lambda>_.
     respond w_OK)))))"

text \<open>
  The loop of \<open>GetCommitsInRef\<close> over the pre-order walk. A commit that is not older than
  \<open>after\<close> is left out; the commit after the last one wanted is fetched before the loop stops.
\<close>

partial_function (option) commits_loop ::
  "commit_store \<Rightarrow> time option \<Rightarrow> int option \<Rightarrow> pre_iter \<Rightarrow> commit list \<Rightarrow> commit list result option"
where
  "commits_loop S after amount it commits =
     (case pre_Next S it of
        (Inl e, _) \<Rightarrow> if e = EOF then Some (Inr commits) else Some (Inl e)
      | (Inr c, it') \<Rightarrow>
          if (case after of None \<Rightarrow> False | Some parseTime \<Rightarrow> sig_when (cm_committer c) + 1 > parseTime)
          then commits_loop S after amount it' commits
          else if (case amount of None \<Rightarrow> False | Some n \<Rightarrow> int (length commits) = n) then Some (Inr commits)
          else commits_loop S after amount it' (commits @ [c]))"

definition commits_from ::
  "(bytes \<Rightarrow> string) \<Rightarrow> uuid \<Rightarrow> commit \<Rightarrow> int option \<Rightarrow> int option \<Rightarrow> db \<Rightarrow> commit list result option" where
  "commits_from encode repo commit p_After p_Amount d =
     (let S = table_store encode repo (db_commits d)
      in commits_loop S (map_option from_UnixMilli p_After) p_Amount (NewCommitPreorderIter S commit {} []) [])"

definition GetCommitsInRef ::
  "'s call \<Rightarrow> string \<Rightarrow> string \<Rightarrow> string option \<Rightarrow> int option \<Rightarrow> int option \<Rightarrow> ('s, unit) act" where
  "GetCommitsInRef C ownerName repositoryName p_RefName p_After p_Amount =
     then_do (get_owner ownerName) (\<lambda>owner.
     then_do (get_repository repositoryName owner) (\<lambda>repo.
     then_do (authorizeMember C (rp_id repo) (repo_perm C owner repo ''repo:ReadCommit'')) (\<lambda>_.
     then_do (get_ref repo (case p_RefName of None \<Rightarrow> rp_HEAD repo | Some r \<Rightarrow> r)) (\<lambda>ref.
     if IsEmpty (br_commit ref) then respond (w_JSON (PCommits []) None)
     else
       then_do (get_commit_of repo (br_commit ref)) (\<lambda>commit.
       then_do (get_db_opt (commits_from (ca_encode C) (rp_id repo) commit p_After p_Amount)) (\<lambda>commits.
       respond (w_JSON (PCommits (map (commitToDto (ca_encode C)) commits)) None)))))))"

text \<open>\<open>ArchiveZip\<close>: an entry without contents is a directory.\<close>

type_synonym zip_entry = "string \<times> bytes option"

definition zip_fn :: "string \<Rightarrow> (blob \<Rightarrow> bytes result) \<Rightarrow> zip_entry list walk_fn" where
  "zip_fn rootPath getReader entry blob path written =
     (if te_is_dir entry then (Inr (), written @ [(path_Join [rootPath, path @ ''/''] @ ''/'', None)])
      else (case getReader (the blob) of
              Inl e \<Rightarrow> (Inl e, written)
            | Inr data \<Rightarrow> (Inr (), written @ [(path_Join [rootPath, path], Some data)])))"

definition ArchiveZip ::
  "uuid \<Rightarrow> string \<Rightarrow> (blob \<Rightarrow> bytes result) \<Rightarrow> work_state \<Rightarrow> zip_entry list result option" where
  "ArchiveZip repo rootPath getReader t =
     map_option (\<lambda>(r, written). case r of Inl e \<Rightarrow> Inl e | Inr _ \<Rightarrow> Inr written)
       (Walk repo (ws_objs t) (ws_root t) (zip_fn rootPath getReader) [(rootPath @ ''/'', None)])"

text \<open>Both archive types are zip files; \<open>zipWriter\<close> makes the bytes of the file.\<close>

definition Archive ::
  "(zip_entry list \<Rightarrow> bytes result) \<Rightarrow> (blob \<Rightarrow> bytes result) \<Rightarrow> string \<Rightarrow> work_repo \<Rightarrow> db \<Rightarrow> bytes result option" where
  "Archive zipWriter getReader archiveType w d =
     (case rootTree w d of
        (Inl e, _) \<Rightarrow> Some (Inl e)
      | (Inr t, w') \<Rightarrow>
          if archiveType \<noteq> ''zip'' \<and> archiveType \<noteq> ''car''
          then Some (Inl (ErrMsg (''unexpect archive type '' @ archiveType)))
          else map_option (\<lambda>r. case r of Inl e \<Rightarrow> Inl e | Inr entries \<Rightarrow> zipWriter entries)
            (ArchiveZip (repo_id w') (rp_name (wr_model w')) getReader t))"

definition GetArchive ::
  "(zip_entry list \<Rightarrow> bytes result) \<Rightarrow> 's call \<Rightarrow> string \<Rightarrow> string \<Rightarrow> string \<Rightarrow> string \<Rightarrow> string \<Rightarrow> ('s, unit) act" where
  "GetArchive zipWriter C ownerName repositoryName p_ArchiveType p_RefType p_RefName =
     then_do (get_owner ownerName) (\<lambda>owner.
     then_do (get_repository repositoryName owner) (\<lambda>repo.
     then_do (authorizeMember C (rp_id repo) (repo_perm C owner repo ''repo:ReadObject'')) (\<lambda>_.
     then_do (operator_of C) (\<lambda>operator.
     then_do (work_repo_of C operator repo) (\<lambda>(w, adapter).
     if p_RefType \<noteq> InBranch \<and> p_RefType \<noteq> InTag
     then finish (w_BadRequest (''archive ref type ('' @ p_RefType @ '') only allow branch and tag''))
     else
       then_do (check_out C p_RefType p_RefName w) (\<lambda>w.
       then_do (ask (\<lambda>s. Archive zipWriter
           (\<lambda>blob. ReadBlob (ca_encode C) adapter (rp_namespace repo) blob None (sv_blocks s)) p_ArchiveType w
           (ad_db (sv_data s)))) (\<lambda>r.
       then_do (or_stuck r) (\<lambda>r.
       then_do (or_error r) (\<lambda>content.
       then_do (respond (200, Content
         [(''Content-Length'', FormatInt (int (length content))), (''Content-Type'', ''application/octet-stream''),
          (''Content-Disposition'', ''attachment; filename='' @ [CHR 0x22] @ rp_name repo @ ''.'' @ p_ArchiveType @ [CHR 0x22])]
         content)) (\<lambda>_.
       respond w_OK))))))))))"

end
