(* ===== verification/Handler_Props.thy ===== *)
theory Handler_Props
  imports Repo_Controllers Merge_Base
begin

section \<open>What single handlers achieve\<close>

subsection \<open>Deleting a repository\<close>

lemma holds_one [simp]: "holds [c] = c"
  by (simp add: holds_def fun_eq_iff)

lemma q_delete_one: "q_delete [c] t = (Inr (length (filter c t)), filter (\<lambda>r. \<not> c r) t)"
  by (simp add: q_delete_def tbl_delete_def)

text \<open>
  C30: The transaction of \<open>DeleteRepository\<close> fails with \<open>ErrNotFound\<close> and changes nothing when there
  is no such repository. Otherwise it removes the repository and exactly its branches, commits,
  tags, trees, working copies and members; all other rows stay, and so do the merge requests of
  the repository.
\<close>

theorem delete_transaction_rows:
  assumes "rid \<noteq> uuid_Nil"
  shows "access_transaction (delete_transaction rid) d =
    (if list_ex (\<lambda>r. rp_id r = rid) (db_repos (ad_db d)) then
      (Inr (length (filter (\<lambda>m. mb_repo m = rid) (ad_members d))),
       d\<lparr>ad_db := (ad_db d)
           \<lparr>db_repos := filter (\<lambda>r. rp_id r \<noteq> rid) (db_repos (ad_db d)),
            db_branches := filter (\<lambda>b. br_repo b \<noteq> rid) (db_branches (ad_db d)),
            db_commits := filter (\<lambda>c. cm_repo c \<noteq> rid) (db_commits (ad_db d)),
            db_tags := filter (\<lambda>t. tg_repo t \<noteq> rid) (db_tags (ad_db d)),
            db_trees := filter (\<lambda>f. ft_repo f \<noteq> rid) (db_trees (ad_db d)),
            db_wips := filter (\<lambda>w. wp_repo w \<noteq> rid) (db_wips (ad_db d))\<rparr>,
         ad_members := filter (\<lambda>m. mb_repo m \<noteq> rid) (ad_members d)\<rparr>)
     else (Inl ErrNotFound, d))"
  using assms
  by (auto simp: access_transaction_def delete_transaction_def bind_st_def in_db_def RepositoryRepo_Delete_def
      BranchRepo_Delete_def NewDeleteBranchParams_def CommitRepo_Delete_def TagRepo_Delete_def FileTreeRepo_Delete_def
      WipRepo_Delete_def NewGetWipParams_def MemberRepo_DeleteMember_def where_id_def where_opt_def q_delete_one
      tbl_delete_def list_ex_iff filter_empty_conv)

definition delete_sample :: access_db where
  "delete_sample =
     (let rid = replicate 16 (CHR 0x03); other = replicate 16 (CHR 0x05);
          row = (\<lambda>i. \<lparr>br_id = i, br_repo = i, br_commit = [], br_name = ''main'', br_description = None,
            br_creator = other, br_created = 0, br_updated = 0\<rparr>)
      in \<lparr>ad_db = \<lparr>db_users = [],
            db_repos = [\<lparr>rp_id = rid, rp_name = ''data'', rp_owner = other, rp_HEAD = ''main'', rp_visible = False,
              rp_public_storage = True, rp_namespace = None, rp_adapter_params = None, rp_description = None,
              rp_creator = other, rp_created = 0, rp_updated = 0\<rparr>],
            db_branches = [row rid, row other], db_wips = [], db_tags = [], db_mrs = [], db_commits = [], db_trees = [],
            db_uuids = (\<lambda>_. []), db_issued = 0\<rparr>,
          ad_policies = [], ad_groups = [], ad_user_groups = [], ad_members = []\<rparr>)"

theorem delete_transaction_rows_witness:
  "access_transaction (delete_transaction (replicate 16 (CHR 0x03))) delete_sample =
     (Inr 0, delete_sample\<lparr>ad_db := (ad_db delete_sample)
        \<lparr>db_repos := [], db_branches := tl (db_branches (ad_db delete_sample))\<rparr>\<rparr>)"
  by (subst delete_transaction_rows) (simp_all add: uuid_Nil_def delete_sample_def Let_def)

subsection \<open>The history of a reference\<close>


text \<open>What \<open>after\<close> and \<open>amount\<close> keep of a history. A negative amount is no limit.\<close>

definition wanted :: "time option \<Rightarrow> int option \<Rightarrow> commit list \<Rightarrow> commit list" where
  "wanted after amount cs =
     (let older = filter (\<lambda>c. case after of None \<Rightarrow> True | Some t \<Rightarrow> sig_when (cm_committer c) < t) cs
      in case amount of None \<Rightarrow> older | Some n \<Rightarrow> if n < 0 then older else take (nat n) older)"

lemma wanted_Nil [simp]: "wanted after amount [] = []"
  by (simp add: wanted_def split: option.splits)

lemma wanted_Cons:
  "wanted after amount (c # cs) =
     (if (case after of None \<Rightarrow> False | Some t \<Rightarrow> sig_when (cm_committer c) + 1 > t) then wanted after amount cs
      else if amount = Some 0 then []
      else c # wanted after (map_option (\<lambda>n. n - 1) amount) cs)"
  by (auto simp: wanted_def take_Cons' nat_diff_distrib' split: option.splits)

lemma commits_loop_visits:
  assumes "pre_inv S w"
  shows "\<exists>cs. distinct (map cm_hash cs) \<and> cm_hash ` set cs = pre_todo S w \<and> (\<forall>c \<in> set cs. is_node S c) \<and>
    (\<forall>after amount acc. commits_loop S after amount w acc =
      Some (Inr (acc @ wanted after (map_option (\<lambda>n. n - int (length acc)) amount) cs)))"
  using assms
proof (induction "card (pre_todo S w)" arbitrary: w)
  case 0
  then have "pre_todo S w = {}" using pre.finite_todo [OF 0(2)] by simp
  then obtain w' where "pre_Next S w = (Inl EOF, w')" using pre.next_finished 0(2) by blast
  then have "commits_loop S after amount w acc = Some (Inr (acc @ wanted after n []))" for after amount acc n
    by (subst commits_loop.simps) simp
  with \<open>pre_todo S w = {}\<close> show ?case by (intro exI [of _ "[]"]) simp
next
  case (Suc k)
  then have "pre_todo S w \<noteq> {}" by auto
  then obtain c w' where step: "pre_Next S w = (Inr c, w')" "pre_inv S w'" "is_node S c" "cm_hash c \<in> pre_todo S w"
    "pre_todo S w' = pre_todo S w - {cm_hash c}"
    using pre.next_visit Suc.prems by blast
  then have "k = card (pre_todo S w')" using Suc.hyps(2) pre.finite_todo [OF Suc.prems] by simp
  from Suc.hyps(1) [OF this step(2)] obtain cs where cs: "distinct (map cm_hash cs)"
    "cm_hash ` set cs = pre_todo S w'" "\<forall>c \<in> set cs. is_node S c"
    "\<And>after amount acc. commits_loop S after amount w' acc =
      Some (Inr (acc @ wanted after (map_option (\<lambda>n. n - int (length acc)) amount) cs))"
    by blast
  have "commits_loop S after amount w acc =
      Some (Inr (acc @ wanted after (map_option (\<lambda>n. n - int (length acc)) amount) (c # cs)))" for after amount acc
    by (subst commits_loop.simps, cases amount) (auto simp: step(1) cs(4) wanted_Cons algebra_simps)
  with cs step show ?case
    by (intro exI [of _ "c # cs"]) auto
qed

text \<open>
  C31: The history of a commit that \<open>GetCommitsInRef\<close> replies ends for every history that is stored
  completely, and is the list of all commits the commit is built on, itself included, each once and
  always in the same order, from which \<open>after\<close> keeps the older ones and \<open>amount\<close> the first.
\<close>

theorem commit_log_complete:
  assumes "history_ok (table_store encode repo (db_commits d))" "is_node (table_store encode repo (db_commits d)) c"
  shows "\<exists>cs. distinct (map cm_hash cs) \<and> set (map cm_hash cs) = ancestors (table_store encode repo (db_commits d)) (cm_hash c) \<and>
    (\<forall>x \<in> set cs. CommitRepo_Commit repo (db_commits d) (cm_hash x) = Inr x) \<and>
    (\<forall>p_After p_Amount. commits_from encode repo c p_After p_Amount d =
      Some (Inr (wanted (map_option from_UnixMilli p_After) p_Amount cs)))"
proof -
  let ?S = "table_store encode repo (db_commits d)"
  have inv: "pre_inv ?S (NewCommitPreorderIter ?S c {} [])"
    "pre_todo ?S (NewCommitPreorderIter ?S c {} []) = ancestors ?S (cm_hash c)"
    using assms by (simp_all add: live_all ancestors_def)
  obtain cs where cs: "distinct (map cm_hash cs)" "cm_hash ` set cs = ancestors ?S (cm_hash c)" "\<forall>x \<in> set cs. is_node ?S x"
    "\<And>after amount acc. commits_loop ?S after amount (NewCommitPreorderIter ?S c {} []) acc =
      Some (Inr (acc @ wanted after (map_option (\<lambda>n. n - int (length acc)) amount) cs))"
    using commits_loop_visits [OF inv(1)] inv(2) by auto
  then show ?thesis
    by (intro exI [of _ cs]) (auto simp: commits_from_def is_node_def table_store_def option.map_ident Let_def)
qed


theorem commit_log_complete_witness:
  "\<exists>cs. distinct (map cm_hash cs) \<and>
    set (map cm_hash cs) = ancestors demo_store ''m'' \<and>
    (\<forall>x \<in> set cs. CommitRepo_Commit ''r'' demo_commits (cm_hash x) = Inr x) \<and>
    (\<forall>p_After p_Amount. commits_from (\<lambda>b. b) ''r'' (demo_commit ''m'' 4 [''1'', ''2'']) p_After p_Amount
        ((ad_db delete_sample)\<lparr>db_commits := demo_commits\<rparr>) =
      Some (Inr (wanted (map_option from_UnixMilli p_After) p_Amount cs)))"
  using commit_log_complete [of "\<lambda>b. b" "''r''" "(ad_db delete_sample)\<lparr>db_commits := demo_commits\<rparr>"
      "demo_commit ''m'' 4 [''1'', ''2'']"] demo_history_ok demo_nodes(4)
  by (simp add: demo_store_def)


end
