(* ===== verification/Work_Repo_Inv.thy ===== *)
theory Work_Repo_Inv
  imports Merge_Commits
begin

section \<open>Sessions on one repository and their invariant\<close>

text \<open>
  Several working repositories work on the same repository of one database, one operation at a
  time: a state is the list of the sessions and the database. The invariant says that the
  commits of the repository form a complete acyclic history, that branches point nowhere or to
  a stored commit and tags to a stored commit, and that the same holds for what the sessions
  have cached. Each operation has one lemma; \<open>op_ok\<close> is what they share.
\<close>

definition commits_ok :: "(bytes \<Rightarrow> string) \<Rightarrow> uuid \<Rightarrow> commit list \<Rightarrow> bool" where
  "commits_ok enc rid t \<longleftrightarrow> unique_keys commit_key t \<and> history_ok (table_store enc rid t) \<and>
     acyclic (parent_rel (table_store enc rid t))"

definition is_stored :: "uuid \<Rightarrow> db \<Rightarrow> hash \<Rightarrow> bool" where
  "is_stored rid d h \<longleftrightarrow> (\<exists>c. CommitRepo_Commit rid (db_commits d) h = Inr c)"

definition ref_ok :: "uuid \<Rightarrow> db \<Rightarrow> hash \<Rightarrow> bool" where
  "ref_ok rid d h \<longleftrightarrow> h = [] \<or> is_stored rid d h"

definition node_ok :: "uuid \<Rightarrow> db \<Rightarrow> commit \<Rightarrow> bool" where
  "node_ok rid d c \<longleftrightarrow> CommitRepo_Commit rid (db_commits d) (cm_hash c) = Inr c"

definition refs_ok :: "uuid \<Rightarrow> db \<Rightarrow> bool" where
  "refs_ok rid d \<longleftrightarrow>
     (\<forall>b \<in> set (db_branches d). br_repo b = rid \<longrightarrow> ref_ok rid d (br_commit b)) \<and>
     (\<forall>t \<in> set (db_tags d). tg_repo t = rid \<longrightarrow> is_stored rid d (tg_target t))"

definition view_ok :: "uuid \<Rightarrow> db \<Rightarrow> work_repo \<Rightarrow> bool" where
  "view_ok rid d w \<longleftrightarrow> repo_id w = rid \<and>
     (\<forall>b. wr_branch w = Some b \<longrightarrow> ref_ok rid d (br_commit b)) \<and>
     (\<forall>c. wr_commit w = Some c \<longrightarrow> node_ok rid d c)"

definition db_ok :: "(bytes \<Rightarrow> string) \<Rightarrow> uuid \<Rightarrow> db \<Rightarrow> bool" where
  "db_ok enc rid d \<longleftrightarrow> rid \<noteq> uuid_Nil \<and> commits_ok enc rid (db_commits d) \<and> refs_ok rid d"

definition grows_commits :: "uuid \<Rightarrow> db \<Rightarrow> db \<Rightarrow> bool" where
  "grows_commits rid d d' \<longleftrightarrow>
     (\<forall>h c. CommitRepo_Commit rid (db_commits d) h = Inr c \<longrightarrow> CommitRepo_Commit rid (db_commits d') h = Inr c)"

text \<open>What every operation of a session does to the database and to the session.\<close>

definition op_ok :: "(bytes \<Rightarrow> string) \<Rightarrow> uuid \<Rightarrow> db \<Rightarrow> work_repo \<Rightarrow> db \<Rightarrow> bool" where
  "op_ok enc rid d w' d' \<longleftrightarrow> db_ok enc rid d' \<and> view_ok rid d' w' \<and> grows_commits rid d d'"

lemma grows_commits_refl [simp]: "grows_commits rid d d"
  by (simp add: grows_commits_def)

lemma grows_trans: "grows_commits rid d d' \<Longrightarrow> grows_commits rid d' d'' \<Longrightarrow> grows_commits rid d d''"
  by (simp add: grows_commits_def)

lemma is_stored_grows: "is_stored rid d h \<Longrightarrow> grows_commits rid d d' \<Longrightarrow> is_stored rid d' h"
  by (auto simp: is_stored_def grows_commits_def)

lemma ref_ok_grows: "ref_ok rid d h \<Longrightarrow> grows_commits rid d d' \<Longrightarrow> ref_ok rid d' h"
  using is_stored_grows by (auto simp: ref_ok_def)

lemma node_ok_grows: "node_ok rid d c \<Longrightarrow> grows_commits rid d d' \<Longrightarrow> node_ok rid d' c"
  by (auto simp: node_ok_def grows_commits_def)

lemma view_ok_grows: "view_ok rid d w \<Longrightarrow> grows_commits rid d d' \<Longrightarrow> view_ok rid d' w"
  by (auto simp: view_ok_def ref_ok_grows node_ok_grows)

lemma same_commits:
  "db_commits d' = db_commits d \<Longrightarrow> is_stored rid d' h = is_stored rid d h"
  "db_commits d' = db_commits d \<Longrightarrow> grows_commits rid d d'"
  "db_commits d' = db_commits d \<Longrightarrow> ref_ok rid d' h = ref_ok rid d h"
  "db_commits d' = db_commits d \<Longrightarrow> node_ok rid d' c = node_ok rid d c"
  "db_commits d' = db_commits d \<Longrightarrow> view_ok rid d' w = view_ok rid d w"
  by (simp_all add: is_stored_def grows_commits_def ref_ok_def node_ok_def view_ok_def)

lemma stored_fields [simp]:
  "is_stored rid (d\<lparr>db_branches := bs\<rparr>) h = is_stored rid d h"
  "is_stored rid (d\<lparr>db_wips := ws\<rparr>) h = is_stored rid d h"
  "is_stored rid (d\<lparr>db_tags := ts\<rparr>) h = is_stored rid d h"
  "is_stored rid (d\<lparr>db_trees := tr\<rparr>) h = is_stored rid d h"
  "is_stored rid (d\<lparr>db_issued := n\<rparr>) h = is_stored rid d h"
  by (simp_all add: is_stored_def)

lemma stored_iff: "h \<in> stored_hashes (table_store enc rid (db_commits d)) \<longleftrightarrow> is_stored rid d h"
  by (simp add: stored_hashes_def table_store_def is_stored_def)

text \<open>An operation that leaves the commits, the branches and the tags alone.\<close>

lemma op_ok_same:
  assumes "db_ok enc rid d" "view_ok rid d w'"
    "db_commits d' = db_commits d" "db_branches d' = db_branches d" "db_tags d' = db_tags d"
  shows "op_ok enc rid d w' d'"
  using assms same_commits [OF assms(3)] by (simp add: op_ok_def db_ok_def refs_ok_def)

subsection \<open>Inserting a commit\<close>

lemma new_source_path:
  assumes "(a, b) \<in> (R \<union> {x} \<times> P)\<^sup>+" "a \<noteq> x" "x \<notin> Range R" "x \<notin> P"
  shows "(a, b) \<in> R\<^sup>+"
  using assms(1,2)
proof (induction rule: trancl_induct)
  case (step b c)
  then have "b \<noteq> x" using assms(3) by (auto dest: tranclD2)
  with step show ?case by (auto intro: trancl_into_trancl)
qed auto

lemma new_source_unreachable:
  assumes "x \<notin> Range R" "x \<notin> Domain R" "x \<notin> P" "y \<noteq> x" "\<forall>p \<in> P. (p, y) \<notin> R\<^sup>*"
  shows "(x, y) \<notin> (R \<union> {x} \<times> P)\<^sup>*"
proof
  assume "(x, y) \<in> (R \<union> {x} \<times> P)\<^sup>*"
  then obtain p where p: "(x, p) \<in> R \<union> {x} \<times> P" "(p, y) \<in> (R \<union> {x} \<times> P)\<^sup>*"
    using assms(4) by (cases rule: converse_rtranclE) auto
  then have "p \<in> P" using assms(2) by blast
  moreover have "p \<noteq> x" using \<open>p \<in> P\<close> assms(3) by blast
  then have "(p, y) \<in> R\<^sup>*"
    using p(2) new_source_path [OF _ _ assms(1,3)] unfolding rtrancl_eq_or_trancl by blast
  ultimately show False using assms(5) by blast
qed

lemma acyclic_new_source:
  assumes "acyclic R" "x \<notin> Range R" "x \<notin> P"
  shows "acyclic (R \<union> {x} \<times> P)"
proof (rule acyclicI, rule allI, rule notI)
  fix a
  assume cyc: "(a, a) \<in> (R \<union> {x} \<times> P)\<^sup>+"
  have "a \<noteq> x" using tranclD2 [OF cyc] assms(2,3) by auto
  from new_source_path [OF cyc this assms(2,3)] assms(1) show False by (simp add: acyclic_def)
qed

lemma insert_commit:
  assumes ok: "commits_ok enc rid t" and ins: "CommitRepo_Insert rid c t = (Inr c', t')"
    and parents: "set (cm_parents c) \<subseteq> stored_hashes (table_store enc rid t)"
  shows "c' = c" "commits_ok enc rid t'"
    "CommitRepo_Commit rid t' h = (if h = cm_hash c then Inr c else CommitRepo_Commit rid t h)"
    "CommitRepo_Commit rid t (cm_hash c) = Inl ErrNotFound"
proof -
  let ?S = "table_store enc rid t" and ?S' = "table_store enc rid t'"
  have repo: "cm_repo c = rid" using ins by (auto simp: CommitRepo_Insert_def split: if_splits)
  have new: "commit_key c \<notin> set (map commit_key t)" and t': "t' = t @ [c]" and c': "c' = c"
    using ins by (auto simp: CommitRepo_Insert_def tbl_insert_def split: if_splits)
  show "c' = c" by (rule c')
  have absent: "find (\<lambda>c'. cm_repo c' = rid \<and> cm_hash c' = cm_hash c) t = None"
    using new repo by (auto simp: find_None_iff commit_key_def image_iff)
  then show none: "CommitRepo_Commit rid t (cm_hash c) = Inl ErrNotFound"
    by (simp add: CommitRepo_Commit_def tbl_get_def)
  have get: "CommitRepo_Commit rid t' h = (if h = cm_hash c then Inr c else CommitRepo_Commit rid t h)" for h
    using absent repo by (auto simp: t' CommitRepo_Commit_def tbl_get_def find_append split: option.split)
  show "CommitRepo_Commit rid t' h = (if h = cm_hash c then Inr c else CommitRepo_Commit rid t h)" by (rule get)
  have hist: "history_ok ?S" and acyc: "acyclic (parent_rel ?S)" using ok by (simp_all add: commits_ok_def)
  have stored: "stored_hashes ?S' = insert (cm_hash c) (stored_hashes ?S)"
    by (auto simp: stored_hashes_def table_store_def get)
  have fresh: "cm_hash c \<notin> stored_hashes ?S" using none by (simp add: stored_hashes_def table_store_def)
  have rel: "parent_rel ?S' = parent_rel ?S \<union> {cm_hash c} \<times> set (cm_parents c)"
    using none by (auto simp: parent_rel_def table_store_def get split: if_splits)
  have "history_ok ?S'"
    unfolding history_ok_def
  proof (intro conjI allI impI)
    fix h x
    assume x: "cs_Commit ?S' h = Inr x"
    show "cm_hash x = h" using x hist by (auto simp: table_store_def get history_ok_def split: if_splits)
    show "set (cm_parents x) \<subseteq> stored_hashes ?S'"
      using x hist parents unfolding stored by (auto simp: table_store_def get history_ok_def split: if_splits)
  next
    show "finite (stored_hashes ?S')" unfolding stored using hist by (simp add: history_ok_def)
    show "inj (cs_Hex ?S')" using hist by (simp add: history_ok_def table_store_def)
  qed
  moreover have "acyclic (parent_rel ?S')"
    unfolding rel using parent_rel_stored [OF hist] parents fresh by (intro acyclic_new_source [OF acyc]) auto
  moreover have "unique_keys commit_key t'"
    using ok new by (auto simp: unique_keys_def commits_ok_def t')
  ultimately show "commits_ok enc rid t'" by (simp add: commits_ok_def)
qed

lemma CommitRepo_Insert_Inl: "CommitRepo_Insert rid c t = (Inl e, t') \<Longrightarrow> t' = t"
  by (auto simp: CommitRepo_Insert_def tbl_insert_def split: if_splits)

lemma insert_new_commit:
  assumes "cm_repo c = rid" "\<not> is_stored rid d (cm_hash c)"
  shows "CommitRepo_Insert rid c (db_commits d) = (Inr c, db_commits d @ [c])"
proof -
  have "commit_key c \<notin> set (map commit_key (db_commits d))"
  proof
    assume "commit_key c \<in> set (map commit_key (db_commits d))"
    then obtain x where "x \<in> set (db_commits d)" "cm_repo x = rid" "cm_hash x = cm_hash c"
      using assms(1) by (auto simp: commit_key_def)
    then have "find (\<lambda>c'. cm_repo c' = rid \<and> cm_hash c' = cm_hash c) (db_commits d) \<noteq> None"
      by (auto simp: find_None_iff)
    with assms(2) show False by (auto simp: is_stored_def CommitRepo_Commit_def tbl_get_def)
  qed
  with assms(1) show ?thesis by (simp add: CommitRepo_Insert_def tbl_insert_def)
qed

text \<open>A commit whose parents are stored, inserted into the table of a good database.\<close>

lemma db_insert_commit:
  assumes ok: "db_ok enc rid d" and ins: "CommitRepo_Insert rid c (db_commits d) = (Inr c', t')"
    and parents: "\<forall>p \<in> set (cm_parents c). is_stored rid d p"
    and d': "d' = d\<lparr>db_trees := tr, db_commits := t'\<rparr>"
  shows "c' = c" "db_ok enc rid d'" "grows_commits rid d d'" "CommitRepo_Commit rid (db_commits d') (cm_hash c) = Inr c"
proof -
  have t: "commits_ok enc rid (db_commits d)" using ok by (simp add: db_ok_def)
  have p: "set (cm_parents c) \<subseteq> stored_hashes (table_store enc rid (db_commits d))"
    using parents by (auto simp: stored_iff)
  note new = insert_commit [OF t ins p]
  show "c' = c" by (rule new(1))
  have g: "grows_commits rid d d'" using new(3,4) by (auto simp: grows_commits_def d')
  then show "grows_commits rid d d'" .
  have "refs_ok rid d'"
    using ok ref_ok_grows [OF _ g] is_stored_grows [OF _ g] by (auto simp: db_ok_def refs_ok_def d')
  with ok new(2) show "db_ok enc rid d'" by (simp add: db_ok_def d')
  show "CommitRepo_Commit rid (db_commits d') (cm_hash c) = Inr c" using new(3) by (simp add: d')
qed

subsection \<open>Reading and writing references\<close>

lemma q_select_oneD: "q_select_one cs t = Inr r \<Longrightarrow> r \<in> set t \<and> holds cs r"
  unfolding q_select_one_def by (rule tbl_get_InrD)

lemma get_branch_ok:
  assumes "db_ok enc rid d" "repo_id w = rid" "get_branch w d nm = Inr b"
  shows "ref_ok rid d (br_commit b)"
proof -
  have "b \<in> set (db_branches d)" "br_repo b = rid"
    using q_select_oneD [OF assms(3) [unfolded get_branch_def BranchRepo_Get_def]] assms(1,2)
    by (simp_all add: NewGetBranchParams_def where_id_def where_opt_def holds_def db_ok_def)
  with assms(1) show ?thesis by (simp add: db_ok_def refs_ok_def)
qed

lemma BranchRepo_UpdateByID_ok:
  assumes "db_ok enc rid d" "is_stored rid d h"
  shows "BranchRepo_UpdateByID ((NewUpdateBranchParams i)\<lparr>ub_commit := Some h\<rparr>) d = (Inr (),
      d\<lparr>db_branches := tbl_update (\<lambda>b. br_id b = i) (\<lambda>b. b\<lparr>br_commit := h\<rparr>) (db_branches d)\<rparr>)"
    "db_ok enc rid (d\<lparr>db_branches := tbl_update (\<lambda>b. br_id b = i) (\<lambda>b. b\<lparr>br_commit := h\<rparr>) (db_branches d)\<rparr>)"
proof -
  show "BranchRepo_UpdateByID ((NewUpdateBranchParams i)\<lparr>ub_commit := Some h\<rparr>) d = (Inr (),
      d\<lparr>db_branches := tbl_update (\<lambda>b. br_id b = i) (\<lambda>b. b\<lparr>br_commit := h\<rparr>) (db_branches d)\<rparr>)"
    by (simp add: BranchRepo_UpdateByID_def NewUpdateBranchParams_def)
  show "db_ok enc rid (d\<lparr>db_branches := tbl_update (\<lambda>b. br_id b = i) (\<lambda>b. b\<lparr>br_commit := h\<rparr>) (db_branches d)\<rparr>)"
    using assms by (auto simp: db_ok_def refs_ok_def tbl_update_def ref_ok_def)
qed

lemma view_setCurState [simp]:
  "view_ok rid d (setCurState s wp b tg c w) \<longleftrightarrow> repo_id w = rid \<and>
     (\<forall>x. b = Some x \<longrightarrow> ref_ok rid d (br_commit x)) \<and> (\<forall>x. c = Some x \<longrightarrow> node_ok rid d x)"
  by (simp add: view_ok_def setCurState_def repo_id_def)

lemma view_fields [simp]:
  "view_ok rid d (w\<lparr>wr_head := h\<rparr>) = view_ok rid d w"
  "view_ok rid d (w\<lparr>wr_wip := wp\<rparr>) = view_ok rid d w"
  by (simp_all add: view_ok_def repo_id_def)

lemma repo_id_fields [simp]:
  "repo_id (w\<lparr>wr_head := h\<rparr>) = repo_id w" "repo_id (w\<lparr>wr_wip := wp\<rparr>) = repo_id w"
  "repo_id (w\<lparr>wr_branch := b\<rparr>) = repo_id w"
  by (simp_all add: repo_id_def)

lemma view_set_branch:
  "view_ok rid d w \<Longrightarrow> ref_ok rid d (br_commit b) \<Longrightarrow> view_ok rid d (w\<lparr>wr_branch := Some b\<rparr>)"
  by (simp add: view_ok_def)

lemma get_commit_node:
  assumes "repo_id w = rid" "get_commit w d h = Inr c"
  shows "node_ok rid d c"
proof -
  have "CommitRepo_Commit rid (db_commits d) h = Inr c" using assms by (simp add: get_commit_def)
  with CommitRepo_Commit_Inr [OF this] show ?thesis by (simp add: node_ok_def)
qed

lemma commit_of_node:
  assumes "repo_id w = rid" "commit_of w d h = Inr (Some c)"
  shows "node_ok rid d c"
  using assms get_commit_node [OF assms(1), of d h]
  by (simp add: commit_of_def split: if_splits sum.splits)

subsection \<open>The operations\<close>

lemma CheckOut_view:
  assumes ok: "db_ok enc rid d" and view: "view_ok rid d w"
  shows "view_ok rid d (snd (CheckOut decode rt rn d w))"
proof -
  have id: "repo_id w = rid" using view by (simp add: view_ok_def)
  note facts = view id get_branch_ok [OF ok id, of rn] get_commit_node [OF id] commit_of_node [OF id]
  consider "rt = InWip" | "rt = InBranch" | "rt = InCommit" | "rt = InTag"
    | "rt \<notin> {InWip, InBranch, InCommit, InTag}" by blast
  then show ?thesis
    by cases (use facts in \<open>auto simp: CheckOut_def InWip_def InBranch_def InCommit_def InTag_def
      split: sum.split\<close>)
qed

lemma rootTree_view:
  assumes ok: "db_ok enc rid d" and view: "view_ok rid d w"
  shows "view_ok rid d (snd (rootTree w d))"
proof -
  have id: "repo_id w = rid" using view by (simp add: view_ok_def)
  show ?thesis
  proof (cases "head_hash w")
    case (Some h)
    with view show ?thesis by (simp add: rootTree_def)
  next
    case None
    show ?thesis
    proof (cases "get_branch w d (rp_HEAD (wr_model w))")
      case (Inl e)
      with None view show ?thesis by (simp add: rootTree_def)
    next
      case (Inr ref)
      note ref = get_branch_ok [OF ok id Inr]
      show ?thesis
        using view_set_branch [OF view ref] ref id commit_of_node [OF id, of d "br_commit ref"]
        by (cases "commit_of w d (br_commit ref)") (simp_all add: rootTree_def None Inr Let_def)
    qed
  qed
qed


text \<open>Operations that leave the commits, the branches and the tags alone.\<close>

definition quiet :: "db \<Rightarrow> db \<Rightarrow> bool" where
  "quiet d d' \<longleftrightarrow> db_commits d' = db_commits d \<and> db_branches d' = db_branches d \<and> db_tags d' = db_tags d"

lemma quiet_ok:
  assumes "db_ok enc rid d" "quiet d d'" "view_ok rid d w'"
  shows "op_ok enc rid d w' d'"
  using assms by (intro op_ok_same) (simp_all add: quiet_def)

lemma quiet_refl [simp]: "quiet d d"
  by (simp add: quiet_def)

lemma quiet_db:
  assumes "quiet d d'"
  shows "db_ok enc rid d' = db_ok enc rid d" "view_ok rid d' w = view_ok rid d w" "grows_commits rid d d'"
    "node_ok rid d' c = node_ok rid d c" "ref_ok rid d' h = ref_ok rid d h"
proof -
  have c: "db_commits d' = db_commits d" using assms by (simp add: quiet_def)
  show "view_ok rid d' w = view_ok rid d w" "grows_commits rid d d'" "node_ok rid d' c = node_ok rid d c"
    "ref_ok rid d' h = ref_ok rid d h" using same_commits [OF c] by simp_all
  show "db_ok enc rid d' = db_ok enc rid d"
    using assms same_commits [OF c] by (simp add: db_ok_def refs_ok_def quiet_def)
qed

lemma quiet_simps [simp]:
  "quiet d (WipRepo_UpdateByID u d') = quiet d d'" "quiet d (d'\<lparr>db_wips := x\<rparr>) = quiet d d'"
  "quiet d (d'\<lparr>db_trees := y\<rparr>) = quiet d d'" "quiet d (d'\<lparr>db_issued := z\<rparr>) = quiet d d'"
  by (simp_all add: quiet_def WipRepo_UpdateByID_def)

lemma update_wip_simps [simp]:
  "fst (update_wip u f w d) = w\<lparr>wr_wip := map_option f (wr_wip w)\<rparr>"
  "snd (update_wip u f w d) = WipRepo_UpdateByID u d"
  by (simp_all add: update_wip_def)

lemma Revert_quiet:
  assumes "view_ok rid d w" "Revert E ctx p w d = Some (r, w', d')"
  shows "quiet d d' \<and> view_ok rid d w'"
  using assms
  by (auto simp: Revert_def update_wip_def Let_def split: if_splits option.splits sum.splits prod.splits)

lemma DeleteWip_quiet: "DeleteWip w d = (r, d') \<Longrightarrow> quiet d d'"
  by (auto simp: DeleteWip_def WipRepo_Delete_def Let_def split: if_splits option.splits sum.splits prod.splits)

lemma WipRepo_Insert_quiet: "WipRepo_Insert wp d = (r, d') \<Longrightarrow> quiet d d'"
  by (auto simp: WipRepo_Insert_def row_id_def split: if_splits prod.splits)

lemma GetOrCreateWip_quiet:
  assumes "view_ok rid d w" "GetOrCreateWip E w d = (r, w', d')"
  shows "quiet d d' \<and> view_ok rid d w'"
  using assms WipRepo_Insert_quiet
  unfolding GetOrCreateWip_def
  by (auto simp: view_ok_def setCurState_def repo_id_def split: if_splits option.splits sum.splits prod.splits)

subsection \<open>Committing\<close>

text \<open>The commit that \<open>commitChangeRoot\<close> inserts.\<close>

definition change_commit :: "env \<Rightarrow> work_repo \<Rightarrow> hash \<Rightarrow> signature \<Rightarrow> hash \<Rightarrow> string \<Rightarrow> commit" where
  "change_commit E w parent author root msg =
     (let c = \<lparr>cm_hash = [], cm_repo = repo_id w, cm_author = author,
        cm_committer = operator_signature E (wr_operator w), cm_merge_tag = [], cm_message = msg,
        cm_tree_hash = root, cm_parents = (if \<not> IsEmpty parent then [parent] else []),
        cm_created = env_now E, cm_updated = env_now E\<rparr>
      in c\<lparr>cm_hash := commit_GetHash E c\<rparr>)"

lemma change_commit_simps [simp]:
  "cm_parents (change_commit E w parent author root msg) = (if parent = [] then [] else [parent])"
  "cm_tree_hash (change_commit E w parent author root msg) = root"
  "cm_repo (change_commit E w parent author root msg) = repo_id w"
  by (simp_all add: change_commit_def Let_def IsEmpty_def)

definition move_branch :: "uuid \<Rightarrow> hash \<Rightarrow> db \<Rightarrow> db" where
  "move_branch i h d = d\<lparr>db_branches := tbl_update (\<lambda>b. br_id b = i) (\<lambda>b. b\<lparr>br_commit := h\<rparr>) (db_branches d)\<rparr>"

lemma commitChangeRoot_eq:
  "commitChangeRoot E w branch author root msg d =
     (let c = change_commit E w (br_commit branch) author root msg in
      case CommitRepo_Insert (repo_id w) c (db_commits d) of
        (Inl e, t) \<Rightarrow> (Inl e, d\<lparr>db_commits := t\<rparr>)
      | (Inr _, t) \<Rightarrow> (Inr c, move_branch (br_id branch) (cm_hash c) (d\<lparr>db_commits := t\<rparr>)))"
  unfolding commitChangeRoot_def change_commit_def Let_def move_branch_def
  by (simp add: BranchRepo_UpdateByID_def NewUpdateBranchParams_def split: prod.split sum.split)

lemma commitChangeRoot_InrD:
  assumes "commitChangeRoot E w branch author root msg d = (Inr c, d')"
  obtains t where "c = change_commit E w (br_commit branch) author root msg"
    "CommitRepo_Insert (repo_id w) c (db_commits d) = (Inr c, t)"
    "d' = move_branch (br_id branch) (cm_hash c) (d\<lparr>db_commits := t\<rparr>)"
  using assms unfolding commitChangeRoot_eq Let_def
  by (auto simp: CommitRepo_Insert_def tbl_insert_def split: if_splits)

lemma move_branch_ok:
  assumes "db_ok enc rid d" "is_stored rid d h"
  shows "db_ok enc rid (move_branch i h d)"
  using BranchRepo_UpdateByID_ok(2) [OF assms] by (simp add: move_branch_def)

lemma move_branch_fields [simp]:
  "db_commits (move_branch i h d) = db_commits d" "db_tags (move_branch i h d) = db_tags d"
  "db_trees (move_branch i h d) = db_trees d" "db_wips (move_branch i h d) = db_wips d"
  by (simp_all add: move_branch_def)

lemma commitChangeRoot_ok:
  assumes ok: "db_ok enc rid d" and id: "repo_id w = rid" and br: "ref_ok rid d (br_commit branch)"
    and run: "commitChangeRoot E w branch author root msg d = (Inr c, d')"
  shows "db_ok enc rid d'" "grows_commits rid d d'" "node_ok rid d' c"
proof -
  obtain t where c: "c = change_commit E w (br_commit branch) author root msg"
    and ins: "CommitRepo_Insert rid c (db_commits d) = (Inr c, t)"
    and d': "d' = move_branch (br_id branch) (cm_hash c) (d\<lparr>db_commits := t\<rparr>)"
    using commitChangeRoot_InrD [OF run] unfolding id by blast
  have parents: "\<forall>p \<in> set (cm_parents c). is_stored rid d p"
    using br by (auto simp: c ref_ok_def)
  let ?d = "d\<lparr>db_commits := t\<rparr>"
  have "?d = d\<lparr>db_trees := db_trees d, db_commits := t\<rparr>" by simp
  note new = db_insert_commit [OF ok ins parents this]
  have st: "is_stored rid ?d (cm_hash c)" using new(4) unfolding is_stored_def by blast
  show "db_ok enc rid d'" unfolding d' by (rule move_branch_ok [OF new(2) st])
  show "grows_commits rid d d'"
    unfolding d' by (rule grows_trans [OF new(3)]) (simp add: grows_commits_def)
  show "node_ok rid d' c" using new(4) by (simp add: node_ok_def d')
qed

lemma view_set_base:
  "view_ok rid d w \<Longrightarrow> is_stored rid d h \<Longrightarrow> view_ok rid d (set_base h w)"
  by (auto simp: view_ok_def set_base_def repo_id_def ref_ok_def)

lemma view_set_wip_tree [simp]: "view_ok rid d (set_wip_tree h w) = view_ok rid d w"
  by (simp add: view_ok_def set_wip_tree_def repo_id_def)

lemma node_is_stored: "node_ok rid d c \<Longrightarrow> is_stored rid d (cm_hash c)"
  unfolding node_ok_def is_stored_def by blast

lemma op_ok_refl: "db_ok enc rid d \<Longrightarrow> view_ok rid d w \<Longrightarrow> op_ok enc rid d w d"
  by (simp add: op_ok_def)

lemma op_ok_quiet: "quiet d1 d2 \<Longrightarrow> op_ok enc rid d w d1 \<Longrightarrow> op_ok enc rid d w d2"
  using grows_trans quiet_db by (simp add: op_ok_def) blast

text \<open>A session that has committed: its branch and working copy start at the new commit.\<close>

lemma committed_ok:
  assumes ok: "db_ok enc rid d" and view: "view_ok rid d w" and br: "wr_branch w = Some branch"
    and run: "commitChangeRoot E w branch author root msg d = (Inr c, d1)"
    and w': "w' = (set_base (cm_hash c) w1)\<lparr>wr_head := x\<rparr>" "view_ok rid d w1"
  shows "op_ok enc rid d w' (WipRepo_UpdateByID p d1)"
proof -
  have id: "repo_id w = rid" and ref: "ref_ok rid d (br_commit branch)" using view br by (auto simp: view_ok_def)
  note new = commitChangeRoot_ok [OF ok id ref run]
  have "view_ok rid d1 w'"
    unfolding w'(1) using view_set_base [OF view_ok_grows [OF w'(2) new(2)] node_is_stored [OF new(3)]] by simp
  with new have "op_ok enc rid d w' d1" by (simp add: op_ok_def)
  then show ?thesis by (rule op_ok_quiet [rotated]) simp
qed

lemma CommitChanges_InrD:
  assumes "CommitChanges E msg w d = (Inr c, w', d')"
  shows "\<exists>branch wip author d1. wr_state w = InWip \<and> wr_branch w = Some branch \<and> wr_wip w = Some wip \<and>
    br_commit branch = wp_base wip \<and> wip_author wip d = Inr author \<and>
    commitChangeRoot E w branch author (wp_tree wip) msg d = (Inr c, d1) \<and>
    d' = WipRepo_UpdateByID ((NewUpdateWipParams E (wp_id wip))\<lparr>uw_base := Some (cm_hash c)\<rparr>) d1 \<and>
    w' = (set_base (cm_hash c) w)\<lparr>wr_head := Some HeadOfWip\<rparr>"
  using assms by (auto simp: CommitChanges_def Transaction_def split: if_splits option.splits sum.splits prod.splits)

lemma CommitChanges_InlD: "CommitChanges E msg w d = (Inl e, w', d') \<Longrightarrow> w' = w \<and> d' = d"
  by (auto simp: CommitChanges_def Transaction_def split: if_splits option.splits sum.splits prod.splits)

lemma CommitChanges_ok:
  assumes ok: "db_ok enc rid d" and view: "view_ok rid d w"
    and run: "CommitChanges E msg w d = (r, w', d')"
  shows "op_ok enc rid d w' d'"
proof (cases r)
  case (Inl e)
  then have "w' = w \<and> d' = d"
    using run CommitChanges_InlD by blast
  with op_ok_refl [OF ok view] show ?thesis by simp
next
  case (Inr c)
  obtain branch author d1 and wip :: wip where run': "wr_branch w = Some branch"
    "commitChangeRoot E w branch author (wp_tree wip) msg d = (Inr c, d1)"
    "d' = WipRepo_UpdateByID ((NewUpdateWipParams E (wp_id wip))\<lparr>uw_base := Some (cm_hash c)\<rparr>) d1"
    "w' = (set_base (cm_hash c) w)\<lparr>wr_head := Some HeadOfWip\<rparr>"
    using CommitChanges_InrD [OF run [unfolded Inr]] by (elim exE conjE) (rule that; assumption)
  show ?thesis unfolding run'(3) by (rule committed_ok [OF ok view run'(1,2,4) view])
qed

lemma changeInWip_quiet:
  assumes ok: "db_ok enc rid d" and view: "view_ok rid d w" and run: "changeInWip f w d = (r, w', d')"
  shows "quiet d d' \<and> view_ok rid d w'"
  using run rootTree_view [OF ok view] view
  by (auto simp: changeInWip_def split: if_splits sum.splits prod.splits)

lemma rootTree_branch: "head_hash w = Some h \<Longrightarrow> rootTree w d = (res, w') \<Longrightarrow> w' = w"
  by (simp add: rootTree_def)

lemma ChangeInWip_ok:
  assumes ok: "db_ok enc rid d" and view: "view_ok rid d w" and run: "ChangeInWip E f w d = (r, w', d')"
  shows "op_ok enc rid d w' d'"
proof -
  obtain r1 w1 d1 where c: "changeInWip f w d = (r1, w1, d1)" by (cases "changeInWip f w d") auto
  note q = changeInWip_quiet [OF ok view c]
  have "quiet d d' \<and> view_ok rid d w'"
    using q run c by (auto simp: ChangeInWip_def Let_def split: sum.splits option.splits)
  with ok show ?thesis using quiet_ok [of enc rid d d' w'] quiet_db(2) [of d d'] by blast
qed

lemma ChangeAndCommit_InrD:
  assumes "ChangeAndCommit E msg f w d = (Inr c, w', d')"
  shows "\<exists>branch wip author w1 t d1 d2. wr_branch w = Some branch \<and> wr_wip w = Some wip \<and>
    br_commit branch = wp_base wip \<and> wip_author wip d = Inr author \<and>
    changeInWip f w d = (Inr t, w1, d1) \<and>
    commitChangeRoot E w1 branch author (vt_Hash (ws_root t)) msg d1 = (Inr c, d2) \<and>
    d' = WipRepo_UpdateByID ((NewUpdateWipParams E (wp_id wip))
      \<lparr>uw_tree := Some (vt_Hash (ws_root t)), uw_base := Some (cm_hash c)\<rparr>) d2 \<and>
    w' = set_base (cm_hash c) (set_wip_tree (vt_Hash (ws_root t)) w1)"
  using assms
  by (auto simp: ChangeAndCommit_def Let_def split: if_splits option.splits sum.splits prod.splits)

lemma ChangeAndCommit_ok:
  assumes ok: "db_ok enc rid d" and view: "view_ok rid d w"
    and run: "ChangeAndCommit E msg f w d = (r, w', d')"
  shows "op_ok enc rid d w' d'"
proof (cases r)
  case (Inl e)
  obtain r1 w1 d1 where c: "changeInWip f w d = (r1, w1, d1)" by (cases "changeInWip f w d") auto
  have "w' \<in> {w, w1} \<and> d' = d"
    using run Inl c by (auto simp: ChangeAndCommit_def Let_def split: if_splits option.splits sum.splits prod.splits)
  with op_ok_refl [OF ok] view changeInWip_quiet [OF ok view c] show ?thesis by blast
next
  case (Inr c)
  obtain branch wip author w1 t d1 d2 where run': "wr_branch w = Some branch"
    "wr_wip w = Some wip"
    "changeInWip f w d = (Inr t, w1, d1)"
    "commitChangeRoot E w1 branch author (vt_Hash (ws_root t)) msg d1 = (Inr c, d2)"
    "d' = WipRepo_UpdateByID ((NewUpdateWipParams E (wp_id wip))
      \<lparr>uw_tree := Some (vt_Hash (ws_root t)), uw_base := Some (cm_hash c)\<rparr>) d2"
    "w' = set_base (cm_hash c) (set_wip_tree (vt_Hash (ws_root t)) w1)"
    using ChangeAndCommit_InrD [OF run [unfolded Inr]] by (elim exE conjE) (rule that; assumption)
  from changeInWip_quiet [OF ok view run'(3)] have q: "quiet d d1" and view1: "view_ok rid d w1" by simp_all
  have id: "repo_id w1 = rid" and ref: "ref_ok rid d (br_commit branch)"
    using view view1 run'(1) by (auto simp: view_ok_def)
  note q' = quiet_db [OF q]
  have "db_ok enc rid d1" "ref_ok rid d1 (br_commit branch)" using ok ref q' by simp_all
  note new = commitChangeRoot_ok [OF this(1) id this(2) run'(4)]
  have "view_ok rid d2 w'"
    unfolding run'(6) using view_set_base [OF view_ok_grows [OF _ new(2)] node_is_stored [OF new(3)]] view1 q' by simp
  with new have "op_ok enc rid d w' d2" using grows_trans [OF q'(3) new(2)] by (simp add: op_ok_def)
  then show ?thesis unfolding run'(5) by (rule op_ok_quiet [rotated]) simp
qed

subsection \<open>Branches and tags\<close>

lemma op_ok_branches:
  assumes "db_ok enc rid d" "view_ok rid d w" "db_commits d' = db_commits d" "db_tags d' = db_tags d"
    "\<forall>b \<in> set (db_branches d'). br_repo b = rid \<longrightarrow> ref_ok rid d (br_commit b)"
  shows "op_ok enc rid d w d'"
  using assms same_commits [OF assms(3)] by (simp add: op_ok_def db_ok_def refs_ok_def)

lemma op_ok_tags:
  assumes "db_ok enc rid d" "view_ok rid d w" "db_commits d' = db_commits d" "db_branches d' = db_branches d"
    "\<forall>t \<in> set (db_tags d'). tg_repo t = rid \<longrightarrow> is_stored rid d (tg_target t)"
  shows "op_ok enc rid d w d'"
  using assms same_commits [OF assms(3)] by (simp add: op_ok_def db_ok_def refs_ok_def)

lemma op_ok_refs:
  "db_ok enc rid d \<Longrightarrow> b \<in> set (db_branches d) \<Longrightarrow> br_repo b = rid \<Longrightarrow> ref_ok rid d (br_commit b)"
  "db_ok enc rid d \<Longrightarrow> t \<in> set (db_tags d) \<Longrightarrow> tg_repo t = rid \<Longrightarrow> is_stored rid d (tg_target t)"
  by (simp_all add: db_ok_def refs_ok_def)

lemma row_id_simps:
  "row_id uuid_Nil d = (db_uuids d (db_issued d), d\<lparr>db_issued := db_issued d + 1\<rparr>)"
  by (simp add: row_id_def)

lemma BranchRepo_Insert_cases:
  assumes "br_id branch = uuid_Nil" "BranchRepo_Insert branch d = (r, d')"
  shows "quiet d d' \<or> db_branches d' = db_branches d @ [branch\<lparr>br_id := db_uuids d (db_issued d)\<rparr>] \<and>
    db_commits d' = db_commits d \<and> db_tags d' = db_tags d"
  using assms by (auto simp: BranchRepo_Insert_def row_id_simps tbl_insert_def quiet_def split: if_splits)

lemma TagRepo_Insert_cases:
  assumes "tg_id tag = uuid_Nil" "TagRepo_Insert tag d = (r, d')"
  shows "quiet d d' \<or> db_tags d' = db_tags d @ [tag\<lparr>tg_id := db_uuids d (db_issued d)\<rparr>] \<and>
    db_commits d' = db_commits d \<and> db_branches d' = db_branches d"
  using assms by (auto simp: TagRepo_Insert_def row_id_simps tbl_insert2_def quiet_def split: if_splits)

lemma CreateBranch_ok:
  assumes ok: "db_ok enc rid d" and view: "view_ok rid d w" and run: "CreateBranch E nm w d = (r, d')"
  shows "op_ok enc rid d w d'"
proof -
  let ?b = "\<lparr>br_id = uuid_Nil, br_repo = repo_id w, br_commit = commitHashFromCommit (wr_commit w),
             br_name = nm, br_description = None, br_creator = us_id (wr_operator w),
             br_created = env_now E, br_updated = env_now E\<rparr>"
  have "d' = d \<or> (\<exists>r. BranchRepo_Insert ?b d = (r, d'))"
    using run by (auto simp: CreateBranch_def split: sum.splits if_splits)
  then show ?thesis
  proof (elim disjE exE)
    assume "d' = d" then show ?thesis using op_ok_refl [OF ok view] by simp
  next
    fix r assume "BranchRepo_Insert ?b d = (r, d')"
    note ins = BranchRepo_Insert_cases [OF _ this]
    have new: "ref_ok rid d (br_commit ?b)"
      using view node_is_stored
      by (auto simp: commitHashFromCommit_def view_ok_def ref_ok_def split: option.split)
    show ?thesis
    proof (cases "quiet d d'")
      case True
      with ok show ?thesis using quiet_ok view quiet_db(2) by blast
    next
      case False
      with ins have d': "db_branches d' = db_branches d @ [?b\<lparr>br_id := db_uuids d (db_issued d)\<rparr>]"
        "db_commits d' = db_commits d" "db_tags d' = db_tags d" by auto
      show ?thesis
        by (rule op_ok_branches [OF ok view d'(2,3)]) (use op_ok_refs(1) [OF ok] new in \<open>auto simp: d'(1)\<close>)
    qed
  qed
qed

lemma CreateTag_ok:
  assumes ok: "db_ok enc rid d" and view: "view_ok rid d w" and run: "CreateTag E nm m w d = (r, d')"
  shows "op_ok enc rid d w d'"
proof -
  let ?t = "\<lambda>c. \<lparr>tg_id = uuid_Nil, tg_repo = repo_id w, tg_name = nm, tg_creator = us_id (wr_operator w),
     tg_target = cm_hash c, tg_message = m, tg_created = env_now E, tg_updated = env_now E\<rparr>"
  have "d' = d \<or> (\<exists>c r. wr_commit w = Some c \<and> TagRepo_Insert (?t c) d = (r, d'))"
    using run by (auto simp: CreateTag_def split: sum.splits if_splits option.splits)
  then show ?thesis
  proof (elim disjE exE conjE)
    assume "d' = d" then show ?thesis using op_ok_refl [OF ok view] by simp
  next
    fix c r assume c: "wr_commit w = Some c" and "TagRepo_Insert (?t c) d = (r, d')"
    note ins = TagRepo_Insert_cases [OF _ this(2)]
    have new: "is_stored rid d (cm_hash c)"
      using view node_is_stored c by (auto simp: view_ok_def)
    show ?thesis
    proof (cases "quiet d d'")
      case True
      with ok show ?thesis using quiet_ok view quiet_db(2) by blast
    next
      case False
      with ins have d': "db_tags d' = db_tags d @ [(?t c)\<lparr>tg_id := db_uuids d (db_issued d)\<rparr>]"
        "db_commits d' = db_commits d" "db_branches d' = db_branches d" by auto
      show ?thesis
        by (rule op_ok_tags [OF ok view d'(2,3)]) (use op_ok_refs(2) [OF ok] new in \<open>auto simp: d'(1)\<close>)
    qed
  qed
qed

lemma q_delete_subset: "q_delete cs t = (r, t') \<Longrightarrow> set t' \<subseteq> set t"
  by (auto simp: q_delete_def tbl_delete_def split: if_splits)

lemma WipRepo_Delete_quiet: "WipRepo_Delete p d = (r, d') \<Longrightarrow> quiet d d'"
  by (auto simp: WipRepo_Delete_def split: prod.splits)

lemma BranchRepo_Delete_subset:
  "BranchRepo_Delete p d = (r, d') \<Longrightarrow> set (db_branches d') \<subseteq> set (db_branches d) \<and>
    db_commits d' = db_commits d \<and> db_tags d' = db_tags d"
  by (auto simp: BranchRepo_Delete_def split: prod.splits dest!: q_delete_subset)

lemma TagRepo_Delete_subset:
  "TagRepo_Delete i p d = (r, d') \<Longrightarrow> set (db_tags d') \<subseteq> set (db_tags d) \<and>
    db_commits d' = db_commits d \<and> db_branches d' = db_branches d"
  by (auto simp: TagRepo_Delete_def split: prod.splits dest!: q_delete_subset)

lemma DeleteBranch_ok:
  assumes ok: "db_ok enc rid d" and view: "view_ok rid d w" and run: "DeleteBranch w d = (r, d')"
  shows "op_ok enc rid d w d'"
proof -
  have "d' = d \<or> (\<exists>p q r1 r2 d1. BranchRepo_Delete p d = (r1, d1) \<and> WipRepo_Delete q d1 = (r2, d'))"
    using run by (auto simp: DeleteBranch_def Transaction_def split: option.splits sum.splits prod.splits)
  then have sub: "set (db_branches d') \<subseteq> set (db_branches d) \<and> db_commits d' = db_commits d \<and> db_tags d' = db_tags d"
    by (auto simp: quiet_def dest!: BranchRepo_Delete_subset WipRepo_Delete_quiet)
  then have "db_commits d' = db_commits d" "db_tags d' = db_tags d" by simp_all
  then show ?thesis by (rule op_ok_branches [OF ok view]) (use sub op_ok_refs(1) [OF ok] in blast)
qed

lemma DeleteTag_ok:
  assumes ok: "db_ok enc rid d" and view: "view_ok rid d w" and run: "DeleteTag w d = (r, d')"
  shows "op_ok enc rid d w d'"
proof -
  have "d' = d \<or> (\<exists>i p r1. TagRepo_Delete i p d = (r1, d'))"
    using run by (auto simp: DeleteTag_def Transaction_def split: option.splits sum.splits prod.splits)
  then have sub: "set (db_tags d') \<subseteq> set (db_tags d) \<and> db_commits d' = db_commits d \<and> db_branches d' = db_branches d"
    by (auto dest!: TagRepo_Delete_subset)
  then have "db_commits d' = db_commits d" "db_branches d' = db_branches d" by simp_all
  then show ?thesis by (rule op_ok_tags [OF ok view]) (use sub op_ok_refs(2) [OF ok] in blast)
qed

subsection \<open>Merging\<close>

lemma store_ok:
  assumes "db_ok (ce_encode C) (rp_id (ce_repo C)) d"
  shows "history_ok (ce_store C d)" "acyclic (parent_rel (ce_store C d))"
  using assms by (simp_all add: db_ok_def commits_ok_def ce_store_def)

lemma node_iff: "is_node (ce_store C d) c \<longleftrightarrow> node_ok (rp_id (ce_repo C)) d c"
  by (simp add: is_node_def node_ok_def ce_store_def table_store_def)

lemma reaches_parent:
  "node_ok (rp_id (ce_repo C)) d c \<Longrightarrow> cm_hash x \<in> set (cm_parents c) \<Longrightarrow> reaches (ce_store C d) c x"
  by (auto simp: reaches_def parent_rel_def node_ok_def ce_store_def table_store_def)

text \<open>A commit that a merge returns: stored, and below both of the commits it merges.\<close>

definition merged_ok :: "cenv \<Rightarrow> commit option \<Rightarrow> commit option \<Rightarrow> db \<Rightarrow> commit \<Rightarrow> db \<Rightarrow> bool" where
  "merged_ok C source target d c d' \<longleftrightarrow> db_ok (ce_encode C) (rp_id (ce_repo C)) d' \<and>
     grows_commits (rp_id (ce_repo C)) d d' \<and> node_ok (rp_id (ce_repo C)) d' c \<and>
     (\<forall>x. source = Some x \<or> target = Some x \<longrightarrow> reaches (ce_store C d') c x)"

lemma merge_trees_ok:
  assumes ok: "db_ok (ce_encode C) (rp_id (ce_repo C)) d"
    and nodes: "node_ok (rp_id (ce_repo C)) d s" "node_ok (rp_id (ce_repo C)) d t"
    and run: "merge_trees C best s t msg res d = Some (Inr c, d')"
  shows "merged_ok C (Some s) (Some t) d c d'"
proof -
  obtain tr root cs where ins: "CommitRepo_Insert (rp_id (ce_repo C)) (merge_commit C s t root msg) (db_commits d) = (Inr c, cs)"
    and d': "d' = d\<lparr>db_trees := tr, db_commits := cs\<rparr>"
    using run by (auto simp: merge_trees_def split: sum.splits option.splits prod.splits)
  have parents: "cm_parents (merge_commit C s t root msg) = [cm_hash s, cm_hash t]"
    by (simp add: merge_commit_def Let_def)
  then have stored: "\<forall>p \<in> set (cm_parents (merge_commit C s t root msg)). is_stored (rp_id (ce_repo C)) d p"
    using nodes node_is_stored by simp
  note new = db_insert_commit [OF ok ins stored d']
  have node: "node_ok (rp_id (ce_repo C)) d' c" using new(4) unfolding new(1) node_ok_def by simp
  then have "reaches (ce_store C d') c s" "reaches (ce_store C d') c t"
    by (rule reaches_parent; simp add: new(1) parents)+
  with new(2,3) node show ?thesis by (auto simp: merged_ok_def)
qed

lemma merge_ok:
  assumes ok: "db_ok (ce_encode C) (rp_id (ce_repo C)) d"
    and source: "\<forall>s. source = Some s \<longrightarrow> node_ok (rp_id (ce_repo C)) d s"
    and target: "\<forall>t. target = Some t \<longrightarrow> node_ok (rp_id (ce_repo C)) d t"
    and run: "merge C best source target msg res d = Some (Inr c, d')"
  shows "merged_ok C source target d c d'"
proof (cases source)
  case None
  with run target ok show ?thesis
    by (cases target) (auto simp: merge_def merged_ok_def)
next
  case (Some s)
  note s = this
  show ?thesis
  proof (cases target)
    case None
    with s run source ok show ?thesis by (auto simp: merge_def merged_ok_def)
  next
    case (Some t)
    have nodes: "node_ok (rp_id (ce_repo C)) d s" "node_ok (rp_id (ce_repo C)) d t"
      using source target s Some by simp_all
    note anc = IsAncestor_result [OF store_ok(1) [OF ok], unfolded node_iff]
    have reach: "cm_hash x \<in> ancestors (ce_store C d) (cm_hash y) \<longleftrightarrow> reaches (ce_store C d) y x" for x y
      by (auto simp: ancestors_def reaches_def)
    have run': "(if reaches (ce_store C d) s t then Some (Inr s, d)
        else if reaches (ce_store C d) t s then Some (Inr t, d)
        else merge_trees C best s t msg res d) = Some (Inr c, d')"
      using run by (simp add: merge_def s Some anc [OF nodes(1)] anc [OF nodes(2)] reach cong: if_cong)
    consider "reaches (ce_store C d) s t" "c = s" "d' = d"
      | "reaches (ce_store C d) t s" "c = t" "d' = d"
      | "merge_trees C best s t msg res d = Some (Inr c, d')"
      using run'
      by (cases "reaches (ce_store C d) s t"; cases "reaches (ce_store C d) t s") simp_all
    then show ?thesis
    proof cases
      case 3
      then show ?thesis unfolding s Some by (rule merge_trees_ok [OF ok nodes])
    qed (use ok nodes in \<open>auto simp: merged_ok_def s Some\<close>)
  qed
qed

lemma merged_okD:
  assumes "merged_ok C source target d c d'"
  shows "db_ok (ce_encode C) (rp_id (ce_repo C)) d'" "grows_commits (rp_id (ce_repo C)) d d'"
    "node_ok (rp_id (ce_repo C)) d' c"
  using assms by (simp_all add: merged_ok_def)

definition found_ok :: "cenv \<Rightarrow> db \<Rightarrow> commit \<Rightarrow> db \<Rightarrow> bool" where
  "found_ok C d c d' \<longleftrightarrow> db_ok (ce_encode C) (rp_id (ce_repo C)) d' \<and>
     grows_commits (rp_id (ce_repo C)) d d' \<and> node_ok (rp_id (ce_repo C)) d' c"

lemma findBestAncestor_ok:
  assumes "findBestAncestor C base other d = Some res"
    "db_ok (ce_encode C) (rp_id (ce_repo C)) d"
    "\<forall>s. base = Some s \<longrightarrow> node_ok (rp_id (ce_repo C)) d s" "\<forall>t. other = Some t \<longrightarrow> node_ok (rp_id (ce_repo C)) d t"
    "fst res = Inr c"
  shows "found_ok C d c (snd res)"
  using assms
proof (induction arbitrary: c rule: findBestAncestor.raw_induct [rotated, consumes 1, case_names step])
  case (step find C base other d res)
  note IH = step(1) and run = step(2) and ok = step(3) and nodes = step(4,5) and res = step(6)
  show ?case
  proof (cases base)
    case None
    with run ok nodes res show ?thesis by (cases other) (auto simp: found_ok_def)
  next
    case (Some b)
    note b = this
    show ?thesis
    proof (cases other)
      case None
      with b run ok nodes res show ?thesis by (auto simp: found_ok_def)
    next
      case (Some t)
      have bt: "is_node (ce_store C d) b" "is_node (ce_store C d) t"
        using nodes b Some by (simp_all add: node_iff)
      obtain best where best: "MergeBase (ce_store C d) b t = Some (Inr best)" "\<forall>c \<in> set best. is_node (ce_store C d) c"
        using MergeBase_result [OF store_ok [OF ok] bt] by blast
      note run' = run [unfolded b Some, simplified, unfolded best(1), simplified]
      show ?thesis
      proof (cases "length best > 1")
        case False
        with run' res have "best \<noteq> []" "c = best ! 0" "snd res = d" by (auto split: if_splits)
        then show ?thesis using ok best(2) by (simp add: found_ok_def node_iff)
      next
        case True
        then have "best ! 0 \<in> set best" "best ! 1 \<in> set best" by (intro nth_mem; linarith)+
        then have two: "is_node (ce_store C d) (best ! 0)" "is_node (ce_store C d) (best ! 1)"
          using best(2) by simp_all
        have "best \<noteq> []" "best \<noteq> [] \<and> Suc 0 < length best" using True by auto
        with run' obtain r where r: "find C (Some (best ! 0)) (Some (best ! 1)) d = Some r"
          "(case fst r of Inl e \<Rightarrow> Some (Inl e, snd r)
            | Inr sub \<Rightarrow> merge C sub (Some (best ! 0)) (Some (best ! 1)) ''virtual commit'' (Some ForbidResolver) (snd r)) = Some res"
          by (auto simp: bind_eq_Some_conv)
        obtain sub where sub: "fst r = Inr sub" using r(2) res by (cases "fst r") auto
        have f: "found_ok C d sub (snd r)"
          by (rule IH [OF r(1) ok _ _ sub]) (use two in \<open>auto simp: node_iff\<close>)
        have m: "merge C sub (Some (best ! 0)) (Some (best ! 1)) ''virtual commit'' (Some ForbidResolver) (snd r) =
            Some (Inr c, snd res)"
          using r(2) sub res by (cases res) simp
        have two': "node_ok (rp_id (ce_repo C)) (snd r) (best ! 0)" "node_ok (rp_id (ce_repo C)) (snd r) (best ! 1)"
          using two f node_ok_grows by (auto simp: found_ok_def node_iff)
        have "merged_ok C (Some (best ! 0)) (Some (best ! 1)) (snd r) c (snd res)"
          by (rule merge_ok [OF _ _ _ m]) (use f two' in \<open>auto simp: found_ok_def\<close>)
        with f grows_trans show ?thesis by (auto simp: found_ok_def merged_ok_def)
      qed
    qed
  qed
qed

lemma cenv_of_simps [simp]:
  "rp_id (ce_repo (cenv_of E encode ctx w)) = repo_id w" "ce_encode (cenv_of E encode ctx w) = encode"
  by (simp_all add: cenv_of_def repo_id_def)

lemma BranchRepo_UpdateByID_move:
  "BranchRepo_UpdateByID ((NewUpdateBranchParams i)\<lparr>ub_commit := Some h\<rparr>) d = (Inr (), move_branch i h d)"
  by (simp add: BranchRepo_UpdateByID_def NewUpdateBranchParams_def move_branch_def)

lemma Merge_InlD: "Merge E encode ctx h msg res w d = Some (Inl e, d') \<Longrightarrow> d' = d"
  by (auto simp: Merge_def Let_def BranchRepo_UpdateByID_move split: if_splits option.splits sum.splits prod.splits)

lemma Merge_InrD:
  assumes "Merge E encode ctx h msg res w d = Some (Inr c, d')"
  shows "\<exists>branch source target best d1 d2. wr_state w = InBranch \<and> wr_branch w = Some branch \<and>
    commit_of w d (br_commit branch) = Inr target \<and> commit_of w d h = Inr source \<and>
    findBestAncestor (cenv_of E encode ctx w) source target d = Some (Inr best, d1) \<and>
    merge (cenv_of E encode ctx w) best source target msg res d1 = Some (Inr c, d2) \<and>
    d' = move_branch (br_id branch) (cm_hash c) d2"
  using assms
  by (auto simp: Merge_def Let_def BranchRepo_UpdateByID_move split: if_splits option.splits sum.splits prod.splits)

lemma Merge_InrD_ok:
  assumes ok: "db_ok encode rid d" and view: "view_ok rid d w"
    and run: "Merge E encode ctx h msg res w d = Some (Inr c, d')"
  obtains branch source target d2 where "wr_branch w = Some branch"
    "commit_of w d (br_commit branch) = Inr target" "commit_of w d h = Inr source"
    "merged_ok (cenv_of E encode ctx w) source target d c d2"
    "d' = move_branch (br_id branch) (cm_hash c) d2"
proof -
  have id: "repo_id w = rid" using view by (simp add: view_ok_def)
  let ?C = "cenv_of E encode ctx w"
  obtain branch source target best d1 d2 where m: "wr_branch w = Some branch"
    "commit_of w d (br_commit branch) = Inr target" "commit_of w d h = Inr source"
    "findBestAncestor ?C source target d = Some (Inr best, d1)"
    "merge ?C best source target msg res d1 = Some (Inr c, d2)"
    "d' = move_branch (br_id branch) (cm_hash c) d2"
    using Merge_InrD [OF run] by blast
  have nodes: "\<forall>x. source = Some x \<or> target = Some x \<longrightarrow> node_ok rid d x"
    using commit_of_node [OF id] m(2,3) by blast
  have f: "found_ok ?C d best d1"
    using findBestAncestor_ok [OF m(4)] ok nodes by (simp add: id)
  have grow: "grows_commits rid d d1" and ok1: "db_ok encode rid d1" using f by (simp_all add: found_ok_def id)
  have "merged_ok ?C source target d1 c d2"
    by (rule merge_ok [OF _ _ _ m(5)]) (use ok1 nodes node_ok_grows [OF _ grow] in \<open>auto simp: id\<close>)
  with grow have "merged_ok ?C source target d c d2"
    using grows_trans by (auto simp: merged_ok_def id)
  with m that show thesis by blast
qed

lemma Merge_ok:
  assumes ok: "db_ok encode rid d" and view: "view_ok rid d w"
    and run: "Merge E encode ctx h msg res w d = Some (r, d')"
  shows "op_ok encode rid d w d'"
proof (cases r)
  case (Inl e)
  with Merge_InlD run op_ok_refl [OF ok view] show ?thesis by blast
next
  case (Inr c)
  have id: "repo_id w = rid" using view by (simp add: view_ok_def)
  obtain source target d2 and branch :: branch
    where m: "merged_ok (cenv_of E encode ctx w) source target d c d2"
    "d' = move_branch (br_id branch) (cm_hash c) d2"
    by (rule Merge_InrD_ok [OF ok view run [unfolded Inr]])
  have new: "db_ok encode rid d2" "grows_commits rid d d2" "node_ok rid d2 c"
    using merged_okD [OF m(1)] by (simp_all add: id)
  have "db_ok encode rid d'" unfolding m(2) by (rule move_branch_ok [OF new(1) node_is_stored [OF new(3)]])
  moreover have g: "grows_commits rid d d'"
    unfolding m(2) by (rule grows_trans [OF new(2)]) (simp add: grows_commits_def)
  ultimately show ?thesis using view_ok_grows [OF view g] by (simp add: op_ok_def)
qed

subsection \<open>Sessions\<close>

text \<open>
  One operation of one session. Clock, digests, coder and context may differ from call to call;
  a call that does not return is no step.
\<close>

inductive session_step :: "(bytes \<Rightarrow> string) \<Rightarrow> work_repo \<times> db \<Rightarrow> work_repo \<times> db \<Rightarrow> bool"
  for encode :: "bytes \<Rightarrow> string"
where
  step_Reset: "session_step encode (w, d) (Reset w, d)"
| step_CheckOut: "CheckOut decode refType refName d w = (r, w') \<Longrightarrow> session_step encode (w, d) (w', d)"
| step_rootTree: "rootTree w d = (t, w') \<Longrightarrow> session_step encode (w, d) (w', d)"
| step_Revert: "Revert E ctx path w d = Some (r, w', d') \<Longrightarrow> session_step encode (w, d) (w', d')"
| step_GetOrCreateWip: "GetOrCreateWip E w d = (x, w', d') \<Longrightarrow> session_step encode (w, d) (w', d')"
| step_DeleteWip: "DeleteWip w d = (r, d') \<Longrightarrow> session_step encode (w, d) (w, d')"
| step_ChangeInWip: "ChangeInWip E f w d = (r, w', d') \<Longrightarrow> session_step encode (w, d) (w', d')"
| step_CommitChanges: "CommitChanges E msg w d = (c, w', d') \<Longrightarrow> session_step encode (w, d) (w', d')"
| step_ChangeAndCommit: "ChangeAndCommit E msg f w d = (c, w', d') \<Longrightarrow> session_step encode (w, d) (w', d')"
| step_CreateBranch: "CreateBranch E nm w d = (b, d') \<Longrightarrow> session_step encode (w, d) (w, d')"
| step_DeleteBranch: "DeleteBranch w d = (r, d') \<Longrightarrow> session_step encode (w, d) (w, d')"
| step_CreateTag: "CreateTag E nm m w d = (t, d') \<Longrightarrow> session_step encode (w, d) (w, d')"
| step_DeleteTag: "DeleteTag w d = (r, d') \<Longrightarrow> session_step encode (w, d) (w, d')"
| step_Merge: "Merge E encode ctx h msg res w d = Some (c, d') \<Longrightarrow> session_step encode (w, d) (w, d')"

lemma Reset_view: "view_ok rid d w \<Longrightarrow> view_ok rid d (Reset w)"
  by (simp add: Reset_def view_ok_def setCurState_def repo_id_def)

lemma session_step_ok:
  assumes "session_step encode (w, d) (w', d')" "db_ok encode rid d" "view_ok rid d w"
  shows "op_ok encode rid d w' d'"
proof -
  note ok = assms(2,3)
  have view: "op_ok encode rid d w1 d" if "view_ok rid d w1" for w1 by (rule op_ok_refl [OF ok(1) that])
  have q: "op_ok encode rid d w1 d1" if "quiet d d1 \<and> view_ok rid d w1" for w1 d1
    using that quiet_ok [OF ok(1), of d1 w1] quiet_db(2) by blast
  show ?thesis using assms(1)
  proof cases
    case step_Reset then show ?thesis using view Reset_view [OF ok(2)] by simp
  next
    case (step_CheckOut decode refType refName r)
    then show ?thesis using view CheckOut_view [OF ok, of decode refType refName] by simp
  next
    case (step_rootTree t) then show ?thesis using view rootTree_view [OF ok] by simp
  next
    case (step_Revert E ctx path r) then show ?thesis using q Revert_quiet [OF ok(2)] by blast
  next
    case (step_GetOrCreateWip E x) then show ?thesis using q GetOrCreateWip_quiet [OF ok(2)] by blast
  next
    case (step_DeleteWip r) then show ?thesis using q ok(2) DeleteWip_quiet by blast
  next
    case (step_ChangeInWip E f r) then show ?thesis by (rule ChangeInWip_ok [OF ok])
  next
    case (step_CommitChanges E msg c) then show ?thesis by (rule CommitChanges_ok [OF ok])
  next
    case (step_ChangeAndCommit E msg f c) then show ?thesis by (rule ChangeAndCommit_ok [OF ok])
  next
    case (step_CreateBranch E nm b) then show ?thesis using CreateBranch_ok [OF ok] by blast
  next
    case (step_DeleteBranch r) then show ?thesis using DeleteBranch_ok [OF ok] by blast
  next
    case (step_CreateTag E nm m t) then show ?thesis using CreateTag_ok [OF ok] by blast
  next
    case (step_DeleteTag r) then show ?thesis using DeleteTag_ok [OF ok] by blast
  next
    case (step_Merge E ctx h msg res c) then show ?thesis using Merge_ok [OF ok] by blast
  qed
qed

end
