(* ===== verification/Work_Tree_Spec.thy ===== *)
theory Work_Tree_Spec
  imports Work_Tree
begin

section \<open>Editing a written-out tree\<close>

text \<open>
  The specification of \<open>WorkTree\<close>: finding, adding, replacing and removing on \<^typ>\<open>dtree\<close>, with
  the errors of the code, and what each does to the map from paths to file hashes.
\<close>

fun dt_find :: "string list \<Rightarrow> dtree \<Rightarrow> ((string \<times> dtree) list \<times> string list) result" where
  "dt_find [] d = Inr ([], [])"
| "dt_find (n # ns) d =
     (case map_of (kids_of d) n of
        None \<Rightarrow> Inr ([], n # ns)
      | Some (DFile h) \<Rightarrow> if ns \<noteq> [] then Inl ErrBlobMustBeLeaf else Inr ([(n, DFile h)], [])
      | Some (DDir ks) \<Rightarrow>
          (case dt_find ns (DDir ks) of
             Inl e \<Rightarrow> Inl e
           | Inr (xs, missing) \<Rightarrow> Inr ((n, DDir ks) # xs, missing)))"

fun chain :: "string list \<Rightarrow> dtree \<Rightarrow> dtree" where
  "chain [] d = d"
| "chain (n # ns) d = DDir [(n, chain ns d)]"

definition put_kid :: "string \<Rightarrow> dtree \<Rightarrow> (string \<times> dtree) list \<Rightarrow> (string \<times> dtree) list" where
  "put_kid n d kids = map (\<lambda>k. if fst k = n then (n, d) else k) kids"

definition drop_kid :: "string \<Rightarrow> (string \<times> dtree) list \<Rightarrow> (string \<times> dtree) list" where
  "drop_kid n kids = filter (\<lambda>k. fst k \<noteq> n) kids"

fun dt_add :: "string list \<Rightarrow> hash \<Rightarrow> dtree \<Rightarrow> dtree result" where
  "dt_add [] h d = Inl ErrEntryExit"
| "dt_add (n # ns) h d =
     (case map_of (kids_of d) n of
        None \<Rightarrow>
          if [] \<in> set (n # ns) then Inl (ErrMsg ''name is empty'')
          else Inr (DDir (insort_key fst (n, chain ns (DFile h)) (kids_of d)))
      | Some (DFile _) \<Rightarrow> if ns \<noteq> [] then Inl ErrBlobMustBeLeaf else Inl ErrEntryExit
      | Some (DDir ks) \<Rightarrow>
          (case dt_add ns h (DDir ks) of
             Inl e \<Rightarrow> Inl e
           | Inr sub \<Rightarrow> Inr (DDir (put_kid n sub (kids_of d)))))"

fun dt_replace :: "string list \<Rightarrow> hash \<Rightarrow> dtree \<Rightarrow> dtree result" where
  "dt_replace [] h d = Inr (DFile h)"
| "dt_replace (n # ns) h d =
     (case map_of (kids_of d) n of
        None \<Rightarrow> Inl ErrPathNotFound
      | Some (DFile _) \<Rightarrow>
          if ns \<noteq> [] then Inl ErrBlobMustBeLeaf else Inr (DDir (put_kid n (DFile h) (kids_of d)))
      | Some (DDir ks) \<Rightarrow>
          (case dt_replace ns h (DDir ks) of
             Inl e \<Rightarrow> Inl e
           | Inr sub \<Rightarrow> Inr (DDir (put_kid n sub (kids_of d)))))"

text \<open>Removing: \<open>None\<close> when nothing is left of the tree.\<close>

fun dt_remove :: "string list \<Rightarrow> dtree \<Rightarrow> dtree option result" where
  "dt_remove [] d = Inr None"
| "dt_remove (n # ns) d =
     (let without = (let ks = drop_kid n (kids_of d) in if ks = [] then None else Some (DDir ks)) in
      case map_of (kids_of d) n of
        None \<Rightarrow> Inl ErrPathNotFound
      | Some (DFile _) \<Rightarrow> if ns \<noteq> [] then Inl ErrBlobMustBeLeaf else Inr without
      | Some (DDir ks) \<Rightarrow>
          (case dt_remove ns (DDir ks) of
             Inl e \<Rightarrow> Inl e
           | Inr None \<Rightarrow> Inr without
           | Inr (Some sub) \<Rightarrow> Inr (Some (DDir (put_kid n sub (kids_of d))))))"

subsection \<open>Well-formed trees stay well-formed\<close>

lemma put_kid_names [simp]: "map fst (put_kid n d kids) = map fst kids"
  by (simp add: put_kid_def comp_def)

lemma kids_of_DDir [simp]: "kids_of (DDir ks) = ks" "kids_of (DFile h) = []"
  by (simp_all add: kids_of_def)

lemma put_kid_set: "k \<in> set (put_kid n d kids) \<Longrightarrow> k = (n, d) \<or> k \<in> set kids"
  by (auto simp: put_kid_def)

lemma put_kid_mem: "map_of kids n = Some x \<Longrightarrow> (n, d) \<in> set (put_kid n d kids)"
  by (force simp: put_kid_def dest: map_of_SomeD)

lemma put_kid_Nil [simp]: "put_kid n d kids = [] \<longleftrightarrow> kids = []"
  by (simp add: put_kid_def)

lemma dt_ok_map_of:
  "dt_ok d \<Longrightarrow> map_of (kids_of d) n = Some x \<Longrightarrow> valid_name n \<and> x \<noteq> DDir [] \<and> dt_ok x"
  by (drule map_of_SomeD) (auto dest: dt_ok_kids)

lemma dt_ok_put_kid:
  assumes "dt_ok d" "map_of (kids_of d) n = Some x" "dt_ok y" "y \<noteq> DDir []"
  shows "dt_ok (DDir (put_kid n y (kids_of d)))"
  using assms dt_ok_kids [OF assms(1)] dt_ok_names [OF assms(1)] dt_ok_map_of [OF assms(1,2)]
  by (auto simp: dest!: put_kid_set)

lemma dt_ok_drop_kid: "dt_ok d \<Longrightarrow> dt_ok (DDir (drop_kid n (kids_of d)))"
  using dt_ok_kids [of d] dt_ok_names [of d]
  by (auto simp: drop_kid_def sorted_filter distinct_map_filter)

lemma dt_ok_chain:
  "\<forall>n \<in> set ns. valid_name n \<Longrightarrow> dt_ok (chain ns (DFile h)) \<and> chain ns (DFile h) \<noteq> DDir []"
  by (induction ns) auto

lemma dt_ok_insort:
  assumes "dt_ok d" "map_of (kids_of d) n = None" "valid_name n" "dt_ok x" "x \<noteq> DDir []"
  shows "dt_ok (DDir (insort_key fst (n, x) (kids_of d)))"
  using assms dt_ok_kids [OF assms(1)] dt_ok_names [OF assms(1)]
  by (auto simp: sorted_insort_key set_insort_key distinct_insort_key map_of_eq_None_iff)

lemma insort_key_Nil [simp]: "insort_key f x xs \<noteq> []"
  by (cases xs) auto

lemma dt_add_ok:
  "dt_ok d \<Longrightarrow> dt_add segs h d = Inr d' \<Longrightarrow> \<forall>n \<in> set segs. CHR ''/'' \<notin> set n \<Longrightarrow>
    dt_ok d' \<and> is_ddir d' \<and> d' \<noteq> DDir []"
proof (induction segs h d arbitrary: d' rule: dt_add.induct)
  case (2 n ns h d)
  show ?case
  proof (cases "map_of (kids_of d) n")
    case None
    with 2(3) have ne: "[] \<notin> set (n # ns)" "d' = DDir (insort_key fst (n, chain ns (DFile h)) (kids_of d))"
      by (auto split: if_splits)
    with 2(4) have "\<forall>x \<in> set (n # ns). valid_name x" by (auto simp: valid_name_def)
    then show ?thesis
      using ne(2) dt_ok_insort [OF 2(2) None, of "chain ns (DFile h)"] dt_ok_chain [of ns h] by simp
  next
    case (Some x)
    with 2(3) obtain ks sub where sub: "x = DDir ks" "dt_add ns h (DDir ks) = Inr sub"
      "d' = DDir (put_kid n sub (kids_of d))"
      by (auto split: dtree.splits sum.splits if_splits)
    have "dt_ok sub \<and> sub \<noteq> DDir []"
      using 2(1) [OF Some sub(1) _ sub(2)] dt_ok_map_of [OF 2(2) Some] 2(4) sub(1) by auto
    then show ?thesis
      using dt_ok_put_kid [OF 2(2) Some] sub(3) Some by auto
  qed
qed simp


lemma dt_replace_ok:
  "dt_ok d \<Longrightarrow> dt_replace segs h d = Inr d' \<Longrightarrow> dt_ok d' \<and> d' \<noteq> DDir [] \<and> (segs \<noteq> [] \<longrightarrow> is_ddir d')"
proof (induction segs h d arbitrary: d' rule: dt_replace.induct)
  case (2 n ns h d)
  then obtain x where x: "map_of (kids_of d) n = Some x" by (auto split: option.splits)
  note put = dt_ok_put_kid [OF 2(2) x]
  have ne: "kids_of d \<noteq> []" using x by auto
  show ?case
  proof (cases x)
    case (DFile g)
    with 2(3) x have "d' = DDir (put_kid n (DFile h) (kids_of d))" by (auto split: if_splits)
    with put [of "DFile h"] ne show ?thesis by simp
  next
    case (DDir ks)
    with 2(3) x obtain sub where sub: "dt_replace ns h (DDir ks) = Inr sub"
      "d' = DDir (put_kid n sub (kids_of d))"
      by (auto split: sum.splits)
    have "dt_ok sub \<and> sub \<noteq> DDir []"
      using 2(1) [OF x DDir _ sub(1)] dt_ok_map_of [OF 2(2) x] DDir by simp
    with put [of sub] sub(2) ne show ?thesis by simp
  qed
qed auto

lemma dt_remove_ok:
  "dt_ok d \<Longrightarrow> dt_remove segs d = Inr (Some d') \<Longrightarrow> dt_ok d' \<and> is_ddir d' \<and> d' \<noteq> DDir []"
proof (induction segs d arbitrary: d' rule: dt_remove.induct)
  case (2 n ns d)
  have drop: ?case if "d' = DDir (drop_kid n (kids_of d))" "drop_kid n (kids_of d) \<noteq> []"
    using dt_ok_drop_kid [OF 2(2), of n] that by simp
  obtain x where x: "map_of (kids_of d) n = Some x" using 2(3) by (auto simp: Let_def split: option.splits)
  show ?case
  proof (cases x)
    case (DFile g)
    with 2(3) x drop show ?thesis by (auto simp: Let_def split: if_splits)
  next
    case (DDir ks)
    show ?thesis
    proof (cases "dt_remove ns (DDir ks)")
      case (Inr r)
      show ?thesis
      proof (cases r)
        case None
        with Inr DDir 2(3) x drop show ?thesis by (auto simp: Let_def split: if_splits)
      next
        case (Some sub)
        then have "dt_ok sub \<and> sub \<noteq> DDir []"
          using 2(1) [OF refl x DDir, of sub] Inr dt_ok_map_of [OF 2(2) x] DDir by simp
        moreover have "d' = DDir (put_kid n sub (kids_of d))"
          using 2(3) x DDir Inr Some by (simp add: Let_def)
        ultimately show ?thesis using dt_ok_put_kid [OF 2(2) x, of sub] x by auto
      qed
    qed (use 2(3) x DDir in \<open>simp add: Let_def\<close>)
  qed
qed simp

subsection \<open>The map of files\<close>

lemma map_of_under:
  "map_of (map (\<lambda>(ns, h). (n # ns, h)) fs) x =
     (case x of [] \<Rightarrow> None | m # ms \<Rightarrow> if m = n then map_of fs ms else None)"
  by (induction fs) (auto split: list.splits)

lemma file_map_simps:
  "file_map (DFile h) [] = Some h" "file_map (DFile h) (n # ns) = None" "file_map (DDir kids) [] = None"
proof -
  show "file_map (DFile h) [] = Some h" "file_map (DFile h) (n # ns) = None"
    by (simp_all add: file_map_def)
  show "file_map (DDir kids) [] = None"
    by (auto simp: file_map_def map_of_eq_None_iff)
qed

lemma file_map_kids:
  "distinct (map fst kids) \<Longrightarrow> file_map (DDir kids) (n # ns) =
     (case map_of kids n of None \<Rightarrow> None | Some d \<Rightarrow> file_map d ns)"
proof (induction kids)
  case (Cons k kids)
  have rest: "map_of kids (fst k) = None" using Cons.prems by (simp add: map_of_eq_None_iff)
  have "file_map (DDir (k # kids)) (n # ns) =
      (case map_of (map (\<lambda>(ns, h). (fst k # ns, h)) (dt_files (snd k))) (n # ns) of
         None \<Rightarrow> file_map (DDir kids) (n # ns) | Some h \<Rightarrow> Some h)"
    unfolding file_map_def dt_files.simps list.map concat.simps map_of_append map_add_def by (rule refl)
  also have "\<dots> = (case (if n = fst k then file_map (snd k) ns else None) of
      None \<Rightarrow> file_map (DDir kids) (n # ns) | Some h \<Rightarrow> Some h)"
    by (simp add: map_of_under file_map_def)
  also have "\<dots> = (case map_of (k # kids) n of None \<Rightarrow> None | Some d \<Rightarrow> file_map d ns)"
    using Cons rest by (cases k) (auto split: option.splits)
  finally show ?case .
qed (simp add: file_map_def)


lemma file_map_dt:
  "dt_ok d \<Longrightarrow> is_ddir d \<Longrightarrow> file_map d (n # ns) =
     (case map_of (kids_of d) n of None \<Rightarrow> None | Some x \<Rightarrow> file_map x ns)"
  by (cases d) (auto simp: file_map_kids)

lemma map_of_put_kid:
  "map_of (put_kid n d kids) m = (if m = n \<and> map_of kids n \<noteq> None then Some d else map_of kids m)"
  by (induction kids) (auto simp: put_kid_def)

lemma map_of_drop_kid: "map_of (drop_kid n kids) m = (if m = n then None else map_of kids m)"
  by (induction kids) (auto simp: drop_kid_def)

lemma map_of_insort:
  assumes "distinct (map fst kids)" "map_of kids (fst k) = None"
  shows "map_of (insort_key fst k kids) m = (if m = fst k then Some (snd k) else map_of kids m)"
  using assms
proof (induction kids)
  case (Cons x kids)
  then show ?case by (cases x) (auto split: if_splits)
qed auto

lemma file_map_chain:
  "file_map (chain ns (DFile h)) x = (if x = ns then Some h else None)"
proof (induction ns arbitrary: x)
  case Nil
  then show ?case by (cases x) (simp_all add: file_map_simps)
next
  case (Cons n ns)
  then show ?case by (cases x) (auto simp: file_map_simps file_map_kids)
qed

lemma file_map_add:
  "dt_ok d \<Longrightarrow> is_ddir d \<Longrightarrow> dt_add segs h d = Inr d' \<Longrightarrow> \<forall>n \<in> set segs. CHR ''/'' \<notin> set n \<Longrightarrow>
    file_map d' = (file_map d)(segs \<mapsto> h)"
proof (induction segs h d arbitrary: d' rule: dt_add.induct)
  case (2 n ns h d)
  note ok = dt_add_ok [OF 2(2) 2(4) 2(5)]
  have "file_map d' x = ((file_map d)(n # ns \<mapsto> h)) x" for x
  proof (cases x)
    case Nil
    then show ?thesis using ok 2(3) by (cases d; cases d') (auto simp: file_map_simps)
  next
    case (Cons m ms)
    show ?thesis
    proof (cases "map_of (kids_of d) n")
      case None
      with 2(4) have d': "d' = DDir (insort_key fst (n, chain ns (DFile h)) (kids_of d))"
        by (auto split: if_splits)
      have "map_of (kids_of d') m = (if m = n then Some (chain ns (DFile h)) else map_of (kids_of d) m)"
        using map_of_insort [of "kids_of d" "(n, chain ns (DFile h))" m] None dt_ok_names [OF 2(2)]
        by (simp add: d')
      with ok 2(2,3) Cons None show ?thesis by (auto simp: file_map_dt file_map_chain split: option.split)
    next
      case (Some y)
      with 2(4) obtain ks sub where sub: "y = DDir ks" "dt_add ns h (DDir ks) = Inr sub"
        "d' = DDir (put_kid n sub (kids_of d))"
        by (auto split: dtree.splits sum.splits if_splits)
      have "file_map sub = (file_map (DDir ks))(ns \<mapsto> h)"
        using 2(1) [OF Some sub(1) _ _ sub(2)] dt_ok_map_of [OF 2(2) Some] 2(5) sub(1)
        by (simp add: fun_upd_def)
      with ok 2(2,3) Cons Some sub show ?thesis
        by (auto simp: file_map_dt map_of_put_kid split: option.split)
    qed
  qed
  then show ?case by blast
qed simp

text \<open>What is at or below a path goes away.\<close>

definition map_cut :: "string list \<Rightarrow> (string list \<Rightarrow> hash option) \<Rightarrow> string list \<Rightarrow> hash option" where
  "map_cut segs f = (\<lambda>x. if prefix segs x then None else f x)"

lemma file_map_replace:
  "dt_ok d \<Longrightarrow> is_ddir d \<Longrightarrow> segs \<noteq> [] \<Longrightarrow> dt_replace segs h d = Inr d' \<Longrightarrow>
    file_map d' = (map_cut segs (file_map d))(segs \<mapsto> h)"
proof (induction segs h d arbitrary: d' rule: dt_replace.induct)
  case (2 n ns h d)
  note ok = dt_replace_ok [OF 2(2) 2(5)]
  obtain y where y: "map_of (kids_of d) n = Some y" using 2(5) by (auto split: option.splits)
  obtain sub where sub: "d' = DDir (put_kid n sub (kids_of d))"
    "file_map sub = (map_cut ns (file_map y))(ns \<mapsto> h)"
  proof (cases "ns = []")
    case True
    have "file_map (DFile h) = (map_cut [] (file_map y))([] \<mapsto> h)"
      by (rule ext, rename_tac x, case_tac x) (auto simp: file_map_simps map_cut_def)
    with that [of "DFile h"] 2(5) y True show ?thesis by (auto split: dtree.splits)
  next
    case False
    with 2(5) y obtain ks sub where s: "y = DDir ks" "dt_replace ns h (DDir ks) = Inr sub"
      "d' = DDir (put_kid n sub (kids_of d))"
      by (auto split: dtree.splits sum.splits if_splits)
    with that [of sub] 2(1) [OF y s(1) _ _ False s(2)] dt_ok_map_of [OF 2(2) y] show ?thesis
      by (simp add: fun_upd_def)
  qed
  have "file_map d' x = ((map_cut (n # ns) (file_map d))(n # ns \<mapsto> h)) x" for x
  proof (cases x)
    case Nil
    then show ?thesis using ok 2(3) by (cases d; cases d') (auto simp: file_map_simps map_cut_def)
  next
    case (Cons m ms)
    with ok 2(2,3) y sub show ?thesis
      by (auto simp: file_map_dt map_of_put_kid map_cut_def split: option.split)
  qed
  then show ?case by blast
qed simp

definition opt_file_map :: "dtree option \<Rightarrow> string list \<Rightarrow> hash option" where
  "opt_file_map d = (case d of None \<Rightarrow> (\<lambda>_. None) | Some d' \<Rightarrow> file_map d')"

lemma file_map_drop:
  assumes "dt_ok d" "is_ddir d" "r = (if drop_kid n (kids_of d) = [] then None else Some (DDir (drop_kid n (kids_of d))))"
  shows "opt_file_map r = map_cut [n] (file_map d)"
proof
  fix x
  have ok: "dt_ok (DDir (drop_kid n (kids_of d)))" by (rule dt_ok_drop_kid [OF assms(1)])
  have "file_map (DDir (drop_kid n (kids_of d))) x = map_cut [n] (file_map d) x"
  proof (cases x)
    case Nil
    then show ?thesis using assms(2) by (cases d) (auto simp: file_map_simps map_cut_def)
  next
    case (Cons m ms)
    with ok assms(1,2) show ?thesis
      by (auto simp: file_map_dt map_of_drop_kid map_cut_def)
  qed
  moreover have "file_map (DDir []) x = None" by (simp add: file_map_def)
  ultimately show "opt_file_map r x = map_cut [n] (file_map d) x"
    by (auto simp: assms(3) opt_file_map_def)
qed

lemma file_map_remove:
  "dt_ok d \<Longrightarrow> is_ddir d \<Longrightarrow> segs \<noteq> [] \<Longrightarrow> dt_remove segs d = Inr r \<Longrightarrow>
    opt_file_map r = map_cut segs (file_map d)"
proof (induction segs d arbitrary: r rule: dt_remove.induct)
  case (2 n ns d)
  let ?without = "if drop_kid n (kids_of d) = [] then None else Some (DDir (drop_kid n (kids_of d)))"
  obtain y where y: "map_of (kids_of d) n = Some y" using 2(5) by (auto simp: Let_def split: option.splits)
  have yok: "dt_ok y" using dt_ok_map_of [OF 2(2) y] by simp
  have gone: ?case if "r = ?without" "\<And>ms. map_cut ns (file_map y) ms = None"
  proof
    fix x
    have "map_cut [n] (file_map d) x = map_cut (n # ns) (file_map d) x"
    proof (cases x)
      case (Cons m ms)
      with 2(2,3) y that(2) [of ms] show ?thesis by (auto simp: map_cut_def file_map_dt split: option.split if_splits)
    qed (use 2(3) in \<open>cases d; simp add: map_cut_def file_map_simps\<close>)
    then show "opt_file_map r x = map_cut (n # ns) (file_map d) x"
      using file_map_drop [OF 2(2,3) that(1)] by simp
  qed
  show ?case
  proof (cases "ns = []")
    case True
    with 2(5) y have "r = ?without" by (auto simp: Let_def split: dtree.splits)
    with gone True show ?thesis by (simp add: map_cut_def)
  next
    case False
    with 2(5) y obtain ks where ks: "y = DDir ks" by (auto simp: Let_def split: dtree.splits)
    with 2(5) y obtain r' where r': "dt_remove ns (DDir ks) = Inr r'"
      by (auto simp: Let_def split: sum.splits)
    have IH: "opt_file_map r' = map_cut ns (file_map y)"
      using 2(1) [OF refl y ks _ _ False r'] yok ks by simp
    show ?thesis
    proof (cases r')
      case None
      with IH have "map_cut ns (file_map y) ms = None" for ms
        by (metis opt_file_map_def option.case(1))
      with gone None 2(5) y ks r' show ?thesis by (simp add: Let_def)
    next
      case (Some sub)
      have d': "r = Some (DDir (put_kid n sub (kids_of d)))" using 2(5) y ks r' Some by (simp add: Let_def)
      have "dt_ok sub \<and> sub \<noteq> DDir []"
        using dt_remove_ok [of "DDir ks" ns sub] yok ks r' Some by simp
      then have "dt_ok (DDir (put_kid n sub (kids_of d)))"
        by (intro dt_ok_put_kid [OF 2(2) y]) simp_all
      moreover have "file_map sub = map_cut ns (file_map y)" using IH Some by (simp add: opt_file_map_def)
      ultimately have "file_map (DDir (put_kid n sub (kids_of d))) x = map_cut (n # ns) (file_map d) x" for x
        using 2(2,3) y
        by (cases x; cases d) (auto simp: file_map_simps file_map_dt map_of_put_kid map_cut_def split: option.split)
      then show ?thesis by (simp add: d' opt_file_map_def ext)
    qed
  qed
qed simp

end
