(* ===== verification/Work_Tree_Refine.thy ===== *)
theory Work_Tree_Refine
  imports Work_Tree_Spec
begin

section \<open>WorkTree implements the editing of trees\<close>

text \<open>
  The code writes directories by their digest and \<open>INSERT ... ON CONFLICT DO NOTHING\<close> drops a
  row whose key exists. So an edit is right as long as the objects of the new tree do not
  collide with one another or with stored rows (\<open>collision_free\<close>, a check over the finitely
  many objects involved) and a digest is never empty. Under these two conditions each operation
  is proved to move the root to the edited tree and to keep every stored row.
\<close>

definition subtrees :: "dtree \<Rightarrow> dtree list" where
  "subtrees d = d # strict_subs d"

definition row_of :: "env \<Rightarrow> dtree \<Rightarrow> file_tree \<Rightarrow> bool" where
  "row_of E d f = (case d of DFile _ \<Rightarrow> file_row f | DDir kids \<Rightarrow> dir_row (listing E kids) f)"

definition collision_free :: "env \<Rightarrow> uuid \<Rightarrow> tree_table \<Rightarrow> dtree list \<Rightarrow> bool" where
  "collision_free E repo st D \<longleftrightarrow>
     list_all (\<lambda>x. (case lookup_tree (dt_hash E x, repo) st of None \<Rightarrow> True | Some f \<Rightarrow> row_of E x f) \<and>
       list_all (\<lambda>y. dt_hash E x = dt_hash E y \<longrightarrow> x = y) D) D"

definition digest_nonempty :: "env \<Rightarrow> bool" where
  "digest_nonempty E \<longleftrightarrow> (\<forall>bs. env_md5 E bs \<noteq> [])"

text \<open>A later table: nothing lost, and what is new are rows of objects of \<open>D\<close>.\<close>

definition grows :: "env \<Rightarrow> uuid \<Rightarrow> dtree list \<Rightarrow> tree_table \<Rightarrow> tree_table \<Rightarrow> bool" where
  "grows E repo D st st' \<longleftrightarrow> trees.extends st st' \<and>
     (\<forall>k f. lookup_tree k st' = Some f \<longrightarrow> lookup_tree k st = Some f \<or>
       (\<exists>x \<in> set D. k = (dt_hash E x, repo) \<and> row_of E x f))"

lemma grows_extends: "grows E repo D st st' \<Longrightarrow> trees.extends st st'"
  by (simp add: grows_def)

lemma grows_refl: "grows E repo D st st"
  by (simp add: grows_def trees.extends_refl)

lemma stored_row_of:
  "stored E repo st d \<longleftrightarrow> (\<exists>f. lookup_tree (dt_hash E d, repo) st = Some f \<and> row_of E d f) \<and>
     (\<forall>k \<in> set (kids_of d). stored E repo st (snd k))"
  by (cases d) (auto simp: row_of_def split: option.splits)

lemma stored_extends: "stored E repo st d \<Longrightarrow> trees.extends st st' \<Longrightarrow> stored E repo st' d"
proof (induction d)
  case (DFile h)
  then show ?case by (auto simp: trees.extends_def split: option.splits)
next
  case (DDir kids)
  then have "\<forall>k \<in> set kids. stored E repo st' (snd k)" by (auto simp: snds.simps)
  with DDir.prems show ?case by (auto simp: trees.extends_def split: option.splits)
qed

lemma collision_freeD:
  assumes "collision_free E repo st D" "x \<in> set D"
  shows "lookup_tree (dt_hash E x, repo) st = Some f \<Longrightarrow> row_of E x f"
    "y \<in> set D \<Longrightarrow> dt_hash E x = dt_hash E y \<Longrightarrow> x = y"
  using assms by (auto simp: collision_free_def list_all_iff split: option.splits)

text \<open>One write of an object of \<open>D\<close>.\<close>

lemma write_object:
  assumes cf: "collision_free E repo st D" and g: "grows E repo D st st1"
    and x: "x \<in> set D" and row: "row_of E x r" "ft_key r = (dt_hash E x, repo)"
    and kids: "\<forall>k \<in> set (kids_of x). stored E repo st1 (snd k)"
  shows "grows E repo D st (put_tree r st1)" "stored E repo (put_tree r st1) x"
proof -
  have ext: "trees.extends st1 (put_tree r st1)" by (rule trees.extends_put)
  then have "trees.extends st (put_tree r st1)"
    using g trees.extends_trans by (auto simp: grows_def)
  then show "grows E repo D st (put_tree r st1)"
    using g row x by (auto simp: grows_def lookup_put_tree split: if_splits)
  have "row_of E x f" if "lookup_tree (dt_hash E x, repo) st1 = Some f" for f
    using g that collision_freeD [OF cf x] unfolding grows_def by blast
  then have "\<exists>f. lookup_tree (dt_hash E x, repo) (put_tree r st1) = Some f \<and> row_of E x f"
    using row by (auto simp: lookup_put_tree)
  moreover have "\<forall>k \<in> set (kids_of x). stored E repo (put_tree r st1) (snd k)"
    using kids stored_extends [OF _ ext] by blast
  ultimately show "stored E repo (put_tree r st1) x" by (simp add: stored_row_of [of E repo _ x])
qed

lemma SortSubObjects_listing:
  assumes "sorted (map fst kids)"
  shows "SortSubObjects (listing E kids) = listing E kids"
  using assms by (simp add: SortSubObjects_def sort_key_idem)

lemma write_dir:
  assumes cf: "collision_free E repo st D" and g: "grows E repo D st st1"
    and x: "DDir kids \<in> set D" and kids: "\<forall>k \<in> set kids. stored E repo st1 (snd k)"
    and subs: "SortSubObjects subs = listing E kids"
  shows "\<exists>st2. insert_tree repo (models_NewTreeNode E DefaultDirProperty repo subs) st1 =
      (Inr (models_NewTreeNode E DefaultDirProperty repo subs), st2) \<and>
    tn_hash (models_NewTreeNode E DefaultDirProperty repo subs) = dt_hash E (DDir kids) \<and>
    grows E repo D st st2 \<and> trees.extends st1 st2 \<and> stored E repo st2 (DDir kids)"
proof -
  let ?tn = "models_NewTreeNode E DefaultDirProperty repo subs"
  let ?r = "TreeNode_FileTree ?tn"
  have hash: "tn_hash ?tn = dt_hash E (DDir kids)" using subs by (simp add: dt_hash_listing)
  have "row_of E (DDir kids) ?r" using subs by (simp add: row_of_def dir_row_def TreeNode_FileTree_def)
  from write_object [OF cf g x this] kids hash
  have "grows E repo D st (put_tree ?r st1)" "stored E repo (put_tree ?r st1) (DDir kids)" by simp_all
  moreover have "insert_tree repo ?tn st1 = (Inr ?tn, put_tree ?r st1)"
    by (simp add: insert_tree_def FileTreeRepo_Insert_def TreeNode_FileTree_def [of ?tn, THEN arg_cong, of ft_repo])
  ultimately show ?thesis using hash trees.extends_put [of st1 ?r] by blast
qed


subsection \<open>Reading\<close>

lemma find_listing:
  "find (\<lambda>e. te_name e = name) (listing E kids) =
     map_option (\<lambda>d. dt_entry E (name, d)) (map_of kids name)"
  by (induction kids) (auto simp: listing_def)

definition obj :: "env \<Rightarrow> uuid \<Rightarrow> tree_table \<Rightarrow> string \<times> dtree \<Rightarrow> full_object" where
  "obj E repo st k =
     (let row = the (lookup_tree (dt_hash E (snd k), repo) st) in
      \<lparr>fo_node = (if is_ddir (snd k) then TreeNode_FileTree (FileTree_TreeNode row)
                  else Blob_FileTree (FileTree_Blob row)),
       fo_entry = dt_entry E k\<rparr>)"

lemma obj_entry [simp]: "fo_entry (obj E repo st k) = dt_entry E k"
  by (simp add: obj_def Let_def)

lemma find_segs_dt:
  "lists_kids E repo st n (kids_of d) \<Longrightarrow>
    find_segs repo st n segs ex =
      (case dt_find segs d of Inl e \<Rightarrow> Inl e | Inr (xs, m) \<Rightarrow> Inr (ex @ map (obj E repo st) xs, m))"
proof (induction segs arbitrary: n d ex)
  case (Cons seg segs)
  let ?kids = "kids_of d"
  have subs: "vt_SubObjects n = listing E ?kids" using Cons.prems by (simp add: lists_kids_def)
  show ?case
  proof (cases "map_of ?kids seg")
    case None
    then show ?thesis by (simp add: SubEntry_def subs find_listing)
  next
    case (Some x)
    have mem: "(seg, x) \<in> set ?kids" using Some by (rule map_of_SomeD)
    then have st: "stored E repo st x" "dt_ok x" "seg \<noteq> []"
      using Cons.prems by (auto simp: lists_kids_def valid_name_def)
    have entry: "SubEntry n seg = Inr (dt_entry E (seg, x))"
      using Some by (simp add: SubEntry_def subs find_listing)
    show ?thesis
    proof (cases x)
      case (DFile h)
      then obtain f where f: "lookup_tree (h, repo) st = Some f" using st(1) by (auto split: option.splits)
      have "SubFile repo st n seg = Inr (FileTree_Blob f)"
        using Some DFile f by (simp add: SubFile_def subs find_listing FileTreeRepo_Blob_def)
      then show ?thesis using entry Some DFile f by (simp add: obj_def)
    next
      case (DDir ks)
      have sub: "SubDir repo st n seg = Inr (vt_of E repo st (seg, x))"
        using Some DDir st NewTreeNode_stored [of E repo st "(seg, x)"] by (simp add: SubDir_def subs find_listing)
      have "lists_kids E repo st (vt_of E repo st (seg, x)) (kids_of x)"
        using vt_of_kids [of E repo st "(seg, x)"] st by simp
      from Cons.IH [OF this] show ?thesis
        using entry sub Some DDir
        by (auto simp: obj_def vt_of_def split: sum.split)
    qed
  qed
qed simp

definition opens :: "env \<Rightarrow> uuid \<Rightarrow> tree_table \<Rightarrow> tree_entry \<Rightarrow> dtree \<Rightarrow> bool" where
  "opens E repo st e d \<longleftrightarrow> (\<exists>n. NewTreeNode repo st e = Inr n \<and> lists_kids E repo st n (kids_of d) \<and>
     (d \<noteq> DDir [] \<longrightarrow> vt_Properties n = DefaultDirProperty))"

lemma opens_stored:
  assumes "stored E repo st d" "dt_ok d" "is_ddir d" "digest_nonempty E" "te_hash e = dt_hash E d"
  shows "opens E repo st e d"
proof -
  obtain kids where d: "d = DDir kids" using assms(3) by (cases d) auto
  obtain f where f: "lookup_tree (dt_hash E d, repo) st = Some f" "dir_row (listing E kids) f"
    using assms(1) d by (auto split: option.splits)
  have "dt_hash E d \<noteq> []" using assms(4) by (simp add: d dt_hash_listing digest_nonempty_def)
  then have "NewTreeNode repo st e = Inr \<lparr>vt_entry = e, vt_node = FileTree_TreeNode f\<rparr>"
    using f(1) assms(5)
    by (simp add: NewTreeNode_def TreeEntry_Equal_def EmptyDirEntry_def FileTreeRepo_TreeNode_def)
  moreover have "lists_kids E repo st \<lparr>vt_entry = e, vt_node = FileTree_TreeNode f\<rparr> (kids_of d)"
    using f(2) assms(1,2) d by (auto simp: lists_kids_def vt_SubObjects_def dir_row_def)
  ultimately show ?thesis using f(2) by (auto simp: opens_def vt_Properties_def dir_row_def)
qed

lemma opens_root:
  assumes "root_rep E repo (ws_objs w) (ws_root w) d" "digest_nonempty E" "trees.extends (ws_objs w) st"
  shows "opens E repo st (fo_entry (root_object w)) d"
proof (cases "d = DDir []")
  case True
  then show ?thesis using assms(1)
    by (simp add: opens_def root_rep_def root_object_def NewTreeNode_def TreeEntry_Equal_def EmptyDirEntry_def
        NewRootTreeEntry_def vt_Hash_def lists_kids_def vt_SubObjects_def EmptyRoot_def listing_def)
next
  case False
  then have "stored E repo st d" "dt_ok d" "is_ddir d" "vt_Hash (ws_root w) = dt_hash E d"
    using assms stored_extends by (auto simp: root_rep_def vt_Hash_def)
  then show ?thesis
    using opens_stored [OF _ _ _ assms(2)] by (simp add: root_object_def NewRootTreeEntry_def)
qed

subsection \<open>One directory\<close>

lemma listing_Nil [simp]: "listing E kids = [] \<longleftrightarrow> kids = []"
  by (simp add: listing_def)

lemma Append_ok:
  assumes cf: "collision_free E repo st D" and g: "grows E repo D st st1"
    and op: "lists_kids E repo st1 n (kids_of d)"
    and new: "map_of (kids_of d) m = None" "stored E repo st1 x"
    and D: "DDir (insort_key fst (m, x) (kids_of d)) \<in> set D"
  shows "\<exists>tn st2. AppendDirectEntry E repo n (dt_entry E (m, x)) st1 = (Inr tn, st2) \<and>
    tn_hash tn = dt_hash E (DDir (insort_key fst (m, x) (kids_of d))) \<and>
    grows E repo D st st2 \<and> trees.extends st1 st2 \<and>
    stored E repo st2 (DDir (insort_key fst (m, x) (kids_of d)))"
proof -
  let ?kids = "kids_of d" and ?new = "insort_key fst (m, x) (kids_of d)"
  have ok: "sorted (map fst ?kids)" "distinct (map fst ?kids)" "m \<notin> fst ` set ?kids"
    and subs: "vt_SubObjects n = listing E ?kids"
    using op new(1) by (simp_all add: lists_kids_def map_of_eq_None_iff)
  have "SortSubObjects (listing E ?kids @ [dt_entry E (m, x)]) = listing E ?new"
  proof (rule sorted_key_unique)
    show "sorted (map te_name (SortSubObjects (listing E ?kids @ [dt_entry E (m, x)])))"
      by (rule sorted_SortSubObjects)
    show "sorted (map te_name (listing E ?new))" "distinct (map te_name (listing E ?new))"
      using ok by (simp_all add: sorted_insort_key distinct_insort_key)
    show "distinct (map te_name (SortSubObjects (listing E ?kids @ [dt_entry E (m, x)])))"
      using ok by (auto simp: listing_def image_image comp_def)
    show "set (SortSubObjects (listing E ?kids @ [dt_entry E (m, x)])) = set (listing E ?new)"
      by (auto simp: listing_def set_insort_key)
  qed
  then have "SortSubObjects (SortSubObjects (listing E ?kids @ [dt_entry E (m, x)])) = listing E ?new"
    using ok by (simp add: SortSubObjects_listing sorted_insort_key)
  moreover have "\<forall>k \<in> set ?new. stored E repo st1 (snd k)"
    using op new(2) by (auto simp: set_insort_key lists_kids_def)
  ultimately obtain st2 where w:
    "insert_tree repo (models_NewTreeNode E DefaultDirProperty repo
        (SortSubObjects (listing E ?kids @ [dt_entry E (m, x)]))) st1 =
      (Inr (models_NewTreeNode E DefaultDirProperty repo
        (SortSubObjects (listing E ?kids @ [dt_entry E (m, x)]))), st2)"
    "tn_hash (models_NewTreeNode E DefaultDirProperty repo
        (SortSubObjects (listing E ?kids @ [dt_entry E (m, x)]))) = dt_hash E (DDir ?new)"
    "grows E repo D st st2" "trees.extends st1 st2" "stored E repo st2 (DDir ?new)"
    using write_dir [OF cf g D] by blast
  have "\<not> list_ex (\<lambda>c. vt_Name c = m) (map (vt_of E repo st1) ?kids)"
    using ok(3) by (auto simp: list_ex_iff)
  then have "AppendDirectEntry E repo n (dt_entry E (m, x)) st1 =
      (Inr (models_NewTreeNode E DefaultDirProperty repo
        (SortSubObjects (listing E ?kids @ [dt_entry E (m, x)]))), st2)"
    using w(1) vt_Children_kids [OF op] subs
    by (simp add: AppendDirectEntry_def DefaultDirProperty_def)
  with w show ?thesis by blast
qed

lemma range_index_listing:
  "map_of kids n = Some x \<Longrightarrow> distinct (map fst kids) \<Longrightarrow>
    \<exists>j. range_index n i (listing E kids) = Some (i + j) \<and>
      (listing E kids)[j := dt_entry E (n, y)] = listing E (put_kid n y kids)"
proof (induction kids arbitrary: i)
  case (Cons k kids)
  show ?case
  proof (cases "fst k = n")
    case True
    have "put_kid n y kids = kids"
    proof -
      have "fst x \<noteq> n" if "x \<in> set kids" for x
        using Cons.prems(2) True rev_image_eqI [OF that, of n fst] by auto
      then show ?thesis unfolding put_kid_def by (intro map_idI) simp
    qed
    with True show ?thesis by (intro exI [of _ 0]) (simp add: listing_def put_kid_def)
  next
    case False
    with Cons.prems have "map_of kids n = Some x" "distinct (map fst kids)" by (cases k; auto)+
    from Cons.IH [OF this, of "Suc i"] obtain j where
      "range_index n (Suc i) (listing E kids) = Some (Suc i + j)"
      "(listing E kids)[j := dt_entry E (n, y)] = listing E (put_kid n y kids)" by blast
    moreover have "kids \<noteq> []" using \<open>map_of kids n = Some x\<close> by auto
    ultimately show ?thesis using False
      by (intro exI [of _ "Suc j"]) (simp add: listing_def put_kid_def)
  qed
qed simp

lemma Replace_ok:
  assumes cf: "collision_free E repo st D" and g: "grows E repo D st st1"
    and op: "lists_kids E repo st1 n (kids_of d)" "vt_Properties n = DefaultDirProperty"
    and old: "map_of (kids_of d) m = Some x" and new: "stored E repo st1 y"
    and D: "DDir (put_kid m y (kids_of d)) \<in> set D"
  shows "\<exists>tn st2. ReplaceSubTreeEntry E repo n (dt_entry E (m, y)) st1 = (Inr tn, st2) \<and>
    tn_hash tn = dt_hash E (DDir (put_kid m y (kids_of d))) \<and>
    grows E repo D st st2 \<and> trees.extends st1 st2 \<and>
    stored E repo st2 (DDir (put_kid m y (kids_of d)))"
proof -
  let ?kids = "kids_of d"
  have ok: "sorted (map fst ?kids)" "distinct (map fst ?kids)" and subs: "vt_SubObjects n = listing E ?kids"
    using op by (simp_all add: lists_kids_def)
  obtain j where j: "range_index m 0 (listing E ?kids) = Some j"
    "(listing E ?kids)[j := dt_entry E (m, y)] = listing E (put_kid m y ?kids)"
    using range_index_listing [OF old ok(2), of 0] by auto
  have "\<forall>k \<in> set (put_kid m y ?kids). stored E repo st1 (snd k)"
    using op(1) new by (auto simp: lists_kids_def dest!: put_kid_set)
  then show ?thesis
    using write_dir [OF cf g D, of "listing E (put_kid m y ?kids)"] j ok(1) op(2) subs
    by (auto simp: ReplaceSubTreeEntry_def SortSubObjects_listing)
qed

lemma Delete_ok:
  assumes cf: "collision_free E repo st D" and g: "grows E repo D st st1"
    and op: "lists_kids E repo st1 n (kids_of d)" "vt_Properties n = DefaultDirProperty"
    and D: "drop_kid m (kids_of d) \<noteq> [] \<Longrightarrow> DDir (drop_kid m (kids_of d)) \<in> set D"
  shows "drop_kid m (kids_of d) = [] \<Longrightarrow> DeleteDirectEntry E repo n m st1 = (Inr (None, True), st1)"
    "drop_kid m (kids_of d) \<noteq> [] \<Longrightarrow> \<exists>tn st2. DeleteDirectEntry E repo n m st1 = (Inr (Some tn, False), st2) \<and>
      tn_hash tn = dt_hash E (DDir (drop_kid m (kids_of d))) \<and>
      grows E repo D st st2 \<and> trees.extends st1 st2 \<and> stored E repo st2 (DDir (drop_kid m (kids_of d)))"
proof -
  let ?kids = "kids_of d"
  have subs: "filter (\<lambda>sub. te_name sub \<noteq> m) (vt_SubObjects n) = listing E (drop_kid m ?kids)"
    using op(1) by (simp add: lists_kids_def listing_def drop_kid_def filter_map comp_def)
  show "drop_kid m ?kids = [] \<Longrightarrow> DeleteDirectEntry E repo n m st1 = (Inr (None, True), st1)"
    using subs by (simp add: DeleteDirectEntry_def)
  assume ne: "drop_kid m ?kids \<noteq> []"
  have "sorted (map fst (drop_kid m ?kids))"
    using op(1) by (simp add: lists_kids_def drop_kid_def sorted_filter)
  moreover have "\<forall>k \<in> set (drop_kid m ?kids). stored E repo st1 (snd k)"
    using op(1) by (auto simp: lists_kids_def drop_kid_def)
  ultimately show "\<exists>tn st2. DeleteDirectEntry E repo n m st1 = (Inr (Some tn, False), st2) \<and>
      tn_hash tn = dt_hash E (DDir (drop_kid m (kids_of d))) \<and>
      grows E repo D st st2 \<and> trees.extends st1 st2 \<and> stored E repo st2 (DDir (drop_kid m (kids_of d)))"
    using write_dir [OF cf g D [OF ne], of "listing E (drop_kid m ?kids)"] subs op(2) ne
    by (auto simp: DeleteDirectEntry_def Let_def SortSubObjects_listing)
qed


subsection \<open>The loops\<close>

lemma add_up_append:
  "add_up_loop E repo first le (ys @ zs) st =
     (case add_up_loop E repo first le ys st of
        (Inl e, st') \<Rightarrow> (Inl e, st')
      | (Inr le', st') \<Rightarrow> add_up_loop E repo (first \<and> ys = []) le' zs st')"
  by (induction ys arbitrary: first le st) (auto split: sum.split prod.split)

lemma replace_up_append:
  "replace_up_loop E repo le (ys @ zs) st =
     (case replace_up_loop E repo le ys st of
        (Inl e, st') \<Rightarrow> (Inl e, st')
      | (Inr le', st') \<Rightarrow> replace_up_loop E repo le' zs st')"
  by (induction ys arbitrary: le st) (auto split: sum.split prod.split)

lemma remove_up_append:
  "remove_up_loop E repo first le nn (ys @ zs) st =
     (case remove_up_loop E repo first le nn ys st of
        (Inl e, st') \<Rightarrow> (Inl e, st')
      | (Inr (le', nn'), st') \<Rightarrow> remove_up_loop E repo (first \<and> ys = []) le' nn' zs st')"
  by (induction ys arbitrary: first le nn st) (auto split: sum.split prod.split)

text \<open>One more directory at the end of a loop that has passed at least one.\<close>

lemma add_up_snoc:
  assumes "add_up_loop E repo first le (ys @ [o1]) st = (Inr le', st2)"
    "NewTreeNode repo st2 (fo_entry ob) = Inr nd" "ReplaceSubTreeEntry E repo nd le' st2 = (Inr tn, st3)"
  shows "add_up_loop E repo first le (ys @ [o1, ob]) st =
    (Inr \<lparr>te_name = te_name (fo_entry ob), te_is_dir = True, te_hash = tn_hash tn\<rparr>, st3)"
  using add_up_append [of E repo first le "ys @ [o1]" "[ob]" st] assms by (simp add: NewWorkTree_def)

lemma replace_up_snoc:
  assumes "replace_up_loop E repo le ys st = (Inr le', st2)"
    "NewTreeNode repo st2 (fo_entry ob) = Inr nd" "ReplaceSubTreeEntry E repo nd le' st2 = (Inr tn, st3)"
  shows "replace_up_loop E repo le (ys @ [ob]) st =
    (Inr \<lparr>te_name = te_name (fo_entry ob), te_is_dir = True, te_hash = tn_hash tn\<rparr>, st3)"
  using replace_up_append [of E repo le ys "[ob]" st] assms by (simp add: NewWorkTree_def)

lemma subtrees_put_kid:
  assumes "map_of kids n = Some x"
  shows "set (subtrees y) \<subseteq> set (subtrees (DDir (put_kid n y kids)))"
  using put_kid_mem [OF assms, of y] by (force simp: subtrees_def)

lemma opens_extends_stored:
  "stored E repo st d \<Longrightarrow> trees.extends st st1 \<Longrightarrow> dt_ok d \<Longrightarrow> is_ddir d \<Longrightarrow> digest_nonempty E \<Longrightarrow>
    opens E repo st1 (dt_entry E (n, d)) d"
  by (rule opens_stored) (auto intro: stored_extends)

lemma replace_entry:
  "\<lparr>te_name = te_name e, te_is_dir = True, te_hash = dt_hash E (DDir ks)\<rparr> = dt_entry E (te_name e, DDir ks)"
  by (simp add: dt_entry_def)

text \<open>
  The upward loop of \<open>AddLeaf\<close>: \<open>o\<close> is the object of the directory \<open>d\<close>, \<open>xs\<close> what exists
  below it on the path.
\<close>

lemma add_up_ok:
  assumes cf: "collision_free E repo st D" and dg: "digest_nonempty E"
  shows "dt_find segs d = Inr (xs, m # ms) \<Longrightarrow> dt_add segs h d = Inr d' \<Longrightarrow> dt_ok d \<Longrightarrow>
    \<forall>k \<in> set (kids_of d). stored E repo st (snd k) \<Longrightarrow>
    (\<And>st1. trees.extends st st1 \<Longrightarrow> opens E repo st1 (fo_entry ob) d) \<Longrightarrow>
    set (subtrees d') \<subseteq> set D \<Longrightarrow> grows E repo D st st1 \<Longrightarrow>
    stored E repo st1 (chain ms (DFile h)) \<Longrightarrow>
    \<exists>st2. add_up_loop E repo True (dt_entry E (m, chain ms (DFile h)))
        (rev (map (obj E repo st0) xs) @ [ob]) st1 =
      (Inr (dt_entry E (te_name (fo_entry ob), d')), st2) \<and>
      grows E repo D st st2 \<and> trees.extends st1 st2 \<and> stored E repo st2 d'"
proof (induction segs h d arbitrary: xs d' ob st1 rule: dt_add.induct)
  case (2 n ns h d)
  have ext: "trees.extends st st1" using 2(8) by (simp add: grows_def)
  show ?case
  proof (cases "map_of (kids_of d) n")
    case None
    with 2(2,3) have eqs: "xs = []" "m = n" "ms = ns"
      "d' = DDir (insort_key fst (n, chain ns (DFile h)) (kids_of d))"
      by (auto split: if_splits)
    obtain nd where nd: "NewTreeNode repo st1 (fo_entry ob) = Inr nd" "lists_kids E repo st1 nd (kids_of d)"
      using 2(6) [OF ext] by (auto simp: opens_def)
    have "d' \<in> set D" using 2(7) by (auto simp: subtrees_def)
    with Append_ok [OF cf 2(8) nd(2) None, of "chain ns (DFile h)"] 2(9) eqs
    obtain tn st2 where "AppendDirectEntry E repo nd (dt_entry E (n, chain ns (DFile h))) st1 = (Inr tn, st2)"
      "tn_hash tn = dt_hash E d'" "grows E repo D st st2" "trees.extends st1 st2" "stored E repo st2 d'"
      by blast
    then show ?thesis using nd(1) eqs by (auto simp: NewWorkTree_def dt_entry_def)
  next
    case (Some x)
    with 2(3) obtain ks sub where sub: "x = DDir ks" "dt_add ns h (DDir ks) = Inr sub"
      "d' = DDir (put_kid n sub (kids_of d))"
      by (auto split: dtree.splits sum.splits if_splits)
    from 2(2) Some sub(1) obtain xs' where xs: "xs = (n, x) # xs'" "dt_find ns (DDir ks) = Inr (xs', m # ms)"
      by (auto split: sum.splits)
    have x: "stored E repo st x" "dt_ok x"
      using 2(5) map_of_SomeD [OF Some] dt_ok_map_of [OF 2(4) Some] by auto
    have D: "set (subtrees sub) \<subseteq> set D"
      by (rule order.trans [OF subtrees_put_kid [OF Some] 2(7) [unfolded sub(3)]])
    have D': "d' \<in> set D" using 2(7) by (simp add: subtrees_def)
    have "\<forall>k \<in> set (kids_of (DDir ks)). stored E repo st (snd k)"
      using stored_kids [OF x(1)] sub(1) by blast
    moreover have "opens E repo st1' (fo_entry (obj E repo st0 (n, x))) (DDir ks)"
      if "trees.extends st st1'" for st1'
      using opens_extends_stored [OF x(1) that x(2) _ dg] sub(1) by simp
    ultimately obtain st2 where st2: "add_up_loop E repo True (dt_entry E (m, chain ms (DFile h)))
        (rev (map (obj E repo st0) xs') @ [obj E repo st0 (n, x)]) st1 = (Inr (dt_entry E (n, sub)), st2)"
      "grows E repo D st st2" "trees.extends st1 st2" "stored E repo st2 sub"
      using 2(1) [OF Some sub(1) xs(2) sub(2) _ _ _ D 2(8,9), of "obj E repo st0 (n, x)"] x(2) sub(1)
      by auto
    have ext2: "trees.extends st st2" using st2(2) by (simp add: grows_def)
    have "d \<noteq> DDir []" using Some by auto
    then obtain nd where nd: "NewTreeNode repo st2 (fo_entry ob) = Inr nd"
      "lists_kids E repo st2 nd (kids_of d)" "vt_Properties nd = DefaultDirProperty"
      using 2(6) [OF ext2] by (auto simp: opens_def)
    from Replace_ok [OF cf st2(2) nd(2,3) Some st2(4)] D' sub(3)
    obtain tn st3 where "ReplaceSubTreeEntry E repo nd (dt_entry E (n, sub)) st2 = (Inr tn, st3)"
      "tn_hash tn = dt_hash E d'" "grows E repo D st st3" "trees.extends st2 st3" "stored E repo st3 d'"
      by blast
    moreover from this(4) have "trees.extends st1 st3" using trees.extends_trans [OF st2(3)] by blast
    ultimately show ?thesis
      using add_up_snoc [OF st2(1) nd(1)] xs sub(3)
      by (intro exI [of _ st3]) (simp add: replace_entry)
  qed
qed simp


lemma insert_blob_ok:
  assumes cf: "collision_free E repo st D" and g: "grows E repo D st st1" and D: "DFile (bl_hash b) \<in> set D"
    and b: "bl_repo b = repo" "bl_type b = BlobObject"
  shows "\<exists>st2. insert_blob repo b st1 = (Inr (), st2) \<and> grows E repo D st st2 \<and>
    trees.extends st1 st2 \<and> stored E repo st2 (DFile (bl_hash b))"
proof -
  let ?r = "Blob_FileTree b"
  have "row_of E (DFile (bl_hash b)) ?r" using b by (simp add: row_of_def file_row_def Blob_FileTree_def)
  from write_object [OF cf g D this] b
  have "grows E repo D st (put_tree ?r st1)" "stored E repo (put_tree ?r st1) (DFile (bl_hash b))"
    by simp_all
  moreover have "insert_blob repo b st1 = (Inr (), put_tree ?r st1)"
    using b by (simp add: insert_blob_def FileTreeRepo_Insert_def Blob_FileTree_def)
  ultimately show ?thesis using trees.extends_put [of st1 ?r] by blast
qed

text \<open>The directories above the new file that do not exist yet, bottom up.\<close>

lemma add_chain_append:
  "add_chain_loop E repo b first le (ys @ zs) st =
     (case add_chain_loop E repo b first le ys st of
        (Inl e, st') \<Rightarrow> (Inl e, st')
      | (Inr le', st') \<Rightarrow> add_chain_loop E repo b (first \<and> ys = []) le' zs st')"
  by (induction ys arbitrary: first le st) (auto simp: Let_def split: sum.split prod.split)

lemma insert_tree_hash:
  "tn_repo tn = repo \<Longrightarrow> insert_tree repo tn st = (Inr tn, put_tree (TreeNode_FileTree tn) st)"
  by (simp add: insert_tree_def FileTreeRepo_Insert_def TreeNode_FileTree_def [of tn, THEN arg_cong, of ft_repo])

lemma add_chain_ok:
  assumes cf: "collision_free E repo st D" and b: "bl_repo b = repo" "bl_type b = BlobObject"
  shows "m \<noteq> [] \<Longrightarrow> [] \<notin> set ms \<Longrightarrow> set (subtrees (chain ms (DFile (bl_hash b)))) \<subseteq> set D \<Longrightarrow>
    grows E repo D st st1 \<Longrightarrow>
    \<exists>st2. add_chain_loop E repo b True le (rev (m # ms)) st1 =
        (Inr (dt_entry E (m, chain ms (DFile (bl_hash b)))), st2) \<and>
      grows E repo D st st2 \<and> trees.extends st1 st2 \<and> stored E repo st2 (chain ms (DFile (bl_hash b)))"
proof (induction ms arbitrary: m)
  case Nil
  then have "DFile (bl_hash b) \<in> set D" by (simp add: subtrees_def)
  with insert_blob_ok [OF cf Nil.prems(4) _ b] obtain st2 where
    "insert_blob repo b st1 = (Inr (), st2)" "grows E repo D st st2" "trees.extends st1 st2"
    "stored E repo st2 (DFile (bl_hash b))" by blast
  with Nil.prems(1) show ?case by (auto simp: dt_entry_def)
next
  case (Cons m2 ms)
  let ?x = "chain ms (DFile (bl_hash b))"
  have D: "set (subtrees ?x) \<subseteq> set D" "DDir [(m2, ?x)] \<in> set D"
    using Cons.prems(3) by (auto simp: subtrees_def)
  obtain st2 where st2: "add_chain_loop E repo b True le (rev (m2 # ms)) st1 = (Inr (dt_entry E (m2, ?x)), st2)"
    "grows E repo D st st2" "trees.extends st1 st2" "stored E repo st2 ?x"
    using Cons.IH [of m2] Cons.prems D(1) by auto
  let ?tn = "models_NewTreeNode E DefaultDirProperty repo [dt_entry E (m2, ?x)]"
  have "\<forall>k \<in> set [(m2, ?x)]. stored E repo st2 (snd k)" using st2(4) by simp
  moreover have "SortSubObjects [dt_entry E (m2, ?x)] = listing E [(m2, ?x)]"
    by (simp add: SortSubObjects_def listing_def)
  ultimately obtain st3 where st3: "insert_tree repo ?tn st2 = (Inr ?tn, st3)"
    "tn_hash ?tn = dt_hash E (DDir [(m2, ?x)])" "grows E repo D st st3" "trees.extends st2 st3"
    "stored E repo st3 (DDir [(m2, ?x)])"
    using write_dir [OF cf st2(2) D(2)] by blast
  have "add_chain_loop E repo b True le (rev (m2 # ms) @ [m]) st1 =
      (Inr (dt_entry E (m, DDir [(m2, ?x)])), st3)"
    using st2(1) st3(1,2) Cons.prems(1)
    by (subst add_chain_append) (simp add: Let_def dt_entry_def [of E "(m, _)"])
  moreover have "trees.extends st1 st3" using trees.extends_trans [OF st2(3) st3(4)] .
  ultimately show ?case using st3(3,5) by (intro exI [of _ st3]) simp
qed


lemma dt_find_add:
  "dt_find segs d = Inl e \<Longrightarrow> dt_add segs h d = Inl e"
  "dt_find segs d = Inr (xs, []) \<Longrightarrow> dt_add segs h d = Inl ErrEntryExit"
  "dt_find segs d = Inr (xs, m # ms) \<Longrightarrow> [] \<in> set (m # ms) \<Longrightarrow>
    dt_add segs h d = Inl (ErrMsg ''name is empty'')"
  by (induction segs h d arbitrary: xs e rule: dt_add.induct)
    (auto split: option.splits dtree.splits sum.splits if_splits)

lemma dt_find_missing:
  "dt_find segs d = Inr (xs, m # ms) \<Longrightarrow> dt_add segs h d = Inr d' \<Longrightarrow>
    [] \<notin> set (m # ms) \<and> set (subtrees (chain ms (DFile h))) \<subseteq> set (subtrees d')"
proof (induction segs h d arbitrary: xs d' rule: dt_add.induct)
  case (2 n ns h d)
  show ?case
  proof (cases "map_of (kids_of d) n")
    case None
    with 2(2,3) have eqs: "m = n" "ms = ns" "[] \<notin> set (n # ns)"
      "d' = DDir (insort_key fst (n, chain ns (DFile h)) (kids_of d))"
      by (auto split: if_splits)
    then show ?thesis by (force simp: subtrees_def set_insort_key)
  next
    case (Some x)
    with 2(3) obtain ks sub where sub: "x = DDir ks" "dt_add ns h (DDir ks) = Inr sub"
      "d' = DDir (put_kid n sub (kids_of d))"
      by (auto split: dtree.splits sum.splits if_splits)
    from 2(2) Some sub(1) obtain xs' where "dt_find ns (DDir ks) = Inr (xs', m # ms)"
      by (auto split: sum.splits)
    from 2(1) [OF Some sub(1) this sub(2)] subtrees_put_kid [OF Some, of sub] sub(3)
    show ?thesis by blast
  qed
qed simp

lemma chain_leaf: "DFile h \<in> set (subtrees (chain ms (DFile h)))"
  by (induction ms) (auto simp: subtrees_def)

subsection \<open>AddLeaf\<close>

definition path_segs :: "string \<Rightarrow> string list" where
  "path_segs fullPath = split_on (CHR ''/'') (CleanPath fullPath)"

lemma path_segs_ok: "\<forall>n \<in> set (path_segs p). CHR ''/'' \<notin> set n" "path_segs p \<noteq> []"
  by (simp_all add: path_segs_def split_on_no_sep)

lemma findNodeByPath_dt:
  assumes "root_rep E repo (ws_objs w) (ws_root w) d"
  shows "findNodeByPath repo w (CleanPath p) =
    (case dt_find (path_segs p) d of Inl e \<Rightarrow> Inl e
     | Inr (xs, m) \<Rightarrow> Inr (map (obj E repo (ws_objs w)) xs, m))"
  using find_segs_dt [OF root_rep_kids [OF assms], of "path_segs p" "[]", unfolded append_Nil]
  by (simp add: findNodeByPath_def path_segs_def)

lemma root_rep_kids_stored:
  "root_rep E repo st n d \<Longrightarrow> \<forall>k \<in> set (kids_of d). stored E repo st (snd k)"
  using root_rep_kids by (auto simp: lists_kids_def)

lemma root_object_name [simp]: "te_name (fo_entry (root_object w)) = []"
  by (simp add: root_object_def NewRootTreeEntry_def)

lemma set_root_ok:
  assumes "stored E repo st d" "dt_ok d" "is_ddir d" "d \<noteq> DDir []" "digest_nonempty E"
  shows "\<exists>w'. set_root repo w (dt_entry E ([], d)) st = (Inr (), w') \<and> ws_objs w' = st \<and>
    root_rep E repo st (ws_root w') d"
proof -
  obtain kids where d: "d = DDir kids" using assms(3) by (cases d) auto
  obtain f where f: "lookup_tree (dt_hash E d, repo) st = Some f" using stored_row [OF assms(1)] by blast
  have "dt_hash E d \<noteq> []" using assms(5) by (simp add: d dt_hash_listing digest_nonempty_def)
  then have "NewTreeNode repo st (dt_entry E ([], d)) = Inr (vt_of E repo st ([], d))"
    using f by (simp add: NewTreeNode_def TreeEntry_Equal_def EmptyDirEntry_def FileTreeRepo_TreeNode_def vt_of_def)
  then show ?thesis using root_repI [OF assms(1-4)] by (simp add: set_root_def)
qed

lemma AddLeaf_refines:
  assumes rep: "root_rep E repo (ws_objs w) (ws_root w) d" and dg: "digest_nonempty E"
    and b: "bl_repo b = repo" "bl_type b = BlobObject"
    and add: "dt_add (path_segs p) (bl_hash b) d = Inr d'"
    and cf: "collision_free E repo (ws_objs w) (subtrees d')"
  shows "\<exists>w'. AddLeaf E repo p b w = (Inr (), w') \<and> root_rep E repo (ws_objs w') (ws_root w') d' \<and>
    grows E repo (subtrees d') (ws_objs w) (ws_objs w')"
proof -
  let ?st = "ws_objs w"
  have d: "dt_ok d" "is_ddir d" using rep by (simp_all add: root_rep_def)
  obtain xs m ms where find: "dt_find (path_segs p) d = Inr (xs, m # ms)"
    using add dt_find_add(1,2) [of "path_segs p" d]
    by (cases "dt_find (path_segs p) d") (auto, metis Inr_Inl_False list.exhaust)
  have miss: "m \<noteq> []" "[] \<notin> set ms" "set (subtrees (chain ms (DFile (bl_hash b)))) \<subseteq> set (subtrees d')"
    using dt_find_missing [OF find add] by auto
  have leaf: "DFile (bl_hash b) \<in> set (subtrees d')" using miss(3) chain_leaf by blast
  obtain st1 where st1: "insert_blob repo b ?st = (Inr (), st1)" "grows E repo (subtrees d') ?st st1"
    using insert_blob_ok [OF cf grows_refl leaf b] by blast
  obtain st2 where st2: "add_chain_loop E repo b True zero_entry (rev (m # ms)) st1 =
      (Inr (dt_entry E (m, chain ms (DFile (bl_hash b)))), st2)" "grows E repo (subtrees d') ?st st2"
    "stored E repo st2 (chain ms (DFile (bl_hash b)))"
    using add_chain_ok [OF cf b miss st1(2)] by blast
  obtain st3 where st3: "add_up_loop E repo True (dt_entry E (m, chain ms (DFile (bl_hash b))))
      (rev (map (obj E repo ?st) xs) @ [root_object w]) st2 = (Inr (dt_entry E ([], d')), st3)"
    "grows E repo (subtrees d') ?st st3" "stored E repo st3 d'"
    using add_up_ok [OF cf dg find add d(1) root_rep_kids_stored [OF rep] opens_root [OF rep dg] _ st2(2,3)]
    by auto
  obtain w' where "set_root repo w (dt_entry E ([], d')) st3 = (Inr (), w')" "ws_objs w' = st3"
    "root_rep E repo st3 (ws_root w') d'"
    using set_root_ok [OF st3(3)] dt_add_ok [OF d(1) add path_segs_ok(1)] dg by blast
  then show ?thesis
    using st1(1) st2(1) st3(1,2) by (simp add: AddLeaf_def findNodeByPath_dt [OF rep] find rev_map)
qed


subsection \<open>ReplaceLeaf\<close>

lemma dt_replace_find:
  "dt_find segs d = Inl e \<Longrightarrow> dt_replace segs h d = Inl e"
  "dt_find segs d = Inr (xs, m # ms) \<Longrightarrow> dt_replace segs h d = Inl ErrPathNotFound"
  "dt_find segs d = Inr (xs, []) \<Longrightarrow> length xs = length segs \<and> (\<exists>d'. dt_replace segs h d = Inr d')"
  by (induction segs h d arbitrary: xs e rule: dt_replace.induct)
    (auto split: option.splits dtree.splits sum.splits if_splits, force+)

lemma dt_replace_leaf: "dt_replace segs h d = Inr d' \<Longrightarrow> DFile h \<in> set (subtrees d')"
proof (induction segs h d arbitrary: d' rule: dt_replace.induct)
  case (2 n ns h d)
  then obtain x where x: "map_of (kids_of d) n = Some x" by (auto split: option.splits)
  show ?case
  proof (cases x)
    case (DFile g)
    with 2(2) x have "d' = DDir (put_kid n (DFile h) (kids_of d))" by (auto split: if_splits)
    then show ?thesis using subtrees_put_kid [OF x, of "DFile h"] by (auto simp: subtrees_def)
  next
    case (DDir ks)
    with 2(2) x obtain sub where "dt_replace ns h (DDir ks) = Inr sub" "d' = DDir (put_kid n sub (kids_of d))"
      by (auto split: sum.splits)
    with 2(1) [OF x DDir] subtrees_put_kid [OF x, of sub] show ?thesis by blast
  qed
qed (simp add: subtrees_def)

lemma tl_snoc: "xs \<noteq> [] \<Longrightarrow> tl (xs @ ys) = tl xs @ ys"
  by (cases xs) auto

lemma replace_up_ok:
  assumes cf: "collision_free E repo st D" and dg: "digest_nonempty E"
  shows "segs \<noteq> [] \<Longrightarrow> dt_find segs d = Inr (xs, []) \<Longrightarrow> dt_replace segs h d = Inr d' \<Longrightarrow> dt_ok d \<Longrightarrow>
    \<forall>k \<in> set (kids_of d). stored E repo st (snd k) \<Longrightarrow>
    (\<And>st1. trees.extends st st1 \<Longrightarrow> opens E repo st1 (fo_entry ob) d) \<Longrightarrow>
    set (subtrees d') \<subseteq> set D \<Longrightarrow> grows E repo D st st1 \<Longrightarrow> stored E repo st1 (DFile h) \<Longrightarrow>
    \<exists>st2. replace_up_loop E repo (dt_entry E (fst (last xs), DFile h))
        (tl (rev (map (obj E repo st0) xs) @ [ob])) st1 =
      (Inr (dt_entry E (te_name (fo_entry ob), d')), st2) \<and>
      grows E repo D st st2 \<and> trees.extends st1 st2 \<and> stored E repo st2 d'"
proof (induction segs h d arbitrary: xs d' ob st1 rule: dt_replace.induct)
  case (2 n ns h d)
  have ext: "trees.extends st st1" using 2(9) by (simp add: grows_def)
  obtain x where x: "map_of (kids_of d) n = Some x" using 2(4) by (auto split: option.splits)
  have d: "d \<noteq> DDir []" using x by auto
  have xst: "stored E repo st x" "dt_ok x"
    using 2(6) map_of_SomeD [OF x] dt_ok_map_of [OF 2(5) x] by auto
  have "\<exists>sub ys st2. d' = DDir (put_kid n sub (kids_of d)) \<and>
      tl (rev (map (obj E repo st0) xs) @ [ob]) = ys @ [ob] \<and>
      replace_up_loop E repo (dt_entry E (fst (last xs), DFile h)) ys st1 = (Inr (dt_entry E (n, sub)), st2) \<and>
      grows E repo D st st2 \<and> trees.extends st1 st2 \<and> stored E repo st2 sub"
  proof (cases "ns = []")
    case True
    with 2(3) x have xs: "xs = [(n, x)]" by (auto split: dtree.splits)
    have "d' = DDir (put_kid n (DFile h) (kids_of d))" using 2(4) x True by (auto split: dtree.splits)
    with xs 2(9,10) show ?thesis
      by (intro exI [of _ "DFile h"] exI [of _ "[]"] exI [of _ st1]) (simp add: trees.extends_refl)
  next
    case False
    with 2(3) x obtain ks where ks: "x = DDir ks" by (auto split: dtree.splits)
    with 2(3) x obtain xs' where xs: "xs = (n, x) # xs'" "dt_find ns (DDir ks) = Inr (xs', [])"
      by (auto split: sum.splits)
    from 2(4) x ks obtain sub where sub: "dt_replace ns h (DDir ks) = Inr sub"
      "d' = DDir (put_kid n sub (kids_of d))" by (auto split: sum.splits)
    have "length xs' = length ns" using dt_replace_find(3) [OF xs(2)] by blast
    with False have ne: "xs' \<noteq> []" by auto
    have D: "set (subtrees sub) \<subseteq> set D"
      by (rule order.trans [OF subtrees_put_kid [OF x] 2(8) [unfolded sub(2)]])
    have "\<forall>k \<in> set (kids_of (DDir ks)). stored E repo st (snd k)"
      using stored_kids [OF xst(1)] ks by blast
    moreover have "opens E repo st1' (fo_entry (obj E repo st0 (n, x))) (DDir ks)"
      if "trees.extends st st1'" for st1'
      using opens_extends_stored [OF xst(1) that xst(2) _ dg] ks by simp
    ultimately obtain st2 where "replace_up_loop E repo (dt_entry E (fst (last xs'), DFile h))
        (tl (rev (map (obj E repo st0) xs') @ [obj E repo st0 (n, x)])) st1 =
        (Inr (dt_entry E (n, sub)), st2)"
      "grows E repo D st st2" "trees.extends st1 st2" "stored E repo st2 sub"
      using 2(1) [OF x ks False xs(2) sub(1) _ _ _ D 2(9,10), of "obj E repo st0 (n, x)"] xst(2) ks
      by auto
    moreover have "tl (rev (map (obj E repo st0) xs) @ [ob]) =
        tl (rev (map (obj E repo st0) xs') @ [obj E repo st0 (n, x)]) @ [ob]"
      using xs ne by (simp add: tl_snoc)
    moreover have "last xs = last xs'" using xs ne by simp
    ultimately show ?thesis using sub(2)
      by (intro exI [of _ sub] exI [of _ "tl (rev (map (obj E repo st0) xs') @ [obj E repo st0 (n, x)])"]
          exI [of _ st2]) simp
  qed
  then obtain sub ys st2 where st2: "d' = DDir (put_kid n sub (kids_of d))"
    "tl (rev (map (obj E repo st0) xs) @ [ob]) = ys @ [ob]"
    "replace_up_loop E repo (dt_entry E (fst (last xs), DFile h)) ys st1 = (Inr (dt_entry E (n, sub)), st2)"
    "grows E repo D st st2" "trees.extends st1 st2" "stored E repo st2 sub" by blast
  have D': "DDir (put_kid n sub (kids_of d)) \<in> set D" using 2(8) st2(1) by (simp add: subtrees_def)
  have ext2: "trees.extends st st2" using st2(4) by (simp add: grows_def)
  obtain nd where nd: "NewTreeNode repo st2 (fo_entry ob) = Inr nd"
    "lists_kids E repo st2 nd (kids_of d)" "vt_Properties nd = DefaultDirProperty"
    using 2(7) [OF ext2] d by (auto simp: opens_def)
  from Replace_ok [OF cf st2(4) nd(2,3) x st2(6) D']
  obtain tn st3 where st3: "ReplaceSubTreeEntry E repo nd (dt_entry E (n, sub)) st2 = (Inr tn, st3)"
    "tn_hash tn = dt_hash E d'" "grows E repo D st st3" "trees.extends st2 st3" "stored E repo st3 d'"
    unfolding st2(1) by blast
  have "trees.extends st1 st3" by (rule trees.extends_trans [OF st2(5) st3(4)])
  with replace_up_snoc [OF st2(3) nd(1) st3(1)] st2(1,2) st3 show ?case
    by (intro exI [of _ st3]) (simp add: replace_entry)
qed simp

lemma ReplaceLeaf_refines:
  assumes rep: "root_rep E repo (ws_objs w) (ws_root w) d" and dg: "digest_nonempty E"
    and b: "bl_repo b = repo" "bl_type b = BlobObject"
    and repl: "dt_replace (path_segs p) (bl_hash b) d = Inr d'"
    and cf: "collision_free E repo (ws_objs w) (subtrees d')"
  shows "\<exists>w'. ReplaceLeaf E repo p b w = (Inr (), w') \<and> root_rep E repo (ws_objs w') (ws_root w') d' \<and>
    grows E repo (subtrees d') (ws_objs w) (ws_objs w')"
proof -
  let ?st = "ws_objs w"
  have d: "dt_ok d" "is_ddir d" using rep by (simp_all add: root_rep_def)
  obtain xs where find: "dt_find (path_segs p) d = Inr (xs, [])"
    using repl dt_replace_find(1,2) [of "path_segs p" d]
    by (cases "dt_find (path_segs p) d") (auto, metis Inr_Inl_False list.exhaust)
  have xs: "xs \<noteq> []" using dt_replace_find(3) [OF find] path_segs_ok(2) [of p] by auto
  obtain st1 where st1: "insert_blob repo b ?st = (Inr (), st1)" "grows E repo (subtrees d') ?st st1"
    "stored E repo st1 (DFile (bl_hash b))"
    using insert_blob_ok [OF cf grows_refl dt_replace_leaf [OF repl] b] by blast
  let ?nodes = "rev (map (obj E repo ?st) xs) @ [root_object w]"
  obtain rest where nodes: "?nodes = obj E repo ?st (last xs) # rest"
    using xs by (cases xs rule: rev_cases) simp_all
  obtain st2 where st2: "replace_up_loop E repo (dt_entry E (fst (last xs), DFile (bl_hash b)))
      rest st1 = (Inr (dt_entry E ([], d')), st2)"
    "grows E repo (subtrees d') ?st st2" "stored E repo st2 d'"
    using replace_up_ok [OF cf dg path_segs_ok(2) find repl d(1) root_rep_kids_stored [OF rep]
        opens_root [OF rep dg] _ st1(2,3), of ?st] nodes by auto
  obtain w' where "set_root repo w (dt_entry E ([], d')) st2 = (Inr (), w')" "ws_objs w' = st2"
    "root_rep E repo st2 (ws_root w') d'"
    using set_root_ok [OF st2(3)] dt_replace_ok [OF d(1) repl] path_segs_ok(2) dg by blast
  moreover have "replace_up_loop E repo \<lparr>te_name = fst (last xs), te_is_dir = False, te_hash = bl_hash b\<rparr>
      rest st1 = (Inr (dt_entry E ([], d')), st2)"
    using st2(1) by (simp add: dt_entry_def [of E "(_, DFile _)"])
  ultimately show ?thesis
    using st1(1) st2(2) nodes
    by (simp add: ReplaceLeaf_def findNodeByPath_dt [OF rep] find)
qed


subsection \<open>RemoveEntry\<close>

lemma dt_remove_find:
  "dt_find segs d = Inl e \<Longrightarrow> dt_remove segs d = Inl e"
  "dt_find segs d = Inr (xs, m # ms) \<Longrightarrow> dt_remove segs d = Inl ErrPathNotFound"
  "dt_find segs d = Inr (xs, []) \<Longrightarrow> length xs = length segs"
  by (induction segs d arbitrary: xs e rule: dt_remove.induct)
    (auto simp: Let_def split: option.splits dtree.splits sum.splits if_splits)

text \<open>The entry and node after a directory: \<open>None\<close> for one with nothing left.\<close>

definition removed_entry :: "env \<Rightarrow> string \<Rightarrow> dtree option \<Rightarrow> tree_entry" where
  "removed_entry E n r = (case r of None \<Rightarrow> \<lparr>te_name = n, te_is_dir = True, te_hash = []\<rparr>
     | Some d \<Rightarrow> dt_entry E (n, d))"

definition opt_subtrees :: "dtree option \<Rightarrow> dtree list" where
  "opt_subtrees r = (case r of None \<Rightarrow> [] | Some d \<Rightarrow> subtrees d)"

definition opt_stored :: "env \<Rightarrow> uuid \<Rightarrow> tree_table \<Rightarrow> dtree option \<Rightarrow> bool" where
  "opt_stored E repo st r = (case r of None \<Rightarrow> True | Some d \<Rightarrow> stored E repo st d)"

definition without :: "string \<Rightarrow> dtree \<Rightarrow> dtree option" where
  "without n d = (if drop_kid n (kids_of d) = [] then None else Some (DDir (drop_kid n (kids_of d))))"

text \<open>One turn that deletes the entry \<open>n\<close>, at the first or at a later directory.\<close>

lemma remove_turn_delete:
  assumes cf: "collision_free E repo st D" and g: "grows E repo D st st1"
    and op: "opens E repo st1 (fo_entry ob) d" "d \<noteq> DDir []"
    and e: "te_name e = n" "first \<or> te_hash e = []"
    and D: "set (opt_subtrees (without n d)) \<subseteq> set D"
  shows "\<exists>nn st2. remove_up_loop E repo first e nn0 [ob] st1 =
      (Inr (removed_entry E (te_name (fo_entry ob)) (without n d), nn), st2) \<and>
      (nn = None \<longleftrightarrow> without n d = None) \<and>
      grows E repo D st st2 \<and> trees.extends st1 st2 \<and> opt_stored E repo st2 (without n d)"
proof -
  obtain nd where nd: "NewTreeNode repo st1 (fo_entry ob) = Inr nd" "lists_kids E repo st1 nd (kids_of d)"
    "vt_Properties nd = DefaultDirProperty" using op by (auto simp: opens_def)
  show ?thesis
  proof (cases "drop_kid n (kids_of d) = []")
    case True
    then show ?thesis using Delete_ok(1) [OF cf g nd(2,3)] nd(1) e g
      by (auto simp: NewWorkTree_def IsEmpty_def without_def removed_entry_def opt_stored_def trees.extends_refl)
  next
    case False
    then have "DDir (drop_kid n (kids_of d)) \<in> set D"
      using D by (simp add: without_def opt_subtrees_def subtrees_def)
    with Delete_ok(2) [OF cf g nd(2,3) _ False] obtain tn st2 where
      "DeleteDirectEntry E repo nd n st1 = (Inr (Some tn, False), st2)"
      "tn_hash tn = dt_hash E (DDir (drop_kid n (kids_of d)))" "grows E repo D st st2"
      "trees.extends st1 st2" "stored E repo st2 (DDir (drop_kid n (kids_of d)))" by blast
    with nd(1) e False show ?thesis
      by (auto simp: NewWorkTree_def IsEmpty_def without_def removed_entry_def opt_stored_def dt_entry_def)
  qed
qed

lemma remove_turn_replace:
  assumes cf: "collision_free E repo st D" and dg: "digest_nonempty E" and g: "grows E repo D st st1"
    and op: "opens E repo st1 (fo_entry ob) d" "map_of (kids_of d) n = Some x"
    and sub: "is_ddir sub" "stored E repo st1 sub"
    and D: "DDir (put_kid n sub (kids_of d)) \<in> set D"
  shows "\<exists>nn st2. remove_up_loop E repo False (dt_entry E (n, sub)) nn0 [ob] st1 =
      (Inr (dt_entry E (te_name (fo_entry ob), DDir (put_kid n sub (kids_of d))), Some nn), st2) \<and>
      grows E repo D st st2 \<and> trees.extends st1 st2 \<and>
      stored E repo st2 (DDir (put_kid n sub (kids_of d)))"
proof -
  have "d \<noteq> DDir []" using op(2) by auto
  then obtain nd where nd: "NewTreeNode repo st1 (fo_entry ob) = Inr nd"
    "lists_kids E repo st1 nd (kids_of d)" "vt_Properties nd = DefaultDirProperty"
    using op(1) by (auto simp: opens_def)
  have "dt_hash E sub \<noteq> []" using sub(1) dg by (cases sub) (simp_all add: dt_hash_listing digest_nonempty_def)
  moreover obtain tn st2 where "ReplaceSubTreeEntry E repo nd (dt_entry E (n, sub)) st1 = (Inr tn, st2)"
    "tn_hash tn = dt_hash E (DDir (put_kid n sub (kids_of d)))" "grows E repo D st st2"
    "trees.extends st1 st2" "stored E repo st2 (DDir (put_kid n sub (kids_of d)))"
    using Replace_ok [OF cf g nd(2,3) op(2) sub(2) D] by blast
  ultimately show ?thesis using nd(1)
    by (auto simp: NewWorkTree_def IsEmpty_def dt_entry_def)
qed

lemma dt_remove_cases:
  assumes "dt_remove (n # ns) d = Inr r" "ns \<noteq> []"
  obtains ks r' where "map_of (kids_of d) n = Some (DDir ks)" "dt_remove ns (DDir ks) = Inr r'"
    "r = (case r' of None \<Rightarrow> without n d | Some sub \<Rightarrow> Some (DDir (put_kid n sub (kids_of d))))"
  using assms by (auto simp: Let_def without_def split: option.splits dtree.splits sum.splits if_splits)


lemma remove_up_ok:
  assumes cf: "collision_free E repo st D" and dg: "digest_nonempty E"
  shows "segs \<noteq> [] \<Longrightarrow> dt_find segs d = Inr (xs, []) \<Longrightarrow> dt_remove segs d = Inr r \<Longrightarrow> dt_ok d \<Longrightarrow>
    \<forall>k \<in> set (kids_of d). stored E repo st (snd k) \<Longrightarrow>
    (\<And>st1. trees.extends st st1 \<Longrightarrow> opens E repo st1 (fo_entry ob) d) \<Longrightarrow>
    set (opt_subtrees r) \<subseteq> set D \<Longrightarrow> grows E repo D st st1 \<Longrightarrow>
    \<exists>nn st2. remove_up_loop E repo True (dt_entry E (last xs)) None
        (tl (rev (map (obj E repo st0) xs) @ [ob])) st1 =
      (Inr (removed_entry E (te_name (fo_entry ob)) r, nn), st2) \<and> (nn = None \<longleftrightarrow> r = None) \<and>
      grows E repo D st st2 \<and> trees.extends st1 st2 \<and> opt_stored E repo st2 r"
proof (induction segs d arbitrary: xs r ob st1 rule: dt_remove.induct)
  case (2 n ns d)
  have ext: "trees.extends st st1" using 2(9) by (simp add: grows_def)
  show ?case
  proof (cases "ns = []")
    case True
    with 2(3) obtain x where x: "xs = [(n, x)]" "map_of (kids_of d) n = Some x"
      by (auto split: option.splits dtree.splits)
    with 2(4) True have r: "r = without n d" by (auto simp: Let_def without_def split: dtree.splits)
    have "d \<noteq> DDir []" using x(2) by auto
    then show ?thesis
      using remove_turn_delete [OF cf 2(9) 2(7) [OF ext], of "dt_entry E (n, x)" n True None] 2(8) x(1) r
      by auto
  next
    case False
    obtain ks r' where ks: "map_of (kids_of d) n = Some (DDir ks)" "dt_remove ns (DDir ks) = Inr r'"
      "r = (case r' of None \<Rightarrow> without n d | Some sub \<Rightarrow> Some (DDir (put_kid n sub (kids_of d))))"
      using dt_remove_cases [OF 2(4) False] .
    have d: "d \<noteq> DDir []" using ks(1) by auto
    obtain xs' where xs: "xs = (n, DDir ks) # xs'" "dt_find ns (DDir ks) = Inr (xs', [])"
      using 2(3) ks(1) by (auto split: sum.splits)
    have ne: "xs' \<noteq> []" using dt_remove_find(3) [OF xs(2)] False by auto
    have xst: "stored E repo st (DDir ks)" "dt_ok (DDir ks)"
      using bspec [OF 2(6) map_of_SomeD [OF ks(1)]] dt_ok_map_of [OF 2(5) ks(1)] by simp_all
    let ?ob = "obj E repo st0 (n, DDir ks)"
    have D: "set (opt_subtrees r') \<subseteq> set D"
    proof (cases r')
      case (Some sub)
      then show ?thesis using subtrees_put_kid [OF ks(1), of sub] 2(8) ks(3) by (auto simp: opt_subtrees_def)
    qed (simp add: opt_subtrees_def)
    have kids: "\<forall>k \<in> set (kids_of (DDir ks)). stored E repo st (snd k)"
      using stored_kids [OF xst(1)] by blast
    have opn: "opens E repo st1' (fo_entry ?ob) (DDir ks)" if "trees.extends st st1'" for st1'
      using opens_extends_stored [OF xst(1) that xst(2) _ dg] by simp
    obtain nn st2 where st2: "remove_up_loop E repo True (dt_entry E (last xs')) None
        (tl (rev (map (obj E repo st0) xs') @ [?ob])) st1 = (Inr (removed_entry E n r', nn), st2)"
      "grows E repo D st st2" "trees.extends st1 st2" "opt_stored E repo st2 r'"
      using 2(1) [OF refl ks(1) refl False xs(2) ks(2) xst(2) kids opn D 2(9)] by auto
    have ext2: "trees.extends st st2" using st2(2) by (simp add: grows_def)
    have lists: "tl (rev (map (obj E repo st0) xs) @ [ob]) =
        tl (rev (map (obj E repo st0) xs') @ [?ob]) @ [ob]" "last xs = last xs'"
      "tl (rev (map (obj E repo st0) xs') @ [?ob]) \<noteq> []"
      using xs ne by (simp_all add: tl_snoc)
    have "\<exists>nn' st3. remove_up_loop E repo False (removed_entry E n r') nn [ob] st2 =
        (Inr (removed_entry E (te_name (fo_entry ob)) r, nn'), st3) \<and> (nn' = None \<longleftrightarrow> r = None) \<and>
        grows E repo D st st3 \<and> trees.extends st2 st3 \<and> opt_stored E repo st3 r"
    proof (cases r')
      case None
      then show ?thesis
        using remove_turn_delete [OF cf st2(2) 2(7) [OF ext2] d, of "removed_entry E n r'" n False nn] 2(8) ks(3)
        by (auto simp: removed_entry_def)
    next
      case (Some sub)
      have "is_ddir sub" using dt_remove_ok [OF xst(2)] ks(2) Some by auto
      moreover have "stored E repo st2 sub" using st2(4) Some by (simp add: opt_stored_def)
      moreover have "DDir (put_kid n sub (kids_of d)) \<in> set D"
        using 2(8) ks(3) Some by (simp add: opt_subtrees_def subtrees_def)
      ultimately show ?thesis
        using remove_turn_replace [OF cf dg st2(2) 2(7) [OF ext2] ks(1), of sub nn] ks(3) Some
        by (auto simp: removed_entry_def opt_stored_def)
    qed
    then obtain nn' st3 where st3: "remove_up_loop E repo False (removed_entry E n r') nn [ob] st2 =
        (Inr (removed_entry E (te_name (fo_entry ob)) r, nn'), st3)" "nn' = None \<longleftrightarrow> r = None"
      "grows E repo D st st3" "trees.extends st2 st3" "opt_stored E repo st3 r" by blast
    have "trees.extends st1 st3" by (rule trees.extends_trans [OF st2(3) st3(4)])
    then show ?thesis
      using st2(1) st3 lists(3) unfolding lists(1,2)
      by (intro exI [of _ nn'] exI [of _ st3]) (simp add: remove_up_append)
  qed
qed simp

lemma RemoveEntry_refines:
  assumes rep: "root_rep E repo (ws_objs w) (ws_root w) d" and dg: "digest_nonempty E"
    and rem: "dt_remove (path_segs p) d = Inr r"
    and cf: "collision_free E repo (ws_objs w) (opt_subtrees r)"
  shows "\<exists>w'. RemoveEntry E repo p w = (Inr (), w') \<and>
    root_rep E repo (ws_objs w') (ws_root w') (case r of None \<Rightarrow> DDir [] | Some d' \<Rightarrow> d') \<and>
    grows E repo (opt_subtrees r) (ws_objs w) (ws_objs w')"
proof -
  let ?st = "ws_objs w"
  have d: "dt_ok d" "is_ddir d" using rep by (simp_all add: root_rep_def)
  obtain xs where find: "dt_find (path_segs p) d = Inr (xs, [])"
    using rem dt_remove_find(1,2) [of "path_segs p" d]
    by (cases "dt_find (path_segs p) d") (auto, metis Inr_Inl_False list.exhaust)
  have xs: "xs \<noteq> []" using dt_remove_find(3) [OF find] path_segs_ok(2) [of p] by auto
  obtain rest where nodes: "rev (map (obj E repo ?st) xs) @ [root_object w] = obj E repo ?st (last xs) # rest"
    using xs by (cases xs rule: rev_cases) simp_all
  obtain nn st2 where st2: "remove_up_loop E repo True (dt_entry E (last xs)) None rest ?st =
      (Inr (removed_entry E [] r, nn), st2)" "nn = None \<longleftrightarrow> r = None"
    "grows E repo (opt_subtrees r) ?st st2" "opt_stored E repo st2 r"
    using remove_up_ok [OF cf dg path_segs_ok(2) find rem d(1) root_rep_kids_stored [OF rep]
        opens_root [OF rep dg] order.refl grows_refl, of ?st] nodes by auto
  show ?thesis
  proof (cases r)
    case None
    have "root_rep E repo st2 \<lparr>vt_entry = EmptyDirEntry, vt_node = EmptyRoot\<rparr> (DDir [])"
      by (simp add: root_rep_def EmptyDirEntry_def)
    with None st2 nodes show ?thesis
      by (simp add: RemoveEntry_def findNodeByPath_dt [OF rep] find Let_def)
  next
    case (Some d')
    obtain w' where "set_root repo w (dt_entry E ([], d')) st2 = (Inr (), w')" "ws_objs w' = st2"
      "root_rep E repo st2 (ws_root w') d'"
      using set_root_ok [of E repo st2 d' w] dt_remove_ok [OF d(1)] rem st2(4) dg Some
      by (auto simp: opt_stored_def)
    moreover from Some st2(2) obtain nd where "nn = Some nd" by (cases nn) simp_all
    ultimately show ?thesis using Some st2(1,3) nodes
      by (simp add: RemoveEntry_def findNodeByPath_dt [OF rep] find Let_def removed_entry_def)
  qed
qed

end
