(* ===== verification/Work_Tree_Props.thy ===== *)
theory Work_Tree_Props
  imports Work_Tree_Refine
begin

section \<open>What the editing operations do to the files\<close>

text \<open>
  The properties of \<open>WorkTree\<close>, each over the map from paths to file hashes that the root
  denotes, with a concrete input for every hypothesis.
\<close>

definition demo_work :: work_state where
  "demo_work = \<lparr>ws_root = demo_root demo_tree, ws_objs = demo_table\<rparr>"

definition demo_blob :: blob where
  "demo_blob = \<lparr>bl_hash = ''9'', bl_repo = ''r'', bl_check_sum = ''9'', bl_type = BlobObject, bl_size = 1,
     bl_props = DefaultLeafProperty, bl_created = 0, bl_updated = 0\<rparr>"

lemma demo_blob_simps [simp]:
  "bl_hash demo_blob = ''9''" "bl_repo demo_blob = ''r''" "bl_type demo_blob = BlobObject"
  by (simp_all add: demo_blob_def)

lemma demo_work_rep: "root_rep demo_env ''r'' (ws_objs demo_work) (ws_root demo_work) demo_tree"
  using demo_roots [of demo_tree] by (simp add: demo_work_def)

lemma demo_digest: "digest_nonempty demo_env"
  by (simp add: digest_nonempty_def demo_env_def)

lemma demo_segs: "path_segs '' d/e/z'' = [''d'', ''e'', ''z'']" "path_segs ''/d/x/'' = [''d'', ''x'']"
  "path_segs ''a/z'' = [''a'', ''z'']" "path_segs ''q'' = [''q'']"
  by code_simp+

text \<open>
  C7: AddLeaf at a free path succeeds, keeps every stored row, and the new root denotes the old
  files and the new one at its path (directories on the way are created).
\<close>

theorem AddLeaf_correct:
  assumes "root_rep E repo (ws_objs w) (ws_root w) d" "digest_nonempty E"
    "bl_repo b = repo" "bl_type b = BlobObject" "dt_add (path_segs p) (bl_hash b) d = Inr d'"
    "collision_free E repo (ws_objs w) (subtrees d')"
  shows "\<exists>w'. AddLeaf E repo p b w = (Inr (), w') \<and> root_rep E repo (ws_objs w') (ws_root w') d' \<and>
    trees.extends (ws_objs w) (ws_objs w') \<and>
    file_map d' = (file_map d)(path_segs p \<mapsto> bl_hash b)"
proof -
  have "dt_ok d" "is_ddir d" using assms(1) by (simp_all add: root_rep_def)
  with file_map_add assms(5) path_segs_ok(1) AddLeaf_refines [OF assms] grows_extends show ?thesis by blast
qed

lemma AddLeaf_correct_witness:
  "\<exists>w' d'. AddLeaf demo_env ''r'' '' d/e/z'' demo_blob demo_work = (Inr (), w') \<and>
    root_rep demo_env ''r'' (ws_objs w') (ws_root w') d' \<and>
    file_map d' = (file_map demo_tree)([''d'', ''e'', ''z''] \<mapsto> ''9'')"
proof -
  let ?d' = "DDir [(''a'', DFile ''1''), (''d'', DDir [(''e'', DDir [(''z'', DFile ''9'')]), (''x'', DFile ''2'')])]"
  have "dt_add (path_segs '' d/e/z'') (bl_hash demo_blob) demo_tree = Inr ?d'"
    by (simp add: demo_segs demo_tree_def put_kid_def)
  moreover have "collision_free demo_env ''r'' (ws_objs demo_work) (subtrees ?d')"
    by (simp add: demo_work_def collision_free_def subtrees_def demo_table_def demo_tree_def demo_tree'_def
        demo_renamed_def demo_renamed'_def lookup_tree_def ft_key_def demo_hashes row_of_def file_row_def dir_row_def)
  ultimately show ?thesis
    using AddLeaf_correct [OF demo_work_rep demo_digest demo_blob_simps(2,3)] demo_segs(1) by fastforce
qed


text \<open>
  C14: ReplaceLeaf at an existing path succeeds and keeps every stored row; the new root has the
  new file at the path and nothing else changes, except that a directory at the path goes away
  with all its files: the code replaces it by the file without asking.
\<close>

theorem ReplaceLeaf_correct:
  assumes "root_rep E repo (ws_objs w) (ws_root w) d" "digest_nonempty E"
    "bl_repo b = repo" "bl_type b = BlobObject" "dt_replace (path_segs p) (bl_hash b) d = Inr d'"
    "collision_free E repo (ws_objs w) (subtrees d')"
  shows "\<exists>w'. ReplaceLeaf E repo p b w = (Inr (), w') \<and> root_rep E repo (ws_objs w') (ws_root w') d' \<and>
    trees.extends (ws_objs w) (ws_objs w') \<and>
    file_map d' = (map_cut (path_segs p) (file_map d))(path_segs p \<mapsto> bl_hash b)"
proof -
  have "dt_ok d" "is_ddir d" using assms(1) by (simp_all add: root_rep_def)
  with file_map_replace assms(5) path_segs_ok(2) ReplaceLeaf_refines [OF assms] grows_extends show ?thesis by blast
qed

lemma ReplaceLeaf_correct_witness:
  "\<exists>w' d'. ReplaceLeaf demo_env ''r'' ''/d/x/'' demo_blob demo_work = (Inr (), w') \<and>
    root_rep demo_env ''r'' (ws_objs w') (ws_root w') d' \<and>
    file_map d' = (map_cut [''d'', ''x''] (file_map demo_tree))([''d'', ''x''] \<mapsto> ''9'')"
proof -
  let ?d' = "DDir [(''a'', DFile ''1''), (''d'', DDir [(''x'', DFile ''9'')])]"
  have "dt_replace (path_segs ''/d/x/'') (bl_hash demo_blob) demo_tree = Inr ?d'"
    by (simp add: demo_segs demo_tree_def put_kid_def)
  moreover have "collision_free demo_env ''r'' (ws_objs demo_work) (subtrees ?d')"
    by (simp add: demo_work_def collision_free_def subtrees_def demo_table_def demo_tree_def demo_tree'_def
        demo_renamed_def demo_renamed'_def lookup_tree_def ft_key_def demo_hashes row_of_def file_row_def dir_row_def)
  ultimately show ?thesis
    using ReplaceLeaf_correct [OF demo_work_rep demo_digest demo_blob_simps(2,3)] demo_segs(2) by fastforce
qed

text \<open>
  C13: RemoveEntry of an existing path succeeds and keeps every stored row; the new root denotes
  the files that are not at or below the path, directories left empty are removed with it, and
  when nothing is left the root is the empty one.
\<close>

theorem RemoveEntry_correct:
  assumes "root_rep E repo (ws_objs w) (ws_root w) d" "digest_nonempty E"
    "dt_remove (path_segs p) d = Inr r" "collision_free E repo (ws_objs w) (opt_subtrees r)"
  shows "\<exists>w' d'. RemoveEntry E repo p w = (Inr (), w') \<and> root_rep E repo (ws_objs w') (ws_root w') d' \<and>
    trees.extends (ws_objs w) (ws_objs w') \<and> file_map d' = map_cut (path_segs p) (file_map d)"
proof -
  have "dt_ok d" "is_ddir d" using assms(1) by (simp_all add: root_rep_def)
  then have "opt_file_map r = map_cut (path_segs p) (file_map d)"
    using file_map_remove assms(3) path_segs_ok(2) by blast
  moreover have "opt_file_map r = file_map (case r of None \<Rightarrow> DDir [] | Some d' \<Rightarrow> d')"
    by (auto simp: opt_file_map_def file_map_def split: option.split)
  ultimately show ?thesis using RemoveEntry_refines [OF assms] grows_extends by metis
qed

lemma RemoveEntry_correct_witness:
  "\<exists>w' d'. RemoveEntry demo_env ''r'' ''/d/x/'' demo_work = (Inr (), w') \<and>
    root_rep demo_env ''r'' (ws_objs w') (ws_root w') d' \<and>
    file_map d' = map_cut [''d'', ''x''] (file_map demo_tree)"
proof -
  let ?r = "Some (DDir [(''a'', DFile ''1'')])"
  have "dt_remove (path_segs ''/d/x/'') demo_tree = Inr ?r"
    by (simp add: demo_segs demo_tree_def drop_kid_def)
  moreover have "collision_free demo_env ''r'' (ws_objs demo_work) (opt_subtrees ?r)"
    by (simp add: demo_work_def collision_free_def opt_subtrees_def subtrees_def demo_table_def demo_tree_def
        demo_tree'_def demo_renamed_def demo_renamed'_def lookup_tree_def ft_key_def demo_hashes row_of_def
        file_row_def dir_row_def)
  ultimately show ?thesis
    using RemoveEntry_correct [OF demo_work_rep demo_digest] demo_segs(2) by fastforce
qed

subsection \<open>Errors\<close>

lemma add_chain_name_error:
  "bl_repo b = repo \<Longrightarrow> [] \<in> set paths \<Longrightarrow> \<exists>st'. add_chain_loop E repo b first le paths st =
    (Inl (ErrMsg ''name is empty''), st') \<and> trees.extends st st'"
proof (induction paths arbitrary: first le st)
  case (Cons n ns)
  show ?case
  proof (cases "n = []")
    case True
    then show ?thesis by (simp add: trees.extends_refl)
  next
    case False
    then have IH: "\<exists>st'. add_chain_loop E repo b False le' ns st1 =
        (Inl (ErrMsg ''name is empty''), st') \<and> trees.extends st1 st'" for le' st1
      using Cons by auto
    have blob: "insert_blob repo b st = (Inr (), put_tree (Blob_FileTree b) st)"
      using Cons.prems(1) by (simp add: insert_blob_def FileTreeRepo_Insert_def Blob_FileTree_def)
    have ext: "trees.extends st (put_tree r st)" for r by (rule trees.extends_put)
    have le: "models_NewTreeNode E DefaultDirProperty repo [le] = models_NewTreeNode E DefaultDirProperty repo [le]" ..
    show ?thesis
      using False IH [of _ "put_tree (Blob_FileTree b) st"]
        IH [of _ "put_tree (TreeNode_FileTree (models_NewTreeNode E DefaultDirProperty repo [le])) st"]
        trees.extends_trans [OF ext]
      by (cases first) (simp_all add: blob insert_tree_hash Let_def, blast+)
  qed
qed simp

lemma dt_find_add_free:
  "dt_find segs d = Inr (xs, m # ms) \<Longrightarrow> [] \<notin> set (m # ms) \<Longrightarrow> \<exists>d'. dt_add segs h d = Inr d'"
proof (induction segs h d arbitrary: xs rule: dt_add.induct)
  case (2 n ns h d)
  then show ?case
    by (fastforce split: option.splits dtree.splits sum.splits if_splits)
qed simp

lemma dt_find_remove_ok: "dt_find segs d = Inr (xs, []) \<Longrightarrow> \<exists>r. dt_remove segs d = Inr r"
proof (induction segs d arbitrary: xs rule: dt_remove.induct)
  case (2 n ns d)
  then obtain x where x: "map_of (kids_of d) n = Some x" by (auto split: option.splits)
  show ?case
  proof (cases x)
    case (DDir ks)
    with 2(2) x obtain xs' where "dt_find ns (DDir ks) = Inr (xs', [])" by (auto split: sum.splits)
    then obtain r where "dt_remove ns (DDir ks) = Inr r" using 2(1) [OF refl x DDir] by blast
    with x DDir show ?thesis by (simp add: Let_def split: option.split)
  qed (use 2(2) x in \<open>auto simp: Let_def split: if_splits\<close>)
qed simp

lemma AddLeaf_fails:
  assumes rep: "root_rep E repo (ws_objs w) (ws_root w) d" and add: "dt_add (path_segs p) (bl_hash b) d = Inl e" and repo: "bl_repo b = repo"
  shows "\<exists>w'. AddLeaf E repo p b w = (Inl e, w') \<and> ws_root w' = ws_root w \<and>
      trees.extends (ws_objs w) (ws_objs w')"
proof -
  note find = findNodeByPath_dt [OF rep, of p]
  show ?thesis
  proof (cases "dt_find (path_segs p) d")
    case (Inl e')
    with add dt_find_add(1) [OF Inl, of "bl_hash b"] find show ?thesis
      by (simp add: AddLeaf_def trees.extends_refl)
  next
    case (Inr r)
    obtain xs ms where r: "r = (xs, ms)" by (cases r)
    show ?thesis
    proof (cases ms)
      case Nil
      with add dt_find_add(2) [of "path_segs p" d xs "bl_hash b"] find Inr r show ?thesis
        by (simp add: AddLeaf_def trees.extends_refl)
    next
      case (Cons m ms')
      have ne: "[] \<in> set ms"
        using dt_find_add_free [of "path_segs p" d xs m ms' "bl_hash b"] Inr r Cons add by auto
      have e: "e = ErrMsg ''name is empty''"
        using dt_find_add(3) [of "path_segs p" d xs m ms' "bl_hash b"] Inr r Cons ne add by simp
      have blob: "insert_blob repo b (ws_objs w) = (Inr (), put_tree (Blob_FileTree b) (ws_objs w))"
        using repo by (simp add: insert_blob_def FileTreeRepo_Insert_def Blob_FileTree_def)
      obtain st' where "add_chain_loop E repo b True zero_entry (rev ms)
          (put_tree (Blob_FileTree b) (ws_objs w)) = (Inl (ErrMsg ''name is empty''), st')"
        "trees.extends (put_tree (Blob_FileTree b) (ws_objs w)) st'"
        using add_chain_name_error [OF repo, of "rev ms"] ne unfolding set_rev by blast
      moreover from this(2) have "trees.extends (ws_objs w) st'"
        using trees.extends_trans [OF trees.extends_put] by blast
      ultimately show ?thesis using find Inr r Cons blob e by (simp add: AddLeaf_def)
    qed
  qed
qed

lemma ReplaceLeaf_fails:
  assumes rep: "root_rep E repo (ws_objs w) (ws_root w) d" and e: "dt_replace (path_segs p) (bl_hash b) d = Inl e"
  shows "ReplaceLeaf E repo p b w = (Inl e, w)"
proof -
  note find = findNodeByPath_dt [OF rep, of p]
  show ?thesis
  proof (cases "dt_find (path_segs p) d")
    case (Inl e')
    with dt_replace_find(1) [OF Inl, of "bl_hash b"] e find show ?thesis by (simp add: ReplaceLeaf_def)
  next
    case (Inr r)
    obtain xs ms where r: "r = (xs, ms)" by (cases r)
    with Inr e dt_replace_find(2) [of "path_segs p" d xs _ _ "bl_hash b"]
      dt_replace_find(3) [of "path_segs p" d xs "bl_hash b"]
    have "ms \<noteq> []" "e = ErrPathNotFound" by (cases ms; force)+
    with find Inr r show ?thesis by (simp add: ReplaceLeaf_def)
  qed
qed

lemma RemoveEntry_fails:
  assumes rep: "root_rep E repo (ws_objs w) (ws_root w) d" and e: "dt_remove (path_segs p) d = Inl e"
  shows "RemoveEntry E repo p w = (Inl e, w)"
proof -
  note find = findNodeByPath_dt [OF rep, of p]
  show ?thesis
  proof (cases "dt_find (path_segs p) d")
    case (Inl e')
    with dt_remove_find(1) [OF Inl] e find show ?thesis by (simp add: RemoveEntry_def)
  next
    case (Inr r)
    obtain xs ms where r: "r = (xs, ms)" by (cases r)
    with Inr e dt_remove_find(2) [of "path_segs p" d xs] dt_find_remove_ok [of "path_segs p" d xs]
    have "ms \<noteq> []" "e = ErrPathNotFound" by (cases ms; force)+
    with find Inr r show ?thesis by (simp add: RemoveEntry_def)
  qed
qed

text \<open>
  C19: An edit that the tree does not allow fails with the error of the specification and leaves
  the root as it was. ReplaceLeaf and RemoveEntry then leave the whole state unchanged; AddLeaf
  may have stored rows that nothing refers to.
\<close>

theorem edit_errors:
  assumes "root_rep E repo (ws_objs w) (ws_root w) d" "bl_repo b = repo"
  shows "(\<forall>e. dt_add (path_segs p) (bl_hash b) d = Inl e \<longrightarrow>
      (\<exists>w'. AddLeaf E repo p b w = (Inl e, w') \<and> ws_root w' = ws_root w \<and>
        trees.extends (ws_objs w) (ws_objs w'))) \<and>
    (\<forall>e. dt_replace (path_segs p) (bl_hash b) d = Inl e \<longrightarrow> ReplaceLeaf E repo p b w = (Inl e, w)) \<and>
    (\<forall>e. dt_remove (path_segs p) d = Inl e \<longrightarrow> RemoveEntry E repo p w = (Inl e, w))"
  using AddLeaf_fails [OF assms(1) _ assms(2)] ReplaceLeaf_fails [OF assms(1)] RemoveEntry_fails [OF assms(1)] by blast

lemma edit_errors_witness:
  "(\<exists>w'. AddLeaf demo_env ''r'' ''a/z'' demo_blob demo_work = (Inl ErrBlobMustBeLeaf, w') \<and>
      ws_root w' = ws_root demo_work) \<and>
    ReplaceLeaf demo_env ''r'' ''q'' demo_blob demo_work = (Inl ErrPathNotFound, demo_work) \<and>
    RemoveEntry demo_env ''r'' ''q'' demo_work = (Inl ErrPathNotFound, demo_work)"
proof -
  have "dt_add (path_segs ''a/z'') (bl_hash demo_blob) demo_tree = Inl ErrBlobMustBeLeaf"
    "dt_replace (path_segs ''q'') (bl_hash demo_blob) demo_tree = Inl ErrPathNotFound"
    "dt_remove (path_segs ''q'') demo_tree = Inl ErrPathNotFound"
    by (simp_all add: demo_segs demo_tree_def)
  then show ?thesis using edit_errors [OF demo_work_rep demo_blob_simps(2)] by blast
qed

subsection \<open>Reading a file\<close>

lemma dt_find_file:
  "segs \<noteq> [] \<Longrightarrow> dt_ok d \<Longrightarrow> is_ddir d \<Longrightarrow>
    file_map d segs = Some h \<longleftrightarrow> (\<exists>xs n. dt_find segs d = Inr (xs, []) \<and> xs \<noteq> [] \<and> last xs = (n, DFile h))"
proof (induction segs d rule: dt_find.induct)
  case (2 n ns d)
  note fm = file_map_dt [OF 2(3,4), of n ns]
  show ?case
  proof (cases "map_of (kids_of d) n")
    case None
    then show ?thesis by (simp add: fm)
  next
    case (Some x)
    have ok: "dt_ok x" "x \<noteq> DDir []" using dt_ok_map_of [OF 2(3) Some] by auto
    show ?thesis
    proof (cases x)
      case (DFile g)
      then show ?thesis using Some fm by (cases ns) (auto simp: file_map_simps)
    next
      case (DDir ks)
      show ?thesis
      proof (cases "ns = []")
        case True
        then show ?thesis using Some DDir fm by (simp add: file_map_simps)
      next
        case False
        have ne: "\<And>xs. dt_find ns (DDir ks) = Inr (xs, []) \<Longrightarrow> xs \<noteq> []"
          using dt_remove_find(3) False by fastforce
        show ?thesis using 2(1) [OF Some DDir False] ok DDir Some ne
          by (auto simp: fm split: sum.splits)
      qed
    qed
  qed
qed simp

lemma dt_find_stored:
  "dt_find segs d = Inr (xs, m) \<Longrightarrow> \<forall>k \<in> set (kids_of d). stored E repo st (snd k) \<Longrightarrow>
    \<forall>k \<in> set xs. stored E repo st (snd k)"
proof (induction segs d arbitrary: xs rule: dt_find.induct)
  case (2 n ns d)
  show ?case
  proof (cases "map_of (kids_of d) n")
    case (Some x)
    have x: "stored E repo st x" using bspec [OF 2(3) map_of_SomeD [OF Some]] by simp
    show ?thesis
    proof (cases x)
      case (DDir ks)
      with 2(2) Some obtain xs' where xs: "dt_find ns (DDir ks) = Inr (xs', m)" "xs = (n, DDir ks) # xs'"
        by (auto split: sum.splits)
      have "\<forall>k \<in> set (kids_of (DDir ks)). stored E repo st (snd k)"
        using stored_kids [OF x] DDir by blast
      with 2(1) [OF Some DDir xs(1)] xs(2) x DDir show ?thesis by simp
    qed (use 2(2) Some x in \<open>auto split: if_splits\<close>)
  qed (use 2(2) in simp)
qed simp

lemma obj_file:
  assumes "stored E repo st (DFile h)"
  shows "ft_type (fo_node (obj E repo st (n, DFile h))) = BlobObject"
    "bl_hash (FileTree_Blob (fo_node (obj E repo st (n, DFile h)))) = h"
proof -
  obtain f where f: "lookup_tree (h, repo) st = Some f" "file_row f"
    using assms by (auto split: option.splits)
  then show "ft_type (fo_node (obj E repo st (n, DFile h))) = BlobObject"
    "bl_hash (FileTree_Blob (fo_node (obj E repo st (n, DFile h)))) = h"
    using lookup_tree_key [OF f(1)]
    by (simp_all add: obj_def Blob_FileTree_def FileTree_Blob_def file_row_def)
qed

lemma obj_dir:
  "stored E repo st (DDir ks) \<Longrightarrow> ft_type (fo_node (obj E repo st (n, DDir ks))) = TreeObject"
  using stored_row [of E repo st "DDir ks"]
  by (auto simp: obj_def Let_def TreeNode_FileTree_def)

lemma FindBlob_files:
  assumes "root_rep E repo (ws_objs w) (ws_root w) d"
  shows "(\<exists>b name. FindBlob repo p w = Inr (b, name) \<and> bl_hash b = h) \<longleftrightarrow>
    file_map d (path_segs p) = Some h"
proof (cases "dt_find (path_segs p) d")
  case (Inl e)
  then show ?thesis
    using dt_find_file [OF path_segs_ok(2), of d p h] assms findNodeByPath_dt [OF assms, of p]
    by (simp add: FindBlob_def root_rep_def)
next
  case (Inr r)
  have d: "dt_ok d" "is_ddir d" using assms by (simp_all add: root_rep_def)
  obtain xs ms where r: "r = (xs, ms)" by (cases r)
  note find = findNodeByPath_dt [OF assms, of p] Inr r
  show ?thesis
  proof (cases "ms = []")
    case False
    then show ?thesis using dt_find_file [OF path_segs_ok(2) d, of p h] find by (simp add: FindBlob_def)
  next
    case True
    have xs: "xs \<noteq> []" using dt_remove_find(3) [of "path_segs p" d xs] Inr r True path_segs_ok(2) [of p] by auto
    obtain n y where last: "last xs = (n, y)" by (cases "last xs")
    have st: "stored E repo (ws_objs w) y"
      using dt_find_stored [of "path_segs p" d xs ms] Inr r root_rep_kids_stored [OF assms] last
        last_in_set [OF xs] by force
    have "file_map d (path_segs p) = Some h \<longleftrightarrow> y = DFile h"
      using dt_find_file [OF path_segs_ok(2) d, of p h] Inr r True xs last by auto
    moreover have "(\<exists>b name. FindBlob repo p w = Inr (b, name) \<and> bl_hash b = h) \<longleftrightarrow> y = DFile h"
      using find True xs last st obj_file [of E repo "ws_objs w" _ n] obj_dir [of E repo "ws_objs w" _ n]
      by (cases y) (auto simp: FindBlob_def Let_def last_map)
    ultimately show ?thesis by simp
  qed
qed

text \<open>
  C20: FindBlob returns a blob exactly for the paths of files, and its hash is the file's.
\<close>

theorem FindBlob_file_map:
  assumes "root_rep E repo (ws_objs w) (ws_root w) d"
  shows "(\<exists>b name. FindBlob repo p w = Inr (b, name) \<and> bl_hash b = h) \<longleftrightarrow>
    file_map d (path_segs p) = Some h"
  using assms by (rule FindBlob_files)

lemma FindBlob_file_map_witness:
  "\<exists>b name. FindBlob ''r'' ''/d/x/'' demo_work = Inr (b, name) \<and> bl_hash b = ''2''"
  using FindBlob_file_map [OF demo_work_rep, of "''/d/x/''" "''2''"] demo_segs(2)
  by (simp add: demo_tree_def file_map_def)

text \<open>
  When no entry has the name, ReplaceSubTreeEntry does not fail: in a directory that is not
  empty it overwrites the last entry with the new one. (The loop variable of the search keeps
  the last index.)
\<close>

theorem ReplaceSubTreeEntry_missing:
  assumes "vt_SubObjects n = subs" "subs \<noteq> []" "te_name e \<notin> te_name ` set subs"
  shows "ReplaceSubTreeEntry E repo n e st =
    insert_tree repo (models_NewTreeNode E (vt_Properties n) repo (butlast subs @ [e])) st"
proof -
  have "range_index (te_name e) i subs = Some (i + (length subs - 1))" for i
    using assms(2,3) by (induction subs arbitrary: i) auto
  from this [of 0] have "ReplaceSubTreeEntry E repo n e st =
      insert_tree repo (models_NewTreeNode E (vt_Properties n) repo (subs[length subs - 1 := e])) st"
    using assms(1) by (simp add: ReplaceSubTreeEntry_def)
  moreover have "subs[length subs - 1 := e] = butlast subs @ [e]"
    using assms(2) by (cases subs rule: rev_cases) simp_all
  ultimately show ?thesis by simp
qed

lemma ReplaceSubTreeEntry_missing_witness:
  "ReplaceSubTreeEntry demo_env ''r'' (demo_root demo_tree) \<lparr>te_name = ''n'', te_is_dir = False, te_hash = ''9''\<rparr>
      demo_table =
    insert_tree ''r'' (models_NewTreeNode demo_env (vt_Properties (demo_root demo_tree)) ''r''
      (butlast (listing demo_env (kids_of demo_tree)) @ [\<lparr>te_name = ''n'', te_is_dir = False, te_hash = ''9''\<rparr>]))
      demo_table"
proof (rule ReplaceSubTreeEntry_missing)
  show "vt_SubObjects (demo_root demo_tree) = listing demo_env (kids_of demo_tree)"
    using root_rep_kids [OF demo_work_rep] by (simp add: demo_work_def lists_kids_def)
qed (simp_all add: demo_tree_def listing_def)

end
