(* ===== verification/Changes_Merge.thy ===== *)
theory Changes_Merge
  imports Changes Work_Tree_Spec
begin

section \<open>The merge of two change sets is a three-way merge\<close>

text \<open>
  Two change sets from one base \<open>b\<close>, to \<open>f\<close> and to \<open>g\<close>, given as maps from paths to file
  hashes. The merge iterator is proved to yield the changes from \<open>b\<close> to the three-way merge of
  \<open>f\<close> and \<open>g\<close> when no path was changed differently on both sides, and to call the resolver for
  exactly the paths that were.
\<close>

abbreviation by_path :: "'n noder_ops \<Rightarrow> 'n change list \<Rightarrow> bool" where
  "by_path N cs \<equiv> sorted_wrt (\<lambda>c d. change_Path N c < change_Path N d) cs"

definition stream_spec ::
  "'n noder_ops \<Rightarrow> 'n resolver option \<Rightarrow> 'n change set \<Rightarrow> 'n change set \<Rightarrow> 'n change result set" where
  "stream_spec N res L R =
     Inr ` {l \<in> L. change_Path N l \<notin> change_Path N ` R} \<union>
     Inr ` {r \<in> R. change_Path N r \<notin> change_Path N ` L} \<union>
     (\<lambda>(l, r). joint_change N res l r) ` {(l, r). l \<in> L \<and> r \<in> R \<and> change_Path N l = change_Path N r}"

lemma stream_spec_right:
  assumes "change_Path N r \<notin> change_Path N ` L"
  shows "stream_spec N res L (insert r R) = insert (Inr r) (stream_spec N res L R)"
proof -
  have "{l \<in> L. change_Path N l \<notin> change_Path N ` insert r R} = {l \<in> L. change_Path N l \<notin> change_Path N ` R}"
    "{x \<in> insert r R. change_Path N x \<notin> change_Path N ` L} =
      insert r {x \<in> R. change_Path N x \<notin> change_Path N ` L}"
    "{(l, x). l \<in> L \<and> x \<in> insert r R \<and> change_Path N l = change_Path N x} =
      {(l, x). l \<in> L \<and> x \<in> R \<and> change_Path N l = change_Path N x}"
    using assms by (auto simp: image_iff)
  then show ?thesis by (simp add: stream_spec_def)
qed

lemma stream_spec_left:
  assumes "change_Path N l \<notin> change_Path N ` R"
  shows "stream_spec N res (insert l L) R = insert (Inr l) (stream_spec N res L R)"
proof -
  have "{x \<in> insert l L. change_Path N x \<notin> change_Path N ` R} =
      insert l {x \<in> L. change_Path N x \<notin> change_Path N ` R}"
    "{r \<in> R. change_Path N r \<notin> change_Path N ` insert l L} = {r \<in> R. change_Path N r \<notin> change_Path N ` L}"
    "{(x, r). x \<in> insert l L \<and> r \<in> R \<and> change_Path N x = change_Path N r} =
      {(x, r). x \<in> L \<and> r \<in> R \<and> change_Path N x = change_Path N r}"
    using assms by (auto simp: image_iff)
  then show ?thesis by (simp add: stream_spec_def)
qed

lemma stream_spec_both:
  assumes "change_Path N l = change_Path N r" "change_Path N l \<notin> change_Path N ` L"
    "change_Path N r \<notin> change_Path N ` R"
  shows "stream_spec N res (insert l L) (insert r R) = insert (joint_change N res l r) (stream_spec N res L R)"
proof -
  have "{x \<in> insert l L. change_Path N x \<notin> change_Path N ` insert r R} =
      {x \<in> L. change_Path N x \<notin> change_Path N ` R}"
    "{x \<in> insert r R. change_Path N x \<notin> change_Path N ` insert l L} =
      {x \<in> R. change_Path N x \<notin> change_Path N ` L}"
    "{(x, y). x \<in> insert l L \<and> y \<in> insert r R \<and> change_Path N x = change_Path N y} =
      insert (l, r) {(x, y). x \<in> L \<and> y \<in> R \<and> change_Path N x = change_Path N y}"
    using assms by (auto simp: image_iff)
  then show ?thesis by (simp add: stream_spec_def)
qed

lemma stream_spec_empty [simp]:
  "stream_spec N res {} R = Inr ` R" "stream_spec N res L {} = Inr ` L"
  by (simp_all add: stream_spec_def)

lemma merge_stream_set:
  "by_path N ls \<Longrightarrow> by_path N rs \<Longrightarrow> set (merge_stream N res ls rs) = stream_spec N res (set ls) (set rs)"
proof (induction N res ls rs rule: merge_stream.induct)
  case (3 N res l ls r rs)
  have l: "\<And>x. x \<in> set ls \<Longrightarrow> change_Path N l < change_Path N x"
    and r: "\<And>x. x \<in> set rs \<Longrightarrow> change_Path N r < change_Path N x"
    and tails: "by_path N ls" "by_path N rs"
    using 3(4,5) by simp_all
  consider (right) "change_Path N r < change_Path N l" | (both) "change_Path N l = change_Path N r"
    | (left) "change_Path N l < change_Path N r" by fastforce
  then show ?case
  proof cases
    case right
    then have "change_Path N r \<notin> change_Path N ` set (l # ls)" using l by (fastforce dest: less_trans)
    from stream_spec_right [OF this] 3(1) [OF right 3(4) tails(2)] right show ?thesis by simp
  next
    case both
    then have "change_Path N l \<notin> change_Path N ` set ls" "change_Path N r \<notin> change_Path N ` set rs"
      using l r by fastforce+
    from stream_spec_both [OF both this] 3(2) [OF _ both tails] both show ?thesis by simp
  next
    case left
    then have "change_Path N l \<notin> change_Path N ` set (r # rs)" using r by (fastforce dest: less_trans)
    from stream_spec_left [OF this] have "stream_spec N res (insert l (set ls)) (set (r # rs)) =
        insert (Inr l) (stream_spec N res (set ls) (set (r # rs)))" .
    moreover have "\<not> change_Path N r < change_Path N l" "change_Path N l \<noteq> change_Path N r" using left by auto
    ultimately show ?thesis using 3(3) [OF _ _ tails(1) 3(5)] by simp
  qed
qed simp_all

text \<open>A merge in which equal changes win is again in path order.\<close>

lemma merge_stream_by_path:
  assumes "by_path N ls" "by_path N rs"
    "\<forall>l \<in> set ls. \<forall>r \<in> set rs. change_Path N l = change_Path N r \<longrightarrow> joint_change N res l r = Inr l"
  shows "\<exists>ms. merge_stream N res ls rs = map Inr ms \<and> by_path N ms \<and> set ms \<subseteq> set ls \<union> set rs"
  using assms
proof (induction N res ls rs rule: merge_stream.induct)
  case (3 N res l ls r rs)
  have l: "\<And>x. x \<in> set ls \<Longrightarrow> change_Path N l < change_Path N x"
    and r: "\<And>x. x \<in> set rs \<Longrightarrow> change_Path N r < change_Path N x"
    and tails: "by_path N ls" "by_path N rs"
    using 3(4,5) by simp_all
  consider (right) "change_Path N r < change_Path N l" | (both) "change_Path N l = change_Path N r"
    | (left) "change_Path N l < change_Path N r" by fastforce
  then show ?case
  proof cases
    case right
    then obtain ms where "merge_stream N res (l # ls) rs = map Inr ms" "by_path N ms" "set ms \<subseteq> set (l # ls) \<union> set rs"
      using 3(1) [OF right 3(4) tails(2)] 3(6) by auto
    moreover have "change_Path N r < change_Path N x" if "x \<in> set (l # ls) \<union> set rs" for x
      using that right l r by (auto dest: less_trans)
    ultimately show ?thesis using right by (intro exI [of _ "r # ms"]) (auto simp: subset_iff)
  next
    case both
    then obtain ms where "merge_stream N res ls rs = map Inr ms" "by_path N ms" "set ms \<subseteq> set ls \<union> set rs"
      using 3(2) [OF _ both tails] 3(6) by auto
    moreover have "joint_change N res l r = Inr l" using 3(6) both by simp
    moreover have "change_Path N l < change_Path N x" if "x \<in> set ls \<union> set rs" for x
      using that both l r by auto
    ultimately show ?thesis using both by (intro exI [of _ "l # ms"]) (auto simp: subset_iff)
  next
    case left
    then have neq: "\<not> change_Path N r < change_Path N l" "change_Path N l \<noteq> change_Path N r" by auto
    obtain ms where "merge_stream N res ls (r # rs) = map Inr ms" "by_path N ms" "set ms \<subseteq> set ls \<union> set (r # rs)"
      using 3(3) [OF neq tails(1) 3(5)] 3(6) by auto
    moreover have "change_Path N l < change_Path N x" if "x \<in> set ls \<union> set (r # rs)" for x
      using that left l r by (auto dest: less_trans)
    ultimately show ?thesis using neq by (intro exI [of _ "l # ms"]) (auto simp: subset_iff)
  qed
next
  case (2 N res l ls)
  then show ?case by (intro exI [of _ "l # ls"]) simp
qed auto

subsection \<open>Changes from a common base\<close>

text \<open>Paths made of names without a slash have different texts.\<close>

definition plain_changes :: "'n noder_ops \<Rightarrow> 'n change list \<Rightarrow> bool" where
  "plain_changes N cs \<longleftrightarrow> distinct (map (change_names N) cs) \<and>
     (\<forall>c \<in> set cs. change_Path N c = join_with ''/'' (change_names N c) \<and> change_names N c \<noteq> [] \<and>
       (\<forall>n \<in> set (change_names N c). CHR ''/'' \<notin> set n))"

lemma plain_paths:
  assumes "plain_changes N cs" "plain_changes N ds" "c \<in> set cs" "d \<in> set ds"
  shows "change_Path N c = change_Path N d \<longleftrightarrow> change_names N c = change_names N d"
  using assms split_join_on unfolding plain_changes_def by metis

lemma plain_by_path:
  assumes "plain_changes N cs"
  shows "by_path N (sort_key (change_Path N) cs)"
proof -
  have "inj_on (change_Path N) (set cs)"
    using assms plain_paths [OF assms assms] by (auto simp: inj_on_def plain_changes_def distinct_map)
  moreover have "distinct cs" using assms by (simp add: plain_changes_def distinct_map)
  ultimately have "distinct (map (change_Path N) (sort_key (change_Path N) cs))"
    by (simp add: distinct_map)
  then have "sorted_wrt (<) (map (change_Path N) (sort_key (change_Path N) cs))"
    by (simp add: strict_sorted_iff)
  then show ?thesis by (simp add: sorted_wrt_map)
qed

lemma plain_sort: "plain_changes N cs \<Longrightarrow> plain_changes N (sort_key (change_Path N) cs)"
  by (simp add: plain_changes_def)

text \<open>\<open>cs\<close> are the changes from \<open>b\<close> to \<open>f\<close>.\<close>

definition changes_between ::
  "'n noder_ops \<Rightarrow> (string list \<Rightarrow> hash option) \<Rightarrow> (string list \<Rightarrow> hash option) \<Rightarrow> 'n change list \<Rightarrow> bool" where
  "changes_between N b f cs \<longleftrightarrow> plain_changes N cs \<and> change_summary N ` set cs = map_diff b f"

lemma changes_betweenD:
  assumes "changes_between N b f cs" "c \<in> set cs"
  shows "map_option (path_Hash N) (ch_From c) = b (change_names N c)"
    "map_option (path_Hash N) (ch_To c) = f (change_names N c)" "b (change_names N c) \<noteq> f (change_names N c)"
proof -
  have "change_summary N c \<in> map_diff b f" using assms by (auto simp: changes_between_def)
  then show "map_option (path_Hash N) (ch_From c) = b (change_names N c)"
    "map_option (path_Hash N) (ch_To c) = f (change_names N c)" "b (change_names N c) \<noteq> f (change_names N c)"
    by (auto simp: map_diff_def change_summary_def)
qed

lemma changes_between_ex:
  assumes "changes_between N b f cs"
  shows "(\<exists>c \<in> set cs. change_names N c = p) \<longleftrightarrow> b p \<noteq> f p"
proof
  show "\<exists>c \<in> set cs. change_names N c = p \<Longrightarrow> b p \<noteq> f p" using changes_betweenD(3) [OF assms] by blast
  assume "b p \<noteq> f p"
  then have "(p, b p, f p) \<in> change_summary N ` set cs" using assms by (auto simp: changes_between_def map_diff_def)
  then show "\<exists>c \<in> set cs. change_names N c = p" by (auto simp: change_summary_def)
qed

lemma joint_change_conflict:
  assumes "changes_between N b f ls" "changes_between N b g rs" "l \<in> set ls" "r \<in> set rs"
    "change_names N l = change_names N r"
  shows "joint_change N res l r =
    (if f (change_names N l) = g (change_names N l) then Inr l else resolveConflict res l r)"
proof -
  let ?n = "change_names N l" and ?h = "map_option (path_Hash N)"
  note dl = changes_betweenD [OF assms(1,3)] and dr = changes_betweenD [OF assms(2,4)]
  have eqs: "f ?n = ?h (ch_To l)" "g ?n = ?h (ch_To r)" "?h (ch_From l) = ?h (ch_From r)"
    "?h (ch_From l) \<noteq> ?h (ch_To l)" "?h (ch_From r) \<noteq> ?h (ch_To r)"
    using dl dr assms(5) by simp_all
  have "isConflict N l r = Inr (?h (ch_To l) \<noteq> ?h (ch_To r))"
    using eqs(3-5)
    by (cases "ch_From l"; cases "ch_To l"; cases "ch_From r"; cases "ch_To r")
      (simp_all add: isConflict_def change_Action_def to_hash_def)
  then have "isConflict N l r = Inr (f ?n \<noteq> g ?n)" by (simp add: eqs(1,2))
  then show ?thesis by (simp add: joint_change_def)
qed

lemma change_summary_eq:
  "changes_between N b f cs \<Longrightarrow> c \<in> set cs \<Longrightarrow>
    change_summary N c = (change_names N c, b (change_names N c), f (change_names N c))"
  using changes_betweenD [of N b f cs c] by (simp add: change_summary_def)


subsection \<open>The three-way merge\<close>

definition three_way ::
  "(string list \<Rightarrow> hash option) \<Rightarrow> (string list \<Rightarrow> hash option) \<Rightarrow> (string list \<Rightarrow> hash option) \<Rightarrow>
    string list \<Rightarrow> hash option" where
  "three_way b f g p = (if f p \<noteq> b p then f p else g p)"

text \<open>A path changed on both sides, with different results.\<close>

definition clash_at ::
  "(string list \<Rightarrow> hash option) \<Rightarrow> (string list \<Rightarrow> hash option) \<Rightarrow> (string list \<Rightarrow> hash option) \<Rightarrow>
    string list \<Rightarrow> bool" where
  "clash_at b f g p \<longleftrightarrow> f p \<noteq> b p \<and> g p \<noteq> b p \<and> f p \<noteq> g p"

lemma merge_stream_between:
  assumes "changes_between N b f ls" "changes_between N b g rs"
  shows "set (merge_stream N res (sort_key (change_Path N) ls) (sort_key (change_Path N) rs)) =
    Inr ` {l \<in> set ls. g (change_names N l) = b (change_names N l)} \<union>
    Inr ` {r \<in> set rs. f (change_names N r) = b (change_names N r)} \<union>
    {if f (change_names N l) = g (change_names N l) then Inr l else resolveConflict res l r | l r.
      l \<in> set ls \<and> r \<in> set rs \<and> change_names N l = change_names N r}"
proof -
  have plain: "plain_changes N ls" "plain_changes N rs" using assms by (simp_all add: changes_between_def)
  note paths = plain_paths [OF plain]
  have left: "change_Path N l \<notin> change_Path N ` set rs \<longleftrightarrow> g (change_names N l) = b (change_names N l)"
    if "l \<in> set ls" for l
    using paths [OF that] changes_between_ex [OF assms(2), of "change_names N l"] by (auto simp: image_iff)
  have right: "change_Path N r \<notin> change_Path N ` set ls \<longleftrightarrow> f (change_names N r) = b (change_names N r)"
    if "r \<in> set rs" for r
  proof -
    have "change_Path N r \<in> change_Path N ` set ls \<longleftrightarrow> (\<exists>c \<in> set ls. change_Path N c = change_Path N r)"
      unfolding image_iff by (rule bex_cong [OF refl]) (rule eq_commute)
    also have "\<dots> \<longleftrightarrow> (\<exists>c \<in> set ls. change_names N c = change_names N r)"
      using paths [OF _ that] by simp
    also have "\<dots> \<longleftrightarrow> b (change_names N r) \<noteq> f (change_names N r)" by (rule changes_between_ex [OF assms(1)])
    finally show ?thesis by auto
  qed
  have joint: "(\<lambda>(l, r). joint_change N res l r) `
      {(l, r). l \<in> set ls \<and> r \<in> set rs \<and> change_Path N l = change_Path N r} =
    {if f (change_names N l) = g (change_names N l) then Inr l else resolveConflict res l r | l r.
      l \<in> set ls \<and> r \<in> set rs \<and> change_names N l = change_names N r}" (is "?J = ?K")
  proof
    show "?J \<subseteq> ?K"
    proof
      fix x assume "x \<in> ?J"
      then obtain l r where lr: "x = joint_change N res l r" "l \<in> set ls" "r \<in> set rs"
        "change_Path N l = change_Path N r" by (auto elim!: imageE)
      then have "change_names N l = change_names N r" using paths by blast
      with lr joint_change_conflict [OF assms lr(2,3), of res] show "x \<in> ?K" by blast
    qed
    show "?K \<subseteq> ?J"
    proof
      fix x assume "x \<in> ?K"
      then obtain l r where lr: "l \<in> set ls" "r \<in> set rs" "change_names N l = change_names N r"
        "x = (if f (change_names N l) = g (change_names N l) then Inr l else resolveConflict res l r)"
        by blast
      then have "x = joint_change N res l r" using joint_change_conflict [OF assms lr(1-3)] by simp
      with lr paths show "x \<in> ?J" by (intro image_eqI [of _ _ "(l, r)"]) auto
    qed
  qed
  have sets: "{l \<in> set ls. change_Path N l \<notin> change_Path N ` set rs} =
      {l \<in> set ls. g (change_names N l) = b (change_names N l)}"
    "{r \<in> set rs. change_Path N r \<notin> change_Path N ` set ls} =
      {r \<in> set rs. f (change_names N r) = b (change_names N r)}"
    using left right by blast+
  show ?thesis
    unfolding merge_stream_set [OF plain_by_path [OF plain(1)] plain_by_path [OF plain(2)]]
      stream_spec_def set_sort sets joint by (rule refl)
qed


lemma map_Inr_ex: "(\<forall>x \<in> set xs. \<exists>y. x = Inr y) \<Longrightarrow> \<exists>ys. xs = map Inr ys"
  by (induction xs) (auto, metis list.simps(9))

lemma changes_between_sort [simp]:
  "changes_between N b f (sort_key (change_Path N) cs) = changes_between N b f cs"
  by (simp add: changes_between_def plain_changes_def)

lemma merge_stream_three_way:
  assumes "changes_between N b f ls" "changes_between N b g rs" "\<forall>p. \<not> clash_at b f g p"
  shows "\<exists>ms. (\<forall>h s. merge_loop N h
        (NewChangesMergeIter (NewChanges N ls) (NewChanges N rs) res) s = Some (run_stream h (map Inr ms) s)) \<and>
    change_summary N ` set ms = map_diff b (three_way b f g) \<and> by_path N ms \<and> set ms \<subseteq> set ls \<union> set rs"
proof -
  let ?stream = "merge_stream N res (sort_key (change_Path N) ls) (sort_key (change_Path N) rs)"
  have same: "f (change_names N l) = g (change_names N l)"
    if "l \<in> set ls" "r \<in> set rs" "change_names N l = change_names N r" for l r
    using assms(3) changes_betweenD(3) [OF assms(1) that(1)] changes_betweenD(3) [OF assms(2) that(2)] that(3)
    unfolding clash_at_def by metis
  have set: "set ?stream = Inr ` ({l \<in> set ls. g (change_names N l) = b (change_names N l)} \<union>
      {r \<in> set rs. f (change_names N r) = b (change_names N r)} \<union>
      {l \<in> set ls. \<exists>r \<in> set rs. change_names N l = change_names N r})"
  proof -
    have "{if f (change_names N l) = g (change_names N l) then Inr l else resolveConflict res l r | l r.
        l \<in> set ls \<and> r \<in> set rs \<and> change_names N l = change_names N r} =
      Inr ` {l \<in> set ls. \<exists>r \<in> set rs. change_names N l = change_names N r}" (is "?K = ?I")
    proof (intro set_eqI iffI)
      fix x assume "x \<in> ?K"
      then obtain l r where "l \<in> set ls" "r \<in> set rs" "change_names N l = change_names N r"
        "x = (if f (change_names N l) = g (change_names N l) then Inr l else resolveConflict res l r)"
        by blast
      with same show "x \<in> ?I" by auto
    next
      fix x assume "x \<in> ?I"
      then obtain l r where lr: "l \<in> set ls" "r \<in> set rs" "change_names N l = change_names N r" "x = Inr l"
        by blast
      then have "x = (if f (change_names N l) = g (change_names N l) then Inr l else resolveConflict res l r)"
        using same by simp
      with lr show "x \<in> ?K" by blast
    qed
    then show ?thesis unfolding merge_stream_between [OF assms(1,2)] image_Un by simp
  qed
  have plain: "plain_changes N ls" "plain_changes N rs" using assms(1,2) by (simp_all add: changes_between_def)
  have joint: "joint_change N res l r = Inr l"
    if "l \<in> set ls" "r \<in> set rs" "change_Path N l = change_Path N r" for l r
    using joint_change_conflict [OF assms(1,2) that(1,2)] plain_paths [OF plain that(1,2)] same that by simp
  obtain ms where ms: "?stream = map Inr ms" "by_path N ms" "set ms \<subseteq> set ls \<union> set rs"
    using merge_stream_by_path [OF plain_by_path [OF plain(1)] plain_by_path [OF plain(2)], of res] joint
    by auto
  have mset: "set ms = {l \<in> set ls. True} \<union> {r \<in> set rs. f (change_names N r) = b (change_names N r)}"
  proof -
    have "set ms = {l \<in> set ls. g (change_names N l) = b (change_names N l)} \<union>
      {r \<in> set rs. f (change_names N r) = b (change_names N r)} \<union>
      {l \<in> set ls. \<exists>r \<in> set rs. change_names N l = change_names N r}"
      using set unfolding ms(1) set_map by (rule inj_image_eq_iff [THEN iffD1, rotated]) simp
    moreover have "\<exists>r \<in> set rs. change_names N l = change_names N r"
      if "g (change_names N l) \<noteq> b (change_names N l)" for l
      using changes_between_ex [OF assms(2), of "change_names N l"] that by metis
    ultimately show ?thesis by blast
  qed
  have "change_summary N ` set ms = map_diff b (three_way b f g)"
  proof (intro set_eqI iffI)
    fix z assume "z \<in> change_summary N ` set ms"
    then obtain c where c: "c \<in> set ms" "z = change_summary N c" by blast
    show "z \<in> map_diff b (three_way b f g)"
    proof (cases "c \<in> set ls")
      case True
      then show ?thesis using change_summary_eq [OF assms(1) True] changes_betweenD(3) [OF assms(1) True] c(2)
        by (auto simp: map_diff_def three_way_def)
    next
      case False
      with c mset have "c \<in> set rs" "f (change_names N c) = b (change_names N c)" by auto
      then show ?thesis
        using change_summary_eq [OF assms(2), of c] changes_betweenD(3) [OF assms(2), of c] c(2)
        by (auto simp: map_diff_def three_way_def)
    qed
  next
    fix z assume "z \<in> map_diff b (three_way b f g)"
    then obtain p where p: "z = (p, b p, three_way b f g p)" "b p \<noteq> three_way b f g p"
      by (auto simp: map_diff_def)
    show "z \<in> change_summary N ` set ms"
    proof (cases "f p = b p")
      case False
      then obtain c where "c \<in> set ls" "change_names N c = p" using changes_between_ex [OF assms(1), of p] by auto
      then show ?thesis using change_summary_eq [OF assms(1)] mset p False
        by (intro image_eqI [of _ _ c]) (auto simp: three_way_def)
    next
      case True
      then obtain c where "c \<in> set rs" "change_names N c = p"
        using p changes_between_ex [OF assms(2), of p] by (auto simp: three_way_def)
      then show ?thesis using change_summary_eq [OF assms(2)] mset p True
        by (intro image_eqI [of _ _ c]) (auto simp: three_way_def)
    qed
  qed
  moreover have "merge_loop N h (NewChangesMergeIter (NewChanges N ls) (NewChanges N rs) res) s =
      Some (run_stream h (map Inr ms) s)" for h :: "'a change \<Rightarrow> 'b \<Rightarrow> unit result \<times> 'b" and s
    by (simp add: merge_loop_stream ms(1))
  ultimately show ?thesis using ms(2,3) by blast
qed

text \<open>
  C10: When no path was changed on both sides to different results, the merge of the changes from
  \<open>b\<close> to \<open>f\<close> with those from \<open>b\<close> to \<open>g\<close> calls no resolver and yields exactly the changes from
  \<open>b\<close> to the three-way merge: \<open>f\<close>'s version where \<open>f\<close> differs from \<open>b\<close>, \<open>g\<close>'s elsewhere.
\<close>

theorem three_way_merge:
  assumes "changes_between N b f ls" "changes_between N b g rs" "\<forall>p. \<not> clash_at b f g p"
  shows "\<exists>ms. (\<forall>h s. merge_loop N h
        (NewChangesMergeIter (NewChanges N ls) (NewChanges N rs) res) s = Some (run_stream h (map Inr ms) s)) \<and>
    change_summary N ` set ms = map_diff b (three_way b f g)"
  using merge_stream_three_way [OF assms] by blast

text \<open>A run with a handler that never fails applies what comes before the first error.\<close>

lemma run_stream_until:
  assumes "\<forall>e. Inl e \<in> set xs \<longrightarrow> e = e0"
  shows "\<exists>ms. (\<forall>upd (s :: 'b). run_stream (\<lambda>c s. (Inr (), upd c s)) xs s =
      (if Inl e0 \<in> set xs then Inl e0 else Inr (), fold upd ms s)) \<and> Inr ` set ms \<subseteq> set xs"
  using assms
proof (induction xs)
  case (Cons x xs)
  show ?case
  proof (cases x)
    case (Inl e)
    then have "e = e0" using Cons.prems by simp
    with Inl show ?thesis by (intro exI [of _ "[]"]) simp
  next
    case (Inr c)
    have "\<forall>e. Inl e \<in> set xs \<longrightarrow> e = e0" using Cons.prems by simp
    from Cons.IH [OF this] obtain ms where "\<forall>upd (s :: 'b). run_stream (\<lambda>c s. (Inr (), upd c s)) xs s =
        (if Inl e0 \<in> set xs then Inl e0 else Inr (), fold upd ms s)" "Inr ` set ms \<subseteq> set xs" by (elim exE conjE)
    with Inr show ?thesis by (intro exI [of _ "c # ms"]) auto
  qed
qed (auto intro: exI [of _ "[]"])

text \<open>
  C18: Without a resolver the loop over the merged changes stops with the error of a conflict exactly
  when some path was changed on both sides to different results, and ends without an error otherwise,
  as long as the changes can be applied. What it has applied when it stops are changes of one of the
  sides at paths where they do not conflict.
\<close>

theorem conflict_detected:
  assumes "changes_between N b f ls" "changes_between N b g rs"
  shows "\<exists>ms. (\<forall>upd (s :: 'b). merge_loop N (\<lambda>c s. (Inr (), upd c s))
        (NewChangesMergeIter (NewChanges N ls) (NewChanges N rs) None) s =
      Some (if \<exists>p. clash_at b f g p then Inl ErrConflict else Inr (), fold upd ms s)) \<and>
    (\<forall>c \<in> set ms. c \<in> set ls \<union> set rs \<and> \<not> clash_at b f g (change_names N c))"
proof -
  let ?stream = "merge_stream N None (sort_key (change_Path N) ls) (sort_key (change_Path N) rs)"
  note set = merge_stream_between [OF assms, of None]
  have err: "e = ErrConflict" if "Inl e \<in> set ?stream" for e
    using that unfolding set by (auto simp: resolveConflict_def split: if_splits)
  have clash: "Inl ErrConflict \<in> set ?stream \<longleftrightarrow> (\<exists>p. clash_at b f g p)"
  proof
    assume "Inl ErrConflict \<in> set ?stream"
    then obtain l r where lr: "l \<in> set ls" "r \<in> set rs" "change_names N l = change_names N r"
      "f (change_names N l) \<noteq> g (change_names N l)"
      unfolding set by (auto split: if_splits)
    then have "clash_at b f g (change_names N l)"
      using changes_betweenD(3) [OF assms(1) lr(1)] changes_betweenD(3) [OF assms(2) lr(2)]
      by (auto simp: clash_at_def)
    then show "\<exists>p. clash_at b f g p" by blast
  next
    assume "\<exists>p. clash_at b f g p"
    then obtain p where p: "f p \<noteq> b p" "g p \<noteq> b p" "f p \<noteq> g p" by (auto simp: clash_at_def)
    then obtain l r where lr: "l \<in> set ls" "change_names N l = p" "r \<in> set rs" "change_names N r = p"
      using changes_between_ex [OF assms(1), of p] changes_between_ex [OF assms(2), of p] by metis
    then show "Inl ErrConflict \<in> set ?stream"
      unfolding set using p(3)
      by (intro UnI2 CollectI exI [of _ l] exI [of _ r]) (simp add: resolveConflict_def)
  qed
  obtain ms where ms: "\<forall>upd (s :: 'b). run_stream (\<lambda>c s. (Inr (), upd c s)) ?stream s =
      (if Inl ErrConflict \<in> set ?stream then Inl ErrConflict else Inr (), fold upd ms s)" "Inr ` set ms \<subseteq> set ?stream"
    using run_stream_until [of ?stream ErrConflict] err by blast
  have "c \<in> set ls \<union> set rs \<and> \<not> clash_at b f g (change_names N c)" if "c \<in> set ms" for c
  proof -
    have "Inr c \<in> set ?stream" using ms(2) that by blast
    then show ?thesis unfolding set by (auto simp: clash_at_def resolveConflict_def split: if_splits)
  qed
  moreover have "merge_loop N (\<lambda>c s. (Inr (), upd c s)) (NewChangesMergeIter (NewChanges N ls) (NewChanges N rs) None) s =
      Some (if \<exists>p. clash_at b f g p then Inl ErrConflict else Inr (), fold upd ms s)" for upd and s :: 'b
    using ms(1) unfolding clash by (simp add: merge_loop_stream)
  ultimately show ?thesis by blast
qed


subsection \<open>A concrete merge\<close>

text \<open>Noders that are pairs of a name and a hash, all files.\<close>

definition pair_ops :: "(string \<times> hash) noder_ops" where
  "pair_ops = \<lparr>nd_name = fst, nd_is_dir = (\<lambda>_. False), nd_hash = snd, nd_children = (\<lambda>_. Inr []),
     nd_num_children = (\<lambda>_. Inr 0), nd_skip = (\<lambda>_. False), nd_equal = (\<lambda>a b. snd a = snd b)\<rparr>"

definition demo_base :: "string list \<Rightarrow> hash option" where
  "demo_base = [[''m''] \<mapsto> ''0'']"

definition demo_left :: "(string \<times> hash) change list" where
  "demo_left = [NewModify [(''m'', ''0'')] [(''m'', ''1'')], NewInsert [(''a'', ''2'')]]"

definition demo_right :: "(string \<times> hash) change list" where
  "demo_right = [NewInsert [(''b'', ''3'')]]"

definition demo_right' :: "(string \<times> hash) change list" where
  "demo_right' = [NewDelete [(''m'', ''0'')]]"

lemma pair_changes:
  "plain_changes pair_ops demo_left" "plain_changes pair_ops demo_right" "plain_changes pair_ops demo_right'"
  by (simp_all add: plain_changes_def demo_left_def demo_right_def demo_right'_def pair_ops_def path_names_def
      change_Path_def NewModify_def NewInsert_def NewDelete_def opt_String_def path_String_def change_names_def)

lemma demo_between:
  "changes_between pair_ops demo_base (demo_base([''m''] \<mapsto> ''1'', [''a''] \<mapsto> ''2'')) demo_left"
  "changes_between pair_ops demo_base (demo_base([''b''] \<mapsto> ''3'')) demo_right"
  "changes_between pair_ops demo_base (demo_base([''m''] := None)) demo_right'"
proof -
  have diff: "map_diff b f = (\<lambda>p. (p, b p, f p)) ` {p. b p \<noteq> f p}" for b f :: "string list \<Rightarrow> hash option"
    by (auto simp: map_diff_def)
  note plain = pair_changes [unfolded demo_left_def demo_right_def demo_right'_def pair_ops_def]
  note defs = changes_between_def plain diff demo_left_def demo_right_def demo_right'_def pair_ops_def
    path_names_def path_Hash_def path_Last_def
  have "{p. demo_base p \<noteq> (demo_base([''m''] \<mapsto> ''1'', [''a''] \<mapsto> ''2'')) p} = {[''m''], [''a'']}"
    "{p. demo_base p \<noteq> (demo_base([''b''] \<mapsto> ''3'')) p} = {[''b'']}"
    "{p. demo_base p \<noteq> (demo_base([''m''] := None)) p} = {[''m'']}"
    by (auto simp: demo_base_def)
  moreover have "demo_base [''m''] = Some ''0''" "demo_base [''a''] = None" "demo_base [''b''] = None"
    by (simp_all add: demo_base_def)
  ultimately show
    "changes_between pair_ops demo_base (demo_base([''m''] \<mapsto> ''1'', [''a''] \<mapsto> ''2'')) demo_left"
    "changes_between pair_ops demo_base (demo_base([''b''] \<mapsto> ''3'')) demo_right"
    "changes_between pair_ops demo_base (demo_base([''m''] := None)) demo_right'"
    by (simp_all add: defs)
qed

lemma three_way_merge_witness:
  "\<exists>ms. (\<forall>h s. merge_loop pair_ops h (NewChangesMergeIter (NewChanges pair_ops demo_left)
        (NewChanges pair_ops demo_right) None) (s :: nat) = Some (run_stream h (map Inr ms) s)) \<and>
    change_summary pair_ops ` set ms = map_diff demo_base (three_way demo_base
      (demo_base([''m''] \<mapsto> ''1'', [''a''] \<mapsto> ''2'')) (demo_base([''b''] \<mapsto> ''3'')))"
  by (rule three_way_merge [OF demo_between(1,2)]) (auto simp: clash_at_def demo_base_def)

lemma conflict_detected_witness:
  "\<exists>n. merge_loop pair_ops (\<lambda>c s. (Inr (), Suc s)) (NewChangesMergeIter (NewChanges pair_ops demo_left)
    (NewChanges pair_ops demo_right') None) 0 = Some (Inl ErrConflict, n :: nat)"
proof -
  have "\<exists>p. clash_at demo_base (demo_base([''m''] \<mapsto> ''1'', [''a''] \<mapsto> ''2'')) (demo_base([''m''] := None)) p"
    by (auto simp: clash_at_def demo_base_def intro!: exI [of _ "[''m'']"])
  with conflict_detected [OF demo_between(1,3)] obtain ms where
    "\<forall>upd (s :: nat). merge_loop pair_ops (\<lambda>c s. (Inr (), upd c s)) (NewChangesMergeIter (NewChanges pair_ops demo_left)
      (NewChanges pair_ops demo_right') None) s = Some (Inl ErrConflict, fold upd ms s)" by auto
  from spec [OF spec [OF this, of "\<lambda>_. Suc"], of 0] show ?thesis by blast
qed

subsection \<open>Diff and merge of stored trees\<close>

lemma file_map_names: "dt_ok d \<Longrightarrow> file_map d p = Some h \<Longrightarrow> \<forall>n \<in> set p. valid_name n"
proof (induction p arbitrary: d)
  case (Cons n ns)
  show ?case
  proof (cases "is_ddir d")
    case True
    with Cons.prems obtain x where x: "map_of (kids_of d) n = Some x" "file_map x ns = Some h"
      by (auto simp: file_map_dt split: option.splits)
    with dt_ok_map_of [OF Cons.prems(1) x(1)] Cons.IH [of x] show ?thesis by simp
  qed (use Cons.prems in \<open>cases d; simp add: file_map_simps\<close>)
qed simp

lemma file_map_root: "is_ddir d \<Longrightarrow> file_map d [] = None"
  by (cases d) (simp_all add: file_map_simps)


lemma diff_changes_between:
  assumes "root_rep E repo st a d" "root_rep E repo st b d'"
    "distinct (map (change_names (tree_ops repo st)) cs)"
    "change_summary (tree_ops repo st) ` set cs = map_diff (file_map d) (file_map d')"
  shows "changes_between (tree_ops repo st) (file_map d) (file_map d') cs"
proof -
  let ?N = "tree_ops repo st"
  have ok: "dt_ok d" "is_ddir d" "dt_ok d'" "is_ddir d'" using assms(1,2) by (simp_all add: root_rep_def)
  have "change_Path ?N c = join_with ''/'' (change_names ?N c) \<and> change_names ?N c \<noteq> [] \<and>
      (\<forall>n \<in> set (change_names ?N c). CHR ''/'' \<notin> set n)" if c: "c \<in> set cs" for c
  proof -
    have "change_summary ?N c \<in> map_diff (file_map d) (file_map d')" using assms(4) c by blast
    then have eqs: "map_option (path_Hash ?N) (ch_From c) = file_map d (change_names ?N c)"
      "map_option (path_Hash ?N) (ch_To c) = file_map d' (change_names ?N c)"
      "file_map d (change_names ?N c) \<noteq> file_map d' (change_names ?N c)"
      by (auto simp: map_diff_def change_summary_def)
    then have some: "file_map d (change_names ?N c) \<noteq> None \<or> file_map d' (change_names ?N c) \<noteq> None" by auto
    then have "\<forall>n \<in> set (change_names ?N c). valid_name n"
      using file_map_names [OF ok(1)] file_map_names [OF ok(3)] by blast
    moreover have "change_names ?N c \<noteq> []" using some file_map_root ok by metis
    moreover have "change_Path ?N c = join_with ''/'' (change_names ?N c)"
      using eqs some
      by (cases "ch_From c"; cases "ch_To c")
        (simp_all add: change_Path_def change_names_def opt_String_def path_String_join)
    ultimately show ?thesis by (simp add: valid_name_def)
  qed
  with assms(3,4) show ?thesis by (simp add: changes_between_def plain_changes_def)
qed

text \<open>The hash under which a tree is a root: a commit of nothing has the empty hash.\<close>

definition root_hash :: "env \<Rightarrow> dtree \<Rightarrow> hash" where
  "root_hash E d = (if d = DDir [] then [] else dt_hash E d)"


end
