(* ===== verification/Work_Repo_Props.thy ===== *)
theory Work_Repo_Props
  imports Work_Repo_Inv Work_Tree_Props Changes_Merge
begin

section \<open>What the operations of a repository guarantee\<close>

text \<open>
  The states that sessions on one repository can reach, the invariant over them by rule
  induction, and what committing and merging do to the history.
\<close>

text \<open>A repository whose branches have no commit yet, in a database with other repositories.\<close>

definition fresh_repo :: "(bytes \<Rightarrow> string) \<Rightarrow> uuid \<Rightarrow> db \<Rightarrow> bool" where
  "fresh_repo encode rid d \<longleftrightarrow> rid \<noteq> uuid_Nil \<and> inj encode \<and> distinct (map commit_key (db_commits d)) \<and>
     (\<forall>c \<in> set (db_commits d). cm_repo c \<noteq> rid) \<and>
     (\<forall>b \<in> set (db_branches d). br_repo b = rid \<longrightarrow> br_commit b = []) \<and>
     (\<forall>t \<in> set (db_tags d). tg_repo t \<noteq> rid)"

inductive reachable :: "(bytes \<Rightarrow> string) \<Rightarrow> uuid \<Rightarrow> db \<Rightarrow> work_repo list \<Rightarrow> db \<Rightarrow> bool"
  for encode :: "bytes \<Rightarrow> string" and rid :: uuid and d0 :: db
where
  reach_start: "reachable encode rid d0 [] d0"
| reach_open: "reachable encode rid d0 ws d \<Longrightarrow> rp_id repo = rid \<Longrightarrow>
    reachable encode rid d0 (ws @ [NewWorkRepositoryFromAdapter u repo]) d"
| reach_act: "reachable encode rid d0 ws d \<Longrightarrow> i < length ws \<Longrightarrow>
    session_step encode (ws ! i, d) (w', d') \<Longrightarrow> reachable encode rid d0 (ws[i := w']) d'"

lemma fresh_repo_ok:
  assumes "fresh_repo encode rid d"
  shows "db_ok encode rid d"
proof -
  have none: "CommitRepo_Commit rid (db_commits d) h = Inl ErrNotFound" for h
    using assms by (auto simp: fresh_repo_def CommitRepo_Commit_def tbl_get_def find_None_iff split: option.split)
  have inj: "inj (cs_Hex (table_store encode rid (db_commits d)))"
    using assms by (auto simp: fresh_repo_def table_store_def hash_Hex_def inj_def)
  have "history_ok (table_store encode rid (db_commits d))"
    using inj none by (simp add: history_ok_def stored_hashes_def table_store_def)
  moreover have "parent_rel (table_store encode rid (db_commits d)) = {}"
    using none by (simp add: parent_rel_def table_store_def)
  ultimately show ?thesis
    using assms by (simp add: db_ok_def commits_ok_def unique_keys_def refs_ok_def fresh_repo_def ref_ok_def acyclic_def)
qed

lemma reachable_ok:
  assumes "reachable encode rid d0 ws d" "fresh_repo encode rid d0"
  shows "db_ok encode rid d \<and> (\<forall>w \<in> set ws. view_ok rid d w)"
  using assms
proof (induction rule: reachable.induct)
  case reach_start
  then show ?case using fresh_repo_ok by simp
next
  case (reach_open ws d repo u)
  then show ?case
    by (auto simp: view_ok_def NewWorkRepositoryFromAdapter_def repo_id_def)
next
  case (reach_act ws d i w' d')
  then have ok: "db_ok encode rid d" and views: "\<forall>w \<in> set ws. view_ok rid d w" by simp_all
  have "view_ok rid d (ws ! i)" using views reach_act.hyps(2) by simp
  note new = session_step_ok [OF reach_act.hyps(3) ok this, unfolded op_ok_def]
  have "\<forall>w \<in> set (ws[i := w']). view_ok rid d' w"
    using new views view_ok_grows set_update_subset_insert [of ws i w'] by blast
  with new show ?case by simp
qed

subsection \<open>A concrete repository\<close>

definition demo_user :: user where
  "demo_user = \<lparr>us_id = ''u'', us_name = ''ann'', us_email = ''a@b'', us_encrypted_password = [],
     us_current_sign_in_at = 0, us_last_sign_in_at = 0, us_current_sign_in_ip = [],
     us_last_sign_in_ip = [], us_created = 0, us_updated = 0\<rparr>"

definition demo_repo :: repository where
  "demo_repo = \<lparr>rp_id = ''r'', rp_name = ''data'', rp_owner = ''u'', rp_HEAD = ''main'', rp_visible = True,
     rp_public_storage = True, rp_namespace = None, rp_adapter_params = None, rp_description = None,
     rp_creator = ''u'', rp_created = 0, rp_updated = 0\<rparr>"

definition demo_main :: branch where
  "demo_main = \<lparr>br_id = ''b'', br_repo = ''r'', br_commit = [], br_name = ''main'', br_description = None,
     br_creator = ''u'', br_created = 0, br_updated = 0\<rparr>"

definition demo_db :: db where
  "demo_db = \<lparr>db_users = [demo_user], db_repos = [demo_repo], db_branches = [demo_main], db_wips = [],
     db_tags = [], db_mrs = [], db_commits = [], db_trees = [],
     db_uuids = (\<lambda>n. replicate (Suc n) (CHR ''w'')), db_issued = 0\<rparr>"

definition demo_open :: work_repo where
  "demo_open = NewWorkRepositoryFromAdapter demo_user demo_repo"

definition demo_on_main :: work_repo where
  "demo_on_main = snd (CheckOut Inr InBranch ''main'' demo_db demo_open)"

definition demo_in_wip :: "work_repo \<times> db" where
  "demo_in_wip = snd (GetOrCreateWip demo_env demo_on_main demo_db)"

definition demo_committed :: "commit result \<times> work_repo \<times> db" where
  "demo_committed = (case demo_in_wip of (w, d) \<Rightarrow> CommitChanges demo_env ''first'' w d)"

lemmas demo_rows = demo_user_def demo_repo_def demo_main_def demo_db_def
lemmas query_defs = q_select_one_def tbl_get_def holds_def where_id_def where_opt_def uuid_Nil_def

lemma demo_on_main_eq:
  "demo_on_main = \<lparr>wr_operator = demo_user, wr_model = demo_repo, wr_state = InBranch,
     wr_head = Some (HeadTree []), wr_wip = None, wr_branch = Some demo_main, wr_tag = None, wr_commit = None\<rparr>"
  by (simp add: demo_on_main_def demo_open_def CheckOut_def NewWorkRepositoryFromAdapter_def InBranch_def InWip_def
      get_branch_def BranchRepo_Get_def NewGetBranchParams_def query_defs demo_rows repo_id_def commit_of_def
      IsEmpty_def setCurState_def head_hash_def treeHashFromCommit_def)

definition demo_wip :: wip where
  "demo_wip = \<lparr>wp_id = ''w'', wp_tree = [], wp_base = [], wp_repo = ''r'', wp_ref = ''b'', wp_state = Init,
     wp_creator = ''u'', wp_created = 0, wp_updated = 0\<rparr>"

lemma demo_in_wip_eq:
  "demo_in_wip =
     (\<lparr>wr_operator = demo_user, wr_model = demo_repo, wr_state = InWip, wr_head = Some HeadOfWip,
       wr_wip = Some demo_wip, wr_branch = Some demo_main, wr_tag = None, wr_commit = None\<rparr>,
      demo_db\<lparr>db_wips := [demo_wip], db_issued := 1\<rparr>)"
  by (simp add: demo_in_wip_def demo_on_main_eq GetOrCreateWip_def WipRepo_Get_def NewGetWipParams_def query_defs
      demo_rows repo_id_def commit_of_def IsEmpty_def treeHashFromCommit_def WipRepo_Insert_def row_id_def
      tbl_insert2_def demo_wip_def demo_env_def setCurState_def)

definition demo_first :: commit where
  "demo_first = change_commit demo_env (fst demo_in_wip) [] \<lparr>sig_name = ''ann'', sig_email = ''a@b'', sig_when = 0\<rparr> []
     ''first''"

lemma demo_fresh: "fresh_repo id ''r'' demo_db"
  by (auto simp: fresh_repo_def demo_db_def demo_main_def uuid_Nil_def dest: arg_cong [of _ _ length])

text \<open>
  Three sessions: the first creates the working copy and commits, the second has checked out the
  empty branch before, the third the working copy.
\<close>

definition demo_stale :: work_repo where
  "demo_stale = snd (CheckOut Inr InWip ''main'' (snd demo_in_wip) demo_open)"

lemma demo_stale_eq:
  "demo_stale =
     \<lparr>wr_operator = demo_user, wr_model = demo_repo, wr_state = InWip, wr_head = Some (HeadTree []),
       wr_wip = Some demo_wip, wr_branch = Some demo_main, wr_tag = None, wr_commit = None\<rparr>"
  by (simp add: demo_stale_def demo_in_wip_eq CheckOut_def demo_open_def NewWorkRepositoryFromAdapter_def
      get_branch_def BranchRepo_Get_def NewGetBranchParams_def WipRepo_Get_def NewGetWipParams_def
      query_defs demo_rows demo_wip_def repo_id_def setCurState_def head_hash_def)

definition demo_moved :: branch where
  "demo_moved = demo_main\<lparr>br_commit := cm_hash demo_first\<rparr>"

lemma demo_committed_eq:
  "\<exists>w. demo_committed = (Inr demo_first, w, demo_db\<lparr>db_issued := 1, db_branches := [demo_moved], db_wips :=
     [demo_wip\<lparr>wp_base := cm_hash demo_first\<rparr>], db_commits := [demo_first]\<rparr>)"
  by (simp add: demo_committed_def CommitChanges_def demo_in_wip_eq InWip_def wip_author_def UserRepo_Get_def
      NewGetUserParams_def query_defs demo_rows Transaction_def commitChangeRoot_eq CommitRepo_Insert_def
      tbl_insert_def demo_first_def demo_wip_def repo_id_def WipRepo_UpdateByID_def Let_def demo_moved_def
      move_branch_def tbl_update_def wip_set_def set_opt_def NewUpdateWipParams_def demo_env_def)

definition demo_after :: db where
  "demo_after = demo_db\<lparr>db_issued := 1, db_branches := [demo_moved], db_wips :=
     [demo_wip\<lparr>wp_base := cm_hash demo_first\<rparr>], db_commits := [demo_first]\<rparr>"

lemma reach_CheckOut:
  assumes "reachable encode rid d0 ws d" "i < length ws"
  shows "reachable encode rid d0 (ws[i := snd (CheckOut decode rt rn d (ws ! i))]) d"
  by (rule reach_act [OF assms step_CheckOut]) (rule prod.collapse [symmetric])

lemma reach_GetOrCreateWip:
  assumes "reachable encode rid d0 ws d" "i < length ws"
  shows "reachable encode rid d0 (ws[i := fst (snd (GetOrCreateWip E (ws ! i) d))])
    (snd (snd (GetOrCreateWip E (ws ! i) d)))"
proof -
  have "GetOrCreateWip E (ws ! i) d = (fst (GetOrCreateWip E (ws ! i) d),
      fst (snd (GetOrCreateWip E (ws ! i) d)), snd (snd (GetOrCreateWip E (ws ! i) d)))" by simp
  from reach_act [OF assms step_GetOrCreateWip [OF this]] show ?thesis .
qed

lemma demo_reachable: "\<exists>w. reachable id ''r'' demo_db [w, demo_on_main, demo_stale] demo_after"
proof -
  have r: "rp_id demo_repo = ''r''" by (simp add: demo_repo_def)
  have open_session: "reachable id ''r'' demo_db (ws @ [demo_open]) d" if "reachable id ''r'' demo_db ws d" for ws d
    unfolding demo_open_def by (rule reach_open [OF that r])
  have two: "reachable id ''r'' demo_db [demo_open, demo_open] demo_db"
    using open_session [OF open_session [OF reach_start]] by simp
  have on: "reachable id ''r'' demo_db [demo_on_main, demo_on_main] demo_db"
    using reach_CheckOut [OF reach_CheckOut [OF two, of 0 Inr InBranch "''main''"], of 1 Inr InBranch "''main''"]
    by (simp add: demo_on_main_def)
  have "reachable id ''r'' demo_db [fst demo_in_wip, demo_on_main] (snd demo_in_wip)"
    using reach_GetOrCreateWip [OF on, of 0 demo_env] by (simp add: demo_in_wip_def)
  from reach_CheckOut [OF open_session [OF this], of 2 Inr InWip "''main''"]
  have wip: "reachable id ''r'' demo_db [fst demo_in_wip, demo_on_main, demo_stale] (snd demo_in_wip)"
    by (simp add: demo_stale_def)
  obtain w where "demo_committed = (Inr demo_first, w, demo_after)"
    using demo_committed_eq unfolding demo_after_def by blast
  then have "CommitChanges demo_env ''first'' (fst demo_in_wip) (snd demo_in_wip) = (Inr demo_first, w, demo_after)"
    by (simp add: demo_committed_def case_prod_beta)
  from reach_act [OF wip, of 0, OF _ step_CommitChanges] this
  have "reachable id ''r'' demo_db [w, demo_on_main, demo_stale] demo_after" by fastforce
  then show ?thesis by blast
qed

subsection \<open>The invariant of a repository\<close>

text \<open>
  C2: In every state that any number of sessions can reach by interleaving their operations on a
  fresh repository, the commits of the repository form a complete acyclic history, every branch
  that has a commit points to a stored one, and every tag points to a stored commit.
\<close>

theorem reachable_invariant:
  assumes "fresh_repo encode rid d0" "reachable encode rid d0 ws d"
  shows "history_ok (table_store encode rid (db_commits d)) \<and>
    acyclic (parent_rel (table_store encode rid (db_commits d))) \<and>
    (\<forall>b \<in> set (db_branches d). br_repo b = rid \<longrightarrow> br_commit b = [] \<or>
      br_commit b \<in> stored_hashes (table_store encode rid (db_commits d))) \<and>
    (\<forall>t \<in> set (db_tags d). tg_repo t = rid \<longrightarrow> tg_target t \<in> stored_hashes (table_store encode rid (db_commits d)))"
  using reachable_ok [OF assms(2,1)]
  by (auto simp: db_ok_def commits_ok_def refs_ok_def ref_ok_def stored_iff)

lemma reachable_invariant_witness:
  "\<exists>ws. length ws = 3 \<and> reachable id ''r'' demo_db ws demo_after \<and>
    history_ok (table_store id ''r'' (db_commits demo_after)) \<and>
    acyclic (parent_rel (table_store id ''r'' (db_commits demo_after)))"
proof -
  obtain w where "reachable id ''r'' demo_db [w, demo_on_main, demo_stale] demo_after" using demo_reachable by blast
  with reachable_invariant [OF demo_fresh this] show ?thesis
    by (intro exI [of _ "[w, demo_on_main, demo_stale]"]) simp
qed

text \<open>
  In every reachable state a session of the repository checks out any of its branches
  without an error, and is then on that branch, at the commit the branch points to.
\<close>

theorem reachable_CheckOut:
  assumes "fresh_repo encode rid d0" "reachable encode rid d0 ws d" "w \<in> set ws"
    "get_branch w d nm = Inr b"
  shows "\<exists>w'. CheckOut decode InBranch nm d w = (Inr (), w') \<and> wr_state w' = InBranch \<and>
    wr_branch w' = Some b \<and> commitHashFromCommit (wr_commit w') = br_commit b \<and>
    head_hash w' = Some (treeHashFromCommit (wr_commit w'))"
proof -
  have ok: "db_ok encode rid d" and view: "view_ok rid d w" using reachable_ok [OF assms(2,1)] assms(3) by simp_all
  have id: "repo_id w = rid" using view by (simp add: view_ok_def)
  have "\<exists>x. commit_of w d (br_commit b) = Inr x \<and> commitHashFromCommit x = br_commit b"
    using get_branch_ok [OF ok id assms(4)] CommitRepo_Commit_Inr
    by (auto simp: ref_ok_def is_stored_def commit_of_def IsEmpty_def get_commit_def id commitHashFromCommit_def)
  then show ?thesis
    using assms(4) by (auto simp: CheckOut_def InBranch_def InWip_def setCurState_def head_hash_def)
qed

lemma reachable_CheckOut_witness:
  "\<exists>w'. CheckOut Inr InBranch ''main'' demo_after demo_on_main = (Inr (), w') \<and> wr_branch w' = Some demo_moved \<and>
    commitHashFromCommit (wr_commit w') = cm_hash demo_first"
proof -
  obtain w where r: "reachable id ''r'' demo_db [w, demo_on_main, demo_stale] demo_after" using demo_reachable by blast
  have "get_branch demo_on_main demo_after ''main'' = Inr demo_moved"
    by (simp add: get_branch_def demo_on_main_eq BranchRepo_Get_def NewGetBranchParams_def query_defs demo_rows
      repo_id_def demo_after_def demo_moved_def)
  from reachable_CheckOut [OF demo_fresh r _ this, of Inr] show ?thesis
    by (auto simp: demo_moved_def)
qed

subsection \<open>Committing a working copy\<close>

text \<open>
  C16: A successful \<open>CommitChanges\<close> adds one commit: it has the tree of the working copy and the
  head of the branch the session has cached as its only parent (none on an empty branch). The
  rows of that branch move to it and the rows of that working copy start from it; the rest of
  the database is as it was: other branches, other working copies, users, repositories, tags,
  merge requests and objects. The session has the new head cached and can commit again.
  (Where the cached head is stale, see the theorem on the lost update below.)
\<close>

theorem CommitChanges_commits:
  assumes "CommitChanges E msg w d = (Inr c, w', d')"
  shows "\<exists>branch wip. wr_branch w = Some branch \<and> wr_wip w = Some wip \<and> br_commit branch = wp_base wip \<and>
    cm_tree_hash c = wp_tree wip \<and> cm_parents c = (if br_commit branch = [] then [] else [br_commit branch]) \<and>
    cm_repo c = repo_id w \<and> cm_message c = msg \<and>
    d' = d\<lparr>db_commits := db_commits d @ [c],
      db_branches := map (\<lambda>b. if br_id b = br_id branch then b\<lparr>br_commit := cm_hash c\<rparr> else b) (db_branches d),
      db_wips := map (\<lambda>x. if wp_id x = wp_id wip then x\<lparr>wp_base := cm_hash c, wp_updated := env_now E\<rparr> else x)
        (db_wips d)\<rparr> \<and>
    w' = w\<lparr>wr_branch := Some (branch\<lparr>br_commit := cm_hash c\<rparr>), wr_wip := Some (wip\<lparr>wp_base := cm_hash c\<rparr>),
      wr_head := Some HeadOfWip\<rparr>"
proof -
  obtain branch wip author d1 where r: "wr_branch w = Some branch" "wr_wip w = Some wip"
    "br_commit branch = wp_base wip"
    "commitChangeRoot E w branch author (wp_tree wip) msg d = (Inr c, d1)"
    "d' = WipRepo_UpdateByID ((NewUpdateWipParams E (wp_id wip))\<lparr>uw_base := Some (cm_hash c)\<rparr>) d1"
    "w' = (set_base (cm_hash c) w)\<lparr>wr_head := Some HeadOfWip\<rparr>"
    using CommitChanges_InrD [OF assms] by blast
  obtain t where c: "c = change_commit E w (br_commit branch) author (wp_tree wip) msg"
    and ins: "CommitRepo_Insert (repo_id w) c (db_commits d) = (Inr c, t)"
    and d1: "d1 = move_branch (br_id branch) (cm_hash c) (d\<lparr>db_commits := t\<rparr>)"
    using commitChangeRoot_InrD [OF r(4)] by blast
  have t: "t = db_commits d @ [c]"
    using ins by (auto simp: CommitRepo_Insert_def tbl_insert_def split: if_splits)
  have cm_msg: "cm_message (change_commit E w h a t msg) = msg" for h a t
    by (simp add: change_commit_def Let_def)
  show ?thesis
    using r(1-3) by (auto simp: r(5,6) d1 t c cm_msg move_branch_def tbl_update_def WipRepo_UpdateByID_def wip_set_def
      set_opt_def NewUpdateWipParams_def set_base_def split: if_splits)
qed

lemma CommitChanges_commits_witness:
  "\<exists>w' d'. CommitChanges demo_env ''first'' (fst demo_in_wip) (snd demo_in_wip) = (Inr demo_first, w', d') \<and>
    db_commits d' = [demo_first] \<and> db_branches d' = [demo_moved] \<and> cm_parents demo_first = []"
proof -
  obtain w' d' where run: "CommitChanges demo_env ''first'' (fst demo_in_wip) (snd demo_in_wip) = (Inr demo_first, w', d')"
    using demo_committed_eq by (auto simp: demo_committed_def case_prod_beta)
  from CommitChanges_commits [OF this]
  have "db_commits d' = [demo_first] \<and> db_branches d' = [demo_moved] \<and> cm_parents demo_first = []"
    by (auto simp: demo_in_wip_eq demo_main_def demo_db_def demo_moved_def)
  with run show ?thesis by blast
qed

lemma insert_commit_rel:
  assumes ok: "commits_ok enc rid t" and ins: "CommitRepo_Insert rid c t = (Inr c', t')"
    and parents: "set (cm_parents c) \<subseteq> stored_hashes (table_store enc rid t)"
  shows "parent_rel (table_store enc rid t') =
    parent_rel (table_store enc rid t) \<union> {cm_hash c} \<times> set (cm_parents c)"
proof -
  note new = insert_commit [OF ok ins parents]
  show ?thesis using new(4) by (auto simp: parent_rel_def table_store_def new(3) split: if_splits)
qed

text \<open>
  C17: \<open>CommitChanges\<close> compares the working copy with the branch the session has cached, not with
  the branch in the database. When another session has moved the branch in between, to a commit
  the cached head does not descend from, the commit still succeeds and the branch moves to a
  commit from which the other session's commit cannot be reached: that update is lost.
\<close>

theorem stale_commit_drops_update:
  assumes "fresh_repo encode rid d0" "reachable encode rid d0 ws d" "w \<in> set ws"
    "wr_state w = InWip" "wr_branch w = Some branch" "wr_wip w = Some wip" "br_commit branch = wp_base wip"
    "wip_author wip d = Inr author"
    "row \<in> set (db_branches d)" "br_id row = br_id branch" "br_repo row = rid" "br_commit row \<noteq> []"
    "br_commit row \<notin> ancestors (table_store encode rid (db_commits d)) (br_commit branch)"
    "\<not> is_stored rid d (cm_hash (change_commit E w (br_commit branch) author (wp_tree wip) msg))"
  shows "\<exists>c w' d'. CommitChanges E msg w d = (Inr c, w', d') \<and>
    row\<lparr>br_commit := cm_hash c\<rparr> \<in> set (db_branches d') \<and>
    br_commit row \<notin> ancestors (table_store encode rid (db_commits d')) (cm_hash c)"
proof -
  let ?c = "change_commit E w (br_commit branch) author (wp_tree wip) msg"
  let ?S = "table_store encode rid (db_commits d)" and ?S' = "table_store encode rid (db_commits d @ [?c])"
  have ok: "db_ok encode rid d" and view: "view_ok rid d w" using reachable_ok [OF assms(2,1)] assms(3) by simp_all
  have id: "repo_id w = rid" and ref: "ref_ok rid d (br_commit branch)" using view assms(5) by (auto simp: view_ok_def)
  have ins: "CommitRepo_Insert rid ?c (db_commits d) = (Inr ?c, db_commits d @ [?c])"
    by (rule insert_new_commit [OF _ assms(14)]) (simp add: id)
  have parents: "set (cm_parents ?c) \<subseteq> stored_hashes ?S" using ref by (auto simp: stored_iff ref_ok_def)
  have coms: "commits_ok encode rid (db_commits d)" using ok by (simp add: db_ok_def)
  have hist: "history_ok ?S" using coms by (simp add: commits_ok_def)
  note rel = insert_commit_rel [OF coms ins parents]
  have new: "cm_hash ?c \<notin> stored_hashes ?S" using assms(14) by (simp add: stored_iff)
  have fresh: "cm_hash ?c \<notin> Range (parent_rel ?S)" "cm_hash ?c \<notin> Domain (parent_rel ?S)"
    "cm_hash ?c \<notin> set (cm_parents ?c)"
    using parent_rel_stored [OF hist] parents new by auto
  have row: "br_commit row \<noteq> cm_hash ?c"
    using new op_ok_refs(1) [OF ok assms(9,11)] assms(12) by (auto simp: ref_ok_def stored_iff)
  have lost: "(cm_hash ?c, br_commit row) \<notin> (parent_rel ?S')\<^sup>*"
    unfolding rel
    by (rule new_source_unreachable [OF fresh row]) (use assms(13) in \<open>simp add: ancestors_def\<close>)
  have "commitChangeRoot E w branch author (wp_tree wip) msg d =
      (Inr ?c, move_branch (br_id branch) (cm_hash ?c) (d\<lparr>db_commits := db_commits d @ [?c]\<rparr>))"
    unfolding commitChangeRoot_eq using ins by (simp add: id Let_def)
  then obtain w' d' where run: "CommitChanges E msg w d = (Inr ?c, w', d')"
    and d': "d' = WipRepo_UpdateByID ((NewUpdateWipParams E (wp_id wip))\<lparr>uw_base := Some (cm_hash ?c)\<rparr>)
      (move_branch (br_id branch) (cm_hash ?c) (d\<lparr>db_commits := db_commits d @ [?c]\<rparr>))"
    using assms(4-8) by (simp add: CommitChanges_def Transaction_def)
  have "row\<lparr>br_commit := cm_hash ?c\<rparr> \<in> set (db_branches d')" "db_commits d' = db_commits d @ [?c]"
    using assms(9,10) by (auto simp: d' WipRepo_UpdateByID_def move_branch_def tbl_update_def intro: rev_image_eqI)
  with run lost show ?thesis by (auto simp: ancestors_def)
qed

definition other_env :: env where
  "other_env = \<lparr>env_md5 = (\<lambda>_. ''zz''), env_now = 5\<rparr>"

definition demo_author :: signature where
  "demo_author = \<lparr>sig_name = ''ann'', sig_email = ''a@b'', sig_when = 0\<rparr>"

lemma demo_first_hash: "\<exists>x. cm_hash demo_first = CHR ''#'' # x"
  by (simp add: demo_first_def change_commit_def commit_GetHash_def md5_sum_def demo_env_def Let_def)

lemma demo_first_simps [simp]: "cm_repo demo_first = ''r''" "cm_parents demo_first = []" "cm_tree_hash demo_first = []"
  by (simp_all add: demo_first_def demo_in_wip_eq demo_repo_def repo_id_def)

lemma demo_after_stored: "CommitRepo_Commit ''r'' (db_commits demo_after) h =
    (if h = cm_hash demo_first then Inr demo_first else Inl ErrNotFound)"
  by (simp add: demo_after_def CommitRepo_Commit_def tbl_get_def)

lemma stale_commit_drops_update_witness:
  "\<exists>c w' d'. CommitChanges other_env ''second'' demo_stale demo_after = (Inr c, w', d') \<and>
    demo_moved\<lparr>br_commit := cm_hash c\<rparr> \<in> set (db_branches d') \<and>
    br_commit demo_moved \<notin> ancestors (table_store id ''r'' (db_commits d')) (cm_hash c)"
proof -
  obtain w where r: "reachable id ''r'' demo_db [w, demo_on_main, demo_stale] demo_after" using demo_reachable by blast
  obtain x where x: "cm_hash demo_first = CHR ''#'' # x" using demo_first_hash by blast
  have none: "parent_rel (table_store id ''r'' (db_commits demo_after)) = {}"
    by (auto simp: parent_rel_def table_store_def demo_after_stored)
  show ?thesis
  proof (rule stale_commit_drops_update [OF demo_fresh r, of demo_stale demo_main demo_wip demo_author])
    show "wip_author demo_wip demo_after = Inr demo_author"
      by (simp add: wip_author_def UserRepo_Get_def NewGetUserParams_def query_defs demo_after_def demo_rows
          demo_wip_def demo_author_def)
    show "\<not> is_stored ''r'' demo_after (cm_hash (change_commit other_env demo_stale (br_commit demo_main) demo_author
        (wp_tree demo_wip) ''second''))"
      by (simp add: is_stored_def demo_after_stored x change_commit_def Let_def commit_GetHash_def md5_sum_def
          other_env_def)
    show "br_commit demo_moved \<notin> ancestors (table_store id ''r'' (db_commits demo_after)) (br_commit demo_main)"
      by (simp add: none ancestors_def demo_moved_def demo_main_def x)
  qed (simp_all add: demo_stale_eq demo_wip_def demo_after_def demo_main_def demo_moved_def x)
qed

end
