(* ===== verification/Merge_Result.thy ===== *)
theory Merge_Result
  imports Work_Repo_Props
begin

section \<open>What a merge commit contains\<close>

text \<open>
  The whole path of a merge, from the branch to the rows of the new tree: the two diffs against
  the best ancestor, the merge of their changes, their application to the ancestor's tree one
  after the other, and the commit. First, when an edit of a written-out tree succeeds, in terms
  of its files only.
\<close>

subsection \<open>Edits seen through the files of a tree\<close>

lemma file_map_nonempty: "dt_ok x \<Longrightarrow> x \<noteq> DDir [] \<Longrightarrow> \<exists>q h. file_map x q = Some h"
proof (induction x)
  case (DFile h)
  then show ?case using file_map_simps(1) by blast
next
  case (DDir kids)
  then obtain k ks where k: "kids = k # ks" by (cases kids) auto
  have "dt_ok (snd k)" "snd k \<noteq> DDir []" using dt_ok_kids [OF DDir.prems(1), of k] k by auto
  then obtain q h where "file_map (snd k) q = Some h"
    using DDir.IH [of k "snd k"] k by (auto simp: snds.simps)
  moreover have "distinct (map fst kids)" using dt_ok_names [OF DDir.prems(1)] by simp
  ultimately have "file_map (DDir kids) (fst k # q) = Some h" by (simp add: file_map_kids k)
  then show ?case by blast
qed

lemma file_map_below:
  "dt_ok d \<Longrightarrow> file_map d p = Some g \<Longrightarrow> q \<noteq> [] \<Longrightarrow> file_map d (p @ q) = None"
proof (induction p arbitrary: d)
  case Nil
  then show ?case by (cases d; cases q) (simp_all add: file_map_simps)
next
  case (Cons n p)
  then have d: "is_ddir d" by (cases d) (simp_all add: file_map_simps)
  show ?case
    using Cons.prems Cons.IH dt_ok_map_of [OF Cons.prems(1)]
    by (auto simp: file_map_dt [OF _ d] split: option.splits)
qed

lemma map_cut_file:
  assumes "dt_ok d" "file_map d p = Some g"
  shows "map_cut p (file_map d) = (file_map d)(p := None)"
proof (rule ext)
  fix x
  have "file_map d x = None" if pre: "prefix p x" "x \<noteq> p"
  proof -
    obtain zs where zs: "x = p @ zs" using pre(1) by (rule prefixE)
    with pre(2) have "zs \<noteq> []" by simp
    from file_map_below [OF assms this] zs show ?thesis by simp
  qed
  then show "map_cut p (file_map d) x = ((file_map d)(p := None)) x" by (simp add: map_cut_def)
qed

text \<open>Two trees without empty directories are equal when they hold the same files.\<close>

lemma dt_ok_dir_file:
  assumes "dt_ok x" "dt_ok y" "file_map x = file_map y" "x \<noteq> DDir []" "y \<noteq> DDir []"
  shows "is_ddir x \<longleftrightarrow> is_ddir y"
proof -
  have "is_ddir x \<longleftrightarrow> file_map x [] = None" if "dt_ok x" for x
    by (cases x) (simp_all add: file_map_simps)
  then show ?thesis using assms by simp
qed

lemma file_map_inj:
  "dt_ok x \<Longrightarrow> dt_ok y \<Longrightarrow> is_ddir x \<Longrightarrow> is_ddir y \<Longrightarrow> file_map x = file_map y \<Longrightarrow> x = y"
proof (induction x arbitrary: y)
  case (DDir kids)
  obtain kids' where y: "y = DDir kids'" using DDir.prems(4) by (cases y) auto
  have names: "distinct (map fst kids)" "distinct (map fst kids')"
    "sorted (map fst kids)" "sorted (map fst kids')"
    using dt_ok_names [OF DDir.prems(1)] dt_ok_names [OF DDir.prems(2)] DDir.prems(1,2) y by simp_all
  have sub: "map_of kids n = map_of kids' n" for n
  proof -
    have fm: "(case map_of kids n of None \<Rightarrow> None | Some d \<Rightarrow> file_map d q) =
        (case map_of kids' n of None \<Rightarrow> None | Some d \<Rightarrow> file_map d q)" for q
      using fun_cong [OF DDir.prems(5), of "n # q"] unfolding y file_map_kids [OF names(1)] file_map_kids [OF names(2)] .
    have ok: "dt_ok x \<and> x \<noteq> DDir []" if "map_of kids n = Some x \<or> map_of kids' n = Some x" for x
      using that dt_ok_map_of [OF DDir.prems(1), of n x] dt_ok_map_of [OF DDir.prems(2), of n x] y by auto
    show ?thesis
    proof (cases "map_of kids n")
      case None
      then show ?thesis using fm ok file_map_nonempty by (cases "map_of kids' n") fastforce+
    next
      case (Some a)
      then have a: "dt_ok a" "a \<noteq> DDir []" using ok by simp_all
      obtain b where b: "map_of kids' n = Some b"
        using fm Some file_map_nonempty [OF a] by (cases "map_of kids' n") auto
      then have b': "dt_ok b" "b \<noteq> DDir []" using ok by simp_all
      have eq: "file_map a = file_map b" using fm Some b by (simp add: fun_eq_iff)
      have "a = b"
      proof (cases a)
        case (DFile h)
        then have "file_map b [] = Some h" using eq file_map_simps(1) by metis
        then show ?thesis using DFile by (cases b) (simp_all add: file_map_simps)
      next
        case (DDir ks)
        then have "is_ddir b" using dt_ok_dir_file [OF a(1) b'(1) eq a(2) b'(2)] by simp
        moreover have "(n, a) \<in> set kids" using Some by (rule map_of_SomeD)
        ultimately show ?thesis using DDir.IH [of "(n, a)" a b] a b' eq DDir by (auto simp: snds.simps)
      qed
      with Some b show ?thesis by simp
    qed
  qed
  have "(n, a) \<in> set kids \<longleftrightarrow> (n, a) \<in> set kids'" for n a
    unfolding map_of_eq_Some_iff [OF names(1), symmetric] map_of_eq_Some_iff [OF names(2), symmetric] sub ..
  then have "set kids = set kids'" by auto
  then have "kids = kids'" using names by (intro sorted_key_unique [of fst]) auto
  then show ?case by (simp add: y)
qed simp

lemma dt_add_free:
  "dt_ok d \<Longrightarrow> is_ddir d \<Longrightarrow> segs \<noteq> [] \<Longrightarrow> [] \<notin> set segs \<Longrightarrow>
    \<forall>q g. file_map d q = Some g \<longrightarrow> \<not> prefix q segs \<and> \<not> prefix segs q \<Longrightarrow> \<exists>d'. dt_add segs h d = Inr d'"
proof (induction segs h d rule: dt_add.induct)
  case (2 n ns h d)
  show ?case
  proof (cases "map_of (kids_of d) n")
    case None
    with 2(5) show ?thesis by simp
  next
    case (Some x)
    have x: "dt_ok x" "x \<noteq> DDir []" using dt_ok_map_of [OF 2(2) Some] by simp_all
    have below: "file_map d (n # q) = file_map x q" for q by (simp add: file_map_dt [OF 2(2,3)] Some)
    have free: "\<not> prefix q ns \<and> \<not> prefix ns q" if "file_map x q = Some g" for q g
      using 2(6) below [of q] that by (metis Cons_prefix_Cons)
    show ?thesis
    proof (cases x)
      case (DFile g)
      then show ?thesis using free [of "[]" g] by (simp add: file_map_simps)
    next
      case (DDir ks)
      have "ns \<noteq> []" using file_map_nonempty [OF x] free by auto
      then have "\<exists>d'. dt_add ns h (DDir ks) = Inr d'"
        using 2(1) [OF Some DDir] x free 2(5) DDir by auto
      with Some DDir show ?thesis by auto
    qed
  qed
qed simp

lemma dt_edit_file:
  assumes "dt_ok d" "is_ddir d" "file_map d segs = Some g"
  shows "\<exists>d'. dt_replace segs h d = Inr d'" "\<exists>r. dt_remove segs d = Inr r"
proof -
  have ne: "segs \<noteq> []" using assms(2,3) file_map_root by auto
  obtain xs where "dt_find segs d = Inr (xs, [])" using dt_find_file [OF ne assms(1,2)] assms(3) by blast
  from dt_replace_find(3) [OF this] dt_find_remove_ok [OF this]
  show "\<exists>d'. dt_replace segs h d = Inr d'" "\<exists>r. dt_remove segs d = Inr r" by blast+
qed

subsection \<open>Collisions along a sequence of edits\<close>

lemma collision_free_sub:
  assumes "collision_free E repo st D" "grows E repo D st st1" "set D' \<subseteq> set D"
  shows "collision_free E repo st1 D'"
proof -
  have "row_of E x f" if "x \<in> set D'" "lookup_tree (dt_hash E x, repo) st1 = Some f" for x f
    using assms that collision_freeD [OF assms(1)] unfolding grows_def by blast
  moreover have "x = y" if "x \<in> set D'" "y \<in> set D'" "dt_hash E x = dt_hash E y" for x y
    using collision_freeD(2) [OF assms(1)] that assms(3) by blast
  ultimately show ?thesis by (simp add: collision_free_def list_all_iff split: option.split)
qed

lemma grows_step:
  assumes "grows E repo D st st1" "grows E repo D' st1 st2" "set D' \<subseteq> set D"
  shows "grows E repo D st st2"
proof -
  have "trees.extends st st2"
    using assms(1,2) trees.extends_trans by (auto simp: grows_def)
  moreover have "lookup_tree k st = Some f \<or> (\<exists>x \<in> set D. k = (dt_hash E x, repo) \<and> row_of E x f)"
    if "lookup_tree k st2 = Some f" for k f
    using that assms unfolding grows_def by blast
  ultimately show ?thesis by (simp add: grows_def)
qed

lemma stored_blob:
  assumes "stored E repo st (DFile h)"
  shows "\<exists>b. FileTreeRepo_Blob repo h st = Inr b \<and> bl_hash b = h \<and> bl_repo b = repo \<and> bl_type b = BlobObject"
proof -
  obtain f where f: "lookup_tree (h, repo) st = Some f" "file_row f"
    using assms by (auto split: option.splits)
  with lookup_tree_key [OF f(1)] show ?thesis
    by (auto simp: FileTreeRepo_Blob_def FileTree_Blob_def file_row_def ft_key_def)
qed

lemma stored_file:
  "stored E repo st d \<Longrightarrow> dt_ok d \<Longrightarrow> file_map d p = Some h \<Longrightarrow> stored E repo st (DFile h)"
proof (induction p arbitrary: d)
  case Nil
  then show ?case by (cases d) (simp_all add: file_map_simps)
next
  case (Cons n p)
  then have d: "is_ddir d" by (cases d) (simp_all add: file_map_simps)
  obtain x where x: "map_of (kids_of d) n = Some x" "file_map x p = Some h"
    using Cons.prems(3) by (auto simp: file_map_dt [OF Cons.prems(2) d] split: option.splits)
  have "stored E repo st x" using stored_kids [OF Cons.prems(1)] map_of_SomeD [OF x(1)] by auto
  then show ?case using Cons.IH x(2) dt_ok_map_of [OF Cons.prems(2) x(1)] by blast
qed

subsection \<open>One change\<close>

text \<open>A path whose text survives \<open>CleanPath\<close>.\<close>

definition clean_path :: "string list \<Rightarrow> bool" where
  "clean_path p \<longleftrightarrow> [] \<notin> set p \<and> path_segs (join_with ''/'' p) = p"

text \<open>The trees on the way from the files \<open>a\<close> to the files \<open>m\<close>: each path has the one or the other.\<close>

definition between :: "(string list \<Rightarrow> hash option) \<Rightarrow> (string list \<Rightarrow> hash option) \<Rightarrow> dtree \<Rightarrow> bool" where
  "between a m x \<longleftrightarrow> dt_ok x \<and> is_ddir x \<and> (\<forall>p. file_map x p = a p \<or> file_map x p = m p)"

definition prefix_free :: "string list set \<Rightarrow> bool" where
  "prefix_free P \<longleftrightarrow> (\<forall>p \<in> P. \<forall>q \<in> P. prefix p q \<longrightarrow> p = q)"

lemma ApplyOneChange_step:
  assumes rep: "root_rep E repo (ws_objs w) (ws_root w) d" and dg: "digest_nonempty E"
    and sum: "change_summary (tree_ops repo st0) c = (p, file_map d p, new)" "file_map d p \<noteq> new"
    and path: "clean_path p" "same_path (tree_ops repo st0) c"
    and free: "file_map d p = None \<Longrightarrow> \<forall>q g. file_map d q = Some g \<longrightarrow> \<not> prefix q p \<and> \<not> prefix p q"
    and rows: "\<And>h. new = Some h \<Longrightarrow> stored E repo (ws_objs w) (DFile h)"
    and cf: "collision_free E repo st D" "grows E repo D st (ws_objs w)"
    and D: "\<And>x. dt_ok x \<Longrightarrow> is_ddir x \<Longrightarrow> file_map x = (file_map d)(p := new) \<Longrightarrow> set (subtrees x) \<subseteq> set D"
  shows "\<exists>w' d'. ApplyOneChange E repo c w = (Inr (), w') \<and> root_rep E repo (ws_objs w') (ws_root w') d' \<and>
    file_map d' = (file_map d)(p := new) \<and> grows E repo D st (ws_objs w')"
proof -
  let ?N = "tree_ops repo st0"
  have d: "dt_ok d" "is_ddir d" using rep by (simp_all add: root_rep_def)
  have names: "change_names ?N c = p" and from_c: "map_option (path_Hash ?N) (ch_From c) = file_map d p"
    and to_c: "map_option (path_Hash ?N) (ch_To c) = new"
    using sum(1) by (simp_all add: change_summary_def)
  have N: "path_Hash (tree_ops repo (ws_objs w)) = path_Hash ?N" "opt_String (tree_ops repo (ws_objs w)) = opt_String ?N"
    by (simp_all add: path_Hash_def opt_String_def path_String_join path_names_def fun_eq_iff split: option.split)
  have segs: "path_segs (opt_String ?N (ch_To c)) = p" if "ch_To c \<noteq> None"
    using that path names
    by (auto simp: opt_String_def path_String_join clean_path_def change_names_def same_path_def split: option.splits)
  have segs': "path_segs (opt_String ?N (ch_From c)) = p" if "ch_From c \<noteq> None"
    using that path(1) names
    by (auto simp: opt_String_def path_String_join clean_path_def change_names_def)
  show ?thesis
  proof (cases new)
    case None
    then obtain g where g: "file_map d p = Some g" using sum(2) by (cases "file_map d p") auto
    then have "ch_From c \<noteq> None" and act: "change_Action c = Inr Delete"
      using from_c to_c None by (auto simp: change_Action_def)
    note segs' = segs' [OF this(1)]
    obtain r where r: "dt_remove p d = Inr r" using dt_edit_file(2) [OF d g] by blast
    let ?d' = "case r of None \<Rightarrow> DDir [] | Some d' \<Rightarrow> d'"
    have "p \<noteq> []" using path_segs_ok(2) segs' by metis
    then have "opt_file_map r = (file_map d)(p := new)"
      using file_map_remove [OF d _ r] map_cut_file [OF d(1) g] None by simp
    then have fm: "file_map ?d' = (file_map d)(p := new)"
      by (auto simp: opt_file_map_def file_map_def split: option.splits)
    have "dt_ok ?d' \<and> is_ddir ?d'" using dt_remove_ok [OF d(1)] r by (auto split: option.split)
    then have "set (subtrees ?d') \<subseteq> set D" using D fm by blast
    then have sub: "set (opt_subtrees r) \<subseteq> set D" by (cases r) (simp_all add: opt_subtrees_def)
    have "dt_remove (path_segs (opt_String ?N (ch_From c))) d = Inr r" by (simp only: segs' r)
    from RemoveEntry_refines [OF rep dg this collision_free_sub [OF cf sub]]
    obtain w' where w': "RemoveEntry E repo (opt_String ?N (ch_From c)) w = (Inr (), w')"
      "root_rep E repo (ws_objs w') (ws_root w') ?d'" "grows E repo (opt_subtrees r) (ws_objs w) (ws_objs w')"
      by (elim exE conjE) (rule that; assumption)
    have "ApplyOneChange E repo c w = (Inr (), w')" by (simp add: ApplyOneChange_def Let_def N act w'(1))
    then show ?thesis
      by (intro exI [of _ w'] exI [of _ ?d'] conjI fm w'(2) grows_step [OF cf(2) w'(3) sub])
  next
    case (Some h)
    then have to_some: "ch_To c \<noteq> None" "path_Hash ?N (the (ch_To c)) = h" using to_c by auto
    note segs = segs [OF this(1)]
    obtain b where b: "FileTreeRepo_Blob repo h (ws_objs w) = Inr b" "bl_hash b = h" "bl_repo b = repo" "bl_type b = BlobObject"
      using stored_blob [OF rows [OF Some]] by blast
    show ?thesis
    proof (cases "file_map d p")
      case None
      then have act: "change_Action c = Inr Insert" using from_c to_some by (auto simp: change_Action_def)
      have "p \<noteq> []" using path_segs_ok(2) segs by metis
      moreover have slash: "\<forall>n \<in> set p. CHR ''/'' \<notin> set n" using path_segs_ok(1) segs by metis
      moreover have "[] \<notin> set p" using path(1) by (simp add: clean_path_def)
      ultimately obtain d' where d': "dt_add p h d = Inr d'" using dt_add_free [OF d _ _ free [OF None]] by blast
      have fm: "file_map d' = (file_map d)(p := new)" using file_map_add [OF d d' slash] Some by simp
      have sub: "set (subtrees d') \<subseteq> set D" using D fm dt_add_ok [OF d(1) d' slash] by blast
      from AddLeaf_refines [OF rep dg b(3,4) _ collision_free_sub [OF cf sub]] d' segs b(2)
      obtain w' where w': "AddLeaf E repo (opt_String ?N (ch_To c)) b w = (Inr (), w')"
        "root_rep E repo (ws_objs w') (ws_root w') d'" "grows E repo (subtrees d') (ws_objs w) (ws_objs w')"
        by blast
      have "ApplyOneChange E repo c w = (Inr (), w')"
        by (simp add: ApplyOneChange_def Let_def N act to_some(2) b(1) w'(1))
      with w'(2) fm grows_step [OF cf(2) w'(3) sub] show ?thesis by blast
    next
      case g: (Some g)
      then have act: "change_Action c = Inr Modify" using from_c to_some by (auto simp: change_Action_def)
      have "p \<noteq> []" using path_segs_ok(2) segs by metis
      obtain d' where d': "dt_replace p h d = Inr d'" using dt_edit_file(1) [OF d g] by blast
      have fm: "file_map d' = (file_map d)(p := new)"
        using file_map_replace [OF d \<open>p \<noteq> []\<close> d'] map_cut_file [OF d(1) g] Some by simp
      have sub: "set (subtrees d') \<subseteq> set D" using D fm dt_replace_ok [OF d(1) d'] \<open>p \<noteq> []\<close> by blast
      from ReplaceLeaf_refines [OF rep dg b(3,4) _ collision_free_sub [OF cf sub]] d' segs b(2)
      obtain w' where w': "ReplaceLeaf E repo (opt_String ?N (ch_To c)) b w = (Inr (), w')"
        "root_rep E repo (ws_objs w') (ws_root w') d'" "grows E repo (subtrees d') (ws_objs w) (ws_objs w')"
        by blast
      have "ApplyOneChange E repo c w = (Inr (), w')"
        by (simp add: ApplyOneChange_def Let_def N act to_some(2) b(1) w'(1))
      with w'(2) fm grows_step [OF cf(2) w'(3) sub] show ?thesis by blast
    qed
  qed
qed

subsection \<open>All changes\<close>

lemma apply_changes:
  assumes dg: "digest_nonempty E" and cf: "collision_free E repo st D"
    and D: "\<And>x. between a m x \<Longrightarrow> set (subtrees x) \<subseteq> set D"
    and free: "prefix_free (dom a \<union> dom m)"
  shows "root_rep E repo (ws_objs w) (ws_root w) d \<Longrightarrow> grows E repo D st (ws_objs w) \<Longrightarrow>
    distinct (map (change_names N) ms) \<Longrightarrow> N = tree_ops repo st0 \<Longrightarrow>
    \<forall>c \<in> set ms. let p = change_names N c in change_summary N c = (p, a p, m p) \<and> a p \<noteq> m p \<and>
      clean_path p \<and> same_path N c \<and> (\<forall>h. m p = Some h \<longrightarrow> stored E repo st (DFile h)) \<Longrightarrow>
    \<forall>p. file_map d p = (if p \<in> change_names N ` set ms then a p else m p) \<Longrightarrow>
    \<exists>w' d'. run_stream (ApplyOneChange E repo) (map Inr ms) w = (Inr (), w') \<and>
      root_rep E repo (ws_objs w') (ws_root w') d' \<and> file_map d' = m \<and> grows E repo D st (ws_objs w')"
proof (induction ms arbitrary: w d)
  case Nil
  then have "file_map d = m" by (simp add: fun_eq_iff)
  with Nil show ?case by auto
next
  case (Cons c ms)
  let ?p = "change_names N c"
  have c: "change_summary N c = (?p, a ?p, m ?p)" "a ?p \<noteq> m ?p" "clean_path ?p" "same_path N c"
    "\<And>h. m ?p = Some h \<Longrightarrow> stored E repo st (DFile h)"
    using Cons.prems(5) by (simp_all add: Let_def)
  have fm: "file_map d q = (if q \<in> change_names N ` set (c # ms) then a q else m q)" for q
    using Cons.prems(6) by simp
  have at: "file_map d ?p = a ?p" by (simp add: fm)
  have ext: "trees.extends st (ws_objs w)" using Cons.prems(2) by (rule grows_extends)
  have "\<exists>w1 d1. ApplyOneChange E repo c w = (Inr (), w1) \<and> root_rep E repo (ws_objs w1) (ws_root w1) d1 \<and>
      file_map d1 = (file_map d)(?p := m ?p) \<and> grows E repo D st (ws_objs w1)"
  proof (rule ApplyOneChange_step [OF Cons.prems(1) dg _ _ c(3) _ _ _ cf Cons.prems(2), of st0])
    show "change_summary (tree_ops repo st0) c = (?p, file_map d ?p, m ?p)" using c(1) at Cons.prems(4) by simp
    show "file_map d ?p \<noteq> m ?p" using at c(2) by simp
    show "same_path (tree_ops repo st0) c" using c(4) Cons.prems(4) by simp
    show "stored E repo (ws_objs w) (DFile h)" if "m ?p = Some h" for h
      by (rule stored_extends [OF c(5) [OF that] ext])
    show "\<forall>q g. file_map d q = Some g \<longrightarrow> \<not> prefix q ?p \<and> \<not> prefix ?p q" if none: "file_map d ?p = None"
    proof (intro allI impI)
      fix q g assume q: "file_map d q = Some g"
      have "?p \<in> dom a \<union> dom m" using none c(2) at by auto
      moreover have "q \<in> dom a \<union> dom m" using q by (auto simp: fm split: if_splits)
      moreover have "q \<noteq> ?p" using q none by auto
      ultimately show "\<not> prefix q ?p \<and> \<not> prefix ?p q" using free unfolding prefix_free_def by metis
    qed
    show "set (subtrees x) \<subseteq> set D" if "dt_ok x" "is_ddir x" "file_map x = (file_map d)(?p := m ?p)" for x
      by (rule D) (use that fm in \<open>auto simp: between_def\<close>)
  qed
  then obtain w1 d1 where step: "ApplyOneChange E repo c w = (Inr (), w1)"
    "root_rep E repo (ws_objs w1) (ws_root w1) d1" "file_map d1 = (file_map d)(?p := m ?p)"
    "grows E repo D st (ws_objs w1)" by blast
  have "?p \<notin> change_names N ` set ms" using Cons.prems(3) by simp
  then have "\<forall>q. file_map d1 q = (if q \<in> change_names N ` set ms then a q else m q)"
    by (auto simp: step(3) fm)
  from Cons.IH [OF step(2,4) _ Cons.prems(4) _ this] Cons.prems(3,5) show ?case by (simp add: step(1))
qed

subsection \<open>Trees under a hash\<close>

definition tree_at :: "env \<Rightarrow> uuid \<Rightarrow> tree_table \<Rightarrow> hash \<Rightarrow> dtree \<Rightarrow> bool" where
  "tree_at E repo st h d \<longleftrightarrow> (\<exists>n. NewTreeNode repo st (NewRootTreeEntry h) = Inr n \<and> root_rep E repo st n d)"

lemma open_tree_at:
  assumes "tree_at E repo st h d"
  shows "\<exists>w. open_tree repo h st = Inr w \<and> ws_objs w = st \<and> root_rep E repo st (ws_root w) d"
  using assms by (auto simp: tree_at_def open_tree_def NewWorkTree_def)

lemma root_rep_hash: "root_rep E repo st n d \<Longrightarrow> vt_Hash n = root_hash E d"
  by (auto simp: root_rep_def vt_Hash_def root_hash_def split: if_splits)

lemma root_rep_tree_at:
  assumes "root_rep E repo st n d" "digest_nonempty E"
  shows "tree_at E repo st (vt_Hash n) d"
proof (cases "d = DDir []")
  case True
  then show ?thesis using assms
    by (auto simp: root_rep_def vt_Hash_def tree_at_def NewTreeNode_def NewRootTreeEntry_def TreeEntry_Equal_def
        EmptyDirEntry_def)
next
  case False
  with assms(1) obtain f where f: "stored E repo st d" "lookup_tree (dt_hash E d, repo) st = Some f"
    "vt_Hash n = dt_hash E d" "dt_ok d" "is_ddir d"
    by (auto simp: root_rep_def vt_Hash_def)
  have "dt_hash E d \<noteq> []"
    using f(5) assms(2) by (cases d) (simp_all add: dt_hash_listing digest_nonempty_def)
  then have "NewTreeNode repo st (NewRootTreeEntry (vt_Hash n)) =
      Inr \<lparr>vt_entry = NewRootTreeEntry (dt_hash E d), vt_node = FileTree_TreeNode f\<rparr>"
    by (simp add: f(2,3) NewTreeNode_def NewRootTreeEntry_def TreeEntry_Equal_def EmptyDirEntry_def
        FileTreeRepo_TreeNode_def)
  moreover have "root_rep E repo st \<lparr>vt_entry = NewRootTreeEntry (dt_hash E d), vt_node = FileTree_TreeNode f\<rparr> d"
    using f False by (simp add: root_rep_def NewRootTreeEntry_def)
  ultimately show ?thesis by (auto simp: tree_at_def)
qed

lemma wt_Diff_at:
  assumes "root_rep E repo st (ws_root w) d" "ws_objs w = st" "tree_at E repo st h d'" "\<not> renames_between E d d'"
  shows "\<exists>cs. wt_Diff (\<lambda>_. False) repo h [] w = Some (Inr (NewChanges (tree_ops repo st) cs)) \<and>
    changes_between (tree_ops repo st) (file_map d) (file_map d') cs \<and> (\<forall>c \<in> set cs. same_path (tree_ops repo st) c)"
proof -
  obtain n where n: "NewTreeNode repo st (NewRootTreeEntry h) = Inr n" "root_rep E repo st n d'"
    using assms(3) by (auto simp: tree_at_def)
  obtain cs where cs: "DiffTree (tree_ops repo st) (ws_root w) n = Some (Inr cs)"
    "distinct (map (change_names (tree_ops repo st)) cs)"
    "change_summary (tree_ops repo st) ` set cs = map_diff (file_map d) (file_map d')"
    "\<forall>c \<in> set cs. same_path (tree_ops repo st) c"
    using DiffTree_stored [OF assms(1) n(2) assms(4)] by blast
  have "CleanPath [] = []" by code_simp
  then have "wt_Diff (\<lambda>_. False) repo h [] w = Some (Inr (NewChanges (tree_ops repo st) cs))"
    using cs(1) by (simp add: wt_Diff_def assms(2) n(1) DiffTree_def Let_def)
  with cs(4) diff_changes_between [OF assms(1) n(2) cs(2,3)] show ?thesis by blast
qed

subsection \<open>The merge of two trees\<close>

text \<open>
  What the merge needs of the trees of the ancestor, the source and the target: no directory that
  differs by names alone, no path changed to different files, no file where another version has a
  directory, paths that \<open>CleanPath\<close> keeps, and no collision among the objects of the trees
  between the ancestor's and the result.
\<close>

definition mergeable :: "env \<Rightarrow> uuid \<Rightarrow> tree_table \<Rightarrow> dtree \<Rightarrow> dtree \<Rightarrow> dtree \<Rightarrow> dtree list \<Rightarrow> bool" where
  "mergeable E repo st da ds dt D \<longleftrightarrow>
     digest_nonempty E \<and> \<not> renames_between E da ds \<and> \<not> renames_between E da dt \<and>
     (\<forall>p. \<not> clash_at (file_map da) (file_map ds) (file_map dt) p) \<and>
     prefix_free (dom (file_map da) \<union> dom (file_map ds) \<union> dom (file_map dt)) \<and>
     (\<forall>p \<in> dom (file_map da) \<union> dom (file_map ds) \<union> dom (file_map dt). clean_path p) \<and>
     collision_free E repo st D \<and>
     (\<forall>x. between (file_map da) (three_way (file_map da) (file_map ds) (file_map dt)) x \<longrightarrow>
       set (subtrees x) \<subseteq> set D)"

lemma three_way_stored:
  assumes "tree_at E repo st hs ds" "tree_at E repo st ht dt" "three_way a (file_map ds) (file_map dt) p = Some h"
  shows "stored E repo st (DFile h)"
proof -
  have st: "stored E repo st (DFile h)" if rep: "root_rep E repo st n x" and fm: "file_map x p = Some h" for n x
  proof -
    have "x \<noteq> DDir []" using fm by (auto simp: file_map_def)
    then have "stored E repo st x" "dt_ok x" using rep by (auto simp: root_rep_def)
    then show ?thesis using stored_file fm by blast
  qed
  show ?thesis
    using assms st unfolding tree_at_def by (auto simp: three_way_def split: if_splits)
qed

lemma prefix_free_subset: "prefix_free P \<Longrightarrow> Q \<subseteq> P \<Longrightarrow> prefix_free Q"
  by (auto simp: prefix_free_def)

lemma dom_three_way: "dom (three_way b f g) \<subseteq> dom f \<union> dom g"
proof
  fix p assume "p \<in> dom (three_way b f g)"
  then show "p \<in> dom f \<union> dom g" by (cases "f p = b p") (auto simp: three_way_def)
qed

lemma apply_merged_three_way:
  assumes trees: "root_rep E repo st (ws_root w) da" "ws_objs w = st" "tree_at E repo st hs ds" "tree_at E repo st ht dt"
    and merge: "mergeable E repo st da ds dt D"
    and C: "ce_env C = E" "rp_id (ce_repo C) = repo" "ce_ctx C = (\<lambda>_. False)"
  shows "\<exists>l r w' dm. ce_Diff C hs w = Some (Inr l) \<and> ce_Diff C ht w = Some (Inr r) \<and>
    apply_merged C l r res w = Some (Inr (), w') \<and> root_rep E repo (ws_objs w') (ws_root w') dm \<and>
    file_map dm = three_way (file_map da) (file_map ds) (file_map dt) \<and> trees.extends st (ws_objs w')"
proof -
  let ?N = "tree_ops repo st" and ?a = "file_map da" and ?m = "three_way (file_map da) (file_map ds) (file_map dt)"
  have m: "digest_nonempty E" "\<not> renames_between E da ds" "\<not> renames_between E da dt"
    "\<forall>p. \<not> clash_at ?a (file_map ds) (file_map dt) p"
    "prefix_free (dom ?a \<union> dom (file_map ds) \<union> dom (file_map dt))"
    "\<forall>p \<in> dom ?a \<union> dom (file_map ds) \<union> dom (file_map dt). clean_path p"
    "collision_free E repo st D" "\<And>x. between ?a ?m x \<Longrightarrow> set (subtrees x) \<subseteq> set D"
    using merge by (simp_all add: mergeable_def)
  obtain ls where ls: "ce_Diff C hs w = Some (Inr (NewChanges ?N ls))" "changes_between ?N ?a (file_map ds) ls"
    "\<forall>c \<in> set ls. same_path ?N c"
    using wt_Diff_at [OF trees(1,2,3) m(2)] C by (auto simp: ce_Diff_def)
  obtain rs where rs: "ce_Diff C ht w = Some (Inr (NewChanges ?N rs))" "changes_between ?N ?a (file_map dt) rs"
    "\<forall>c \<in> set rs. same_path ?N c"
    using wt_Diff_at [OF trees(1,2,4) m(3)] C by (auto simp: ce_Diff_def)
  obtain ms where ms: "\<forall>(h :: vtree_node change \<Rightarrow> work_state \<Rightarrow> _) s. merge_loop ?N h
      (NewChangesMergeIter (NewChanges ?N ls) (NewChanges ?N rs) res) s = Some (run_stream h (map Inr ms) s)"
    "change_summary ?N ` set ms = map_diff ?a ?m" "by_path ?N ms" "set ms \<subseteq> set ls \<union> set rs"
    using merge_stream_three_way [where res = res, OF ls(2) rs(2) m(4)] by (elim exE conjE) (rule that; assumption)
  have in_doms: "dom ?a \<union> dom ?m \<subseteq> dom ?a \<union> dom (file_map ds) \<union> dom (file_map dt)"
    by (rule Un_least [OF _ order_trans [OF dom_three_way]]) (rule Un_upper1 Un_upper2 Un_least le_supI1 le_supI2 order.refl)+
  have free: "prefix_free (dom ?a \<union> dom ?m)"
    by (rule prefix_free_subset [OF m(5) in_doms])
  have names: "distinct (map (change_names ?N) ms)"
  proof -
    have plain: "plain_changes ?N ls" "plain_changes ?N rs" using ls(2) rs(2) by (simp_all add: changes_between_def)
    have path: "change_Path ?N c = join_with ''/'' (change_names ?N c)" if "c \<in> set ms" for c
      using that ms(4) plain unfolding plain_changes_def by blast
    have "distinct (map (change_Path ?N) ms)"
      using ms(3) by (simp add: sorted_wrt_map [symmetric] strict_sorted_iff)
    then have "distinct (map (join_with ''/'') (map (change_names ?N) ms))"
      using path by (simp add: comp_def cong: map_cong)
    then show ?thesis by (rule distinct_of_map)
  qed
  have change: "let p = change_names ?N c in change_summary ?N c = (p, ?a p, ?m p) \<and> ?a p \<noteq> ?m p \<and>
      clean_path p \<and> same_path ?N c \<and> (\<forall>h. ?m p = Some h \<longrightarrow> stored E repo st (DFile h))" if "c \<in> set ms" for c
  proof -
    let ?p = "change_names ?N c"
    have "change_summary ?N c \<in> map_diff ?a ?m" unfolding ms(2) [symmetric] using that by (rule imageI)
    then have s: "change_summary ?N c = (?p, ?a ?p, ?m ?p)" "?a ?p \<noteq> ?m ?p"
      by (auto simp: map_diff_def change_summary_def)
    then have "?p \<in> dom ?a \<union> dom ?m" by auto
    then have "clean_path ?p" using m(6) in_doms by blast
    moreover have "same_path ?N c" using that ms(4) ls(3) rs(3) by blast
    ultimately show ?thesis using s three_way_stored [OF trees(3,4)] by (simp add: Let_def)
  qed
  have start: "file_map da p = (if p \<in> change_names ?N ` set ms then ?a p else ?m p)" for p
  proof (cases "?a p = ?m p")
    case False
    then have "(p, ?a p, ?m p) \<in> change_summary ?N ` set ms" unfolding ms(2) by (auto simp: map_diff_def)
    then have "p \<in> change_names ?N ` set ms" by (auto simp: change_summary_def)
    then show ?thesis by simp
  qed simp
  have "grows E repo D st (ws_objs w)" unfolding trees(2) by (rule grows_refl)
  from apply_changes [OF m(1,7,8) free _ this names refl, of da] trees change start
  obtain w' dm where run: "run_stream (ApplyOneChange E repo) (map Inr ms) w = (Inr (), w')"
    "root_rep E repo (ws_objs w') (ws_root w') dm" "file_map dm = ?m" "grows E repo D st (ws_objs w')" by metis
  have "apply_merged C (NewChanges ?N ls) (NewChanges ?N rs) res w = Some (Inr (), w')"
    using run(1) by (simp add: apply_merged_def C trees(2) ms(1))
  with ls(1) rs(1) run(2,3) grows_extends [OF run(4)] show ?thesis by blast
qed

subsection \<open>The merge commit\<close>

lemma merge_trees_three_way:
  assumes trees: "tree_at E repo (db_trees d) (cm_tree_hash a) da" "tree_at E repo (db_trees d) (cm_tree_hash s) ds"
      "tree_at E repo (db_trees d) (cm_tree_hash t) dt"
    and merge: "mergeable E repo (db_trees d) da ds dt D"
    and C: "ce_env C = E" "rp_id (ce_repo C) = repo" "ce_ctx C = (\<lambda>_. False)"
    and new: "\<And>x. dt_ok x \<Longrightarrow> is_ddir x \<Longrightarrow> file_map x = three_way (file_map da) (file_map ds) (file_map dt) \<Longrightarrow>
      \<not> is_stored repo d (cm_hash (merge_commit C s t (root_hash E x) msg))"
  shows "\<exists>c d' dm. merge_trees C a s t msg res d = Some (Inr c, d') \<and> cm_parents c = [cm_hash s, cm_hash t] \<and>
    tree_at E repo (db_trees d') (cm_tree_hash c) dm \<and>
    file_map dm = three_way (file_map da) (file_map ds) (file_map dt) \<and> trees.extends (db_trees d) (db_trees d') \<and>
    d' = d\<lparr>db_trees := db_trees d', db_commits := db_commits d @ [c]\<rparr> \<and> cm_repo c = repo \<and> cm_message c = msg"
proof -
  obtain w where w: "open_tree repo (cm_tree_hash a) (db_trees d) = Inr w" "ws_objs w = db_trees d"
    "root_rep E repo (db_trees d) (ws_root w) da"
    using open_tree_at [OF trees(1)] by blast
  obtain l r w' dm where m: "ce_Diff C (cm_tree_hash s) w = Some (Inr l)" "ce_Diff C (cm_tree_hash t) w = Some (Inr r)"
    "apply_merged C l r res w = Some (Inr (), w')" "root_rep E repo (ws_objs w') (ws_root w') dm"
    "file_map dm = three_way (file_map da) (file_map ds) (file_map dt)" "trees.extends (db_trees d) (ws_objs w')"
    using apply_merged_three_way [where res = res, OF w(3,2) trees(2,3) merge C] by blast
  let ?c = "merge_commit C s t (root_hash E dm) msg"
  have dm: "dt_ok dm" "is_ddir dm" using m(4) by (simp_all add: root_rep_def)
  have c: "cm_parents ?c = [cm_hash s, cm_hash t]" "cm_tree_hash ?c = root_hash E dm" "cm_repo ?c = repo"
    "cm_message ?c = msg" by (simp_all add: merge_commit_def Let_def C)
  have "CommitRepo_Insert repo ?c (db_commits d) = (Inr ?c, db_commits d @ [?c])"
    by (rule insert_new_commit [OF c(3) new [OF dm m(5)]])
  then have "merge_trees C a s t msg res d =
      Some (Inr ?c, d\<lparr>db_trees := ws_objs w', db_commits := db_commits d @ [?c]\<rparr>)"
    by (simp add: merge_trees_def C w(1) m(1-3) root_rep_hash [OF m(4)])
  moreover have "tree_at E repo (ws_objs w') (cm_tree_hash ?c) dm"
    using root_rep_tree_at [OF m(4)] merge by (simp add: c(2) root_rep_hash [OF m(4)] mergeable_def)
  ultimately show ?thesis using m(5,6) c
    by (intro exI [of _ ?c] exI [of _ "d\<lparr>db_trees := ws_objs w', db_commits := db_commits d @ [?c]\<rparr>"] exI [of _ dm])
      simp
qed

lemma Merge_apart:
  assumes "db_ok encode rid d" "view_ok rid d w" "wr_state w = InBranch" "wr_branch w = Some branch"
    "CommitRepo_Commit rid (db_commits d) h = Inr s" "h \<noteq> []"
    "CommitRepo_Commit rid (db_commits d) (br_commit branch) = Inr t" "br_commit branch \<noteq> []"
    "CommitRepo_Commit rid (db_commits d) (cm_hash a) = Inr a"
    "best_ancestors (table_store encode rid (db_commits d))
      (common_ancestors (table_store encode rid (db_commits d)) s t) = {cm_hash a}"
    "\<not> reaches (table_store encode rid (db_commits d)) s t" "\<not> reaches (table_store encode rid (db_commits d)) t s"
    "merge_trees (cenv_of E encode ctx w) a s t msg res d = Some (Inr c, d1)"
  shows "Merge E encode ctx h msg res w d = Some (Inr c, move_branch (br_id branch) (cm_hash c) d1)"
proof -
  let ?C = "cenv_of E encode ctx w" and ?S = "table_store encode rid (db_commits d)"
  have id: "repo_id w = rid" using assms(2) by (simp add: view_ok_def)
  have store: "ce_store ?C d = ?S" by (simp add: ce_store_def id)
  have hist: "history_ok ?S" "acyclic (parent_rel ?S)" using assms(1) by (simp_all add: db_ok_def commits_ok_def)
  have hash: "cm_hash s = h" "cm_hash t = br_commit branch"
    using CommitRepo_Commit_Inr [OF assms(5)] CommitRepo_Commit_Inr [OF assms(7)] by simp_all
  have nodes: "is_node ?S s" "is_node ?S t" "is_node ?S a"
    using assms(5,7,9) by (simp_all add: is_node_def table_store_def hash)
  obtain best where best: "MergeBase ?S s t = Some (Inr best)" "\<forall>c \<in> set best. is_node ?S c"
    "distinct (map cm_hash best)" "cm_hash ` set best = {cm_hash a}"
    using MergeBase_result [OF hist nodes(1,2)] assms(10) by auto
  have "length best = 1" using distinct_card [OF best(3)] best(4) by simp
  then obtain x where x: "best = [x]" by (auto simp: length_Suc_conv)
  then have "best = [a]" using best(2,4) is_node_eq [OF _ nodes(3), of x] by simp
  then have find: "findBestAncestor ?C (Some s) (Some t) d = Some (Inr a, d)"
    by (subst findBestAncestor.simps) (simp add: store best(1))
  have anc: "cm_hash x \<in> ancestors ?S (cm_hash y) \<longleftrightarrow> reaches ?S y x" for x y
    by (auto simp: ancestors_def reaches_def)
  have "merge ?C a (Some s) (Some t) msg res d = Some (Inr c, d1)"
    using assms(11-13)
    by (simp add: merge_def store IsAncestor_result [OF hist(1) nodes(1)] IsAncestor_result [OF hist(1) nodes(2)] anc)
  moreover have "commit_of w d (br_commit branch) = Inr (Some t)" "commit_of w d h = Inr (Some s)"
    using assms(5-8) by (simp_all add: commit_of_def IsEmpty_def get_commit_def id)
  ultimately show ?thesis
    by (simp add: Merge_def assms(3,4) Let_def find BranchRepo_UpdateByID_move)
qed

text \<open>
  C1: Merging a commit into a branch, where the two histories have exactly one best common
  ancestor, neither commit reaches the other (so there is no fast-forward), no path was changed
  to different files on both sides, and the other conditions \<open>mergeable\<close> on the three trees
  hold (no directories that differ by names alone, no file where another version has a
  directory, no hash collision), succeeds. It stores exactly one new commit, which has the two
  commits as its parents and the given message; the rows of that branch move to it and no other
  row changes, except that tree objects are added to the object store. The tree stored under
  the new commit holds exactly the three-way merge of the files: the source's version of what
  the source changed, and the target's version of everything else. The target is the head that
  the session has of its branch.
\<close>

theorem Merge_three_way:
  assumes "db_ok encode rid d" "view_ok rid d w" "wr_state w = InBranch" "wr_branch w = Some branch"
    "CommitRepo_Commit rid (db_commits d) h = Inr s" "h \<noteq> []"
    "CommitRepo_Commit rid (db_commits d) (br_commit branch) = Inr t" "br_commit branch \<noteq> []"
    "CommitRepo_Commit rid (db_commits d) (cm_hash a) = Inr a"
    "best_ancestors (table_store encode rid (db_commits d))
      (common_ancestors (table_store encode rid (db_commits d)) s t) = {cm_hash a}"
    "\<not> reaches (table_store encode rid (db_commits d)) s t" "\<not> reaches (table_store encode rid (db_commits d)) t s"
    "tree_at E rid (db_trees d) (cm_tree_hash a) da" "tree_at E rid (db_trees d) (cm_tree_hash s) ds"
    "tree_at E rid (db_trees d) (cm_tree_hash t) dt" "mergeable E rid (db_trees d) da ds dt D"
    "\<forall>x. dt_ok x \<longrightarrow> is_ddir x \<longrightarrow> file_map x = three_way (file_map da) (file_map ds) (file_map dt) \<longrightarrow>
      \<not> is_stored rid d (cm_hash (merge_commit (cenv_of E encode (\<lambda>_. False) w) s t (root_hash E x) msg))"
  shows "\<exists>c d' dm. Merge E encode (\<lambda>_. False) h msg res w d = Some (Inr c, d') \<and>
    cm_parents c = [cm_hash s, cm_hash t] \<and> tree_at E rid (db_trees d') (cm_tree_hash c) dm \<and>
    file_map dm = three_way (file_map da) (file_map ds) (file_map dt) \<and>
    cm_repo c = rid \<and> cm_message c = msg \<and> CommitRepo_Commit rid (db_commits d') (cm_hash c) = Inr c \<and>
    trees.extends (db_trees d) (db_trees d') \<and>
    d' = d\<lparr>db_trees := db_trees d', db_commits := db_commits d @ [c],
      db_branches := map (\<lambda>b. if br_id b = br_id branch then b\<lparr>br_commit := cm_hash c\<rparr> else b) (db_branches d)\<rparr>"
proof -
  let ?C = "cenv_of E encode (\<lambda>_. False) w"
  have id: "repo_id w = rid" using assms(2) by (simp add: view_ok_def)
  have C: "ce_env ?C = E" "rp_id (ce_repo ?C) = rid" "ce_ctx ?C = (\<lambda>_. False)"
    by (simp_all add: cenv_of_def repo_id_def id [unfolded repo_id_def])
  obtain c d1 dm where m: "merge_trees ?C a s t msg res d = Some (Inr c, d1)"
    "cm_parents c = [cm_hash s, cm_hash t] \<and> tree_at E rid (db_trees d1) (cm_tree_hash c) dm \<and>
      file_map dm = three_way (file_map da) (file_map ds) (file_map dt) \<and> trees.extends (db_trees d) (db_trees d1) \<and>
      cm_repo c = rid \<and> cm_message c = msg" "d1 = d\<lparr>db_trees := db_trees d1, db_commits := db_commits d @ [c]\<rparr>"
    using merge_trees_three_way [where res = res, OF assms(13-16) C] assms(17) by blast
  let ?d = "move_branch (br_id branch) (cm_hash c) d1"
  have run: "Merge E encode (\<lambda>_. False) h msg res w d = Some (Inr c, ?d)"
    by (rule Merge_apart [OF assms(1-12) m(1)])
  have frame: "?d = d\<lparr>db_trees := db_trees ?d, db_commits := db_commits d @ [c],
      db_branches := map (\<lambda>b. if br_id b = br_id branch then b\<lparr>br_commit := cm_hash c\<rparr> else b) (db_branches d)\<rparr>"
    by (subst m(3)) (simp add: move_branch_def tbl_update_def)
  obtain s' t' d2 where "merged_ok ?C s' t' d c d2" "?d = move_branch (br_id branch) (cm_hash c) d2"
    using Merge_InrD_ok [OF assms(1,2) run] assms(4) by (metis option.inject)
  then have "CommitRepo_Commit rid (db_commits ?d) (cm_hash c) = Inr c"
    by (simp add: merged_ok_def node_ok_def id move_branch_def)
  moreover have "db_trees d1 = db_trees ?d" by (simp add: move_branch_def)
  ultimately show ?thesis using run frame m(2)
    by (intro exI [of _ c] exI [of _ ?d] exI [of _ dm] conjI) (simp_all only:)
qed

subsection \<open>Joining two histories\<close>

text \<open>A merge adds commits and tree objects, and leaves the other tables alone.\<close>

definition only_objects :: "db \<Rightarrow> db \<Rightarrow> bool" where
  "only_objects d d' \<longleftrightarrow> d' = d\<lparr>db_trees := db_trees d', db_commits := db_commits d'\<rparr>"

lemma only_objects_refl [simp]: "only_objects d d"
  by (simp add: only_objects_def)

lemma only_objects_trans: "only_objects d d' \<Longrightarrow> only_objects d' d'' \<Longrightarrow> only_objects d d''"
  unfolding only_objects_def by (cases d, cases d', cases d'') simp

lemma only_objects_branches: "only_objects d d' \<Longrightarrow> db_branches d' = db_branches d"
  unfolding only_objects_def by (cases d, cases d') simp

lemma merge_only_objects:
  "merge C best source target msg res d = Some (Inr c, d') \<Longrightarrow> only_objects d d'"
  by (auto simp: merge_def merge_trees_def only_objects_def
      split: option.splits sum.splits prod.splits if_splits)

lemma findBestAncestor_only_objects:
  assumes "findBestAncestor C base other d = Some res" "fst res = Inr c"
  shows "only_objects d (snd res)"
  using assms
proof (induction arbitrary: c rule: findBestAncestor.raw_induct [rotated, consumes 1, case_names step])
  case (step find C base other d res)
  note IH = step(1) and run = step(2) and res = step(3)
  show ?case
  proof (cases base)
    case None
    with run res show ?thesis by (cases other) auto
  next
    case (Some b)
    note b = this
    show ?thesis
    proof (cases other)
      case None
      with b run res show ?thesis by auto
    next
      case (Some t)
      note run' = run [unfolded b Some, simplified]
      consider "snd res = d" | x y sub d1 where "find C (Some x) (Some y) d = Some (Inr sub, d1)"
        "merge C sub (Some x) (Some y) ''virtual commit'' (Some ForbidResolver) d1 = Some res"
      proof (cases "MergeBase (ce_store C d) b t")
        case None
        with run' show thesis by simp
      next
        case (Some q)
        show thesis
        proof (cases q)
          case (Inl e)
          with Some run' res show thesis by auto
        next
          case (Inr best)
          show thesis
          proof (cases "length best > 1")
            case True
            then have "best \<noteq> [] \<and> Suc 0 < length best" by auto
            with Some Inr run' obtain r where r: "find C (Some (best ! 0)) (Some (best ! 1)) d = Some r"
              "(case fst r of Inl e \<Rightarrow> Some (Inl e, snd r) | Inr sub \<Rightarrow>
                merge C sub (Some (best ! 0)) (Some (best ! 1)) ''virtual commit'' (Some ForbidResolver) (snd r)) = Some res"
              by (auto simp: bind_eq_Some_conv)
            obtain sub where "fst r = Inr sub" using r(2) res by (cases "fst r") auto
            with r that(2) [of _ _ sub "snd r"] show thesis by (metis prod.collapse sum.case(2))
          qed (use Some Inr run' that(1) in \<open>auto split: if_splits\<close>)
        qed
      qed
      then show ?thesis
      proof cases
        case (2 x y sub d1)
        then have "merge C sub (Some x) (Some y) ''virtual commit'' (Some ForbidResolver) d1 = Some (Inr c, snd res)"
          using res by (cases res) simp
        from only_objects_trans [OF _ merge_only_objects [OF this]] IH [OF 2(1)] show ?thesis by simp
      qed simp
    qed
  qed
qed

text \<open>
  C15: When the branch a session has cached is up to date, that is, when the stored row of the
  branch has the same head, a successful \<open>Merge\<close> moves the stored branch to the commit it
  returns. That commit is stored, and both the commit that was merged and the head the branch
  row had before can be reached from it; every commit stored before still is, the other branches
  stay where they were, and no other table changes. The invariants assumed hold in every
  reachable state. A stale session is excluded: \<open>Merge\<close>, like \<open>CommitChanges\<close>, overwrites the
  stored head without comparing it, and loses the update as in the theorem on stale commits.
\<close>

theorem Merge_joins_histories:
  assumes "db_ok encode rid d" "view_ok rid d w" "wr_branch w = Some branch"
    "row \<in> set (db_branches d)" "br_id row = br_id branch" "br_commit row = br_commit branch"
    "Merge E encode ctx h msg res w d = Some (Inr c, d')"
  shows "row\<lparr>br_commit := cm_hash c\<rparr> \<in> set (db_branches d') \<and>
    CommitRepo_Commit rid (db_commits d') (cm_hash c) = Inr c \<and>
    {h, br_commit row} - {[]} \<subseteq> ancestors (table_store encode rid (db_commits d')) (cm_hash c) \<and>
    stored_hashes (table_store encode rid (db_commits d)) \<subseteq> stored_hashes (table_store encode rid (db_commits d')) \<and>
    d' = d\<lparr>db_trees := db_trees d', db_commits := db_commits d',
      db_branches := map (\<lambda>b. if br_id b = br_id row then b\<lparr>br_commit := cm_hash c\<rparr> else b) (db_branches d)\<rparr>"
proof -
  have id: "repo_id w = rid" using assms(2) by (simp add: view_ok_def)
  let ?C = "cenv_of E encode ctx w"
  obtain source target best d1 d2 where run: "findBestAncestor ?C source target d = Some (Inr best, d1)"
    "merge ?C best source target msg res d1 = Some (Inr c, d2)" "d' = move_branch (br_id branch) (cm_hash c) d2"
    using Merge_InrD [OF assms(7)] assms(3) by fastforce
  have only: "only_objects d d2"
    using only_objects_trans [OF _ merge_only_objects [OF run(2)]] findBestAncestor_only_objects [OF run(1)] by simp
  obtain source target d3 where m: "commit_of w d (br_commit branch) = Inr target" "commit_of w d h = Inr source"
    "merged_ok ?C source target d c d3" "d' = move_branch (br_id branch) (cm_hash c) d3"
    using Merge_InrD_ok [OF assms(1,2,7)] assms(3) by (metis option.inject)
  have source: "x = [] \<or> (\<exists>y. o' = Some y \<and> cm_hash y = x)" if "commit_of w d x = Inr o'" for x o'
    using that CommitRepo_Commit_Inr by (auto simp: commit_of_def IsEmpty_def get_commit_def split: if_splits sum.splits)
  have store: "ce_store ?C d3 = table_store encode rid (db_commits d3)" by (simp add: ce_store_def id)
  have "{h, br_commit branch} - {[]} \<subseteq> ancestors (table_store encode rid (db_commits d3)) (cm_hash c)"
    using source [OF m(1)] source [OF m(2)] m(3) unfolding merged_ok_def store
    by (auto simp: reaches_def ancestors_def)
  moreover have "CommitRepo_Commit rid (db_commits d3) (cm_hash c) = Inr c" "grows_commits rid d d3"
    using m(3) by (simp_all add: merged_ok_def node_ok_def id)
  moreover have "db_commits d' = db_commits d3" by (simp add: m(4) move_branch_def)
  moreover have frame: "d' = d\<lparr>db_trees := db_trees d', db_commits := db_commits d',
      db_branches := map (\<lambda>b. if br_id b = br_id row then b\<lparr>br_commit := cm_hash c\<rparr> else b) (db_branches d)\<rparr>"
    using only unfolding only_objects_def run(3) by (cases d, cases d2) (simp add: move_branch_def tbl_update_def assms(5))
  moreover have "row\<lparr>br_commit := cm_hash c\<rparr> \<in> set (db_branches d')"
    using assms(4) by (subst frame) auto
  ultimately show ?thesis
    using is_stored_grows assms(6) by (auto simp: stored_iff simp del: db.surjective)
qed

subsection \<open>A concrete merge\<close>

definition mg_base :: dtree where "mg_base = DDir [(''a'', DFile ''1'')]"
definition mg_left :: dtree where "mg_left = DDir [(''a'', DFile ''1''), (''b'', DFile ''2'')]"
definition mg_right :: dtree where "mg_right = DDir [(''a'', DFile ''3'')]"
definition mg_both :: dtree where "mg_both = DDir [(''a'', DFile ''3''), (''b'', DFile ''2'')]"

definition mg_table :: tree_table where
  "mg_table = concat (map (rows_of demo_env ''r'') [mg_base, mg_left, mg_right])"

definition mg_commit :: "hash \<Rightarrow> time \<Rightarrow> hash list \<Rightarrow> dtree \<Rightarrow> commit" where
  "mg_commit h t ps x = (demo_commit h t ps)\<lparr>cm_tree_hash := root_hash demo_env x\<rparr>"

definition mg_commits :: "commit list" where
  "mg_commits = [mg_commit ''0'' 1 [] mg_base, mg_commit ''1'' 2 [''0''] mg_left, mg_commit ''2'' 3 [''0''] mg_right]"

definition mg_main :: branch where "mg_main = demo_main\<lparr>br_commit := ''2''\<rparr>"

definition mg_db :: db where
  "mg_db = demo_db\<lparr>db_branches := [mg_main], db_commits := mg_commits, db_trees := mg_table\<rparr>"

definition mg_session :: work_repo where
  "mg_session = demo_on_main\<lparr>wr_branch := Some mg_main, wr_commit := Some (mg_commit ''2'' 3 [''0''] mg_right)\<rparr>"

lemmas mg_trees = mg_base_def mg_left_def mg_right_def mg_both_def

lemma mg_commit_simps [simp]:
  "cm_hash (mg_commit h t ps x) = h" "cm_repo (mg_commit h t ps x) = ''r''"
  "cm_parents (mg_commit h t ps x) = ps" "sig_when (cm_committer (mg_commit h t ps x)) = t"
  "cm_tree_hash (mg_commit h t ps x) = root_hash demo_env x"
  by (simp_all add: mg_commit_def)

lemma mg_lookup:
  "CommitRepo_Commit ''r'' mg_commits h =
     (if h = ''0'' then Inr (mg_commit ''0'' 1 [] mg_base) else if h = ''1'' then Inr (mg_commit ''1'' 2 [''0''] mg_left)
      else if h = ''2'' then Inr (mg_commit ''2'' 3 [''0''] mg_right) else Inl ErrNotFound)"
  by (simp add: CommitRepo_Commit_def mg_commits_def tbl_get_def)

abbreviation mg_store :: commit_store where
  "mg_store \<equiv> table_store id ''r'' mg_commits"

lemma mg_parents: "parent_rel mg_store = {(''1'', ''0''), (''2'', ''0'')}"
  by (auto simp: parent_rel_def table_store_def mg_lookup split: if_splits)

lemma mg_reach: "(x, y) \<in> (parent_rel mg_store)\<^sup>* \<longleftrightarrow> x = y \<or> (x, y) \<in> {(''1'', ''0''), (''2'', ''0'')}"
proof
  show "(x, y) \<in> (parent_rel mg_store)\<^sup>* \<Longrightarrow> x = y \<or> (x, y) \<in> {(''1'', ''0''), (''2'', ''0'')}"
    unfolding mg_parents by (induction rule: rtrancl_induct) auto
qed (auto simp: mg_parents)

lemma mg_stored: "stored_hashes mg_store = {''0'', ''1'', ''2''}"
  by (auto simp: stored_hashes_def table_store_def mg_lookup split: if_splits)

lemma mg_history: "history_ok mg_store"
proof (rule table_history_ok)
  show "set (cm_parents c) \<subseteq> stored_hashes mg_store" if "c \<in> set mg_commits" for c
    using that unfolding mg_stored by (auto simp: mg_commits_def)
qed (simp add: inj_def)

lemma mg_db_ok: "db_ok id ''r'' mg_db"
proof -
  have "acyclic (parent_rel mg_store)"
    by (rule acyclicI) (auto simp: mg_parents dest: tranclD elim: converse_tranclE)
  moreover have "''r'' \<noteq> uuid_Nil" by (auto simp: uuid_Nil_def dest: arg_cong [of _ _ length])
  moreover have "unique_keys commit_key mg_commits"
    by (simp add: unique_keys_def mg_commits_def commit_key_def)
  ultimately show ?thesis
    by (simp add: db_ok_def commits_ok_def mg_db_def mg_history refs_ok_def demo_db_def mg_main_def ref_ok_def
        is_stored_def mg_lookup)
qed

lemma mg_files:
  "file_map mg_base = [[''a''] \<mapsto> ''1'']" "file_map mg_left = [[''a''] \<mapsto> ''1'', [''b''] \<mapsto> ''2'']"
  "file_map mg_right = [[''a''] \<mapsto> ''3'']" "file_map mg_both = [[''a''] \<mapsto> ''3'', [''b''] \<mapsto> ''2'']"
  by (auto simp: mg_trees file_map_def)

lemma mg_three_way: "three_way (file_map mg_base) (file_map mg_left) (file_map mg_right) = file_map mg_both"
  by (rule ext) (simp add: three_way_def mg_files)

lemma mg_ok: "y \<in> {mg_base, mg_left, mg_right, mg_both} \<Longrightarrow> dt_ok y \<and> is_ddir y \<and> y \<noteq> DDir []"
  by (auto simp: mg_trees valid_name_def)

lemma mg_between:
  assumes "between (file_map mg_base) (file_map mg_both) x"
  shows "x \<in> {mg_base, mg_left, mg_right, mg_both}"
proof -
  have x: "dt_ok x" "is_ddir x" and at: "file_map x p = file_map mg_base p \<or> file_map x p = file_map mg_both p" for p
    using assms by (simp_all add: between_def)
  have a: "file_map x [''a''] = Some ''1'' \<or> file_map x [''a''] = Some ''3''"
    and b: "file_map x [''b''] = None \<or> file_map x [''b''] = Some ''2''"
    and other: "p \<noteq> [''a''] \<Longrightarrow> p \<noteq> [''b''] \<Longrightarrow> file_map x p = None" for p
    using at [of "[''a'']"] at [of "[''b'']"] at [of p] by (simp_all add: mg_files)
  have eq: "file_map x = (\<lambda>p. if p = [''a''] then u else if p = [''b''] then v else None)"
    if "file_map x [''a''] = u" "file_map x [''b''] = v" for u v
    using that other by auto
  have "file_map x = file_map mg_base \<or> file_map x = file_map mg_left \<or> file_map x = file_map mg_right \<or>
      file_map x = file_map mg_both"
    using a b
  proof (elim disjE)
    assume "file_map x [''a''] = Some ''1''" "file_map x [''b''] = None"
    from eq [OF this] have "file_map x = file_map mg_base" by (simp add: mg_files fun_eq_iff)
    then show ?thesis by blast
  next
    assume "file_map x [''a''] = Some ''1''" "file_map x [''b''] = Some ''2''"
    from eq [OF this] have "file_map x = file_map mg_left" by (simp add: mg_files fun_eq_iff)
    then show ?thesis by blast
  next
    assume "file_map x [''a''] = Some ''3''" "file_map x [''b''] = None"
    from eq [OF this] have "file_map x = file_map mg_right" by (simp add: mg_files fun_eq_iff)
    then show ?thesis by blast
  next
    assume "file_map x [''a''] = Some ''3''" "file_map x [''b''] = Some ''2''"
    from eq [OF this] have "file_map x = file_map mg_both" by (simp add: mg_files fun_eq_iff)
    then show ?thesis by blast
  qed
  then show ?thesis using file_map_inj [OF x(1) _ x(2)] mg_ok by blast
qed

definition mg_objects :: "dtree list" where
  "mg_objects = [mg_base, mg_left, mg_right, mg_both, DFile ''1'', DFile ''2'', DFile ''3'']"

lemma mg_mergeable: "mergeable demo_env ''r'' mg_table mg_base mg_left mg_right mg_objects"
proof -
  have doms: "dom (file_map mg_base) \<union> dom (file_map mg_left) \<union> dom (file_map mg_right) = {[''a''], [''b'']}"
    by (auto simp: mg_files)
  have renames: "\<not> renames_between demo_env mg_base mg_left" "\<not> renames_between demo_env mg_base mg_right"
    by (simp_all add: renames_between_def bare_rename_def mg_trees demo_hashes kids_of_def)
  have "\<forall>p. \<not> clash_at (file_map mg_base) (file_map mg_left) (file_map mg_right) p"
    by (simp add: clash_at_def mg_files)
  moreover have "prefix_free {[''a''], [''b'']}" by (auto simp: prefix_free_def)
  moreover have "clean_path [''a'']" "clean_path [''b'']" unfolding clean_path_def by code_simp+
  moreover have "collision_free demo_env ''r'' mg_table mg_objects"
    by (simp add: collision_free_def mg_objects_def mg_table_def mg_trees lookup_tree_def ft_key_def demo_hashes
        row_of_def file_row_def dir_row_def)
  moreover have "set (subtrees x) \<subseteq> set mg_objects" if "between (file_map mg_base) (file_map mg_both) x" for x
    using mg_between [OF that] by (auto simp: mg_objects_def mg_trees subtrees_def)
  ultimately show ?thesis
    unfolding mergeable_def doms mg_three_way using renames demo_digest by blast
qed

lemma mg_tree_at:
  assumes "x \<in> {mg_base, mg_left, mg_right}"
  shows "tree_at demo_env ''r'' mg_table (root_hash demo_env x) x"
proof -
  have "stored demo_env ''r'' mg_table x"
    using assms by (auto simp: mg_table_def mg_trees lookup_tree_def ft_key_def demo_hashes file_row_def dir_row_def)
  then have rep: "root_rep demo_env ''r'' mg_table (vt_of demo_env ''r'' mg_table ([], x)) x"
    using mg_ok [of x] assms by (intro root_repI) auto
  from root_rep_tree_at [OF rep demo_digest] show ?thesis unfolding root_rep_hash [OF rep] .
qed

lemma mg_session_simps [simp]:
  "wr_state mg_session = InBranch" "wr_branch mg_session = Some mg_main" "repo_id mg_session = ''r''"
  "wr_commit mg_session = Some (mg_commit ''2'' 3 [''0''] mg_right)"
  by (simp_all add: mg_session_def demo_on_main_eq repo_id_def demo_repo_def)

lemma mg_fields: "db_commits mg_db = mg_commits" "db_trees mg_db = mg_table" "db_branches mg_db = [mg_main]"
  "br_commit mg_main = ''2''" "br_id mg_main = ''b''"
  by (simp_all add: mg_db_def mg_main_def demo_main_def)

abbreviation mg_ancestor :: commit where "mg_ancestor \<equiv> mg_commit ''0'' 1 [] mg_base"
abbreviation mg_source :: commit where "mg_source \<equiv> mg_commit ''1'' 2 [''0''] mg_left"
abbreviation mg_target :: commit where "mg_target \<equiv> mg_commit ''2'' 3 [''0''] mg_right"

lemma mg_view: "view_ok ''r'' mg_db mg_session"
  by (simp add: view_ok_def mg_fields ref_ok_def is_stored_def node_ok_def mg_lookup)

lemma mg_best: "best_ancestors mg_store (common_ancestors mg_store mg_source mg_target) = {cm_hash mg_ancestor}"
  by (auto simp: best_ancestors_def common_ancestors_def ancestors_def mg_reach)

lemma mg_apart: "\<not> reaches mg_store mg_source mg_target" "\<not> reaches mg_store mg_target mg_source"
  by (simp_all add: reaches_def mg_reach)

lemma mg_new: "\<not> is_stored ''r'' mg_db
    (cm_hash (merge_commit (cenv_of demo_env id (\<lambda>_. False) mg_session) mg_source mg_target root m))"
  by (simp add: is_stored_def mg_fields mg_lookup merge_commit_def Let_def commit_GetHash_def md5_sum_def cenv_of_def
      demo_env_def)

lemma mg_get: "CommitRepo_Commit ''r'' mg_commits ''1'' = Inr mg_source" "CommitRepo_Commit ''r'' mg_commits ''2'' = Inr mg_target"
  "CommitRepo_Commit ''r'' mg_commits ''0'' = Inr mg_ancestor"
  by (simp_all add: mg_lookup)

lemma Merge_three_way_witness:
  "\<exists>c d' dm. Merge demo_env id (\<lambda>_. False) ''1'' ''merge'' None mg_session mg_db = Some (Inr c, d') \<and>
    cm_parents c = [''1'', ''2''] \<and> tree_at demo_env ''r'' (db_trees d') (cm_tree_hash c) dm \<and>
    file_map dm = [[''a''] \<mapsto> ''3'', [''b''] \<mapsto> ''2''] \<and> db_commits d' = mg_commits @ [c] \<and>
    db_branches d' = [mg_main\<lparr>br_commit := cm_hash c\<rparr>]"
proof -
  note trees = mg_tree_at [of mg_base] mg_tree_at [of mg_left] mg_tree_at [of mg_right]
  have free: "\<forall>x. dt_ok x \<longrightarrow> is_ddir x \<longrightarrow>
      file_map x = three_way (file_map mg_base) (file_map mg_left) (file_map mg_right) \<longrightarrow> \<not> is_stored ''r'' mg_db
        (cm_hash (merge_commit (cenv_of demo_env id (\<lambda>_. False) mg_session) mg_source mg_target (root_hash demo_env x) m))"
    for m using mg_new by blast
  obtain c d' dm where r: "Merge demo_env id (\<lambda>_. False) ''1'' ''merge'' None mg_session mg_db = Some (Inr c, d')"
    "cm_parents c = [cm_hash mg_source, cm_hash mg_target]"
    "tree_at demo_env ''r'' (db_trees d') (cm_tree_hash c) dm"
    "file_map dm = three_way (file_map mg_base) (file_map mg_left) (file_map mg_right)"
    "d' = mg_db\<lparr>db_trees := db_trees d', db_commits := db_commits mg_db @ [c],
      db_branches := map (\<lambda>b. if br_id b = br_id mg_main then b\<lparr>br_commit := cm_hash c\<rparr> else b) (db_branches mg_db)\<rparr>"
    using Merge_three_way [where res = None and msg = "''merge''", OF mg_db_ok mg_view mg_session_simps(1,2),
        unfolded mg_fields(1,2,4), OF mg_get(1) _ mg_get(2) _ _ mg_best mg_apart _ _ _ mg_mergeable free] trees mg_get(3)
    unfolding mg_fields(1) by auto
  have "db_commits d' = mg_commits @ [c]" "db_branches d' = [mg_main\<lparr>br_commit := cm_hash c\<rparr>]"
    by (subst r(5), simp add: mg_fields)+
  with r(1-3) r(4) [unfolded mg_three_way mg_files(4)] show ?thesis by auto
qed

lemma Merge_joins_histories_witness:
  "\<exists>c d'. Merge demo_env id (\<lambda>_. False) ''1'' ''merge'' None mg_session mg_db = Some (Inr c, d') \<and>
    mg_main\<lparr>br_commit := cm_hash c\<rparr> \<in> set (db_branches d') \<and>
    {''1'', ''2''} \<subseteq> ancestors (table_store id ''r'' (db_commits d')) (cm_hash c)"
proof -
  note trees = mg_tree_at [of mg_base] mg_tree_at [of mg_left] mg_tree_at [of mg_right]
  let ?C = "cenv_of demo_env id (\<lambda>_. False) mg_session"
  have C: "ce_env ?C = demo_env" "rp_id (ce_repo ?C) = ''r''" "ce_ctx ?C = (\<lambda>_. False)"
    by (simp_all add: cenv_of_def mg_session_simps(3) [unfolded repo_id_def])
  obtain c d1 where m: "merge_trees ?C mg_ancestor mg_source mg_target ''merge'' None mg_db = Some (Inr c, d1)"
    using merge_trees_three_way [where res = None and d = mg_db and msg = "''merge''" and a = mg_ancestor and
        s = mg_source and t = mg_target, unfolded mg_fields mg_commit_simps, OF _ _ _ mg_mergeable C] trees mg_new by auto
  have run: "Merge demo_env id (\<lambda>_. False) ''1'' ''merge'' None mg_session mg_db =
      Some (Inr c, move_branch (br_id mg_main) (cm_hash c) d1)"
    by (rule Merge_apart [OF mg_db_ok mg_view mg_session_simps(1,2), unfolded mg_fields(1,2,4), OF mg_get(1) _ mg_get(2)
        _ _ mg_best mg_apart m]) (simp_all add: mg_get)
  have "mg_main \<in> set (db_branches mg_db)" by (simp add: mg_fields)
  from Merge_joins_histories [OF mg_db_ok mg_view mg_session_simps(2) this refl refl run] run
  show ?thesis by (auto simp: mg_fields)
qed

end
