(* ===== verification/Session_Edits.thy ===== *)
theory Session_Edits
  imports Merge_Result
begin

section \<open>A session that edits its working copy\<close>

text \<open>
  The object controllers change a working copy with one \<open>ChangeInWip\<close> per edit, each in a
  transaction of its own. Here a whole session of such edits, failing ones among them, is related
  to the edits of abstract trees: the working copy always points to a stored well-formed tree.
\<close>

datatype edit = AddFile string blob | ReplaceFile string blob | RemovePath string

definition edit_fn :: "env \<Rightarrow> uuid \<Rightarrow> edit \<Rightarrow> change_fn" where
  "edit_fn E repo e =
     (case e of
        AddFile p b \<Rightarrow> AddLeaf E repo p b
      | ReplaceFile p b \<Rightarrow> ReplaceLeaf E repo p b
      | RemovePath p \<Rightarrow> RemoveEntry E repo p)"

fun run_edits :: "env \<Rightarrow> uuid \<Rightarrow> edit list \<Rightarrow> work_repo \<Rightarrow> db \<Rightarrow> unit result list \<times> work_repo \<times> db" where
  "run_edits E repo [] w d = ([], w, d)"
| "run_edits E repo (e # es) w d =
     (case ChangeInWip E (edit_fn E repo e) w d of
        (r, w1, d1) \<Rightarrow> (case run_edits E repo es w1 d1 of (rs, w2, d2) \<Rightarrow> (r # rs, w2, d2)))"

subsection \<open>The abstract edits\<close>

definition dt_edit :: "edit \<Rightarrow> dtree \<Rightarrow> dtree result" where
  "dt_edit e t =
     (case e of
        AddFile p b \<Rightarrow> dt_add (path_segs p) (bl_hash b) t
      | ReplaceFile p b \<Rightarrow> dt_replace (path_segs p) (bl_hash b) t
      | RemovePath p \<Rightarrow>
          (case dt_remove (path_segs p) t of
             Inl er \<Rightarrow> Inl er
           | Inr None \<Rightarrow> Inr (DDir [])
           | Inr (Some t') \<Rightarrow> Inr t'))"

definition after_edit :: "edit \<Rightarrow> dtree \<Rightarrow> dtree" where
  "after_edit e t = (case dt_edit e t of Inl _ \<Rightarrow> t | Inr t' \<Rightarrow> t')"

definition edit_result :: "edit \<Rightarrow> dtree \<Rightarrow> unit result" where
  "edit_result e t = (case dt_edit e t of Inl er \<Rightarrow> Inl er | Inr _ \<Rightarrow> Inr ())"

fun edit_results :: "edit list \<Rightarrow> dtree \<Rightarrow> unit result list" where
  "edit_results [] t = []"
| "edit_results (e # es) t = edit_result e t # edit_results es (after_edit e t)"

text \<open>The trees of the session, from the first to the last.\<close>

fun edit_trace :: "edit list \<Rightarrow> dtree \<Rightarrow> dtree list" where
  "edit_trace [] t = [t]"
| "edit_trace (e # es) t = t # edit_trace es (after_edit e t)"

definition edit_ok :: "uuid \<Rightarrow> edit \<Rightarrow> bool" where
  "edit_ok repo e =
     (case e of
        AddFile _ b \<Rightarrow> bl_repo b = repo \<and> bl_type b = BlobObject
      | ReplaceFile _ b \<Rightarrow> bl_repo b = repo \<and> bl_type b = BlobObject
      | RemovePath _ \<Rightarrow> True)"

lemma edit_fn_ok:
  assumes rep: "root_rep E repo (ws_objs w) (ws_root w) t" and dg: "digest_nonempty E" and ok: "edit_ok repo e"
    and t': "dt_edit e t = Inr t'" and cf: "collision_free E repo (ws_objs w) D" "set (subtrees t') \<subseteq> set D"
  shows "\<exists>w'. edit_fn E repo e w = (Inr (), w') \<and> root_rep E repo (ws_objs w') (ws_root w') t' \<and>
    grows E repo D (ws_objs w) (ws_objs w')"
proof -
  have sub: "collision_free E repo (ws_objs w) D'" if "set D' \<subseteq> set D" for D'
    using collision_free_sub [OF cf(1) grows_refl that] .
  show ?thesis
  proof (cases e)
    case (AddFile p b)
    with AddLeaf_refines [OF rep dg _ _ _ sub [OF cf(2)], of b p] ok t' obtain w' where
      "AddLeaf E repo p b w = (Inr (), w')" "root_rep E repo (ws_objs w') (ws_root w') t'"
      "grows E repo (subtrees t') (ws_objs w) (ws_objs w')" by (auto simp: edit_ok_def dt_edit_def)
    with AddFile grows_step [OF grows_refl _ cf(2)] show ?thesis by (auto simp: edit_fn_def)
  next
    case (ReplaceFile p b)
    with ReplaceLeaf_refines [OF rep dg _ _ _ sub [OF cf(2)], of b p] ok t' obtain w' where
      "ReplaceLeaf E repo p b w = (Inr (), w')" "root_rep E repo (ws_objs w') (ws_root w') t'"
      "grows E repo (subtrees t') (ws_objs w) (ws_objs w')" by (auto simp: edit_ok_def dt_edit_def)
    with ReplaceFile grows_step [OF grows_refl _ cf(2)] show ?thesis by (auto simp: edit_fn_def)
  next
    case (RemovePath p)
    with t' obtain r where r: "dt_remove (path_segs p) t = Inr r" "t' = (case r of None \<Rightarrow> DDir [] | Some x \<Rightarrow> x)"
      by (auto simp: dt_edit_def split: sum.splits option.splits)
    then have D: "set (opt_subtrees r) \<subseteq> set D" using cf(2) by (cases r) (simp_all add: opt_subtrees_def)
    from RemoveEntry_refines [OF rep dg r(1) sub [OF D]] obtain w' where
      "RemoveEntry E repo p w = (Inr (), w')" "root_rep E repo (ws_objs w') (ws_root w') t'"
      "grows E repo (opt_subtrees r) (ws_objs w) (ws_objs w')" unfolding r(2) by blast
    with RemovePath grows_step [OF grows_refl _ D] show ?thesis by (auto simp: edit_fn_def)
  qed
qed

lemma edit_fn_fails:
  assumes rep: "root_rep E repo (ws_objs w) (ws_root w) t" and ok: "edit_ok repo e" and er: "dt_edit e t = Inl er"
  shows "\<exists>w'. edit_fn E repo e w = (Inl er, w')"
proof (cases e)
  case (AddFile p b)
  with AddLeaf_fails [OF rep, of p b er] ok er show ?thesis by (auto simp: edit_ok_def dt_edit_def edit_fn_def)
next
  case (ReplaceFile p b)
  with ReplaceLeaf_fails [OF rep, of p b er] er show ?thesis by (simp add: dt_edit_def edit_fn_def)
next
  case (RemovePath p)
  with RemoveEntry_fails [OF rep, of p er] er show ?thesis
    by (auto simp: dt_edit_def edit_fn_def split: sum.splits option.splits)
qed

subsection \<open>The working copy\<close>

text \<open>
  The session is on a working copy, its cached row and its row in the table name the same tree,
  and that tree is stored and denotes \<open>t\<close>.
\<close>

definition session_at :: "env \<Rightarrow> uuid \<Rightarrow> work_repo \<Rightarrow> db \<Rightarrow> dtree \<Rightarrow> bool" where
  "session_at E repo w d t \<longleftrightarrow> wr_state w = InWip \<and> repo_id w = repo \<and> (\<exists>wip. wr_wip w = Some wip \<and>
     head_hash w = Some (wp_tree wip) \<and> tree_at E repo (db_trees d) (wp_tree wip) t \<and>
     (\<forall>r \<in> set (db_wips d). wp_id r = wp_id wip \<longrightarrow> wp_tree r = wp_tree wip))"

lemma ChangeInWip_step:
  assumes s: "session_at E repo w d t" and dg: "digest_nonempty E" and ok: "edit_ok repo e"
    and cf: "collision_free E repo st D" "grows E repo D st (db_trees d)" "set (subtrees (after_edit e t)) \<subseteq> set D"
  shows "\<exists>w' d'. ChangeInWip E (edit_fn E repo e) w d = (edit_result e t, w', d') \<and>
    session_at E repo w' d' (after_edit e t) \<and> grows E repo D st (db_trees d') \<and>
    (\<forall>er. edit_result e t = Inl er \<longrightarrow> w' = w \<and> d' = d)"
proof -
  obtain wip :: wip where wip: "wr_wip w = Some wip" "head_hash w = Some (wp_tree wip)"
    "tree_at E repo (db_trees d) (wp_tree wip) t"
    "\<forall>r \<in> set (db_wips d). wp_id r = wp_id wip \<longrightarrow> wp_tree r = wp_tree wip"
    and w: "wr_state w = InWip" "repo_id w = repo" using s by (auto simp: session_at_def)
  obtain tr where tr: "open_tree repo (wp_tree wip) (db_trees d) = Inr tr" "ws_objs tr = db_trees d"
    "root_rep E repo (ws_objs tr) (ws_root tr) t" using open_tree_at [OF wip(3)] by auto
  have root: "rootTree w d = (Inr tr, w)" using wip(2) w(2) tr(1) by (simp add: rootTree_def)
  show ?thesis
  proof (cases "dt_edit e t")
    case (Inl er)
    then obtain tr' where "edit_fn E repo e tr = (Inl er, tr')" using edit_fn_fails [OF tr(3) ok] by blast
    then have "ChangeInWip E (edit_fn E repo e) w d = (Inl er, w, d)"
      using w(1) root by (simp add: ChangeInWip_def changeInWip_def)
    with s cf(2) Inl show ?thesis by (simp add: edit_result_def after_edit_def)
  next
    case (Inr t')
    have D: "set (subtrees t') \<subseteq> set D" using cf(3) Inr by (simp add: after_edit_def)
    have "collision_free E repo (ws_objs tr) D" unfolding tr(2) by (rule collision_free_sub [OF cf(1,2) order_refl])
    then obtain tr' where tr': "edit_fn E repo e tr = (Inr (), tr')" "root_rep E repo (ws_objs tr') (ws_root tr') t'"
      "grows E repo D (db_trees d) (ws_objs tr')"
      using edit_fn_ok [OF tr(3) dg ok Inr _ D] unfolding tr(2) by blast
    let ?h = "vt_Hash (ws_root tr')"
    let ?w = "set_wip_tree ?h w"
    let ?d = "WipRepo_UpdateByID ((NewUpdateWipParams E (wp_id wip))\<lparr>uw_tree := Some ?h\<rparr>) (d\<lparr>db_trees := ws_objs tr'\<rparr>)"
    have "ChangeInWip E (edit_fn E repo e) w d = (Inr (), ?w, ?d)"
      using w(1) root tr'(1) wip(1) by (simp add: ChangeInWip_def changeInWip_def Let_def)
    moreover have "session_at E repo ?w ?d t'"
      using w wip(1) root_rep_tree_at [OF tr'(2) dg]
      by (auto simp: session_at_def set_wip_tree_def head_hash_def repo_id_def WipRepo_UpdateByID_def
          tbl_update_def wip_set_def set_opt_def NewUpdateWipParams_def)
    moreover have "grows E repo D st (db_trees ?d)"
      using grows_step [OF cf(2) tr'(3) order_refl] by (simp add: WipRepo_UpdateByID_def)
    ultimately show ?thesis using Inr by (simp add: edit_result_def after_edit_def)
  qed
qed

lemma run_edits_step:
  assumes dg: "digest_nonempty E" and cf: "collision_free E repo st D"
  shows "session_at E repo w d t \<Longrightarrow> \<forall>e \<in> set es. edit_ok repo e \<Longrightarrow> grows E repo D st (db_trees d) \<Longrightarrow>
    \<forall>x \<in> set (edit_trace es t). set (subtrees x) \<subseteq> set D \<Longrightarrow>
    \<exists>w' d'. run_edits E repo es w d = (edit_results es t, w', d') \<and> session_at E repo w' d' (last (edit_trace es t)) \<and>
      grows E repo D st (db_trees d')"
proof (induction es arbitrary: w d t)
  case (Cons e es)
  have tr: "edit_trace es (after_edit e t) \<noteq> []" "after_edit e t \<in> set (edit_trace es (after_edit e t))"
    by (cases es; simp)+
  then have "set (subtrees (after_edit e t)) \<subseteq> set D" using Cons.prems(4) by simp
  with ChangeInWip_step [OF Cons.prems(1) dg _ cf Cons.prems(3), of e] Cons.prems(2) obtain w1 d1
    where 1: "ChangeInWip E (edit_fn E repo e) w d = (edit_result e t, w1, d1)"
    "session_at E repo w1 d1 (after_edit e t)" "grows E repo D st (db_trees d1)" by auto
  from Cons.IH [OF 1(2) _ 1(3)] Cons.prems(2,4) obtain w' d'
    where "run_edits E repo es w1 d1 = (edit_results es (after_edit e t), w', d')"
    "session_at E repo w' d' (last (edit_trace es (after_edit e t)))" "grows E repo D st (db_trees d')" by auto
  with 1(1) tr show ?case by simp
qed simp

text \<open>
  C24: Every edit of a session has the result of the abstract edit, and after any sequence of
  edits, failing ones included, the working copy and its row name a tree that is stored,
  well-formed and denotes the result of the successful edits; no stored object is lost. (No two
  trees of the session share a hash.)
\<close>

theorem session_edits_typed:
  assumes "session_at E repo w d t" "digest_nonempty E" "\<forall>e \<in> set es. edit_ok repo e"
    "collision_free E repo (db_trees d) D" "\<forall>x \<in> set (edit_trace es t). set (subtrees x) \<subseteq> set D"
  shows "\<exists>w' d'. run_edits E repo es w d = (edit_results es t, w', d') \<and>
    session_at E repo w' d' (last (edit_trace es t)) \<and> trees.extends (db_trees d) (db_trees d')"
  using run_edits_step [OF assms(2,4,1,3) grows_refl assms(5)] grows_extends by blast

definition demo_copy :: wip where
  "demo_copy = \<lparr>wp_id = ''w'', wp_tree = root_hash demo_env demo_tree, wp_base = [], wp_repo = ''r'', wp_ref = ''b'',
     wp_state = Init, wp_creator = ''u'', wp_created = 0, wp_updated = 0\<rparr>"

definition demo_session :: work_repo where
  "demo_session = (NewWorkRepositoryFromAdapter demo_user demo_repo)
     \<lparr>wr_state := InWip, wr_head := Some HeadOfWip, wr_wip := Some demo_copy\<rparr>"

definition demo_edits :: "edit list" where
  "demo_edits = [AddFile '' d/e/z'' demo_blob, AddFile ''a/z'' demo_blob]"

definition demo_grown :: dtree where
  "demo_grown = DDir [(''a'', DFile ''1''), (''d'', DDir [(''e'', DDir [(''z'', DFile ''9'')]), (''x'', DFile ''2'')])]"

lemma demo_edits_run: "edit_results demo_edits demo_tree = [Inr (), Inl ErrBlobMustBeLeaf]"
  "edit_trace demo_edits demo_tree = [demo_tree, demo_grown, demo_grown]"
  by (simp_all add: demo_edits_def edit_result_def after_edit_def dt_edit_def demo_segs demo_tree_def put_kid_def demo_grown_def)

lemma session_edits_typed_witness:
  "\<exists>w' d'. run_edits demo_env ''r'' demo_edits demo_session (demo_db\<lparr>db_wips := [demo_copy], db_trees := demo_table\<rparr>) =
     ([Inr (), Inl ErrBlobMustBeLeaf], w', d') \<and> session_at demo_env ''r'' w' d' demo_grown"
proof -
  let ?d = "demo_db\<lparr>db_wips := [demo_copy], db_trees := demo_table\<rparr>"
  have "tree_at demo_env ''r'' demo_table (root_hash demo_env demo_tree) demo_tree"
    using root_rep_tree_at [OF demo_work_rep demo_digest] root_rep_hash [OF demo_work_rep] by (simp add: demo_work_def)
  then have s: "session_at demo_env ''r'' demo_session ?d demo_tree"
    by (simp add: session_at_def demo_session_def demo_copy_def head_hash_def repo_id_def NewWorkRepositoryFromAdapter_def demo_rows)
  have ok: "\<forall>e \<in> set demo_edits. edit_ok ''r'' e" by (simp add: demo_edits_def edit_ok_def)
  have cf: "collision_free demo_env ''r'' (db_trees ?d) (subtrees demo_tree @ subtrees demo_grown)"
    by (simp add: collision_free_def subtrees_def demo_table_def demo_tree_def demo_tree'_def demo_grown_def
        demo_renamed_def demo_renamed'_def lookup_tree_def ft_key_def demo_hashes row_of_def file_row_def dir_row_def)
  have D: "\<forall>x \<in> set (edit_trace demo_edits demo_tree). set (subtrees x) \<subseteq> set (subtrees demo_tree @ subtrees demo_grown)"
    by (simp add: demo_edits_run)
  have "last (edit_trace demo_edits demo_tree) = demo_grown" by (simp add: demo_edits_run)
  with session_edits_typed [OF s demo_digest ok cf D] show ?thesis unfolding demo_edits_run(1) by auto
qed


subsection \<open>A session on a branch can commit\<close>

definition own_wip :: "work_repo \<Rightarrow> branch \<Rightarrow> wip \<Rightarrow> bool" where
  "own_wip w b x \<longleftrightarrow> wp_creator x = us_id (wr_operator w) \<and> wp_repo x = repo_id w \<and> wp_ref x = br_id b"

lemma DeleteWip_eq:
  assumes "wr_state w = InBranch" "wr_branch w = Some b" "br_id b \<noteq> uuid_Nil" "repo_id w \<noteq> uuid_Nil"
    "us_id (wr_operator w) \<noteq> uuid_Nil"
  shows "\<exists>r. DeleteWip w d = (r, d\<lparr>db_wips := filter (\<lambda>x. \<not> own_wip w b x) (db_wips d)\<rparr>)"
  using assms by (auto simp: DeleteWip_def WipRepo_Delete_def q_delete_def tbl_delete_def NewGetWipParams_def
      where_id_def own_wip_def holds_def intro!: filter_cong)

lemma GetOrCreateWip_new:
  assumes "wr_state w = InBranch" "wr_branch w = Some b" "br_id b \<noteq> uuid_Nil" "repo_id w \<noteq> uuid_Nil"
    "us_id (wr_operator w) \<noteq> uuid_Nil" "\<forall>x \<in> set (db_wips d). \<not> own_wip w b x"
    "commit_of w d (br_commit b) = Inr base" "db_uuids d (db_issued d) \<notin> wp_id ` set (db_wips d)"
  shows "\<exists>wip w1 d1. GetOrCreateWip E w d = (Inr (wip, True), w1, d1) \<and> wr_state w1 = InWip \<and>
    wr_wip w1 = Some wip \<and> wr_branch w1 = Some b \<and> wp_base wip = br_commit b \<and> wp_tree wip = treeHashFromCommit base \<and>
    wp_creator wip = us_id (wr_operator w) \<and> wr_operator w1 = wr_operator w \<and> wr_model w1 = wr_model w \<and>
    wp_updated wip = env_now E \<and> db_users d1 = db_users d \<and> db_commits d1 = db_commits d \<and>
    db_branches d1 = db_branches d"
proof -
  have none: "WipRepo_Get (NewGetWipParams\<lparr>gw_ref := br_id b, gw_creator := us_id (wr_operator w), gw_repo := repo_id w\<rparr>) d =
      Inl ErrNotFound"
    using assms(3-6) by (auto simp: WipRepo_Get_def NewGetWipParams_def where_id_def q_select_one_def tbl_get_Inl_iff
        holds_def own_wip_def)
  have "(us_id (wr_operator w), repo_id w, br_id b) \<notin> wip_unique ` set (db_wips d)"
    using assms(6) by (auto simp: wip_unique_def own_wip_def)
  then show ?thesis
    using assms(1,2,7,8) none by (simp add: GetOrCreateWip_def WipRepo_Insert_def row_id_def tbl_insert2_def
        wip_unique_def setCurState_def)
qed

text \<open>
  C25: A session is not stuck: in every reachable state a session on a branch can give up its
  working copy of the branch, whether it has one or not and however stale that is, take a new one
  and commit it on top of the branch head it has cached. What this takes: the operator is a user
  of the database, the branch and the operator have ids, the id drawn for the new working copy is
  not in use, and no stored commit has the hash of the commit to be made, which is the one with
  the tree of the cached head, the user as its author and the message given. That commit is
  then stored, and the rows of the branch point to it.
\<close>

theorem fresh_wip_commits:
  assumes "fresh_repo encode rid d0" "reachable encode rid d0 ws d" "w \<in> set ws"
    "wr_state w = InBranch" "wr_branch w = Some b" "br_id b \<noteq> uuid_Nil" "us_id (wr_operator w) \<noteq> uuid_Nil"
    "UserRepo_Get (NewGetUserParams\<lparr>gu_id := us_id (wr_operator w)\<rparr>) d = Inr u"
    "db_uuids d (db_issued d) \<notin> wp_id ` set (db_wips d)"
    "commit_of w d (br_commit b) = Inr base"
    "c = change_commit E w (br_commit b) \<lparr>sig_name = us_name u, sig_email = us_email u, sig_when = env_now E\<rparr>
      (treeHashFromCommit base) msg"
    "\<not> is_stored rid d (cm_hash c)"
  shows "\<exists>r d1 wip w1 d2 w2 d3. DeleteWip w d = (r, d1) \<and> GetOrCreateWip E w d1 = (Inr (wip, True), w1, d2) \<and>
    CommitChanges E msg w1 d2 = (Inr c, w2, d3) \<and> cm_parents c = (if br_commit b = [] then [] else [br_commit b]) \<and>
    wr_branch w2 = Some (b\<lparr>br_commit := cm_hash c\<rparr>) \<and> db_commits d3 = db_commits d @ [c] \<and>
    db_branches d3 = map (\<lambda>x. if br_id x = br_id b then x\<lparr>br_commit := cm_hash c\<rparr> else x) (db_branches d)"
proof -
  have ok: "db_ok encode rid d" and view: "view_ok rid d w" using reachable_ok [OF assms(2,1)] assms(3) by simp_all
  have id: "repo_id w = rid" "rid \<noteq> uuid_Nil" using view ok by (simp_all add: view_ok_def db_ok_def)
  let ?d1 = "d\<lparr>db_wips := filter (\<lambda>x. \<not> own_wip w b x) (db_wips d)\<rparr>"
  obtain r where del: "DeleteWip w d = (r, ?d1)" using DeleteWip_eq [OF assms(4-6) _ assms(7)] id by metis
  have "commit_of w ?d1 (br_commit b) = Inr base"
    using assms(10) by (auto simp: commit_of_def get_commit_def split: if_splits sum.splits)
  then obtain wip w1 d2 where get: "GetOrCreateWip E w ?d1 = (Inr (wip, True), w1, d2)"
    and w1: "wr_state w1 = InWip" "wr_wip w1 = Some wip" "wr_branch w1 = Some b" "wp_base wip = br_commit b"
      "wp_creator wip = us_id (wr_operator w)" "wr_operator w1 = wr_operator w" "wr_model w1 = wr_model w"
      "wp_tree wip = treeHashFromCommit base" "wp_updated wip = env_now E"
    and d2: "db_users d2 = db_users d" "db_commits d2 = db_commits d" "db_branches d2 = db_branches d"
    using GetOrCreateWip_new [OF assms(4-6) _ assms(7), of ?d1 base E] id assms(9) by auto
  let ?author = "\<lparr>sig_name = us_name u, sig_email = us_email u, sig_when = env_now E\<rparr>"
  have author: "wip_author wip d2 = Inr ?author"
    using assms(8) d2(1) by (simp add: wip_author_def w1(5,9) UserRepo_Get_def)
  have c: "change_commit E w1 (br_commit b) ?author (wp_tree wip) msg = c"
    using w1(6-8) by (simp add: assms(11) change_commit_def repo_id_def)
  have "\<not> is_stored rid d2 (cm_hash c)" using assms(12) d2(2) by (simp add: is_stored_def)
  moreover have id1: "repo_id w1 = rid" using id(1) w1(7) by (simp add: repo_id_def)
  ultimately have ins: "CommitRepo_Insert rid c (db_commits d2) = (Inr c, db_commits d2 @ [c])"
    by (intro insert_new_commit) (simp_all add: assms(11) id(1))
  have "commitChangeRoot E w1 b ?author (wp_tree wip) msg d2 =
      (Inr c, move_branch (br_id b) (cm_hash c) (d2\<lparr>db_commits := db_commits d2 @ [c]\<rparr>))"
    unfolding commitChangeRoot_eq c using ins by (simp add: id1 Let_def)
  then obtain w2 d3 where "CommitChanges E msg w1 d2 = (Inr c, w2, d3)" "wr_branch w2 = Some (b\<lparr>br_commit := cm_hash c\<rparr>)"
    "db_commits d3 = db_commits d @ [c]"
    "db_branches d3 = map (\<lambda>x. if br_id x = br_id b then x\<lparr>br_commit := cm_hash c\<rparr> else x) (db_branches d)"
    using w1 author by (simp add: CommitChanges_def Transaction_def set_base_def WipRepo_UpdateByID_def move_branch_def
        tbl_update_def d2)
  moreover have "cm_parents c = (if br_commit b = [] then [] else [br_commit b])" by (simp add: assms(11))
  ultimately show ?thesis using del get by blast
qed

lemma fresh_wip_commits_witness:
  "\<exists>wip w1 d2 c w2 d3. GetOrCreateWip demo_env demo_on_main (snd (DeleteWip demo_on_main demo_after)) = (Inr (wip, True), w1, d2) \<and>
     CommitChanges demo_env ''third'' w1 d2 = (Inr c, w2, d3) \<and> cm_parents c = [] \<and> db_commits d3 = [demo_first, c]"
proof -
  obtain w where r: "reachable id ''r'' demo_db [w, demo_on_main, demo_stale] demo_after" using demo_reachable by blast
  have m: "wr_state demo_on_main = InBranch" "wr_branch demo_on_main = Some demo_main" "wr_operator demo_on_main = demo_user"
    by (simp_all add: demo_on_main_eq)
  have ids: "br_id demo_main \<noteq> uuid_Nil" "us_id (wr_operator demo_on_main) \<noteq> uuid_Nil" "br_commit demo_main = []"
    by (auto simp: m demo_main_def demo_user_def uuid_Nil_def dest: arg_cong [of _ _ length])
  have user: "UserRepo_Get (NewGetUserParams\<lparr>gu_id := us_id (wr_operator demo_on_main)\<rparr>) demo_after = Inr demo_user"
    by (simp add: m(3) UserRepo_Get_def NewGetUserParams_def query_defs demo_after_def demo_rows)
  have fresh: "db_uuids demo_after (db_issued demo_after) \<notin> wp_id ` set (db_wips demo_after)"
    by (simp add: demo_after_def demo_db_def demo_wip_def)
  have base: "commit_of demo_on_main demo_after (br_commit demo_main) = Inr None"
    by (simp add: ids commit_of_def IsEmpty_def)
  let ?c = "change_commit demo_env demo_on_main (br_commit demo_main)
    \<lparr>sig_name = us_name demo_user, sig_email = us_email demo_user, sig_when = env_now demo_env\<rparr> (treeHashFromCommit None) ''third''"
  have "cm_hash ?c \<noteq> cm_hash demo_first"
    by (simp add: demo_first_def change_commit_def Let_def commit_GetHash_def md5_sum_def demo_env_def ids
        treeHashFromCommit_def demo_in_wip_eq operator_signature_def m demo_user_def write_signature_def
        WriteString_def hasher_Write_def WritInt64_def WriteInt8_def NewHasher_def add_hash_type_def
        IsEmpty_def)
  then have new: "\<not> is_stored ''r'' demo_after (cm_hash ?c)" by (simp add: is_stored_def demo_after_stored)
  have "demo_on_main \<in> set [w, demo_on_main, demo_stale]" by simp
  from fresh_wip_commits [OF demo_fresh r this m(1,2) ids(1,2) user fresh base refl new] ids(3)
  show ?thesis by (fastforce simp: demo_after_def)
qed

end
