(* ===== verification/Url_Values.thy ===== *)
theory Url_Values
  imports Prelude "HOL-Library.AList"
begin

section \<open>Query strings: what the package net/url does\<close>

text \<open>
  \<open>url.Values\<close> is a Go map from names to lists of values. Nothing in the sources depends on its
  order, so it is an association list without repeated names; \<open>vals\<close> are the values of a name.
  The theorem of this theory is that parsing an encoded query gives its values back; the lemmas on
  escaped text are shared with the signatures of requests.
\<close>

subsection \<open>Escaping\<close>

definition unreserved :: "char \<Rightarrow> bool" where
  "unreserved c \<longleftrightarrow>
     (CHR ''a'' \<le> c \<and> c \<le> CHR ''z'') \<or> (CHR ''A'' \<le> c \<and> c \<le> CHR ''Z'') \<or> (CHR ''0'' \<le> c \<and> c \<le> CHR ''9'') \<or>
     c \<in> set ''-_.~''"

definition upper_hex :: "nat \<Rightarrow> char" where
  "upper_hex n = char_of (if n < 10 then 48 + n else 55 + n)"

definition unhex :: "char \<Rightarrow> nat option" where
  "unhex c =
     (let n = of_char c :: nat in
      if 48 \<le> n \<and> n \<le> 57 then Some (n - 48)
      else if 97 \<le> n \<and> n \<le> 102 then Some (n - 87)
      else if 65 \<le> n \<and> n \<le> 70 then Some (n - 55)
      else None)"

definition escape_char :: "char \<Rightarrow> string" where
  "escape_char c =
     (if unreserved c then [c] else if c = CHR '' '' then ''+''
      else [CHR ''%'', upper_hex (of_char c div 16), upper_hex (of_char c mod 16)])"

definition QueryEscape :: "string \<Rightarrow> string" where
  "QueryEscape s = concat (map escape_char s)"

fun QueryUnescape :: "string \<Rightarrow> string option" where
  "QueryUnescape [] = Some []"
| "QueryUnescape (c # s) =
     (if c = CHR ''%'' then
        (case s of
           a # b # t \<Rightarrow>
             (case (unhex a, unhex b, QueryUnescape t) of
                (Some x, Some y, Some r) \<Rightarrow> Some (char_of (16 * x + y) # r)
              | _ \<Rightarrow> None)
         | _ \<Rightarrow> None)
      else map_option (Cons (if c = CHR ''+'' then CHR '' '' else c)) (QueryUnescape s))"

lemma unhex_upper [simp]: "n < 16 \<Longrightarrow> unhex (upper_hex n) = Some n"
  by (auto simp: unhex_def upper_hex_def of_char_of)

lemma unreserved_upper: "n < 16 \<Longrightarrow> unreserved (upper_hex n)"
  by (auto simp: unreserved_def upper_hex_def less_eq_char_def of_char_of)

lemma unreserved_not [simp]:
  "\<not> unreserved CHR ''%''" "\<not> unreserved CHR ''+''" "\<not> unreserved CHR ''&''" "\<not> unreserved CHR ''=''"
  "\<not> unreserved CHR '';''" "\<not> unreserved (CHR 0x0A)"
  by (simp_all add: unreserved_def less_eq_char_def)

lemma char_high_nibble [simp]: "of_char c div 16 < (16::nat)"
  using nat_of_char_less_256 [of c] by (simp add: less_mult_imp_div_less)

text \<open>Text in which every byte is escaped on its own is read back from the left.\<close>

lemma QueryUnescape_step:
  assumes "w = escape_char c \<or> c = CHR '' '' \<and> w = ''%20''"
  shows "QueryUnescape (w @ s) = map_option (Cons c) (QueryUnescape s)"
proof -
  have c: "char_of (16 * (of_char c div 16) + of_char c mod 16 :: nat) = c"
    by (simp add: char_of_char)
  have "QueryUnescape (escape_char c @ s) = map_option (Cons c) (QueryUnescape s)"
    using c by (cases "c = CHR ''+'' \<or> c = CHR ''%''")
      (auto simp: escape_char_def char_of_def bit_0 split: option.splits)
  moreover have "QueryUnescape (''%20'' @ s) = map_option (Cons (CHR '' '')) (QueryUnescape s)"
    by (auto simp: unhex_def char_of_def bit_0 split: option.splits)
  ultimately show ?thesis using assms by auto
qed

lemma QueryUnescape_Escape [simp]: "QueryUnescape (QueryEscape s) = Some s"
  by (induction s) (simp_all add: QueryEscape_def QueryUnescape_step [OF disjI1 [OF refl]])

definition escaped :: "char \<Rightarrow> bool" where
  "escaped c \<longleftrightarrow> unreserved c \<or> c = CHR ''%'' \<or> c = CHR ''+''"

lemma QueryEscape_escaped: "c \<in> set (QueryEscape s) \<Longrightarrow> escaped c"
proof -
  have "escaped c" if "c \<in> set (escape_char x)" for x
    using that by (auto simp: escaped_def escape_char_def intro!: unreserved_upper split: if_splits)
  then show "c \<in> set (QueryEscape s) \<Longrightarrow> escaped c" by (auto simp: QueryEscape_def)
qed

lemma not_escaped [simp]:
  "\<not> escaped CHR ''&''" "\<not> escaped CHR ''=''" "\<not> escaped CHR '';''" "\<not> escaped (CHR 0x0A)"
  by (simp_all add: escaped_def)

lemma QueryEscape_no [simp]: "\<not> escaped c \<Longrightarrow> c \<notin> set (QueryEscape s)"
  using QueryEscape_escaped by blast

subsection \<open>Values\<close>

type_synonym url_values = "(string \<times> string list) list"

definition vals :: "url_values \<Rightarrow> string \<Rightarrow> string list" where
  "vals q k = (case map_of q k of None \<Rightarrow> [] | Some vs \<Rightarrow> vs)"

definition values_Get :: "url_values \<Rightarrow> string \<Rightarrow> string" where
  "values_Get q k = (case vals q k of [] \<Rightarrow> [] | v # _ \<Rightarrow> v)"

definition values_Set :: "string \<Rightarrow> string \<Rightarrow> url_values \<Rightarrow> url_values" where
  "values_Set k v q = AList.update k [v] q"

definition values_Del :: "string \<Rightarrow> url_values \<Rightarrow> url_values" where
  "values_Del k q = AList.delete k q"

definition values_Add :: "string \<Rightarrow> string \<Rightarrow> url_values \<Rightarrow> url_values" where
  "values_Add k v q = AList.update k (vals q k @ [v]) q"

definition sorted_keys :: "url_values \<Rightarrow> string list" where
  "sorted_keys q = sort (map fst q)"

definition encode_pair :: "string \<times> string \<Rightarrow> string" where
  "encode_pair p = QueryEscape (fst p) @ ''='' @ QueryEscape (snd p)"

definition values_pairs :: "url_values \<Rightarrow> (string \<times> string) list" where
  "values_pairs q = concat (map (\<lambda>k. map (Pair k) (vals q k)) (sorted_keys q))"

definition values_Encode :: "url_values \<Rightarrow> string" where
  "values_Encode q = join_with ''&'' (map encode_pair (values_pairs q))"

text \<open>\<open>strings.Cut\<close> at one byte.\<close>

definition str_Cut :: "char \<Rightarrow> string \<Rightarrow> string \<times> string" where
  "str_Cut c s = (takeWhile (\<lambda>x. x \<noteq> c) s, drop 1 (dropWhile (\<lambda>x. x \<noteq> c) s))"

text \<open>A setting that cannot be read is left out; \<open>URL.Query\<close> ignores the error.\<close>

definition parse_setting :: "string \<Rightarrow> url_values \<Rightarrow> url_values" where
  "parse_setting s m =
     (if CHR '';'' \<in> set s \<or> s = [] then m
      else (case str_Cut (CHR ''='') s of (k, v) \<Rightarrow>
        (case (QueryUnescape k, QueryUnescape v) of
           (Some k', Some v') \<Rightarrow> values_Add k' v' m
         | _ \<Rightarrow> m)))"

definition ParseQuery :: "string \<Rightarrow> url_values" where
  "ParseQuery query = fold parse_setting (split_on (CHR ''&'') query) []"

subsection \<open>Reading values\<close>

definition wf_values :: "url_values \<Rightarrow> bool" where
  "wf_values q \<longleftrightarrow> distinct (map fst q) \<and> (\<forall>kv \<in> set q. snd kv \<noteq> [])"

lemma vals_Set [simp]: "vals (values_Set k v q) = (vals q)(k := [v])"
  by (auto simp: vals_def values_Set_def update_conv' fun_eq_iff)

lemma vals_Del [simp]: "vals (values_Del k q) = (vals q)(k := [])"
  by (auto simp: vals_def values_Del_def delete_conv' fun_eq_iff)

lemma vals_Add [simp]: "vals (values_Add k v q) = (vals q)(k := vals q k @ [v])"
  by (auto simp: vals_def values_Add_def update_conv' fun_eq_iff)

lemma vals_Nil [simp]: "vals [] k = []"
  by (simp add: vals_def)

lemma wf_values_alt: "wf_values q \<longleftrightarrow> distinct (map fst q) \<and> (\<forall>k. map_of q k \<noteq> Some [])"
  by (force simp: wf_values_def dest: map_of_SomeD)

lemma wf_update: "wf_values q \<Longrightarrow> vs \<noteq> [] \<Longrightarrow> wf_values (AList.update k vs q)"
  by (auto simp: wf_values_alt distinct_update update_conv')

lemma wf_values_Set: "wf_values q \<Longrightarrow> wf_values (values_Set k v q)"
  by (simp add: values_Set_def wf_update)

lemma wf_values_Add: "wf_values q \<Longrightarrow> wf_values (values_Add k v q)"
  by (simp add: values_Add_def wf_update)

lemma wf_values_Del: "wf_values q \<Longrightarrow> wf_values (values_Del k q)"
  by (auto simp: wf_values_alt values_Del_def distinct_delete delete_conv')

lemma wf_keys: "wf_values q \<Longrightarrow> set (map fst q) = {k. vals q k \<noteq> []}"
  by (auto simp: wf_values_alt vals_def dom_map_of_conv_image_fst [symmetric] split: option.splits)


text \<open>The values of an association list are determined by \<open>vals\<close> up to the order of the names.\<close>

lemma sorted_keys_eq:
  assumes "wf_values q" "wf_values q'" "vals q = vals q'"
  shows "sorted_keys q = sorted_keys q'"
proof -
  have "set (map fst q) = set (map fst q')" using assms by (simp only: wf_keys)
  then have "sorted_list_of_set (set (map fst q)) = sorted_list_of_set (set (map fst q'))" by simp
  moreover have "sort (map fst q) = sorted_list_of_set (set (map fst q))" if "distinct (map fst q)" for q :: url_values
    using that by (simp only: sorted_list_of_set_sort_remdups distinct_remdups_id)
  ultimately show ?thesis using assms by (simp add: sorted_keys_def wf_values_alt)
qed

subsection \<open>Parsing an encoded query\<close>

lemma wf_parse_setting: "wf_values m \<Longrightarrow> wf_values (parse_setting s m)"
  by (auto simp: parse_setting_def wf_values_Add split: option.splits prod.splits)

lemma wf_ParseQuery: "wf_values (ParseQuery query)"
proof -
  have "wf_values (fold parse_setting ss m)" if "wf_values m" for ss m
    using that by (induction ss arbitrary: m) (auto simp: wf_parse_setting)
  from this [of "[]"] show ?thesis by (simp add: ParseQuery_def) (simp add: wf_values_def)
qed

lemma parse_setting_pair [simp]: "parse_setting (encode_pair (k, v)) m = values_Add k v m"
proof -
  have "str_Cut (CHR ''='') (QueryEscape k @ CHR ''='' # QueryEscape v) = (QueryEscape k, QueryEscape v)"
    using QueryEscape_no [of "CHR ''=''" k] by (simp add: str_Cut_def takeWhile_append dropWhile_append)
  then show ?thesis by (auto simp: parse_setting_def encode_pair_def)
qed

lemma vals_fold_pairs:
  "vals (fold parse_setting (map encode_pair ps) m) k = vals m k @ map snd (filter (\<lambda>p. fst p = k) ps)"
  by (induction ps arbitrary: m) auto

lemma encode_pair_no_amp [simp]: "CHR ''&'' \<notin> set (encode_pair p)"
  by (simp add: encode_pair_def)

lemma ParseQuery_pairs:
  "ParseQuery (join_with ''&'' (map encode_pair ps)) = fold parse_setting (map encode_pair ps) []"
proof (cases "ps = []")
  case True
  then show ?thesis by (simp add: ParseQuery_def parse_setting_def)
next
  case False
  then show ?thesis by (simp add: ParseQuery_def split_join_on)
qed

lemma pairs_of_name:
  "distinct ks \<Longrightarrow>
    map snd (filter (\<lambda>p. fst p = k) (concat (map (\<lambda>k. map (Pair k) (f k)) ks))) = (if k \<in> set ks then f k else [])"
  by (induction ks) (auto simp: filter_map o_def filter_empty_conv)

lemma vals_not_key: "k \<notin> set (map fst q) \<Longrightarrow> vals q k = []"
  by (auto simp: vals_def map_of_eq_None_iff [THEN iffD2])

lemma ParseQuery_Encode: "wf_values q \<Longrightarrow> vals (ParseQuery (values_Encode q)) = vals q"
  by (rule ext)
    (auto simp: values_Encode_def ParseQuery_pairs vals_fold_pairs values_pairs_def pairs_of_name wf_values_alt
      sorted_keys_def vals_not_key)

text \<open>One more setting at the end of a query adds one value.\<close>

lemma ParseQuery_append:
  "ParseQuery (query @ CHR ''&'' # encode_pair (k, v)) = values_Add k v (ParseQuery query)"
proof -
  have "split_on (CHR ''&'') (s @ CHR ''&'' # t) = split_on (CHR ''&'') s @ split_on (CHR ''&'') t" for s t
    by (induction s) (auto split: list.splits)
  then show ?thesis by (simp add: ParseQuery_def split_on_id)
qed

end
