(* ===== verification/Signed_Requests.thy ===== *)
theory Signed_Requests
  imports Url_Values
begin

section \<open>Signed requests: auth/aksk\<close>

text \<open>
  \<open>V0Signer.Sign\<close> puts an access key, a time stamp and a signature into the query of a request,
  \<open>V0Verier.Verify\<close> checks them. Parameters are the base64 text \<open>mac\<close> of HMAC-SHA256 and the
  package time with the layout of the time stamp: \<open>fmt_time\<close> writes a time in UTC, \<open>parse_time\<close>
  reads it back. The client writes its host into the URL, the server reads it from the header.
\<close>

record request =
  rq_Method :: string
  rq_URL_Host :: string
  rq_Host :: string
  rq_Path :: string
  rq_RawQuery :: string
  rq_Header :: "string \<rightharpoonup> string"

record aksk_env =
  ak_mac :: "bytes \<Rightarrow> bytes \<Rightarrow> string"
  ak_fmt_time :: "time \<Rightarrow> string"
  ak_parse_time :: "string \<Rightarrow> time option"

definition AccessKeykey :: string where "AccessKeykey = ''JiaozifsAccessKeyId''"
definition SignatureVersionKey :: string where "SignatureVersionKey = ''SignatureVersion''"
definition SignatureMethodKey :: string where "SignatureMethodKey = ''SignatureMethod''"
definition TimestampKey :: string where "TimestampKey = ''Timestamp''"
definition SignatureKey :: string where "SignatureKey = ''Signature''"
definition signatureVersion :: string where "signatureVersion = ''0''"
definition signatureMethod :: string where "signatureMethod = ''HmacSHA256''"

lemmas aksk_keys = AccessKeykey_def SignatureVersionKey_def SignatureMethodKey_def TimestampKey_def
  SignatureKey_def signatureVersion_def signatureMethod_def

text \<open>\<open>GenerateAksk\<close>: two random texts of 16 bytes each, in hexadecimal.\<close>

definition GenerateAksk :: "(bytes \<Rightarrow> string) \<Rightarrow> bytes \<Rightarrow> bytes \<Rightarrow> string \<times> string" where
  "GenerateAksk encode akBytes skBytes = (encode akBytes, encode skBytes)"

text \<open>Escaping with \<open>%20\<close> for a space, and the text that both functions sign.\<close>

definition escape20 :: "string \<Rightarrow> string" where
  "escape20 s = concat (map (\<lambda>c. if c = CHR ''+'' then ''%20'' else [c]) (QueryEscape s))"

definition canonical_query :: "url_values \<Rightarrow> string" where
  "canonical_query query =
     join_with ''&'' (map (\<lambda>key. escape20 key @ ''='' @ escape20 (values_Get query key)) (sorted_keys query))"

definition stringToSign :: "string \<Rightarrow> string \<Rightarrow> string \<Rightarrow> url_values \<Rightarrow> string" where
  "stringToSign method host path query =
     join_with [CHR 0x0A] [method, host, if path = [] then ''/'' else path, canonical_query query]"

definition signed_query :: "aksk_env \<Rightarrow> string \<Rightarrow> time \<Rightarrow> request \<Rightarrow> url_values" where
  "signed_query A accessKey curTime req =
     values_Set TimestampKey (ak_fmt_time A curTime)
       (values_Set SignatureMethodKey signatureMethod
         (values_Set SignatureVersionKey signatureVersion
           (values_Set AccessKeykey accessKey (ParseQuery (rq_RawQuery req)))))"

definition Sign :: "aksk_env \<Rightarrow> string \<Rightarrow> string \<Rightarrow> time \<Rightarrow> request \<Rightarrow> request" where
  "Sign A accessKey secretKey curTime req =
     (let query = signed_query A accessKey curTime req;
          signature = ak_mac A secretKey (stringToSign (rq_Method req) (rq_URL_Host req) (rq_Path req) query)
      in req\<lparr>rq_Header := (rq_Header req)(''Signature'' := None),
             rq_RawQuery := values_Encode (values_Set SignatureKey signature query)\<rparr>)"

definition IsAkskCredential :: "request \<Rightarrow> bool" where
  "IsAkskCredential req \<longleftrightarrow> length (values_Get (ParseQuery (rq_RawQuery req)) AccessKeykey) > 0"

definition minute :: time where "minute = 60000000000"

definition Verify :: "aksk_env \<Rightarrow> (string \<Rightarrow> string result) \<Rightarrow> time \<Rightarrow> request \<Rightarrow> string result" where
  "Verify A skGetter now req =
     (let query = ParseQuery (rq_RawQuery req); accessKey = values_Get query AccessKeykey in
      if length accessKey = 0 then Inl (ErrMsg ''ak not found'')
      else
        (case skGetter accessKey of
           Inl _ \<Rightarrow> Inl (ErrMsg ''access key not correct'')
         | Inr secretKey \<Rightarrow>
             (let sigMethod = values_Get query SignatureMethodKey; sigVersion = values_Get query SignatureVersionKey;
                  reqTime = values_Get query TimestampKey in
              if sigMethod \<noteq> signatureMethod then Inl (ErrMsg (''invalid signature method '' @ sigMethod))
              else if sigVersion \<noteq> signatureVersion then Inl (ErrMsg (''invalid signature method '' @ sigMethod))
              else
                (case ak_parse_time A reqTime of
                   None \<Rightarrow> Inl (ErrMsg (''invalid timestamp '' @ reqTime))
                 | Some t \<Rightarrow>
                     if t < now - 5 * minute then Inl (ErrMsg ''request is out of data'')
                     else
                       (let expectSignature = values_Get query SignatureKey;
                            actualSig = ak_mac A secretKey
                              (stringToSign (rq_Method req) (rq_Host req) (rq_Path req) (values_Del SignatureKey query))
                        in if actualSig \<noteq> expectSignature then Inl (ErrMsg ''signature not correct'')
                           else Inr accessKey)))))"

subsection \<open>What is signed\<close>

text \<open>The signed text depends on the sorted names and the first value of each.\<close>

lemma canonical_query_cong:
  "sorted_keys q = sorted_keys q' \<Longrightarrow> (\<And>k. values_Get q k = values_Get q' k) \<Longrightarrow> canonical_query q = canonical_query q'"
  by (simp add: canonical_query_def)

lemma values_Get_cong: "vals q k = vals q' k \<Longrightarrow> values_Get q k = values_Get q' k"
  by (simp add: values_Get_def)

lemma canonical_query_wf:
  "wf_values q \<Longrightarrow> wf_values q' \<Longrightarrow> vals q = vals q' \<Longrightarrow> canonical_query q = canonical_query q'"
  by (rule canonical_query_cong) (auto intro: sorted_keys_eq values_Get_cong)

lemma QueryUnescape_escape20: "QueryUnescape (escape20 s) = Some s"
proof (induction s)
  case (Cons c s)
  have "map (\<lambda>x. if x = CHR ''+'' then ''%20'' else [x]) (escape_char c) =
      (if c = CHR '' '' then [''%20''] else map (\<lambda>x. [x]) (escape_char c))"
  proof -
    have "upper_hex (of_char c div 16) \<noteq> CHR ''+''" "upper_hex (of_char c mod 16) \<noteq> CHR ''+''"
      using unreserved_upper [of "of_char c div 16"] unreserved_upper [of "of_char c mod 16"] unreserved_not(2)
      by force+
    moreover have "c \<noteq> CHR ''+''" if "unreserved c" using that unreserved_not(2) by blast
    moreover have "\<not> unreserved (CHR '' '')" by (simp add: unreserved_def less_eq_char_def)
    ultimately show ?thesis by (simp add: escape_char_def)
  qed
  moreover have "concat (map (\<lambda>x. [x]) w) = w" for w :: string by (induction w) auto
  ultimately have "escape20 (c # s) = (if c = CHR '' '' then ''%20'' else escape_char c) @ escape20 s"
    by (simp add: escape20_def QueryEscape_def)
  then have "QueryUnescape (escape20 (c # s)) = map_option (Cons c) (QueryUnescape (escape20 s))"
    by (simp only:) (rule QueryUnescape_step, simp)
  with Cons show ?case by simp
qed (simp add: escape20_def QueryEscape_def)

lemma escape20_eq [simp]: "escape20 s = escape20 t \<longleftrightarrow> s = t"
  using QueryUnescape_escape20 by (metis option.inject)

lemma escape20_no [simp]:
  "CHR ''&'' \<notin> set (escape20 s)" "CHR ''='' \<notin> set (escape20 s)" "CHR 0x0A \<notin> set (escape20 s)"
  by (auto simp: escape20_def split: if_splits)


text \<open>Text before a separator that it does not contain is determined, and so is text after it.\<close>

lemma cut_first: "c \<notin> set a \<Longrightarrow> c \<notin> set b \<Longrightarrow> a @ c # s = b @ c # t \<longleftrightarrow> a = b \<and> s = t"
  by (induction a arbitrary: b) (case_tac b, auto)+

lemma cut_last:
  assumes "c \<notin> set s" "c \<notin> set t"
  shows "a @ c # s = b @ c # t \<longleftrightarrow> a = b \<and> s = t"
proof -
  have "rev (a @ c # s) = rev (b @ c # t) \<longleftrightarrow> rev s = rev t \<and> rev a = rev b"
    using cut_first [of c "rev s" "rev t" "rev a" "rev b"] assms by simp
  then show ?thesis by (metis rev_is_rev_conv)
qed

lemma canonical_query_newline [simp]: "CHR 0x0A \<notin> set (canonical_query q)"
proof -
  have "CHR 0x0A \<notin> set (join_with ''&'' ss)" if "\<forall>s \<in> set ss. CHR 0x0A \<notin> set s" for ss
    using that by (induction "''&''" ss rule: join_with.induct) auto
  then show ?thesis by (auto simp: canonical_query_def)
qed

lemma canonical_query_inj:
  assumes "canonical_query q = canonical_query q'"
  shows "map (\<lambda>k. (k, values_Get q k)) (sorted_keys q) = map (\<lambda>k. (k, values_Get q' k)) (sorted_keys q')"
proof -
  let ?w = "\<lambda>(k, v). escape20 k @ ''='' @ escape20 v"
  let ?ps = "\<lambda>q. map (\<lambda>k. (k, values_Get q k)) (sorted_keys q)"
  have split: "split_on (CHR ''&'') (join_with ''&'' (map ?w ps)) = (if ps = [] then [[]] else map ?w ps)" for ps
    by (cases "ps = []") (auto simp: split_join_on)
  have "join_with ''&'' (map ?w (?ps q)) = join_with ''&'' (map ?w (?ps q'))"
    using assms by (simp add: canonical_query_def o_def)
  then have "(if ?ps q = [] then [[]] else map ?w (?ps q)) = (if ?ps q' = [] then [[]] else map ?w (?ps q'))"
    using split [of "?ps q"] split [of "?ps q'"] by (simp only:)
  moreover have "?w p \<noteq> []" for p by (cases p) simp
  moreover have "map w ps = map w ps'" if "\<And>p. w p \<noteq> []"
    "(if ps = [] then [[]] else map w ps) = (if ps' = [] then [[]] else map w ps')"
    for w :: "string \<times> string \<Rightarrow> string" and ps ps'
    using that by (cases ps; cases ps') (auto dest: sym)
  ultimately have "map ?w (?ps q) = map ?w (?ps q')" by blast
  moreover have "inj ?w"
    by (rule injI) (auto simp: cut_first)
  ultimately show ?thesis by (simp only: inj_map_eq_map)
qed

lemma stringToSign_inj:
  assumes "stringToSign m h p q = stringToSign m' h' p' q'"
    "CHR 0x0A \<notin> set m" "CHR 0x0A \<notin> set m'" "CHR 0x0A \<notin> set h" "CHR 0x0A \<notin> set h'"
  shows "m = m'" "h = h'" "(if p = [] then ''/'' else p) = (if p' = [] then ''/'' else p')"
    "canonical_query q = canonical_query q'"
  using assms by (auto simp: stringToSign_def cut_first cut_last split: if_splits)


subsection \<open>Signing and verifying\<close>

lemma wf_signed_query: "wf_values (signed_query A accessKey curTime req)"
  by (simp add: signed_query_def wf_values_Set wf_ParseQuery)

lemma vals_signed_query:
  "vals (signed_query A accessKey curTime req) =
     (vals (ParseQuery (rq_RawQuery req)))(AccessKeykey := [accessKey], SignatureVersionKey := [signatureVersion],
       SignatureMethodKey := [signatureMethod], TimestampKey := [ak_fmt_time A curTime])"
  by (simp add: signed_query_def)

text \<open> C27: A request signed with an access key and its secret key is accepted as coming from that
  access key, when it has no parameter \<open>Signature\<close> beforehand and arrives within five minutes of
  the time in its stamp.\<close>

theorem sign_then_verify:
  assumes key: "skGetter accessKey = Inr secretKey" "accessKey \<noteq> []"
    and fresh: "vals (ParseQuery (rq_RawQuery req)) SignatureKey = []"
    and stamp: "ak_parse_time A (ak_fmt_time A signed) = Some t" "now - 5 * minute \<le> t"
  shows "Verify A skGetter now ((Sign A accessKey secretKey signed req)\<lparr>rq_Host := rq_URL_Host req\<rparr>) = Inr accessKey"
proof -
  let ?q = "signed_query A accessKey signed req"
  let ?sig = "ak_mac A secretKey (stringToSign (rq_Method req) (rq_URL_Host req) (rq_Path req) ?q)"
  let ?r = "(Sign A accessKey secretKey signed req)\<lparr>rq_Host := rq_URL_Host req\<rparr>"
  let ?p = "ParseQuery (rq_RawQuery (Sign A accessKey secretKey signed req))"
  have vals: "vals ?p = (vals ?q)(SignatureKey := [?sig])"
    by (simp add: Sign_def Let_def ParseQuery_Encode wf_values_Set wf_signed_query)
  have "vals (values_Del SignatureKey ?p) = vals ?q"
    using fresh by (auto simp: vals vals_signed_query aksk_keys fun_eq_iff)
  then have "canonical_query (values_Del SignatureKey ?p) = canonical_query ?q"
    by (intro canonical_query_wf wf_values_Del wf_ParseQuery wf_signed_query)
  then have "stringToSign (rq_Method ?r) (rq_Host ?r) (rq_Path ?r) (values_Del SignatureKey ?p) =
      stringToSign (rq_Method req) (rq_URL_Host req) (rq_Path req) ?q"
    by (simp add: stringToSign_def Sign_def Let_def)
  moreover have "values_Get ?p AccessKeykey = accessKey" "values_Get ?p SignatureMethodKey = signatureMethod"
    "values_Get ?p SignatureVersionKey = signatureVersion" "values_Get ?p TimestampKey = ak_fmt_time A signed"
    "values_Get ?p SignatureKey = ?sig"
    by (simp_all add: values_Get_def vals vals_signed_query) (simp_all add: aksk_keys)
  ultimately show ?thesis
    using key stamp by (simp add: Verify_def Let_def)
qed

definition aksk_env_sample :: aksk_env where
  "aksk_env_sample =
     \<lparr>ak_mac = (\<lambda>key text. key @ text), ak_fmt_time = (\<lambda>t. [char_of (nat (t div 1000000000))]),
      ak_parse_time = (\<lambda>s. Some (int (of_char (hd s)) * 1000000000))\<rparr>"

definition request_sample :: "string \<Rightarrow> request" where
  "request_sample query =
     \<lparr>rq_Method = ''GET'', rq_URL_Host = ''h'', rq_Host = ''h'', rq_Path = [], rq_RawQuery = query, rq_Header = Map.empty\<rparr>"

theorem sign_then_verify_witness:
  "Verify aksk_env_sample (\<lambda>_. Inr ''sk'') 100000000000
     ((Sign aksk_env_sample ''ak'' ''sk'' 90500000000 (request_sample ''a=1''))\<lparr>rq_Host := ''h''\<rparr>) = Inr ''ak''"
  using sign_then_verify [of "\<lambda>_. Inr ''sk''" "''ak''" "''sk''" "request_sample ''a=1''" aksk_env_sample
      90500000000 90000000000 100000000000]
  by (simp add: aksk_env_sample_def request_sample_def minute_def aksk_keys ParseQuery_def parse_setting_def
      str_Cut_def values_Add_def vals_def of_char_of)

text \<open>What \<open>Verify\<close> has checked when it accepts.\<close>

lemma Verify_InrE:
  assumes "Verify A skGetter now req = Inr accessKey"
  obtains secretKey t where "skGetter accessKey = Inr secretKey" "accessKey \<noteq> []"
    "accessKey = values_Get (ParseQuery (rq_RawQuery req)) AccessKeykey"
    "ak_parse_time A (values_Get (ParseQuery (rq_RawQuery req)) TimestampKey) = Some t" "now - 5 * minute \<le> t"
    "values_Get (ParseQuery (rq_RawQuery req)) SignatureKey = ak_mac A secretKey
       (stringToSign (rq_Method req) (rq_Host req) (rq_Path req) (values_Del SignatureKey (ParseQuery (rq_RawQuery req))))"
  using assms by (auto simp: Verify_def Let_def split: if_splits sum.splits option.splits)

definition same_signed :: "request \<Rightarrow> request \<Rightarrow> bool" where
  "same_signed r r' \<longleftrightarrow>
     rq_Method r = rq_Method r' \<and> rq_Host r = rq_Host r' \<and>
     (if rq_Path r = [] then ''/'' else rq_Path r) = (if rq_Path r' = [] then ''/'' else rq_Path r') \<and>
     (let q = values_Del SignatureKey (ParseQuery (rq_RawQuery r));
          q' = values_Del SignatureKey (ParseQuery (rq_RawQuery r'))
      in map (\<lambda>k. (k, values_Get q k)) (sorted_keys q) = map (\<lambda>k. (k, values_Get q' k)) (sorted_keys q'))"

text \<open>The text whose HMAC is the signature of a request.\<close>

definition signed_text :: "request \<Rightarrow> bytes" where
  "signed_text r = stringToSign (rq_Method r) (rq_Host r) (rq_Path r)
     (values_Del SignatureKey (ParseQuery (rq_RawQuery r)))"

lemma signed_text_inj:
  assumes "signed_text r = signed_text r'" "CHR 0x0A \<notin> set (rq_Method r @ rq_Host r @ rq_Method r' @ rq_Host r')"
  shows "same_signed r r'"
proof -
  have "CHR 0x0A \<notin> set (rq_Method r)" "CHR 0x0A \<notin> set (rq_Method r')"
    "CHR 0x0A \<notin> set (rq_Host r)" "CHR 0x0A \<notin> set (rq_Host r')"
    using assms(2) by simp_all
  note parts = stringToSign_inj [OF assms(1) [unfolded signed_text_def] this]
  show ?thesis
    unfolding same_signed_def Let_def using parts(1-3) canonical_query_inj [OF parts(4)] by blast
qed

text \<open> C39: The signature of an accepted request is the HMAC of its text under the secret of the access
  key. So when two requests are accepted for one access key with the same signature, the HMAC of their
  two texts is the same; and if the HMAC does not take these two texts to one value, the requests
  agree in the method, the host, the path and the names and first values of all parameters.\<close>

theorem accepted_signature_binds:
  assumes "Verify A skGetter now r = Inr accessKey" "Verify A skGetter now' r' = Inr accessKey"
    and "skGetter accessKey = Inr secretKey"
    and "values_Get (ParseQuery (rq_RawQuery r)) SignatureKey = values_Get (ParseQuery (rq_RawQuery r')) SignatureKey"
    and "CHR 0x0A \<notin> set (rq_Method r @ rq_Host r @ rq_Method r' @ rq_Host r')"
  shows "values_Get (ParseQuery (rq_RawQuery r)) SignatureKey = ak_mac A secretKey (signed_text r) \<and>
    ak_mac A secretKey (signed_text r) = ak_mac A secretKey (signed_text r') \<and>
    (inj_on (ak_mac A secretKey) {signed_text r, signed_text r'} \<longrightarrow> same_signed r r')"
proof -
  have mac: "values_Get (ParseQuery (rq_RawQuery x)) SignatureKey = ak_mac A secretKey (signed_text x)"
    if "Verify A skGetter n x = Inr accessKey" for n x
    using assms(3) by (rule_tac Verify_InrE [OF that]) (simp add: signed_text_def)
  have same: "ak_mac A secretKey (signed_text r) = ak_mac A secretKey (signed_text r')"
    using mac [OF assms(1)] mac [OF assms(2)] assms(4) by simp
  moreover have "same_signed r r'" if "inj_on (ak_mac A secretKey) {signed_text r, signed_text r'}"
    using inj_onD [OF that same] signed_text_inj [OF _ assms(5)] by simp
  ultimately show ?thesis using mac [OF assms(1)] by blast
qed

text \<open>A MAC of a fixed length: sixteen bytes.\<close>

definition short_mac :: "bytes \<Rightarrow> bytes \<Rightarrow> string" where
  "short_mac key text = take 16 (rev (key @ text) @ replicate 16 (CHR 0x00))"

definition short_env :: aksk_env where
  "short_env = aksk_env_sample\<lparr>ak_mac := short_mac\<rparr>"

theorem accepted_signature_binds_witness:
  "let r = (Sign short_env ''ak'' ''sk'' 90500000000 (request_sample ''a=1''))\<lparr>rq_Host := ''h''\<rparr>
   in ak_mac short_env ''sk'' (signed_text r) = ak_mac short_env ''sk'' (signed_text (r\<lparr>rq_Path := ''/''\<rparr>)) \<and>
     same_signed r (r\<lparr>rq_Path := ''/''\<rparr>)"
proof -
  let ?r = "(Sign short_env ''ak'' ''sk'' 90500000000 (request_sample ''a=1''))\<lparr>rq_Host := ''h''\<rparr>"
  let ?get = "\<lambda>_ :: string. Inr ''sk'' :: string result"
  have ok: "Verify short_env ?get 100000000000 ?r = Inr ''ak''" by code_simp
  have ok': "Verify short_env ?get 100000000000 (?r\<lparr>rq_Path := ''/''\<rparr>) = Inr ''ak''" by code_simp
  have "signed_text ?r = signed_text (?r\<lparr>rq_Path := ''/''\<rparr>)"
    by (simp add: signed_text_def stringToSign_def Sign_def Let_def request_sample_def)
  then have "inj_on (ak_mac short_env ''sk'') {signed_text ?r, signed_text (?r\<lparr>rq_Path := ''/''\<rparr>)}" by simp
  moreover have "CHR 0x0A \<notin> set (rq_Method ?r @ rq_Host ?r @ rq_Method (?r\<lparr>rq_Path := ''/''\<rparr>) @ rq_Host (?r\<lparr>rq_Path := ''/''\<rparr>))"
    by (simp add: Sign_def Let_def request_sample_def)
  ultimately show ?thesis
    using accepted_signature_binds [OF ok ok' refl] by (simp add: Let_def)
qed

lemma Verify_cong:
  assumes "rq_Method r = rq_Method r'" "rq_Host r = rq_Host r'" "rq_Path r = rq_Path r'"
    "values_Get (ParseQuery (rq_RawQuery r)) = values_Get (ParseQuery (rq_RawQuery r'))"
    "canonical_query (values_Del SignatureKey (ParseQuery (rq_RawQuery r))) =
      canonical_query (values_Del SignatureKey (ParseQuery (rq_RawQuery r')))"
  shows "Verify A skGetter now r = Verify A skGetter now r'"
  unfolding Verify_def Let_def stringToSign_def assms ..

text \<open> C40: Only the first value of a parameter is signed. Whoever sees an accepted request can add
  further values of its parameters, and it is still accepted.\<close>

theorem second_value_unsigned:
  assumes "vals (ParseQuery (rq_RawQuery req)) k \<noteq> []"
  shows "Verify A skGetter now (req\<lparr>rq_RawQuery := rq_RawQuery req @ ''&'' @ encode_pair (k, v)\<rparr>) =
    Verify A skGetter now req"
proof -
  let ?q = "ParseQuery (rq_RawQuery req)"
  let ?q' = "values_Add k v ?q"
  have get: "values_Get ?q' x = values_Get ?q x" for x
    using assms by (cases "vals ?q k") (auto simp: values_Get_def)
  have get': "values_Get (values_Del SignatureKey ?q') x = values_Get (values_Del SignatureKey ?q) x" for x
    using get [of x] by (simp add: values_Get_def)
  have "k \<in> fst ` set ?q" using assms vals_not_key by force
  then have "map fst ?q' = map fst ?q"
    by (simp add: values_Add_def update_keys)
  then have "map fst (values_Del SignatureKey ?q') = map fst (values_Del SignatureKey ?q)"
    by (simp add: values_Del_def delete_keys)
  then have "canonical_query (values_Del SignatureKey ?q') = canonical_query (values_Del SignatureKey ?q)"
    by (intro canonical_query_cong get') (simp add: sorted_keys_def)
  moreover have "values_Get ?q' = values_Get ?q" using get by (rule ext)
  moreover have "?q' = ParseQuery (rq_RawQuery req @ ''&'' @ encode_pair (k, v))"
    by (simp add: ParseQuery_append)
  ultimately show ?thesis by (intro Verify_cong) simp_all
qed

theorem second_value_unsigned_witness:
  "Verify aksk_env_sample (\<lambda>_. Inr ''sk'') 100000000000 (request_sample (''a=1'' @ ''&'' @ encode_pair (''a'', ''2''))) =
    Verify aksk_env_sample (\<lambda>_. Inr ''sk'') 100000000000 (request_sample ''a=1'')"
  using second_value_unsigned [of "request_sample ''a=1''" "''a''" aksk_env_sample "\<lambda>_. Inr ''sk''" 100000000000 "''2''"]
  by (simp add: request_sample_def ParseQuery_def parse_setting_def str_Cut_def values_Add_def vals_def)

text \<open>\<open>Sign\<close> signs an old parameter \<open>Signature\<close> too, so a request signed twice is refused.\<close>

lemma signed_twice_refused:
  "Verify aksk_env_sample (\<lambda>_. Inr ''sk'') 100000000000
     (Sign aksk_env_sample ''ak'' ''sk'' 90500000000
       (Sign aksk_env_sample ''ak'' ''sk'' 90500000000 (request_sample ''a=1''))) = Inl (ErrMsg ''signature not correct'')"
  by code_simp

end
