(* ===== verification/Authentication.thy ===== *)
theory Authentication
  imports Repo_Controllers Signed_Requests
begin

section \<open>Who asks: auth/auth_middleware.go, auth/aksk.go\<close>

text \<open>
  The middleware before every handler finds the user of a request by the security requirements of
  its route: a token in the header, a name with a password, a token in the session cookie, or a
  signed request. The route, the decoding of the basic authentication header and the session come
  from packages and are the fields \<open>au_...\<close>. The theorems of this theory say that a user is found
  only with credentials of that user, and that the token of a login is such a credential.
\<close>

record auth_env =
  au_jwt :: jwt_env
  au_aksk :: aksk_env
  au_compare :: "string \<Rightarrow> string \<Rightarrow> bool"
  au_secret :: bytes
  au_BasicAuth :: "string \<Rightarrow> (string \<times> string) option"
  au_session_token :: "request \<Rightarrow> string"

definition ErrAuthenticatingRequest :: error where
  "ErrAuthenticatingRequest = ErrMsg ''error authenticating request''"

definition SkGetter_Get :: "aksk list \<Rightarrow> string \<Rightarrow> string result" where
  "SkGetter_Get t ak =
     (case AkskRepo_Get \<lparr>gk_user = uuid_Nil, gk_id = uuid_Nil, gk_access_key = Some ak\<rparr> t of
        Inl e \<Rightarrow> Inl e
      | Inr aksk \<Rightarrow> Inr (aks_secret_key aksk))"

text \<open>Of the wrapped error of an invalid token the model keeps the cause and drops the text around it.\<close>

definition userByToken :: "auth_env \<Rightarrow> time \<Rightarrow> string \<Rightarrow> db \<Rightarrow> user result" where
  "userByToken A now tokenString d =
     (case VerifyToken (au_jwt A) (au_secret A) now tokenString of
        Inl _ \<Rightarrow> Inl ErrAuthenticatingRequest
      | Inr claims \<Rightarrow>
          (case jw_Validate (au_jwt A) LoginAudience now claims of
             Inl _ \<Rightarrow> Inl ErrAuthenticatingRequest
           | Inr _ \<Rightarrow>
               (case UserRepo_Get (NewGetUserParams\<lparr>gu_name := Some (cl_sub claims)\<rparr>) d of
                  Inl _ \<Rightarrow> Inl ErrAuthenticatingRequest
                | Inr userData \<Rightarrow> Inr userData)))"

definition userByAuth :: "auth_env \<Rightarrow> string \<Rightarrow> string \<Rightarrow> db \<Rightarrow> user result" where
  "userByAuth A accessKey secretKey d =
     (case AuthenticateUser (au_compare A) accessKey secretKey d of
        Inl _ \<Rightarrow> Inl ErrAuthenticatingRequest
      | Inr user \<Rightarrow> Inr user)"

definition userByAKSK :: "auth_env \<Rightarrow> time \<Rightarrow> request \<Rightarrow> 's server \<Rightarrow> user result" where
  "userByAKSK A now r s =
     (case Verify (au_aksk A) (SkGetter_Get (sv_aksks s)) now r of
        Inl e \<Rightarrow> Inl e
      | Inr ak \<Rightarrow>
          (case AkskRepo_Get \<lparr>gk_user = uuid_Nil, gk_id = uuid_Nil, gk_access_key = Some ak\<rparr> (sv_aksks s) of
             Inl e \<Rightarrow> Inl e
           | Inr akModel \<Rightarrow> UserRepo_Get (NewGetUserParams\<lparr>gu_id := aks_user akModel\<rparr>) (ad_db (sv_data s))))"

text \<open>\<open>strings.Fields\<close>, and \<open>strings.EqualFold\<close> with a word of letters that fold within ASCII.\<close>

definition space_at :: "string \<Rightarrow> string option" where
  "space_at s = find (\<lambda>p. p \<noteq> [] \<and> has_prefix s p) space_seqs"

fun fields_from :: "nat \<Rightarrow> string \<Rightarrow> string \<Rightarrow> string list" where
  "fields_from skip word [] = (if word = [] then [] else [word])"
| "fields_from (Suc skip) word (c # s) = fields_from skip word s"
| "fields_from 0 word (c # s) =
     (case space_at (c # s) of
        None \<Rightarrow> fields_from 0 (word @ [c]) s
      | Some p \<Rightarrow> (if word = [] then [] else [word]) @ fields_from (length p - 1) [] s)"

definition strings_Fields :: "string \<Rightarrow> string list" where
  "strings_Fields s = fields_from 0 [] s"

definition ascii_lower :: "char \<Rightarrow> char" where
  "ascii_lower c = (if CHR ''A'' \<le> c \<and> c \<le> CHR ''Z'' then char_of (of_char c + 32 :: nat) else c)"

definition bearer_token :: "string \<Rightarrow> string option" where
  "bearer_token authHeaderValue =
     (if authHeaderValue = [] then None
      else (case strings_Fields authHeaderValue of
              [scheme, token] \<Rightarrow> if map ascii_lower scheme = ''bearer'' then Some token else None
            | _ \<Rightarrow> None))"

definition header_Get :: "request \<Rightarrow> string \<Rightarrow> string" where
  "header_Get r k = (case rq_Header r k of None \<Rightarrow> [] | Some v \<Rightarrow> v)"

text \<open>One requirement: no credentials of its kind (\<open>None\<close>), or the user or error of the check.\<close>

definition check_requirement ::
  "auth_env \<Rightarrow> time \<Rightarrow> request \<Rightarrow> 's server \<Rightarrow> string list \<Rightarrow> user result option" where
  "check_requirement A now r s securityKeys =
     (let d = ad_db (sv_data s) in
      if ''jwt_token'' \<in> set securityKeys then
        (case bearer_token (header_Get r ''Authorization'') of
           None \<Rightarrow> None
         | Some token \<Rightarrow> Some (userByToken A now token d))
      else if ''basic_auth'' \<in> set securityKeys then
        (case au_BasicAuth A (header_Get r ''Authorization'') of
           None \<Rightarrow> None
         | Some (userName, password) \<Rightarrow> Some (userByAuth A userName password d))
      else if ''cookie_auth'' \<in> set securityKeys then
        (if au_session_token A r = [] then None
         else Some (userByToken A now (au_session_token A r) d))
      else if AccessKeykey \<in> set securityKeys then
        (if \<not> IsAkskCredential r then None else Some (userByAKSK A now r s))
      else Some (Inl ErrAuthenticatingRequest))"

fun checkSecurityRequirements ::
  "auth_env \<Rightarrow> time \<Rightarrow> request \<Rightarrow> 's server \<Rightarrow> string list list \<Rightarrow> user option result"
where
  "checkSecurityRequirements A now r s [] = Inr None"
| "checkSecurityRequirements A now r s (securityKeys # reqs) =
     (case check_requirement A now r s securityKeys of
        None \<Rightarrow> checkSecurityRequirements A now r s reqs
      | Some (Inl e) \<Rightarrow> Inl e
      | Some (Inr user) \<Rightarrow> Inr (Some user))"

text \<open>\<open>requirements\<close> are those of the route, or the error of finding it.\<close>

definition Middleware ::
  "auth_env \<Rightarrow> string list list result \<Rightarrow> request \<Rightarrow> ('s call \<Rightarrow> ('s, unit) act) \<Rightarrow> 's call \<Rightarrow> ('s, unit) act" where
  "Middleware A requirements r handler C =
     (if ca_operator C \<noteq> None then handler C
      else
        (case requirements of
           Inl e \<Rightarrow> finish (400, ErrorText e)
         | Inr reqs \<Rightarrow>
             then_do (ask (\<lambda>s. checkSecurityRequirements A (env_now (ca_env C)) r s reqs)) (\<lambda>res.
             (case res of
                Inl e \<Rightarrow> finish (401, ErrorText e)
              | Inr None \<Rightarrow> handler C
              | Inr (Some user) \<Rightarrow> handler (C\<lparr>ca_operator := Some user\<rparr>)))))"

subsection \<open>Credentials\<close>

text \<open>What proves that a request comes from a user.\<close>

definition token_of_user :: "auth_env \<Rightarrow> time \<Rightarrow> user \<Rightarrow> string \<Rightarrow> bool" where
  "token_of_user A now u token \<longleftrightarrow>
     (case VerifyToken (au_jwt A) (au_secret A) now token of
        Inl _ \<Rightarrow> False
      | Inr c \<Rightarrow> cl_sub c = us_name u \<and> jw_Validate (au_jwt A) LoginAudience now c = Inr ())"

definition signed_by_user :: "auth_env \<Rightarrow> time \<Rightarrow> 's server \<Rightarrow> user \<Rightarrow> request \<Rightarrow> bool" where
  "signed_by_user A now s u r \<longleftrightarrow>
     list_ex (\<lambda>a. aks_user a = us_id u \<and>
       Verify (au_aksk A) (SkGetter_Get (sv_aksks s)) now r = Inr (aks_access_key a)) (sv_aksks s)"

definition has_credentials :: "auth_env \<Rightarrow> time \<Rightarrow> 's server \<Rightarrow> user \<Rightarrow> request \<Rightarrow> bool" where
  "has_credentials A now s u r \<longleftrightarrow>
     (case bearer_token (header_Get r ''Authorization'') of None \<Rightarrow> False | Some t \<Rightarrow> token_of_user A now u t) \<or>
     token_of_user A now u (au_session_token A r) \<or>
     (case au_BasicAuth A (header_Get r ''Authorization'') of
        None \<Rightarrow> False
      | Some (nm, password) \<Rightarrow> nm = us_name u \<and> au_compare A (us_encrypted_password u) password) \<or>
     signed_by_user A now s u r"


lemma UserRepo_Get_name:
  assumes "UserRepo_Get (NewGetUserParams\<lparr>gu_name := Some nm\<rparr>) d = Inr u"
  shows "u \<in> set (db_users d)" "us_name u = nm"
  using tbl_get_InrD [OF assms [unfolded UserRepo_Get_def q_select_one_def]]
  by (auto simp: NewGetUserParams_def where_id_def where_opt_def holds_def)

lemma UserRepo_Get_id:
  assumes "UserRepo_Get (NewGetUserParams\<lparr>gu_id := i\<rparr>) d = Inr u" "i \<noteq> uuid_Nil"
  shows "u \<in> set (db_users d)" "us_id u = i"
  using tbl_get_InrD [OF assms(1) [unfolded UserRepo_Get_def q_select_one_def]] assms(2)
  by (auto simp: NewGetUserParams_def where_id_def where_opt_def holds_def)

lemma AuthenticateUser_Inr:
  assumes "AuthenticateUser compare nm password d = Inr u"
  shows "u \<in> set (db_users d)" "us_name u = nm" "compare (us_encrypted_password u) password"
proof -
  obtain v where v: "q_select_one [\<lambda>u. us_name u = nm] (db_users d) = Inr v" "compare (us_encrypted_password v) password"
      "UserRepo_Get (NewGetUserParams\<lparr>gu_name := Some nm\<rparr>) d = Inr u"
    using assms by (auto simp: AuthenticateUser_def GetEPByName_def split: sum.splits if_splits)
  moreover from v(1,3) have "v = u"
    by (simp add: UserRepo_Get_def NewGetUserParams_def where_id_def where_opt_def uuid_Nil_def)
  ultimately show "u \<in> set (db_users d)" "us_name u = nm" "compare (us_encrypted_password u) password"
    using UserRepo_Get_name by auto
qed

lemma userByToken_Inr:
  "userByToken A now token d = Inr u \<Longrightarrow> u \<in> set (db_users d) \<and> token_of_user A now u token"
  by (auto simp: userByToken_def token_of_user_def split: sum.splits dest: UserRepo_Get_name)

lemma userByAKSK_Inr:
  assumes "userByAKSK A now r s = Inr u" "\<forall>a \<in> set (sv_aksks s). aks_user a \<noteq> uuid_Nil"
  shows "u \<in> set (db_users (ad_db (sv_data s))) \<and> signed_by_user A now s u r"
proof -
  obtain ak a where ak: "Verify (au_aksk A) (SkGetter_Get (sv_aksks s)) now r = Inr ak"
      "AkskRepo_Get \<lparr>gk_user = uuid_Nil, gk_id = uuid_Nil, gk_access_key = Some ak\<rparr> (sv_aksks s) = Inr a"
      "UserRepo_Get (NewGetUserParams\<lparr>gu_id := aks_user a\<rparr>) (ad_db (sv_data s)) = Inr u"
    using assms(1) by (auto simp: userByAKSK_def split: sum.splits)
  have "a \<in> set (sv_aksks s)" "aks_access_key a = ak"
    using tbl_get_InrD [OF ak(2) [unfolded AkskRepo_Get_def q_select_one_def]]
    by (auto simp: aksk_conds_def where_id_def where_opt_def holds_def)
  with assms(2) ak UserRepo_Get_id [OF ak(3)] show ?thesis
    by (auto simp: signed_by_user_def list_ex_iff)
qed

lemma check_requirement_Inr:
  assumes "check_requirement A now r s keys = Some (Inr u)" "\<forall>a \<in> set (sv_aksks s). aks_user a \<noteq> uuid_Nil"
  shows "u \<in> set (db_users (ad_db (sv_data s))) \<and> has_credentials A now s u r"
proof -
  consider t where "bearer_token (header_Get r ''Authorization'') = Some t"
      "userByToken A now t (ad_db (sv_data s)) = Inr u"
    | nm pw where "au_BasicAuth A (header_Get r ''Authorization'') = Some (nm, pw)"
      "userByAuth A nm pw (ad_db (sv_data s)) = Inr u"
    | "userByToken A now (au_session_token A r) (ad_db (sv_data s)) = Inr u"
    | "userByAKSK A now r s = Inr u"
    using assms(1) by (auto simp: check_requirement_def Let_def split: if_splits option.splits)
  then show ?thesis
  proof cases
    case 2
    then have "AuthenticateUser (au_compare A) nm pw (ad_db (sv_data s)) = Inr u"
      by (simp add: userByAuth_def split: sum.splits)
    with 2(1) AuthenticateUser_Inr [OF this] show ?thesis by (auto simp: has_credentials_def)
  qed (use assms(2) userByToken_Inr userByAKSK_Inr in \<open>fastforce simp: has_credentials_def\<close>)+
qed

text \<open> C12: The middleware finds a user for a request only if that user exists and the request
  carries credentials of the user: a valid token with the user's name, the user's name with the
  password, or a signature with an access key of the user.\<close>

theorem authentication_sound:
  assumes "checkSecurityRequirements A now r s reqs = Inr (Some u)"
    and "\<forall>a \<in> set (sv_aksks s). aks_user a \<noteq> uuid_Nil"
  shows "u \<in> set (db_users (ad_db (sv_data s))) \<and> has_credentials A now s u r"
  using assms(1)
  by (induction reqs) (auto split: option.splits sum.splits dest: check_requirement_Inr [OF _ assms(2)])


definition user_sample :: user where
  "user_sample =
     \<lparr>us_id = replicate 16 (CHR 0x01), us_name = ''alice'', us_email = ''a@b'', us_encrypted_password = ''hash-pw'',
      us_current_sign_in_at = 0, us_last_sign_in_at = 0, us_current_sign_in_ip = [], us_last_sign_in_ip = [],
      us_created = 0, us_updated = 0\<rparr>"

definition server_sample :: "unit server" where
  "server_sample =
     \<lparr>sv_data = \<lparr>ad_db = \<lparr>db_users = [user_sample], db_repos = [], db_branches = [], db_wips = [], db_tags = [],
          db_mrs = [], db_commits = [], db_trees = [], db_uuids = (\<lambda>_. []), db_issued = 0\<rparr>,
        ad_policies = [], ad_groups = [], ad_user_groups = [], ad_members = []\<rparr>,
      sv_viewer = [], sv_aksks = [], sv_blocks = (), sv_out = []\<rparr>"

definition claims_sample :: claims where
  "claims_sample = \<lparr>cl_id = ''id'', cl_aud = LoginAudience, cl_sub = ''alice'', cl_iat = 7, cl_exp = 3607\<rparr>"

definition jwt_sample :: jwt_env where
  "jwt_sample =
     \<lparr>jw_NewString = ''id'',
      jw_SignedString = (\<lambda>secret c. if secret = ''secret'' \<and> c = claims_sample then Inr ''tok'' else Inl (ErrMsg ''sign'')),
      jw_ParseWithClaims = (\<lambda>now token key. if token \<noteq> ''tok'' then Inl (ErrMsg ''malformed'')
        else (case key (True, ''HS256'') of Inl e \<Rightarrow> Inl e
          | Inr k \<Rightarrow> if k \<noteq> ''secret'' then Inl (ErrMsg ''signature'')
              else if now < 3607000000000 then Inr (claims_sample, True) else Inl (ErrMsg ''expired''))),
      jw_Validate = (\<lambda>aud now c. if cl_aud c = aud \<and> now < cl_exp c * 1000000000 then Inr () else Inl (ErrMsg ''claims'')),
      jw_hex_decode = Inr, jw_SecretKey = ''secret'', jw_save_session = (\<lambda>_. True)\<rparr>"

definition auth_sample :: auth_env where
  "auth_sample =
     \<lparr>au_jwt = jwt_sample, au_aksk = aksk_env_sample, au_compare = (\<lambda>h p. h = ''hash-'' @ p), au_secret = ''secret'',
      au_BasicAuth = (\<lambda>h. if h = ''Basic alice:pw'' then Some (''alice'', ''pw'') else None),
      au_session_token = (\<lambda>_. [])\<rparr>"

theorem authentication_sound_witness:
  "user_sample \<in> set (db_users (ad_db (sv_data server_sample))) \<and>
   has_credentials auth_sample 9000000000 server_sample user_sample
     ((request_sample [])\<lparr>rq_Header := [''Authorization'' \<mapsto> ''Basic alice:pw'']\<rparr>)"
  by (rule authentication_sound [of _ _ _ _ "[[''jwt_token''], [''basic_auth'']]"])
    (code_simp, simp add: server_sample_def)

subsection \<open>Login\<close>

text \<open>
  What the package jwt documents, version 5: \<open>SignedString\<close> with HS256 makes a text of letters, digits,
  dots, dashes and underscores. \<open>ParseWithClaims\<close> with the key of the signature gives the claims back
  as long as they have not expired, and \<open>Validate\<close> accepts claims with the expected audience as long
  as they have not expired. Claims are written as JSON, so that only plain texts and numbers that a
  float represents are sure to come back. Fresh ids are plain texts.
\<close>

definition plain_text :: "string \<Rightarrow> bool" where
  "plain_text s \<longleftrightarrow> list_all (\<lambda>c. CHR ''!'' \<le> c \<and> c \<le> CHR ''~'') s"

definition plain_claims :: "claims \<Rightarrow> bool" where
  "plain_claims c \<longleftrightarrow> plain_text (cl_id c) \<and> plain_text (cl_aud c) \<and> plain_text (cl_sub c) \<and>
     0 \<le> cl_iat c \<and> cl_iat c < 2 ^ 53 \<and> 0 \<le> cl_exp c \<and> cl_exp c < 2 ^ 53"

definition jwt_laws :: "jwt_env \<Rightarrow> bytes \<Rightarrow> bool" where
  "jwt_laws J secret \<longleftrightarrow> plain_text (jw_NewString J) \<and>
     (\<forall>c token. jw_SignedString J secret c = Inr token \<longrightarrow> token \<noteq> [] \<and> plain_text token) \<and>
     (\<forall>c token now key. jw_SignedString J secret c = Inr token \<and> plain_claims c \<and> now < cl_exp c * 1000000000 \<and>
        key (True, ''HS256'') = Inr secret \<longrightarrow> jw_ParseWithClaims J now token key = Inr (c, True)) \<and>
     (\<forall>now c. plain_claims c \<and> now < cl_exp c * 1000000000 \<longrightarrow> jw_Validate J (cl_aud c) now c = Inr ())"

lemma jwt_laws_token:
  assumes "jwt_laws J secret" "jw_SignedString J secret c = Inr token" "plain_claims c" "now < cl_exp c * 1000000000"
  shows "VerifyToken J secret now token = Inr c" "jw_Validate J (cl_aud c) now c = Inr ()" "token \<noteq> []" "plain_text token"
proof -
  have "jw_ParseWithClaims J now token (\<lambda>(isHMAC, alg).
      if \<not> isHMAC then Inl (ErrMsg (''unexpected signing method: '' @ alg)) else Inr secret) = Inr (c, True)"
    using assms unfolding jwt_laws_def by force
  then show "VerifyToken J secret now token = Inr c" by (simp add: VerifyToken_def)
qed (use assms in \<open>auto simp: jwt_laws_def\<close>)

lemma space_at_None: "CHR ''!'' \<le> c \<Longrightarrow> c \<le> CHR ''~'' \<Longrightarrow> space_at (c # s) = None"
proof -
  have "list_all (\<lambda>p. hd p < CHR ''!'' \<or> CHR ''~'' < hd p) space_seqs" by code_simp
  then have "c \<noteq> hd p" if "p \<in> set space_seqs" "CHR ''!'' \<le> c" "c \<le> CHR ''~''" for p
    using that by (auto simp: list_all_iff)
  then show "CHR ''!'' \<le> c \<Longrightarrow> c \<le> CHR ''~'' \<Longrightarrow> space_at (c # s) = None"
    by (auto simp: space_at_def find_None_iff has_prefix_def neq_Nil_conv) fastforce
qed

lemma fields_from_word:
  "\<forall>x \<in> set w. CHR ''!'' \<le> x \<and> x \<le> CHR ''~'' \<Longrightarrow> fields_from 0 word (w @ s) = fields_from 0 (word @ w) s"
  by (induction w arbitrary: word) (simp_all add: space_at_None)

lemma bearer_token_Bearer:
  assumes "token \<noteq> []" "plain_text token"
  shows "bearer_token (''Bearer '' @ token) = Some token"
proof -
  have "space_at (CHR '' '' # token) = Some '' ''"
    by (simp add: space_at_def space_seqs_def has_prefix_def)
  then have "fields_from 0 ''Bearer'' (CHR '' '' # token) = [''Bearer'', token]"
    using fields_from_word [of token "[]" "[]"] assms by (simp add: plain_text_def list_all_iff)
  then have "strings_Fields (''Bearer'' @ CHR '' '' # token) = [''Bearer'', token]"
    using fields_from_word [of "''Bearer''" "[]" "CHR '' '' # token"]
    by (simp add: strings_Fields_def less_eq_char_def)
  then show ?thesis by (simp add: bearer_token_def ascii_lower_def less_eq_char_def char_of_def bit_0)
qed

lemma seconds_plain:
  assumes "0 \<le> n" "0 \<le> k" "n + k < 2 ^ 64"
  shows "0 \<le> time_Unix (n + k)" "time_Unix (n + k) < 2 ^ 53"
proof -
  have "(n + k) div 1000000000 \<le> 2 ^ 64 div 1000000000" using assms(3) by (intro zdiv_mono1) simp_all
  then show "time_Unix (n + k) < 2 ^ 53" by (simp add: time_Unix_def)
qed (use assms(1,2) in \<open>simp add: time_Unix_def pos_imp_zdiv_nonneg_iff\<close>)

text \<open> C28: The token that a login replies makes the middleware find the user who logged in, in every
  request that carries it in the header until it expires.\<close>

theorem login_token_accepted:
  assumes login: "Login compare (au_jwt A) C nm password s = Some (Some (), s')"
      "last (sv_out s') = (200, Json (PToken t))"
    and laws: "jwt_laws (au_jwt A) (au_secret A)" "jw_hex_decode (au_jwt A) (jw_SecretKey (au_jwt A)) = Inr (au_secret A)"
    and plain: "plain_text nm" "0 \<le> env_now (ca_env C)" "env_now (ca_env C) < 2 ^ 63"
    and request: "rq_Header r ''Authorization'' = Some (''Bearer '' @ atk_Token t)"
      "now < atk_TokenExpiration t * 1000000000"
  shows "atk_TokenExpiration t = time_Unix (env_now (ca_env C) + ExpirationDuration) \<and>
    (\<exists>u. us_name u = nm \<and> compare (us_encrypted_password u) password \<and>
      checkSecurityRequirements A now r s' ([''jwt_token''] # reqs) = Inr (Some u))"
proof -
  let ?J = "au_jwt A" and ?exp = "env_now (ca_env C) + ExpirationDuration"
  let ?c = "\<lambda>u. \<lparr>cl_id = jw_NewString ?J, cl_aud = LoginAudience, cl_sub = us_name u,
    cl_iat = time_Unix (env_now (ca_env C)), cl_exp = time_Unix ?exp\<rparr>"
  obtain u where u: "AuthenticateUser compare nm password (ad_db (sv_data s)) = Inr u"
    using login(1) by (auto simp: Login_def then_do_def ask_db_def ask_def finish_def split: sum.splits)
  obtain token where token: "GenerateJWTLogin ?J (au_secret A) (us_name u) (env_now (ca_env C)) ?exp = Inr token"
      "s' = s\<lparr>sv_out := sv_out s @ [(200, Json (PToken \<lparr>atk_Token = token, atk_TokenExpiration = time_Unix ?exp\<rparr>))]\<rparr>"
    using login(1) laws(2) u
    by (auto simp: Login_def generateAndRespToken_def then_do_def ask_db_def ask_def finish_def or_error_def give_def
        respond_def w_JSON_def Let_def split: sum.splits if_splits)
  then have t: "atk_Token t = token" "atk_TokenExpiration t = time_Unix ?exp"
    using login(2) by auto
  have "UserRepo_Get (NewGetUserParams\<lparr>gu_name := Some (us_name u)\<rparr>) (ad_db (sv_data s)) = Inr u"
    using u AuthenticateUser_Inr [OF u] by (auto simp: AuthenticateUser_def split: sum.splits if_splits)
  moreover have "plain_claims (?c u)"
  proof -
    have "plain_text (jw_NewString ?J)" using laws(1) by (simp add: jwt_laws_def)
    moreover have "plain_text LoginAudience" by (simp add: plain_text_def LoginAudience_def less_eq_char_def)
    ultimately show ?thesis
      using plain(1) AuthenticateUser_Inr(2) [OF u] seconds_plain [OF plain(2), of 0] seconds_plain [OF plain(2), of ExpirationDuration] plain(3)
      by (simp add: plain_claims_def ExpirationDuration_def)
  qed
  moreover have "jw_SignedString ?J (au_secret A) (?c u) = Inr token" using token(1) by (simp add: GenerateJWTLogin_def)
  ultimately have user: "userByToken A now token (ad_db (sv_data s')) = Inr u" and token': "token \<noteq> []" "plain_text token"
    using jwt_laws_token [OF laws(1), of "?c u" token now] request(2) t(2) token(2) by (simp_all add: userByToken_def)
  have "bearer_token (''Bearer '' @ token) = Some token" by (rule bearer_token_Bearer [OF token'])
  then show ?thesis
    using user AuthenticateUser_Inr [OF u] request(1) t
    by (auto simp: check_requirement_def Let_def header_Get_def simp del: append_Cons append_Nil)
qed


definition call_sample :: "env \<Rightarrow> user option \<Rightarrow> unit call" where
  "call_sample E operator =
     \<lparr>ca_env = E, ca_us = (\<lambda>u. u), ca_encode = hex_encode, ca_decode = (\<lambda>_. Inl ErrNotFound), ca_ctx = (\<lambda>_. False),
      ca_glob = (\<lambda>_. Inr (\<lambda>_. True)), ca_timestamp = (\<lambda>_. []), ca_mime = (\<lambda>_. []), ca_operator = operator,
      ca_uuid = replicate 16 (CHR 0x02), ca_aksk = (''ak'', ''sk''), ca_hash_password = (\<lambda>p. Inr (''hash-'' @ p)),
      ca_public = (''mem'', Inl ErrNotFound), ca_custom = (\<lambda>_. Inl ErrNotFound)\<rparr>"

theorem login_token_accepted_witness:
  "\<exists>u. us_name u = ''alice'' \<and> us_encrypted_password u = ''hash-pw'' \<and>
    checkSecurityRequirements auth_sample 9000000000
      ((request_sample [])\<lparr>rq_Header := [''Authorization'' \<mapsto> ''Bearer tok'']\<rparr>)
      (server_sample\<lparr>sv_out := [(200, Json (PToken \<lparr>atk_Token = ''tok'', atk_TokenExpiration = 3607\<rparr>))]\<rparr>)
      [[''jwt_token'']] = Inr (Some u)"
proof -
  let ?E = "pad_env\<lparr>env_now := 7000000000\<rparr>" and ?t = "\<lparr>atk_Token = ''tok'', atk_TokenExpiration = 3607\<rparr>"
  let ?s' = "server_sample\<lparr>sv_out := [(200, Json (PToken ?t))]\<rparr>"
  have login: "Login (\<lambda>h p. h = ''hash-'' @ p) (au_jwt auth_sample) (call_sample ?E None) ''alice'' ''pw'' server_sample =
      Some (Some (), ?s')"
    by (simp add: Login_def then_do_def ask_db_def ask_def AuthenticateUser_def GetEPByName_def UserRepo_Get_def
        NewGetUserParams_def q_select_one_def tbl_get_def holds_def where_id_def where_opt_def uuid_Nil_def
        server_sample_def user_sample_def generateAndRespToken_def call_sample_def auth_sample_def jwt_sample_def
        or_error_def give_def respond_def w_JSON_def GenerateJWTLogin_def claims_sample_def time_Unix_def
        ExpirationDuration_def Let_def)
  have laws: "jwt_laws (au_jwt auth_sample) (au_secret auth_sample)"
    by (auto simp: jwt_laws_def auth_sample_def jwt_sample_def plain_text_def claims_sample_def less_eq_char_def
        split: if_splits)
  have "\<exists>u. us_name u = ''alice'' \<and> us_encrypted_password u = ''hash-'' @ ''pw'' \<and>
    checkSecurityRequirements auth_sample 9000000000
      ((request_sample [])\<lparr>rq_Header := [''Authorization'' \<mapsto> ''Bearer tok'']\<rparr>) ?s' ([''jwt_token''] # []) = Inr (Some u)"
    by (rule login_token_accepted [where t = ?t, OF login _ laws, THEN conjunct2])
      (simp_all add: auth_sample_def jwt_sample_def call_sample_def pad_env_def plain_text_def less_eq_char_def)
  then show ?thesis by simp
qed

end
