(* ===== verification/Versions.thy ===== *)
theory Versions
  imports Handlers
begin

section \<open>Versions: version/, controller/common_ctl.go\<close>

text \<open>
  The checker asks for the latest release at most once per period and keeps the answer, an error
  too. The package go-version is the record \<open>goversion\<close>: parsing, printing and comparing; the reply
  of the release server is an input. \<open>UserVersion\<close> is the version that was built in.
\<close>

record 'v goversion =
  gv_NewVersion :: "string \<Rightarrow> 'v result"
  gv_String :: "'v \<Rightarrow> string"
  gv_LessThan :: "'v \<Rightarrow> 'v \<Rightarrow> bool"

definition UserVersion :: "string \<Rightarrow> string \<Rightarrow> string" where
  "UserVersion BuildVersion CurrentCommit = BuildVersion @ CurrentCommit"

text \<open>The expression is not anchored at its end.\<close>

definition versionRegex :: rx where
  "versionRegex =
     Seq (Cls (\<lambda>c. c = CHR ''v'')) (Seq (Plus (Cls is_digit)) (Seq (Cls (\<lambda>c. c = CHR ''.''))
       (Seq (Plus (Cls is_digit)) (Seq (Cls (\<lambda>c. c = CHR ''.'')) (Seq (Opt (Cls is_digit)) (Star (Cls (\<lambda>_. True))))))))"

definition IsVersionUnreleased :: "string \<Rightarrow> bool" where
  "IsVersionUnreleased userVersion \<longleftrightarrow> \<not> rx_match versionRegex userVersion"

subsection \<open>The latest release\<close>

text \<open>\<open>Do\<close> of the client: an error, or the status and the tag name in the body or why it cannot be read.\<close>

definition ErrHTTPStatus :: "int \<Rightarrow> error" where
  "ErrHTTPStatus code = ErrMsg ''unexpected HTTP status code''"

definition GithubReleases_Fetch :: "(int \<times> string result) result \<Rightarrow> string result" where
  "GithubReleases_Fetch resp =
     (case resp of
        Inl e \<Rightarrow> Inl e
      | Inr (statusCode, release) \<Rightarrow> if statusCode \<noteq> 200 then Inl (ErrHTTPStatus statusCode) else release)"

record cached_source =
  vs_lastCheck :: time
  vs_cachePeriod :: time
  vs_fetch :: "string result"

definition NewCachedSource :: "time \<Rightarrow> time \<Rightarrow> cached_source" where
  "NewCachedSource zero cachePeriod = \<lparr>vs_lastCheck = zero, vs_cachePeriod = cachePeriod, vs_fetch = Inr []\<rparr>"

text \<open>\<open>fetched\<close> is the answer of the source behind, if it is asked.\<close>

definition FetchLatestVersion :: "time \<Rightarrow> string result \<Rightarrow> cached_source \<Rightarrow> string result \<times> cached_source" where
  "FetchLatestVersion now fetched cs =
     (let cs' = (if now - vs_lastCheck cs > vs_cachePeriod cs
                 then cs\<lparr>vs_fetch := fetched, vs_lastCheck := now\<rparr> else cs)
      in (vs_fetch cs', cs'))"

record latest_version =
  lv_Outdated :: bool
  lv_LatestVersion :: string
  lv_CurrentVersion :: string

definition CheckLatestVersion :: "'v goversion \<Rightarrow> string \<Rightarrow> string \<Rightarrow> latest_version result" where
  "CheckLatestVersion G userVersion targetVersion =
     (case gv_NewVersion G targetVersion of
        Inl e \<Rightarrow> Inl e
      | Inr targetV \<Rightarrow>
          if IsVersionUnreleased userVersion then
            Inr \<lparr>lv_Outdated = False, lv_LatestVersion = gv_String G targetV, lv_CurrentVersion = userVersion\<rparr>
          else
            (case gv_NewVersion G userVersion of
               Inl e \<Rightarrow> Inl e
             | Inr currentV \<Rightarrow>
                 Inr \<lparr>lv_Outdated = gv_LessThan G currentV targetV, lv_LatestVersion = gv_String G targetV,
                   lv_CurrentVersion = userVersion\<rparr>))"

definition Checker_CheckLatestVersion ::
  "'v goversion \<Rightarrow> string \<Rightarrow> time \<Rightarrow> string result \<Rightarrow> cached_source \<Rightarrow> latest_version result \<times> cached_source" where
  "Checker_CheckLatestVersion G userVersion now fetched cs =
     (case FetchLatestVersion now fetched cs of
        (Inl e, cs') \<Rightarrow> (Inl e, cs')
      | (Inr latest, cs') \<Rightarrow> (CheckLatestVersion G userVersion latest, cs'))"

text \<open>Within a period every call gets the answer of the first, whatever the source would say.\<close>

lemma FetchLatestVersion_cached:
  assumes "FetchLatestVersion t fetched cs = (r, cs')" "t - vs_lastCheck cs > vs_cachePeriod cs"
    "t' - t \<le> vs_cachePeriod cs"
  shows "r = fetched" "FetchLatestVersion t' fetched' cs' = (r, cs')"
  using assms by (auto simp: FetchLatestVersion_def Let_def)

subsection \<open>common_ctl.go\<close>

text \<open>\<open>latest\<close> is the result of the checker; an error of it leaves the field out.\<close>

definition GetVersion :: "string result \<Rightarrow> string \<Rightarrow> latest_version result \<Rightarrow> ('s, unit) act" where
  "GetVersion swagger userVersion latest =
     then_do (or_error swagger) (\<lambda>apiVersion.
     respond (w_JSON (PVersion
       \<lparr>vr_ApiVersion = apiVersion, vr_Version = userVersion,
        vr_LatestVersion = (case latest of Inl _ \<Rightarrow> None | Inr l \<Rightarrow> Some (lv_LatestVersion l))\<rparr>) None))"

definition GetSetupState :: "login_config \<Rightarrow> ('s, unit) act" where
  "GetSetupState loginConfig =
     respond (w_JSON (PSetupState
       \<lparr>ss_State = ''initialized'', ss_LoginConfig = loginConfig, ss_CommPrefsMissing = False\<rparr>) None)"

end
