(* ===== verification/Server.thy ===== *)
theory Server
  imports Authentication Versions
begin

section \<open>All operations of the server\<close>

text \<open>
  The operations of \<open>ServerInterface\<close> (api/jiaozifs.gen.go), one type per controller, and
  \<open>serve\<close>, which runs the handler of each, as \<open>APIController\<close> puts the controllers together. The
  record \<open>service\<close> holds what single handlers need besides the request. An operation on a
  repository names it by its owner's name and its own.
\<close>

record service =
  se_compare :: "string \<Rightarrow> string \<Rightarrow> bool"
  se_jwt :: jwt_env
  se_session :: "unit result"
  se_session_saved :: "unit result"
  se_zip :: "zip_entry list \<Rightarrow> bytes result"
  se_swagger :: "string result"
  se_version :: string
  se_latest :: "latest_version result"
  se_login_config :: login_config

datatype object_op =
    O_DeleteObject string string
  | O_GetObject string string string "string option"
  | O_HeadObject string string string "string option"
  | O_UploadObject upload string string "bool option"
  | O_GetFiles string string "string option"

datatype repository_op =
    R_DeleteRepository "bool option"
  | R_GetRepository
  | R_UpdateRepository "string option" "string option"
  | R_GetArchive string string string
  | R_GetCommitsInRef "string option" "int option" "int option"
  | R_ChangeVisible bool

datatype branch_op =
    B_DeleteBranch string
  | B_GetBranch string
  | B_CreateBranch string string
  | B_ListBranches "string option" "string option" "int option"

datatype tag_op =
    T_DeleteTag string
  | T_GetTag string
  | T_CreateTag string string "string option"
  | T_ListTags list_params

datatype commit_op =
    C_GetCommitChanges string "string option"
  | C_CompareCommit string "string option"
  | C_GetEntriesInRef string "string option" "string option"

datatype member_op =
    M_RevokeMember uuid
  | M_UpdateMemberGroup uuid uuid
  | M_InviteMember uuid uuid
  | M_ListMembers

datatype merge_op =
    Q_ListMergeRequests "int option" "int option" "int option"
  | Q_CreateMergeRequest string string string "string option"
  | Q_GetMergeRequest nat
  | Q_UpdateMergeRequest nat "string option" "string option" "int option"
  | Q_Merge nat string "(string \<Rightarrow> string option) option"

datatype wip_op =
    W_DeleteWip string
  | W_GetWip string
  | W_UpdateWip string "string option" "string option"
  | W_GetWipChanges string "string option"
  | W_CommitWip string string
  | W_ListWip
  | W_RevertWipChanges string "string option"

datatype repo_op =
    On_object object_op | On_repository repository_op | On_branch branch_op | On_tag tag_op
  | On_commit commit_op | On_member member_op | On_merge_request merge_op | On_wip wip_op

datatype user_op =
    U_Login string string | U_Logout | U_RefreshToken | U_Register string string string | U_GetUserInfo
  | U_CreateAksk "string option" | U_GetAksk "uuid option" "string option"
  | U_DeleteAksk "uuid option" "string option" | U_ListAksks "int option" "int option"

datatype api_request =
    On_repo string string repo_op
  | On_user user_op
  | ListPublic list_params
  | ListOwn list_params
  | ListOf string list_params
  | Create string "string option" "bool option" "string option"
  | RepoGroups
  | SetupState
  | Version

primrec serve_object :: "object_op \<Rightarrow> 's call \<Rightarrow> string \<Rightarrow> string \<Rightarrow> ('s, unit) act" where
  "serve_object (O_DeleteObject x1 x2) C ow rn = DeleteObject C ow rn x1 x2"
| "serve_object (O_GetObject x1 x2 x3 x4) C ow rn = GetObject C ow rn x1 x2 x3 x4"
| "serve_object (O_HeadObject x1 x2 x3 x4) C ow rn = HeadObject C ow rn x1 x2 x3 x4"
| "serve_object (O_UploadObject x1 x2 x3 x4) C ow rn = UploadObject C ow rn x1 x2 x3 x4"
| "serve_object (O_GetFiles x1 x2 x3) C ow rn = GetFiles C ow rn x1 x2 x3"

primrec serve_repository :: "service \<Rightarrow> repository_op \<Rightarrow> 's call \<Rightarrow> string \<Rightarrow> string \<Rightarrow> ('s, unit) act" where
  "serve_repository S (R_DeleteRepository x1) C ow rn = DeleteRepository C ow rn x1"
| "serve_repository S R_GetRepository C ow rn = GetRepository C ow rn"
| "serve_repository S (R_UpdateRepository x1 x2) C ow rn = UpdateRepository C ow rn x1 x2"
| "serve_repository S (R_GetArchive x1 x2 x3) C ow rn = GetArchive (se_zip S) C ow rn x1 x2 x3"
| "serve_repository S (R_GetCommitsInRef x1 x2 x3) C ow rn = GetCommitsInRef C ow rn x1 x2 x3"
| "serve_repository S (R_ChangeVisible x1) C ow rn = ChangeVisible C ow rn x1"

primrec serve_branch :: "branch_op \<Rightarrow> 's call \<Rightarrow> string \<Rightarrow> string \<Rightarrow> ('s, unit) act" where
  "serve_branch (B_DeleteBranch x1) C ow rn = DeleteBranch_handler C ow rn x1"
| "serve_branch (B_GetBranch x1) C ow rn = GetBranch C ow rn x1"
| "serve_branch (B_CreateBranch x1 x2) C ow rn = CreateBranch_handler C ow rn x1 x2"
| "serve_branch (B_ListBranches x1 x2 x3) C ow rn = ListBranches C ow rn x1 x2 x3"

primrec serve_tag :: "tag_op \<Rightarrow> 's call \<Rightarrow> string \<Rightarrow> string \<Rightarrow> ('s, unit) act" where
  "serve_tag (T_DeleteTag x1) C ow rn = DeleteTag_handler C ow rn x1"
| "serve_tag (T_GetTag x1) C ow rn = GetTag C ow rn x1"
| "serve_tag (T_CreateTag x1 x2 x3) C ow rn = CreateTag_handler C ow rn x1 x2 x3"
| "serve_tag (T_ListTags x1) C ow rn = ListTags C ow rn x1"

primrec serve_commit :: "commit_op \<Rightarrow> 's call \<Rightarrow> string \<Rightarrow> string \<Rightarrow> ('s, unit) act" where
  "serve_commit (C_GetCommitChanges x1 x2) C ow rn = GetCommitChanges_handler C ow rn x1 x2"
| "serve_commit (C_CompareCommit x1 x2) C ow rn = CompareCommit C ow rn x1 x2"
| "serve_commit (C_GetEntriesInRef x1 x2 x3) C ow rn = GetEntriesInRef C ow rn x1 x2 x3"

primrec serve_member :: "member_op \<Rightarrow> 's call \<Rightarrow> string \<Rightarrow> string \<Rightarrow> ('s, unit) act" where
  "serve_member (M_RevokeMember x1) C ow rn = RevokeMember C ow rn x1"
| "serve_member (M_UpdateMemberGroup x1 x2) C ow rn = UpdateMemberGroup C ow rn x1 x2"
| "serve_member (M_InviteMember x1 x2) C ow rn = InviteMember C ow rn x1 x2"
| "serve_member M_ListMembers C ow rn = ListMembers C ow rn"

primrec serve_merge_request :: "merge_op \<Rightarrow> 's call \<Rightarrow> string \<Rightarrow> string \<Rightarrow> ('s, unit) act" where
  "serve_merge_request (Q_ListMergeRequests x1 x2 x3) C ow rn = ListMergeRequests C ow rn x1 x2 x3"
| "serve_merge_request (Q_CreateMergeRequest x1 x2 x3 x4) C ow rn = CreateMergeRequest C ow rn x1 x2 x3 x4"
| "serve_merge_request (Q_GetMergeRequest x1) C ow rn = GetMergeRequest C ow rn x1"
| "serve_merge_request (Q_UpdateMergeRequest x1 x2 x3 x4) C ow rn = UpdateMergeRequest C ow rn x1 x2 x3 x4"
| "serve_merge_request (Q_Merge x1 x2 x3) C ow rn = Merge_handler C ow rn x1 x2 x3"

primrec serve_wip :: "wip_op \<Rightarrow> 's call \<Rightarrow> string \<Rightarrow> string \<Rightarrow> ('s, unit) act" where
  "serve_wip (W_DeleteWip x1) C ow rn = DeleteWip_handler C ow rn x1"
| "serve_wip (W_GetWip x1) C ow rn = GetWip C ow rn x1"
| "serve_wip (W_UpdateWip x1 x2 x3) C ow rn = UpdateWip C ow rn x1 x2 x3"
| "serve_wip (W_GetWipChanges x1 x2) C ow rn = GetWipChanges C ow rn x1 x2"
| "serve_wip (W_CommitWip x1 x2) C ow rn = CommitWip C ow rn x1 x2"
| "serve_wip W_ListWip C ow rn = ListWip C ow rn"
| "serve_wip (W_RevertWipChanges x1 x2) C ow rn = RevertWipChanges C ow rn x1 x2"

primrec serve_repo :: "service \<Rightarrow> repo_op \<Rightarrow> 's call \<Rightarrow> string \<Rightarrow> string \<Rightarrow> ('s, unit) act" where
  "serve_repo S (On_object op) C = serve_object op C"
| "serve_repo S (On_repository op) C = serve_repository S op C"
| "serve_repo S (On_branch op) C = serve_branch op C"
| "serve_repo S (On_tag op) C = serve_tag op C"
| "serve_repo S (On_commit op) C = serve_commit op C"
| "serve_repo S (On_member op) C = serve_member op C"
| "serve_repo S (On_merge_request op) C = serve_merge_request op C"
| "serve_repo S (On_wip op) C = serve_wip op C"

primrec serve_user :: "service \<Rightarrow> user_op \<Rightarrow> 's call \<Rightarrow> ('s, unit) act" where
  "serve_user S (U_Login nm pw) C = Login (se_compare S) (se_jwt S) C nm pw"
| "serve_user S U_Logout C = Logout (se_session S) (se_session_saved S)"
| "serve_user S U_RefreshToken C = RefreshToken (se_jwt S) C"
| "serve_user S (U_Register nm email pw) C = Register C nm email pw"
| "serve_user S U_GetUserInfo C = GetUserInfo C"
| "serve_user S (U_CreateAksk desc) C = CreateAksk C desc"
| "serve_user S (U_GetAksk i k) C = GetAksk C i k"
| "serve_user S (U_DeleteAksk i k) C = DeleteAksk C i k"
| "serve_user S (U_ListAksks after amount) C = ListAksks C after amount"

primrec serve :: "service \<Rightarrow> api_request \<Rightarrow> 's call \<Rightarrow> ('s, unit) act" where
  "serve S (On_repo ow rn op) C = serve_repo S op C ow rn"
| "serve S (On_user op) C = serve_user S op C"
| "serve S (ListPublic p) C = ListPublicRepository p"
| "serve S (ListOwn p) C = ListRepositoryOfAuthenticatedUser C p"
| "serve S (ListOf ow p) C = ListRepository C ow p"
| "serve S (Create nm desc v cfg) C = CreateRepository C nm desc v cfg"
| "serve S RepoGroups C = ListRepoGroup C"
| "serve S SetupState C = GetSetupState (se_login_config S)"
| "serve S Version C = GetVersion (se_swagger S) (se_version S) (se_latest S)"

end
