(* ===== verification/Rbac_Props.thy ===== *)
theory Rbac_Props
  imports Rbac
begin

section \<open>What access control decides\<close>

text \<open>
  The decision on a tree of permissions: the loops over policies, statements and actions against a
  declarative \<open>decide\<close>, and what the conjunction does with a denied member.
\<close>

subsection \<open>One permission\<close>

text \<open>A statement of the policies that matches the permission.\<close>

definition applies :: "(uuid \<Rightarrow> string) \<Rightarrow> resource_params \<Rightarrow> permission \<Rightarrow> statement \<Rightarrow> bool" where
  "applies us params perm s \<longleftrightarrow> ArnMatch (Render us params (st_Resource s)) (pm_Resource perm) \<and>
     (\<exists>a \<in> set (st_Action s). Match a (pm_Action perm))"

definition all_statements :: "policy list \<Rightarrow> statement set" where
  "all_statements policies = (\<Union>p \<in> set policies. set (po_statements p))"

text \<open>A loop's result, from the statements it went over and what it started with.\<close>

definition verdict :: "bool \<Rightarrow> bool \<Rightarrow> check_result \<Rightarrow> check_result + check_result" where
  "verdict denied matched allowed =
     (if denied then Inl CheckDeny else if matched then Inr CheckAllow else Inr allowed)"

lemma verdict_bind:
  "(case verdict d m allowed of Inl r \<Rightarrow> Inl r | Inr allowed' \<Rightarrow> verdict d' m' allowed') = verdict (d \<or> d') (m \<or> m') allowed"
  by (simp add: verdict_def)

lemma action_loop_verdict:
  "action_loop s perm actions allowed =
     (let m = (\<exists>a \<in> set actions. Match a (pm_Action perm))
      in verdict (m \<and> st_Effect s = StatementEffectDeny) m allowed)"
  by (induction actions arbitrary: allowed) (auto simp: verdict_def Let_def)

lemma stmt_loop_verdict:
  "stmt_loop us params perm stmts allowed =
     verdict (\<exists>s \<in> set stmts. applies us params perm s \<and> st_Effect s = StatementEffectDeny)
       (\<exists>s \<in> set stmts. applies us params perm s) allowed"
proof (induction stmts arbitrary: allowed)
  case (Cons s stmts)
  show ?case
    unfolding stmt_loop.simps Cons action_loop_verdict Let_def verdict_bind
    by (auto simp: applies_def verdict_def)
qed (simp add: verdict_def)

lemma policy_loop_verdict:
  "policy_loop us params perm policies allowed =
     verdict (\<exists>s \<in> all_statements policies. applies us params perm s \<and> st_Effect s = StatementEffectDeny)
       (\<exists>s \<in> all_statements policies. applies us params perm s) allowed"
proof (induction policies arbitrary: allowed)
  case (Cons p policies)
  have "(\<exists>s \<in> all_statements (p # policies). P s) \<longleftrightarrow>
      (\<exists>s \<in> set (po_statements p). P s) \<or> (\<exists>s \<in> all_statements policies. P s)" for P
    by (auto simp: all_statements_def)
  then show ?case unfolding policy_loop.simps stmt_loop_verdict Cons verdict_bind by simp
qed (simp add: verdict_def all_statements_def)

definition decide :: "(uuid \<Rightarrow> string) \<Rightarrow> resource_params \<Rightarrow> policy list \<Rightarrow> permission \<Rightarrow> check_result" where
  "decide us params policies perm =
     (if \<exists>s \<in> all_statements policies. applies us params perm s \<and> st_Effect s = StatementEffectDeny then CheckDeny
      else if \<exists>s \<in> all_statements policies. applies us params perm s then CheckAllow
      else CheckNeutral)"

lemma checkPermissions_Node:
  "checkPermissions us (Node NodeTypeNode perm nodes) params policies = decide us params policies perm"
  by (simp add: policy_loop_verdict verdict_def decide_def)

lemma check_or_spec:
  "check_or us nodes params policies allowed =
     (if \<exists>n \<in> set nodes. checkPermissions us n params policies = CheckDeny then CheckDeny
      else if allowed = CheckAllow \<or> (\<exists>n \<in> set nodes. checkPermissions us n params policies = CheckAllow) then CheckAllow
      else if nodes = [] then allowed else CheckNeutral)"
proof (induction nodes arbitrary: allowed)
  case (Cons n nodes)
  show ?case by (cases "checkPermissions us n params policies") (auto simp: Cons Let_def)
qed simp

lemma check_and_spec:
  "check_and us nodes params policies = CheckAllow \<longleftrightarrow>
     (\<forall>n \<in> set nodes. checkPermissions us n params policies = CheckAllow)"
proof (induction nodes)
  case (Cons n nodes)
  then show ?case by (cases "checkPermissions us n params policies") (auto simp: Let_def)
qed simp

text \<open>
  C23: What a permission comes to. A leaf is denied when any matching statement of any policy denies
  it, allowed when some statement matches and none denies, and neutral otherwise, so neither the order
  of policies nor of statements matters. A disjunction is denied when any member is, allowed when some
  member is allowed and none denied, and neutral otherwise. A conjunction is allowed exactly when all
  its members are. A node of another type is denied. (Whether a conjunction that is not allowed is
  denied or neutral depends on the order of its members, against its comment: \<open>And_hides_Deny\<close>.)
\<close>

theorem checkPermissions_decision:
  "let result = checkPermissions us (Node ty perm nodes) params policies in
   if ty = NodeTypeNode then result = decide us params policies perm
   else if ty = NodeTypeOr then
     result = (if \<exists>n \<in> set nodes. checkPermissions us n params policies = CheckDeny then CheckDeny
       else if \<exists>n \<in> set nodes. checkPermissions us n params policies = CheckAllow then CheckAllow
       else CheckNeutral)
   else if ty = NodeTypeAnd then
     (result = CheckAllow) = list_all (\<lambda>n. checkPermissions us n params policies = CheckAllow) nodes
   else result = CheckDeny"
  using checkPermissions_Node [of us perm nodes params policies]
  by (simp add: check_or_spec check_and_spec list_all_iff Let_def)

definition perm_node :: "string \<Rightarrow> string \<Rightarrow> node" where
  "perm_node action resource = Node NodeTypeNode \<lparr>pm_Action = action, pm_Resource = resource\<rparr> []"

definition or_node :: "node list \<Rightarrow> node" where
  "or_node nodes = Node NodeTypeOr \<lparr>pm_Action = [], pm_Resource = []\<rparr> nodes"

definition and_node :: "node list \<Rightarrow> node" where
  "and_node nodes = Node NodeTypeAnd \<lparr>pm_Action = [], pm_Resource = []\<rparr> nodes"

text \<open>
  The result of a conjunction depends on the order of its members, though its comment says
  that it is denied when one of them is: a denied member is not seen when a neutral one stands
  before it, so that a disjunction around it is allowed although one of its permissions is denied.
\<close>

theorem And_hides_Deny:
  assumes "checkPermissions us denied params policies = CheckDeny"
    "checkPermissions us neutral params policies = CheckNeutral"
    "checkPermissions us granted params policies = CheckAllow"
  shows "checkPermissions us (or_node [and_node [denied, neutral], granted]) params policies = CheckDeny \<and>
    checkPermissions us (or_node [and_node [neutral, denied], granted]) params policies = CheckAllow"
  using assms by (simp add: or_node_def and_node_def)

definition demo_policies :: "policy list" where
  "demo_policies =
     [make_policy 0 ''p'' [allow_statement [''repo:*'']\<lparr>st_Resource := All\<rparr>,
        \<lparr>st_Effect = StatementEffectDeny, st_Action = [''repo:UpdateVisible''], st_Resource = All\<rparr>]]"

lemma And_hides_Deny_witness:
  "checkPermissions id (or_node [and_node [perm_node ''auth:ReadGroup'' All, perm_node ''repo:UpdateVisible'' All],
     perm_node ''repo:ReadTag'' All]) \<lparr>rs_user = uuid_Nil, rs_repo = uuid_Nil\<rparr> demo_policies = CheckAllow"
proof -
  let ?rp = "\<lparr>rs_user = uuid_Nil, rs_repo = uuid_Nil\<rparr>"
  have "checkPermissions id (perm_node ''repo:UpdateVisible'' All) ?rp demo_policies = CheckDeny"
    "checkPermissions id (perm_node ''auth:ReadGroup'' All) ?rp demo_policies = CheckNeutral"
    "checkPermissions id (perm_node ''repo:ReadTag'' All) ?rp demo_policies = CheckAllow"
    by (code_simp)+
  from And_hides_Deny [OF this] show ?thesis by (rule conjunct2)
qed

end
