(* ===== verification/Repos_Props.thy ===== *)
theory Repos_Props
  imports Repos
begin

section \<open>What the metadata tables guarantee\<close>

text \<open>
  Sequence numbers of merge requests, and the paging of lists: a client asks for the next page
  with the key of the last row of the page before.
\<close>

subsection \<open>Merge requests\<close>

lemma next_sequence_greater:
  assumes "m \<in> set t" "mr_target_repo m = target"
  shows "mr_sequence m < next_sequence target t"
proof -
  let ?xs = "map mr_sequence (filter (\<lambda>m. mr_target_repo m = target) t)"
  have "mr_sequence m \<in> set (0 # ?xs)" using assms by auto
  then have "mr_sequence m \<le> Max (set (0 # ?xs))" by (intro Max_ge finite_set)
  then show ?thesis unfolding Max.set_eq_fold next_sequence_def by simp
qed

text \<open>
  C34: A merge request is stored under a number greater than that of every other request to the
  same repository, so that numbers stay unique, and it is the one that is found under its
  repository and number afterwards.
\<close>

theorem merge_request_numbers:
  assumes "unique_keys mr_unique (db_mrs d)" "db_uuids d (db_issued d) \<notin> mr_id ` set (db_mrs d)"
    "mr_target_repo mr \<noteq> uuid_Nil" "MergeRequestRepo_Insert mr d = (r, d')"
  shows "\<exists>m. r = Inr m \<and> db_mrs d' = db_mrs d @ [m] \<and> unique_keys mr_unique (db_mrs d') \<and>
    (\<forall>x \<in> set (db_mrs d). mr_target_repo x = mr_target_repo mr \<longrightarrow> mr_sequence x < mr_sequence m) \<and>
    MergeRequestRepo_Get \<lparr>gm_id = uuid_Nil, gm_sequence = Some (mr_sequence m), gm_target_repo = mr_target_repo mr,
      gm_target_branch = uuid_Nil, gm_source_branch = uuid_Nil, gm_state = None\<rparr> d' = Inr m"
proof -
  let ?m = "mr\<lparr>mr_id := db_uuids d (db_issued d), mr_sequence := next_sequence (mr_target_repo mr) (db_mrs d)\<rparr>"
  have new: "mr_unique ?m \<notin> set (map mr_unique (db_mrs d))"
    using next_sequence_greater [of _ "db_mrs d" "mr_target_repo mr"] by (fastforce simp: mr_unique_def)
  then have r: "r = Inr ?m" "db_mrs d' = db_mrs d @ [?m]"
    using assms(2,4) by (auto simp: MergeRequestRepo_Insert_def row_id_def tbl_insert2_def)
  have keys: "unique_keys mr_unique (db_mrs d')"
    using assms(1) new by (simp add: r(2) unique_keys_def)
  have "holds (where_opt (Some (mr_sequence ?m)) mr_sequence @ where_id (mr_target_repo mr) mr_target_repo) x
      \<longleftrightarrow> mr_unique x = mr_unique ?m" for x
    using assms(3) by (simp add: holds_def where_opt_def where_id_def mr_unique_def)
  from tbl_get_key [OF keys, of ?m, OF _ this] have "MergeRequestRepo_Get \<lparr>gm_id = uuid_Nil,
      gm_sequence = Some (mr_sequence ?m), gm_target_repo = mr_target_repo mr, gm_target_branch = uuid_Nil,
      gm_source_branch = uuid_Nil, gm_state = None\<rparr> d' = Inr ?m"
    by (simp add: MergeRequestRepo_Get_def q_select_one_def r(2) where_id_def where_opt_def)
  with r keys next_sequence_greater show ?thesis by fastforce
qed

definition empty_db :: db where
  "empty_db = \<lparr>db_users = [], db_repos = [], db_branches = [], db_wips = [], db_tags = [], db_mrs = [],
     db_commits = [], db_trees = [], db_uuids = (\<lambda>n. replicate n (CHR ''w'')), db_issued = 1\<rparr>"

definition demo_mr :: merge_request where
  "demo_mr = \<lparr>mr_id = ''m'', mr_sequence = 4, mr_source_repo = ''r'', mr_target_repo = ''r'',
     mr_target_branch = ''b'', mr_source_branch = ''c'', mr_title = ''t'', mr_state = MergeStateInit,
     mr_description = None, mr_author = ''u'', mr_created = 0, mr_updated = 0\<rparr>"

lemma merge_request_numbers_witness:
  "\<exists>m d'. MergeRequestRepo_Insert demo_mr (empty_db\<lparr>db_mrs := [demo_mr]\<rparr>) = (Inr m, d') \<and> 4 < mr_sequence m"
proof -
  obtain r d' where run: "MergeRequestRepo_Insert demo_mr (empty_db\<lparr>db_mrs := [demo_mr]\<rparr>) = (r, d')"
    by (cases "MergeRequestRepo_Insert demo_mr (empty_db\<lparr>db_mrs := [demo_mr]\<rparr>)")
  have "mr_target_repo demo_mr \<noteq> uuid_Nil"
    by (auto simp: demo_mr_def uuid_Nil_def dest: arg_cong [of _ _ length])
  from merge_request_numbers [OF _ _ this run] run show ?thesis
    by (auto simp: unique_keys_def empty_db_def demo_mr_def)
qed

subsection \<open>Pages\<close>

lemma page_next:
  assumes "distinct (map k xs)" "sorted (map k xs)" "0 < n" "n \<le> length xs"
  shows "filter (\<lambda>x. k x > k (last (take n xs))) xs = drop n xs"
proof -
  have strict: "sorted_wrt (<) (map k xs)" using assms(1,2) by (simp add: strict_sorted_iff)
  have last: "last (take n xs) = xs ! (n - 1)" by (subst last_conv_nth) (use assms(3,4) in auto)
  have less: "k (xs ! i) < k (xs ! j)" if "i < j" "j < length xs" for i j
    using sorted_wrt_nth_less [OF strict that(1)] that by simp
  have "filter (\<lambda>x. k x > k (last (take n xs))) (take n xs) = []"
    unfolding last filter_empty_conv
  proof
    fix x assume "x \<in> set (take n xs)"
    then obtain i where "i < n" "x = xs ! i" "i < length xs" by (auto simp: in_set_conv_nth)
    moreover have "i = n - 1 \<or> i < n - 1 \<and> n - 1 < length xs" using \<open>i < n\<close> assms(4) by linarith
    ultimately show "\<not> k (xs ! (n - 1)) < k x" using less [of i "n - 1"] by auto
  qed
  moreover have "filter (\<lambda>x. k x > k (last (take n xs))) (drop n xs) = drop n xs"
    unfolding last filter_id_conv
  proof
    fix x assume "x \<in> set (drop n xs)"
    then obtain i where "i < length xs - n" "x = xs ! (n + i)" by (auto simp: in_set_conv_nth)
    then show "k (xs ! (n - 1)) < k x" using less [of "n - 1" "n + i"] assms(3) by simp
  qed
  ultimately have "filter (\<lambda>x. k x > k (last (take n xs))) (take n xs @ drop n xs) = drop n xs"
    unfolding filter_append by simp
  then show ?thesis by simp
qed

lemma pages_join:
  fixes k :: "'r \<Rightarrow> 'k::linorder"
  assumes "distinct (map k rows)" "0 < n" "0 < m"
    "page1 = q_limit n (sort_key k rows)" "int (length page1) = n"
    "page2 = q_limit m (sort_key k (filter (\<lambda>x. k x > k (last page1)) rows))"
  shows "page1 @ page2 = take (nat n + nat m) (sort_key k rows)"
proof -
  let ?L = "sort_key k rows"
  have p1: "page1 = take (nat n) ?L" using assms(2,4) by (simp add: q_limit_def)
  have len: "nat n \<le> length ?L" using assms(2,5) p1 by (simp add: min_def split: if_splits)
  have dist: "distinct (map k ?L)" using assms(1) by (simp add: distinct_map)
  have "sort_key k (filter (\<lambda>x. k x > k (last page1)) rows) = drop (nat n) ?L"
    unfolding filter_sort [symmetric] p1 by (rule page_next [OF dist]) (use assms(2) len in simp_all)
  then show ?thesis using assms(3,6) p1 by (simp add: q_limit_def take_add)
qed

text \<open>
  Two successive pages of repositories, the second asked for with the update time of the last
  repository of the first, are together the first entries of the whole list, newest first: no
  repository is skipped or repeated when update times differ.
\<close>

theorem RepositoryRepo_List_pages:
  assumes "distinct (map rp_updated (db_repos d))" "lr_after p = None" "0 < lr_amount p" "0 < m"
    "RepositoryRepo_List p d = (page1, True)"
    "RepositoryRepo_List (p\<lparr>lr_after := Some (rp_updated (last page1)), lr_amount := m\<rparr>) d = (page2, full)"
  shows "page1 @ page2 = take (nat (lr_amount p) + nat m) (fst (RepositoryRepo_List (p\<lparr>lr_amount := 0\<rparr>) d))"
proof -
  let ?cs = "where_id (lr_creator p) rp_creator @ where_id (lr_owner p) rp_owner @
     where_opt (lr_visible p) rp_visible @ name_conds (lr_name p) (lr_match p) rp_name"
  let ?k = "\<lambda>r. - rp_updated r" and ?rows = "filter (holds ?cs) (db_repos d)"
  have conds: "holds (xs @ [P]) r \<longleftrightarrow> holds xs r \<and> P r" for xs and P :: "repository \<Rightarrow> bool" and r
    by (simp add: holds_def)
  have p1: "page1 = q_limit (lr_amount p) (sort_key ?k ?rows)" "int (length page1) = lr_amount p"
    using assms(2,5) by (auto simp: RepositoryRepo_List_def q_select_def tbl_list_def Let_def)
  have "filter (holds (?cs @ [\<lambda>r. rp_updated r < rp_updated (last page1)])) (db_repos d) =
      filter (\<lambda>r. ?k r > ?k (last page1)) ?rows"
    unfolding filter_filter conds by (rule filter_cong) auto
  then have p2: "page2 = q_limit m (sort_key ?k (filter (\<lambda>r. ?k r > ?k (last page1)) ?rows))"
    using assms(6) by (auto simp: RepositoryRepo_List_def q_select_def tbl_list_def Let_def)
  have "distinct (map rp_updated ?rows)" using assms(1) by (rule distinct_map_filter)
  then have dist: "distinct (map ?k ?rows)" by (auto simp: distinct_map inj_on_def)
  have all: "fst (RepositoryRepo_List (p\<lparr>lr_amount := 0\<rparr>) d) = sort_key ?k ?rows"
    using assms(2) by (simp add: RepositoryRepo_List_def q_select_def tbl_list_def Let_def q_limit_def)
  show ?thesis unfolding all by (rule pages_join [OF dist assms(3,4) p1 p2])
qed

definition repo_row :: "uuid \<Rightarrow> time \<Rightarrow> repository" where
  "repo_row i t = \<lparr>rp_id = i, rp_name = i, rp_owner = ''u'', rp_HEAD = ''main'', rp_visible = True,
     rp_public_storage = True, rp_namespace = None, rp_adapter_params = None, rp_description = None,
     rp_creator = ''u'', rp_created = t, rp_updated = t\<rparr>"

lemma RepositoryRepo_List_pages_witness:
  "\<exists>page1 page2 full. page1 = [repo_row ''c'' 3, repo_row ''b'' 2] \<and>
    page1 @ page2 = take (nat 2 + nat 2) (fst (RepositoryRepo_List \<lparr>lr_creator = uuid_Nil, lr_owner = uuid_Nil,
      lr_name = None, lr_match = ExactMatch, lr_visible = None, lr_after = None, lr_amount = 0\<rparr>
      (empty_db\<lparr>db_repos := [repo_row ''a'' 1, repo_row ''b'' 2, repo_row ''c'' 3]\<rparr>)))"
proof -
  let ?p = "\<lparr>lr_creator = uuid_Nil, lr_owner = uuid_Nil, lr_name = None, lr_match = ExactMatch,
    lr_visible = None, lr_after = None, lr_amount = 2\<rparr>"
  let ?d = "empty_db\<lparr>db_repos := [repo_row ''a'' 1, repo_row ''b'' 2, repo_row ''c'' 3]\<rparr>"
  let ?page = "[repo_row ''c'' 3, repo_row ''b'' 2]"
  have page: "RepositoryRepo_List ?p ?d = (?page, True)"
    by (simp add: RepositoryRepo_List_def q_select_def tbl_list_def holds_def where_id_def where_opt_def
        name_conds_def q_limit_def repo_row_def)
  obtain page2 full where "RepositoryRepo_List (?p\<lparr>lr_after := Some (rp_updated (last ?page)), lr_amount := 2\<rparr>) ?d =
      (page2, full)" by fastforce
  from RepositoryRepo_List_pages [OF _ _ _ _ page this] show ?thesis by (auto simp: repo_row_def)
qed

text \<open>
  \<open>TagRepo_List\<close> sorts newest first like the other lists but asks for rows that are newer
  than the given time: the page after a first one holds only tags of that first page again, and
  never an older tag.
\<close>

theorem TagRepo_List_repeats:
  assumes "distinct (map tg_updated (db_tags d))" "lt_after p = None" "0 < lt_amount p"
    "TagRepo_List p d = (page1, True)"
    "TagRepo_List (p\<lparr>lt_after := Some (tg_updated (last page1))\<rparr>) d = (page2, full)"
  shows "page2 = butlast page1 \<and> \<not> full"
proof -
  let ?cs = "where_id (lt_repo p) tg_repo @ name_conds (lt_name p) (lt_match p) tg_name"
  let ?k = "\<lambda>t. - tg_updated t" and ?rows = "filter (holds ?cs) (db_tags d)" and ?n = "nat (lt_amount p)"
  let ?L = "sort_key ?k ?rows"
  have conds: "holds (xs @ [P]) r \<longleftrightarrow> holds xs r \<and> P r" for xs and P :: "tag \<Rightarrow> bool" and r
    by (simp add: holds_def)
  have p1: "page1 = take ?n ?L" "int (length page1) = lt_amount p"
    using assms(2,3,4) by (auto simp: TagRepo_List_def q_select_def tbl_list_def Let_def q_limit_def)
  then have len: "length page1 = ?n" "0 < ?n" using assms(3) by simp_all
  then have ne: "page1 \<noteq> []" by auto
  have "filter (holds (?cs @ [\<lambda>g. tg_updated (last page1) < tg_updated g])) (db_tags d) =
      filter (\<lambda>r. \<not> ?k r \<ge> ?k (last page1)) ?rows"
    unfolding filter_filter conds by (rule filter_cong) auto
  then have p2: "page2 = take ?n (filter (\<lambda>r. \<not> ?k r \<ge> ?k (last page1)) ?L)"
    "full = (int (length page2) = lt_amount p)"
    using assms(3,5) by (auto simp: TagRepo_List_def q_select_def tbl_list_def Let_def q_limit_def filter_sort)
  have "distinct (map tg_updated ?rows)" using assms(1) by (rule distinct_map_filter)
  then have "distinct (map ?k ?L)" by (auto simp: distinct_map inj_on_def)
  then have strict: "sorted_wrt (<) (map ?k ?L)" by (simp add: strict_sorted_iff)
  have split: "?L = butlast page1 @ last page1 # drop ?n ?L"
    using ne append_take_drop_id [of ?n ?L] unfolding p1(1) [symmetric] by (metis append_butlast_last_id append.assoc append_Cons append_Nil)
  have "sorted_wrt (<) (map ?k (butlast page1 @ last page1 # drop ?n ?L))"
    using strict split by (rule subst [rotated])
  then have "\<forall>x \<in> set (butlast page1). ?k x < ?k (last page1)" "\<forall>x \<in> set (drop ?n ?L). ?k (last page1) < ?k x"
    by (simp_all add: sorted_wrt_append)
  then have "filter (\<lambda>r. \<not> ?k r \<ge> ?k (last page1)) (butlast page1 @ last page1 # drop ?n ?L) = butlast page1"
    by (simp add: filter_True not_le filter_empty_conv less_imp_le not_less)
  then have "filter (\<lambda>r. \<not> ?k r \<ge> ?k (last page1)) ?L = butlast page1"
    using split by (rule subst [OF sym, rotated])
  then have "page2 = butlast page1" using p2(1) len by simp
  with p2(2) len show ?thesis by simp
qed

definition tag_row :: "uuid \<Rightarrow> time \<Rightarrow> tag" where
  "tag_row i t = \<lparr>tg_id = i, tg_repo = ''r'', tg_name = i, tg_creator = ''u'', tg_target = [], tg_message = None,
     tg_created = t, tg_updated = t\<rparr>"

lemma TagRepo_List_repeats_witness:
  "\<exists>page2 full. TagRepo_List \<lparr>lt_repo = uuid_Nil, lt_name = None, lt_match = ExactMatch, lt_after = Some 2,
      lt_amount = 2\<rparr> (empty_db\<lparr>db_tags := [tag_row ''a'' 1, tag_row ''b'' 2, tag_row ''c'' 3]\<rparr>) = (page2, full) \<and>
    page2 = [tag_row ''c'' 3]"
proof -
  let ?p = "\<lparr>lt_repo = uuid_Nil, lt_name = None, lt_match = ExactMatch, lt_after = None, lt_amount = 2\<rparr>"
  let ?d = "empty_db\<lparr>db_tags := [tag_row ''a'' 1, tag_row ''b'' 2, tag_row ''c'' 3]\<rparr>"
  let ?page = "[tag_row ''c'' 3, tag_row ''b'' 2]"
  have page: "TagRepo_List ?p ?d = (?page, True)"
    by (simp add: TagRepo_List_def q_select_def tbl_list_def holds_def where_id_def
        name_conds_def q_limit_def tag_row_def)
  obtain page2 full where "TagRepo_List (?p\<lparr>lt_after := Some (tg_updated (last ?page))\<rparr>) ?d = (page2, full)" by fastforce
  with TagRepo_List_repeats [OF _ _ _ page this] show ?thesis by (auto simp: tag_row_def)
qed

end
