(* ===== verification/Rbac_Roles.thy ===== *)
theory Rbac_Roles
  imports Rbac_Props Repos_Props
begin

section \<open>The built-in groups and what their users may do\<close>

text \<open>
  What \<open>InitRbac\<close> puts into the tables, and what the administrator, the members of a repository by
  their group, other users and the users of a group without policies are allowed.
\<close>

subsection \<open>Rendering the resources of a repository\<close>

text \<open>The text of an id: hexadecimal digits and dashes.\<close>

definition uuid_text :: "string \<Rightarrow> bool" where
  "uuid_text s \<longleftrightarrow> s \<noteq> [] \<and> set s \<subseteq> set ''0123456789abcdef-''"

lemma uuid_text_plain: "uuid_text s \<Longrightarrow> CHR ''{'' \<notin> set s \<and> CHR ''*'' \<notin> set s \<and> CHR ''?'' \<notin> set s \<and> ascii s"
  by (auto simp: uuid_text_def ascii_def)

lemma replace_all_step: "c \<noteq> CHR ''{'' \<Longrightarrow>
    replace_all (CHR ''{'' # old) new (c # s) = c # replace_all (CHR ''{'' # old) new s"
  by (subst replace_all.simps) (simp add: has_prefix_def)

lemma replace_all_plain:
  "CHR ''{'' \<notin> set p \<Longrightarrow> replace_all (CHR ''{'' # old) new (p @ s) = p @ replace_all (CHR ''{'' # old) new s"
  by (induction p) (auto simp: replace_all_step)

lemma replace_all_Nil [simp]: "replace_all old new [] = []"
  by (simp add: replace_all.simps)

lemma replace_all_here: "replace_all (c # old) new ((c # old) @ s) = new @ replace_all (c # old) new s"
  by (subst replace_all.simps) (simp add: has_prefix_def)

lemma Render_repo:
  assumes "uuid_text (us u)" "u \<noteq> uuid_Nil" "r \<noteq> uuid_Nil"
  shows "Render us \<lparr>rs_user = u, rs_repo = r\<rparr> (RepoURArn UserIDCapture RepoIDCapture) = RepoURArn (us u) (us r)"
proof -
  note cap = UserIDCapture_def RepoIDCapture_def
  have user: "WithUserID (RepoURArn UserIDCapture RepoIDCapture) (us u) = RepoURArn (us u) RepoIDCapture"
  proof -
    have "replace_all UserIDCapture (us u) (ArnPrefix @ ''repository/'' @ UserIDCapture @ ''/'' @ RepoIDCapture) =
        (ArnPrefix @ ''repository/'') @ replace_all UserIDCapture (us u) (UserIDCapture @ ''/'' @ RepoIDCapture)"
      using replace_all_plain [of "ArnPrefix @ ''repository/''" "''user_id}''" "us u" "UserIDCapture @ ''/'' @ RepoIDCapture"]
      by (simp add: ArnPrefix_def UserIDCapture_def)
    also have "replace_all UserIDCapture (us u) (UserIDCapture @ ''/'' @ RepoIDCapture) =
        us u @ replace_all UserIDCapture (us u) (''/'' @ RepoIDCapture)"
      unfolding UserIDCapture_def by (rule replace_all_here)
    also have "replace_all UserIDCapture (us u) (''/'' @ RepoIDCapture) = ''/'' @ RepoIDCapture"
      by (simp add: cap replace_all.simps has_prefix_def)
    finally show ?thesis by (simp add: WithUserID_def RepoURArn_def)
  qed
  have "replace_all RepoIDCapture (us r) ((ArnPrefix @ ''repository/'' @ us u @ ''/'') @ RepoIDCapture) =
      (ArnPrefix @ ''repository/'' @ us u @ ''/'') @ replace_all RepoIDCapture (us r) (RepoIDCapture @ [])"
    using replace_all_plain [of "ArnPrefix @ ''repository/'' @ us u @ ''/''" "''repo_id}''" "us r" RepoIDCapture]
      uuid_text_plain [OF assms(1)] by (simp add: ArnPrefix_def RepoIDCapture_def)
  also have "replace_all RepoIDCapture (us r) (RepoIDCapture @ []) = us r"
    unfolding RepoIDCapture_def replace_all_here by simp
  finally show ?thesis
    using assms(2,3) user by (simp add: Render_def WithRepoID_def) (simp add: RepoURArn_def)
qed

lemma Render_user:
  assumes "uuid_text (us u)" "u \<noteq> uuid_Nil" "r \<noteq> uuid_Nil"
  shows "Render us \<lparr>rs_user = u, rs_repo = r\<rparr> (RepoUArn UserIDCapture) = RepoUArn (us u)"
proof -
  have "replace_all UserIDCapture (us u) ((ArnPrefix @ ''repository/'') @ (UserIDCapture @ ''/*'')) =
      (ArnPrefix @ ''repository/'') @ replace_all UserIDCapture (us u) (UserIDCapture @ ''/*'')"
    using replace_all_plain [of "ArnPrefix @ ''repository/''" "''user_id}''" "us u" "UserIDCapture @ ''/*''"]
    by (simp add: ArnPrefix_def UserIDCapture_def)
  also have "replace_all UserIDCapture (us u) (UserIDCapture @ ''/*'') = us u @ ''/*''"
    unfolding UserIDCapture_def replace_all_here by (simp add: replace_all.simps has_prefix_def)
  finally have user: "WithUserID (RepoUArn UserIDCapture) (us u) = RepoUArn (us u)"
    by (simp add: WithUserID_def RepoUArn_def)
  have "replace_all RepoIDCapture (us r) ((ArnPrefix @ ''repository/'' @ us u @ ''/*'') @ []) =
      (ArnPrefix @ ''repository/'' @ us u @ ''/*'') @ []"
    using replace_all_plain [of "ArnPrefix @ ''repository/'' @ us u @ ''/*''" "''repo_id}''" "us r" "[]"]
      uuid_text_plain [OF assms(1)] by (simp add: ArnPrefix_def RepoIDCapture_def)
  with assms(2,3) user show ?thesis by (simp add: Render_def WithRepoID_def) (simp add: RepoUArn_def)
qed

lemma ArnMatch_repo: "uuid_text u \<Longrightarrow> uuid_text r \<Longrightarrow> ArnMatch (RepoURArn u r) (RepoURArn u r)"
  using ArnMatch_prefix [of "''repository/'' @ u @ ''/'' @ r" "''repository/'' @ u @ ''/'' @ r"]
    Match_literal [of "''repository/'' @ u @ ''/'' @ r" "''repository/'' @ u @ ''/'' @ r"]
    uuid_text_plain [of u] uuid_text_plain [of r]
  by (simp add: RepoURArn_def)

lemma ArnMatch_user: "uuid_text u \<Longrightarrow> uuid_text r \<Longrightarrow> ArnMatch (RepoUArn u) (RepoURArn u r)"
  using ArnMatch_prefix [of "(''repository/'' @ u @ ''/'') @ ''*''" "(''repository/'' @ u @ ''/'') @ r"]
    Match_prefix [of "(''repository/'' @ u @ ''/'') @ r" "''repository/'' @ u @ ''/''"]
    uuid_text_plain [of u] uuid_text_plain [of r]
  by (simp add: RepoURArn_def RepoUArn_def has_prefix_def)


subsection \<open>The built-in groups in the tables\<close>

text \<open>
  A built-in group can be found by its name and by its id, and its policies are one policy with
  the given statements.
\<close>

definition has_builtin :: "access_db \<Rightarrow> string \<Rightarrow> statement list \<Rightarrow> bool" where
  "has_builtin d nm ss \<longleftrightarrow> (\<exists>g p. GroupRepo_Get (NewGetGroupParams\<lparr>gg_name := Some nm\<rparr>) d = Inr g \<and>
     GroupRepo_Get (NewGetGroupParams\<lparr>gg_id := gp_id g\<rparr>) d = Inr g \<and> gp_id g \<noteq> uuid_Nil \<and>
     gp_policies g \<noteq> [] \<and> set (gp_policies g) \<subseteq> po_id ` set (ad_policies d) \<and>
     PolicyRepo_List (gp_policies g) d = [p] \<and> po_statements p = ss)"

text \<open>The database has issued every id in the tables, and issues no id twice.\<close>

definition ids_ok :: "access_db \<Rightarrow> bool" where
  "ids_ok d \<longleftrightarrow> inj (db_uuids (ad_db d)) \<and> (\<forall>n. db_uuids (ad_db d) n \<noteq> uuid_Nil) \<and>
     po_id ` set (ad_policies d) \<union> gp_id ` set (ad_groups d) \<subseteq> db_uuids (ad_db d) ` {..<db_issued (ad_db d)}"

text \<open>What adding one built-in group does to the tables.\<close>

definition with_builtin :: "time \<Rightarrow> string \<Rightarrow> statement list \<Rightarrow> access_db \<Rightarrow> access_db" where
  "with_builtin now nm ss d =
     (let d0 = ad_db d; i = db_uuids d0 (db_issued d0); j = db_uuids d0 (Suc (db_issued d0))
      in d\<lparr>ad_db := d0\<lparr>db_issued := Suc (Suc (db_issued d0))\<rparr>,
           ad_policies := ad_policies d @ [make_policy now nm ss\<lparr>po_id := i\<rparr>],
           ad_groups := ad_groups d @ [\<lparr>gp_id = j, gp_name = nm, gp_policies = [i], gp_created = now, gp_updated = now\<rparr>]\<rparr>)"

definition builtin_group :: "time \<Rightarrow> string \<Rightarrow> access_db \<Rightarrow> rgroup" where
  "builtin_group now nm d =
     (let d0 = ad_db d
      in \<lparr>gp_id = db_uuids d0 (Suc (db_issued d0)), gp_name = nm, gp_policies = [db_uuids d0 (db_issued d0)],
          gp_created = now, gp_updated = now\<rparr>)"

lemma ids_ok_fresh:
  assumes "ids_ok d" "db_issued (ad_db d) \<le> n"
  shows "db_uuids (ad_db d) n \<notin> po_id ` set (ad_policies d)" "db_uuids (ad_db d) n \<notin> gp_id ` set (ad_groups d)"
  using assms by (fastforce simp: ids_ok_def inj_eq)+

lemma add_builtin_eq:
  assumes "ids_ok d" "nm \<notin> po_name ` set (ad_policies d)" "nm \<notin> gp_name ` set (ad_groups d)"
  shows "add_builtin now nm (Inr ss) d = (Inr (builtin_group now nm d), with_builtin now nm ss d)"
  using assms(2,3) ids_ok_fresh [OF assms(1), of "db_issued (ad_db d)"]
    ids_ok_fresh [OF assms(1), of "Suc (db_issued (ad_db d))"]
  by (simp add: add_builtin_def addGroupPolicy_def PolicyRepo_Insert_def GroupRepo_Insert_def access_id_def
      row_id_def make_policy_def tbl_insert2_def with_builtin_def builtin_group_def Let_def)

lemma with_builtin_ids: "ids_ok d \<Longrightarrow> ids_ok (with_builtin now nm ss d)"
  by (auto simp: ids_ok_def with_builtin_def Let_def make_policy_def lessThan_Suc)

lemma holds_single: "holds [c] = c"
  by (simp add: holds_def fun_eq_iff)

lemma q_select_one_append: "q_select_one cs t = Inr r \<Longrightarrow> q_select_one cs (t @ u) = Inr r"
  by (simp add: q_select_one_def tbl_get_Inr_iff find_append)

lemma PolicyRepo_List_other:
  assumes "i \<noteq> []" "set i \<subseteq> po_id ` set (ad_policies d)" "po_id p \<notin> po_id ` set (ad_policies d)"
    "ad_policies d' = ad_policies d @ [p]"
  shows "PolicyRepo_List i d' = PolicyRepo_List i d"
  using assms by (auto simp: PolicyRepo_List_def q_select_def tbl_list_def holds_def)

lemma with_builtin_keeps:
  assumes "ids_ok d" "has_builtin d nm' ss'" "nm' \<noteq> nm"
  shows "has_builtin (with_builtin now nm ss d) nm' ss'"
proof -
  let ?d = "with_builtin now nm ss d"
  obtain g p where g: "GroupRepo_Get (NewGetGroupParams\<lparr>gg_name := Some nm'\<rparr>) d = Inr g"
    "GroupRepo_Get (NewGetGroupParams\<lparr>gg_id := gp_id g\<rparr>) d = Inr g" "gp_id g \<noteq> uuid_Nil"
    "gp_policies g \<noteq> []" "set (gp_policies g) \<subseteq> po_id ` set (ad_policies d)" "PolicyRepo_List (gp_policies g) d = [p]" "po_statements p = ss'"
    using assms(2) unfolding has_builtin_def by blast
  have keep: "GroupRepo_Get q ?d = Inr g" if "GroupRepo_Get q d = Inr g" for q
    using that unfolding GroupRepo_Get_def with_builtin_def Let_def by (simp add: q_select_one_append)
  have "PolicyRepo_List (gp_policies g) ?d = [p]"
    using PolicyRepo_List_other [OF g(4,5), of "make_policy now nm ss\<lparr>po_id := db_uuids (ad_db d) (db_issued (ad_db d))\<rparr>" ?d]
      ids_ok_fresh(1) [OF assms(1) order_refl] g(6) by (simp add: with_builtin_def Let_def)
  with g keep [OF g(1)] keep [OF g(2)] show ?thesis
    unfolding has_builtin_def by (intro exI [of _ g] exI [of _ p]) (auto simp: with_builtin_def Let_def)
qed

lemma with_builtin_adds:
  assumes "ids_ok d" "nm \<notin> gp_name ` set (ad_groups d)"
  shows "has_builtin (with_builtin now nm ss d) nm ss"
proof -
  let ?d = "with_builtin now nm ss d" and ?g = "builtin_group now nm d"
  let ?p = "make_policy now nm ss\<lparr>po_id := db_uuids (ad_db d) (db_issued (ad_db d))\<rparr>"
  have new: "ad_policies ?d = ad_policies d @ [?p]" "ad_groups ?d = ad_groups d @ [?g]"
    by (simp_all add: with_builtin_def builtin_group_def Let_def)
  have "find (\<lambda>g. gp_name g = nm) (ad_groups d) = None" using assms(2) by (auto simp: find_None_iff)
  then have "GroupRepo_Get (NewGetGroupParams\<lparr>gg_name := Some nm\<rparr>) ?d = Inr ?g"
    by (simp add: GroupRepo_Get_def q_select_one_def tbl_get_def NewGetGroupParams_def where_id_def where_opt_def
        holds_single new find_append) (simp add: builtin_group_def Let_def)
  moreover have nil: "gp_id ?g \<noteq> uuid_Nil" using assms(1) by (simp add: builtin_group_def ids_ok_def Let_def)
  moreover have "find (\<lambda>g. gp_id g = gp_id ?g) (ad_groups d) = None"
    using ids_ok_fresh(2) [OF assms(1), of "Suc (db_issued (ad_db d))"]
    by (auto simp: find_None_iff builtin_group_def Let_def image_iff)
  then have "GroupRepo_Get (NewGetGroupParams\<lparr>gg_id := gp_id ?g\<rparr>) ?d = Inr ?g"
    using nil by (simp add: GroupRepo_Get_def q_select_one_def tbl_get_def NewGetGroupParams_def where_id_def
        where_opt_def holds_single new find_append)
  moreover have "PolicyRepo_List (gp_policies ?g) ?d = [?p]"
  proof -
    have "filter (\<lambda>p. po_id p = db_uuids (ad_db d) (db_issued (ad_db d))) (ad_policies d) = []"
      using ids_ok_fresh(1) [OF assms(1) order_refl] by (auto simp: filter_empty_conv image_iff)
    then show ?thesis
      by (simp add: PolicyRepo_List_def q_select_def tbl_list_def holds_single new builtin_group_def Let_def)
  qed
  ultimately show ?thesis
    unfolding has_builtin_def
    by (intro exI [of _ ?g] exI [of _ ?p]) (simp add: new builtin_group_def make_policy_def Let_def)
qed


text \<open>The tables hold exactly the built-in groups of a list, each with its policy of the same name.\<close>

definition builtins_ok :: "access_db \<Rightarrow> (string \<times> statement list) list \<Rightarrow> bool" where
  "builtins_ok d B \<longleftrightarrow> ids_ok d \<and> po_name ` set (ad_policies d) = fst ` set B \<and>
     gp_name ` set (ad_groups d) = fst ` set B \<and> (\<forall>(nm, ss) \<in> set B. has_builtin d nm ss)"

lemma add_builtin_step:
  assumes "builtins_ok d B" "nm \<notin> fst ` set B"
  shows "add_builtin now nm (Inr ss) d = (Inr (builtin_group now nm d), with_builtin now nm ss d)"
    and "builtins_ok (with_builtin now nm ss d) ((nm, ss) # B)"
proof -
  have d: "ids_ok d" "po_name ` set (ad_policies d) = fst ` set B" "gp_name ` set (ad_groups d) = fst ` set B"
    using assms(1) by (simp_all add: builtins_ok_def)
  show "add_builtin now nm (Inr ss) d = (Inr (builtin_group now nm d), with_builtin now nm ss d)"
    using assms(2) d by (intro add_builtin_eq) simp_all
  have "has_builtin (with_builtin now nm ss d) nm' ss'" if "(nm', ss') \<in> set B" for nm' ss'
  proof (rule with_builtin_keeps [OF d(1)])
    show "has_builtin d nm' ss'" using assms(1) that by (auto simp: builtins_ok_def)
    show "nm' \<noteq> nm" using assms(2) that by force
  qed
  moreover have "has_builtin (with_builtin now nm ss d) nm ss"
    using assms(2) d by (intro with_builtin_adds) simp_all
  ultimately show "builtins_ok (with_builtin now nm ss d) ((nm, ss) # B)"
    using with_builtin_ids [OF d(1)] d(2,3)
    by (auto simp: builtins_ok_def with_builtin_def make_policy_def Let_def)
qed

definition repo_statements :: "string \<Rightarrow> statement list" where
  "repo_statements typ =
     (case MakeStatementForPolicyType typ [RepoURArn UserIDCapture RepoIDCapture] of Inl _ \<Rightarrow> [] | Inr ss \<Rightarrow> ss)"

text \<open>The groups that \<open>InitRbac\<close> adds, the last one first.\<close>

definition builtins :: "(string \<times> statement list) list" where
  "builtins =
     [(''UserOwnAccess'', [allow_statement [''auth:*'', ''user:*'']\<lparr>st_Resource := UserArn UserIDCapture\<rparr>,
         allow_statement [''auth:*'', ''user:*'']\<lparr>st_Resource := UserAkskArn UserIDCapture\<rparr>, UserOwner_extra]),
      (''Viewer'', repo_statements ''RepoRead''),
      (''RepoRead'', repo_statements ''RepoRead''),
      (''RepoWrite'', repo_statements ''RepoReadWrite''),
      (''RepoAdmin'', RepoAdmin_statements),
      (''Super'', [allow_statement [''repo:*'', ''auth:*'', ''user:*'']\<lparr>st_Resource := All\<rparr>])]"

lemma make_statements:
  "MakeStatementForPolicyTypeOrDie ''AllAccess'' [All] =
     Inr [allow_statement [''repo:*'', ''auth:*'', ''user:*'']\<lparr>st_Resource := All\<rparr>]"
  "MakeStatementForPolicyTypeOrDie ''RepoReadWrite'' [RepoURArn UserIDCapture RepoIDCapture] = Inr (repo_statements ''RepoReadWrite'')"
  "MakeStatementForPolicyTypeOrDie ''RepoRead'' [RepoURArn UserIDCapture RepoIDCapture] = Inr (repo_statements ''RepoRead'')"
  "MakeStatementForPolicyTypeOrDie ''UserFullAccess'' [UserArn UserIDCapture, UserAkskArn UserIDCapture] =
     Inr [allow_statement [''auth:*'', ''user:*'']\<lparr>st_Resource := UserArn UserIDCapture\<rparr>,
       allow_statement [''auth:*'', ''user:*'']\<lparr>st_Resource := UserAkskArn UserIDCapture\<rparr>]"
  by (simp_all add: MakeStatementForPolicyTypeOrDie_def MakeStatementForPolicyType_def statementByName_def
      allow_statement_def statement_empty_def repo_statements_def)

lemma init_groups_run:
  assumes "builtins_ok d []"
  shows "\<exists>d'. init_groups now d = (Inr (builtin_group now ''Super'' d), d') \<and> builtins_ok d' builtins \<and>
    ad_user_groups d' = ad_user_groups d \<and> ad_members d' = ad_members d \<and>
    (\<exists>gs. ad_groups d' = ad_groups d @ builtin_group now ''Super'' d # gs) \<and>
    (\<exists>n \<ge> db_issued (ad_db d). ad_db d' = (ad_db d)\<lparr>db_issued := n\<rparr>)"
proof -
  note step = add_builtin_step
  define d1 where "d1 = with_builtin now ''Super'' (snd (builtins ! 5)) d"
  define d2 where "d2 = with_builtin now ''RepoAdmin'' (snd (builtins ! 4)) d1"
  define d3 where "d3 = with_builtin now ''RepoWrite'' (snd (builtins ! 3)) d2"
  define d4 where "d4 = with_builtin now ''RepoRead'' (snd (builtins ! 2)) d3"
  define d5 where "d5 = with_builtin now ''Viewer'' (snd (builtins ! 1)) d4"
  define d6 where "d6 = with_builtin now ''UserOwnAccess'' (snd (builtins ! 0)) d5"
  note B = builtins_def
  have 1: "add_builtin now ''Super'' (Inr (snd (builtins ! 5))) d = (Inr (builtin_group now ''Super'' d), d1)"
    "builtins_ok d1 (drop 5 builtins)" using step [OF assms, of "''Super''" now "snd (builtins ! 5)"] by (simp_all add: d1_def B)
  have 2: "add_builtin now ''RepoAdmin'' (Inr (snd (builtins ! 4))) d1 = (Inr (builtin_group now ''RepoAdmin'' d1), d2)"
    "builtins_ok d2 (drop 4 builtins)" using step [OF 1(2), of "''RepoAdmin''" now "snd (builtins ! 4)"] by (simp_all add: d2_def B)
  have 3: "add_builtin now ''RepoWrite'' (Inr (snd (builtins ! 3))) d2 = (Inr (builtin_group now ''RepoWrite'' d2), d3)"
    "builtins_ok d3 (drop 3 builtins)" using step [OF 2(2), of "''RepoWrite''" now "snd (builtins ! 3)"] by (simp_all add: d3_def B)
  have 4: "add_builtin now ''RepoRead'' (Inr (snd (builtins ! 2))) d3 = (Inr (builtin_group now ''RepoRead'' d3), d4)"
    "builtins_ok d4 (drop 2 builtins)" using step [OF 3(2), of "''RepoRead''" now "snd (builtins ! 2)"] by (simp_all add: d4_def B)
  have 5: "add_builtin now ''Viewer'' (Inr (snd (builtins ! 1))) d4 = (Inr (builtin_group now ''Viewer'' d4), d5)"
    "builtins_ok d5 (drop 1 builtins)" using step [OF 4(2), of "''Viewer''" now "snd (builtins ! 1)"] by (simp_all add: d5_def B)
  have 6: "add_builtin now ''UserOwnAccess'' (Inr (snd (builtins ! 0))) d5 = (Inr (builtin_group now ''UserOwnAccess'' d5), d6)"
    "builtins_ok d6 builtins" using step [OF 5(2), of "''UserOwnAccess''" now "snd (builtins ! 0)"] by (simp_all add: d6_def B)
  have "init_groups now d = (Inr (builtin_group now ''Super'' d), d6)"
    using 1(1) 2(1) 3(1) 4(1) 5(1) 6(1)
    by (simp add: init_groups_def Let_def make_statements B bind_st_def)
  moreover have "\<exists>gs. ad_groups d6 = ad_groups d @ builtin_group now ''Super'' d # gs"
    by (simp add: d1_def d2_def d3_def d4_def d5_def d6_def with_builtin_def builtin_group_def Let_def)
  moreover have "ad_user_groups d6 = ad_user_groups d" "ad_members d6 = ad_members d"
    "ad_db d6 = (ad_db d)\<lparr>db_issued := db_issued (ad_db d) + 12\<rparr>"
    by (simp_all add: d1_def d2_def d3_def d4_def d5_def d6_def with_builtin_def Let_def)
  ultimately show ?thesis
    using 6(2) by (intro exI [of _ d6]) (simp, rule exI [of _ "db_issued (ad_db d) + 12"], simp)
qed


lemma has_builtin_cong:
  "ad_policies d' = ad_policies d \<Longrightarrow> ad_groups d' = ad_groups d \<Longrightarrow> has_builtin d' nm ss \<longleftrightarrow> has_builtin d nm ss"
  by (simp add: has_builtin_def GroupRepo_Get_def PolicyRepo_List_def)

lemma GroupRepo_Get_id:
  "i \<noteq> uuid_Nil \<Longrightarrow> GroupRepo_Get (NewGetGroupParams\<lparr>gg_id := i\<rparr>) d = Inr g \<Longrightarrow> find (\<lambda>g. gp_id g = i) (ad_groups d) = Some g"
  by (simp add: GroupRepo_Get_def NewGetGroupParams_def where_id_def where_opt_def q_select_one_def tbl_get_Inr_iff holds_single)

lemma all_statements_one [simp]: "all_statements [p] = set (po_statements p)"
  by (simp add: all_statements_def)

subsection \<open>The administrator\<close>

definition service_action :: "string \<Rightarrow> bool" where
  "service_action a \<longleftrightarrow> has_prefix a ''repo:'' \<or> has_prefix a ''auth:'' \<or> has_prefix a ''user:''"

lemma Render_All: "Render us rp All = All"
proof -
  have "WithUserID All t = All" "WithRepoID All t = All" for t
    by (simp_all add: WithUserID_def WithRepoID_def UserIDCapture_def RepoIDCapture_def All_def
        replace_all.simps has_prefix_def)
  then show ?thesis by (simp add: Render_def)
qed

lemma decide_super:
  assumes "ascii (pm_Action perm)" "po_statements p = [allow_statement [''repo:*'', ''auth:*'', ''user:*'']\<lparr>st_Resource := All\<rparr>]"
  shows "decide us rp [p] perm = (if service_action (pm_Action perm) then CheckAllow else CheckNeutral)"
  using Match_prefix [OF assms(1), of "''repo:''"] Match_prefix [OF assms(1), of "''auth:''"]
    Match_prefix [OF assms(1), of "''user:''"]
  by (simp add: decide_def assms(2) applies_def allow_statement_def statement_empty_def Render_All ArnMatch_def
      service_action_def StatementEffectAllow_def StatementEffectDeny_def)

lemma insert_user_first:
  assumes "db_users (ad_db d) = []"
  shows "\<exists>d'. insert_user u d = (Inr (u\<lparr>us_id := fst (row_id (us_id u) (ad_db d))\<rparr>), d') \<and> ad_policies d' = ad_policies d \<and>
    ad_groups d' = ad_groups d \<and> ad_user_groups d' = ad_user_groups d \<and> ad_members d' = ad_members d \<and>
    db_users (ad_db d') = [u\<lparr>us_id := fst (row_id (us_id u) (ad_db d))\<rparr>]"
  using assms by (cases "us_id u = uuid_Nil") (simp_all add: insert_user_def UserRepo_Insert_def row_id_def tbl_insert2_def)

lemma InitRbac_run:
  assumes "ad_policies d = []" "ad_groups d = []" "ad_user_groups d = []" "db_users (ad_db d) = []"
    "inj (db_uuids (ad_db d))" "\<forall>n. db_uuids (ad_db d) n \<noteq> uuid_Nil"
  shows "\<exists>i ug d'. InitRbac now admin d = (Inr (), d') \<and> (\<forall>(nm, ss) \<in> set builtins. has_builtin d' nm ss) \<and>
    (\<exists>gs. ad_groups d' = builtin_group now ''Super'' d # gs) \<and> ad_user_groups d' = [ug] \<and> ug_user ug = i \<and>
    ug_group ug = gp_id (builtin_group now ''Super'' d) \<and> db_users (ad_db d') = [admin\<lparr>us_id := i\<rparr>] \<and>
    ad_members d' = ad_members d"
proof -
  let ?g = "builtin_group now ''Super'' d"
  have "builtins_ok d []" using assms by (simp add: builtins_ok_def ids_ok_def)
  from init_groups_run [OF this, of now] obtain d1 n where run: "init_groups now d = (Inr (builtin_group now ''Super'' d), d1)"
    and ok: "builtins_ok d1 builtins"
    and groups: "\<exists>gs. ad_groups d1 = ?g # gs"
    and d1: "ad_user_groups d1 = []" "ad_members d1 = ad_members d" "ad_db d1 = (ad_db d)\<lparr>db_issued := n\<rparr>"
    using assms(2,3) by auto
  let ?i = "fst (row_id (us_id admin) (ad_db d1))"
  let ?u = "admin\<lparr>us_id := ?i\<rparr>"
  from insert_user_first [of d1 admin] d1 assms(4) obtain d2 where d2: "insert_user admin d1 = (Inr ?u, d2)"
    "ad_policies d2 = ad_policies d1" "ad_groups d2 = ad_groups d1" "ad_user_groups d2 = []"
    "ad_members d2 = ad_members d" "db_users (ad_db d2) = [?u]" by auto
  let ?ug = "\<lparr>ug_id = uuid_Nil, ug_user = ?i, ug_group = gp_id ?g, ug_created = now, ug_updated = now\<rparr>"
  let ?j = "fst (row_id uuid_Nil (ad_db d2))"
  define d3 where "d3 = d2\<lparr>ad_db := snd (row_id uuid_Nil (ad_db d2)), ad_user_groups := [?ug\<lparr>ug_id := ?j\<rparr>]\<rparr>"
  have d3: "ad_policies d3 = ad_policies d1" "ad_groups d3 = ad_groups d1" "ad_user_groups d3 = [?ug\<lparr>ug_id := ?j\<rparr>]"
    "ad_members d3 = ad_members d" "db_users (ad_db d3) = [?u]"
    using d2 by (simp_all add: d3_def row_id_def)
  have "UserGroupRepo_Insert ?ug d2 = (Inr (?ug\<lparr>ug_id := ?j\<rparr>), d3)"
    using d2(4) by (simp add: UserGroupRepo_Insert_def access_id_def row_id_def tbl_insert2_def d3_def)
  then have init: "InitRbac now admin d = (Inr (), d3)"
    using run d2(1) by (simp add: InitRbac_def access_transaction_def bind_st_def)
  have "has_builtin d3 nm ss" if "(nm, ss) \<in> set builtins" for nm ss
    using ok that has_builtin_cong [OF d3(1,2), of nm ss] by (auto simp: builtins_ok_def)
  with init d3 groups show ?thesis
    by (intro exI [of _ ?i] exI [of _ "?ug\<lparr>ug_id := ?j\<rparr>"] exI [of _ d3]) auto
qed

text \<open>
  C22: Setting up access control on empty tables succeeds and creates the six built-in groups, each
  with one policy of its statements; the administrator it creates is then allowed exactly the
  actions of the three services, on any resource.
\<close>

theorem InitRbac_ready:
  assumes "ad_policies d = []" "ad_groups d = []" "ad_user_groups d = []" "db_users (ad_db d) = []"
    "inj (db_uuids (ad_db d))" "\<forall>n. db_uuids (ad_db d) n \<noteq> uuid_Nil"
  shows "\<exists>u d'. InitRbac now admin d = (Inr (), d') \<and> (\<forall>(nm, ss) \<in> set builtins. has_builtin d' nm ss) \<and>
    db_users (ad_db d') = [u] \<and> us_name u = us_name admin \<and> ad_members d' = ad_members d \<and>
    (\<forall>a r. ascii a \<longrightarrow>
      Authorize us (us_id u) (perm_node a r) d' = Inr (if service_action a then allowed_response else not_allowed))"
proof -
  let ?g = "builtin_group now ''Super'' d"
  let ?ss = "[allow_statement [''repo:*'', ''auth:*'', ''user:*'']\<lparr>st_Resource := All\<rparr>]"
  from InitRbac_run [OF assms, of now admin] obtain i and ug :: user_group and d' gs
    where run: "InitRbac now admin d = (Inr (), d')" "\<forall>(nm, ss) \<in> set builtins. has_builtin d' nm ss"
    and groups: "ad_groups d' = ?g # gs" "ad_user_groups d' = [ug]" "ug_user ug = i" "ug_group ug = gp_id ?g"
    and users: "db_users (ad_db d') = [admin\<lparr>us_id := i\<rparr>]" "ad_members d' = ad_members d"
    by (elim exE conjE) (rule that; assumption)
  have "(''Super'', ?ss) \<in> set builtins" by (simp add: builtins_def)
  then have "has_builtin d' ''Super'' ?ss" using run(2) by blast
  then obtain g p where g: "GroupRepo_Get (NewGetGroupParams\<lparr>gg_name := Some ''Super''\<rparr>) d' = Inr g"
    "GroupRepo_Get (NewGetGroupParams\<lparr>gg_id := gp_id g\<rparr>) d' = Inr g" "gp_id g \<noteq> uuid_Nil"
    "PolicyRepo_List (gp_policies g) d' = [p]" "po_statements p = ?ss"
    unfolding has_builtin_def by blast
  have "g = ?g"
    using g(1) groups(1) by (auto simp: GroupRepo_Get_def NewGetGroupParams_def where_id_def where_opt_def
        q_select_one_def tbl_get_Inr_iff holds_single builtin_group_def Let_def)
  then have "listEffectivePolicies i d' = Inr [p]"
    using GroupRepo_Get_id [OF g(3,2)] g(4) groups
    by (simp add: listEffectivePolicies_def GroupRepo_GetGroupByUserID_def q_select_one_def tbl_get_def holds_single)
  then have "Authorize us i (perm_node a r) d' = Inr (if service_action a then allowed_response else not_allowed)"
    if "ascii a" for a r
    using decide_super [OF _ g(5), of "\<lparr>pm_Action = a, pm_Resource = r\<rparr>" us "\<lparr>rs_user = i, rs_repo = uuid_Nil\<rparr>"] that
    unfolding Authorize_def perm_node_def checkPermissions_Node by simp
  with run users show ?thesis
    by (intro exI [of _ "admin\<lparr>us_id := i\<rparr>"] exI [of _ d']) auto
qed

definition empty_access :: access_db where
  "empty_access = \<lparr>ad_db = empty_db, ad_policies = [], ad_groups = [], ad_user_groups = [], ad_members = []\<rparr>"

definition demo_admin :: user where
  "demo_admin = \<lparr>us_id = uuid_Nil, us_name = ''admin'', us_email = [], us_encrypted_password = [],
     us_current_sign_in_at = 0, us_last_sign_in_at = 0, us_current_sign_in_ip = [], us_last_sign_in_ip = [],
     us_created = 0, us_updated = 0\<rparr>"

lemma uuid_Nil_neq_w: "replicate n (CHR ''w'') \<noteq> uuid_Nil"
  by (cases "n = 16") (auto simp: uuid_Nil_def dest: arg_cong [of _ _ length])

lemma empty_access_ok:
  "ad_policies empty_access = []" "ad_groups empty_access = []" "ad_user_groups empty_access = []"
  "db_users (ad_db empty_access) = []"
  "inj (db_uuids (ad_db empty_access))" "\<forall>n. db_uuids (ad_db empty_access) n \<noteq> uuid_Nil"
  by (auto simp: empty_access_def empty_db_def uuid_Nil_neq_w inj_def dest: arg_cong [of _ _ length])

lemma InitRbac_ready_witness:
  "\<exists>(u :: user) d'. InitRbac 0 demo_admin empty_access = (Inr (), d') \<and>
     Authorize id (us_id u) (perm_node ''repo:DeleteTag'' All) d' = Inr allowed_response"
proof -
  have "ascii ''repo:DeleteTag''" "service_action ''repo:DeleteTag''"
    by (simp_all add: ascii_def service_action_def has_prefix_def)
  moreover obtain u :: user and d'
    where "InitRbac 0 demo_admin empty_access = (Inr (), d')" and
      "\<forall>a r. ascii a \<longrightarrow> Authorize id (us_id u) (perm_node a r) d' = Inr (if service_action a then allowed_response else not_allowed)"
    using InitRbac_ready [OF empty_access_ok, of 0 demo_admin id] by (elim exE conjE) (rule that; assumption)
  ultimately show ?thesis by (intro exI [of _ u] exI [of _ d']) simp
qed

subsection \<open>Members of a repository\<close>

definition is_read :: "string \<Rightarrow> bool" where
  "is_read a \<longleftrightarrow> has_prefix a ''repo:Read'' \<or> has_prefix a ''repo:List''"

text \<open>What a member of a group may do, by the name of the group.\<close>

definition role_allows :: "string \<Rightarrow> string \<Rightarrow> bool" where
  "role_allows nm a \<longleftrightarrow>
     (if nm = ''RepoRead'' then is_read a
      else if nm = ''RepoWrite'' then a \<in> set RepoReadWrite_actions
      else nm = ''RepoAdmin'' \<and> has_prefix a ''repo:'' \<and> a \<noteq> ''repo:UpdateVisible'')"

definition role_names :: "string list" where
  "role_names = [''RepoRead'', ''RepoWrite'', ''RepoAdmin'']"

lemma applies_allow:
  assumes "uuid_text (us u)" "uuid_text (us r)" "u \<noteq> uuid_Nil" "r \<noteq> uuid_Nil"
  shows "applies us \<lparr>rs_user = u, rs_repo = r\<rparr> \<lparr>pm_Action = a, pm_Resource = RepoURArn (us u) (us r)\<rparr>
      \<lparr>st_Effect = e, st_Action = as, st_Resource = RepoURArn UserIDCapture RepoIDCapture\<rparr> \<longleftrightarrow> (\<exists>x \<in> set as. Match x a)"
    and "applies us \<lparr>rs_user = u, rs_repo = r\<rparr> \<lparr>pm_Action = a, pm_Resource = RepoURArn (us u) (us r)\<rparr>
      \<lparr>st_Effect = e, st_Action = as, st_Resource = RepoUArn UserIDCapture\<rparr> \<longleftrightarrow> (\<exists>x \<in> set as. Match x a)"
  using assms by (simp_all add: applies_def Render_repo Render_user ArnMatch_repo ArnMatch_user)

lemma repo_statements_eq:
  "repo_statements ''RepoRead'' = [\<lparr>st_Effect = StatementEffectAllow, st_Action = [''repo:Read*'', ''repo:List*''],
     st_Resource = RepoURArn UserIDCapture RepoIDCapture\<rparr>]"
  "repo_statements ''RepoReadWrite'' = [\<lparr>st_Effect = StatementEffectAllow, st_Action = RepoReadWrite_actions,
     st_Resource = RepoURArn UserIDCapture RepoIDCapture\<rparr>]"
  by (simp_all add: repo_statements_def MakeStatementForPolicyType_def statementByName_def allow_statement_def statement_empty_def)

lemma effects: "StatementEffectAllow \<noteq> StatementEffectDeny"
  by (simp add: StatementEffectAllow_def StatementEffectDeny_def)

lemma Match_read: "ascii a \<Longrightarrow> Match ''repo:Read*'' a \<longleftrightarrow> has_prefix a ''repo:Read''"
  "ascii a \<Longrightarrow> Match ''repo:List*'' a \<longleftrightarrow> has_prefix a ''repo:List''"
  "ascii a \<Longrightarrow> Match ''repo:*'' a \<longleftrightarrow> has_prefix a ''repo:''"
  using Match_prefix [of a "''repo:Read''"] Match_prefix [of a "''repo:List''"] Match_prefix [of a "''repo:''"] by simp_all

lemma Match_actions: "ascii a \<Longrightarrow> (\<exists>x \<in> set RepoReadWrite_actions. Match x a) \<longleftrightarrow> a \<in> set RepoReadWrite_actions"
proof -
  assume a: "ascii a"
  have "\<forall>x \<in> set RepoReadWrite_actions. CHR ''*'' \<notin> set x \<and> CHR ''?'' \<notin> set x"
    by (simp add: RepoReadWrite_actions_def)
  then show ?thesis using Match_literal [OF a] by blast
qed

lemma Match_UpdateVisible: "ascii a \<Longrightarrow> Match ''repo:UpdateVisible'' a \<longleftrightarrow> a = ''repo:UpdateVisible''"
  using Match_literal [of a "''repo:UpdateVisible''"] by auto

lemma is_read_not_UpdateVisible: "is_read a \<Longrightarrow> a \<noteq> ''repo:UpdateVisible''"
  by (auto simp: is_read_def has_prefix_def)

text \<open>The decision with the policies of the viewer group and of a member's group.\<close>

lemma decide_roles:
  assumes ids: "uuid_text (us u)" "uuid_text (us r)" "u \<noteq> uuid_Nil" "r \<noteq> uuid_Nil" and a: "ascii a"
    and nm: "nm \<in> set role_names" "(nm, ss) \<in> set builtins" "po_statements p = ss"
    and vs: "\<forall>v \<in> set vs. po_statements v = repo_statements ''RepoRead''"
  shows "decide us \<lparr>rs_user = u, rs_repo = r\<rparr> (vs @ [p]) \<lparr>pm_Action = a, pm_Resource = RepoURArn (us u) (us r)\<rparr> = CheckAllow \<longleftrightarrow>
    \<not> (nm = ''RepoAdmin'' \<and> a = ''repo:UpdateVisible'') \<and> (vs \<noteq> [] \<and> is_read a \<or> role_allows nm a)"
proof -
  have all: "all_statements (vs @ [p]) = (if vs = [] then {} else set (repo_statements ''RepoRead'')) \<union> set ss"
    using vs nm(3) by (auto simp: all_statements_def)
  note ap = applies_allow [OF ids] Match_read [OF a] Match_actions [OF a] Match_UpdateVisible [OF a]
  from nm(1,2) consider "nm = ''RepoRead''" "ss = repo_statements ''RepoRead''"
    | "nm = ''RepoWrite''" "ss = repo_statements ''RepoReadWrite''" | "nm = ''RepoAdmin''" "ss = RepoAdmin_statements"
    by (auto simp: role_names_def builtins_def)
  then show ?thesis
  proof cases
    case 1
    then show ?thesis unfolding decide_def all
      by (auto simp: repo_statements_eq ap effects role_allows_def is_read_def)
  next
    case 2
    then show ?thesis unfolding decide_def all
      by (auto simp: repo_statements_eq ap effects role_allows_def is_read_def)
  next
    case 3
    then show ?thesis unfolding decide_def all
      by (auto simp: repo_statements_eq RepoAdmin_statements_def ap effects role_allows_def is_read_def
          dest: is_read_not_UpdateVisible)
  qed
qed


lemma role_builtin: "nm \<in> set role_names \<Longrightarrow> \<exists>ss. (nm, ss) \<in> set builtins"
proof -
  assume "nm \<in> set role_names"
  then have "nm \<in> set (map fst builtins)" by (simp add: role_names_def builtins_def, elim disjE) simp_all
  then show ?thesis by force
qed

lemma has_builtinE:
  assumes "has_builtin d nm ss" "GroupRepo_Get (NewGetGroupParams\<lparr>gg_name := Some nm\<rparr>) d = Inr g"
  obtains p where "GroupRepo_Get (NewGetGroupParams\<lparr>gg_id := gp_id g\<rparr>) d = Inr g" "gp_id g \<noteq> uuid_Nil"
    "PolicyRepo_List (gp_policies g) d = [p]" "po_statements p = ss"
  using assms unfolding has_builtin_def by auto

lemma getViewerPolicy_builtin:
  assumes "has_builtin d ''Viewer'' ss"
  obtains v where "getViewerPolicy d [] = (Inr [v], [v])" "po_statements v = ss"
  using assms unfolding has_builtin_def getViewerPolicy_def by (auto simp: Let_def)

lemma perm_check:
  "checkPermissions us (perm_node a r) params policies = decide us params policies \<lparr>pm_Action = a, pm_Resource = r\<rparr>"
  unfolding perm_node_def by (rule checkPermissions_Node)

text \<open>
  C11: On a repository of another user a member is allowed exactly the actions of the member's
  group: a reader those that read or list, a writer the listed ones, an administrator every
  action on the repository but changing its visibility; on a visible repository reading and
  listing are allowed as well.
\<close>

theorem member_permissions:
  assumes "\<forall>(nm, ss) \<in> set builtins. has_builtin d nm ss"
    "RepositoryRepo_Get (NewGetRepoParams\<lparr>gr_id := rid\<rparr>) (ad_db d) = Inr repo" "rp_owner repo \<noteq> operator"
    "MemberRepo_GetMember \<lparr>gm_member = uuid_Nil, gm_repo = rid, gm_user = operator\<rparr> d = Inr m"
    "GroupRepo_Get (NewGetGroupParams\<lparr>gg_name := Some nm\<rparr>) d = Inr g" "nm \<in> set role_names" "mb_group m = gp_id g"
    "uuid_text (us (rp_owner repo))" "uuid_text (us rid)" "rp_owner repo \<noteq> uuid_Nil" "rid \<noteq> uuid_Nil" "ascii a"
  shows "fst (AuthorizeMember us rid operator (perm_node a (RepoURArn (us (rp_owner repo)) (us rid))) d []) =
    Inr (if rp_visible repo \<and> is_read a \<or> role_allows nm a then allowed_response else not_allowed)"
proof -
  obtain ss where ss: "(nm, ss) \<in> set builtins" "has_builtin d nm ss"
    using assms(1) role_builtin [OF assms(6)] by blast
  obtain p where p: "GroupRepo_Get (NewGetGroupParams\<lparr>gg_id := gp_id g\<rparr>) d = Inr g" "gp_id g \<noteq> uuid_Nil"
    "PolicyRepo_List (gp_policies g) d = [p]" "po_statements p = ss" using has_builtinE [OF ss(2) assms(5)] .
  have member: "getMemberPolicy operator rid d = Inr [p]"
    using assms(4,7) p(1,3) by (simp add: getMemberPolicy_def)
  have "(''Viewer'', repo_statements ''RepoRead'') \<in> set builtins" by (simp add: builtins_def)
  then have "has_builtin d ''Viewer'' (repo_statements ''RepoRead'')" using assms(1) by blast
  then obtain v where v: "getViewerPolicy d [] = (Inr [v], [v])" "po_statements v = repo_statements ''RepoRead''"
    by (rule getViewerPolicy_builtin)
  note ids = assms(8-12)
  have role: "role_allows nm a \<Longrightarrow> \<not> (nm = ''RepoAdmin'' \<and> a = ''repo:UpdateVisible'')"
    by (intro notI, elim conjE) (simp add: role_allows_def)
  have d: "decide us \<lparr>rs_user = rp_owner repo, rs_repo = rid\<rparr> (vs @ [p])
      \<lparr>pm_Action = a, pm_Resource = RepoURArn (us (rp_owner repo)) (us rid)\<rparr> = CheckAllow \<longleftrightarrow>
      vs \<noteq> [] \<and> is_read a \<or> role_allows nm a"
    if vs: "\<forall>v \<in> set vs. po_statements v = repo_statements ''RepoRead''" for vs
    using decide_roles [where us = us, OF ids(1-5) assms(6) ss(1) p(4) vs] role is_read_not_UpdateVisible by blast
  show ?thesis
  proof (cases "rp_visible repo")
    case True
    with d [of "[v]"] v assms(2,3) member show ?thesis by (simp add: AuthorizeMember_def check_member_def perm_check)
  next
    case False
    with d [of "[]"] assms(2,3) member show ?thesis by (simp add: AuthorizeMember_def check_member_def perm_check)
  qed
qed

text \<open>
  C21: A user who is neither the owner nor a member is allowed nothing on a repository that is not
  visible, and exactly to read and list on a visible one.
\<close>

theorem outsider_permissions:
  assumes "has_builtin d ''Viewer'' (repo_statements ''RepoRead'')"
    "RepositoryRepo_Get (NewGetRepoParams\<lparr>gr_id := rid\<rparr>) (ad_db d) = Inr repo" "rp_owner repo \<noteq> operator"
    "MemberRepo_GetMember \<lparr>gm_member = uuid_Nil, gm_repo = rid, gm_user = operator\<rparr> d = Inl ErrNotFound"
    "uuid_text (us (rp_owner repo))" "uuid_text (us rid)" "rp_owner repo \<noteq> uuid_Nil" "rid \<noteq> uuid_Nil" "ascii a"
  shows "fst (AuthorizeMember us rid operator (perm_node a (RepoURArn (us (rp_owner repo)) (us rid))) d []) =
    Inr (if rp_visible repo \<and> is_read a then allowed_response else not_allowed)"
proof -
  obtain v where v: "getViewerPolicy d [] = (Inr [v], [v])" "po_statements v = repo_statements ''RepoRead''"
    using getViewerPolicy_builtin [OF assms(1)] .
  have "decide us \<lparr>rs_user = rp_owner repo, rs_repo = rid\<rparr> [v] \<lparr>pm_Action = a, pm_Resource = RepoURArn (us (rp_owner repo)) (us rid)\<rparr> =
      CheckAllow \<longleftrightarrow> is_read a"
    by (auto simp: decide_def v(2) repo_statements_eq applies_allow [OF assms(5-8)] Match_read [OF assms(9)] is_read_def effects)
  then show ?thesis
    using v(1) assms(2-4) by (simp add: AuthorizeMember_def getMemberPolicy_def check_member_def perm_check)
qed

text \<open>
  C35: A group without policies is not a group without permissions: the list of policies is asked
  for without a condition then and every policy of the system applies, so that its users may do
  whatever some policy allows and none denies.
\<close>

theorem empty_group_gets_every_policy:
  assumes "GroupRepo_GetGroupByUserID operator d = Inr g" "gp_policies g = []"
  shows "\<exists>ps. listEffectivePolicies operator d = Inr ps \<and> set ps = set (ad_policies d) \<and>
    (Authorize us operator (perm_node a r) d = Inr allowed_response \<longleftrightarrow>
      decide us \<lparr>rs_user = operator, rs_repo = uuid_Nil\<rparr> (ad_policies d) \<lparr>pm_Action = a, pm_Resource = r\<rparr> = CheckAllow)"
proof -
  have "set (PolicyRepo_List [] d) = set (ad_policies d)"
    by (simp add: PolicyRepo_List_def q_select_def tbl_list_def holds_def)
  moreover from this have "all_statements (PolicyRepo_List [] d) = all_statements (ad_policies d)"
    by (simp add: all_statements_def)
  ultimately show ?thesis
    using assms by (simp add: listEffectivePolicies_def Authorize_def perm_check decide_def allowed_response_def not_allowed_def)
qed


subsection \<open>A repository with one reader\<close>

definition private_repo :: repository where
  "private_repo = \<lparr>rp_id = ''r'', rp_name = ''data'', rp_owner = ''o'', rp_HEAD = ''main'', rp_visible = False,
     rp_public_storage = True, rp_namespace = None, rp_adapter_params = None, rp_description = None,
     rp_creator = ''o'', rp_created = 0, rp_updated = 0\<rparr>"

definition demo_member :: "uuid \<Rightarrow> member" where
  "demo_member g = \<lparr>mb_id = ''m'', mb_user = ''x'', mb_repo = ''r'', mb_group = g, mb_created = 0, mb_updated = 0\<rparr>"

lemma uuid_short: "length i < 16 \<Longrightarrow> i \<noteq> uuid_Nil"
  by (auto simp: uuid_Nil_def)

lemma demo_access:
  obtains d g where "\<forall>(nm, ss) \<in> set builtins. has_builtin d nm ss"
    "GroupRepo_Get (NewGetGroupParams\<lparr>gg_name := Some ''RepoRead''\<rparr>) d = Inr g"
    "RepositoryRepo_Get (NewGetRepoParams\<lparr>gr_id := ''r''\<rparr>) (ad_db d) = Inr private_repo"
    "ad_members d = [demo_member (gp_id g)]"
proof -
  obtain d' where run: "InitRbac 0 demo_admin empty_access = (Inr (), d')" "\<forall>(nm, ss) \<in> set builtins. has_builtin d' nm ss"
    using InitRbac_run [OF empty_access_ok, of 0 demo_admin] by blast
  have "(''RepoRead'', repo_statements ''RepoRead'') \<in> set builtins" by (simp add: builtins_def)
  then have "has_builtin d' ''RepoRead'' (repo_statements ''RepoRead'')" using run(2) by blast
  then obtain g where g: "GroupRepo_Get (NewGetGroupParams\<lparr>gg_name := Some ''RepoRead''\<rparr>) d' = Inr g"
    unfolding has_builtin_def by blast
  define d where "d = d'\<lparr>ad_db := (ad_db d')\<lparr>db_repos := [private_repo]\<rparr>, ad_members := [demo_member (gp_id g)]\<rparr>"
  have "has_builtin d nm ss \<longleftrightarrow> has_builtin d' nm ss" for nm ss by (rule has_builtin_cong) (simp_all add: d_def)
  then have "\<forall>(nm, ss) \<in> set builtins. has_builtin d nm ss" using run(2) by simp
  moreover have "GroupRepo_Get (NewGetGroupParams\<lparr>gg_name := Some ''RepoRead''\<rparr>) d = Inr g"
    using g by (simp add: GroupRepo_Get_def d_def)
  moreover have "RepositoryRepo_Get (NewGetRepoParams\<lparr>gr_id := ''r''\<rparr>) (ad_db d) = Inr private_repo"
    by (simp add: RepositoryRepo_Get_def NewGetRepoParams_def where_id_def where_opt_def q_select_one_def tbl_get_def
        holds_single d_def private_repo_def uuid_short)
  ultimately show ?thesis by (rule that) (simp add: d_def)
qed

lemma demo_ids: "uuid_text ''a''" "ascii ''repo:ReadTag''" "ascii ''repo:WriteTag''" "is_read ''repo:ReadTag''"
  "rp_owner private_repo = ''o''" "\<not> rp_visible private_repo" "''o'' \<noteq> uuid_Nil" "''r'' \<noteq> uuid_Nil"
  by (simp_all add: uuid_text_def ascii_def is_read_def has_prefix_def private_repo_def uuid_short)

lemma member_permissions_witness:
  "\<exists>d. fst (AuthorizeMember (\<lambda>_. ''a'') ''r'' ''x'' (perm_node ''repo:ReadTag'' (RepoURArn ''a'' ''a'')) d []) = Inr allowed_response \<and>
     fst (AuthorizeMember (\<lambda>_. ''a'') ''r'' ''x'' (perm_node ''repo:WriteTag'' (RepoURArn ''a'' ''a'')) d []) = Inr not_allowed"
proof -
  obtain d g where d: "\<forall>(nm, ss) \<in> set builtins. has_builtin d nm ss"
    "GroupRepo_Get (NewGetGroupParams\<lparr>gg_name := Some ''RepoRead''\<rparr>) d = Inr g"
    "RepositoryRepo_Get (NewGetRepoParams\<lparr>gr_id := ''r''\<rparr>) (ad_db d) = Inr private_repo"
    "ad_members d = [demo_member (gp_id g)]" by (rule demo_access)
  have m: "MemberRepo_GetMember \<lparr>gm_member = uuid_Nil, gm_repo = ''r'', gm_user = ''x''\<rparr> d = Inr (demo_member (gp_id g))"
    using d(4) by (simp add: MemberRepo_GetMember_def where_id_def q_select_one_def tbl_get_def holds_def demo_member_def uuid_short)
  have "fst (AuthorizeMember (\<lambda>_. ''a'') ''r'' ''x'' (perm_node a (RepoURArn ''a'' ''a'')) d []) =
      Inr (if role_allows ''RepoRead'' a then allowed_response else not_allowed)" if "ascii a" for a
    using member_permissions [OF d(1,3) _ m d(2), where us = "\<lambda>_. ''a''", OF _ _ _ _ _ _ _ that] demo_ids
    by (simp add: role_names_def demo_member_def)
  with demo_ids show ?thesis by (intro exI [of _ d]) (simp add: role_allows_def is_read_def has_prefix_def)
qed

lemma outsider_permissions_witness:
  "\<exists>d. fst (AuthorizeMember (\<lambda>_. ''a'') ''r'' ''y'' (perm_node ''repo:ReadTag'' (RepoURArn ''a'' ''a'')) d []) = Inr not_allowed"
proof -
  obtain d g where d: "\<forall>(nm, ss) \<in> set builtins. has_builtin d nm ss"
    "GroupRepo_Get (NewGetGroupParams\<lparr>gg_name := Some ''RepoRead''\<rparr>) d = Inr g"
    "RepositoryRepo_Get (NewGetRepoParams\<lparr>gr_id := ''r''\<rparr>) (ad_db d) = Inr private_repo"
    "ad_members d = [demo_member (gp_id g)]" by (rule demo_access)
  have "(''Viewer'', repo_statements ''RepoRead'') \<in> set builtins" by (simp add: builtins_def)
  then have v: "has_builtin d ''Viewer'' (repo_statements ''RepoRead'')" using d(1) by blast
  have m: "MemberRepo_GetMember \<lparr>gm_member = uuid_Nil, gm_repo = ''r'', gm_user = ''y''\<rparr> d = Inl ErrNotFound"
    using d(4) by (simp add: MemberRepo_GetMember_def where_id_def q_select_one_def tbl_get_def holds_def demo_member_def uuid_short)
  show ?thesis
    using outsider_permissions [OF v d(3) _ m, where us = "\<lambda>_. ''a''" and a = "''repo:ReadTag''"] demo_ids
    by (intro exI [of _ d]) simp
qed

definition demo_group :: rgroup where
  "demo_group = \<lparr>gp_id = ''g'', gp_name = ''none'', gp_policies = [], gp_created = 0, gp_updated = 0\<rparr>"

definition demo_empty_group :: access_db where
  "demo_empty_group = empty_access\<lparr>ad_policies := demo_policies, ad_groups := [demo_group],
     ad_user_groups := [\<lparr>ug_id = ''i'', ug_user = ''x'', ug_group = ''g'', ug_created = 0, ug_updated = 0\<rparr>]\<rparr>"

lemma empty_group_gets_every_policy_witness:
  "Authorize id ''x'' (perm_node ''repo:DeleteRepository'' All) demo_empty_group = Inr allowed_response"
proof -
  have g: "GroupRepo_GetGroupByUserID ''x'' demo_empty_group = Inr demo_group"
    by (simp add: GroupRepo_GetGroupByUserID_def q_select_one_def tbl_get_def holds_single demo_empty_group_def demo_group_def)
  have "checkPermissions id (perm_node ''repo:DeleteRepository'' All) \<lparr>rs_user = ''x'', rs_repo = uuid_Nil\<rparr> demo_policies = CheckAllow"
    by code_simp
  then show ?thesis
    using empty_group_gets_every_policy [OF g, of id "''repo:DeleteRepository''" All]
    by (auto simp: demo_group_def perm_check demo_empty_group_def)
qed


end
