(* ===== verification/Server_Safety.thy ===== *)
theory Server_Safety
  imports Server Rbac_Roles
begin

section \<open>What a request can do without permission\<close>

text \<open>
  Every operation on a repository runs through the same steps: it may check a name, finds the
  operator, the owner and the repository, and asks \<open>authorizeMember\<close>. \<open>refused\<close> says that a handler
  ends with one reply that is an error and carries no data, and changes nothing but the cache of
  policies; its rules follow those steps, so that each handler is a line of their application.
\<close>

named_theorems refused_rules "steps of a handler up to its permission check"

definition error_reply :: "reply \<Rightarrow> bool" where
  "error_reply r \<longleftrightarrow> fst r \<ge> 400 \<and> (case snd r of Json _ \<Rightarrow> False | Content _ _ \<Rightarrow> False | _ \<Rightarrow> True)"

definition refused :: "('s, 'a) act \<Rightarrow> 's server \<Rightarrow> bool" where
  "refused m s \<longleftrightarrow>
     (case m s of
        Some (None, s') \<Rightarrow>
          sv_data s' = sv_data s \<and> sv_aksks s' = sv_aksks s \<and> sv_blocks s' = sv_blocks s \<and>
          (case drop (length (sv_out s)) (sv_out s') of
             [r] \<Rightarrow> take (length (sv_out s)) (sv_out s') = sv_out s \<and> error_reply r
           | _ \<Rightarrow> False)
      | _ \<Rightarrow> False)"

lemma refused_finish [refused_rules]: "error_reply r \<Longrightarrow> refused (finish r) s"
  by (simp add: refused_def finish_def)

lemma refusedE:
  assumes "refused m s"
  obtains s' r where "m s = Some (None, s')" "error_reply r" "sv_out s' = sv_out s @ [r]" "sv_data s' = sv_data s"
    "sv_aksks s' = sv_aksks s" "sv_blocks s' = sv_blocks s"
proof -
  obtain s' r where "m s = Some (None, s')" "drop (length (sv_out s)) (sv_out s') = [r]"
    "take (length (sv_out s)) (sv_out s') = sv_out s" "error_reply r" "sv_data s' = sv_data s"
    "sv_aksks s' = sv_aksks s" "sv_blocks s' = sv_blocks s"
    using assms by (auto simp: refused_def split: option.splits prod.splits list.splits)
  then show thesis using that append_take_drop_id [of "length (sv_out s)" "sv_out s'"] by metis
qed

lemma refused_then: "refused m s \<Longrightarrow> refused (then_do m f) s"
  by (auto simp: refused_def then_do_def split: option.splits prod.splits)

lemma refused_after: "m s = Some (Some x, s) \<Longrightarrow> refused (f x) s \<Longrightarrow> refused (then_do m f) s"
  by (simp add: refused_def then_do_def)

lemma refused_or_error:
  "error_reply (w_Error e) \<Longrightarrow> refused (or_error (Inl e)) s"
  by (simp add: or_error_def refused_finish)

text \<open>The queries of these steps fail with \<open>ErrNotFound\<close> only.\<close>

lemma tbl_get_cases: "tbl_get P t = Inl e \<Longrightarrow> e = ErrNotFound"
  by (simp add: tbl_get_Inl_iff)

lemma error_reply_simps [simp]:
  "error_reply (w_Error ErrNotFound)" "error_reply (w_Error ErrUserNotFound)" "error_reply (w_BadRequest msg)"
  "error_reply w_Forbidden" "error_reply w_Unauthorized" "error_reply (w_Code 401)"
  by (simp_all add: error_reply_def w_Error_def w_BadRequest_def w_Forbidden_def w_Unauthorized_def w_Code_def)

lemma refused_get_db:
  assumes "\<And>e. g (ad_db (sv_data s)) = Inl e \<Longrightarrow> e = ErrNotFound"
    "\<And>x. g (ad_db (sv_data s)) = Inr x \<Longrightarrow> refused (f x) s"
  shows "refused (then_do (get_db g) f) s"
proof (cases "g (ad_db (sv_data s))")
  case (Inl e)
  with assms(1) have "refused (get_db g) s"
    by (simp add: get_db_def ask_db_def ask_def then_do_def or_error_def refused_def finish_def)
  then show ?thesis by (rule refused_then)
next
  case (Inr x)
  then show ?thesis
    by (intro refused_after [of _ _ x] assms(2))
      (simp_all add: get_db_def ask_db_def ask_def then_do_def or_error_def give_def)
qed

definition the_owner :: "'s server \<Rightarrow> string \<Rightarrow> user \<Rightarrow> bool" where
  "the_owner s nm owner \<longleftrightarrow> UserRepo_Get (NewGetUserParams\<lparr>gu_name := Some nm\<rparr>) (ad_db (sv_data s)) = Inr owner"

definition the_repository :: "'s server \<Rightarrow> user \<Rightarrow> string \<Rightarrow> repository \<Rightarrow> bool" where
  "the_repository s owner nm repo \<longleftrightarrow>
     RepositoryRepo_Get (NewGetRepoParams\<lparr>gr_name := Some nm, gr_owner := us_id owner\<rparr>) (ad_db (sv_data s)) = Inr repo"

lemma refused_get_owner [refused_rules]:
  "(\<And>owner. the_owner s nm owner \<Longrightarrow> refused (f owner) s) \<Longrightarrow> refused (then_do (get_owner nm) f) s"
  unfolding get_owner_def the_owner_def
  by (rule refused_get_db) (auto simp: UserRepo_Get_def q_select_one_def dest: tbl_get_cases)

lemma refused_get_repository [refused_rules]:
  "(\<And>repo. the_repository s owner nm repo \<Longrightarrow> refused (f repo) s) \<Longrightarrow>
    refused (then_do (get_repository nm owner) f) s"
  unfolding get_repository_def the_repository_def
  by (rule refused_get_db) (auto simp: RepositoryRepo_Get_def q_select_one_def dest: tbl_get_cases)

lemma refused_operator_of [refused_rules]:
  "(\<And>u. ca_operator C = Some u \<Longrightarrow> refused (f u) s) \<Longrightarrow> refused (then_do (operator_of C) f) s"
  by (cases "ca_operator C")
    (auto simp: operator_of_def GetOperator_def or_error_def then_do_def finish_def give_def refused_def)

lemma refused_validator [refused_rules]:
  "(v = None \<Longrightarrow> refused m s) \<Longrightarrow>
    refused (case v of Some e \<Rightarrow> finish (w_BadRequest (name_error_text e)) | None \<Rightarrow> m) s"
  by (auto intro: refused_finish split: option.splits)

subsection \<open>Strangers\<close>

text \<open>
  The operator is nobody, or is neither owner nor member of the repository, which is not visible.
\<close>

definition stranger :: "'s call \<Rightarrow> 's server \<Rightarrow> string \<Rightarrow> string \<Rightarrow> bool" where
  "stranger C s ownerName repositoryName \<longleftrightarrow>
     (case ca_operator C of
        None \<Rightarrow> True
      | Some u \<Rightarrow>
          us_name u \<noteq> ownerName \<and> us_id u \<noteq> uuid_Nil \<and>
          (case UserRepo_Get (NewGetUserParams\<lparr>gu_name := Some ownerName\<rparr>) (ad_db (sv_data s)) of
             Inl _ \<Rightarrow> True
           | Inr owner \<Rightarrow>
               (case RepositoryRepo_Get (NewGetRepoParams\<lparr>gr_name := Some repositoryName, gr_owner := us_id owner\<rparr>)
                    (ad_db (sv_data s)) of
                  Inl _ \<Rightarrow> True
                | Inr repo \<Rightarrow>
                    \<not> rp_visible repo \<and> rp_owner repo \<noteq> us_id u \<and>
                    \<not> list_ex (\<lambda>m. mb_repo m = rp_id repo \<and> mb_user m = us_id u) (ad_members (sv_data s)))))"

definition repo_ids_ok :: "'s server \<Rightarrow> bool" where
  "repo_ids_ok s \<longleftrightarrow>
     distinct (map rp_id (db_repos (ad_db (sv_data s)))) \<and>
     list_all (\<lambda>repo. rp_id repo \<noteq> uuid_Nil) (db_repos (ad_db (sv_data s)))"

lemma repo_by_id:
  assumes "repo_ids_ok s" "the_repository s owner nm repo"
  shows "rp_id repo \<noteq> uuid_Nil" "RepositoryRepo_Get (NewGetRepoParams\<lparr>gr_id := rp_id repo\<rparr>) (ad_db (sv_data s)) = Inr repo"
proof -
  have repo: "repo \<in> set (db_repos (ad_db (sv_data s)))"
    using assms(2) by (auto simp: the_repository_def RepositoryRepo_Get_def q_select_one_def dest: tbl_get_InrD)
  then show nil: "rp_id repo \<noteq> uuid_Nil" using assms(1) by (auto simp: repo_ids_ok_def list_all_iff)
  show "RepositoryRepo_Get (NewGetRepoParams\<lparr>gr_id := rp_id repo\<rparr>) (ad_db (sv_data s)) = Inr repo"
    unfolding RepositoryRepo_Get_def q_select_one_def
    by (rule tbl_get_key [of rp_id]) (use assms(1) repo nil in
      \<open>simp_all add: unique_keys_def repo_ids_ok_def holds_def where_id_def where_opt_def NewGetRepoParams_def\<close>)
qed

lemma AuthorizeMember_stranger:
  assumes "stranger C s ow rn" "ca_operator C = Some u" "repo_ids_ok s" "the_owner s ow owner"
    "the_repository s owner rn repo"
  shows "AuthorizeMember us (rp_id repo) (us_id u) perms (sv_data s) cache = (Inr not_allowed, cache)"
proof -
  have "MemberRepo_GetMember \<lparr>gm_member = uuid_Nil, gm_repo = rp_id repo, gm_user = us_id u\<rparr> (sv_data s) = Inl ErrNotFound"
    using assms repo_by_id [OF assms(3,5)]
    by (auto simp: MemberRepo_GetMember_def q_select_one_def tbl_get_Inl_iff holds_def where_id_def stranger_def
        list_ex_iff the_owner_def the_repository_def)
  then show ?thesis
    using assms repo_by_id [OF assms(3,5)]
    by (simp add: AuthorizeMember_def getMemberPolicy_def check_member_def stranger_def the_owner_def the_repository_def)
qed

lemma refused_not_allowed:
  assumes "\<And>u. ca_operator C = Some u \<Longrightarrow>
    \<exists>c. AuthorizeMember (ca_us C) rid (us_id u) perms (sv_data s) (sv_viewer s) = (Inr not_allowed, c)"
  shows "refused (then_do (authorizeMember C rid perms) f) s"
proof (cases "ca_operator C")
  case None
  then show ?thesis
    by (simp add: authorizeMember_def GetOperator_def refused_then refused_finish)
next
  case (Some u)
  with assms obtain c where "AuthorizeMember (ca_us C) rid (us_id u) perms (sv_data s) (sv_viewer s) = (Inr not_allowed, c)"
    by blast
  then have "authorizeMember C rid perms s = (finish (w_Code 401) :: ('a, unit) act) (s\<lparr>sv_viewer := c\<rparr>)"
    by (simp add: authorizeMember_def GetOperator_def Some then_do_def ask_def set_viewer_def check_response_def
        not_allowed_def finish_def)
  then have "refused (authorizeMember C rid perms) s"
    by (simp add: refused_def finish_def)
  then show ?thesis by (rule refused_then)
qed

lemma refused_authorizeMember:
  assumes "repo_ids_ok s" "stranger C s ow rn" "the_owner s ow owner" "the_repository s owner rn repo"
  shows "refused (then_do (authorizeMember C (rp_id repo) perms) f) s"
  using AuthorizeMember_stranger [OF assms(2) _ assms(1,3,4)] by (intro refused_not_allowed) blast

lemma refused_owner_check:
  "stranger C s ow rn \<Longrightarrow> the_owner s ow owner \<Longrightarrow> ca_operator C = Some u \<Longrightarrow>
    refused (if us_name u \<noteq> us_name owner then finish w_Forbidden else m) s"
  using UserRepo_Get_name(2) by (fastforce simp: stranger_def the_owner_def intro: refused_finish)

lemmas handler_defs = DeleteObject_def GetObject_def HeadObject_def UploadObject_def GetFiles_def
  DeleteRepository_def GetRepository_def UpdateRepository_def GetArchive_def GetCommitsInRef_def ChangeVisible_def
  DeleteBranch_handler_def GetBranch_def CreateBranch_handler_def ListBranches_def
  DeleteTag_handler_def GetTag_def CreateTag_handler_def ListTags_def
  GetCommitChanges_handler_def CompareCommit_def GetEntriesInRef_def
  RevokeMember_def UpdateMemberGroup_def InviteMember_def ListMembers_def
  ListMergeRequests_def CreateMergeRequest_def GetMergeRequest_def UpdateMergeRequest_def Merge_handler_def
  DeleteWip_handler_def GetWip_def UpdateWip_def GetWipChanges_def CommitWip_def ListWip_def RevertWipChanges_def

lemmas serve_simps = serve_repo.simps serve_object.simps serve_repository.simps serve_branch.simps
  serve_tag.simps serve_commit.simps serve_member.simps serve_merge_request.simps serve_wip.simps

lemma stranger_refused:
  assumes "repo_ids_ok s" "stranger C s ow rn"
  shows "refused (serve_repo S op C ow rn) s"
proof -
  note rules = refused_rules refused_authorizeMember [OF assms] refused_owner_check [OF assms(2)]
  have find: "refused (then_do (find_object C ow rn ty ref p) f) s" for ty ref p f
    unfolding find_object_def by (rule refused_then) (intro rules; assumption)
  show ?thesis
    by (cases op; rename_tac x; case_tac x; simp only: serve_simps handler_defs; intro rules find; assumption)
qed

text \<open> C5: Whoever is not logged in, or is neither the owner nor a member of a repository that is not
  visible, gets one error reply without data from every operation on that repository, and the
  database, the access keys and the stored contents stay as they are.\<close>

theorem stranger_gets_error:
  assumes "repo_ids_ok s" "stranger C s ow rn"
  shows "\<exists>s' r. serve S (On_repo ow rn op) C s = Some (None, s') \<and> error_reply r \<and> sv_out s' = sv_out s @ [r] \<and>
    sv_data s' = sv_data s \<and> sv_aksks s' = sv_aksks s \<and> sv_blocks s' = sv_blocks s"
  using refusedE [OF stranger_refused [OF assms, of S op]] by (metis serve.simps(1))

definition repository_sample :: repository where
  "repository_sample =
     \<lparr>rp_id = replicate 16 (CHR 0x03), rp_name = ''data'', rp_owner = us_id user_sample, rp_HEAD = ''main'',
      rp_visible = False, rp_public_storage = True, rp_namespace = Some ''mem://data'', rp_adapter_params = None,
      rp_description = None, rp_creator = us_id user_sample, rp_created = 0, rp_updated = 0\<rparr>"

definition repo_server_sample :: "unit server" where
  "repo_server_sample = server_sample\<lparr>sv_data := (sv_data server_sample)
     \<lparr>ad_db := (ad_db (sv_data server_sample))\<lparr>db_repos := [repository_sample]\<rparr>\<rparr>\<rparr>"

definition mallory :: user where
  "mallory = user_sample\<lparr>us_id := replicate 16 (CHR 0x04), us_name := ''mallory''\<rparr>"

definition service_sample :: service where
  "service_sample =
     \<lparr>se_compare = (\<lambda>h p. h = ''hash-'' @ p), se_jwt = jwt_sample, se_session = Inr (), se_session_saved = Inr (),
      se_zip = (\<lambda>_. Inr []), se_swagger = Inr ''1'', se_version = ''1'', se_latest = Inl ErrNotFound,
      se_login_config = \<lparr>lc_RBAC = ''internal'', lc_LoginURL = [], lc_LoginFailedMessage = [], lc_FallbackLoginURL = None,
        lc_FallbackLoginLabel = None, lc_LoginCookieNames = [], lc_LogoutURL = []\<rparr>\<rparr>"

theorem stranger_gets_error_witness:
  "\<exists>s' r. serve service_sample (On_repo ''alice'' ''data'' (On_object (O_UploadObject
      \<lparr>ul_ContentType = [], ul_media = Inr ([], None), ul_body = ''x'', ul_parts = [], ul_ContentLength = 1\<rparr>
      ''main'' ''a.txt'' None))) (call_sample pad_env (Some mallory)) repo_server_sample = Some (None, s') \<and>
    error_reply r \<and> sv_out s' = sv_out repo_server_sample @ [r] \<and>
    sv_data s' = sv_data repo_server_sample \<and> sv_aksks s' = sv_aksks repo_server_sample \<and>
    sv_blocks s' = sv_blocks repo_server_sample"
  by (rule stranger_gets_error)
    (simp_all add: repo_ids_ok_def stranger_def call_sample_def mallory_def repo_server_sample_def server_sample_def
      user_sample_def repository_sample_def uuid_Nil_def UserRepo_Get_def NewGetUserParams_def RepositoryRepo_Get_def
      NewGetRepoParams_def q_select_one_def tbl_get_def holds_def where_id_def where_opt_def)


end
