(* ===== verification/Reader_Safety.thy ===== *)
theory Reader_Safety
  imports Server_Safety
begin

section \<open>What a reader can change\<close>

text \<open>
  A reader is a user whose permissions on a repository are those of the groups \<open>RepoRead\<close> and
  \<open>Viewer\<close>: the actions that read or list. An operation that asks for another action is refused;
  the others keep everything but working copies, trees and stored contents. The second part goes
  handler by handler, with rules for the steps a handler is made of.
\<close>

definition reader :: "'s call \<Rightarrow> 's server \<Rightarrow> string \<Rightarrow> string \<Rightarrow> bool" where
  "reader C s ow rn \<longleftrightarrow>
     (\<exists>u owner repo. ca_operator C = Some u \<and> the_owner s ow owner \<and> the_repository s owner rn repo \<and>
        us_name u \<noteq> ow \<and> us_id owner \<noteq> uuid_Nil \<and> rp_owner repo \<noteq> us_id u \<and>
        uuid_text (ca_us C (us_id owner)) \<and> uuid_text (ca_us C (rp_id repo)) \<and>
        (case MemberRepo_GetMember \<lparr>gm_member = uuid_Nil, gm_repo = rp_id repo, gm_user = us_id u\<rparr> (sv_data s) of
           Inl e \<Rightarrow> e = ErrNotFound
         | Inr m \<Rightarrow> (\<exists>g. GroupRepo_Get (NewGetGroupParams\<lparr>gg_name := Some ''RepoRead''\<rparr>) (sv_data s) = Inr g \<and>
             mb_group m = gp_id g)))"

text \<open>The policies are those of \<open>InitRbac\<close>, and the cache is empty or holds the viewer's.\<close>

definition policies_ok :: "'s server \<Rightarrow> bool" where
  "policies_ok s \<longleftrightarrow> (\<forall>(nm, ss) \<in> set builtins. has_builtin (sv_data s) nm ss) \<and>
     (\<forall>p \<in> set (sv_viewer s). po_statements p = repo_statements ''RepoRead'')"

subsection \<open>Refused actions\<close>

lemma decide_read:
  assumes "uuid_text (us u)" "uuid_text (us r)" "u \<noteq> uuid_Nil" "r \<noteq> uuid_Nil" "ascii a"
    and "\<forall>p \<in> set ps. po_statements p = repo_statements ''RepoRead''"
    and "decide us \<lparr>rs_user = u, rs_repo = r\<rparr> ps \<lparr>pm_Action = a, pm_Resource = RepoURArn (us u) (us r)\<rparr> = CheckAllow"
  shows "is_read a"
proof -
  have "all_statements ps \<subseteq> set (repo_statements ''RepoRead'')"
    using assms(6) by (auto simp: all_statements_def)
  then show ?thesis
    using assms(7) by (auto simp: decide_def repo_statements_eq applies_allow [OF assms(1-4)] Match_read [OF assms(5)]
        is_read_def split: if_splits)
qed

lemma reader_at:
  assumes "reader C s ow rn" "the_owner s ow owner" "the_repository s owner rn repo" "ca_operator C = Some u"
  shows "us_name u \<noteq> ow" "us_id owner \<noteq> uuid_Nil" "rp_owner repo \<noteq> us_id u" "uuid_text (ca_us C (us_id owner))"
    "uuid_text (ca_us C (rp_id repo))"
    "case MemberRepo_GetMember \<lparr>gm_member = uuid_Nil, gm_repo = rp_id repo, gm_user = us_id u\<rparr> (sv_data s) of
       Inl e \<Rightarrow> e = ErrNotFound
     | Inr m \<Rightarrow> (\<exists>g. GroupRepo_Get (NewGetGroupParams\<lparr>gg_name := Some ''RepoRead''\<rparr>) (sv_data s) = Inr g \<and>
         mb_group m = gp_id g)"
proof -
  have "the_owner s ow owner' \<Longrightarrow> owner' = owner" "the_repository s owner rn repo' \<Longrightarrow> repo' = repo" for owner' repo'
    using assms(2,3) by (simp_all add: the_owner_def the_repository_def)
  then show "us_name u \<noteq> ow" "us_id owner \<noteq> uuid_Nil" "rp_owner repo \<noteq> us_id u" "uuid_text (ca_us C (us_id owner))"
    "uuid_text (ca_us C (rp_id repo))"
    "case MemberRepo_GetMember \<lparr>gm_member = uuid_Nil, gm_repo = rp_id repo, gm_user = us_id u\<rparr> (sv_data s) of
       Inl e \<Rightarrow> e = ErrNotFound
     | Inr m \<Rightarrow> (\<exists>g. GroupRepo_Get (NewGetGroupParams\<lparr>gg_name := Some ''RepoRead''\<rparr>) (sv_data s) = Inr g \<and>
         mb_group m = gp_id g)"
    using assms(1,4) unfolding reader_def by force+
qed

text \<open>The policies that are asked for a reader.\<close>

lemma reader_policies:
  assumes "reader C s ow rn" "policies_ok s" "the_owner s ow owner" "the_repository s owner rn repo" "ca_operator C = Some u"
  shows "\<exists>vs c. (if rp_visible repo then getViewerPolicy (sv_data s) (sv_viewer s) else (Inr [], sv_viewer s)) = (Inr vs, c) \<and>
      (\<forall>p \<in> set vs. po_statements p = repo_statements ''RepoRead'')"
    and "case getMemberPolicy (us_id u) (rp_id repo) (sv_data s) of
      Inl e \<Rightarrow> e = ErrNotFound | Inr ps \<Rightarrow> \<forall>p \<in> set ps. po_statements p = repo_statements ''RepoRead''"
proof -
  have roles: "has_builtin (sv_data s) nm (repo_statements ''RepoRead'')" if "nm \<in> {''Viewer'', ''RepoRead''}" for nm
    using assms(2) that by (auto simp: policies_ok_def builtins_def)
  show "\<exists>vs c. (if rp_visible repo then getViewerPolicy (sv_data s) (sv_viewer s) else (Inr [], sv_viewer s)) = (Inr vs, c) \<and>
      (\<forall>p \<in> set vs. po_statements p = repo_statements ''RepoRead'')"
  proof (cases "rp_visible repo \<and> sv_viewer s = []")
    case True
    obtain v where "getViewerPolicy (sv_data s) [] = (Inr [v], [v])" "po_statements v = repo_statements ''RepoRead''"
      using getViewerPolicy_builtin roles by blast
    with True show ?thesis by simp
  qed (use assms(2) in \<open>auto simp: policies_ok_def getViewerPolicy_def\<close>)
  note reader_at(6) [OF assms(1,3-5)]
  then consider "MemberRepo_GetMember \<lparr>gm_member = uuid_Nil, gm_repo = rp_id repo, gm_user = us_id u\<rparr> (sv_data s) = Inl ErrNotFound"
    | m g where "MemberRepo_GetMember \<lparr>gm_member = uuid_Nil, gm_repo = rp_id repo, gm_user = us_id u\<rparr> (sv_data s) = Inr m"
      "GroupRepo_Get (NewGetGroupParams\<lparr>gg_name := Some ''RepoRead''\<rparr>) (sv_data s) = Inr g" "mb_group m = gp_id g"
    by (auto split: sum.splits)
  then show "case getMemberPolicy (us_id u) (rp_id repo) (sv_data s) of
      Inl e \<Rightarrow> e = ErrNotFound | Inr ps \<Rightarrow> \<forall>p \<in> set ps. po_statements p = repo_statements ''RepoRead''"
  proof cases
    case 2
    obtain p where "GroupRepo_Get (NewGetGroupParams\<lparr>gg_id := gp_id g\<rparr>) (sv_data s) = Inr g"
      "PolicyRepo_List (gp_policies g) (sv_data s) = [p]" "po_statements p = repo_statements ''RepoRead''"
      using has_builtinE [OF roles 2(2)] by blast
    with 2 show ?thesis by (simp add: getMemberPolicy_def)
  qed (simp add: getMemberPolicy_def)
qed

text \<open>An action that does not read is refused, alone or among others.\<close>

lemma reader_not_allowed:
  assumes "reader C s ow rn" "policies_ok s" "repo_ids_ok s" "the_owner s ow owner" "the_repository s owner rn repo"
    "ca_operator C = Some u"
    and perm: "a \<in> set acts" "\<not> is_read a" "ascii a" "perms = repo_perms C owner repo acts \<or> acts = [a] \<and> perms = repo_perm C owner repo a"
  shows "\<exists>c. AuthorizeMember (ca_us C) (rp_id repo) (us_id u) perms (sv_data s) (sv_viewer s) = (Inr not_allowed, c)"
proof -
  note at = reader_at [OF assms(1,4-6)] and repo = repo_by_id [OF assms(3,5)]
  have owner: "rp_owner repo = us_id owner"
    using assms(5) at(2) by (auto simp: the_repository_def RepositoryRepo_Get_def NewGetRepoParams_def q_select_one_def
        holds_def where_id_def dest: tbl_get_InrD)
  have no: "checkPermissions (ca_us C) perms \<lparr>rs_user = rp_owner repo, rs_repo = rp_id repo\<rparr> ps \<noteq> CheckAllow"
    if "\<forall>p \<in> set ps. po_statements p = repo_statements ''RepoRead''" for ps
  proof -
    have "checkPermissions (ca_us C) (repo_perm C owner repo a) \<lparr>rs_user = us_id owner, rs_repo = rp_id repo\<rparr> ps \<noteq> CheckAllow"
      using decide_read [OF at(4,5,2) repo(1) perm(3) that] perm(2)
      unfolding repo_perm_def checkPermissions_Node by blast
    then show ?thesis using perm(1,4) by (auto simp: owner repo_perms_def check_and_spec)
  qed
  have chk: "check_member (ca_us C) perms repo (rp_id repo) ps = not_allowed"
    if "\<forall>p \<in> set ps. po_statements p = repo_statements ''RepoRead''" for ps
    using no [OF that] by (simp add: check_member_def)
  obtain vs c where vs: "(if rp_visible repo then getViewerPolicy (sv_data s) (sv_viewer s) else (Inr [], sv_viewer s)) = (Inr vs, c)"
    "\<forall>p \<in> set vs. po_statements p = repo_statements ''RepoRead''"
    using reader_policies(1) [OF assms(1,2,4-6)] by blast
  show ?thesis
  proof (cases "getMemberPolicy (us_id u) (rp_id repo) (sv_data s)")
    case (Inl e)
    then show ?thesis
      using reader_policies(2) [OF assms(1,2,4-6)] at(3) repo(2) vs(1) chk [OF vs(2)] by (simp add: AuthorizeMember_def)
  next
    case (Inr ps)
    then have "\<forall>p \<in> set (vs @ ps). po_statements p = repo_statements ''RepoRead''"
      using reader_policies(2) [OF assms(1,2,4-6)] vs(2) by auto
    from chk [OF this] show ?thesis
      using Inr at(3) repo(2) vs(1) by (simp add: AuthorizeMember_def)
  qed
qed


subsection \<open>Handlers that read\<close>

text \<open>Everything but trees, working copies, stored contents, replies and the cache of policies.\<close>

definition protected :: "'s server \<Rightarrow> access_db \<times> aksk list" where
  "protected s = ((sv_data s)\<lparr>ad_db := (ad_db (sv_data s))\<lparr>db_trees := [], db_wips := []\<rparr>\<rparr>, sv_aksks s)"

definition keeps :: "('s, 'a) act \<Rightarrow> bool" where
  "keeps m \<longleftrightarrow> (\<forall>s x s'. m s = Some (x, s') \<longrightarrow> protected s' = protected s)"

named_theorems keeps_rules "steps of a handler that only reads"

lemma keeps_then [keeps_rules]: "keeps m \<Longrightarrow> (\<And>x. keeps (f x)) \<Longrightarrow> keeps (then_do m f)"
  unfolding keeps_def by (fastforce simp: then_do_def split: option.splits prod.splits)

lemma keeps_steps [keeps_rules]:
  "keeps (give x)" "keeps (respond r)" "keeps (finish r)" "keeps (ask g)" "keeps (or_stuck o')"
  "keeps (set_blocks b)" "keeps (set_viewer c)"
  by (auto simp: keeps_def protected_def give_def respond_def finish_def ask_def or_stuck_def set_blocks_def
      set_viewer_def split: option.splits)

lemma keeps_cases [keeps_rules]:
  "keeps m \<Longrightarrow> keeps m' \<Longrightarrow> keeps (if b then m else m')"
  "keeps m \<Longrightarrow> (\<And>x. keeps (f x)) \<Longrightarrow> keeps (case o' of None \<Rightarrow> m | Some x \<Rightarrow> f x)"
  "(\<And>x. keeps (g x)) \<Longrightarrow> (\<And>x. keeps (f x)) \<Longrightarrow> keeps (case r of Inl x \<Rightarrow> g x | Inr y \<Rightarrow> f y)"
  "(\<And>x y. keeps (h x y)) \<Longrightarrow> keeps (case p of (x, y) \<Rightarrow> h x y)"
  "keeps (f t) \<Longrightarrow> keeps (Let t f)"
  by (auto simp: Let_def split: option.splits sum.splits prod.splits)

lemma keeps_check [keeps_rules]:
  "keeps (or_error r)" "keeps (check_response c)"
  unfolding or_error_def check_response_def by (intro keeps_rules)+

lemma keeps_reads [keeps_rules]:
  "keeps (get_db g)" "keeps (get_db_opt g')" "keeps (ask_db g'')"
  unfolding get_db_def get_db_opt_def ask_db_def by (intro keeps_rules)+

lemma keeps_shared [keeps_rules]:
  "keeps (operator_of C)" "keeps (get_owner nm)" "keeps (get_repository rn owner)" "keeps (get_ref repo r)"
  "keeps (get_wip u repo ref)" "keeps (get_commit_of repo h)" "keeps (work_repo_of C u repo)"
  "keeps (check_out C ty nm w)" "keeps (root_tree w)" "keeps (reply_changes C repo ch)"
  "keeps (authorizeMember C rid perms)"
  unfolding operator_of_def get_owner_def get_repository_def get_ref_def get_wip_def get_commit_of_def work_repo_of_def
    check_out_def root_tree_def reply_changes_def authorizeMember_def
  by (intro keeps_rules)+

lemma keeps_upload [keeps_rules]: "keeps (on_db (upload_change C repo w p b rep t))"
proof -
  have "(snd (upload_change C repo w p b rep t d))\<lparr>db_trees := [], db_wips := []\<rparr> = d\<lparr>db_trees := [], db_wips := []\<rparr>" for d
    by (auto simp: upload_change_def Let_def WipRepo_UpdateByID_def split: sum.splits prod.splits option.splits)
  then show ?thesis
    by (auto simp: keeps_def protected_def on_db_def then_do_def ask_db_def ask_def set_db_def or_error_def finish_def
        give_def split: prod.splits sum.splits) (metis snd_conv)+
qed

text \<open>
  The operations that only ask for permissions to read or list. \<open>UploadObject\<close> is one of them: it
  asks for \<open>repo:ReadObject\<close>. \<open>GetWipChanges\<close> and \<open>ListMembers\<close> are not, they ask for actions whose
  names start with \<open>Get\<close>.
\<close>

definition asks_to_read :: "repo_op \<Rightarrow> bool" where
  "asks_to_read op \<longleftrightarrow>
     (case op of
        On_object op \<Rightarrow> (case op of O_DeleteObject _ _ \<Rightarrow> False | _ \<Rightarrow> True)
      | On_repository op \<Rightarrow>
          (case op of R_GetRepository \<Rightarrow> True | R_GetArchive _ _ _ \<Rightarrow> True | R_GetCommitsInRef _ _ _ \<Rightarrow> True | _ \<Rightarrow> False)
      | On_branch op \<Rightarrow> (case op of B_GetBranch _ \<Rightarrow> True | B_ListBranches _ _ _ \<Rightarrow> True | _ \<Rightarrow> False)
      | On_tag op \<Rightarrow> (case op of T_GetTag _ \<Rightarrow> True | T_ListTags _ \<Rightarrow> True | _ \<Rightarrow> False)
      | On_commit op \<Rightarrow> True
      | On_member op \<Rightarrow> False
      | On_merge_request op \<Rightarrow> (case op of Q_ListMergeRequests _ _ _ \<Rightarrow> True | Q_GetMergeRequest _ \<Rightarrow> True | _ \<Rightarrow> False)
      | On_wip op \<Rightarrow> op = W_ListWip)"

lemmas reading_helpers = find_object_def entries_tree_def reply_merge_state_def get_mr_def

lemma keeps_reading: "asks_to_read op \<Longrightarrow> keeps (serve_repo S op C ow rn)"
  unfolding asks_to_read_def
  by (cases op; rename_tac x; case_tac x; simp only: serve_simps repo_op.case object_op.case repository_op.case
      branch_op.case tag_op.case commit_op.case merge_op.case member_op.case wip_op.distinct simp_thms;
      unfold handler_defs reading_helpers; intro keeps_rules)

text \<open>The actions the other operations ask for.\<close>

lemma not_read:
  "list_all (\<lambda>a. \<not> is_read a \<and> ascii a)
     [''repo:DeleteObject'', ''repo:DeleteRepository'', ''repo:UpdateRepository'', ''repo:UpdateVisible'',
      ''repo:CreateBranch'', ''repo:DeleteBranch'', ''repo:CreateTag'', ''repo:DeleteTag'', ''repo:AddGroupMember'',
      ''repo:RemoveGroupMember'', ''repo:GetGroupMember'', ''repo:CreateMergeRequest'', ''repo:UpdateMergeRequest'',
      ''repo:MergeMergeRequest'', ''repo:GetWip'', ''repo:CreateWip'', ''repo:WriteWip'']"
  by (simp add: is_read_def has_prefix_def ascii_def)


text \<open>\<open>RevertWipChanges\<close> compares names.\<close>

lemma reader_refused:
  assumes "repo_ids_ok s" "policies_ok s" "reader C s ow rn" "\<not> asks_to_read op"
  shows "refused (serve_repo S op C ow rn) s"
proof -
  have perm: "refused (then_do (authorizeMember C (rp_id repo) (repo_perm C owner repo a)) f) s"
    if "the_owner s ow owner" "the_repository s owner rn repo" "\<not> is_read a \<and> ascii a" for owner repo a f
    using reader_not_allowed [OF assms(3,2,1) that(1,2), of _ a "[a]"] that(3) by (intro refused_not_allowed) auto
  have perms: "refused (then_do (authorizeMember C (rp_id repo) (repo_perms C owner repo acts)) f) s"
    if "the_owner s ow owner" "the_repository s owner rn repo" "list_ex (\<lambda>a. \<not> is_read a \<and> ascii a) acts" for owner repo acts f
    using reader_not_allowed [OF assms(3,2,1) that(1,2), of _ _ acts] that(3)
    by (intro refused_not_allowed) (auto simp: list_ex_iff)
  have name: "refused (if us_name u \<noteq> us_name owner then finish w_Forbidden else m) s"
    if "the_owner s ow owner" "ca_operator C = Some u" for u owner m
  proof -
    have "us_name u \<noteq> ow" using assms(3) that(2) by (auto simp: reader_def)
    then have "us_name u \<noteq> us_name owner"
      using UserRepo_Get_name(2) that(1) by (fastforce simp: the_owner_def)
    then show ?thesis by (simp add: refused_finish)
  qed
  have upto: "list_ex (\<lambda>a. \<not> is_read a \<and> ascii a) [''repo:GetWip'', ''repo:CreateWip'']"
    "list_ex (\<lambda>a. \<not> is_read a \<and> ascii a) [''repo:GetWip'', ''repo:WriteBranch'', ''repo:ReadCommit'']"
    "list_ex (\<lambda>a. \<not> is_read a \<and> ascii a) [''repo:ReadCommit'', ''repo:GetWip'', ''repo:ReadBranch'']"
    using not_read by simp_all
  note facts = not_read [unfolded list.pred_inject] upto simp_thms
  show ?thesis
    using assms(4) unfolding asks_to_read_def
    by (cases op; rename_tac x; case_tac x; simp only: serve_simps handler_defs repo_op.case object_op.case
        repository_op.case branch_op.case tag_op.case commit_op.case merge_op.case member_op.case wip_op.distinct simp_thms;
        intro refused_rules perm perms name; (assumption | simp only: facts)?)
qed


text \<open> C8: A user with permissions to read only cannot change anything but working copies, trees and
  stored contents of a repository: branches, tags, commits, members, merge requests, access keys and
  the repository itself stay as they are after every operation on it, and the operations that ask for
  more than reading end with one error reply and change nothing at all.\<close>

theorem reader_changes_nothing:
  assumes "repo_ids_ok s" "policies_ok s" "reader C s ow rn"
  shows "(\<forall>x s'. serve S (On_repo ow rn op) C s = Some (x, s') \<longrightarrow> protected s' = protected s) \<and>
    (\<not> asks_to_read op \<longrightarrow>
      (\<exists>s' r. serve S (On_repo ow rn op) C s = Some (None, s') \<and> error_reply r \<and> sv_out s' = sv_out s @ [r] \<and>
       sv_data s' = sv_data s \<and> sv_aksks s' = sv_aksks s \<and> sv_blocks s' = sv_blocks s))"
proof (cases "asks_to_read op")
  case True
  then show ?thesis using keeps_reading [OF True, of S C ow rn] unfolding keeps_def serve.simps by simp
next
  case False
  show ?thesis
    by (rule refusedE [OF reader_refused [OF assms False, of S]]) (use False in \<open>auto simp: protected_def\<close>)
qed

definition reader_sample :: user where
  "reader_sample = user_sample\<lparr>us_id := ''x'', us_name := ''bob''\<rparr>"

definition reader_call :: "unit call" where
  "reader_call = (call_sample pad_env (Some reader_sample))\<lparr>ca_us := (\<lambda>_. ''a'')\<rparr>"

lemma reader_state:
  obtains s :: "unit server" where "repo_ids_ok s" "policies_ok s"
    "reader reader_call s ''alice'' ''data''"
proof -
  obtain d g where d: "\<forall>(nm, ss) \<in> set builtins. has_builtin d nm ss"
    "GroupRepo_Get (NewGetGroupParams\<lparr>gg_name := Some ''RepoRead''\<rparr>) d = Inr g" "ad_members d = [demo_member (gp_id g)]"
    using demo_access by metis
  define d' where "d' = d\<lparr>ad_db := (ad_db d)\<lparr>db_users := [user_sample\<lparr>us_id := ''o''\<rparr>], db_repos := [private_repo]\<rparr>\<rparr>"
  let ?s = "server_sample\<lparr>sv_data := d'\<rparr>"
  have "has_builtin d' nm ss \<longleftrightarrow> has_builtin d nm ss" for nm ss by (rule has_builtin_cong) (simp_all add: d'_def)
  then have "policies_ok ?s" using d(1) by (simp add: policies_ok_def server_sample_def)
  have "repo_ids_ok ?s" by (simp add: repo_ids_ok_def d'_def private_repo_def uuid_short)
  have "GroupRepo_Get (NewGetGroupParams\<lparr>gg_name := Some ''RepoRead''\<rparr>) d' = Inr g"
    using d(2) by (simp add: GroupRepo_Get_def d'_def)
  moreover have "MemberRepo_GetMember \<lparr>gm_member = uuid_Nil, gm_repo = ''r'', gm_user = ''x''\<rparr> d' = Inr (demo_member (gp_id g))"
    using d(3) by (simp add: MemberRepo_GetMember_def where_id_def q_select_one_def tbl_get_def holds_def demo_member_def
        uuid_short d'_def)
  moreover have "the_owner ?s ''alice'' (user_sample\<lparr>us_id := ''o''\<rparr>)"
    "the_repository ?s (user_sample\<lparr>us_id := ''o''\<rparr>) ''data'' private_repo"
    by (simp_all add: the_owner_def the_repository_def d'_def user_sample_def private_repo_def UserRepo_Get_def
        NewGetUserParams_def RepositoryRepo_Get_def NewGetRepoParams_def q_select_one_def tbl_get_def holds_def
        where_id_def where_opt_def uuid_short)
  ultimately have "reader reader_call ?s ''alice'' ''data''"
    unfolding reader_def
    by (intro exI [of _ reader_sample] exI [of _ "user_sample\<lparr>us_id := ''o''\<rparr>"] exI [of _ private_repo])
      (simp add: reader_call_def call_sample_def reader_sample_def user_sample_def private_repo_def uuid_text_def uuid_short demo_member_def)
  moreover note \<open>policies_ok ?s\<close> \<open>repo_ids_ok ?s\<close>
  ultimately show thesis by (intro that)
qed

theorem reader_changes_nothing_witness:
  "\<exists>(s :: unit server) s' r. serve service_sample (On_repo ''alice'' ''data'' (On_branch (B_CreateBranch ''feature'' ''main'')))
      reader_call s = Some (None, s') \<and> error_reply r \<and> sv_data s' = sv_data s"
proof -
  obtain s :: "unit server" where s: "repo_ids_ok s" "policies_ok s"
    "reader reader_call s ''alice'' ''data''" by (rule reader_state)
  from reader_changes_nothing [OF s, of service_sample "On_branch (B_CreateBranch ''feature'' ''main'')"]
  show ?thesis by (auto simp: asks_to_read_def)
qed

end
