(* ===== verification/Local_Store.thy ===== *)
theory Local_Store
  imports Blocks
begin

section \<open>The block store in a directory: block/local/adapter.go\<close>

text \<open>
  The adapter keeps every content in a file. A file system is the list of its paths with what they
  are; paths are clean, there are no links, and permissions and full disks are not modelled, except
  in the check for a writable directory. The first part is what the adapter uses of the packages os,
  path/filepath and encoding/hex; errors of these packages keep their cause, not their text. The
  walker has no caller; names of contents are in \<open>Block_Keys\<close>.
\<close>

subsection \<open>Files\<close>

datatype fnode = Directory | File bytes

type_synonym fs = "(string \<times> fnode) list"

definition ErrNotExist :: error where "ErrNotExist = ErrMsg ''no such file or directory''"
definition ErrNotDir :: error where "ErrNotDir = ErrMsg ''not a directory''"
definition ErrIsDir :: error where "ErrIsDir = ErrMsg ''is a directory''"
definition ErrNotEmpty :: error where "ErrNotEmpty = ErrMsg ''directory not empty''"
definition ErrInvalid :: error where "ErrInvalid = ErrMsg ''invalid argument''"

definition path_Dir :: "string \<Rightarrow> string" where
  "path_Dir p = path_Clean (rev (dropWhile (\<lambda>c. c \<noteq> CHR ''/'') (rev p)))"

text \<open>The directories on the way to a path, without the root.\<close>

definition above :: "string \<Rightarrow> string list" where
  "above p = map (\<lambda>i. take i p) (filter (\<lambda>i. p ! i = CHR ''/'') [1..<length p])"

definition node_at :: "string \<Rightarrow> fs \<Rightarrow> fnode option" where
  "node_at p t = (if p = ''/'' \<or> p = ''.'' then Some Directory else map_of t p)"

definition is_file :: "fs \<Rightarrow> string \<Rightarrow> bool" where
  "is_file t p \<longleftrightarrow> (case node_at p t of Some (File _) \<Rightarrow> True | _ \<Rightarrow> False)"

definition missing :: "string \<Rightarrow> fs \<Rightarrow> error" where
  "missing p t = (if list_ex (is_file t) (above p) then ErrNotDir else ErrNotExist)"

definition os_Stat :: "string \<Rightarrow> fs \<Rightarrow> fnode result" where
  "os_Stat p t = (case node_at p t of None \<Rightarrow> Inl (missing p t) | Some n \<Rightarrow> Inr n)"

text \<open>What a read of an opened file delivers.\<close>

definition read_node :: "fnode \<Rightarrow> bytes result" where
  "read_node n = (case n of Directory \<Rightarrow> Inl ErrIsDir | File b \<Rightarrow> Inr b)"

definition os_Create :: "string \<Rightarrow> fs \<Rightarrow> unit result \<times> fs" where
  "os_Create p t =
     (case node_at p t of
        Some Directory \<Rightarrow> (Inl ErrIsDir, t)
      | Some (File _) \<Rightarrow> (Inr (), AList.update p (File []) t)
      | None \<Rightarrow>
          if node_at (path_Dir p) t = Some Directory then (Inr (), AList.update p (File []) t)
          else (Inl (missing p t), t))"

definition os_Write :: "string \<Rightarrow> bytes \<Rightarrow> fs \<Rightarrow> fs" where
  "os_Write p data t = AList.update p (File data) t"

definition os_MkdirAll :: "string \<Rightarrow> fs \<Rightarrow> unit result \<times> fs" where
  "os_MkdirAll d t =
     (let ds = above d @ [d] in
      if list_ex (is_file t) ds then (Inl ErrNotDir, t)
      else (Inr (), fold (\<lambda>q t. if node_at q t = None then AList.update q Directory t else t) ds t))"

definition inside :: "string \<Rightarrow> string \<Rightarrow> bool" where
  "inside p q \<longleftrightarrow> has_prefix q (if p = ''/'' then p else p @ ''/'')"

definition os_Remove :: "string \<Rightarrow> fs \<Rightarrow> unit result \<times> fs" where
  "os_Remove p t =
     (case node_at p t of
        None \<Rightarrow> (Inl (missing p t), t)
      | Some (File _) \<Rightarrow> (Inr (), AList.delete p t)
      | Some Directory \<Rightarrow>
          if p = ''/'' \<or> p = ''.'' then (Inl ErrInvalid, t)
          else if list_ex (\<lambda>(q, _). inside p q) t then (Inl ErrNotEmpty, t)
          else (Inr (), AList.delete p t))"

definition os_RemoveAll :: "string \<Rightarrow> fs \<Rightarrow> unit result \<times> fs" where
  "os_RemoveAll p t =
     (if p = ''.'' then (Inl ErrInvalid, t)
      else if list_ex (is_file t) (above p) then (Inl ErrNotDir, t)
      else (Inr (), filter (\<lambda>(q, _). q \<noteq> p \<and> \<not> inside p q) t))"

text \<open>
  \<open>filepath.Glob\<close> of a text and a star: the entries of its directory that start with it. A text
  with metacharacters is left to the argument \<open>glob\<close>.
\<close>

definition os_Glob_star :: "(string \<Rightarrow> fs \<Rightarrow> string list result) \<Rightarrow> string \<Rightarrow> fs \<Rightarrow> string list result" where
  "os_Glob_star glob p t =
     (if list_ex (\<lambda>c. c \<in> set [CHR ''*'', CHR ''?'', CHR ''['', CHR 0x5C]) p then glob (p @ ''*'') t
      else Inr (sort (filter (\<lambda>q. has_prefix q p \<and> CHR ''/'' \<notin> set (drop (length p) q)) (remdups (map fst t)))))"

text \<open>\<open>hex.DecodeString\<close>: the bytes before an error, and the error.\<close>

definition hex_val :: "char \<Rightarrow> nat option" where
  "hex_val c =
     (if CHR ''0'' \<le> c \<and> c \<le> CHR ''9'' then Some (of_char c - 48)
      else if CHR ''a'' \<le> c \<and> c \<le> CHR ''f'' then Some (of_char c - 87)
      else if CHR ''A'' \<le> c \<and> c \<le> CHR ''F'' then Some (of_char c - 55) else None)"

fun hex_decode :: "string \<Rightarrow> bytes \<times> bool" where
  "hex_decode [] = ([], True)"
| "hex_decode [c] = ([], False)"
| "hex_decode (c # d # s) =
     (case (hex_val c, hex_val d) of
        (Some i, Some j) \<Rightarrow> (case hex_decode s of (b, ok) \<Rightarrow> (char_of (16 * i + j) # b, ok))
      | _ \<Rightarrow> ([], False))"

subsection \<open>The adapter\<close>

definition DefaultNamespacePrefix :: string where "DefaultNamespacePrefix = ''local://''"

definition ErrPathNotWritable :: error where "ErrPathNotWritable = ErrMsg ''path provided is not writable''"
definition ErrInvalidUploadIDFormat :: error where "ErrInvalidUploadIDFormat = ErrMsg ''invalid upload id format''"
definition ErrBadPath :: error where "ErrBadPath = ErrMsg ''bad path traversal blocked''"
definition ErrForbidden :: error where "ErrForbidden = ErrMsg ''forbidden''"
definition ErrBadIndex :: error where "ErrBadIndex = ErrMsg ''bad index''"

record local_store =
  lo_path :: string
  lo_removeEmptyDir :: bool
  lo_allowedExternalPrefixes :: "string list"
  lo_importEnabled :: bool

definition WithAllowedExternalPrefixes :: "string list \<Rightarrow> local_store \<Rightarrow> local_store" where
  "WithAllowedExternalPrefixes allowed a = a\<lparr>lo_allowedExternalPrefixes := allowed\<rparr>"

definition WithImportEnabled :: "bool \<Rightarrow> local_store \<Rightarrow> local_store" where
  "WithImportEnabled b a = a\<lparr>lo_importEnabled := b\<rparr>"

definition WithRemoveEmptyDir :: "bool \<Rightarrow> local_store \<Rightarrow> local_store" where
  "WithRemoveEmptyDir b a = a\<lparr>lo_removeEmptyDir := b\<rparr>"

text \<open>\<open>writable\<close> is the result of \<open>isDirectoryWritable\<close>.\<close>

definition local_NewAdapter ::
  "(string \<Rightarrow> bool) \<Rightarrow> string \<Rightarrow> (local_store \<Rightarrow> local_store) list \<Rightarrow> fs \<Rightarrow> local_store result \<times> fs" where
  "local_NewAdapter writable path opts t =
     (let path = path_Clean path in
      case os_MkdirAll path t of
        (Inl e, t') \<Rightarrow> (Inl e, t')
      | (Inr _, t') \<Rightarrow>
          if \<not> writable path then (Inl ErrPathNotWritable, t')
          else (Inr (fold (\<lambda>opt. opt) opts
            \<lparr>lo_path = path, lo_removeEmptyDir = True, lo_allowedExternalPrefixes = [], lo_importEnabled = False\<rparr>), t'))"

definition verifyRelPath :: "local_store \<Rightarrow> string \<Rightarrow> unit result" where
  "verifyRelPath l p = (if \<not> has_prefix (path_Clean p) (lo_path l) then Inl ErrBadPath else Inr ())"

definition VerifyAbsPath :: "string \<Rightarrow> string \<Rightarrow> string list \<Rightarrow> unit result" where
  "VerifyAbsPath absPath adapterPath allowedPrefixes =
     (if \<not> has_prefix absPath ''/'' \<or> path_Clean absPath \<noteq> absPath then Inl ErrBadPath
      else if has_prefix absPath adapterPath then Inr ()
      else if \<not> list_ex (has_prefix absPath) allowedPrefixes then Inl ErrForbidden
      else Inr ())"

definition extractParamsFromObj :: "local_store \<Rightarrow> object_pointer \<Rightarrow> string result" where
  "extractParamsFromObj l ptr =
     (if has_prefix (Identifier ptr) DefaultNamespacePrefix then
        (let p = drop (length DefaultNamespacePrefix) (Identifier ptr) in
         case VerifyAbsPath p (lo_path l) (lo_allowedExternalPrefixes l) of Inl e \<Rightarrow> Inl e | Inr _ \<Rightarrow> Inr p)
      else if \<not> has_prefix (StorageNamespace ptr) DefaultNamespacePrefix then Inl ErrBadPath
      else
        (let p = path_Join [lo_path l, drop (length DefaultNamespacePrefix) (StorageNamespace ptr), Identifier ptr] in
         case verifyRelPath l p of Inl e \<Rightarrow> Inl e | Inr _ \<Rightarrow> Inr p))"

definition maybeMkdir :: "local_store \<Rightarrow> string \<Rightarrow> fs \<Rightarrow> unit result \<times> fs" where
  "maybeMkdir l path t =
     (case verifyRelPath l path of
        Inl e \<Rightarrow> (Inl e, t)
      | Inr _ \<Rightarrow>
          (case os_Create path t of
             (r, t1) \<Rightarrow>
               if r \<noteq> Inl ErrNotExist then (r, t1)
               else (case os_MkdirAll (path_Dir (path_Clean path)) t1 of
                       (Inl e, t2) \<Rightarrow> (Inl e, t2)
                     | (Inr _, t2) \<Rightarrow> os_Create path t2)))"

text \<open>
  A reader is what it delivers once the target exists: another file may be the target itself, which
  is empty then.
\<close>

definition put_reader :: "local_store \<Rightarrow> object_pointer \<Rightarrow> (fs \<Rightarrow> bytes result) \<Rightarrow> fs \<Rightarrow> bytes result \<times> fs" where
  "put_reader l obj reader t =
     (case extractParamsFromObj l obj of
        Inl e \<Rightarrow> (Inl e, t)
      | Inr p \<Rightarrow>
          (let p = path_Clean p in
           case maybeMkdir l p t of
             (Inl e, t1) \<Rightarrow> (Inl e, t1)
           | (Inr _, t1) \<Rightarrow>
               (case reader t1 of Inl e \<Rightarrow> (Inl e, t1) | Inr data \<Rightarrow> (Inr data, os_Write p data t1))))"

definition local_Put :: "local_store \<Rightarrow> object_pointer \<Rightarrow> int \<Rightarrow> bytes \<Rightarrow> fs \<Rightarrow> unit result \<times> fs" where
  "local_Put l obj sizeBytes data t =
     (case put_reader l obj (\<lambda>_. Inr data) t of (Inl e, t') \<Rightarrow> (Inl e, t') | (Inr _, t') \<Rightarrow> (Inr (), t'))"

text \<open>An open file is read later, when the target of a copy exists.\<close>

definition read_file :: "string \<Rightarrow> fs \<Rightarrow> bytes result" where
  "read_file p t = (case os_Stat p t of Inl e \<Rightarrow> Inl e | Inr n \<Rightarrow> read_node n)"

definition local_open :: "local_store \<Rightarrow> object_pointer \<Rightarrow> fs \<Rightarrow> string result" where
  "local_open l obj t =
     (case extractParamsFromObj l obj of
        Inl e \<Rightarrow> Inl e
      | Inr p \<Rightarrow>
          (case os_Stat (path_Clean p) t of
             Inl e \<Rightarrow> if e = ErrNotExist then Inl ErrDataNotFound else Inl e
           | Inr _ \<Rightarrow> Inr (path_Clean p)))"

definition local_Get :: "local_store \<Rightarrow> object_pointer \<Rightarrow> int \<Rightarrow> fs \<Rightarrow> bytes result" where
  "local_Get l obj expectedSize t = (case local_open l obj t of Inl e \<Rightarrow> Inl e | Inr p \<Rightarrow> read_file p t)"

text \<open>What a range of an open file delivers.\<close>

definition read_range :: "string \<Rightarrow> int \<Rightarrow> int \<Rightarrow> fs \<Rightarrow> bytes result" where
  "read_range p first last_pos t =
     (case read_file p t of Inl e \<Rightarrow> Inl e | Inr b \<Rightarrow> section_bytes b first (last_pos - first + 1))"

definition local_GetRange :: "local_store \<Rightarrow> object_pointer \<Rightarrow> int \<Rightarrow> int \<Rightarrow> fs \<Rightarrow> bytes result" where
  "local_GetRange l obj first last_pos t =
     (if first < 0 \<or> last_pos < first then Inl ErrBadIndex
      else case local_open l obj t of Inl e \<Rightarrow> Inl e | Inr p \<Rightarrow> read_range p first last_pos t)"

definition local_Exists :: "local_store \<Rightarrow> object_pointer \<Rightarrow> fs \<Rightarrow> bool result" where
  "local_Exists l obj t =
     (case extractParamsFromObj l obj of
        Inl e \<Rightarrow> Inl e
      | Inr p \<Rightarrow>
          (case os_Stat p t of
             Inl e \<Rightarrow> if e = ErrNotExist then Inr False else Inl e
           | Inr _ \<Rightarrow> Inr True))"

definition local_GetProperties :: "local_store \<Rightarrow> object_pointer \<Rightarrow> fs \<Rightarrow> properties result" where
  "local_GetProperties l obj t =
     (case extractParamsFromObj l obj of
        Inl e \<Rightarrow> Inl e
      | Inr p \<Rightarrow> (case os_Stat p t of Inl e \<Rightarrow> Inl e | Inr _ \<Rightarrow> Inr None))"

text \<open>
  The loop of \<open>removeEmptyDirUntil\<close>: it ends because the name of a directory is shorter than the
  names in it. Its \<open>stopAt\<close> ends with a slash, which the condition repeats for the termination.
\<close>

definition seg_length :: "string list \<Rightarrow> nat" where
  "seg_length ss = sum_list (map (\<lambda>s. length s + 1) ss)"

lemma seg_length_simps [simp]:
  "seg_length [] = 0" "seg_length (s # ss) = length s + 1 + seg_length ss" "seg_length (xs @ ys) = seg_length xs + seg_length ys"
  "seg_length (rev ss) = seg_length ss"
  by (simp_all add: seg_length_def rev_map [symmetric])

lemma seg_length_clean: "seg_length (clean_segs rooted acc segs) \<le> seg_length acc + seg_length (filter (\<lambda>s. s \<noteq> []) segs)"
proof (induction segs arbitrary: acc)
  case (Cons s segs)
  have tl: "seg_length (tl acc) \<le> seg_length acc" by (cases acc) simp_all
  show ?case
    using Cons [of acc] Cons [of "tl acc"] Cons [of "s # acc"] tl by auto
qed simp

lemma length_join: "ss \<noteq> [] \<Longrightarrow> length (join_with ''/'' ss) + 1 = seg_length ss"
  by (induction "''/'' :: string" ss rule: join_with.induct) simp_all

lemma seg_length_split: "seg_length (split_on (CHR ''/'') s) = length s + 1"
  using length_join [of "split_on (CHR ''/'') s"] join_split_on [of "CHR ''/''" s] by simp

lemma seg_length_filter: "seg_length ss = seg_length (filter (\<lambda>s. s \<noteq> []) ss) + length (filter (\<lambda>s. s = []) ss)"
  by (induction ss) simp_all

lemma split_on_snoc: "split_on c (s @ [c]) = split_on c s @ [[]]"
  by (induction s) (auto split: list.splits)

lemma path_Clean_shorter:
  assumes "path_Clean (s @ ''/'') \<noteq> ''/''"
  shows "length (path_Clean (s @ ''/'')) \<le> max 1 (length s)"
proof -
  let ?q = "s @ ''/''"
  let ?rooted = "hd ?q = CHR ''/''"
  let ?clean = "clean_segs ?rooted [] (split_on (CHR ''/'') ?q)"
  have le: "seg_length ?clean + length (filter (\<lambda>s. s = []) (split_on (CHR ''/'') ?q)) \<le> length s + 2"
    using seg_length_clean [of ?rooted "[]" "split_on (CHR ''/'') ?q"] seg_length_split [of ?q]
      seg_length_filter [of "split_on (CHR ''/'') ?q"] by simp
  have out: "path_Clean ?q = (let out = (if ?rooted then ''/'' else []) @ join_with ''/'' ?clean in if out = [] then ''.'' else out)"
    by (simp add: path_Clean_def)
  show ?thesis
  proof (cases "?clean = []")
    case True
    then show ?thesis using out assms by (simp add: Let_def split: if_splits)
  next
    case False
    have empties: "length (filter (\<lambda>s. s = []) (split_on (CHR ''/'') ?q)) \<ge> (if ?rooted then 2 else 1)"
    proof (cases s)
      case Nil
      then show ?thesis by simp
    next
      case (Cons c s')
      then show ?thesis
        using split_on_snoc [of "CHR ''/''" s] by (auto split: list.splits)
    qed
    have len: "length (join_with ''/'' ?clean) + 1 = seg_length ?clean" by (rule length_join [OF False])
    have "length (path_Clean ?q) \<le> max 1 (length (join_with ''/'' ?clean) + (if ?rooted then 1 else 0))"
      unfolding out Let_def by simp
    then show ?thesis using le empties len by (auto split: if_splits)
  qed
qed

lemma path_Dir_shorter:
  assumes "CHR ''/'' \<in> set p" "path_Dir p \<noteq> ''/''" "length p > 1"
  shows "length (path_Dir p) < length p"
proof -
  let ?q = "dropWhile (\<lambda>c. c \<noteq> CHR ''/'') (rev p)"
  have "?q \<noteq> []" using assms(1) by (simp add: dropWhile_eq_Nil_conv)
  moreover have "hd ?q = CHR ''/''" using hd_dropWhile [OF \<open>?q \<noteq> []\<close>] by simp
  ultimately obtain r where q: "?q = CHR ''/'' # r" by (cases ?q) auto
  have "length ?q \<le> length (rev p)" by (rule length_dropWhile_le)
  then have "length r < length p" using q by simp
  moreover have "length (path_Dir p) \<le> max 1 (length (rev r))"
    using path_Clean_shorter [of "rev r"] assms(2) q by (simp add: path_Dir_def)
  ultimately show ?thesis using assms(3) by auto
qed

function remove_empty_loop :: "string \<Rightarrow> string \<Rightarrow> fs \<Rightarrow> fs" where
  "remove_empty_loop stopAt dir t =
     (if \<not> (has_prefix dir stopAt \<and> CHR ''/'' \<in> set stopAt \<and> dir \<noteq> stopAt) then t
      else (case os_Remove dir t of
              (Inl _, t') \<Rightarrow> t'
            | (Inr _, t') \<Rightarrow> if path_Dir dir = ''/'' then t' else remove_empty_loop stopAt (path_Dir dir) t'))"
  by pat_completeness auto
termination
proof (relation "measure (length \<circ> fst \<circ> snd)", goal_cases)
  case (2 stopAt dir t)
  then obtain zs where "dir = stopAt @ zs" "zs \<noteq> []" "CHR ''/'' \<in> set stopAt" by (auto simp: has_prefix_iff prefix_def)
  moreover from this have "1 \<le> length stopAt" "1 \<le> length zs" by (auto simp: Suc_le_eq)
  ultimately have "CHR ''/'' \<in> set dir" "length dir > 1" by simp_all
  with path_Dir_shorter 2 show ?case by simp
qed simp

declare remove_empty_loop.simps [simp del]

definition removeEmptyDirUntil :: "string \<Rightarrow> string \<Rightarrow> fs \<Rightarrow> fs" where
  "removeEmptyDirUntil dir stopAt t =
     (if stopAt = [] then t
      else remove_empty_loop (if has_suffix stopAt ''/'' then stopAt else stopAt @ ''/'') dir t)"

text \<open>A namespace that is shorter than the prefix panics after the file is gone.\<close>

definition local_Remove :: "local_store \<Rightarrow> object_pointer \<Rightarrow> fs \<Rightarrow> unit result \<times> fs" where
  "local_Remove l obj t =
     (case extractParamsFromObj l obj of
        Inl e \<Rightarrow> (Inl e, t)
      | Inr p \<Rightarrow>
          (let p = path_Clean p in
           case os_Remove p t of
             (Inl e, t1) \<Rightarrow> (Inl e, t1)
           | (Inr _, t1) \<Rightarrow>
               if \<not> lo_removeEmptyDir l then (Inr (), t1)
               else if length (StorageNamespace obj) < length DefaultNamespacePrefix
               then (Inl (Panic ''slice bounds out of range''), t1)
               else (Inr (), removeEmptyDirUntil (path_Dir p)
                 (path_Join [lo_path l, drop (length DefaultNamespacePrefix) (StorageNamespace obj)]) t1)))"

definition local_RemoveNameSpace :: "local_store \<Rightarrow> string \<Rightarrow> fs \<Rightarrow> unit result \<times> fs" where
  "local_RemoveNameSpace l storageNamespace t =
     (case extractParamsFromObj l
        \<lparr>StorageNamespace = storageNamespace, Identifier = [], IdentifierType = IdentifierTypeRelative\<rparr> of
        Inl e \<Rightarrow> (Inl e, t)
      | Inr p \<Rightarrow> os_RemoveAll (path_Clean p) t)"

definition local_Copy :: "local_store \<Rightarrow> object_pointer \<Rightarrow> object_pointer \<Rightarrow> fs \<Rightarrow> unit result \<times> fs" where
  "local_Copy l sourceObj destinationObj t =
     (case extractParamsFromObj l sourceObj of
        Inl e \<Rightarrow> (Inl e, t)
      | Inr source \<Rightarrow>
          (case os_Stat (path_Clean source) t of
             Inl e \<Rightarrow> (Inl e, t)
           | Inr _ \<Rightarrow>
               (case extractParamsFromObj l destinationObj of
                  Inl e \<Rightarrow> (Inl e, t)
                | Inr dest \<Rightarrow>
                    (case maybeMkdir l dest t of
                       (Inl e, t1) \<Rightarrow> (Inl e, t1)
                     | (Inr _, t1) \<Rightarrow>
                         (case read_file (path_Clean source) t1 of
                            Inl e \<Rightarrow> (Inl e, t1)
                          | Inr data \<Rightarrow> (Inr (), os_Write dest data t1))))))"

subsection \<open>Uploads in parts\<close>

text \<open>
  A part is a file of the namespace whose name is the upload id, a dash and the part number with at
  least five digits. \<open>E\<close> and \<open>encode\<close> are the packages crypto/md5 and encoding/hex.
\<close>

definition isValidUploadID :: "string \<Rightarrow> unit result" where
  "isValidUploadID uploadID = (if snd (hex_decode uploadID) then Inr () else Inl ErrInvalidUploadIDFormat)"

definition format_05d :: "int \<Rightarrow> string" where
  "format_05d n =
     (let digits = dec_digits (nat \<bar>n\<bar>); sign = (if n < 0 then ''-'' else [])
      in sign @ replicate (5 - length sign - length digits) (CHR ''0'') @ digits)"

definition part_pointer :: "object_pointer \<Rightarrow> string \<Rightarrow> object_pointer" where
  "part_pointer obj fName =
     \<lparr>StorageNamespace = StorageNamespace obj, Identifier = fName, IdentifierType = IdentifierTypeRelative\<rparr>"

definition put_part_file ::
  "env \<Rightarrow> (bytes \<Rightarrow> string) \<Rightarrow> local_store \<Rightarrow> object_pointer \<Rightarrow> (fs \<Rightarrow> bytes result) \<Rightarrow> string \<Rightarrow> int \<Rightarrow> fs \<Rightarrow> string result \<times> fs" where
  "put_part_file E encode l obj reader uploadID partNumber t =
     (case put_reader l (part_pointer obj (uploadID @ ''-'' @ format_05d partNumber)) reader t of
        (Inl e, t') \<Rightarrow> (Inl e, t')
      | (Inr data, t') \<Rightarrow> (Inr (encode (env_md5 E data)), t'))"

definition local_UploadPart ::
  "env \<Rightarrow> (bytes \<Rightarrow> string) \<Rightarrow> local_store \<Rightarrow> object_pointer \<Rightarrow> bytes \<Rightarrow> string \<Rightarrow> int \<Rightarrow> fs \<Rightarrow> string result \<times> fs" where
  "local_UploadPart E encode l obj data uploadID partNumber t =
     (case isValidUploadID uploadID of
        Inl e \<Rightarrow> (Inl e, t)
      | Inr _ \<Rightarrow> put_part_file E encode l obj (\<lambda>_. Inr data) uploadID partNumber t)"

definition local_UploadCopyPart ::
  "env \<Rightarrow> (bytes \<Rightarrow> string) \<Rightarrow> local_store \<Rightarrow> object_pointer \<Rightarrow> object_pointer \<Rightarrow> string \<Rightarrow> int \<Rightarrow> fs \<Rightarrow> string result \<times> fs" where
  "local_UploadCopyPart E encode l sourceObj destinationObj uploadID partNumber t =
     (case isValidUploadID uploadID of
        Inl e \<Rightarrow> (Inl e, t)
      | Inr _ \<Rightarrow>
          (case local_open l sourceObj t of
             Inl e \<Rightarrow> (Inl e, t)
           | Inr source \<Rightarrow> put_part_file E encode l destinationObj (read_file source) uploadID partNumber t))"

definition local_UploadCopyPartRange ::
  "env \<Rightarrow> (bytes \<Rightarrow> string) \<Rightarrow> local_store \<Rightarrow> object_pointer \<Rightarrow> object_pointer \<Rightarrow> string \<Rightarrow> int \<Rightarrow> int \<Rightarrow> int \<Rightarrow> fs \<Rightarrow>
    string result \<times> fs" where
  "local_UploadCopyPartRange E encode l sourceObj destinationObj uploadID partNumber first last_pos t =
     (case isValidUploadID uploadID of
        Inl e \<Rightarrow> (Inl e, t)
      | Inr _ \<Rightarrow>
          if first < 0 \<or> last_pos < first then (Inl ErrBadIndex, t)
          else (case local_open l sourceObj t of
             Inl e \<Rightarrow> (Inl e, t)
           | Inr source \<Rightarrow>
               put_part_file E encode l destinationObj (read_range source first last_pos) uploadID partNumber t))"

definition local_CreateMultiPartUpload ::
  "(bytes \<Rightarrow> string) \<Rightarrow> uuid \<Rightarrow> local_store \<Rightarrow> object_pointer \<Rightarrow> fs \<Rightarrow> string result \<times> fs" where
  "local_CreateMultiPartUpload encode fresh l obj t =
     (let made = (if CHR ''/'' \<in> set (Identifier obj) then
            (case extractParamsFromObj l obj of
               Inl e \<Rightarrow> (Inl e, t)
             | Inr fullPath \<Rightarrow> os_MkdirAll (path_Dir fullPath) t)
          else (Inr (), t))
      in case made of (Inl e, t') \<Rightarrow> (Inl e, t') | (Inr _, t') \<Rightarrow> (Inr (encode fresh), t'))"

definition getPartFiles ::
  "(string \<Rightarrow> fs \<Rightarrow> string list result) \<Rightarrow> local_store \<Rightarrow> string \<Rightarrow> object_pointer \<Rightarrow> fs \<Rightarrow> string list result" where
  "getPartFiles glob l uploadID obj t =
     (case extractParamsFromObj l (part_pointer obj uploadID) of
        Inl e \<Rightarrow> Inl e
      | Inr p \<Rightarrow> (case os_Glob_star glob p t of Inl e \<Rightarrow> Inl e | Inr names \<Rightarrow> Inr (sort names)))"

text \<open>A file is removed even when its path is not allowed; the first such error is returned.\<close>

definition removePartFiles :: "local_store \<Rightarrow> string list \<Rightarrow> fs \<Rightarrow> unit result \<times> fs" where
  "removePartFiles l files t =
     (let bad = find (\<lambda>nm. verifyRelPath l nm \<noteq> Inr ()) files
      in ((case bad of None \<Rightarrow> Inr () | Some nm \<Rightarrow> verifyRelPath l nm), fold (\<lambda>nm t. snd (os_Remove nm t)) files t))"

fun open_all :: "local_store \<Rightarrow> string list \<Rightarrow> fs \<Rightarrow> unit result" where
  "open_all l [] t = Inr ()"
| "open_all l (nm # names) t =
     (case verifyRelPath l nm of
        Inl e \<Rightarrow> Inl e
      | Inr _ \<Rightarrow> (case os_Stat (path_Clean nm) t of Inl e \<Rightarrow> Inl e | Inr _ \<Rightarrow> open_all l names t))"

text \<open>\<open>io.Copy\<close> from the files one after the other; an error leaves what was copied before.\<close>

fun copy_all :: "string list \<Rightarrow> fs \<Rightarrow> bytes \<Rightarrow> unit result \<times> bytes" where
  "copy_all [] t done = (Inr (), done)"
| "copy_all (nm # names) t done =
     (case read_file (path_Clean nm) t of Inl e \<Rightarrow> (Inl e, done) | Inr b \<Rightarrow> copy_all names t (done @ b))"

definition unitePartFiles :: "local_store \<Rightarrow> object_pointer \<Rightarrow> string list \<Rightarrow> fs \<Rightarrow> nat result \<times> fs" where
  "unitePartFiles l obj filenames t =
     (case extractParamsFromObj l obj of
        Inl e \<Rightarrow> (Inl e, t)
      | Inr p \<Rightarrow>
          (case os_Create p t of
             (Inl e, t1) \<Rightarrow> (Inl e, t1)
           | (Inr _, t1) \<Rightarrow>
               (case open_all l filenames t1 of
                  Inl e \<Rightarrow> (Inl e, t1)
                | Inr _ \<Rightarrow>
                    (case copy_all filenames t1 [] of
                       (Inl e, b) \<Rightarrow> (Inl e, os_Write p b t1)
                     | (Inr _, b) \<Rightarrow> (Inr (length b), os_Write p b t1)))))"

definition local_AbortMultiPartUpload ::
  "(string \<Rightarrow> fs \<Rightarrow> string list result) \<Rightarrow> local_store \<Rightarrow> object_pointer \<Rightarrow> string \<Rightarrow> fs \<Rightarrow> unit result \<times> fs" where
  "local_AbortMultiPartUpload glob l obj uploadID t =
     (case isValidUploadID uploadID of
        Inl e \<Rightarrow> (Inl e, t)
      | Inr _ \<Rightarrow>
          (case getPartFiles glob l uploadID obj t of
             Inl e \<Rightarrow> (Inl e, t)
           | Inr files \<Rightarrow> removePartFiles l files t))"

record multipart_part =
  mp_ETag :: string
  mp_PartNumber :: int

definition computeETag :: "env \<Rightarrow> (bytes \<Rightarrow> string) \<Rightarrow> multipart_part list \<Rightarrow> string" where
  "computeETag E encode parts =
     (let s = concat (map (\<lambda>p. trim_by (\<lambda>c. c = CHR 0x22) (mp_ETag p)) parts)
      in encode (env_md5 E (fst (hex_decode s))))"

definition local_CompleteMultiPartUpload ::
  "(string \<Rightarrow> fs \<Rightarrow> string list result) \<Rightarrow> env \<Rightarrow> (bytes \<Rightarrow> string) \<Rightarrow> local_store \<Rightarrow> object_pointer \<Rightarrow> string \<Rightarrow>
    multipart_part list \<Rightarrow> fs \<Rightarrow> (string \<times> nat) result \<times> fs" where
  "local_CompleteMultiPartUpload glob E encode l obj uploadID parts t =
     (case isValidUploadID uploadID of
        Inl e \<Rightarrow> (Inl e, t)
      | Inr _ \<Rightarrow>
          (let etag = computeETag E encode parts @ ''-'' @ dec_digits (length parts) in
           case getPartFiles glob l uploadID obj t of
             Inl e \<Rightarrow> (Inl e, t)
           | Inr partFiles \<Rightarrow>
               (case unitePartFiles l obj partFiles t of
                  (Inl e, t1) \<Rightarrow> (Inl e, t1)
                | (Inr sz, t1) \<Rightarrow>
                    (case removePartFiles l partFiles t1 of
                       (Inl e, t2) \<Rightarrow> (Inl e, t2)
                     | (Inr _, t2) \<Rightarrow> (Inr (etag, sz), t2)))))"

definition local_adapter :: "local_store \<Rightarrow> fs adapter" where
  "local_adapter l =
     \<lparr>blk_Put = local_Put l, blk_Get = local_Get l, blk_GetRange = local_GetRange l,
      blk_RemoveNameSpace = local_RemoveNameSpace l\<rparr>"

end
