(* ===== verification/Local_Store_Props.thy ===== *)
theory Local_Store_Props
  imports Local_Store
begin

section \<open>What the store in a directory does\<close>

text \<open>
  The adapter implements the interface of block stores in a namespace that is one directory below
  its own, as the server makes them; it touches only paths that begin with its own path, which is
  less than being inside it; and an upload in parts puts them together in the order of their numbers.
\<close>

subsection \<open>Plain paths\<close>

definition plain :: "string \<Rightarrow> bool" where
  "plain s \<longleftrightarrow> s \<noteq> [] \<and> s \<noteq> ''.'' \<and> s \<noteq> ''..'' \<and> CHR ''/'' \<notin> set s"

definition abs_path :: "string list \<Rightarrow> string" where
  "abs_path ss = concat (map (\<lambda>s. CHR ''/'' # s) ss)"

lemma abs_path_simps [simp]:
  "abs_path [] = []" "abs_path (s # ss) = CHR ''/'' # s @ abs_path ss" "abs_path (ss @ ts) = abs_path ss @ abs_path ts"
  by (simp_all add: abs_path_def)

lemma abs_path_join: "ss \<noteq> [] \<Longrightarrow> abs_path ss = CHR ''/'' # join_with ''/'' ss"
  by (induction "''/'' :: string" ss rule: join_with.induct) simp_all

lemma clean_segs_plain: "\<forall>s \<in> set ss. plain s \<Longrightarrow> clean_segs r acc ss = rev acc @ ss"
  by (induction ss arbitrary: acc) (auto simp: plain_def)

lemma split_abs_path: "ss \<noteq> [] \<Longrightarrow> \<forall>s \<in> set ss. plain s \<Longrightarrow> split_on (CHR ''/'') (abs_path ss) = [] # ss"
  using split_join_on [of ss "CHR ''/''"] by (auto simp: abs_path_join plain_def)

lemma path_Clean_plain [simp]:
  assumes "ss \<noteq> []" "\<forall>s \<in> set ss. plain s"
  shows "path_Clean (abs_path ss) = abs_path ss"
proof -
  have "clean_segs True [] ([] # ss) = ss" using clean_segs_plain [OF assms(2), of True "[]"] by simp
  then have "path_Clean (abs_path ss) = CHR ''/'' # join_with ''/'' ss"
    using split_abs_path [OF assms] abs_path_join [OF assms(1)] by (simp add: path_Clean_def Let_def)
  then show ?thesis using abs_path_join [OF assms(1)] by simp
qed

lemma path_Dir_plain:
  assumes "ss \<noteq> []" "\<forall>s \<in> set ss. plain s" "CHR ''/'' \<notin> set s"
  shows "path_Dir (abs_path (ss @ [s])) = abs_path ss"
proof -
  have "dropWhile (\<lambda>c. c \<noteq> CHR ''/'') (rev (abs_path (ss @ [s]))) = CHR ''/'' # rev (abs_path ss)"
    using assms(3) by (subst abs_path_simps, simp) (subst dropWhile_append2; auto)
  then have "path_Dir (abs_path (ss @ [s])) = path_Clean (abs_path ss @ ''/'')"
    by (simp add: path_Dir_def)
  moreover have "split_on (CHR ''/'') (abs_path ss @ ''/'') = [] # ss @ [[]]"
    using split_on_snoc [of "CHR ''/''" "abs_path ss"] split_abs_path [OF assms(1,2)] by simp
  moreover have "clean_segs True [] ([] # ss @ [[]]) = ss"
  proof -
    have "clean_segs True acc (ss @ [[]]) = clean_segs True acc ss" for acc
      using assms(2) by (induction ss arbitrary: acc) (auto simp: plain_def)
    then show ?thesis using clean_segs_plain [OF assms(2)] by simp
  qed
  moreover have "hd (abs_path ss @ ''/'') = CHR ''/''" by (cases ss) auto
  ultimately show ?thesis using abs_path_join [OF assms(1)] assms(1) by (simp add: path_Clean_def Let_def)
qed

lemma upt_split: "1 \<le> n \<Longrightarrow> [1..<n + Suc m] = [1..<n] @ n # [Suc n..<n + Suc m]"
  using upt_add_eq_append [of 1 n "Suc m"] upt_conv_Cons [of n "n + Suc m"] by (simp del: upt_Suc add_Suc_right)

lemma above_snoc:
  assumes "p \<noteq> []" "CHR ''/'' \<notin> set s"
  shows "above (p @ CHR ''/'' # s) = above p @ [p]"
proof -
  have "1 \<le> length p" using assms(1) by (cases p) auto
  moreover have "length (p @ CHR ''/'' # s) = length p + Suc (length s)" by simp
  ultimately have "[1..<length (p @ CHR ''/'' # s)] = [1..<length p] @ length p # [Suc (length p)..<length p + Suc (length s)]"
    using upt_split by metis
  moreover have "filter (\<lambda>i. (p @ CHR ''/'' # s) ! i = CHR ''/'') [1..<length p] = filter (\<lambda>i. p ! i = CHR ''/'') [1..<length p]"
    by (intro filter_cong) (auto simp: nth_append)
  moreover have "filter (\<lambda>i. (p @ CHR ''/'' # s) ! i = CHR ''/'') [Suc (length p)..<length p + Suc (length s)] = []"
  proof -
    have "(p @ CHR ''/'' # s) ! i \<noteq> CHR ''/''" if "Suc (length p) \<le> i" "i < length p + Suc (length s)" for i
    proof -
      have "i = length p + Suc (i - Suc (length p))" "i - Suc (length p) < length s" using that by simp_all
      then have "(p @ CHR ''/'' # s) ! i = s ! (i - Suc (length p))" by (metis nth_append_length_plus nth_Cons_Suc)
      then show ?thesis using assms(2) \<open>i - Suc (length p) < length s\<close> by (auto simp: in_set_conv_nth)
    qed
    then show ?thesis by (auto simp: filter_empty_conv simp del: upt_Suc)
  qed
  ultimately show ?thesis by (simp add: above_def del: length_append)
qed


subsection \<open>The adapter is a block store\<close>

text \<open>The adapter has an absolute path, and the namespace is one name.\<close>

definition store_ok :: "local_store \<Rightarrow> string \<Rightarrow> bool" where
  "store_ok l x \<longleftrightarrow> plain x \<and> (\<exists>ss. ss \<noteq> [] \<and> (\<forall>s \<in> set ss. plain s) \<and> lo_path l = abs_path ss)"

definition ns_root :: "local_store \<Rightarrow> string \<Rightarrow> string" where
  "ns_root l x = lo_path l @ CHR ''/'' # x"

definition ns_file :: "local_store \<Rightarrow> string \<Rightarrow> string \<Rightarrow> string" where
  "ns_file l x a = ns_root l x @ CHR ''/'' # a"

text \<open>
  No file is in the way of the namespace's directory or of the directories of blobs, and no
  directory where the file of a blob belongs.
\<close>

definition dir_ok :: "string \<Rightarrow> fs \<Rightarrow> bool" where
  "dir_ok r t \<longleftrightarrow> (\<forall>q \<in> set (above r @ [r]). \<not> is_file t q) \<and>
     (\<forall>a. blob_address a \<longrightarrow> \<not> is_file t (r @ CHR ''/'' # take 2 a) \<and> node_at (r @ CHR ''/'' # a) t \<noteq> Some Directory)"

lemma blob_address_split:
  assumes "blob_address a"
  shows "a = take 2 a @ CHR ''/'' # drop 3 a" "plain (take 2 a)" "plain (drop 3 a)" "\<not> has_prefix a DefaultNamespacePrefix"
proof -
  have ad: "take 1 (drop 2 a) = ''/''" "3 < length a" "set (take 2 a @ drop 3 a) \<subseteq> set ''0123456789abcdef''"
    using assms by (simp_all only: blob_address_def)
  obtain c1 c2 c3 r where "a = c1 # c2 # c3 # r"
    using ad(2) by (auto simp: eval_nat_numeral less_eq_Suc_le Suc_le_length_iff)
  with ad(1) show split: "a = take 2 a @ CHR ''/'' # drop 3 a" by simp
  have no: "CHR ''/'' \<notin> set (take 2 a @ drop 3 a)" "CHR ''.'' \<notin> set (take 2 a @ drop 3 a)" "CHR ''l'' \<notin> set (take 2 a @ drop 3 a)"
    using ad(3) by auto
  have len: "take 2 a \<noteq> []" "drop 3 a \<noteq> []" using ad(2) by auto
  show "plain (take 2 a)" "plain (drop 3 a)" using no len by (auto simp: plain_def)
  have "hd a \<in> set (take 2 a)" using \<open>a = c1 # c2 # c3 # r\<close> by simp
  then have "hd a \<noteq> CHR ''l''" using no(3) by auto
  then show "\<not> has_prefix a DefaultNamespacePrefix"
    by (cases a) (auto simp: has_prefix_def DefaultNamespacePrefix_def)
qed

lemma map_of_mkdirs:
  "map_of (fold (\<lambda>q t. if node_at q t = None then AList.update q Directory t else t) ds t) q =
    (if q \<in> set ds \<and> node_at q t = None then Some Directory else map_of t q)"
proof (induction ds arbitrary: t)
  case (Cons d ds)
  show ?case
    by (simp add: Cons) (auto simp: node_at_def update_conv split: if_splits)
qed simp


lemma ns_paths:
  assumes "store_ok l x" "blob_address a"
  shows "path_Join [lo_path l, x, a] = ns_file l x a" "path_Clean (ns_file l x a) = ns_file l x a"
    "path_Dir (ns_file l x a) = ns_root l x @ CHR ''/'' # take 2 a"
    "above (ns_root l x @ CHR ''/'' # take 2 a) = above (ns_root l x) @ [ns_root l x]"
    "above (ns_file l x a) = above (ns_root l x) @ [ns_root l x, ns_root l x @ CHR ''/'' # take 2 a]"
proof -
  obtain ss where ss: "ss \<noteq> []" "\<forall>s \<in> set ss. plain s" "lo_path l = abs_path ss" and x: "plain x"
    using assms(1) by (auto simp: store_ok_def)
  note sp = blob_address_split [OF assms(2)]
  have p3: "ns_file l x a = abs_path ((ss @ [x, take 2 a]) @ [drop 3 a])"
    by (subst (1) sp(1)) (simp add: ns_file_def ns_root_def ss(3))
  have ok: "\<forall>s \<in> set (ss @ [x, take 2 a]). plain s" "\<forall>s \<in> set ((ss @ [x, take 2 a]) @ [drop 3 a]). plain s"
    using ss(2) x sp by auto
  show clean: "path_Clean (ns_file l x a) = ns_file l x a"
    unfolding p3 by (rule path_Clean_plain [OF _ ok(2)]) simp
  have "lo_path l \<noteq> []" "x \<noteq> []" "a \<noteq> []" using ss x sp by (auto simp: plain_def abs_path_join)
  then have "path_Join [lo_path l, x, a] = path_Clean (ns_file l x a)"
    by (simp add: path_Join_def ns_file_def ns_root_def)
  with clean show "path_Join [lo_path l, x, a] = ns_file l x a" by simp
  show "path_Dir (ns_file l x a) = ns_root l x @ CHR ''/'' # take 2 a"
    unfolding p3 using ok(1) sp(3) by (subst path_Dir_plain) (auto simp: plain_def ns_root_def ss(3))
  have "ns_root l x \<noteq> []" by (simp add: ns_root_def)
  then show a1: "above (ns_root l x @ CHR ''/'' # take 2 a) = above (ns_root l x) @ [ns_root l x]"
    using sp(2) by (intro above_snoc) (simp_all add: plain_def)
  have "ns_file l x a = (ns_root l x @ CHR ''/'' # take 2 a) @ CHR ''/'' # drop 3 a"
    unfolding ns_file_def by (subst (1) sp(1)) simp
  then show "above (ns_file l x a) = above (ns_root l x) @ [ns_root l x, ns_root l x @ CHR ''/'' # take 2 a]"
    using a1 above_snoc [of "ns_root l x @ CHR ''/'' # take 2 a" "drop 3 a"] sp(3) by (simp add: plain_def)
qed

lemma above_shorter: "q \<in> set (above p) \<Longrightarrow> length q < length p"
  by (auto simp: above_def)

text \<open>Paths of different kinds differ.\<close>

lemma ns_distinct:
  assumes "blob_address a" "blob_address b"
  shows "ns_file l x a \<notin> set (above (ns_root l x) @ [ns_root l x, ns_root l x @ CHR ''/'' # take 2 b])"
    and "ns_file l x a = ns_file l x b \<longleftrightarrow> a = b"
proof -
  have "a \<noteq> take 2 b" using blob_address_split(1) [OF assms(1)] blob_address_split(2) [OF assms(2)]
    by (metis in_set_conv_decomp plain_def)
  then show "ns_file l x a \<notin> set (above (ns_root l x) @ [ns_root l x, ns_root l x @ CHR ''/'' # take 2 b])"
    using above_shorter [of "ns_file l x a" "ns_root l x"] by (auto simp: ns_file_def)
qed (simp add: ns_file_def)

lemma ns_extract:
  assumes "store_ok l x" "blob_address a"
  shows "extractParamsFromObj l (blob_pointer (Some (DefaultNamespacePrefix @ x)) a) = Inr (ns_file l x a)"
proof -
  have "verifyRelPath l (ns_file l x a) = Inr ()"
    using ns_paths(2) [OF assms] by (simp add: verifyRelPath_def ns_file_def ns_root_def has_prefix_def)
  then show ?thesis
    using ns_paths(1) [OF assms] blob_address_split(4) [OF assms(2)]
    by (simp add: extractParamsFromObj_def blob_pointer_def string_value_def has_prefix_def Let_def)
qed

lemma ns_root_start:
  assumes "store_ok l x"
  obtains c r where "ns_root l x = CHR ''/'' # c # r" "c \<noteq> CHR ''/''"
proof -
  obtain s ss where "lo_path l = CHR ''/'' # s @ abs_path ss" "plain s"
    using assms by (auto simp: store_ok_def neq_Nil_conv)
  moreover from this obtain c r where "s = c # r" "c \<noteq> CHR ''/''" by (cases s) (auto simp: plain_def)
  ultimately show thesis using that by (simp add: ns_root_def)
qed

lemma aboveE: "q \<in> set (above p) \<Longrightarrow> \<exists>i. q = take i p \<and> 1 \<le> i \<and> p ! i = CHR ''/''"
  by (auto simp: above_def)

lemma is_file_iff: "is_file t q \<longleftrightarrow> q \<noteq> ''/'' \<and> q \<noteq> ''.'' \<and> (\<exists>b. map_of t q = Some (File b))"
  by (auto simp: is_file_def node_at_def split: option.splits fnode.splits)

lemma not_special:
  assumes "store_ok l x" "q \<in> set (above (ns_root l x)) \<or> q = ns_root l x @ r"
  shows "node_at q t = map_of t q"
proof -
  obtain c r' where r: "ns_root l x = CHR ''/'' # c # r'" "c \<noteq> CHR ''/''" by (rule ns_root_start [OF assms(1)])
  have "\<exists>q'. q = CHR ''/'' # c # q'" if up: "q \<in> set (above (ns_root l x))"
  proof -
    obtain i where i: "q = take i (CHR ''/'' # c # r')" "1 \<le> i" "(CHR ''/'' # c # r') ! i = CHR ''/''"
      using aboveE [OF up] unfolding r(1) by blast
    then have "i \<noteq> 1" using r(2) by auto
    with i(2) have "i = Suc (Suc (i - 2))" by simp
    then have "q = take (Suc (Suc (i - 2))) (CHR ''/'' # c # r')" using i(1) by simp
    then show ?thesis by (simp del: take_Suc_Cons add: take_Suc_Cons)
  qed
  then have "q \<noteq> ''/''" "q \<noteq> ''.''" using assms(2) r(1) by auto
  then show ?thesis by (simp add: node_at_def)
qed


text \<open>What the laws need of a state: what the files of blobs and the directories above them are.\<close>

lemma ns_good:
  assumes "store_ok l x" "dir_ok (ns_root l x) t" "blob_address a"
  shows "q \<in> set (above (ns_file l x a)) \<Longrightarrow> \<not> is_file t q \<and> node_at q t = map_of t q"
    and "map_of t (ns_file l x a) \<noteq> Some Directory" "node_at (ns_file l x a) t = map_of t (ns_file l x a)"
proof -
  note ns = not_special [OF assms(1)]
  show "node_at (ns_file l x a) t = map_of t (ns_file l x a)" by (rule ns [of _ "CHR ''/'' # a"]) (simp add: ns_file_def)
  moreover have "node_at (ns_file l x a) t \<noteq> Some Directory" using assms(2,3) by (simp add: dir_ok_def ns_file_def)
  ultimately show "map_of t (ns_file l x a) \<noteq> Some Directory" by simp
  assume "q \<in> set (above (ns_file l x a))"
  then consider "q \<in> set (above (ns_root l x))" | "q = ns_root l x @ []" | "q = ns_root l x @ CHR ''/'' # take 2 a"
    using ns_paths(5) [OF assms(1,3)] by auto
  then show "\<not> is_file t q \<and> node_at q t = map_of t q"
    using assms(2,3) by cases (auto simp: dir_ok_def intro!: ns)
qed

lemma local_Get_blob:
  assumes "store_ok l x" "dir_ok (ns_root l x) t" "blob_address a"
  shows "local_Get l (blob_pointer (Some (DefaultNamespacePrefix @ x)) a) n t =
    (case map_of t (ns_file l x a) of Some (File b) \<Rightarrow> Inr b | _ \<Rightarrow> Inl ErrDataNotFound)"
proof -
  note good = ns_good [OF assms]
  have "\<not> list_ex (is_file t) (above (ns_file l x a))" using good(1) by (auto simp: list_ex_iff)
  then show ?thesis
    using good(2,3) ns_extract [OF assms(1,3)] ns_paths(2) [OF assms(1,3)]
    by (auto simp: local_Get_def local_open_def os_Stat_def missing_def read_file_def read_node_def
        split: option.splits fnode.splits)
qed

lemma maybeMkdir_blob:
  assumes "store_ok l x" "dir_ok (ns_root l x) t" "blob_address a"
  obtains t' where "maybeMkdir l (ns_file l x a) t = (Inr (), AList.update (ns_file l x a) (File []) t')"
    and "\<And>q. map_of t' q = map_of t q \<or>
      map_of t q = None \<and> map_of t' q = Some Directory \<and> q \<in> set (above (ns_file l x a))"
proof -
  let ?p = "ns_file l x a" and ?d = "ns_root l x @ CHR ''/'' # take 2 a"
  note good = ns_good [OF assms] and paths = ns_paths [OF assms(1,3)]
  have no_file: "\<not> list_ex (is_file t) (above ?p)" using good(1) by (auto simp: list_ex_iff)
  have ok: "verifyRelPath l ?p = Inr ()"
    using paths(2) by (simp add: verifyRelPath_def ns_file_def ns_root_def has_prefix_def)
  have ds: "above ?d @ [?d] = above ?p" using paths(4,5) by simp
  have d_in: "?d \<in> set (above ?p)" using paths(5) by simp
  show thesis
  proof (cases "map_of t ?p = None \<and> map_of t ?d \<noteq> Some Directory")
    case False
    then have "os_Create ?p t = (Inr (), AList.update ?p (File []) t)"
      using good(1) [OF d_in] good(2,3) paths(3) by (auto simp: os_Create_def split: option.splits fnode.splits)
    then show thesis using ok by (intro that [of t]) (simp_all add: maybeMkdir_def)
  next
    case True
    let ?t = "fold (\<lambda>q t. if node_at q t = None then AList.update q Directory t else t) (above ?p) t"
    have "os_Create ?p t = (Inl ErrNotExist, t)"
      using True good(1) [OF d_in] good(3) no_file paths(3) by (simp add: os_Create_def missing_def)
    moreover have "os_MkdirAll ?d t = (Inr (), ?t)" using no_file ds by (simp add: os_MkdirAll_def)
    moreover have mk: "map_of ?t q = (if q \<in> set (above ?p) \<and> node_at q t = None then Some Directory else map_of t q)" for q
      by (rule map_of_mkdirs)
    have "os_Create ?p ?t = (Inr (), AList.update ?p (File []) ?t)"
    proof -
      have "?p \<notin> set (above ?p)" by (auto dest: above_shorter)
      then have "node_at ?p ?t = None" using mk [of ?p] True not_special [OF assms(1), of ?p "CHR ''/'' # a" ?t] by (simp add: ns_file_def)
      moreover have "node_at ?d t = None" using True good(1) [OF d_in]
        by (auto simp: is_file_def split: option.splits fnode.splits)
      then have "map_of ?t ?d = Some Directory" using mk [of ?d] d_in by simp
      then have "node_at ?d ?t = Some Directory" by (simp add: node_at_def)
      ultimately show ?thesis using paths(3) by (simp add: os_Create_def)
    qed
    ultimately have "maybeMkdir l ?p t = (Inr (), AList.update ?p (File []) ?t)"
      using ok paths(2,3) by (simp add: maybeMkdir_def)
    then show thesis
    proof (rule that)
      fix q
      show "map_of ?t q = map_of t q \<or> map_of t q = None \<and> map_of ?t q = Some Directory \<and> q \<in> set (above ?p)"
        using mk [of q] good(1) [of q] by auto
    qed
  qed
qed

lemma local_Put_blob:
  assumes "store_ok l x" "dir_ok (ns_root l x) t" "blob_address a"
  obtains t' where "local_Put l (blob_pointer (Some (DefaultNamespacePrefix @ x)) a) n b t = (Inr (), t')"
    and "map_of t' (ns_file l x a) = Some (File b)" "dir_ok (ns_root l x) t'"
    and "\<And>a'. blob_address a' \<Longrightarrow> a' \<noteq> a \<Longrightarrow> map_of t' (ns_file l x a') = map_of t (ns_file l x a')"
proof -
  let ?p = "ns_file l x a"
  note paths = ns_paths [OF assms(1,3)]
  obtain t1 where mk: "maybeMkdir l ?p t = (Inr (), AList.update ?p (File []) t1)"
    and t1: "\<And>q. map_of t1 q = map_of t q \<or> map_of t q = None \<and> map_of t1 q = Some Directory \<and> q \<in> set (above ?p)"
    by (rule maybeMkdir_blob [OF assms]) auto
  let ?t = "os_Write ?p b (AList.update ?p (File []) t1)"
  have t: "map_of ?t q = (if q = ?p then Some (File b) else map_of t1 q)" for q
    by (simp add: os_Write_def update_conv)
  have same: "map_of ?t (ns_file l x a') = map_of t (ns_file l x a')" if "blob_address a'" "a' \<noteq> a" for a'
    using t [of "ns_file l x a'"] t1 [of "ns_file l x a'"] ns_distinct [OF that(1) assms(3)] that(2) paths(5) by auto
  show thesis
  proof (rule that)
    show "local_Put l (blob_pointer (Some (DefaultNamespacePrefix @ x)) a) n b t = (Inr (), ?t)"
      using mk ns_extract [OF assms(1,3)] paths(2) by (simp add: local_Put_def put_reader_def Let_def)
    have stays: "\<not> is_file ?t q" if "\<not> is_file t q" "q \<noteq> ?p" for q
      using that t [of q] t1 [of q] by (auto simp: is_file_iff)
    have "\<not> is_file ?t q" if "q \<in> set (above (ns_root l x) @ [ns_root l x])" for q
      using that assms(2) ns_distinct(1) [OF assms(3) assms(3), of l x] by (intro stays) (auto simp: dir_ok_def)
    moreover have "\<not> is_file ?t (ns_root l x @ CHR ''/'' # take 2 a')" if "blob_address a'" for a'
      using that assms(2) ns_distinct(1) [OF assms(3) that, of l x] by (intro stays) (auto simp: dir_ok_def)
    moreover have "node_at (ns_root l x @ CHR ''/'' # a') ?t \<noteq> Some Directory" if "blob_address a'" for a'
    proof -
      have "map_of ?t (ns_file l x a') \<noteq> Some Directory"
        using t [of ?p] same [OF that] ns_good(2) [OF assms(1,2) that] by (cases "a' = a") auto
      then show ?thesis using not_special [OF assms(1), of "ns_file l x a'" "CHR ''/'' # a'" ?t] by (simp add: ns_file_def)
    qed
    ultimately show "dir_ok (ns_root l x) ?t" by (simp add: dir_ok_def)
  qed (use t same in auto)
qed

lemma local_block_store:
  assumes "store_ok l x"
  shows "block_store (local_adapter l) (Some (DefaultNamespacePrefix @ x)) (dir_ok (ns_root l x))"
proof (unfold_locales, unfold local_adapter_def adapter.simps, goal_cases)
  case (1 s a n b)
  show ?case by (rule local_Put_blob [OF assms 1, of n b]) auto
next
  case (2 s a n b r s' m)
  obtain t' where t: "local_Put l (blob_pointer (Some (DefaultNamespacePrefix @ x)) a) n b s = (Inr (), t')"
    "map_of t' (ns_file l x a) = Some (File b)" "dir_ok (ns_root l x) t'"
    by (rule local_Put_blob [OF assms 2(1,2), of n b])
  then have "s' = t'" using 2(3) by simp
  then show ?case using t(2) local_Get_blob [OF assms t(3) 2(2)] by simp
next
  case (3 s a a' n b r s' m)
  obtain t' where t: "local_Put l (blob_pointer (Some (DefaultNamespacePrefix @ x)) a) n b s = (Inr (), t')"
    "dir_ok (ns_root l x) t'" "map_of t' (ns_file l x a') = map_of s (ns_file l x a')"
    using 3(3,4) by (rule_tac local_Put_blob [OF assms 3(1,2), of n b]) auto
  then have "s' = t'" using 3(5) by simp
  then show ?case using t(3) local_Get_blob [OF assms t(2) 3(3)] local_Get_blob [OF assms 3(1,3)] by simp
next
  case (4 a m s b i j)
  then show ?case
    by (cases "local_open l (blob_pointer (Some (DefaultNamespacePrefix @ x)) a) s")
      (simp_all add: local_Get_def local_GetRange_def read_range_def)
qed


text \<open>
  C9: The store in a directory keeps what it is given: in a namespace one level below its own
  directory, with no file where a directory is needed and no directory where a blob belongs, every
  write of a list of contents with different checksums succeeds and makes a blob with the length of
  its content; afterwards every blob is read back whole, and every accepted range that is not empty
  gives exactly its bytes.
\<close>

theorem local_blobs_read_back:
  assumes "store_ok l x" "dir_ok (ns_root l x) t" "hex_coder encode" "digest16 E" "inj_on (env_md5 E) (set bs)"
    "\<forall>b \<in> set bs. int (length b) < 2 ^ 63"
  shows "\<exists>t'. write_blobs E encode (local_adapter l) (Some (DefaultNamespacePrefix @ x)) repo props bs t =
      (map (\<lambda>b. Inr (blob_of E props repo b)) bs, t') \<and>
    (\<forall>b \<in> set bs. bl_size (blob_of E props repo b) = int (length b) \<and>
      ReadBlob encode (local_adapter l) (Some (DefaultNamespacePrefix @ x)) (blob_of E props repo b) None t' = Inr b \<and>
      (\<forall>spec r. ParseRange spec (word_of_int (bl_size (blob_of E props repo b))) = Inr r \<longrightarrow>
        sint (StartOffset r) \<le> sint (EndOffset r) \<longrightarrow>
        ReadBlob encode (local_adapter l) (Some (DefaultNamespacePrefix @ x)) (blob_of E props repo b) (Some spec) t' =
          Inr (take (nat (sint (range_Size r))) (drop (nat (sint (StartOffset r))) b))))"
proof -
  note store = local_block_store [OF assms(1)]
  obtain t' where "write_blobs E encode (local_adapter l) (Some (DefaultNamespacePrefix @ x)) repo props bs t =
      (map (\<lambda>b. Inr (blob_of E props repo b)) bs, t')"
    "\<forall>b \<in> set bs. ReadBlob encode (local_adapter l) (Some (DefaultNamespacePrefix @ x)) (blob_of E props repo b) None t' = Inr b"
    using block_store.write_blobs_ok [OF store assms(3,4,2), of bs "{}" props repo] assms(5) by auto
  then show ?thesis
    using assms(6) block_store.ReadBlob_slice [OF store] by (intro exI [of _ t']) auto
qed

definition data_store :: local_store where
  "data_store = \<lparr>lo_path = ''/data'', lo_removeEmptyDir = True, lo_allowedExternalPrefixes = [], lo_importEnabled = False\<rparr>"

lemma data_store_ok: "store_ok data_store ''r''"
  by (auto simp: store_ok_def data_store_def plain_def abs_path_def intro!: exI [of _ "[''data'']"])

lemma dir_ok_empty: "store_ok l x \<Longrightarrow> dir_ok (ns_root l x) []"
  by (auto simp: dir_ok_def is_file_iff ns_root_def node_at_def elim: ns_root_start)

lemma local_blobs_read_back_witness:
  "\<exists>t' blobs. write_blobs pad_env hex_encode (local_adapter data_store) (Some ''local://r'') ''id'' DefaultLeafProperty
      [''hello'', ''world''] [] = (blobs, t') \<and> length blobs = 2 \<and>
    ReadBlob hex_encode (local_adapter data_store) (Some ''local://r'')
      (blob_of pad_env DefaultLeafProperty ''id'' ''hello'') (Some ''bytes=1-3'') t' = Inr ''ell''"
proof -
  have inj: "inj_on (env_md5 pad_env) (set [''hello'', ''world''])" by (simp add: pad_env_def eval_nat_numeral)
  have short: "\<forall>b \<in> set [''hello'', ''world'']. int (length b) < 2 ^ 63" by simp
  have rng: "ParseRange ''bytes=1-3'' (word_of_int (bl_size (blob_of pad_env DefaultLeafProperty ''id'' ''hello''))) =
      Inr \<lparr>StartOffset = 1, EndOffset = 3\<rparr>"
    by (simp add: ParseRange_def ParseInt64_def dec_value_def has_prefix_def trim_prefix_def)
  have ns: "DefaultNamespacePrefix @ ''r'' = ''local://r''" by (simp add: DefaultNamespacePrefix_def)
  from local_blobs_read_back [OF data_store_ok dir_ok_empty [OF data_store_ok] hex_coder_encode digest16_pad inj short,
      of "''id''" DefaultLeafProperty] rng
  show ?thesis unfolding ns by (auto simp: range_Size_def)
qed

subsection \<open>Sibling directories\<close>

text \<open>
  The check of a path compares texts and not directories: a namespace can name a directory beside
  the adapter's own whose name continues the adapter's, as the removal of such a namespace shows.
\<close>

lemma sibling_directory_reached:
  "extractParamsFromObj data_store
    \<lparr>StorageNamespace = ''local://../data2'', Identifier = ''x'', IdentifierType = IdentifierTypeRelative\<rparr> = Inr ''/data2/x''"
  "local_RemoveNameSpace data_store ''local://../data2'' [(''/data2'', Directory), (''/data2/x'', File ''y'')] = (Inr (), [])"
  by code_simp+

end
