(* ===== verification/Upload_Props.thy ===== *)
theory Upload_Props
  imports Handler_Props Session_Edits Reader_Safety Local_Store_Props
begin

section \<open>An object that was uploaded is downloaded\<close>

text \<open>
  An upload and a download go through most of the program: access control, the working copy, the
  tree, the object table and the block store. The lemmas follow the steps of a handler that come to
  an end; then the parts are put together.
\<close>

subsection \<open>Steps that come to an end\<close>

named_theorems done_iff "when a step of a handler delivers a value"

lemma then_do_done [done_iff]:
  "then_do m f s = Some (Some y, s') \<longleftrightarrow> (\<exists>x s1. m s = Some (Some x, s1) \<and> f x s1 = Some (Some y, s'))"
  by (auto simp: then_do_def split: option.splits prod.splits)

lemma case_prod_done [done_iff]:
  "(case p of (a, b) \<Rightarrow> f a b) s = Some (Some y, s') \<longleftrightarrow> (\<exists>a b. p = (a, b) \<and> f a b s = Some (Some y, s'))"
  by (cases p) simp

lemma steps_done [done_iff]:
  "give x s = Some (Some y, s') \<longleftrightarrow> y = x \<and> s' = s"
  "finish r s = Some (Some y, s') \<longleftrightarrow> False"
  "respond r s = Some (Some u, s') \<longleftrightarrow> s' = s\<lparr>sv_out := sv_out s @ [r]\<rparr>"
  "ask g s = Some (Some z, s') \<longleftrightarrow> z = g s \<and> s' = s"
  "set_blocks b s = Some (Some u, s') \<longleftrightarrow> s' = s\<lparr>sv_blocks := b\<rparr>"
  by (auto simp: give_def finish_def respond_def ask_def set_blocks_def)

lemma or_error_done [done_iff]: "or_error r s = Some (Some y, s') \<longleftrightarrow> r = Inr y \<and> s' = s"
  by (auto simp: or_error_def done_iff split: sum.splits)

lemma get_db_done [done_iff]: "get_db g s = Some (Some y, s') \<longleftrightarrow> g (ad_db (sv_data s)) = Inr y \<and> s' = s"
  by (auto simp: get_db_def ask_db_def done_iff)

lemma on_db_done [done_iff]:
  "on_db g s = Some (Some y, s') \<longleftrightarrow>
    (\<exists>d. g (ad_db (sv_data s)) = (Inr y, d) \<and> s' = s\<lparr>sv_data := (sv_data s)\<lparr>ad_db := d\<rparr>\<rparr>)"
  by (auto simp: on_db_def ask_db_def set_db_def done_iff)

lemma check_response_done [done_iff]:
  "check_response r s = Some (Some x, s') \<longleftrightarrow>
    s' = s \<and> (\<exists>resp. r = Inr resp \<and> ap_Error resp = None \<and> ap_Allowed resp)"
  by (cases r) (auto simp: check_response_def done_iff)

lemma authorizeMember_done [done_iff]:
  "authorizeMember C rid perms s = Some (Some x, s') \<longleftrightarrow>
    (\<exists>u resp c. ca_operator C = Some u \<and> ap_Error resp = None \<and> ap_Allowed resp \<and> s' = s\<lparr>sv_viewer := c\<rparr> \<and>
       AuthorizeMember (ca_us C) rid (us_id u) perms (sv_data s) (sv_viewer s) = (Inr resp, c))"
  by (cases "ca_operator C") (auto simp: authorizeMember_def GetOperator_def set_viewer_def done_iff)

lemma then_do_step: "m s = Some (Some x, s1) \<Longrightarrow> then_do m f s = f x s1"
  by (simp add: then_do_def)

text \<open>Who was allowed is allowed again, whatever happened to working copies and trees.\<close>

lemma AuthorizeMember_again:
  assumes "AuthorizeMember us rid u perms d c = (Inr resp, c')"
    and "db_repos (ad_db d') = db_repos (ad_db d)" "ad_policies d' = ad_policies d" "ad_groups d' = ad_groups d"
      "ad_members d' = ad_members d"
  shows "AuthorizeMember us rid u perms d' c' = (Inr resp, c')"
proof -
  have same: "RepositoryRepo_Get q (ad_db d') = RepositoryRepo_Get q (ad_db d)" "getMemberPolicy u rid d' = getMemberPolicy u rid d"
    "getViewerPolicy d' x = getViewerPolicy d x" for q x
    using assms(2-5) by (simp_all add: RepositoryRepo_Get_def getMemberPolicy_def MemberRepo_GetMember_def GroupRepo_Get_def
        PolicyRepo_List_def getViewerPolicy_def cong: sum.case_cong)
  have again: "getViewerPolicy d c = (Inr ps, c'') \<Longrightarrow> getViewerPolicy d c'' = (Inr ps, c'')" for ps c''
    by (auto simp: getViewerPolicy_def Let_def split: if_splits sum.splits)
  show ?thesis
    using assms(1) unfolding AuthorizeMember_def same
    by (auto split: sum.splits if_splits prod.splits dest!: again)
qed

subsection \<open>The tree\<close>

text \<open>A blob that is found is a row of the table.\<close>

lemma FindBlob_row:
  assumes "root_rep E repo (ws_objs w) (ws_root w) t" "FindBlob repo p w = Inr (b, nm)"
  shows "\<exists>r \<in> set (ws_objs w). ft_repo r = repo \<and> b = FileTree_Blob r"
proof -
  note find = findNodeByPath_dt [OF assms(1), of p]
  obtain xs where r: "dt_find (path_segs p) t = Inr (xs, [])"
    using assms(2) find by (auto simp: FindBlob_def split: sum.splits prod.splits if_splits)
  have xs: "xs \<noteq> []" using dt_remove_find(3) [of "path_segs p" t xs] r path_segs_ok(2) [of p] by auto
  obtain n y where last: "last xs = (n, y)" by (cases "last xs")
  have st: "stored E repo (ws_objs w) y"
    using dt_find_stored [OF r] root_rep_kids_stored [OF assms(1)] last last_in_set [OF xs] by force
  have node: "ft_type (fo_node (obj E repo (ws_objs w) (n, y))) = BlobObject" "b = FileTree_Blob (fo_node (obj E repo (ws_objs w) (n, y)))"
    using assms(2) find r xs last by (auto simp: FindBlob_def Let_def last_map split: if_splits)
  then have "\<not> is_ddir y" using obj_dir [of E repo "ws_objs w" _ n] st by (cases y) auto
  then obtain h where y: "y = DFile h" by (cases y) auto
  with st obtain f where f: "lookup_tree (h, repo) (ws_objs w) = Some f" by (auto split: option.splits)
  then have "f \<in> set (ws_objs w)" by (auto simp: lookup_tree_def find_Some_iff)
  moreover have "b = FileTree_Blob f" using node(2) y f by (simp add: obj_def)
  ultimately show ?thesis using lookup_tree_key [OF f] by blast
qed

lemma found_after:
  assumes "root_rep E repo (ws_objs w) (ws_root w) t" "digest_nonempty E" "file_map t (path_segs p) = Some h"
  shows "\<exists>w' b nm. open_tree repo (vt_Hash (ws_root w)) (ws_objs w) = Inr w' \<and> FindBlob repo p w' = Inr (b, nm) \<and>
    (\<exists>r \<in> set (ws_objs w). ft_repo r = repo \<and> ft_hash r = h \<and> b = FileTree_Blob r)"
proof -
  obtain w' where w': "open_tree repo (vt_Hash (ws_root w)) (ws_objs w) = Inr w'" "ws_objs w' = ws_objs w"
    "root_rep E repo (ws_objs w') (ws_root w') t"
    using open_tree_at [OF root_rep_tree_at [OF assms(1,2)]] by auto
  obtain b nm where b: "FindBlob repo p w' = Inr (b, nm)" "bl_hash b = h"
    using FindBlob_files [OF w'(3), of p h] assms(3) by blast
  from FindBlob_row [OF w'(3) b(1)] b w' show ?thesis by (auto simp: FileTree_Blob_def)
qed

text \<open>What an upload does to the database, and that its object is found afterwards.\<close>

definition same_copy :: "wip \<Rightarrow> wip \<Rightarrow> bool" where
  "same_copy x y \<longleftrightarrow> wp_creator y = wp_creator x \<and> wp_repo y = wp_repo x \<and> wp_ref y = wp_ref x"

lemma upload_change_found:
  assumes run: "upload_change C repo (Some wip) p blob rep wt d = (Inr (), d')"
    and tree: "tree_at (ca_env C) (rp_id repo) (db_trees d) (wp_tree wip) t"
      "open_tree (rp_id repo) (wp_tree wip) (db_trees d) = Inr wt"
    and dg: "digest_nonempty (ca_env C)" and b: "bl_repo blob = rp_id repo" "bl_type blob = BlobObject"
    and cf: "\<And>t'. dt_add (path_segs p) (bl_hash blob) t = Inr t' \<or> dt_replace (path_segs p) (bl_hash blob) t = Inr t' \<Longrightarrow>
      collision_free (ca_env C) (rp_id repo) (db_trees d) (subtrees t')"
  shows "\<exists>f wt' b nm. d' = d\<lparr>db_trees := db_trees d', db_wips := map (\<lambda>x. if wp_id x = wp_id wip then f x else x) (db_wips d)\<rparr> \<and>
    (\<forall>x. same_copy x (f x)) \<and> open_tree (rp_id repo) (wp_tree (f wip)) (db_trees d') = Inr wt' \<and>
    FindBlob (rp_id repo) p wt' = Inr (b, nm) \<and>
    (bl_check_sum b = bl_check_sum blob \<or>
     (\<exists>r \<in> set (db_trees d'). ft_repo r = rp_id repo \<and> ft_hash r = bl_hash blob \<and> b = FileTree_Blob r))"
proof -
  let ?E = "ca_env C" and ?rid = "rp_id repo" and ?segs = "path_segs p" and ?h = "bl_hash blob"
  have wt: "ws_objs wt = db_trees d" "root_rep ?E ?rid (ws_objs wt) (ws_root wt) t"
    using open_tree_at [OF tree(1)] tree(2) by auto
  have t: "dt_ok t" "is_ddir t" using wt(2) by (simp_all add: root_rep_def)
  have saved: ?thesis
    if "root_rep ?E ?rid (ws_objs w) (ws_root w) t'" "file_map t' ?segs = Some ?h"
      "d' = WipRepo_UpdateByID ((NewUpdateWipParams ?E (wp_id wip))\<lparr>uw_tree := Some (vt_Hash (ws_root w))\<rparr>)
        (d\<lparr>db_trees := ws_objs w\<rparr>)" for w t'
  proof -
    let ?f = "wip_set ((NewUpdateWipParams ?E (wp_id wip))\<lparr>uw_tree := Some (vt_Hash (ws_root w))\<rparr>)"
    have d': "d' = d\<lparr>db_trees := ws_objs w, db_wips := map (\<lambda>x. if wp_id x = wp_id wip then ?f x else x) (db_wips d)\<rparr>"
      using that(3) by (simp add: WipRepo_UpdateByID_def tbl_update_def NewUpdateWipParams_def)
    have "\<forall>x. same_copy x (?f x)" "wp_tree (?f wip) = vt_Hash (ws_root w)"
      by (auto simp: same_copy_def wip_set_def set_opt_def NewUpdateWipParams_def split: option.splits)
    with d' found_after [OF that(1) dg that(2)] show ?thesis
      by (intro exI [of _ ?f]) auto
  qed
  show ?thesis
  proof (cases "FindBlob ?rid p wt")
    case (Inl e)
    then obtain w where add: "AddLeaf ?E ?rid p blob wt = (Inr (), w)"
      and d': "d' = WipRepo_UpdateByID ((NewUpdateWipParams ?E (wp_id wip))\<lparr>uw_tree := Some (vt_Hash (ws_root w))\<rparr>)
        (d\<lparr>db_trees := ws_objs w\<rparr>)"
      using run by (auto simp: upload_change_def Let_def split: if_splits prod.splits sum.splits)
    obtain t' where t': "dt_add ?segs ?h t = Inr t'"
      using AddLeaf_fails [OF wt(2) _ b(1), of p] add by (cases "dt_add ?segs ?h t") auto
    have "root_rep ?E ?rid (ws_objs w) (ws_root w) t'"
      using AddLeaf_refines [OF wt(2) dg b t'] cf t' add wt(1) by auto
    moreover have "file_map t' ?segs = Some ?h"
      using file_map_add [OF t t' path_segs_ok(1)] by simp
    ultimately show ?thesis using d' by (rule saved)
  next
    case (Inr r)
    obtain old nm where r: "r = (old, nm)" by (cases r)
    show ?thesis
    proof (cases "bl_check_sum old = bl_check_sum blob")
      case True
      then have "d' = d" using run Inr r by (simp add: upload_change_def Let_def)
      with True Inr r tree(2) show ?thesis
        by (intro exI [of _ "\<lambda>x. x"] exI [of _ wt] exI [of _ old] exI [of _ nm]) (simp add: same_copy_def map_idI)
    next
      case False
      then obtain w where add: "ReplaceLeaf ?E ?rid p blob wt = (Inr (), w)"
        and d': "d' = WipRepo_UpdateByID ((NewUpdateWipParams ?E (wp_id wip))\<lparr>uw_tree := Some (vt_Hash (ws_root w))\<rparr>)
          (d\<lparr>db_trees := ws_objs w\<rparr>)"
        using run Inr r by (auto simp: upload_change_def Let_def split: if_splits prod.splits sum.splits)
      obtain t' where t': "dt_replace ?segs ?h t = Inr t'"
        using ReplaceLeaf_fails [OF wt(2), of p blob] add by (cases "dt_replace ?segs ?h t") auto
      have "root_rep ?E ?rid (ws_objs w) (ws_root w) t'"
        using ReplaceLeaf_refines [OF wt(2) dg b t'] cf t' add wt(1) by auto
      moreover have "file_map t' ?segs = Some ?h"
        using file_map_replace [OF t path_segs_ok(2) t'] by simp
      ultimately show ?thesis using d' by (rule saved)
    qed
  qed
qed


subsection \<open>From the upload to the download\<close>

lemma WipRepo_Get_after:
  assumes "WipRepo_Get q d = Inr x" "gw_id q = uuid_Nil" "\<forall>y. same_copy y (f y)"
  shows "WipRepo_Get q (d\<lparr>db_trees := ts, db_wips := map (\<lambda>y. if wp_id y = wp_id x then f y else y) (db_wips d)\<rparr>) = Inr (f x)"
proof -
  let ?P = "holds (where_id (gw_id q) wp_id @ where_id (gw_creator q) wp_creator @
    where_id (gw_repo q) wp_repo @ where_id (gw_ref q) wp_ref)" and ?g = "\<lambda>y. if wp_id y = wp_id x then f y else y"
  have "?P (?g y) = ?P y" for y
    using assms(2,3) by (auto simp: holds_def where_id_def same_copy_def)
  then have "find ?P (map ?g t) = map_option ?g (find ?P t)" for t by (induction t) auto
  then show ?thesis
    using assms(1) by (auto simp: WipRepo_Get_def q_select_one_def tbl_get_Inr_iff)
qed

text \<open>The operator, the repository and the working copy that a request on a working copy finds.\<close>

definition working_copy :: "'s call \<Rightarrow> db \<Rightarrow> string \<Rightarrow> string \<Rightarrow> string \<Rightarrow> repository \<Rightarrow> wip \<Rightarrow> bool" where
  "working_copy C d ow rn ref repo x \<longleftrightarrow>
     (\<exists>u owner b. ca_operator C = Some u \<and> UserRepo_Get (NewGetUserParams\<lparr>gu_name := Some ow\<rparr>) d = Inr owner \<and>
        RepositoryRepo_Get (NewGetRepoParams\<lparr>gr_name := Some rn, gr_owner := us_id owner\<rparr>) d = Inr repo \<and>
        BranchRepo_Get (NewGetBranchParams\<lparr>gb_repo := rp_id repo, gb_name := Some ref\<rparr>) d = Inr b \<and>
        WipRepo_Get (NewGetWipParams\<lparr>gw_creator := us_id u, gw_repo := rp_id repo, gw_ref := br_id b\<rparr>) d = Inr x)"

lemma working_copy_after:
  assumes "working_copy C d ow rn ref repo x" "\<forall>y. same_copy y (f y)"
    "d' = d\<lparr>db_trees := ts, db_wips := map (\<lambda>y. if wp_id y = wp_id x then f y else y) (db_wips d)\<rparr>"
  shows "working_copy C d' ow rn ref repo (f x)"
  using assms(1) unfolding working_copy_def
proof (elim exE conjE, intro exI conjI)
  fix u owner b
  assume "WipRepo_Get (NewGetWipParams\<lparr>gw_creator := us_id u, gw_repo := rp_id repo, gw_ref := br_id b\<rparr>) d = Inr x"
  then show "WipRepo_Get (NewGetWipParams\<lparr>gw_creator := us_id u, gw_repo := rp_id repo, gw_ref := br_id b\<rparr>) d' = Inr (f x)"
    using WipRepo_Get_after [OF _ _ assms(2)] assms(3) by (simp add: NewGetWipParams_def)
qed (use assms(3) in \<open>simp_all add: UserRepo_Get_def RepositoryRepo_Get_def BranchRepo_Get_def\<close>)

text \<open>Both handlers check out the working copy and open its tree.\<close>

lemma check_out_copy:
  assumes "working_copy C d ow rn ref repo x" "ca_operator C = Some u"
  shows "\<exists>w. CheckOut (ca_decode C) InWip ref d (NewWorkRepositoryFromAdapter u repo) = (Inr (), w) \<and> CurWip w = Some x \<and>
    rootTree w d = (open_tree (rp_id repo) (wp_tree x) (db_trees d), w)"
  using assms by (auto simp: working_copy_def CheckOut_def get_branch_def NewWorkRepositoryFromAdapter_def repo_id_def
      setCurState_def CurWip_def rootTree_def head_hash_def)

lemma upload_run:
  assumes "UploadObject C ow rn r ref p rep s = Some (Some (), s')" "upload_reader r = Inr (ct, body)"
    "working_copy C (ad_db (sv_data s)) ow rn ref repo x" "repo_adapter C repo = Inr A"
  shows "\<exists>u resp c wt blob b d. ca_operator C = Some u \<and> ap_Error resp = None \<and> ap_Allowed resp \<and>
    (\<forall>owner. UserRepo_Get (NewGetUserParams\<lparr>gu_name := Some ow\<rparr>) (ad_db (sv_data s)) = Inr owner \<longrightarrow>
      AuthorizeMember (ca_us C) (rp_id repo) (us_id u) (repo_perm C owner repo ''repo:ReadObject'') (sv_data s) (sv_viewer s) =
        (Inr resp, c)) \<and>
    open_tree (rp_id repo) (wp_tree x) (db_trees (ad_db (sv_data s))) = Inr wt \<and>
    WriteBlob (ca_env C) (ca_encode C) A (rp_namespace repo) (rp_id repo) body (ul_ContentLength r) DefaultLeafProperty
      (sv_blocks s) = (Inr blob, b) \<and>
    upload_change C repo (Some x) (CleanPath p) blob (bool_value rep) wt (ad_db (sv_data s)) = (Inr (), d) \<and>
    s' = s\<lparr>sv_viewer := c, sv_blocks := b, sv_data := (sv_data s)\<lparr>ad_db := d\<rparr>, sv_out := sv_out s'\<rparr>"
proof -
  obtain u where u: "ca_operator C = Some u" using assms(3) by (auto simp: working_copy_def)
  obtain w where w: "CheckOut (ca_decode C) InWip ref (ad_db (sv_data s)) (NewWorkRepositoryFromAdapter u repo) = (Inr (), w)"
    "CurWip w = Some x" "rootTree w (ad_db (sv_data s)) = (open_tree (rp_id repo) (wp_tree x) (db_trees (ad_db (sv_data s))), w)"
    using check_out_copy [OF assms(3) u] by blast
  show ?thesis
    using assms u w
    by (auto simp: UploadObject_def get_owner_def get_repository_def operator_of_def GetOperator_def work_repo_of_def
        NewWorkRepositoryFromConfig_def check_out_def root_tree_def working_copy_def done_iff Let_def
        split: option.splits sum.splits)
qed


lemma download_run:
  assumes "working_copy C (ad_db (sv_data s)) ow rn ref repo x" "repo_adapter C repo = Inr A"
    "ca_operator C = Some u" "ap_Error resp = None" "ap_Allowed resp"
    "\<forall>owner. UserRepo_Get (NewGetUserParams\<lparr>gu_name := Some ow\<rparr>) (ad_db (sv_data s)) = Inr owner \<longrightarrow>
      AuthorizeMember (ca_us C) (rp_id repo) (us_id u) (repo_perm C owner repo ''repo:ReadObject'') (sv_data s) (sv_viewer s) =
        (Inr resp, sv_viewer s)"
    "open_tree (rp_id repo) (wp_tree x) (db_trees (ad_db (sv_data s))) = Inr wt"
    "FindBlob (rp_id repo) (CleanPath p) wt = Inr (b, nm)"
    "ReadBlob (ca_encode C) A (rp_namespace repo) b None (sv_blocks s) = Inr body"
  shows "\<exists>hs. GetObject C ow rn InWip ref p None s =
    Some (Some (), s\<lparr>sv_out := sv_out s @ [(200, Content hs body)]\<rparr>)"
proof -
  obtain w where w: "CheckOut (ca_decode C) InWip ref (ad_db (sv_data s)) (NewWorkRepositoryFromAdapter u repo) = (Inr (), w)"
    "rootTree w (ad_db (sv_data s)) = (open_tree (rp_id repo) (wp_tree x) (db_trees (ad_db (sv_data s))), w)"
    using check_out_copy [OF assms(1,3)] by blast
  obtain owner where owner: "UserRepo_Get (NewGetUserParams\<lparr>gu_name := Some ow\<rparr>) (ad_db (sv_data s)) = Inr owner"
    "RepositoryRepo_Get (NewGetRepoParams\<lparr>gr_name := Some rn, gr_owner := us_id owner\<rparr>) (ad_db (sv_data s)) = Inr repo"
    using assms(1) by (auto simp: working_copy_def)
  have steps: "operator_of C s = Some (Some u, s)" "get_owner ow s = Some (Some owner, s)"
    "get_repository rn owner s = Some (Some repo, s)"
    "authorizeMember C (rp_id repo) (repo_perm C owner repo ''repo:ReadObject'') s = Some (Some (), s)"
    "work_repo_of C u repo s = Some (Some (NewWorkRepositoryFromAdapter u repo, A), s)"
    "check_out C InWip ref (NewWorkRepositoryFromAdapter u repo) s = Some (Some w, s)"
    "root_tree w s = Some (Some (wt, w), s)"
    using assms owner w
    by (auto simp: operator_of_def GetOperator_def get_owner_def get_repository_def work_repo_of_def
        NewWorkRepositoryFromConfig_def check_out_def root_tree_def done_iff)
  have "find_object C ow rn InWip ref p s = Some (Some (repo, A, b, nm), s)"
    unfolding find_object_def by (simp add: steps then_do_step assms(8) give_def)
  then have "GetObject C ow rn InWip ref p None s = Some (Some (), s\<lparr>sv_out := sv_out s @ [(200, Content
      ((''Content-Length'', FormatInt (bl_size b)) # object_headers C b nm @
        [(''X-Content-Type-Options'', ''nosniff''), (''X-Frame-Options'', ''SAMEORIGIN''),
         (''Content-Security-Policy'', ''default-src '' @ [CHR 0x27] @ ''none'' @ [CHR 0x27]),
         (''Content-Disposition'', ''attachment; filename='' @ [CHR 0x22] @ nm @ [CHR 0x22])]) body)]\<rparr>)"
    using assms(9) by (simp add: GetObject_def ask_def or_error_def give_def then_do_def respond_def)
  then show ?thesis by blast
qed

context block_store
begin

lemma WriteBlob_reads:
  assumes "hex_coder encode" "digest16 E" "good s" "WriteBlob E encode A ns repo body n props s = (Inr blob, s')"
  shows "blob = blob_of E props repo body"
    and "bl_check_sum b = bl_check_sum blob \<Longrightarrow> ReadBlob encode A ns b None s' = Inr body"
proof -
  obtain s1 where s1: "WriteBlob E encode A ns repo body n props s = (Inr (blob_of E props repo body), s1)"
    "\<And>b. bl_check_sum b = env_md5 E body \<Longrightarrow> ReadBlob encode A ns b None s1 = Inr body"
    using WriteBlob_ok [OF assms(1-3)] unfolding blob_of_def by metis
  then show blob: "blob = blob_of E props repo body" using assms(4) by simp
  show "bl_check_sum b = bl_check_sum blob \<Longrightarrow> ReadBlob encode A ns b None s' = Inr body"
    using s1 assms(4) by (simp add: blob)
qed

lemma upload_then_download:
  assumes up: "UploadObject C ow rn r ref p rep s = Some (Some (), s')" "upload_reader r = Inr (ct, body)"
    and copy: "working_copy C (ad_db (sv_data s)) ow rn ref repo x" "repo_adapter C repo = Inr A" "rp_namespace repo = ns"
      "tree_at (ca_env C) (rp_id repo) (db_trees (ad_db (sv_data s))) (wp_tree x) t"
    and laws: "hex_coder (ca_encode C)" "digest16 (ca_env C)" "good (sv_blocks s)" "digest_nonempty (ca_env C)"
    and blob: "blob = blob_of (ca_env C) DefaultLeafProperty (rp_id repo) body"
    and cf: "\<And>t'. dt_add (path_segs (CleanPath p)) (bl_hash blob) t = Inr t' \<or>
        dt_replace (path_segs (CleanPath p)) (bl_hash blob) t = Inr t' \<Longrightarrow>
      collision_free (ca_env C) (rp_id repo) (db_trees (ad_db (sv_data s))) (subtrees t')"
      "\<forall>f \<in> set (db_trees (ad_db (sv_data s'))). ft_repo f = rp_id repo \<and> ft_hash f = bl_hash blob \<longrightarrow>
        ft_check_sum f = bl_check_sum blob"
  shows "\<exists>hs. GetObject C ow rn InWip ref p None s' = Some (Some (), s'\<lparr>sv_out := sv_out s' @ [(200, Content hs body)]\<rparr>)"
proof -
  let ?d = "ad_db (sv_data s)"
  from upload_run [OF up copy(1,2)] obtain u resp c wt blob' b d where u: "ca_operator C = Some u"
    and resp: "ap_Error resp = None" "ap_Allowed resp"
      "\<forall>owner. UserRepo_Get (NewGetUserParams\<lparr>gu_name := Some ow\<rparr>) ?d = Inr owner \<longrightarrow>
        AuthorizeMember (ca_us C) (rp_id repo) (us_id u) (repo_perm C owner repo ''repo:ReadObject'') (sv_data s) (sv_viewer s) =
          (Inr resp, c)"
    and wt: "open_tree (rp_id repo) (wp_tree x) (db_trees ?d) = Inr wt"
    and wr: "WriteBlob (ca_env C) (ca_encode C) A ns (rp_id repo) body (ul_ContentLength r) DefaultLeafProperty (sv_blocks s) =
      (Inr blob', b)"
    and ch: "upload_change C repo (Some x) (CleanPath p) blob' (bool_value rep) wt ?d = (Inr (), d)"
    and s': "s' = s\<lparr>sv_viewer := c, sv_blocks := b, sv_data := (sv_data s)\<lparr>ad_db := d\<rparr>, sv_out := sv_out s'\<rparr>"
    unfolding copy(3) by blast
  note reads = WriteBlob_reads [OF laws(1-3) wr]
  have blob': "blob' = blob" using reads(1) blob by simp
  have "bl_repo blob = rp_id repo" "bl_type blob = BlobObject"
    by (simp_all add: blob blob_of_def NewBlob_def)
  from upload_change_found [OF ch [unfolded blob'] copy(4) wt laws(4) this] cf(1)
  obtain f wt' b' nm where d: "d = ?d\<lparr>db_trees := db_trees d, db_wips := map (\<lambda>y. if wp_id y = wp_id x then f y else y) (db_wips ?d)\<rparr>"
    and f: "\<forall>y. same_copy y (f y)" and wt': "open_tree (rp_id repo) (wp_tree (f x)) (db_trees d) = Inr wt'"
    and b': "FindBlob (rp_id repo) (CleanPath p) wt' = Inr (b', nm)"
      "bl_check_sum b' = bl_check_sum blob \<or>
        (\<exists>g \<in> set (db_trees d). ft_repo g = rp_id repo \<and> ft_hash g = bl_hash blob \<and> b' = FileTree_Blob g)"
    by blast
  have "db_trees d = db_trees (ad_db (sv_data s'))" by (subst s') simp
  with b'(2) cf(2) have "bl_check_sum b' = bl_check_sum blob" by (auto simp: FileTree_Blob_def)
  then have read': "ReadBlob (ca_encode C) A ns b' None (sv_blocks s') = Inr body"
    using reads(2) blob' by (subst s') simp
  have same: "db_users d = db_users ?d" "db_repos d = db_repos ?d" by (subst d; simp)+
  have "\<forall>owner. UserRepo_Get (NewGetUserParams\<lparr>gu_name := Some ow\<rparr>) (ad_db (sv_data s')) = Inr owner \<longrightarrow>
      AuthorizeMember (ca_us C) (rp_id repo) (us_id u) (repo_perm C owner repo ''repo:ReadObject'') (sv_data s') (sv_viewer s') =
        (Inr resp, sv_viewer s')"
    using resp(3) same by (subst (1 2 3 4) s') (auto simp: UserRepo_Get_def intro!: AuthorizeMember_again)
  moreover have "working_copy C (ad_db (sv_data s')) ow rn ref repo (f x)"
    using working_copy_after [OF copy(1) f d] by (subst s') simp
  moreover have "open_tree (rp_id repo) (wp_tree (f x)) (db_trees (ad_db (sv_data s'))) = Inr wt'"
    using wt' by (subst s') simp
  ultimately show ?thesis
    using download_run [OF _ copy(2) u resp(1,2) _ _ b'(1) read' [folded copy(3)]] by blast
qed

end


text \<open>
  C4: An upload is the inverse of a download. When \<open>UploadObject\<close> comes to an end, the same user
  who then asks for the object at that path of the working copy gets status 200 and exactly the
  bytes that were uploaded, from any block store that keeps the promise. The working copy denotes a
  tree, checksums have sixteen bytes, and different contents of this repository do not share a hash.
\<close>

theorem uploaded_object_downloads:
  assumes "UploadObject C ow rn r ref p rep s = Some (Some (), s')" "upload_reader r = Inr (ct, body)"
    "working_copy C (ad_db (sv_data s)) ow rn ref repo x"
    "tree_at (ca_env C) (rp_id repo) (db_trees (ad_db (sv_data s))) (wp_tree x) t"
    and "repo_adapter C repo = Inr A" "block_store A (rp_namespace repo) good" "good (sv_blocks s)"
    and "hex_coder (ca_encode C)" "digest16 (ca_env C)"
    and "blob = blob_of (ca_env C) DefaultLeafProperty (rp_id repo) body"
    and "\<And>t'. dt_add (path_segs (CleanPath p)) (bl_hash blob) t = Inr t' \<or>
        dt_replace (path_segs (CleanPath p)) (bl_hash blob) t = Inr t' \<Longrightarrow>
      collision_free (ca_env C) (rp_id repo) (db_trees (ad_db (sv_data s))) (subtrees t')"
    and "\<forall>f \<in> set (db_trees (ad_db (sv_data s'))). ft_repo f = rp_id repo \<and> ft_hash f = bl_hash blob \<longrightarrow>
      ft_check_sum f = bl_check_sum blob"
  shows "\<exists>hs. GetObject C ow rn InWip ref p None s' = Some (Some (), s'\<lparr>sv_out := sv_out s' @ [(200, Content hs body)]\<rparr>)"
proof -
  have "digest_nonempty (ca_env C)" using assms(9) by (metis digest16_def digest_nonempty_def list.size(3) zero_neq_numeral)
  from block_store.upload_then_download [OF assms(6,1,2,3,5) refl assms(4,8,9,7) this assms(10-12)]
  show ?thesis .
qed

subsection \<open>A concrete upload\<close>

text \<open>The text of a mode, computed with numbers that are not unary.\<close>

fun oct_text :: "int \<Rightarrow> string" where
  "oct_text n = (if n < 8 then [oct_digit (nat n)] else oct_text (n div 8) @ [oct_digit (nat (n mod 8))])"

declare oct_text.simps [simp del]

lemma oct_text_digits: "oct_text (int n) = oct_digits n"
proof (induction n rule: oct_digits.induct)
  case (1 n)
  have "int n div 8 = int (n div 8)" "nat (int n mod 8) = n mod 8" by (simp_all add: zdiv_int nat_mod_distrib)
  with 1 show ?case
    unfolding oct_text.simps [of "int n"] oct_digits.simps [of n] by (simp del: of_nat_div)
qed

lemma mode_String_code [code]: "mode_String m = pad_zeros 7 (oct_text (uint m))"
proof -
  have "uint m = int (unat m)" by simp
  then show ?thesis by (simp only: mode_String_def oct_text_digits)
qed

definition upload_repo :: repository where
  "upload_repo = repository_sample\<lparr>rp_namespace := Some ''local://r''\<rparr>"

definition upload_branch :: branch where
  "upload_branch =
     \<lparr>br_id = replicate 16 (CHR 0x05), br_repo = rp_id upload_repo, br_commit = [], br_name = ''main'',
      br_description = None, br_creator = us_id user_sample, br_created = 0, br_updated = 0\<rparr>"

definition upload_wip :: wip where
  "upload_wip =
     \<lparr>wp_id = replicate 16 (CHR 0x06), wp_tree = [], wp_base = [], wp_repo = rp_id upload_repo,
      wp_ref = br_id upload_branch, wp_state = Init, wp_creator = us_id user_sample, wp_created = 0, wp_updated = 0\<rparr>"

definition upload_server :: "fs server" where
  "upload_server =
     \<lparr>sv_data = \<lparr>ad_db = \<lparr>db_users = [user_sample], db_repos = [upload_repo], db_branches = [upload_branch],
          db_wips = [upload_wip], db_tags = [], db_mrs = [], db_commits = [], db_trees = [], db_uuids = (\<lambda>_. []),
          db_issued = 0\<rparr>,
        ad_policies = [], ad_groups = [], ad_user_groups = [], ad_members = []\<rparr>,
      sv_viewer = [], sv_aksks = [], sv_blocks = [], sv_out = []\<rparr>"

definition upload_call :: "fs call" where
  "upload_call =
     \<lparr>ca_env = pad_env, ca_us = (\<lambda>u. u), ca_encode = hex_encode, ca_decode = (\<lambda>_. Inl ErrNotFound), ca_ctx = (\<lambda>_. False),
      ca_glob = (\<lambda>_. Inr (\<lambda>_. True)), ca_timestamp = (\<lambda>_. []), ca_mime = (\<lambda>_. []), ca_operator = Some user_sample,
      ca_uuid = replicate 16 (CHR 0x02), ca_aksk = (''ak'', ''sk''), ca_hash_password = (\<lambda>p. Inr (''hash-'' @ p)),
      ca_public = (''local'', Inr (local_adapter data_store)), ca_custom = (\<lambda>_. Inl ErrNotFound)\<rparr>"

definition upload_sample :: upload where
  "upload_sample =
     \<lparr>ul_ContentType = [], ul_media = Inr ([], None), ul_body = ''hello'', ul_parts = [], ul_ContentLength = 5\<rparr>"

definition upload_blob :: blob where
  "upload_blob = blob_of pad_env DefaultLeafProperty (rp_id upload_repo) ''hello''"

lemma upload_sample_runs:
  "case UploadObject upload_call ''alice'' ''data'' upload_sample ''main'' ''d/a.txt'' None upload_server of
     Some (Some _, s') \<Rightarrow> list_all (\<lambda>f. ft_repo f = rp_id upload_repo \<and> ft_hash f = bl_hash upload_blob \<longrightarrow>
       ft_check_sum f = bl_check_sum upload_blob) (db_trees (ad_db (sv_data s')))
   | _ \<Rightarrow> False"
  by code_simp


lemma upload_sample_copy: "working_copy upload_call (ad_db (sv_data upload_server)) ''alice'' ''data'' ''main'' upload_repo upload_wip"
  unfolding working_copy_def
  by (rule exI [of _ user_sample], rule exI [of _ user_sample], rule exI [of _ upload_branch]) code_simp

lemma upload_sample_tree: "tree_at pad_env (rp_id upload_repo) [] [] (DDir [])"
  by (simp add: tree_at_def NewTreeNode_def NewRootTreeEntry_def TreeEntry_Equal_def EmptyDirEntry_def root_rep_def dt_ok.simps)

lemma upload_sample_collision_free:
  "case dt_add (path_segs (CleanPath ''d/a.txt'')) (bl_hash upload_blob) (DDir []) of
     Inl e \<Rightarrow> True | Inr t' \<Rightarrow> collision_free pad_env (rp_id upload_repo) [] (subtrees t')"
  "dt_replace (path_segs (CleanPath ''d/a.txt'')) (bl_hash upload_blob) (DDir []) = Inl ErrPathNotFound"
  by code_simp+

theorem uploaded_object_downloads_witness:
  "\<exists>s' hs. UploadObject upload_call ''alice'' ''data'' upload_sample ''main'' ''d/a.txt'' None upload_server = Some (Some (), s') \<and>
    GetObject upload_call ''alice'' ''data'' InWip ''main'' ''d/a.txt'' None s' =
      Some (Some (), s'\<lparr>sv_out := sv_out s' @ [(200, Content hs ''hello'')]\<rparr>)"
proof -
  obtain s' where run: "UploadObject upload_call ''alice'' ''data'' upload_sample ''main'' ''d/a.txt'' None upload_server = Some (Some (), s')"
    "list_all (\<lambda>f. ft_repo f = rp_id upload_repo \<and> ft_hash f = bl_hash upload_blob \<longrightarrow>
      ft_check_sum f = bl_check_sum upload_blob) (db_trees (ad_db (sv_data s')))"
    using upload_sample_runs by (auto split: option.splits prod.splits)
  have copy: "tree_at (ca_env upload_call) (rp_id upload_repo) (db_trees (ad_db (sv_data upload_server))) (wp_tree upload_wip) (DDir [])"
    using upload_sample_tree by (simp add: upload_call_def upload_server_def upload_wip_def)
  have reader: "upload_reader upload_sample = Inr ([], ''hello'')" by code_simp
  have adapter: "repo_adapter upload_call upload_repo = Inr (local_adapter data_store)"
    by (simp add: repo_adapter_def upload_repo_def repository_sample_def upload_call_def)
  have ns: "rp_namespace upload_repo = Some (DefaultNamespacePrefix @ ''r'')"
    by (simp add: upload_repo_def DefaultNamespacePrefix_def)
  have store: "block_store (local_adapter data_store) (rp_namespace upload_repo) (dir_ok (ns_root data_store ''r''))"
    unfolding ns by (rule local_block_store [OF data_store_ok])
  have good: "dir_ok (ns_root data_store ''r'') (sv_blocks upload_server)"
    using dir_ok_empty [OF data_store_ok] by (simp add: upload_server_def)
  have laws: "hex_coder (ca_encode upload_call)" "digest16 (ca_env upload_call)"
    using hex_coder_encode digest16_pad by (simp_all add: upload_call_def)
  have blob: "upload_blob = blob_of (ca_env upload_call) DefaultLeafProperty (rp_id upload_repo) ''hello''"
    by (simp add: upload_blob_def upload_call_def)
  have cf: "collision_free (ca_env upload_call) (rp_id upload_repo) (db_trees (ad_db (sv_data upload_server))) (subtrees t')"
    if "dt_add (path_segs (CleanPath ''d/a.txt'')) (bl_hash upload_blob) (DDir []) = Inr t' \<or>
      dt_replace (path_segs (CleanPath ''d/a.txt'')) (bl_hash upload_blob) (DDir []) = Inr t'" for t'
    using upload_sample_collision_free that by (auto simp: upload_call_def upload_server_def)
  have "\<exists>hs. GetObject upload_call ''alice'' ''data'' InWip ''main'' ''d/a.txt'' None s' =
      Some (Some (), s'\<lparr>sv_out := sv_out s' @ [(200, Content hs ''hello'')]\<rparr>)"
    by (rule uploaded_object_downloads [OF run(1) reader upload_sample_copy copy adapter store good laws blob cf])
      (use run(2) in \<open>auto simp: list_all_iff\<close>)
  with run(1) show ?thesis by blast
qed

end
