(* ===== verification/Block_Keys.thy ===== *)
theory Block_Keys
  imports Local_Store
begin

section \<open>Names in block stores: block/namespace.go, block/path.go, block/transient\<close>

text \<open>
  Qualified keys name a content in a store of some kind; the adapters resolve a namespace and a key
  to one. Paths split a text at its slashes. The last part is the adapter that keeps nothing. The
  package net/url parses a text into scheme, host and path: the argument \<open>parse\<close>. The argument
  \<open>same\<close> is \<open>strings.EqualFold\<close>, which compares texts without case after the Unicode tables.
\<close>

subsection \<open>Kinds of stores\<close>

record uri =
  ur_Scheme :: string
  ur_Host :: string
  ur_Path :: string

datatype storage_type =
  StorageTypeMem | StorageTypeLocal | StorageTypeS3 | StorageTypeGS | StorageTypeAzure | StorageTypeOther int

definition st_Scheme :: "storage_type \<Rightarrow> string result" where
  "st_Scheme s =
     (case s of
        StorageTypeMem \<Rightarrow> Inr ''mem''
      | StorageTypeLocal \<Rightarrow> Inr ''local''
      | StorageTypeGS \<Rightarrow> Inr ''gs''
      | StorageTypeS3 \<Rightarrow> Inr ''s3''
      | StorageTypeAzure \<Rightarrow> Inr ''https''
      | StorageTypeOther _ \<Rightarrow> Inl (Panic ''unknown storage type''))"

definition st_BlockstoreType :: "storage_type \<Rightarrow> string result" where
  "st_BlockstoreType s = (if s = StorageTypeAzure then Inr ''azure'' else st_Scheme s)"

definition GetStorageType :: "uri \<Rightarrow> storage_type result" where
  "GetStorageType u =
     (if ur_Scheme u = ''s3'' then Inr StorageTypeS3
      else if ur_Scheme u \<in> set [''mem'', ''memory''] then Inr StorageTypeMem
      else if ur_Scheme u = ''local'' then Inr StorageTypeLocal
      else if ur_Scheme u = ''gs'' then Inr StorageTypeGS
      else if ur_Scheme u \<in> set [''http'', ''https''] then Inr StorageTypeAzure
      else Inl ErrInvalidAddress)"

definition ValidateStorageType :: "uri \<Rightarrow> storage_type \<Rightarrow> unit result" where
  "ValidateStorageType u expectedStorage =
     (case GetStorageType u of
        Inl e \<Rightarrow> Inl e
      | Inr storage \<Rightarrow>
          if storage \<noteq> expectedStorage then
            (case st_Scheme expectedStorage of Inl e \<Rightarrow> Inl e | Inr _ \<Rightarrow> Inl ErrInvalidAddress)
          else Inr ())"

subsection \<open>Qualified keys\<close>

record qualified_key =
  qk_StorageType :: storage_type
  qk_StorageNamespace :: string
  qk_Key :: string

definition formatPathWithNamespace :: "string \<Rightarrow> string \<Rightarrow> string" where
  "formatPathWithNamespace namespacePath keyPath =
     (let namespacePath = trim_by (\<lambda>c. c = CHR ''/'') namespacePath
      in if namespacePath = [] then trim_prefix keyPath ''/'' else namespacePath @ ''/'' @ keyPath)"

definition qk_Format :: "qualified_key \<Rightarrow> string result" where
  "qk_Format qk =
     (case st_Scheme (qk_StorageType qk) of
        Inl e \<Rightarrow> Inl e
      | Inr scheme \<Rightarrow> Inr (scheme @ ''://'' @ formatPathWithNamespace (qk_StorageNamespace qk) (qk_Key qk)))"

definition resolveFull :: "(string \<Rightarrow> uri result) \<Rightarrow> string \<Rightarrow> qualified_key result" where
  "resolveFull parse key =
     (case parse key of
        Inl e \<Rightarrow> Inl e
      | Inr parsedKey \<Rightarrow>
          (case GetStorageType parsedKey of
             Inl e \<Rightarrow> Inl e
           | Inr storageType \<Rightarrow>
               Inr \<lparr>qk_StorageType = storageType, qk_StorageNamespace = ur_Host parsedKey,
                 qk_Key = formatPathWithNamespace [] (ur_Path parsedKey)\<rparr>))"

definition resolveRelative :: "(string \<Rightarrow> uri result) \<Rightarrow> string \<Rightarrow> string \<Rightarrow> qualified_key result" where
  "resolveRelative parse defaultNamespace key =
     (case parse defaultNamespace of
        Inl _ \<Rightarrow> Inl ErrInvalidAddress
      | Inr parsedNS \<Rightarrow>
          (case GetStorageType parsedNS of
             Inl e \<Rightarrow> Inl e
           | Inr storageType \<Rightarrow>
               Inr \<lparr>qk_StorageType = storageType,
                 qk_StorageNamespace = trim_suffix (ur_Host parsedNS @ ur_Path parsedNS) ''/'', qk_Key = key\<rparr>))"

definition DefaultResolveNamespace ::
  "(string \<Rightarrow> uri result) \<Rightarrow> string \<Rightarrow> string \<Rightarrow> identifier_type \<Rightarrow> qualified_key result" where
  "DefaultResolveNamespace parse defaultNamespace key identifierType =
     (case identifierType of
        IdentifierTypeRelative \<Rightarrow> resolveRelative parse defaultNamespace key
      | IdentifierTypeFull \<Rightarrow> resolveFull parse key)"

definition resolveNamespaceUnknown :: "(string \<Rightarrow> uri result) \<Rightarrow> string \<Rightarrow> string \<Rightarrow> qualified_key result" where
  "resolveNamespaceUnknown parse defaultNamespace key =
     (case resolveFull parse key of
        Inr qk \<Rightarrow> Inr qk
      | Inl _ \<Rightarrow> resolveRelative parse defaultNamespace key)"

record namespace_info =
  ni_ValidityRegex :: string
  ni_Example :: string
  ni_DefaultNamespacePrefix :: string
  ni_PreSignSupport :: bool
  ni_PreSignSupportUI :: bool
  ni_ImportSupport :: bool
  ni_ImportValidityRegex :: string

definition DefaultExample :: "string \<Rightarrow> string" where
  "DefaultExample scheme = scheme @ ''://example-bucket/''"

definition DefaultValidationRegex :: "string \<Rightarrow> string" where
  "DefaultValidationRegex scheme = ''^'' @ scheme @ ''://''"

definition DefaultStorageNamespaceInfo :: "string \<Rightarrow> namespace_info" where
  "DefaultStorageNamespaceInfo scheme =
     \<lparr>ni_ValidityRegex = DefaultValidationRegex scheme, ni_Example = DefaultExample scheme,
      ni_DefaultNamespacePrefix = [], ni_PreSignSupport = True, ni_PreSignSupportUI = False, ni_ImportSupport = True,
      ni_ImportValidityRegex = DefaultValidationRegex scheme\<rparr>"

subsection \<open>The adapters' own\<close>

definition mem_GetStorageNamespaceInfo :: namespace_info where
  "mem_GetStorageNamespaceInfo =
     (DefaultStorageNamespaceInfo ''mem'')\<lparr>ni_PreSignSupport := False, ni_ImportSupport := False\<rparr>"

definition local_GetStorageNamespaceInfo :: "local_store \<Rightarrow> namespace_info" where
  "local_GetStorageNamespaceInfo l =
     (DefaultStorageNamespaceInfo ''local'')
       \<lparr>ni_PreSignSupport := False, ni_DefaultNamespacePrefix := DefaultNamespacePrefix, ni_ImportSupport := lo_importEnabled l\<rparr>"

record local_key = qualified_key +
  lk_path :: string

definition local_Format :: "local_key \<Rightarrow> string result" where
  "local_Format qk =
     (let p = path_Join [lk_path qk, qk_StorageNamespace qk, qk_Key qk]
      in case st_Scheme (qk_StorageType qk) of Inl e \<Rightarrow> Inl e | Inr scheme \<Rightarrow> Inr (scheme @ ''://'' @ p))"

definition local_ResolveNamespace ::
  "(string \<Rightarrow> uri result) \<Rightarrow> local_store \<Rightarrow> string \<Rightarrow> string \<Rightarrow> identifier_type \<Rightarrow> local_key result" where
  "local_ResolveNamespace parse l storageNamespace key identifierType =
     (case DefaultResolveNamespace parse storageNamespace key identifierType of
        Inl e \<Rightarrow> Inl e
      | Inr qk \<Rightarrow>
          (case extractParamsFromObj l
              \<lparr>StorageNamespace = storageNamespace, Identifier = key, IdentifierType = identifierType\<rparr> of
             Inl e \<Rightarrow> Inl e
           | Inr _ \<Rightarrow>
               Inr \<lparr>qk_StorageType = qk_StorageType qk, qk_StorageNamespace = qk_StorageNamespace qk, qk_Key = qk_Key qk,
                 lk_path = lo_path l\<rparr>))"

subsection \<open>Paths\<close>

record block_path =
  bp_str :: string
  bp_entryType :: string

definition EntryTypeTree :: string where "EntryTypeTree = ''tree''"
definition EntryTypeObject :: string where "EntryTypeObject = ''object''"

definition RootPath :: block_path where
  "RootPath = \<lparr>bp_str = [], bp_entryType = EntryTypeTree\<rparr>"

text \<open>Every part but the last gets its slash back.\<close>

fun suffixed_parts :: "string list \<Rightarrow> string list" where
  "suffixed_parts [] = []"
| "suffixed_parts [s] = [s]"
| "suffixed_parts (s # ss) = (s @ ''/'') # suffixed_parts ss"

definition block_Split :: "block_path \<Rightarrow> string list" where
  "block_Split p =
     (let parts = split_on (CHR ''/'') (bp_str p);
          parts = (if 2 \<le> length parts \<and> hd parts = [] then tl parts else parts);
          suffixedParts = suffixed_parts parts
      in if 2 \<le> length suffixedParts \<and> bp_entryType p = EntryTypeTree \<and> last suffixedParts = []
         then butlast suffixedParts else suffixedParts)"

fun JoinPathParts :: "string list \<Rightarrow> string" where
  "JoinPathParts [] = []"
| "JoinPathParts [part] = part"
| "JoinPathParts (part # parts) = part @ (if has_suffix part ''/'' then [] else ''/'') @ JoinPathParts parts"

definition block_String :: "block_path option \<Rightarrow> string" where
  "block_String p = (case p of None \<Rightarrow> [] | Some p \<Rightarrow> trim_prefix (JoinPathParts (block_Split p)) ''/'')"

text \<open>A path that is nil is compared with one that is not by reading a field of it.\<close>

definition block_Equals :: "(string \<Rightarrow> string \<Rightarrow> bool) \<Rightarrow> block_path option \<Rightarrow> block_path option \<Rightarrow> bool result" where
  "block_Equals same p other =
     (case (p, other) of
        (None, None) \<Rightarrow> Inr True
      | (_, None) \<Rightarrow> Inr False
      | (None, Some _) \<Rightarrow> Inl (Panic ''invalid memory address or nil pointer dereference'')
      | (Some p, Some q) \<Rightarrow>
          if bp_entryType p \<noteq> bp_entryType q then Inr False
          else if length (block_Split p) \<noteq> length (block_Split q) then Inr False
          else Inr (list_all2 same (block_Split p) (block_Split q)))"

definition block_IsRoot :: "(string \<Rightarrow> string \<Rightarrow> bool) \<Rightarrow> block_path \<Rightarrow> bool" where
  "block_IsRoot same p \<longleftrightarrow> block_Equals same (Some p) (Some RootPath) = Inr True"

definition block_BaseName :: "block_path \<Rightarrow> string" where
  "block_BaseName p =
     (let parts = block_Split p in
      if parts = [] then []
      else if 1 < length parts \<and> last parts = [] \<and> bp_entryType p = EntryTypeTree then parts ! (length parts - 2)
      else last parts)"

definition block_ParentPath :: "(string \<Rightarrow> string \<Rightarrow> bool) \<Rightarrow> block_path \<Rightarrow> string" where
  "block_ParentPath same p =
     (if block_IsRoot same p then []
      else
        (let parts = block_Split p in
         if length parts \<le> 1 then []
         else if last parts = [] \<and> bp_entryType p = EntryTypeTree then JoinPathParts (take (length parts - 2) parts)
         else JoinPathParts (take (length parts - 1) parts)))"

subsection \<open>The adapter that keeps nothing\<close>

text \<open>
  \<open>random n\<close> are the bytes that crypto/rand delivers, \<open>etag\<close> is the text of a SHA-256 digest.
\<close>

definition ErrUnexpectedEOF :: error where "ErrUnexpectedEOF = ErrMsg ''unexpected EOF''"

definition transient_Put :: "object_pointer \<Rightarrow> int \<Rightarrow> bytes \<Rightarrow> unit \<Rightarrow> unit result \<times> unit" where
  "transient_Put obj sizeBytes data a = (Inr (), a)"

definition transient_Get :: "(nat \<Rightarrow> bytes) \<Rightarrow> object_pointer \<Rightarrow> int \<Rightarrow> unit \<Rightarrow> bytes result" where
  "transient_Get random obj expectedSize a =
     (if expectedSize < 0 then Inl ErrUnexpectedEOF else Inr (random (nat expectedSize)))"

definition transient_Exists :: "object_pointer \<Rightarrow> unit \<Rightarrow> bool result" where
  "transient_Exists obj a = Inr True"

definition transient_GetRange :: "(nat \<Rightarrow> bytes) \<Rightarrow> object_pointer \<Rightarrow> int \<Rightarrow> int \<Rightarrow> unit \<Rightarrow> bytes result" where
  "transient_GetRange random obj startPosition endPosition a =
     (let n = endPosition - startPosition
      in if n < 0 then Inl ErrUnexpectedEOF else Inr (random (nat n)))"

definition transient_GetProperties :: "object_pointer \<Rightarrow> unit \<Rightarrow> properties result" where
  "transient_GetProperties obj a = Inr None"

definition transient_Remove :: "object_pointer \<Rightarrow> unit \<Rightarrow> unit result \<times> unit" where
  "transient_Remove obj a = (Inr (), a)"

definition transient_RemoveNameSpace :: "string \<Rightarrow> unit \<Rightarrow> unit result \<times> unit" where
  "transient_RemoveNameSpace storageNamespace a = (Inl (Panic ''implement me''), a)"

definition transient_Copy :: "object_pointer \<Rightarrow> object_pointer \<Rightarrow> unit \<Rightarrow> unit result \<times> unit" where
  "transient_Copy sourceObj destinationObj a = (Inr (), a)"

definition transient_UploadCopyPart :: "(bytes \<Rightarrow> string) \<Rightarrow> string result" where
  "transient_UploadCopyPart etag = Inr (etag [])"

definition transient_UploadCopyPartRange :: "(bytes \<Rightarrow> string) \<Rightarrow> int \<Rightarrow> int \<Rightarrow> string result" where
  "transient_UploadCopyPartRange etag startPosition endPosition =
     (let n = endPosition - startPosition in if n < 0 then Inl ErrUnexpectedEOF else Inr (etag []))"

definition transient_CreateMultiPartUpload :: "(bytes \<Rightarrow> string) \<Rightarrow> uuid \<Rightarrow> string result" where
  "transient_CreateMultiPartUpload encode fresh = Inr (encode fresh)"

definition transient_UploadPart :: "(bytes \<Rightarrow> string) \<Rightarrow> bytes \<Rightarrow> string result" where
  "transient_UploadPart etag data = Inr (etag data)"

definition transient_AbortMultiPartUpload :: "object_pointer \<Rightarrow> string \<Rightarrow> unit result" where
  "transient_AbortMultiPartUpload obj uploadID = Inr ()"

definition transient_CompleteMultiPartUpload :: "(nat \<Rightarrow> bytes) \<Rightarrow> (bytes \<Rightarrow> string) \<Rightarrow> (string \<times> nat) result" where
  "transient_CompleteMultiPartUpload random etag = (let dataSize = 1024 in Inr (etag (random dataSize), dataSize))"

definition transient_GetStorageNamespaceInfo :: namespace_info where
  "transient_GetStorageNamespaceInfo =
     (DefaultStorageNamespaceInfo ''transient'')
       \<lparr>ni_PreSignSupport := False, ni_PreSignSupportUI := False, ni_ImportSupport := False\<rparr>"

definition transient_adapter :: "(nat \<Rightarrow> bytes) \<Rightarrow> unit adapter" where
  "transient_adapter random =
     \<lparr>blk_Put = transient_Put, blk_Get = transient_Get random, blk_GetRange = transient_GetRange random,
      blk_RemoveNameSpace = transient_RemoveNameSpace\<rparr>"

subsection \<open>What the operations do\<close>

lemma concat_suffixed: "concat (suffixed_parts ss) = join_with ''/'' ss"
  by (induction ss rule: suffixed_parts.induct) simp_all

lemma suffixed_has_suffix: "q \<in> set (butlast (suffixed_parts ss)) \<Longrightarrow> has_suffix q ''/''"
  by (induction ss rule: suffixed_parts.induct) (auto simp: has_suffix_def split: if_splits)

lemma JoinPathParts_concat:
  "\<forall>q \<in> set (butlast ps). has_suffix q ''/'' \<Longrightarrow> JoinPathParts ps = concat ps"
  by (induction ps rule: JoinPathParts.induct) (auto split: if_splits)

lemma concat_butlast: "ps \<noteq> [] \<Longrightarrow> last ps = [] \<Longrightarrow> concat (butlast ps) = concat ps"
  by (induction ps) (auto split: if_splits)

lemma block_Split_parts:
  obtains ps where "concat ps = trim_prefix (bp_str p) ''/''" "\<forall>q \<in> set (butlast ps). has_suffix q ''/''" "ps \<noteq> []"
    "block_Split p = (if 2 \<le> length ps \<and> bp_entryType p = EntryTypeTree \<and> last ps = [] then butlast ps else ps)"
proof -
  let ?ss = "split_on (CHR ''/'') (bp_str p)"
  let ?rs = "if 2 \<le> length ?ss \<and> hd ?ss = [] then tl ?ss else ?ss"
  have "join_with ''/'' ?rs = trim_prefix (bp_str p) ''/''"
  proof (cases "has_prefix (bp_str p) ''/''")
    case True
    then obtain r where "bp_str p = CHR ''/'' # r" by (cases "bp_str p") (auto simp: has_prefix_def)
    then show ?thesis using join_split_on [of "CHR ''/''" r] True
      by (cases "split_on (CHR ''/'') r") (simp_all add: trim_prefix_def has_prefix_def)
  next
    case False
    then have "?rs = ?ss"
      by (cases "bp_str p") (auto simp: has_prefix_def split: list.splits)
    then show ?thesis using join_split_on [of "CHR ''/''" "bp_str p"] False by (simp add: trim_prefix_def)
  qed
  then have "concat (suffixed_parts ?rs) = trim_prefix (bp_str p) ''/''" by (simp only: concat_suffixed)
  moreover have "?rs \<noteq> []" by (cases ?ss) auto
  then have "suffixed_parts ?rs \<noteq> []" by (cases ?rs rule: suffixed_parts.cases) simp_all
  ultimately show thesis
    using suffixed_has_suffix [of _ ?rs] by (intro that [of "suffixed_parts ?rs"]) (simp_all add: block_Split_def Let_def)
qed

lemma block_Split_ok:
  "concat (block_Split p) = trim_prefix (bp_str p) ''/''" (is ?C)
  "\<forall>q \<in> set (butlast (block_Split p)). has_suffix q ''/''" (is ?S)
  "block_Split p \<noteq> []" (is ?N)
  "1 < length (block_Split p) \<Longrightarrow> bp_entryType p = EntryTypeTree \<Longrightarrow> last (block_Split p) \<noteq> []"
proof -
  obtain ps where ps: "concat ps = trim_prefix (bp_str p) ''/''" "\<forall>q \<in> set (butlast ps). has_suffix q ''/''" "ps \<noteq> []"
    "block_Split p = (if 2 \<le> length ps \<and> bp_entryType p = EntryTypeTree \<and> last ps = [] then butlast ps else ps)"
    by (rule block_Split_parts)
  have last: "last (butlast ps) \<noteq> []" if "1 < length (butlast ps)"
  proof -
    have "butlast ps \<noteq> []" using that by (cases "butlast ps") simp_all
    then have "has_suffix (last (butlast ps)) ''/''" using ps(2) last_in_set by blast
    then show ?thesis by (auto simp: has_suffix_def)
  qed
  have ne: "butlast ps \<noteq> []" if "2 \<le> length ps" using that by (cases ps rule: suffixed_parts.cases) simp_all
  show ?C using ps(1,4) concat_butlast [OF ps(3)] by (simp split: if_splits)
  show ?S using ps(2,4) in_set_butlastD [of _ "butlast ps"] by (auto split: if_splits)
  show ?N using ps(3,4) ne by (simp split: if_splits)
  show "1 < length (block_Split p) \<Longrightarrow> bp_entryType p = EntryTypeTree \<Longrightarrow> last (block_Split p) \<noteq> []"
    using ps(4) last by (auto split: if_splits)
qed

text \<open>The parent and the base name of a path make up the path again, without its first slash.\<close>

lemma parent_and_base: "block_ParentPath same p @ block_BaseName p = trim_prefix (bp_str p) ''/''"
proof -
  let ?ps = "block_Split p"
  note ok = block_Split_ok [of p]
  have base: "block_BaseName p = last ?ps" using ok(3,4) by (auto simp: block_BaseName_def Let_def)
  have "length (block_Split RootPath) = 1" by code_simp
  then have root: "length ?ps \<le> 1" if "block_IsRoot same p"
    using that by (auto simp: block_IsRoot_def block_Equals_def split: if_splits)
  show ?thesis
  proof (cases "length ?ps \<le> 1")
    case True
    then have "?ps = [last ?ps]" using ok(3) by (cases ?ps) auto
    then have "concat ?ps = last ?ps" by (metis append_Nil2 concat.simps)
    then show ?thesis using True base ok(1) by (simp add: block_ParentPath_def Let_def)
  next
    case False
    then have "block_ParentPath same p = JoinPathParts (butlast ?ps)"
      using ok(4) root by (auto simp: block_ParentPath_def Let_def butlast_conv_take)
    also have "\<dots> = concat (butlast ?ps)" using ok(2) by (intro JoinPathParts_concat) (auto dest: in_set_butlastD)
    finally have "block_ParentPath same p @ last ?ps = concat (butlast ?ps @ [last ?ps])" by simp
    then show ?thesis using ok(1,3) base by simp
  qed
qed

text \<open>An adapter that keeps nothing does not do what the program needs.\<close>

lemma transient_is_no_block_store: "good () \<Longrightarrow> \<not> block_store (transient_adapter random) ns good"
proof
  assume "good ()" "block_store (transient_adapter random) ns good"
  moreover have "blob_address ''aa/bb''" by (simp add: blob_address_def)
  ultimately have "transient_Get random (blob_pointer ns ''aa/bb'') 0 () = Inr b" for b
    using block_store.get_put [of "transient_adapter random" ns good "()" "''aa/bb''" 0 b "Inr ()" "()" 0]
    by (simp add: transient_adapter_def transient_Put_def)
  from this [of "[]"] this [of "''x''"] show False by simp
qed

end
