(* ===== verification/Spec2Isabelle.thy ===== *)
theory Spec2Isabelle
  imports Upload_Props Block_Keys
begin

text \<open>
  A model of jiaozifs, a versioned store for data files, written in Go. Users keep files in
  repositories with branches, tags and commits; a working copy (wip) collects edits of one user
  on one branch until they are committed; merge requests join branches by a three-way merge.

  The parts of the program and the theories that model them, in the order of their imports:

  \<^item> Values. \<open>Prelude\<close>: Go errors as sums, state passing, the string functions. \<open>File_Mode\<close>:
    models/filemode. \<open>Hashing\<close>: utils/hash and utils/pathutil.
  \<^item> Objects. \<open>Tables\<close>: the meaning of the SQL statements that models/ builds. \<open>Object_Model\<close>:
    blobs, directories and their table (models/tree.go), addressed by content.
  \<^item> Differences of trees, versionmgr/merkletrie. \<open>Noder_Path\<close>, \<open>Trie_Iter\<close>, \<open>Diff_Tree\<close> model
    noders, the iterators and \<open>DiffTree\<close>; \<open>Diff_Refine\<close> shows that its loop ends and is one merge
    of two walks, \<open>Diff_Spec\<close> what the merge computes on sets of files, \<open>Tree_Noder\<close>
    (versionmgr/tree_node.go) instantiates both on stored directories.
  \<^item> Edits of trees. \<open>Work_Tree\<close> models versionmgr/worktree.go and files_walk.go; \<open>Work_Tree_Spec\<close>
    is the abstract edit, \<open>Work_Tree_Refine\<close> the refinement, \<open>Work_Tree_Props\<close> the properties.
  \<^item> Change sets. \<open>Changes\<close> models versionmgr/changes.go and conflict.go; \<open>Changes_Merge\<close> shows that
    their merge is a three-way merge of file maps.
  \<^item> History. \<open>Commit_Graph\<close> models models/commit.go and versionmgr/commit_node.go, \<open>Commit_Walk\<close> the
    five walks of versionmgr/commit_walker*.go, \<open>Commit_Walk_Props\<close> their contract, \<open>Merge_Base\<close>
    versionmgr/merge_base.go with its properties.
  \<^item> Metadata and sessions. \<open>Repos\<close> models the tables of models/ (users, repositories, branches,
    working copies, tags, merge requests), \<open>Work_Repo\<close> and \<open>Merge_Commits\<close> versionmgr/work_repo.go.
    \<open>Repos_Props\<close>, \<open>Work_Repo_Inv\<close>, \<open>Work_Repo_Props\<close>, \<open>Merge_Result\<close> and \<open>Session_Edits\<close> hold
    their properties: sequence numbers and paging, the invariant of concurrent sessions, what a
    commit and a merge contain, what a sequence of edits leaves in a working copy.
  \<^item> Access control. \<open>Wildcard\<close> models auth/rbac/wildcard, \<open>Arn\<close> auth/rbac/arn.go and the resource
    names and actions of models/rbacmodel, \<open>Access_Tables\<close> its tables and models/members.go, \<open>Rbac\<close>
    auth/rbac/rbac.go and statements.go. \<open>Rbac_Props\<close> and \<open>Rbac_Roles\<close> show what it decides.
  \<^item> Contents. \<open>Http_Range\<close>: utils/httputil/range.go. \<open>Blocks\<close>: the interface of block stores
    (block/adapter.go), the in-memory store (block/mem) and the two functions of work_repo.go that
    write and read the contents of a blob. \<open>Local_Store\<close>: the store in a directory (block/local) over a
    model of a file system; \<open>Local_Store_Props\<close> shows that it keeps the promise of the interface.
    \<open>Block_Keys\<close>: block/namespace.go, block/path.go and the store that keeps nothing (block/transient).
  \<^item> Requests and replies. \<open>Validator\<close>: controller/validator. \<open>Responses\<close>: the replies of api/ and how
    rows become their bodies. \<open>Handlers\<close>: what handlers are made of, and controller/base_ctl.go.
    \<open>Ref_Controllers\<close>, \<open>Wip_Controllers\<close>, \<open>Repo_Controllers\<close>, \<open>Versions\<close>: the handlers of
    controller/, guard by guard; models/aksk.go and the zip archive.
  \<^item> Who asks. \<open>Tokens\<close>: auth/token.go and auth/crypt. \<open>Url_Values\<close>: the query strings of net/url,
    \<open>Signed_Requests\<close>: auth/aksk, \<open>Authentication\<close>: auth/auth_middleware.go and auth/aksk.go.
  \<^item> \<open>Server\<close> puts all operations of the interface together (api/api_impl). \<open>Server_Safety\<close> shows
    what a request can do without permission, \<open>Reader_Safety\<close> what a member who may only read can do.
    \<open>Handler_Props\<close> is about the removal of a repository and the log of commits. \<open>Upload_Props\<close>
    follows an upload and the download after it through access control, working copy, tree and store.

  A definition has the name of the Go function, where needed with its receiver's name in front.
  A struct is a record whose fields carry a prefix (\<open>wp_\<close> for working copies, \<open>br_\<close> for branches
  and so on). A method that changes its receiver or the database takes the state and returns it.

  What is a parameter: the digest functions and the clock (record \<open>env\<close>), the hexadecimal coder,
  the text of an id, the fresh ids of the database and the closing of a context; what a request
  brings along (record \<open>call\<close>); the packages jwt, scrypt, secretbox, bcrypt, HMAC, glob, mime and
  archive/zip. Assumptions about them are named where they are used: a digest is not empty
  (\<open>digest_nonempty\<close>), the finitely many objects of one edit do not collide (\<open>collision_free\<close>),
  the text of an id is a plain name, a signed token of plain claims is
  parsed again until it expires (\<open>jwt_laws\<close>).

  Loops. Structural loops are recursive functions. The loops that need not end (\<open>DiffTree\<close>, the walks,
  the search for merge bases, the recursion of \<open>findBestAncestor\<close>) are partial functions into
  \<open>option\<close> where \<open>None\<close> is a run without end; the theorems about them say that the value is
  \<open>Some\<close>. No fuel is used.
\<close>

text \<open>
  Not modelled, and why:

  \<^item> The clients, wrappers and parsers that are generated into api/jiaozifs.gen.go, and the mocks.
    Its types and the interface of the server are modelled.
  \<^item> cmd/, config/, fx_opt/, api/api_impl/server.go and main.go connect HTTP, the command line and
    the dependency container and have no logic of their own.
  \<^item> The block stores that call the SDKs of S3, GCS, Azure and IPFS, the walkers of the stores, which
    have no caller, and the factory. What the handlers use of a store is the interface \<open>block_store\<close>.
    The file system of \<open>Local_Store\<close> has no links, permissions or full disks.
  \<^item> merkletrie/internal/fsnoder is a second noder that only the tests of the package use.
  \<^item> Locks, failures of the connection to the database and the isolation level of transactions:
    operations run one at a time, which is what serialisable transactions promise.
\<close>

end
